(* ===== verification/Prelude.thy ===== *)
theory Prelude
  imports Main "HOL-Library.Word" "HOL-Library.Multiset"
begin

text \<open>
  Shared vocabulary of the development: the outcome types that stand for Rust's
  \<^verbatim>\<open>Result\<close> and for panics, the checked and saturating operations of \<^verbatim>\<open>usize\<close>,
  indexing and slicing with their panics, little-endian byte images, and the generic
  lemmas on lists, multisets and outcomes that the component theories use.

  Machine integers. A \<^verbatim>\<open>usize\<close> is a \<open>nat\<close>; the operations that the source checks
  (\<^verbatim>\<open>checked_add\<close>, \<^verbatim>\<open>checked_sub\<close>, \<^verbatim>\<open>checked_mul\<close>) test the 64-bit bound
  explicitly, and the subtractions it saturates are \<open>nat\<close> subtraction. A \<^verbatim>\<open>u32\<close> is a
  \<open>32 word\<close> and a hash (\<^verbatim>\<open>i64\<close>) a \<open>64 word\<close>, so their arithmetic wraps.
\<close>

named_theorems outcome_simps \<open>evaluation of outcome combinators\<close>
named_theorems frame_simps \<open>fields an operation does not write\<close>

section \<open>Outcomes\<close>

text \<open>A Rust call returns a value, returns \<^verbatim>\<open>Err\<close>, or panics.\<close>

datatype 'e failure = Panic | Err 'e

type_synonym ('e, 'a) outcome = "'e failure + 'a"

abbreviation Ok :: "'a \<Rightarrow> ('e, 'a) outcome" where
  "Ok x \<equiv> Inr x"

abbreviation Error :: "'e \<Rightarrow> ('e, 'a) outcome" where
  "Error e \<equiv> Inl (Err e)"

abbreviation Panicked :: "('e, 'a) outcome" where
  "Panicked \<equiv> Inl Panic"

text \<open>The \<^verbatim>\<open>?\<close> operator: continue with the value, or return the failure.\<close>

definition rbind :: "'f + 'a \<Rightarrow> ('a \<Rightarrow> 'f + 'b) \<Rightarrow> 'f + 'b" where
  "rbind m f = (case m of Inl e \<Rightarrow> Inl e | Inr x \<Rightarrow> f x)"

text \<open>\<^verbatim>\<open>Result::map_err\<close>; a panic passes through unchanged.\<close>

definition map_err :: "('e \<Rightarrow> 'd) \<Rightarrow> ('e, 'a) outcome \<Rightarrow> ('d, 'a) outcome" where
  "map_err f m = (case m of Inl Panic \<Rightarrow> Panicked | Inl (Err e) \<Rightarrow> Error (f e) | Inr x \<Rightarrow> Ok x)"

text \<open>\<^verbatim>\<open>iter().map(f).collect::<Result<Vec<_>, _>>()\<close>: the first failure wins.\<close>

fun rcollect :: "('a \<Rightarrow> 'f + 'b) \<Rightarrow> 'a list \<Rightarrow> 'f + 'b list" where
  "rcollect f [] = Inr []"
| "rcollect f (x # xs) = rbind (f x) (\<lambda>y. rbind (rcollect f xs) (\<lambda>ys. Inr (y # ys)))"

lemma rbind_simps [simp, outcome_simps]:
  "rbind (Inl e) f = Inl e"
  "rbind (Inr x) f = f x"
  by (simp_all add: rbind_def)

lemma rbind_Ok_iff: "rbind m f = Inr y \<longleftrightarrow> (\<exists>x. m = Inr x \<and> f x = Inr y)"
  by (cases m) simp_all

lemma rbind_Inl_iff: "rbind m f = Inl e \<longleftrightarrow> m = Inl e \<or> (\<exists>x. m = Inr x \<and> f x = Inl e)"
  by (cases m) auto

lemma map_err_simps [simp, outcome_simps]:
  "map_err f Panicked = Panicked"
  "map_err f (Error e) = Error (f e)"
  "map_err f (Ok x) = Ok x"
  by (simp_all add: map_err_def)

lemma map_err_Ok_iff [simp]: "map_err f m = Ok x \<longleftrightarrow> m = Ok x"
  by (auto simp: map_err_def split: sum.splits failure.splits)

lemma map_err_Panic_iff [simp]: "map_err f m = Panicked \<longleftrightarrow> m = Panicked"
  by (auto simp: map_err_def split: sum.splits failure.splits)

lemma map_err_Error_iff: "map_err f m = Error d \<longleftrightarrow> (\<exists>e. m = Error e \<and> d = f e)"
  by (auto simp: map_err_def split: sum.splits failure.splits)

lemma rcollect_Ok_iff:
  "rcollect f xs = Inr ys \<longleftrightarrow> length ys = length xs \<and> (\<forall>i < length xs. f (xs ! i) = Inr (ys ! i))"
proof (induction xs arbitrary: ys)
  case Nil
  then show ?case by auto
next
  case (Cons x xs)
  show ?case
  proof (cases ys)
    case Nil
    then show ?thesis by (auto simp: rbind_Ok_iff)
  next
    case (Cons y zs)
    then show ?thesis
      using Cons.IH [of zs] by (auto simp: rbind_Ok_iff less_Suc_eq_0_disj)
  qed
qed

lemma rcollect_total:
  "(\<And>x. x \<in> set xs \<Longrightarrow> f x = Inr (g x)) \<Longrightarrow> rcollect f xs = Inr (map g xs)"
  by (induction xs) auto

section \<open>Machine arithmetic\<close>

type_synonym token = "32 word"
type_synonym i64 = "64 word"

definition usize_bound :: nat where
  "usize_bound = 2 ^ 64"

definition checked_add :: "nat \<Rightarrow> nat \<Rightarrow> nat option" where
  "checked_add a b = (if a + b < usize_bound then Some (a + b) else None)"

definition checked_mul :: "nat \<Rightarrow> nat \<Rightarrow> nat option" where
  "checked_mul a b = (if a * b < usize_bound then Some (a * b) else None)"

definition checked_sub :: "nat \<Rightarrow> nat \<Rightarrow> nat option" where
  "checked_sub a b = (if b \<le> a then Some (a - b) else None)"

definition saturating_add :: "nat \<Rightarrow> nat \<Rightarrow> nat" where
  "saturating_add a b = min (a + b) (usize_bound - 1)"

definition saturating_mul :: "nat \<Rightarrow> nat \<Rightarrow> nat" where
  "saturating_mul a b = min (a * b) (usize_bound - 1)"

text \<open>\<^verbatim>\<open>usize::div_ceil\<close>.\<close>

definition div_ceil :: "nat \<Rightarrow> nat \<Rightarrow> nat" where
  "div_ceil n d = n div d + (if n mod d > 0 then 1 else 0)"

text \<open>\<^verbatim>\<open>value as i64\<close> on a \<^verbatim>\<open>usize\<close>: the two's complement reading of the low 64 bits.\<close>

definition usize_as_i64 :: "nat \<Rightarrow> int" where
  "usize_as_i64 n = sint (word_of_nat n :: 64 word)"

text \<open>\<^verbatim>\<open>to_le_bytes\<close>.\<close>

definition le_bytes32 :: "32 word \<Rightarrow> 8 word list" where
  "le_bytes32 w = map (\<lambda>i. ucast (drop_bit (8 * i) w)) [0..<4]"

definition le_bytes64 :: "64 word \<Rightarrow> 8 word list" where
  "le_bytes64 w = map (\<lambda>i. ucast (drop_bit (8 * i) w)) [0..<8]"

lemma checked_sub_Some_iff [simp]: "checked_sub a b = Some c \<longleftrightarrow> b \<le> a \<and> c = a - b"
  by (auto simp: checked_sub_def)

lemma checked_sub_None_iff [simp]: "checked_sub a b = None \<longleftrightarrow> a < b"
  by (auto simp: checked_sub_def)

lemma checked_add_Some: "checked_add a b = Some c \<Longrightarrow> c = a + b \<and> c < usize_bound"
  by (auto simp: checked_add_def split: if_splits)

lemma checked_mul_Some: "checked_mul a b = Some c \<Longrightarrow> c = a * b \<and> c < usize_bound"
  by (auto simp: checked_mul_def split: if_splits)

lemma div_ceil_0 [simp]: "div_ceil 0 d = 0"
  by (simp add: div_ceil_def)

lemma div_ceil_upper: "0 < d \<Longrightarrow> n \<le> div_ceil n d * d"
proof -
  assume d: "0 < d"
  have eq: "n div d * d + n mod d = n" by (rule div_mult_mod_eq)
  have lt: "n mod d < d" using d by simp
  show ?thesis
  proof (cases "n mod d > 0")
    case True
    then have "div_ceil n d * d = n div d * d + d" by (simp add: div_ceil_def)
    with eq lt show ?thesis by linarith
  next
    case False
    then have "div_ceil n d * d = n div d * d" by (simp add: div_ceil_def)
    with eq False show ?thesis by linarith
  qed
qed

lemma div_ceil_lower: "0 < d \<Longrightarrow> 0 < n \<Longrightarrow> (div_ceil n d - 1) * d < n"
proof -
  assume d: "0 < d" and n: "0 < n"
  have eq: "n div d * d + n mod d = n" by (rule div_mult_mod_eq)
  show ?thesis
  proof (cases "n mod d > 0")
    case True
    with eq have "n div d * d < n" by linarith
    with True show ?thesis by (simp add: div_ceil_def)
  next
    case False
    with eq have "n = n div d * d" by linarith
    moreover from this n have "0 < n div d" by (metis gr0I mult_0 not_less0)
    moreover have "div_ceil n d = n div d" using False by (simp add: div_ceil_def)
    ultimately show ?thesis using d by (metis diff_less mult_less_cancel2 zero_less_one)
  qed
qed

lemma div_ceil_le_iff: "0 < d \<Longrightarrow> div_ceil n d \<le> k \<longleftrightarrow> n \<le> k * d"
proof -
  assume d: "0 < d"
  show ?thesis
  proof
    assume "div_ceil n d \<le> k"
    then have "div_ceil n d * d \<le> k * d" by simp
    with div_ceil_upper [OF d, of n] show "n \<le> k * d" by linarith
  next
    assume le: "n \<le> k * d"
    show "div_ceil n d \<le> k"
    proof (cases "n = 0")
      case True
      then show ?thesis by simp
    next
      case False
      with div_ceil_lower [OF d, of n] le have "(div_ceil n d - 1) * d < k * d" by linarith
      then have "div_ceil n d - 1 < k" using d by simp
      then show ?thesis by linarith
    qed
  qed
qed

lemma less_div_ceil_iff: "0 < d \<Longrightarrow> k < div_ceil n d \<longleftrightarrow> k * d < n"
  using div_ceil_le_iff [of d n k] by linarith

lemma div_ceil_mono: "0 < d \<Longrightarrow> m \<le> n \<Longrightarrow> div_ceil m d \<le> div_ceil n d"
  by (meson div_ceil_le_iff div_ceil_upper le_trans)

lemma div_le_div_ceil: "n div d \<le> div_ceil n d"
  by (simp add: div_ceil_def)

lemma div_ceil_Suc: "0 < d \<Longrightarrow> div_ceil (Suc n) d = (if n mod d = 0 then Suc (div_ceil n d) else div_ceil n d)"
proof -
  assume d: "0 < d"
  have *: "Suc n = n div d * d + Suc (n mod d)" by simp
  show ?thesis
  proof (cases "Suc (n mod d) = d")
    case True
    then have "Suc n = (n div d + 1) * d" using * by (simp add: algebra_simps)
    then have "Suc n div d = n div d + 1" "Suc n mod d = 0" using d by (simp_all del: mult_Suc)
    then show ?thesis using True d by (auto simp: div_ceil_def)
  next
    case False
    moreover have "n mod d < d" using d by simp
    ultimately have lt: "Suc (n mod d) < d" by linarith
    have "Suc n div d = n div d" using lt * d by (metis div_less div_mult_self3 add.right_neutral add.commute less_nat_zero_code)
    moreover have "Suc n mod d = Suc (n mod d)" using lt by (simp add: mod_Suc)
    ultimately show ?thesis by (auto simp: div_ceil_def)
  qed
qed

lemma usize_as_i64_small: "n < 2 ^ 63 \<Longrightarrow> usize_as_i64 n = int n"
  by (simp add: usize_as_i64_def signed_of_nat signed_take_bit_int_eq_self)

section \<open>Indexing, slicing and iterators\<close>

text \<open>\<^verbatim>\<open>xs[i]\<close>: a panic out of range.\<close>

definition index :: "'a list \<Rightarrow> nat \<Rightarrow> ('e, 'a) outcome" where
  "index xs i = (if i < length xs then Ok (xs ! i) else Panicked)"

text \<open>\<^verbatim>\<open>xs[a..b]\<close>: a panic unless \<open>a \<le> b \<le> length xs\<close>.\<close>

definition slice_range :: "'a list \<Rightarrow> nat \<Rightarrow> nat \<Rightarrow> ('e, 'a list) outcome" where
  "slice_range xs a b = (if a \<le> b \<and> b \<le> length xs then Ok (take (b - a) (drop a xs)) else Panicked)"

text \<open>\<^verbatim>\<open>Iterator::max_by_key\<close>: the last element of greatest key.\<close>

fun max_by_key :: "('a \<Rightarrow> 'k::linorder) \<Rightarrow> 'a list \<Rightarrow> 'a option" where
  "max_by_key k [] = None"
| "max_by_key k (x # xs) =
     (case max_by_key k xs of None \<Rightarrow> Some x | Some y \<Rightarrow> if k y < k x then Some x else Some y)"

lemma index_in [simp]: "i < length xs \<Longrightarrow> index xs i = Ok (xs ! i)"
  by (simp add: index_def)

lemma index_Ok_iff: "index xs i = Ok x \<longleftrightarrow> i < length xs \<and> x = xs ! i"
  by (auto simp: index_def)

lemma slice_range_in [simp]: "a \<le> b \<Longrightarrow> b \<le> length xs \<Longrightarrow> slice_range xs a b = Ok (take (b - a) (drop a xs))"
  by (simp add: slice_range_def)

lemma max_by_key_None_iff [simp]: "max_by_key k xs = None \<longleftrightarrow> xs = []"
  by (cases xs) (auto split: option.splits)

lemma max_by_key_in: "max_by_key k xs = Some x \<Longrightarrow> x \<in> set xs"
  by (induction xs arbitrary: x) (auto split: option.splits if_splits)

lemma max_by_key_max: "max_by_key k xs = Some x \<Longrightarrow> y \<in> set xs \<Longrightarrow> k y \<le> k x"
  by (induction xs arbitrary: x) (fastforce split: option.splits if_splits)+

section \<open>Lists and multisets\<close>

lemma take_drop_nth_block:
  "i < length xs div n \<Longrightarrow> length (take n (drop (i * n) xs)) = n"
proof -
  assume "i < length xs div n"
  then have "Suc i \<le> length xs div n" by simp
  then have "Suc i * n \<le> length xs"
    by (metis div_times_less_eq_dividend le_trans mult_le_mono1)
  then show ?thesis by simp
qed

lemma filter_mset_singleton_size: "size (filter_mset P {#x#}) = (if P x then 1 else 0)"
  by simp

lemma sum_list_le_member: "x \<in> set xs \<Longrightarrow> f x \<le> sum_list (map f xs)" for f :: "'a \<Rightarrow> nat"
  by (induction xs) auto

lemma find_Some_split:
  "find P xs = Some x \<Longrightarrow> \<exists>ys zs. xs = ys @ x # zs \<and> P x \<and> (\<forall>y \<in> set ys. \<not> P y)"
proof (induction xs)
  case Nil
  then show ?case by simp
next
  case (Cons a xs)
  show ?case
  proof (cases "P a")
    case True
    with Cons.prems show ?thesis by (auto intro: exI [of _ "[]"])
  next
    case False
    with Cons obtain ys zs where "xs = ys @ x # zs" "P x" "\<forall>y \<in> set ys. \<not> P y" by auto
    with False have "a # xs = (a # ys) @ x # zs" "P x" "\<forall>y \<in> set (a # ys). \<not> P y" by auto
    then show ?thesis by blast
  qed
qed

end
