(* ===== verification/Attn_Metadata.thy ===== *)
theory Attn_Metadata
  imports Prelude
begin

text \<open>
  \<^verbatim>\<open>attention/metadata.rs\<close> and \<^verbatim>\<open>attention/math_layout.rs\<close>: the logical attention metadata of one
  step, its three builders, the validation that precedes the device upload, the row padding of
  the rectangular layout and the workspace planner that chooses between the rectangular and the
  packed layout.

  Cumulative lengths are \<^verbatim>\<open>u32\<close>, so the builders' additions wrap; the exactness of the prefix
  sums is a theorem with the bound it needs. Block table entries are \<^verbatim>\<open>i32\<close> and slots \<^verbatim>\<open>i64\<close>,
  both read as \<open>int\<close>. Tensors belong to the \<^verbatim>\<open>candle\<close> crate: an uploaded tensor is modelled by
  the host vector and shape handed to it, and the row operations used by the padding are
  parameters.
\<close>

section \<open>Logical metadata\<close>

record attn_metadata =
  md_is_prefill :: bool
  cu_seqlens_q :: "32 word list"
  cu_seqlens_k :: "32 word list"
  max_seqlen_q :: nat
  max_seqlen_k :: nat
  md_slot_mapping :: "int list"
  md_block_table :: "int list list"

datatype metadata_error =
    CumulativeNotZeroBased
  | CumulativeShapeMismatch
  | CumulativeNotMonotonic
  | MaximumTooSmall
  | SlotMappingMismatch nat nat
  | QueriesExceedKv
  | BlockTableRowsMismatch nat nat
  | EmptyBlockTableRows
  | NegativeBlockId
  | RowIndexOverflow
  | InvalidGeometry
  | SlotCapacityOverflow
  | SlotExceedsCache
  | BlockTableExceedsCache
  | OutputShapeOverflow
  | OutputsExceedWorkspace
  | WorkspaceExceeded nat
  | InvalidCacheShape
  | CacheGeometryDiffers
  | NoPackedWork
  | QueryRowsMismatch
  | TensorError

definition uses_paged_kv :: "attn_metadata \<Rightarrow> bool" where
  "uses_paged_kv md = (md_block_table md \<noteq> [])"

text \<open>The prefix-sum vector that the builders push: \<open>cu[0] = acc\<close>, \<open>cu[i+1] = cu[i] + x\<^sub>i\<close>.\<close>

fun cu_push :: "32 word \<Rightarrow> 32 word list \<Rightarrow> 32 word list" where
  "cu_push acc [] = [acc]"
| "cu_push acc (x # xs) = acc # cu_push (acc + x) xs"

text \<open>The running maximum kept by the builders' loops.\<close>

definition loop_max :: "32 word list \<Rightarrow> nat" where
  "loop_max xs = fold (\<lambda>x m. if m < unat x then unat x else m) xs 0"

definition build_decode_metadata :: "32 word list \<Rightarrow> int list list \<Rightarrow> int list \<Rightarrow> attn_metadata" where
  "build_decode_metadata context_lens table slots = \<lparr>
     md_is_prefill = False,
     cu_seqlens_q = cu_push 0 (map (\<lambda>_. 1) context_lens),
     cu_seqlens_k = cu_push 0 context_lens,
     max_seqlen_q = 1,
     max_seqlen_k = loop_max context_lens,
     md_slot_mapping = slots,
     md_block_table = table\<rparr>"

definition build_prefill_metadata :: "32 word list \<Rightarrow> 32 word list \<Rightarrow> int list \<Rightarrow> attn_metadata" where
  "build_prefill_metadata scheduled kv_lengths slots =
     (let pairs = zip scheduled kv_lengths in \<lparr>
        md_is_prefill = True,
        cu_seqlens_q = cu_push 0 (map fst pairs),
        cu_seqlens_k = cu_push 0 (map snd pairs),
        max_seqlen_q = loop_max (map fst pairs),
        max_seqlen_k = loop_max (map snd pairs),
        md_slot_mapping = slots,
        md_block_table = []\<rparr>)"

definition build_continued_prefill_metadata ::
    "32 word list \<Rightarrow> 32 word list \<Rightarrow> int list list \<Rightarrow> int list \<Rightarrow> attn_metadata" where
  "build_continued_prefill_metadata scheduled kv_lengths table slots =
     (build_prefill_metadata scheduled kv_lengths slots)\<lparr>md_block_table := table\<rparr>"

text \<open>\<^verbatim>\<open>windows(2)\<close>, and the member lengths the code reads off them.\<close>

definition windows2 :: "'a list \<Rightarrow> ('a \<times> 'a) list" where
  "windows2 xs = zip xs (tl xs)"

definition member_lens :: "32 word list \<Rightarrow> nat list" where
  "member_lens cu = map (\<lambda>(a, b). unat (b - a)) (windows2 cu)"

definition validate_logical_metadata :: "attn_metadata \<Rightarrow> (metadata_error, unit) outcome" where
  "validate_logical_metadata md =
     (let q = cu_seqlens_q md; k = cu_seqlens_k md in
      if q = [] \<or> k = [] then Error CumulativeNotZeroBased
      else if length q \<noteq> length k then Error CumulativeShapeMismatch
      else if q ! 0 \<noteq> 0 \<or> k ! 0 \<noteq> 0 then Error CumulativeNotZeroBased
      else if \<not> list_all (\<lambda>(a, b). a \<le> b) (windows2 q) \<or> \<not> list_all (\<lambda>(a, b). a \<le> b) (windows2 k)
        then Error CumulativeNotMonotonic
      else if list_ex (\<lambda>n. max_seqlen_q md < n) (member_lens q)
            \<or> list_ex (\<lambda>n. max_seqlen_k md < n) (member_lens k) then Error MaximumTooSmall
      else if length (md_slot_mapping md) \<noteq> unat (last q)
        then Error (SlotMappingMismatch (length (md_slot_mapping md)) (unat (last q)))
      else if list_ex (\<lambda>(nq, nk). nk < nq) (zip (member_lens q) (member_lens k))
        then Error QueriesExceedKv
      else if md_block_table md \<noteq> [] \<and> length (md_block_table md) \<noteq> length q - 1
        then Error (BlockTableRowsMismatch (length (md_block_table md)) (length q - 1))
      else Ok ())"

text \<open>The padded block table: the flat vector and its shape \<open>(batch, max_blocks)\<close>.\<close>

fun flatten_rows :: "nat \<Rightarrow> int list list \<Rightarrow> (metadata_error, int list) outcome" where
  "flatten_rows w [] = Ok []"
| "flatten_rows w (row # rows) =
     (if list_ex (\<lambda>b. b < 0) row then Error NegativeBlockId
      else rbind (flatten_rows w rows) (\<lambda>rest. Ok (row @ replicate (w - length row) 0 @ rest)))"

definition prepare_block_table ::
    "int list list \<Rightarrow> (metadata_error, (int list \<times> nat \<times> nat) option) outcome" where
  "prepare_block_table table =
     (if table = [] then Ok None
      else let max_blocks = Max (set (map length table)) in
        if max_blocks = 0 then Error EmptyBlockTableRows
        else rbind (flatten_rows max_blocks table)
               (\<lambda>flat. Ok (Some (flat, length table, max_blocks))))"

section \<open>Workspace planning\<close>

record math_limits =
  query_heads :: nat
  kv_heads :: nat
  head_dim :: nat
  lim_block_size :: nat
  lim_num_blocks :: nat
  max_query_tokens :: nat
  workspace_bytes :: nat

record query_work =
  query_chunk :: nat
  split_heads :: bool

definition standard_work :: "nat \<Rightarrow> query_work" where
  "standard_work queries =
     \<lparr>query_chunk = (if queries \<le> 1024 then max queries 1 else 128), split_heads = False\<rparr>"

definition score_rows :: "nat \<Rightarrow> nat \<Rightarrow> nat \<Rightarrow> nat" where
  "score_rows queries keys chunk =
     (if chunk < 32 \<and> chunk < keys \<and> (1 < chunk \<or> 1 < queries) then 32 else chunk)"

definition checked_product :: "nat list \<Rightarrow> nat option" where
  "checked_product vs = fold (\<lambda>f acc. case acc of None \<Rightarrow> None | Some v \<Rightarrow> checked_mul v f) vs (Some 1)"

definition checked_sum :: "nat option list \<Rightarrow> nat option" where
  "checked_sum vs =
     fold (\<lambda>x acc. case (acc, x) of (Some t, Some v) \<Rightarrow> checked_add t v | _ \<Rightarrow> None) vs (Some 0)"

definition full_bytes :: "math_limits \<Rightarrow> nat \<Rightarrow> nat \<Rightarrow> nat \<Rightarrow> nat \<Rightarrow> nat option" where
  "full_bytes l batch queries keys chunk = checked_sum
     [checked_product [batch, max queries (score_rows queries keys chunk), query_heads l, head_dim l, 32],
      checked_product [batch, keys, query_heads l, head_dim l, 16],
      checked_product [batch, query_heads l, score_rows queries keys chunk, keys, 24]]"

definition split_bytes :: "math_limits \<Rightarrow> nat \<Rightarrow> nat \<Rightarrow> nat \<Rightarrow> nat option" where
  "split_bytes l queries keys chunk = checked_sum
     [checked_product [max queries (score_rows queries keys chunk), query_heads l, head_dim l, 8],
      checked_product [keys, kv_heads l, head_dim l, 4],
      checked_product [keys, head_dim l, 16],
      checked_product [queries, head_dim l, 16],
      checked_product [score_rows queries keys chunk, keys, 24]]"

definition fits :: "nat option \<Rightarrow> nat \<Rightarrow> bool" where
  "fits bytes budget = (case bytes of None \<Rightarrow> False | Some b \<Rightarrow> b \<le> budget)"

text \<open>The \<^verbatim>\<open>while\<close> loop that halves the query chunk until the split layout fits.\<close>

function shrink_chunk :: "math_limits \<Rightarrow> nat \<Rightarrow> nat \<Rightarrow> nat \<Rightarrow> nat \<Rightarrow> nat" where
  "shrink_chunk l queries keys budget chunk =
     (if 1 < chunk \<and> \<not> fits (split_bytes l queries keys chunk) budget
      then shrink_chunk l queries keys budget (div_ceil chunk 2) else chunk)"
  by pat_completeness auto

termination shrink_chunk
proof (relation "measure (\<lambda>(l, q, k, b, c). c)", goal_cases)
  case (2 l queries keys budget chunk)
  then have "chunk \<le> (chunk - 1) * 2" by linarith
  then have "div_ceil chunk 2 \<le> chunk - 1" by (simp add: div_ceil_le_iff)
  with 2 show ?case by simp linarith
qed simp

declare shrink_chunk.simps [simp del]

text \<open>\<^verbatim>\<open>(cu[member + 1] - cu[member]) as usize\<close>; the indexing panics beyond the batch.\<close>

definition member_span :: "32 word list \<Rightarrow> nat \<Rightarrow> (metadata_error, nat) outcome" where
  "member_span cu i = rbind (index cu (i + 1)) (\<lambda>b. rbind (index cu i) (\<lambda>a. Ok (unat (b - a))))"

definition choose_work :: "math_limits \<Rightarrow> nat \<Rightarrow> nat \<Rightarrow> nat \<Rightarrow> (metadata_error, query_work) outcome" where
  "choose_work l budget queries keys =
     (let standard = standard_work queries in
      if fits (full_bytes l 1 queries keys (query_chunk standard)) budget then Ok standard
      else let chunk = shrink_chunk l queries keys budget (min (max queries 1) 128) in
        if fits (split_bytes l queries keys chunk) budget
        then Ok \<lparr>query_chunk = chunk, split_heads = True\<rparr>
        else Error (WorkspaceExceeded (workspace_bytes l)))"

definition member_work ::
    "math_limits \<Rightarrow> nat \<Rightarrow> attn_metadata \<Rightarrow> nat \<Rightarrow> (metadata_error, query_work) outcome" where
  "member_work l budget md i =
     rbind (member_span (cu_seqlens_q md) i) (\<lambda>queries.
       rbind (member_span (cu_seqlens_k md) i) (\<lambda>keys. choose_work l budget queries keys))"

definition block_out_of_range :: "nat \<Rightarrow> int \<Rightarrow> bool" where
  "block_out_of_range n b = (b < 0 \<or> n \<le> nat b)"

definition check_member_blocks ::
    "nat \<Rightarrow> nat \<Rightarrow> 32 word list \<Rightarrow> nat \<times> int list \<Rightarrow> (metadata_error, unit) outcome" where
  "check_member_blocks nblocks bsize cu_k = (\<lambda>(member, row).
     rbind (member_span cu_k member) (\<lambda>keys.
       if length row < div_ceil keys bsize \<or> list_ex (block_out_of_range nblocks) row
       then Error BlockTableExceedsCache else Ok ()))"

definition geometry_invalid :: "math_limits \<Rightarrow> bool" where
  "geometry_invalid l =
     (query_heads l = 0 \<or> kv_heads l = 0 \<or> head_dim l = 0 \<or> lim_block_size l = 0
      \<or> lim_num_blocks l = 0 \<or> query_heads l mod kv_heads l \<noteq> 0 \<or> max_query_tokens l = 0)"

definition rectangular_fits :: "math_limits \<Rightarrow> attn_metadata \<Rightarrow> bool" where
  "rectangular_fits l md =
     (let batch = length (cu_seqlens_q md) - 1; queries = max_seqlen_q md; keys = max_seqlen_k md in
      1 < batch \<and> fits (checked_mul batch queries) (max_query_tokens l)
      \<and> fits (full_bytes l batch queries keys queries) (workspace_bytes l))"

definition plan_layout ::
    "math_limits \<Rightarrow> attn_metadata \<Rightarrow> (metadata_error, bool \<times> query_work list) outcome" where
  "plan_layout l md =
     (if geometry_invalid l then Error InvalidGeometry
      else case checked_mul (lim_num_blocks l) (lim_block_size l) of
        None \<Rightarrow> Error SlotCapacityOverflow
      | Some capacity \<Rightarrow>
          if list_ex (\<lambda>slot. 0 \<le> slot \<and> capacity \<le> nat slot) (md_slot_mapping md)
          then Error SlotExceedsCache
          else rbind (rcollect (check_member_blocks (lim_num_blocks l) (lim_block_size l) (cu_seqlens_k md))
                        (enumerate 0 (md_block_table md))) (\<lambda>_.
            if rectangular_fits l md then Ok (True, [])
            else case checked_product [length (md_slot_mapping md), query_heads l, head_dim l, 8] of
              None \<Rightarrow> Error OutputShapeOverflow
            | Some output_bytes \<Rightarrow>
                (case checked_sub (workspace_bytes l) output_bytes of
                   None \<Rightarrow> Error OutputsExceedWorkspace
                 | Some budget \<Rightarrow>
                     rbind (rcollect (member_work l budget md) [0..<length (cu_seqlens_q md) - 1])
                       (\<lambda>work. Ok (False, work)))))"

section \<open>Prepared attention\<close>

text \<open>The host side of one prepared step. The epoch names the step it was prepared for; the
  tensors are represented by the vectors uploaded into them.\<close>

datatype attention_epoch = StepPlanEpoch nat | WarmupPrefill | WarmupDecode

record prepared_attention =
  pa_epoch :: attention_epoch
  pa_logical :: attn_metadata
  pa_block_table :: "(int list \<times> nat \<times> nat) option"
  rectangular :: bool
  real_rows :: "nat list option"
  packed_work :: "query_work list"
  cache_shape :: "(nat \<times> nat \<times> nat \<times> nat) option"

definition member_rows :: "nat \<Rightarrow> nat \<Rightarrow> nat \<Rightarrow> (metadata_error, nat list) outcome" where
  "member_rows width member cnt =
     rcollect (\<lambda>row. let i = member * width + width - cnt + row
                     in if i < 2 ^ 32 then Ok i else Error RowIndexOverflow) [0..<cnt]"

definition real_row_indices :: "attn_metadata \<Rightarrow> (metadata_error, nat list) outcome" where
  "real_row_indices md =
     rbind (rcollect (\<lambda>(member, cnt). member_rows (max_seqlen_q md) member cnt)
              (enumerate 0 (member_lens (cu_seqlens_q md)))) (\<lambda>rows. Ok (concat rows))"

definition prepare_with_limits ::
    "attention_epoch \<Rightarrow> attn_metadata \<Rightarrow> math_limits option \<Rightarrow> (metadata_error, prepared_attention) outcome" where
  "prepare_with_limits epoch md limits =
     rbind (validate_logical_metadata md) (\<lambda>_.
     rbind (case limits of Some l \<Rightarrow> plan_layout l md
            | None \<Rightarrow> Ok (False, map standard_work (member_lens (cu_seqlens_q md)))) (\<lambda>(rect, work).
     let batch = length (cu_seqlens_q md) - 1 in
     rbind (if rect \<and> batch * max_seqlen_q md \<noteq> length (md_slot_mapping md)
            then rbind (real_row_indices md) (\<lambda>ix. Ok (Some ix)) else Ok None) (\<lambda>rows.
     rbind (prepare_block_table (md_block_table md)) (\<lambda>table.
       Ok \<lparr>pa_epoch = epoch, pa_logical = md, pa_block_table = table, rectangular = rect,
           real_rows = rows, packed_work = work,
           cache_shape = map_option (\<lambda>l. (lim_num_blocks l, lim_block_size l, kv_heads l, head_dim l)) limits\<rparr>))))"

definition prepare_attention :: "attention_epoch \<Rightarrow> attn_metadata \<Rightarrow> (metadata_error, prepared_attention) outcome" where
  "prepare_attention epoch md = prepare_with_limits epoch md None"

definition validate_cache :: "prepared_attention \<Rightarrow> nat list \<Rightarrow> (metadata_error, unit) outcome" where
  "validate_cache pa shape =
     (if length shape \<noteq> 4 \<or> 0 \<in> set shape then Error InvalidCacheShape
      else case cache_shape pa of
        Some (n, b, h, d) \<Rightarrow> if shape \<noteq> [n, b, h, d] then Error CacheGeometryDiffers else Ok ()
      | None \<Rightarrow>
          rbind (rcollect (check_member_blocks (shape ! 0) (shape ! 1) (cu_seqlens_k (pa_logical pa)))
                   (enumerate 0 (md_block_table (pa_logical pa)))) (\<lambda>_. Ok ()))"

definition query_work_of :: "prepared_attention \<Rightarrow> nat \<Rightarrow> (metadata_error, query_work) outcome" where
  "query_work_of pa member =
     (if member < length (packed_work pa) then Ok (packed_work pa ! member) else Error NoPackedWork)"

definition device_tensor_uploads :: "prepared_attention \<Rightarrow> nat" where
  "device_tensor_uploads pa =
     3 + (if pa_block_table pa = None then 0 else 1) + (if real_rows pa = None then 0 else 1)"

text \<open>The row operations of the tensor crate that padding uses.\<close>

record 't row_ops =
  dim0 :: "'t \<Rightarrow> (metadata_error, nat) outcome"
  narrow0 :: "'t \<Rightarrow> nat \<Rightarrow> nat \<Rightarrow> (metadata_error, 't) outcome"
  pad_zeros0 :: "'t \<Rightarrow> nat \<Rightarrow> nat \<Rightarrow> (metadata_error, 't) outcome"
  cat0 :: "'t list \<Rightarrow> (metadata_error, 't) outcome"
  index_select0 :: "'t \<Rightarrow> nat list \<Rightarrow> (metadata_error, 't) outcome"

definition pad_queries ::
    "'t row_ops \<Rightarrow> prepared_attention \<Rightarrow> 't \<Rightarrow> (metadata_error, 't) outcome" where
  "pad_queries ops pa x =
     (if real_rows pa = None then Ok x
      else rbind (dim0 ops x) (\<lambda>n.
        if n \<noteq> length (md_slot_mapping (pa_logical pa)) then Error QueryRowsMismatch
        else rbind (rcollect (\<lambda>(a, b). let cnt = unat (b - a) in
               rbind (narrow0 ops x (unat a) cnt) (\<lambda>part.
                 pad_zeros0 ops part (max_seqlen_q (pa_logical pa) - cnt) 0))
               (windows2 (cu_seqlens_q (pa_logical pa)))) (cat0 ops)))"

definition unpad_queries ::
    "'t row_ops \<Rightarrow> prepared_attention \<Rightarrow> 't \<Rightarrow> (metadata_error, 't) outcome" where
  "unpad_queries ops pa x =
     (case real_rows pa of Some ix \<Rightarrow> index_select0 ops x ix | None \<Rightarrow> Ok x)"

section \<open>Prefix sums\<close>

lemma cu_push_length [simp]: "length (cu_push acc xs) = Suc (length xs)"
  by (induction xs arbitrary: acc) simp_all

lemma cu_push_not_Nil [simp]: "cu_push acc xs \<noteq> []"
  by (cases xs) simp_all

lemma cu_push_0 [simp]: "cu_push acc xs ! 0 = acc"
  by (cases xs) simp_all

lemma hd_cu_push [simp]: "hd (cu_push acc xs) = acc"
  by (cases xs) simp_all

lemma tl_cu_push_Cons: "tl (cu_push acc (x # xs)) = cu_push (acc + x) xs"
  by simp

lemma cu_push_Cons_eq: "cu_push acc xs = acc # tl (cu_push acc xs)"
  by (cases xs) simp_all

lemma windows2_simps [simp]:
  "windows2 [] = []" "windows2 [x] = []" "windows2 (x # y # zs) = (x, y) # windows2 (y # zs)"
  by (simp_all add: windows2_def)

lemma windows2_length [simp]: "length (windows2 xs) = length xs - 1"
  by (simp add: windows2_def)

lemma member_lens_length [simp]: "length (member_lens cu) = length cu - 1"
  by (simp add: member_lens_def)

text \<open>Member lengths read back from the cumulative vector are exact even if a sum wrapped.\<close>

lemma member_lens_cu_push [simp]: "member_lens (cu_push acc xs) = map unat xs"
proof (induction xs arbitrary: acc)
  case Nil
  then show ?case by (simp add: member_lens_def)
next
  case (Cons x xs)
  obtain rest where rest: "cu_push (acc + x) xs = (acc + x) # rest" by (metis cu_push_Cons_eq)
  with Cons.IH [of "acc + x"] show ?case by (simp add: member_lens_def)
qed

lemma unat_add_small: "unat (a :: 32 word) + unat b < 2 ^ 32 \<Longrightarrow> unat (a + b) = unat a + unat b"
  by (simp add: unat_word_ariths)

lemma cu_push_last:
  "unat acc + sum_list (map unat xs) < 2 ^ 32
   \<Longrightarrow> unat (last (cu_push acc xs)) = unat acc + sum_list (map unat xs)"
proof (induction xs arbitrary: acc)
  case (Cons x xs)
  then have "unat (acc + x) = unat acc + unat x" by (intro unat_add_small) simp
  with Cons show ?case by simp
qed simp

lemma cu_push_mono:
  "unat acc + sum_list (map unat xs) < 2 ^ 32 \<Longrightarrow> list_all (\<lambda>(a, b). a \<le> b) (windows2 (cu_push acc xs))"
proof (induction xs arbitrary: acc)
  case (Cons x xs)
  then have eq: "unat (acc + x) = unat acc + unat x" by (intro unat_add_small) simp
  obtain rest where rest: "cu_push (acc + x) xs = (acc + x) # rest" by (metis cu_push_Cons_eq)
  have "list_all (\<lambda>(a, b). a \<le> b) (windows2 (cu_push (acc + x) xs))"
    by (rule Cons.IH) (use Cons.prems eq in simp)
  with rest eq show ?case by (simp add: word_le_nat_alt)
qed simp

lemma loop_max_fold: "fold (\<lambda>x m. if m < unat x then unat x else m) xs k = Max (insert k (set (map unat xs)))"
proof (induction xs arbitrary: k)
  case (Cons x xs)
  have "fold (\<lambda>x m. if m < unat x then unat x else m) (x # xs) k = Max (insert (max k (unat x)) (set (map unat xs)))"
    using Cons.IH by (simp add: max_def)
  also have "\<dots> = Max (insert k (set (map unat (x # xs))))"
    by (cases "xs = []") (simp_all add: max.assoc)
  finally show ?case .
qed simp

lemma loop_max_upper: "x \<in> set xs \<Longrightarrow> unat x \<le> loop_max xs"
  unfolding loop_max_def loop_max_fold by (simp add: Max_ge_iff)

lemma validate_built:
  assumes len: "length qs = length ks" and sq: "sum_list (map unat qs) < 2 ^ 32"
    and sk: "sum_list (map unat ks) < 2 ^ 32" and le: "\<forall>i < length qs. qs ! i \<le> ks ! i"
    and mq: "\<forall>x \<in> set qs. unat x \<le> max_seqlen_q md" and mk: "\<forall>x \<in> set ks. unat x \<le> max_seqlen_k md"
    and cu: "cu_seqlens_q md = cu_push 0 qs" "cu_seqlens_k md = cu_push 0 ks"
    and slots: "length (md_slot_mapping md) = sum_list (map unat qs)"
    and table: "md_block_table md = [] \<or> length (md_block_table md) = length qs"
  shows "validate_logical_metadata md = Ok ()"
proof -
  have mono: "list_all (\<lambda>(a, b). a \<le> b) (windows2 (cu_push 0 qs))"
    "list_all (\<lambda>(a, b). a \<le> b) (windows2 (cu_push 0 ks))"
    using sq sk by (simp_all add: cu_push_mono)
  have "unat (last (cu_push 0 qs)) = sum_list (map unat qs)" using sq cu_push_last [of 0 qs] by simp
  moreover have "\<not> list_ex (\<lambda>n. max_seqlen_q md < n) (map unat qs)"
    "\<not> list_ex (\<lambda>n. max_seqlen_k md < n) (map unat ks)"
    using mq mk by (auto simp: list_ex_iff not_less)
  moreover have "\<not> list_ex (\<lambda>(nq, nk). nk < nq) (zip (map unat qs) (map unat ks))"
    using le len by (auto simp: list_ex_length word_le_nat_alt not_less)
  ultimately show ?thesis
    using mono cu slots table len by (simp add: validate_logical_metadata_def Let_def)
qed

section \<open>The chunk loop and the workspace planner\<close>

lemma shrink_chunk_spec:
  "0 < chunk \<Longrightarrow> 0 < shrink_chunk l q k budget chunk \<and> shrink_chunk l q k budget chunk \<le> chunk
     \<and> (shrink_chunk l q k budget chunk = 1 \<or> fits (split_bytes l q k (shrink_chunk l q k budget chunk)) budget)"
proof (induction l q k budget chunk rule: shrink_chunk.induct)
  case (1 l q k budget chunk)
  show ?case
  proof (cases "1 < chunk \<and> \<not> fits (split_bytes l q k chunk) budget")
    case True
    have "0 < div_ceil chunk 2" using 1(2) by (simp add: less_div_ceil_iff)
    note ih = 1(1) [OF True this]
    have "div_ceil chunk 2 \<le> chunk" by (simp add: div_ceil_le_iff)
    moreover have "shrink_chunk l q k budget chunk = shrink_chunk l q k budget (div_ceil chunk 2)"
      using True by (simp add: shrink_chunk.simps [of l q k budget chunk])
    ultimately show ?thesis using ih by simp
  next
    case False
    then have "shrink_chunk l q k budget chunk = chunk"
      by (subst shrink_chunk.simps) (simp only: False if_False)
    with False 1(2) show ?thesis by auto
  qed
qed

definition work_fits :: "math_limits \<Rightarrow> nat \<Rightarrow> nat \<Rightarrow> nat \<Rightarrow> query_work \<Rightarrow> bool" where
  "work_fits l budget queries keys w \<longleftrightarrow> 0 < query_chunk w \<and>
     fits (if split_heads w then split_bytes l queries keys (query_chunk w)
           else full_bytes l 1 queries keys (query_chunk w)) budget"

lemma choose_work_Ok: "choose_work l budget q k = Ok w \<Longrightarrow> work_fits l budget q k w"
proof -
  assume a: "choose_work l budget q k = Ok w"
  have "0 < min (max q 1) (128 :: nat)" by simp
  from shrink_chunk_spec [OF this] a show ?thesis
    by (auto simp: choose_work_def work_fits_def standard_work_def Let_def split: if_splits)
qed

lemma choose_work_no_panic [simp]: "choose_work l budget q k \<noteq> Panicked"
  by (simp add: choose_work_def Let_def)

lemma member_span_in:
  "i < length cu - 1 \<Longrightarrow> member_span cu i = Ok (member_lens cu ! i)"
  by (simp add: member_span_def member_lens_def windows2_def nth_tl)

lemma rcollect_Panic: "rcollect f xs = Inl e \<Longrightarrow> \<exists>x \<in> set xs. f x = Inl e"
  by (induction xs) (auto simp: rbind_Inl_iff)

lemma validated_shape:
  assumes "validate_logical_metadata md = Ok ()"
  shows "length (cu_seqlens_q md) = length (cu_seqlens_k md)" "cu_seqlens_q md \<noteq> []"
    "md_block_table md = [] \<or> length (md_block_table md) = length (cu_seqlens_q md) - 1"
    "cu_seqlens_q md ! 0 = 0" "list_all (\<lambda>(a, b). a \<le> b) (windows2 (cu_seqlens_q md))"
    "length (md_slot_mapping md) = unat (last (cu_seqlens_q md))"
    "\<And>n. n \<in> set (member_lens (cu_seqlens_q md)) \<Longrightarrow> n \<le> max_seqlen_q md"
  using assms unfolding validate_logical_metadata_def Let_def
  by (auto simp: list_ex_iff not_less split: if_splits)

lemma check_member_blocks_no_panic:
  assumes "x \<in> set (enumerate 0 rows)" "length rows \<le> length cu - 1"
  shows "check_member_blocks n b cu x \<noteq> Panicked"
proof -
  obtain i row where x: "x = (i, row)" by force
  with assms have "i < length cu - 1" by (auto simp: in_set_enumerate_eq)
  then show ?thesis by (simp add: check_member_blocks_def x member_span_in)
qed

text \<open>Everything the planner checks before it chooses a layout.\<close>

definition planned_rectangular :: "math_limits \<Rightarrow> attn_metadata \<Rightarrow> bool" where
  "planned_rectangular l md \<longleftrightarrow>
     fits (full_bytes l (length (cu_seqlens_q md) - 1) (max_seqlen_q md) (max_seqlen_k md)
             (max_seqlen_q md)) (workspace_bytes l)
     \<and> (length (cu_seqlens_q md) - 1) * max_seqlen_q md \<le> max_query_tokens l"

definition planned_packed :: "math_limits \<Rightarrow> attn_metadata \<Rightarrow> query_work list \<Rightarrow> bool" where
  "planned_packed l md work \<longleftrightarrow>
     length work = length (cu_seqlens_q md) - 1 \<and>
     (\<exists>output. checked_product [length (md_slot_mapping md), query_heads l, head_dim l, 8] = Some output
        \<and> output \<le> workspace_bytes l
        \<and> (\<forall>i < length work. work_fits l (workspace_bytes l - output)
             (member_lens (cu_seqlens_q md) ! i) (member_lens (cu_seqlens_k md) ! i) (work ! i)))"

lemma fits_checked_mul: "fits (checked_mul a b) n \<Longrightarrow> a * b \<le> n"
  by (auto simp: fits_def checked_mul_def split: if_splits)

lemma rectangular_fits_planned: "rectangular_fits l md \<Longrightarrow> planned_rectangular l md"
  by (simp add: rectangular_fits_def planned_rectangular_def Let_def fits_checked_mul)

lemma member_work_Ok:
  assumes "length (cu_seqlens_q md) = length (cu_seqlens_k md)" "i < length (cu_seqlens_q md) - 1"
  shows "member_work l budget md i
     = choose_work l budget (member_lens (cu_seqlens_q md) ! i) (member_lens (cu_seqlens_k md) ! i)"
  using assms by (simp add: member_work_def member_span_in)

lemma packed_work_planned:
  assumes len: "length (cu_seqlens_q md) = length (cu_seqlens_k md)"
    and out: "checked_product [length (md_slot_mapping md), query_heads l, head_dim l, 8] = Some out"
    and le: "out \<le> workspace_bytes l"
    and w: "rcollect (member_work l (workspace_bytes l - out) md) [0..<length (cu_seqlens_q md) - 1] = Ok work"
  shows "planned_packed l md work"
proof -
  have "length work = length (cu_seqlens_q md) - 1"
    and each: "\<And>i. i < length (cu_seqlens_q md) - 1
      \<Longrightarrow> member_work l (workspace_bytes l - out) md i = Ok (work ! i)"
    using w unfolding rcollect_Ok_iff by auto
  moreover from this len have "work_fits l (workspace_bytes l - out)
      (member_lens (cu_seqlens_q md) ! i) (member_lens (cu_seqlens_k md) ! i) (work ! i)"
    if "i < length work" for i
    using that each [of i] by (intro choose_work_Ok) (simp add: member_work_Ok)
  ultimately show ?thesis using out le by (auto simp: planned_packed_def)
qed

lemma plan_layout_Ok:
  assumes len: "length (cu_seqlens_q md) = length (cu_seqlens_k md)" and ok: "plan_layout l md = Ok (rect, work)"
  shows "if rect then work = [] \<and> planned_rectangular l md else planned_packed l md work"
  using ok len
  by (auto simp: plan_layout_def rbind_Ok_iff rectangular_fits_planned packed_work_planned
      split: if_splits option.splits)

lemma plan_layout_no_panic:
  assumes "length (cu_seqlens_q md) = length (cu_seqlens_k md)"
    "md_block_table md = [] \<or> length (md_block_table md) = length (cu_seqlens_q md) - 1"
  shows "plan_layout l md \<noteq> Panicked"
proof
  assume p: "plan_layout l md = Panicked"
  have rows: "length (md_block_table md) \<le> length (cu_seqlens_k md) - 1" using assms by auto
  have "rcollect (check_member_blocks (lim_num_blocks l) (lim_block_size l) (cu_seqlens_k md))
          (enumerate 0 (md_block_table md)) \<noteq> Panicked"
    using check_member_blocks_no_panic [OF _ rows] by (meson rcollect_Panic)
  moreover have "rcollect (member_work l budget md) [0..<length (cu_seqlens_q md) - 1] \<noteq> Panicked" for budget
    using assms(1) by (auto dest!: rcollect_Panic simp: member_work_Ok)
  ultimately show False
    using p by (auto simp: plan_layout_def rbind_Inl_iff split: if_splits option.splits)
qed

section \<open>Padding round trip\<close>

text \<open>What the padding code relies on in the tensor crate, over an abstraction of a tensor to its
  list of rows (dimension 0): \<^verbatim>\<open>dim\<close>, \<^verbatim>\<open>narrow\<close>, \<^verbatim>\<open>pad_with_zeros\<close>, \<^verbatim>\<open>cat\<close> and \<^verbatim>\<open>index_select\<close>
  along dimension 0, each in range.\<close>

definition row_laws :: "'t row_ops \<Rightarrow> ('t \<Rightarrow> 'r list) \<Rightarrow> 'r \<Rightarrow> bool" where
  "row_laws ops rows z \<longleftrightarrow>
     (\<forall>t. dim0 ops t = Ok (length (rows t)))
     \<and> (\<forall>t a n. a + n \<le> length (rows t)
          \<longrightarrow> (\<exists>u. narrow0 ops t a n = Ok u \<and> rows u = take n (drop a (rows t))))
     \<and> (\<forall>t a b. \<exists>u. pad_zeros0 ops t a b = Ok u \<and> rows u = replicate a z @ rows t @ replicate b z)
     \<and> (\<forall>ts. ts \<noteq> [] \<longrightarrow> (\<exists>u. cat0 ops ts = Ok u \<and> rows u = concat (map rows ts)))
     \<and> (\<forall>t ix. (\<forall>i \<in> set ix. i < length (rows t))
          \<longrightarrow> (\<exists>u. index_select0 ops t ix = Ok u \<and> rows u = map ((!) (rows t)) ix))"

text \<open>Cumulative vectors that pass the monotonicity check, walked from the left.\<close>

lemma mono_cu_parts:
  fixes cu :: "32 word list"
  assumes "list_all (\<lambda>(a, b). a \<le> b) (windows2 (c # cu))" "unat (last (c # cu)) = length xs"
  shows "concat (map (\<lambda>(a, b). take (unat (b - a)) (drop (unat a) xs)) (windows2 (c # cu))) = drop (unat c) xs"
    and "\<forall>(a, b) \<in> set (windows2 (c # cu)). unat a + unat (b - a) \<le> length xs"
    and "unat c \<le> length xs"
proof -
  have "concat (map (\<lambda>(a, b). take (unat (b - a)) (drop (unat a) xs)) (windows2 (c # cu))) = drop (unat c) xs
    \<and> (\<forall>(a, b) \<in> set (windows2 (c # cu)). unat a + unat (b - a) \<le> length xs) \<and> unat c \<le> length xs"
    using assms
  proof (induction cu arbitrary: c)
    case Nil
    then show ?case by simp
  next
    case (Cons d cu)
    then have le: "c \<le> d" by simp
    then have eq: "unat c + unat (d - c) = unat d"
      by (simp add: unat_sub word_le_nat_alt)
    have ih: "concat (map (\<lambda>(a, b). take (unat (b - a)) (drop (unat a) xs)) (windows2 (d # cu))) = drop (unat d) xs"
      "\<forall>(a, b) \<in> set (windows2 (d # cu)). unat a + unat (b - a) \<le> length xs" "unat d \<le> length xs"
      using Cons by auto
    have "take (unat (d - c)) (drop (unat c) xs) @ drop (unat d) xs = drop (unat c) xs"
      by (metis append_take_drop_id drop_drop eq add.commute)
    then show ?case using ih eq le by (auto simp: word_le_nat_alt)
  qed
  then show "concat (map (\<lambda>(a, b). take (unat (b - a)) (drop (unat a) xs)) (windows2 (c # cu))) = drop (unat c) xs"
    and "\<forall>(a, b) \<in> set (windows2 (c # cu)). unat a + unat (b - a) \<le> length xs"
    and "unat c \<le> length xs" by blast+
qed

text \<open>Blocks of equal width \<open>w\<close>: entry \<open>m * w + j\<close> of their concatenation.\<close>

lemma concat_equal_nth:
  assumes "\<forall>x \<in> set xss. length x = w" "m < length xss" "j < w"
  shows "concat xss ! (m * w + j) = xss ! m ! j" and "m * w + j < length (concat xss)"
proof -
  have "concat xss ! (m * w + j) = xss ! m ! j \<and> m * w + j < length (concat xss)"
    using assms
  proof (induction xss arbitrary: m)
    case (Cons x xss)
    show ?case
    proof (cases m)
      case 0
      with Cons show ?thesis by (simp add: nth_append)
    next
      case (Suc k)
      with Cons have "concat xss ! (k * w + j) = xss ! k ! j \<and> k * w + j < length (concat xss)" by auto
      with Suc Cons.prems show ?thesis by (simp add: nth_append add.assoc)
    qed
  qed simp
  then show "concat xss ! (m * w + j) = xss ! m ! j" "m * w + j < length (concat xss)" by auto
qed

lemma member_rows_Ok:
  assumes "member_rows w m n = Ok ix"
  shows "ix = map (\<lambda>r. m * w + w - n + r) [0..<n]"
  using assms by (auto simp: member_rows_def rcollect_Ok_iff Let_def intro!: nth_equalityI split: if_splits)

text \<open>Selecting a member's row indices from right-aligned blocks gives the member's own rows.\<close>

lemma select_member_rows:
  assumes "\<forall>x \<in> set xss. length x = w" "m < length xss" "xss ! m = replicate (w - length part) z @ part"
    "length part \<le> w"
  shows "map ((!) (concat xss)) (map (\<lambda>r. m * w + w - length part + r) [0..<length part]) = part"
    and "\<forall>i \<in> set (map (\<lambda>r. m * w + w - length part + r) [0..<length part]). i < length (concat xss)"
proof -
  have key: "concat xss ! (m * w + w - length part + r) = part ! r \<and> m * w + w - length part + r < length (concat xss)"
    if r: "r < length part" for r
  proof -
    have eq: "m * w + w - length part + r = m * w + (w - length part + r)" using assms(4) by simp
    have lt: "w - length part + r < w" using r assms(4) by linarith
    show ?thesis unfolding eq
      using concat_equal_nth [OF assms(1,2) lt] by (simp add: assms(3) nth_append)
  qed
  show "map ((!) (concat xss)) (map (\<lambda>r. m * w + w - length part + r) [0..<length part]) = part"
    using key by (intro nth_equalityI) simp_all
  show "\<forall>i \<in> set (map (\<lambda>r. m * w + w - length part + r) [0..<length part]). i < length (concat xss)"
  proof
    fix i assume "i \<in> set (map (\<lambda>r. m * w + w - length part + r) [0..<length part])"
    then obtain r where "r < length part" "i = m * w + w - length part + r"
      by (auto simp only: set_map set_upt image_iff atLeastLessThan_iff)
    with key [of r] show "i < length (concat xss)" by simp
  qed
qed

lemma rcollect_choice:
  "(\<And>x. x \<in> set xs \<Longrightarrow> \<exists>u. f x = Inr u \<and> g u = h x) \<Longrightarrow> \<exists>us. rcollect f xs = Inr us \<and> map g us = map h xs"
proof (induction xs)
  case (Cons x xs)
  then obtain u us where "f x = Inr u" "g u = h x" "rcollect f xs = Inr us" "map g us = map h xs"
    by (metis list.set_intros(1) list.set_intros(2))
  then show ?case by (intro exI [of _ "u # us"]) simp
qed simp

text \<open>The part of the input that belongs to one member, and its right-aligned block.\<close>

definition member_part :: "'r list \<Rightarrow> 32 word \<times> 32 word \<Rightarrow> 'r list" where
  "member_part xs = (\<lambda>(a, b). take (unat (b - a)) (drop (unat a) xs))"

definition padded_part :: "nat \<Rightarrow> 'r \<Rightarrow> 'r list \<Rightarrow> 32 word \<times> 32 word \<Rightarrow> 'r list" where
  "padded_part w z xs p = replicate (w - length (member_part xs p)) z @ member_part xs p"

lemma rcollect_Ok_map:
  "rcollect f xs = Inr ys \<Longrightarrow> (\<And>x y. f x = Inr y \<Longrightarrow> y = g x) \<Longrightarrow> ys = map g xs"
  by (induction xs arbitrary: ys) (auto simp: rbind_Ok_iff)

lemma real_row_indices_Ok:
  assumes "real_row_indices md = Ok ix"
  shows "ix = concat (map (\<lambda>(m, n). map (\<lambda>r. m * max_seqlen_q md + max_seqlen_q md - n + r) [0..<n])
                        (enumerate 0 (member_lens (cu_seqlens_q md))))"
proof -
  obtain rows where rows: "rcollect (\<lambda>(m, n). member_rows (max_seqlen_q md) m n)
      (enumerate 0 (member_lens (cu_seqlens_q md))) = Ok rows" "ix = concat rows"
    using assms by (auto simp: real_row_indices_def rbind_Ok_iff)
  have "rows = map (\<lambda>(m, n). map (\<lambda>r. m * max_seqlen_q md + max_seqlen_q md - n + r) [0..<n])
                 (enumerate 0 (member_lens (cu_seqlens_q md)))"
    by (rule rcollect_Ok_map [OF rows(1)]) (auto dest: member_rows_Ok)
  with rows(2) show ?thesis by simp
qed

lemma row_lawsD:
  assumes "row_laws ops rows z"
  shows "dim0 ops t = Ok (length (rows t))"
    and "a + n \<le> length (rows t) \<Longrightarrow> \<exists>u. narrow0 ops t a n = Ok u \<and> rows u = take n (drop a (rows t))"
    and "\<exists>u. pad_zeros0 ops t a b = Ok u \<and> rows u = replicate a z @ rows t @ replicate b z"
    and "ts \<noteq> [] \<Longrightarrow> \<exists>u. cat0 ops ts = Ok u \<and> rows u = concat (map rows ts)"
    and "\<forall>i \<in> set ix. i < length (rows t) \<Longrightarrow> \<exists>u. index_select0 ops t ix = Ok u \<and> rows u = map ((!) (rows t)) ix"
  using assms unfolding row_laws_def by blast+

text \<open>What validation gives for the rows of an input of the right length.\<close>

lemma validated_parts:
  assumes valid: "validate_logical_metadata md = Ok ()" and len: "length xs = length (md_slot_mapping md)"
  defines "ws \<equiv> windows2 (cu_seqlens_q md)"
  shows "concat (map (member_part xs) ws) = xs"
    and "p \<in> set ws \<Longrightarrow> unat (fst p) + unat (snd p - fst p) \<le> length xs"
    and "p \<in> set ws \<Longrightarrow> length (member_part xs p) = unat (snd p - fst p)"
    and "p \<in> set ws \<Longrightarrow> unat (snd p - fst p) \<le> max_seqlen_q md"
proof -
  note v = validated_shape [OF valid]
  obtain cu where cu: "cu_seqlens_q md = 0 # cu" using v(2,4) by (cases "cu_seqlens_q md") auto
  have total: "unat (last (0 # cu)) = length xs" using len v(6) cu by simp
  note parts = mono_cu_parts [OF v(5) [unfolded cu] total]
  show "concat (map (member_part xs) ws) = xs"
    using parts(1) cu by (simp add: ws_def member_part_def)
  show range: "unat (fst p) + unat (snd p - fst p) \<le> length xs" if "p \<in> set ws" for p
    using parts(2) that cu by (auto simp: ws_def)
  show "length (member_part xs p) = unat (snd p - fst p)" if "p \<in> set ws"
    using range [OF that] by (simp add: member_part_def split_beta min_def) linarith
  show "unat (snd p - fst p) \<le> max_seqlen_q md" if "p \<in> set ws"
    by (rule v(7)) (use that in \<open>force simp: member_lens_def ws_def\<close>)
qed

lemma pad_queries_rows:
  fixes ops :: "'t row_ops" and rows :: "'t \<Rightarrow> 'r list"
  assumes laws: "row_laws ops rows z" and valid: "validate_logical_metadata md = Ok ()"
    and batch: "1 < length (cu_seqlens_q md)"
    and pa: "pa_logical pa = md" "real_rows pa \<noteq> None"
    and len: "length (rows x) = length (md_slot_mapping md)"
  shows "\<exists>y. pad_queries ops pa x = Ok y
    \<and> rows y = concat (map (padded_part (max_seqlen_q md) z (rows x)) (windows2 (cu_seqlens_q md)))"
proof -
  define w where "w = max_seqlen_q md"
  define ws where "ws = windows2 (cu_seqlens_q md)"
  define f where "f = (\<lambda>(a :: 32 word, b :: 32 word). let cnt = unat (b - a) in rbind (narrow0 ops x (unat a) cnt)
               (\<lambda>part. pad_zeros0 ops part (w - cnt) 0))"
  note parts = validated_parts [OF valid len, folded ws_def]
  have "\<exists>us. rcollect f ws = Inr us \<and> map rows us = map (padded_part w z (rows x)) ws"
  proof (rule rcollect_choice)
    fix p assume p: "p \<in> set ws"
    obtain u where u: "narrow0 ops x (unat (fst p)) (unat (snd p - fst p)) = Ok u"
      "rows u = member_part (rows x) p"
      using row_lawsD(2) [OF laws parts(2) [OF p]] by (auto simp: member_part_def split_beta)
    obtain u' where "pad_zeros0 ops u (w - unat (snd p - fst p)) 0 = Ok u'"
      "rows u' = replicate (w - unat (snd p - fst p)) z @ rows u @ replicate 0 z"
      using row_lawsD(3) [OF laws] by blast
    with u parts(3) [OF p] show "\<exists>u. f p = Inr u \<and> rows u = padded_part w z (rows x) p"
      by (simp add: f_def split_beta padded_part_def Let_def)
  qed
  then obtain us where us: "rcollect f ws = Ok us" "map rows us = map (padded_part w z (rows x)) ws"
    by blast
  have "length us = length ws" using us(2) by (metis length_map)
  then have "us \<noteq> []" using batch by (auto simp: ws_def)
  then obtain y where y: "cat0 ops us = Ok y" "rows y = concat (map rows us)"
    using row_lawsD(4) [OF laws] by blast
  have "pad_queries ops pa x = Ok y"
    using us(1) y(1) len pa row_lawsD(1) [OF laws, of x]
    by (auto simp: pad_queries_def f_def w_def ws_def)
  then show ?thesis using y(2) us(2) by (simp add: w_def ws_def)
qed

lemma select_real_rows:
  fixes xs :: "'r list" and z :: 'r
  assumes valid: "validate_logical_metadata md = Ok ()" and len: "length xs = length (md_slot_mapping md)"
    and ix: "real_row_indices md = Ok ix"
  defines "C \<equiv> concat (map (padded_part (max_seqlen_q md) z xs) (windows2 (cu_seqlens_q md)))"
  shows "map ((!) C) ix = xs \<and> (\<forall>i \<in> set ix. i < length C)
    \<and> length C = (length (cu_seqlens_q md) - 1) * max_seqlen_q md"
proof -
  define w where "w = max_seqlen_q md"
  define ws where "ws = windows2 (cu_seqlens_q md)"
  define xss where "xss = map (padded_part w z xs) ws"
  define sel where "sel = map (\<lambda>(m, n). map (\<lambda>r. m * w + w - n + r) [0..<n])
    (enumerate 0 (member_lens (cu_seqlens_q md)))"
  note parts = validated_parts [OF valid len, folded ws_def w_def]
  have C: "C = concat xss" by (simp add: C_def xss_def w_def ws_def)
  have widths: "\<forall>b \<in> set xss. length b = w" using parts(3,4) by (auto simp: xss_def padded_part_def)
  have ix_eq: "ix = concat sel" using real_row_indices_Ok [OF ix] by (simp add: sel_def w_def)
  have len_sel: "length sel = length ws" by (simp add: sel_def ws_def)
  have member: "map ((!) C) (sel ! m) = member_part xs (ws ! m) \<and> (\<forall>i \<in> set (sel ! m). i < length C)"
    if m: "m < length ws" for m
  proof -
    have p: "ws ! m \<in> set ws" using m by simp
    have "member_lens (cu_seqlens_q md) ! m = length (member_part xs (ws ! m))"
      using parts(3) [OF p] m by (simp add: member_lens_def ws_def split_beta)
    then have "sel ! m = map (\<lambda>r. m * w + w - length (member_part xs (ws ! m)) + r)
        [0..<length (member_part xs (ws ! m))]"
      using m by (simp add: sel_def ws_def nth_enumerate_eq)
    moreover have "m < length xss" "xss ! m = replicate (w - length (member_part xs (ws ! m))) z @ member_part xs (ws ! m)"
      "length (member_part xs (ws ! m)) \<le> w"
      using m parts(3,4) [OF p] by (simp_all add: xss_def padded_part_def)
    ultimately show ?thesis unfolding C using select_member_rows [OF widths] by metis
  qed
  have "map (map ((!) C)) sel = map (member_part xs) ws"
    using len_sel member by (intro nth_equalityI) simp_all
  then have "map ((!) C) ix = xs" using parts(1) by (simp add: ix_eq map_concat)
  moreover have "\<forall>i \<in> set ix. i < length C"
    using member len_sel unfolding ix_eq set_concat by (metis UN_E in_set_conv_nth)
  moreover have "length C = length ws * w"
    unfolding C length_concat using widths by (simp add: xss_def o_def sum_list_triv cong: map_cong)
  ultimately show ?thesis by (simp add: ws_def w_def)
qed

lemma prepared_rows:
  assumes "prepare_with_limits epoch md (Some l) = Ok pa" "real_rows pa = Some ix"
  shows "validate_logical_metadata md = Ok ()" "pa_logical pa = md" "1 < length (cu_seqlens_q md)"
    "real_row_indices md = Ok ix"
proof -
  obtain rect work where plan: "validate_logical_metadata md = Ok ()" "plan_layout l md = Ok (rect, work)"
    and rest: "pa_logical pa = md" "rect" "real_row_indices md = Ok ix"
    using assms by (fastforce simp: prepare_with_limits_def rbind_Ok_iff Let_def split: if_splits)
  then show "validate_logical_metadata md = Ok ()" "pa_logical pa = md" "real_row_indices md = Ok ix"
    by simp_all
  from plan(2) \<open>rect\<close> have "rectangular_fits l md"
    by (auto simp: plan_layout_def rbind_Ok_iff split: if_splits option.splits)
  then show "1 < length (cu_seqlens_q md)" by (simp add: rectangular_fits_def Let_def) linarith
qed

text \<open>The builders' output passes validation.\<close>

lemma built_valid:
  assumes "length qs = length ks" "sum_list (map unat qs) < 2 ^ 32" "sum_list (map unat ks) < 2 ^ 32"
    and "\<forall>i < length qs. qs ! i \<le> ks ! i" "length slots = sum_list (map unat qs)"
  shows "length table = length qs
      \<Longrightarrow> validate_logical_metadata (build_continued_prefill_metadata qs ks table slots) = Ok ()"
    and "validate_logical_metadata (build_prefill_metadata qs ks slots) = Ok ()"
    and "length table = length qs \<Longrightarrow> list_all (\<lambda>q. q = 1) qs
      \<Longrightarrow> validate_logical_metadata (build_decode_metadata ks table slots) = Ok ()"
proof -
  note zip_simps = map_fst_zip [OF assms(1)] map_snd_zip [OF assms(1)]
  show "length table = length qs \<Longrightarrow> validate_logical_metadata (build_continued_prefill_metadata qs ks table slots) = Ok ()"
    "validate_logical_metadata (build_prefill_metadata qs ks slots) = Ok ()"
    by (rule validate_built [OF assms(1-4)];
        simp add: build_continued_prefill_metadata_def build_prefill_metadata_def Let_def
          zip_simps loop_max_upper assms)+
  assume t: "length table = length qs" and ones: "list_all (\<lambda>q. q = 1) qs"
  then have "map (\<lambda>_. 1) ks = qs" using assms(1)
    by (intro nth_equalityI) (simp_all add: list_all_length)
  then show "validate_logical_metadata (build_decode_metadata ks table slots) = Ok ()"
    using t ones by (intro validate_built [OF assms(1-4)])
       (auto simp: build_decode_metadata_def loop_max_upper assms(5) list_all_iff)
qed

section \<open>Properties\<close>

text \<open>the metadata builders hand validated metadata to the attention layer. When the members'
  query and key totals fit 32 bits, every member has at least as many keys as queries, there is
  one slot per query token and one block table row per member, the continued-prefill and the
  decode builder both produce metadata that passes \<^verbatim>\<open>validate_logical_metadata\<close>, whose member
  lengths are exactly the scheduled ones.\<close>

theorem built_metadata_valid:
  assumes "length qs = length ks" "sum_list (map unat qs) < 2 ^ 32" "sum_list (map unat ks) < 2 ^ 32"
    and "\<forall>i < length qs. qs ! i \<le> ks ! i" "length slots = sum_list (map unat qs)"
    and "length table = length qs"
  shows "validate_logical_metadata (build_continued_prefill_metadata qs ks table slots) = Ok ()
    \<and> validate_logical_metadata (build_prefill_metadata qs ks slots) = Ok ()
    \<and> (list_all (\<lambda>q. q = 1) qs \<longrightarrow> validate_logical_metadata (build_decode_metadata ks table slots) = Ok ())
    \<and> member_lens (cu_seqlens_q (build_continued_prefill_metadata qs ks table slots)) = map unat qs
    \<and> member_lens (cu_seqlens_k (build_continued_prefill_metadata qs ks table slots)) = map unat ks"
  using built_valid [OF assms(1-5)] assms(1,6)
  by (simp add: build_continued_prefill_metadata_def build_prefill_metadata_def Let_def)

theorem built_metadata_valid_witness:
  "validate_logical_metadata (build_continued_prefill_metadata [1, 3] [5, 3] [[0], [1]] [4, 256, 257, 258]) = Ok ()"
  using built_metadata_valid [of "[1, 3]" "[5, 3]" "[4, 256, 257, 258]" "[[0], [1]]"]
  by (simp add: less_Suc_eq_0_disj All_less_Suc2 del: One_nat_def)


text \<open>C30: padding the queries of a prepared step to the rectangular layout and selecting the real
  rows again is the identity on the rows, whatever the members' lengths; the padded tensor has
  batch times maximum-length rows. The tensor operations are assumed to act on rows as
  documented.\<close>

theorem pad_unpad_roundtrip:
  assumes "row_laws ops rows z" "prepare_with_limits epoch md (Some l) = Ok pa"
    and "real_rows pa = Some ix" "length (rows x) = length (md_slot_mapping md)"
  shows "\<exists>y u. pad_queries ops pa x = Ok y \<and> unpad_queries ops pa y = Ok u \<and> rows u = rows x
    \<and> length (rows y) = (length (cu_seqlens_q md) - 1) * max_seqlen_q md"
proof -
  note p = prepared_rows [OF assms(2,3)]
  obtain y where y: "pad_queries ops pa x = Ok y"
    "rows y = concat (map (padded_part (max_seqlen_q md) z (rows x)) (windows2 (cu_seqlens_q md)))"
    using pad_queries_rows [OF assms(1) p(1,3,2) _ assms(4)] assms(3) by auto
  note sel = select_real_rows [OF p(1) assms(4) p(4), of z, folded y(2)]
  obtain u where "index_select0 ops y ix = Ok u" "rows u = map ((!) (rows y)) ix"
    using row_lawsD(5) [OF assms(1)] sel by blast
  with y(1) sel assms(3) show ?thesis by (auto simp: unpad_queries_def)
qed

text \<open>The witness runs the padding on lists of rows.\<close>

definition list_row_ops :: "nat list row_ops" where
  "list_row_ops = \<lparr>
     dim0 = (\<lambda>t. Ok (length t)),
     narrow0 = (\<lambda>t a n. if a + n \<le> length t then Ok (take n (drop a t)) else Error TensorError),
     pad_zeros0 = (\<lambda>t a b. Ok (replicate a 0 @ t @ replicate b 0)),
     cat0 = (\<lambda>ts. if ts = [] then Error TensorError else Ok (concat ts)),
     index_select0 = (\<lambda>t ix. if list_all (\<lambda>i. i < length t) ix then Ok (map ((!) t) ix) else Error TensorError)\<rparr>"

definition demo_limits :: math_limits where
  "demo_limits = \<lparr>query_heads = 1, kv_heads = 1, head_dim = 1, lim_block_size = 256, lim_num_blocks = 1,
     max_query_tokens = 100, workspace_bytes = 1000000\<rparr>"

definition demo_metadata :: attn_metadata where
  "demo_metadata = build_prefill_metadata [1, 2] [1, 2] [0, 1, 2]"

lemma list_row_ops_laws: "row_laws list_row_ops id 0"
  by (simp add: row_laws_def list_row_ops_def list_all_iff)

lemma demo_valid: "validate_logical_metadata demo_metadata = Ok ()"
  by code_simp

lemma demo_planned: "plan_layout demo_limits demo_metadata = Ok (True, [])"
proof -
  have "cu_seqlens_q demo_metadata = [0, 1, 3]" "md_block_table demo_metadata = []"
    "md_slot_mapping demo_metadata = [0, 1, 2]" "max_seqlen_q demo_metadata = 2" "max_seqlen_k demo_metadata = 2"
    by code_simp+
  then show ?thesis
    by (simp add: plan_layout_def demo_limits_def geometry_invalid_def rectangular_fits_def fits_def
        full_bytes_def checked_sum_def checked_product_def checked_mul_def checked_add_def usize_bound_def
        score_rows_def Let_def)
qed

lemma demo_rows: "real_row_indices demo_metadata = Ok [1, 2, 3]"
proof -
  have "member_lens (cu_seqlens_q demo_metadata) = [1, 2]" "max_seqlen_q demo_metadata = 2"
    by code_simp+
  then show ?thesis by (simp add: real_row_indices_def member_rows_def upt_rec Let_def)
qed

lemma demo_prepared:
  obtains pa where "prepare_with_limits WarmupPrefill demo_metadata (Some demo_limits) = Ok pa"
    "real_rows pa = Some [1, 2, 3]"
proof -
  have "(length (cu_seqlens_q demo_metadata) - 1) * max_seqlen_q demo_metadata \<noteq> length (md_slot_mapping demo_metadata)"
    "md_block_table demo_metadata = []"
    by code_simp+
  then have "(case prepare_with_limits WarmupPrefill demo_metadata (Some demo_limits) of
          Inl _ \<Rightarrow> False | Inr pa \<Rightarrow> real_rows pa = Some [1, 2, 3])"
    by (simp add: prepare_with_limits_def demo_valid demo_planned demo_rows prepare_block_table_def)
  then show thesis using that by (auto split: sum.splits)
qed


theorem pad_unpad_roundtrip_witness:
  "\<exists>pa y. prepare_with_limits WarmupPrefill demo_metadata (Some demo_limits) = Ok pa
     \<and> pad_queries list_row_ops pa [7, 8, 9] = Ok y \<and> unpad_queries list_row_ops pa y = Ok [7, 8, 9]"
proof -
  obtain pa where pa: "prepare_with_limits WarmupPrefill demo_metadata (Some demo_limits) = Ok pa" "real_rows pa = Some [1, 2, 3]"
    by (rule demo_prepared)
  have "length (id [7, 8, 9 :: nat]) = length (md_slot_mapping demo_metadata)" by code_simp
  from pad_unpad_roundtrip [OF list_row_ops_laws pa this] pa(1) show ?thesis by auto
qed

end
