(* ===== verification/Attention_Context.thy ===== *)
theory Attention_Context
  imports Attn_Metadata
begin

text \<open>
  \<^verbatim>\<open>attention/mod.rs\<close>: the attention state shared by the engine and the model layers. It holds
  the one-time physical cache (\<^verbatim>\<open>PagedKVCache\<close>) and the lifecycle of the metadata prepared for one
  step (\<^verbatim>\<open>Idle\<close>, \<^verbatim>\<open>Preparing\<close>, \<^verbatim>\<open>Ready\<close>) with the consumer bound to it.

  Every method takes the state's mutex for one or more critical sections. A critical section is a
  function on the state; a method is their composition. A poisoned mutex is a flag that makes the
  locking methods fail. The guards \<^verbatim>\<open>AttentionStepGuard\<close>, \<^verbatim>\<open>AttentionConsumerGuard\<close> and
  \<^verbatim>\<open>AttentionPreparationReservation\<close> release what they hold when they are finished or dropped, so
  dropping one is the release operation with its result discarded. Interleavings of several users
  of one context are the steps of the relation \<open>guard_step\<close>, whose states also record which guards
  are alive.

  Tensors and device memory belong to the \<^verbatim>\<open>candle\<close> crate: \<open>zeros\<close> allocates the cache buffer and
  \<open>upload\<close> copies a prepared step to the device; both are parameters and both may fail.
\<close>

section \<open>Paged cache\<close>

datatype dtype = U8 | U32 | I16 | I32 | I64 | BF16 | F16 | F32 | F64

record cache_geometry =
  geo_num_layers :: nat
  geo_block_size :: nat
  geo_num_kv_heads :: nat
  geo_head_dim :: nat
  geo_dtype :: dtype

record 't paged_kv_cache =
  buffer :: "'t option"
  geometry :: cache_geometry
  cache_num_blocks :: nat

datatype attention_error =
    AlreadyAllocated nat
  | NoBlocksRequested
  | NotAllocated
  | DeviceError
  | StateLockPoisoned
  | KvLockPoisoned
  | LimitsNeedIdle
  | LimitsNotInitialized
  | StaleConsumer attention_epoch attention_epoch
  | AlreadyBound attention_epoch attention_epoch
  | BindWhilePreparing attention_epoch attention_epoch
  | BindWhileIdle attention_epoch
  | ConsumerEpochMismatch attention_epoch attention_epoch
  | NoBoundConsumer attention_epoch
  | NotReady attention_epoch
  | NothingPrepared
  | ConsumerStillBound attention_epoch attention_epoch
  | StillPreparing attention_epoch attention_epoch
  | ActiveEpoch attention_epoch attention_epoch
  | ContextIdle attention_epoch
  | LostReservation attention_epoch
  | WrongConsumer attention_epoch attention_epoch
  | ConsumerNotBound attention_epoch
  | MetadataFailed metadata_error

definition kv_cache_layout_shape :: "nat \<Rightarrow> nat \<Rightarrow> nat \<Rightarrow> nat \<Rightarrow> nat \<Rightarrow> nat list" where
  "kv_cache_layout_shape num_layers blocks block_size num_kv_heads head =
     [2, num_layers, blocks, block_size, num_kv_heads, head]"

definition deferred :: "cache_geometry \<Rightarrow> 't paged_kv_cache" where
  "deferred g = \<lparr>buffer = None, geometry = g, cache_num_blocks = 0\<rparr>"

definition layout_for :: "cache_geometry \<Rightarrow> nat \<Rightarrow> nat list" where
  "layout_for g n = kv_cache_layout_shape (geo_num_layers g) n (geo_block_size g) (geo_num_kv_heads g) (geo_head_dim g)"

definition cache_allocate ::
    "(nat list \<Rightarrow> dtype \<Rightarrow> (attention_error, 't) outcome) \<Rightarrow> nat \<Rightarrow> 't paged_kv_cache \<Rightarrow>
      (attention_error, unit) outcome \<times> 't paged_kv_cache" where
  "cache_allocate zeros n cache =
     (if buffer cache \<noteq> None then (Error (AlreadyAllocated (cache_num_blocks cache)), cache)
      else if n = 0 then (Error NoBlocksRequested, cache)
      else case zeros (layout_for (geometry cache) n) (geo_dtype (geometry cache)) of
        Inl e \<Rightarrow> (Inl e, cache)
      | Inr b \<Rightarrow> (Ok (), cache\<lparr>buffer := Some b, cache_num_blocks := n\<rparr>))"

definition cache_new ::
    "(nat list \<Rightarrow> dtype \<Rightarrow> (attention_error, 't) outcome) \<Rightarrow> nat \<Rightarrow> nat \<Rightarrow> nat \<Rightarrow> nat \<Rightarrow> nat \<Rightarrow> dtype \<Rightarrow>
      (attention_error, 't paged_kv_cache) outcome" where
  "cache_new zeros num_layers n block_size num_kv_heads head dt =
     (case cache_allocate zeros n (deferred \<lparr>geo_num_layers = num_layers, geo_block_size = block_size,
        geo_num_kv_heads = num_kv_heads, geo_head_dim = head, geo_dtype = dt\<rparr>) of
       (Inl e, _) \<Rightarrow> Inl e | (Inr _, cache) \<Rightarrow> Ok cache)"

definition cache_buffer :: "'t paged_kv_cache \<Rightarrow> (attention_error, 't) outcome" where
  "cache_buffer cache = (case buffer cache of None \<Rightarrow> Error NotAllocated | Some b \<Rightarrow> Ok b)"

definition k_cache ::
    "('t \<Rightarrow> nat \<Rightarrow> nat \<Rightarrow> (attention_error, 't) outcome) \<Rightarrow> 't paged_kv_cache \<Rightarrow> nat \<Rightarrow> (attention_error, 't) outcome" where
  "k_cache at cache layer = rbind (cache_buffer cache) (\<lambda>b. at b 0 layer)"

definition v_cache ::
    "('t \<Rightarrow> nat \<Rightarrow> nat \<Rightarrow> (attention_error, 't) outcome) \<Rightarrow> 't paged_kv_cache \<Rightarrow> nat \<Rightarrow> (attention_error, 't) outcome" where
  "v_cache at cache layer = rbind (cache_buffer cache) (\<lambda>b. at b 1 layer)"

definition buffer_shape :: "'t paged_kv_cache \<Rightarrow> nat list" where
  "buffer_shape cache = layout_for (geometry cache) (cache_num_blocks cache)"

section \<open>Lifecycle state and its critical sections\<close>

datatype attention_lifecycle = Idle | Preparing attention_epoch | Ready prepared_attention

record attention_state =
  lifecycle :: attention_lifecycle
  bound_consumer :: "attention_epoch option"
  prepare_calls :: nat
  total_uploads :: nat
  compute_limits :: "(nat \<times> nat) option"

definition default_attention_state :: attention_state where
  "default_attention_state = \<lparr>lifecycle = Idle, bound_consumer = None, prepare_calls = 0,
     total_uploads = 0, compute_limits = None\<rparr>"

type_synonym 'a critical = "attention_state \<Rightarrow> (attention_error, 'a) outcome \<times> attention_state"

definition set_limits_section :: "nat \<Rightarrow> nat \<Rightarrow> unit critical" where
  "set_limits_section max_query workspace st =
     (if lifecycle st \<noteq> Idle \<or> bound_consumer st \<noteq> None then (Error LimitsNeedIdle, st)
      else (Ok (), st\<lparr>compute_limits := Some (max_query, workspace)\<rparr>))"

definition bind_section :: "attention_epoch \<Rightarrow> unit critical" where
  "bind_section expected st =
     (case lifecycle st of
        Ready active \<Rightarrow>
          if pa_epoch active \<noteq> expected then (Error (StaleConsumer expected (pa_epoch active)), st)
          else (case bound_consumer st of
              Some bound \<Rightarrow> (Error (AlreadyBound expected bound), st)
            | None \<Rightarrow> (Ok (), st\<lparr>bound_consumer := Some expected\<rparr>))
      | Preparing active \<Rightarrow> (Error (BindWhilePreparing expected active), st)
      | Idle \<Rightarrow> (Error (BindWhileIdle expected), st))"

definition borrow_section :: "prepared_attention critical" where
  "borrow_section st =
     ((case (lifecycle st, bound_consumer st) of
         (Ready prepared, Some bound) \<Rightarrow>
           if pa_epoch prepared = bound then Ok prepared else Error (ConsumerEpochMismatch bound (pa_epoch prepared))
       | (Ready prepared, None) \<Rightarrow> Error (NoBoundConsumer (pa_epoch prepared))
       | (Preparing epoch, _) \<Rightarrow> Error (NotReady epoch)
       | (Idle, _) \<Rightarrow> Error NothingPrepared), st)"

definition reserve_section :: "attention_epoch \<Rightarrow> unit critical" where
  "reserve_section epoch st =
     (case bound_consumer st of
        Some bound \<Rightarrow> (Error (ConsumerStillBound bound epoch), st)
      | None \<Rightarrow> (case lifecycle st of
          Idle \<Rightarrow> (Ok (), st\<lparr>lifecycle := Preparing epoch\<rparr>)
        | Preparing active \<Rightarrow> (Error (StillPreparing active epoch), st)
        | Ready active \<Rightarrow> (Error (ActiveEpoch (pa_epoch active) epoch), st)))"

definition publish_section :: "attention_epoch \<Rightarrow> prepared_attention \<Rightarrow> unit critical" where
  "publish_section epoch prepared st =
     (if lifecycle st = Preparing epoch \<and> bound_consumer st = None
      then (Ok (), st\<lparr>lifecycle := Ready prepared, prepare_calls := prepare_calls st + 1,
                     total_uploads := total_uploads st + device_tensor_uploads prepared\<rparr>)
      else (Error (LostReservation epoch), st))"

definition cancel_section :: "attention_epoch \<Rightarrow> attention_state \<Rightarrow> attention_state" where
  "cancel_section epoch st = (if lifecycle st = Preparing epoch then st\<lparr>lifecycle := Idle\<rparr> else st)"

definition release_consumer_section :: "attention_epoch \<Rightarrow> unit critical" where
  "release_consumer_section epoch st =
     (case bound_consumer st of
        Some bound \<Rightarrow> if bound = epoch then (Ok (), st\<lparr>bound_consumer := None\<rparr>)
                      else (Error (WrongConsumer epoch bound), st)
      | None \<Rightarrow> (Error (ConsumerNotBound epoch), st))"

definition release_section :: "attention_epoch \<Rightarrow> unit critical" where
  "release_section epoch st =
     (case bound_consumer st of
        Some bound \<Rightarrow> (Error (ConsumerStillBound bound epoch), st)
      | None \<Rightarrow> (case lifecycle st of
          Ready active \<Rightarrow> if pa_epoch active = epoch then (Ok (), st\<lparr>lifecycle := Idle\<rparr>)
                          else (Error (ActiveEpoch (pa_epoch active) epoch), st)
        | Preparing active \<Rightarrow> (Error (StillPreparing active epoch), st)
        | Idle \<Rightarrow> (Error (ContextIdle epoch), st)))"

section \<open>The context and its methods\<close>

record 't attention_context =
  paged_kv :: "'t paged_kv_cache"
  kv_poisoned :: bool
  runtime :: attention_state
  runtime_poisoned :: bool
  ctx_query_heads :: "nat option"

definition context_new :: "'t paged_kv_cache \<Rightarrow> 't attention_context" where
  "context_new cache = \<lparr>paged_kv = cache, kv_poisoned = False, runtime = default_attention_state,
     runtime_poisoned = False, ctx_query_heads = None\<rparr>"

definition new_with_query_heads :: "'t paged_kv_cache \<Rightarrow> nat \<Rightarrow> 't attention_context" where
  "new_with_query_heads cache heads = (context_new cache)\<lparr>ctx_query_heads := Some heads\<rparr>"

text \<open>\<^verbatim>\<open>lock_attention_state\<close> followed by a critical section.\<close>

definition locked ::
    "'a critical \<Rightarrow> 't attention_context \<Rightarrow> (attention_error, 'a) outcome \<times> 't attention_context" where
  "locked f ctx =
     (if runtime_poisoned ctx then (Error StateLockPoisoned, ctx)
      else let (r, st) = f (runtime ctx) in (r, ctx\<lparr>runtime := st\<rparr>))"

definition set_compute_limits ::
    "nat \<Rightarrow> nat \<Rightarrow> 't attention_context \<Rightarrow> (attention_error, unit) outcome \<times> 't attention_context" where
  "set_compute_limits max_query workspace = locked (set_limits_section max_query workspace)"

definition bind_consumer ::
    "attention_epoch \<Rightarrow> 't attention_context \<Rightarrow> (attention_error, unit) outcome \<times> 't attention_context" where
  "bind_consumer expected = locked (bind_section expected)"

definition prepared_for_bound_consumer ::
    "'t attention_context \<Rightarrow> (attention_error, prepared_attention) outcome" where
  "prepared_for_bound_consumer ctx = fst (locked borrow_section ctx)"

definition reserve ::
    "attention_epoch \<Rightarrow> 't attention_context \<Rightarrow> (attention_error, unit) outcome \<times> 't attention_context" where
  "reserve epoch = locked (reserve_section epoch)"

definition cancel_preparation :: "attention_epoch \<Rightarrow> 't attention_context \<Rightarrow> 't attention_context" where
  "cancel_preparation epoch ctx =
     (if runtime_poisoned ctx then ctx else ctx\<lparr>runtime := cancel_section epoch (runtime ctx)\<rparr>)"

definition release_consumer ::
    "attention_epoch \<Rightarrow> 't attention_context \<Rightarrow> (attention_error, unit) outcome \<times> 't attention_context" where
  "release_consumer epoch = locked (release_consumer_section epoch)"

definition release ::
    "attention_epoch \<Rightarrow> 't attention_context \<Rightarrow> (attention_error, unit) outcome \<times> 't attention_context" where
  "release epoch = locked (release_section epoch)"

text \<open>The limits that \<^verbatim>\<open>complete_preparation\<close> reads before it prepares the step.\<close>

definition preparation_limits ::
    "'t attention_context \<Rightarrow> (attention_error, math_limits option) outcome" where
  "preparation_limits ctx =
     (case ctx_query_heads ctx of
        None \<Rightarrow> Ok None
      | Some heads \<Rightarrow>
          if runtime_poisoned ctx then Error StateLockPoisoned
          else (case compute_limits (runtime ctx) of
              None \<Rightarrow> Error LimitsNotInitialized
            | Some (max_query, workspace) \<Rightarrow>
                if kv_poisoned ctx then Error KvLockPoisoned
                else let g = geometry (paged_kv ctx) in
                  Ok (Some \<lparr>query_heads = heads, kv_heads = geo_num_kv_heads g, head_dim = geo_head_dim g,
                    lim_block_size = geo_block_size g, lim_num_blocks = cache_num_blocks (paged_kv ctx),
                    max_query_tokens = max_query, workspace_bytes = workspace\<rparr>)))"

text \<open>Every early return drops the armed reservation, which cancels the preparation.\<close>

definition complete_preparation ::
    "(prepared_attention \<Rightarrow> (metadata_error, unit) outcome) \<Rightarrow> attention_epoch \<Rightarrow> attn_metadata \<Rightarrow>
      't attention_context \<Rightarrow> (attention_error, unit) outcome \<times> 't attention_context" where
  "complete_preparation upload epoch md ctx =
     (case rbind (preparation_limits ctx) (\<lambda>limits. map_err MetadataFailed
        (rbind (prepare_with_limits epoch md limits) (\<lambda>prepared.
         rbind (upload prepared) (\<lambda>_. Ok prepared)))) of
        Inl e \<Rightarrow> (Inl e, cancel_preparation epoch ctx)
      | Inr prepared \<Rightarrow> (case locked (publish_section epoch prepared) ctx of
            (Inl e, ctx') \<Rightarrow> (Inl e, cancel_preparation epoch ctx')
          | (Inr _, ctx') \<Rightarrow> (Ok (), ctx')))"

definition prepare ::
    "(prepared_attention \<Rightarrow> (metadata_error, unit) outcome) \<Rightarrow> attention_epoch \<Rightarrow> attn_metadata \<Rightarrow>
      't attention_context \<Rightarrow> (attention_error, unit) outcome \<times> 't attention_context" where
  "prepare upload epoch md ctx =
     (case reserve epoch ctx of
        (Inl e, ctx') \<Rightarrow> (Inl e, ctx')
      | (Inr _, ctx') \<Rightarrow> complete_preparation upload epoch md ctx')"

text \<open>\<^verbatim>\<open>finish\<close> of a guard: on success the guard is disarmed; on failure it is still armed and the
  drop at the end of \<^verbatim>\<open>finish\<close> tries the same release again. \<^verbatim>\<open>drop\<close> of an armed guard.\<close>

definition finish_consumer ::
    "attention_epoch \<Rightarrow> 't attention_context \<Rightarrow> (attention_error, unit) outcome \<times> 't attention_context" where
  "finish_consumer epoch ctx =
     (case release_consumer epoch ctx of
        (Inl e, ctx') \<Rightarrow> (Inl e, snd (release_consumer epoch ctx'))
      | (Inr _, ctx') \<Rightarrow> (Ok (), ctx'))"

definition drop_consumer :: "attention_epoch \<Rightarrow> 't attention_context \<Rightarrow> 't attention_context" where
  "drop_consumer epoch ctx = snd (release_consumer epoch ctx)"

definition finish_step ::
    "attention_epoch \<Rightarrow> 't attention_context \<Rightarrow> (attention_error, unit) outcome \<times> 't attention_context" where
  "finish_step epoch ctx =
     (case release epoch ctx of
        (Inl e, ctx') \<Rightarrow> (Inl e, snd (release epoch ctx'))
      | (Inr _, ctx') \<Rightarrow> (Ok (), ctx'))"

definition drop_step :: "attention_epoch \<Rightarrow> 't attention_context \<Rightarrow> 't attention_context" where
  "drop_step epoch ctx = snd (release epoch ctx)"

definition is_idle :: "'t attention_context \<Rightarrow> bool" where
  "is_idle ctx \<longleftrightarrow> lifecycle (runtime ctx) = Idle \<and> bound_consumer (runtime ctx) = None"

section \<open>Interleaved users of one context\<close>

text \<open>A state of the machine: the shared state and the guards that are alive. Each step is one
  critical section of some user, who may only complete, finish or drop a guard that is alive.
  A call that fails changes nothing and is no step.\<close>

record guarded =
  shared :: attention_state
  reservations :: "attention_epoch multiset"
  step_guards :: "attention_epoch multiset"
  consumer_guards :: "attention_epoch multiset"

definition unguarded :: guarded where
  "unguarded = \<lparr>shared = default_attention_state, reservations = {#}, step_guards = {#}, consumer_guards = {#}\<rparr>"

inductive guard_step :: "guarded \<Rightarrow> guarded \<Rightarrow> bool" where
  begin_prepare: "reserve_section e (shared g) = (Ok (), st) \<Longrightarrow>
     guard_step g (g\<lparr>shared := st, reservations := add_mset e (reservations g)\<rparr>)"
| publish: "e \<in># reservations g \<Longrightarrow> pa_epoch prepared = e \<Longrightarrow>
     publish_section e prepared (shared g) = (Ok (), st) \<Longrightarrow>
     guard_step g (g\<lparr>shared := st, reservations := reservations g - {#e#}, step_guards := add_mset e (step_guards g)\<rparr>)"
| abandon: "e \<in># reservations g \<Longrightarrow>
     guard_step g (g\<lparr>shared := cancel_section e (shared g), reservations := reservations g - {#e#}\<rparr>)"
| bind: "bind_section e (shared g) = (Ok (), st) \<Longrightarrow>
     guard_step g (g\<lparr>shared := st, consumer_guards := add_mset e (consumer_guards g)\<rparr>)"
| end_consumer: "e \<in># consumer_guards g \<Longrightarrow>
     guard_step g (g\<lparr>shared := snd (release_consumer_section e (shared g)), consumer_guards := consumer_guards g - {#e#}\<rparr>)"
| end_step: "e \<in># step_guards g \<Longrightarrow>
     guard_step g (g\<lparr>shared := snd (release_section e (shared g)), step_guards := step_guards g - {#e#}\<rparr>)"
| limits: "set_limits_section q w (shared g) = (Ok (), st) \<Longrightarrow> guard_step g (g\<lparr>shared := st\<rparr>)"

lemmas section_defs = reserve_section_def publish_section_def cancel_section_def bind_section_def
  release_consumer_section_def release_section_def set_limits_section_def borrow_section_def

text \<open>The guards alive agree with the shared state. A step guard dropped while a consumer is bound
  leaves the epoch published, hence the inclusion in the last case.\<close>

definition lifecycle_ok :: "attention_lifecycle \<Rightarrow> attention_epoch option \<Rightarrow> attention_epoch multiset \<Rightarrow>
    attention_epoch multiset \<Rightarrow> bool" where
  "lifecycle_ok lc bound res steps \<longleftrightarrow> (case lc of
       Idle \<Rightarrow> res = {#} \<and> steps = {#} \<and> bound = None
     | Preparing e \<Rightarrow> res = {#e#} \<and> steps = {#} \<and> bound = None
     | Ready prepared \<Rightarrow> res = {#} \<and> (steps = {#} \<or> steps = {#pa_epoch prepared#})
         \<and> (bound = None \<or> bound = Some (pa_epoch prepared)))"

definition guard_inv :: "guarded \<Rightarrow> bool" where
  "guard_inv g \<longleftrightarrow>
     lifecycle_ok (lifecycle (shared g)) (bound_consumer (shared g)) (reservations g) (step_guards g)
     \<and> consumer_guards g = (case bound_consumer (shared g) of None \<Rightarrow> {#} | Some e \<Rightarrow> {#e#})"

lemma lifecycle_ok_simps [simp]:
  "lifecycle_ok Idle bound res steps \<longleftrightarrow> res = {#} \<and> steps = {#} \<and> bound = None"
  "lifecycle_ok (Preparing e) bound res steps \<longleftrightarrow> res = {#e#} \<and> steps = {#} \<and> bound = None"
  "lifecycle_ok (Ready prepared) bound res steps \<longleftrightarrow> res = {#} \<and> (steps = {#} \<or> steps = {#pa_epoch prepared#})
     \<and> (bound = None \<or> bound = Some (pa_epoch prepared))"
  by (simp_all add: lifecycle_ok_def)

lemma guard_inv_initial: "guard_inv unguarded"
  by (simp add: guard_inv_def unguarded_def default_attention_state_def)

lemma guard_inv_step: "guard_step g g' \<Longrightarrow> guard_inv g \<Longrightarrow> guard_inv g'"
proof (induction rule: guard_step.induct)
  case (begin_prepare e g st)
  then show ?case
    by (auto simp: guard_inv_def reserve_section_def split: option.splits attention_lifecycle.splits)
next
  case (publish e g prepared st)
  then show ?case by (auto simp: guard_inv_def publish_section_def split: if_splits)
next
  case (abandon e g)
  then show ?case by (cases "lifecycle (shared g)") (auto simp: guard_inv_def cancel_section_def)
next
  case (bind e g st)
  then show ?case
    by (auto simp: guard_inv_def bind_section_def split: option.splits attention_lifecycle.splits if_splits)
next
  case (end_consumer e g)
  then show ?case
    by (cases "lifecycle (shared g)")
      (auto simp: guard_inv_def release_consumer_section_def split: option.splits)
next
  case (end_step e g)
  then show ?case
    by (cases "lifecycle (shared g)") (auto simp: guard_inv_def release_section_def split: option.splits)
next
  case (limits q w g st)
  then show ?case by (auto simp: guard_inv_def set_limits_section_def split: if_splits)
qed

lemma guard_inv_reachable: "guard_step\<^sup>*\<^sup>* unguarded g \<Longrightarrow> guard_inv g"
  by (induction rule: rtranclp_induct) (auto intro: guard_inv_initial guard_inv_step)

section \<open>One step from an idle context\<close>

lemma prepared_epoch:
  "prepare_with_limits epoch md limits = Ok prepared \<Longrightarrow> pa_epoch prepared = epoch \<and> pa_logical prepared = md"
  by (auto simp: prepare_with_limits_def rbind_Ok_iff Let_def)

lemma flatten_rows_no_panic [simp]: "flatten_rows w rows \<noteq> Panicked"
  by (induction rows) (auto simp: rbind_Inl_iff)

lemma real_row_indices_no_panic: "real_row_indices md \<noteq> Panicked"
  by (auto simp: real_row_indices_def member_rows_def rbind_Inl_iff Let_def dest!: rcollect_Panic split: if_splits)

lemma prepare_with_limits_no_panic: "prepare_with_limits epoch md limits \<noteq> Panicked"
proof
  assume p: "prepare_with_limits epoch md limits = Panicked"
  have val: "validate_logical_metadata md \<noteq> Panicked" by (simp add: validate_logical_metadata_def Let_def)
  then have ok: "validate_logical_metadata md = Ok ()"
    using p by (cases "validate_logical_metadata md") (auto simp: prepare_with_limits_def)
  have "plan_layout l md \<noteq> Panicked" for l using plan_layout_no_panic validated_shape [OF ok] by blast
  moreover have "prepare_block_table t \<noteq> Panicked" for t
    by (auto simp: prepare_block_table_def Let_def rbind_Inl_iff)
  ultimately show False using p ok real_row_indices_no_panic [of md]
    by (auto simp: prepare_with_limits_def rbind_Inl_iff Let_def split: option.splits if_splits)
qed

text \<open>What the context holds while the step prepared as \<open>prepared\<close> is active.\<close>

definition holding :: "'t attention_context \<Rightarrow> prepared_attention \<Rightarrow> 't attention_context" where
  "holding ctx prepared = ctx\<lparr>runtime := (runtime ctx)\<lparr>lifecycle := Ready prepared,
     prepare_calls := prepare_calls (runtime ctx) + 1,
     total_uploads := total_uploads (runtime ctx) + device_tensor_uploads prepared\<rparr>\<rparr>"

text \<open>The idle context with the counters of one completed step.\<close>

definition completed :: "'t attention_context \<Rightarrow> prepared_attention \<Rightarrow> 't attention_context" where
  "completed ctx prepared = ctx\<lparr>runtime := (runtime ctx)\<lparr>
     prepare_calls := prepare_calls (runtime ctx) + 1,
     total_uploads := total_uploads (runtime ctx) + device_tensor_uploads prepared\<rparr>\<rparr>"

definition preparation ::
    "(prepared_attention \<Rightarrow> (metadata_error, unit) outcome) \<Rightarrow> attention_epoch \<Rightarrow> attn_metadata \<Rightarrow>
      't attention_context \<Rightarrow> (attention_error, prepared_attention) outcome" where
  "preparation upload epoch md ctx = rbind (preparation_limits ctx) (\<lambda>limits. map_err MetadataFailed
     (rbind (prepare_with_limits epoch md limits) (\<lambda>prepared.
      rbind (upload prepared) (\<lambda>_. Ok prepared))))"

lemma preparation_epoch:
  "preparation upload epoch md ctx = Ok prepared \<Longrightarrow> pa_epoch prepared = epoch \<and> pa_logical prepared = md"
  by (auto simp: preparation_def rbind_Ok_iff dest: prepared_epoch)

lemma preparation_no_panic:
  "(\<And>prepared. upload prepared \<noteq> Panicked) \<Longrightarrow> preparation upload epoch md ctx \<noteq> Panicked"
  using prepare_with_limits_no_panic
  by (auto simp: preparation_def preparation_limits_def rbind_Inl_iff Let_def split: option.splits if_splits)

lemma preparation_frame: "preparation upload epoch md (ctx\<lparr>runtime := (runtime ctx)\<lparr>lifecycle := l\<rparr>\<rparr>)
    = preparation upload epoch md ctx"
  by (auto simp: preparation_def preparation_limits_def Let_def split: option.splits)

lemma runtime_lifecycle_id:
  "lifecycle (runtime ctx) = Idle \<Longrightarrow> ctx\<lparr>runtime := (runtime ctx)\<lparr>lifecycle := Idle\<rparr>\<rparr> = ctx"
  by (metis attention_state.surjective attention_state.update_convs(1) attention_context.surjective
      attention_context.update_convs(3))

lemma prepare_idle:
  assumes "is_idle ctx" "\<not> runtime_poisoned ctx"
  shows "prepare upload epoch md ctx =
    (case preparation upload epoch md ctx of Inl e \<Rightarrow> (Inl e, ctx) | Inr prepared \<Rightarrow> (Ok (), holding ctx prepared))"
proof -
  let ?busy = "ctx\<lparr>runtime := (runtime ctx)\<lparr>lifecycle := Preparing epoch\<rparr>\<rparr>"
  have idle: "lifecycle (runtime ctx) = Idle" "bound_consumer (runtime ctx) = None"
    using assms(1) by (simp_all add: is_idle_def)
  have "reserve epoch ctx = (Ok (), ?busy)"
    using idle assms(2) by (simp add: reserve_def locked_def reserve_section_def)
  then have "prepare upload epoch md ctx = complete_preparation upload epoch md ?busy"
    by (simp add: prepare_def)
  also have "\<dots> = (case preparation upload epoch md ctx of
      Inl e \<Rightarrow> (Inl e, ctx) | Inr prepared \<Rightarrow> (Ok (), holding ctx prepared))"
    using assms(2) idle preparation_frame [where ctx = ctx and upload = upload and epoch = epoch and md = md] runtime_lifecycle_id [OF idle(1)]
    by (auto simp: complete_preparation_def preparation_def [symmetric] cancel_preparation_def
        cancel_section_def locked_def publish_section_def holding_def split: sum.splits)
  finally show ?thesis .
qed

text \<open>The nested scopes of a step: prepare, bind, use, unbind, release.\<close>

definition bound_to :: "attention_epoch \<Rightarrow> 't attention_context \<Rightarrow> 't attention_context" where
  "bound_to epoch ctx = ctx\<lparr>runtime := (runtime ctx)\<lparr>bound_consumer := Some epoch\<rparr>\<rparr>"

lemma scope_idle:
  assumes "is_idle ctx" "\<not> runtime_poisoned ctx" "preparation upload epoch md ctx = Ok prepared"
  shows "bind_consumer epoch (holding ctx prepared) = (Ok (), bound_to epoch (holding ctx prepared))"
    and "prepared_for_bound_consumer (bound_to epoch (holding ctx prepared)) = Ok prepared"
    and "release_consumer epoch (bound_to epoch (holding ctx prepared)) = (Ok (), holding ctx prepared)"
    and "release epoch (holding ctx prepared) = (Ok (), completed ctx prepared)"
proof -
  have idle: "lifecycle (runtime ctx) = Idle" "bound_consumer (runtime ctx) = None"
    using assms(1) by (simp_all add: is_idle_def)
  note ep = preparation_epoch [OF assms(3)]
  note defs = bound_to_def holding_def completed_def locked_def
  show "bind_consumer epoch (holding ctx prepared) = (Ok (), (bound_to epoch (holding ctx prepared)))"
    using assms(2) idle ep by (simp add: defs bind_consumer_def bind_section_def)
  show "prepared_for_bound_consumer (bound_to epoch (holding ctx prepared)) = Ok prepared"
    using assms(2) ep by (simp add: defs prepared_for_bound_consumer_def borrow_section_def)
  have "(runtime (holding ctx prepared))\<lparr>bound_consumer := Some epoch\<rparr>\<lparr>bound_consumer := None\<rparr> = runtime (holding ctx prepared)"
    using idle by (cases "runtime ctx") (simp add: holding_def)
  then show "release_consumer epoch (bound_to epoch (holding ctx prepared)) = (Ok (), holding ctx prepared)"
    using assms(2) by (simp add: bound_to_def locked_def release_consumer_def release_consumer_section_def)
      (simp add: holding_def)
  have "(runtime ctx)\<lparr>lifecycle := Idle\<rparr> = runtime ctx" using idle by (cases "runtime ctx") simp
  then show "release epoch (holding ctx prepared) = (Ok (), completed ctx prepared)"
    using assms(2) idle ep by (cases "runtime ctx") (simp add: defs release_def release_section_def)
qed

lemma completed_idle: "is_idle ctx \<Longrightarrow> is_idle (completed ctx prepared)"
  by (simp add: is_idle_def completed_def)

lemma completed_frame [simp]:
  "runtime_poisoned (completed ctx prepared) = runtime_poisoned ctx"
  "kv_poisoned (completed ctx prepared) = kv_poisoned ctx"
  "paged_kv (completed ctx prepared) = paged_kv ctx"
  "ctx_query_heads (completed ctx prepared) = ctx_query_heads ctx"
  "compute_limits (runtime (completed ctx prepared)) = compute_limits (runtime ctx)"
  by (simp_all add: completed_def)

section \<open>Properties\<close>

text \<open>C14: no user of a shared context ever reads stale metadata. In every state reachable by
  interleaved preparations, bindings, releases and drops of guards, at most one preparation or
  published step is guarded and at most one consumer is bound; a successful borrow returns the
  published value, and its epoch is that of the consumer that is bound; and the holder of a
  reservation always succeeds in publishing, so the lost-reservation failure is unreachable.\<close>

theorem attention_never_stale:
  assumes "guard_step\<^sup>*\<^sup>* unguarded g"
  shows "size (reservations g) + size (step_guards g) \<le> 1 \<and> size (consumer_guards g) \<le> 1
    \<and> (\<forall>prepared. fst (borrow_section (shared g)) = Ok prepared \<longrightarrow>
        lifecycle (shared g) = Ready prepared \<and> consumer_guards g = {#pa_epoch prepared#})
    \<and> (\<forall>e \<in># consumer_guards g. \<exists>prepared. fst (borrow_section (shared g)) = Ok prepared \<and> pa_epoch prepared = e)
    \<and> (\<forall>e \<in># reservations g. \<forall>prepared. fst (publish_section e prepared (shared g)) = Ok ())"
  using guard_inv_reachable [OF assms]
  by (cases "lifecycle (shared g)"; cases "bound_consumer (shared g)")
    (auto simp: guard_inv_def borrow_section_def publish_section_def)

theorem attention_never_stale_witness:
  "\<exists>g prepared. guard_step\<^sup>*\<^sup>* unguarded g \<and> fst (borrow_section (shared g)) = Ok prepared
     \<and> consumer_guards g = {#pa_epoch prepared#}"
proof -
  let ?p = "\<lparr>pa_epoch = WarmupDecode, pa_logical = demo_metadata, pa_block_table = None, rectangular = False,
    real_rows = None, packed_work = [], cache_shape = None\<rparr>"
  let ?s0 = "default_attention_state"
  let ?s1 = "?s0\<lparr>lifecycle := Preparing WarmupDecode\<rparr>"
  let ?s2 = "?s1\<lparr>lifecycle := Ready ?p, prepare_calls := 1, total_uploads := 3\<rparr>"
  let ?s3 = "?s2\<lparr>bound_consumer := Some WarmupDecode\<rparr>"
  let ?g1 = "unguarded\<lparr>shared := ?s1, reservations := {#WarmupDecode#}\<rparr>"
  let ?g2 = "?g1\<lparr>shared := ?s2, reservations := {#}, step_guards := {#WarmupDecode#}\<rparr>"
  let ?g3 = "?g2\<lparr>shared := ?s3, consumer_guards := {#WarmupDecode#}\<rparr>"
  have "guard_step unguarded ?g1"
    using guard_step.begin_prepare [of WarmupDecode unguarded ?s1]
    by (simp add: unguarded_def reserve_section_def default_attention_state_def)
  moreover have "guard_step ?g1 ?g2"
    using guard_step.publish [of WarmupDecode ?g1 ?p ?s2]
    by (simp add: unguarded_def publish_section_def default_attention_state_def device_tensor_uploads_def)
  moreover have "guard_step ?g2 ?g3"
    using guard_step.bind [of WarmupDecode ?g2 ?s3]
    by (simp add: unguarded_def bind_section_def default_attention_state_def)
  ultimately have "guard_step\<^sup>*\<^sup>* unguarded ?g3"
    by (rule rtranclp.rtrancl_into_rtrancl [OF converse_rtranclp_into_rtranclp [OF _ r_into_rtranclp]])
  from attention_never_stale [OF this] this show ?thesis
    by (intro exI [of _ ?g3] exI [of _ ?p]) (simp add: borrow_section_def unguarded_def)
qed

text \<open>a step owns the idle context exactly for its own duration. From an idle context a failed
  preparation returns the context unchanged; a successful one can be bound, lends out exactly the
  metadata it was given under its own epoch, refuses any other epoch meanwhile without a change,
  and after unbinding and releasing the context is idle again with only its counters advanced.\<close>

theorem attention_step_scope:
  assumes "is_idle ctx" "\<not> runtime_poisoned ctx" "prepare upload epoch md ctx = (r, ctx1)"
  shows "(\<forall>e. r = Inl e \<longrightarrow> ctx1 = ctx)
    \<and> (r = Ok () \<longrightarrow> (\<exists>prepared ctx2. pa_epoch prepared = epoch \<and> pa_logical prepared = md
        \<and> bind_consumer epoch ctx1 = (Ok (), ctx2)
        \<and> prepared_for_bound_consumer ctx2 = Ok prepared
        \<and> (\<forall>other. \<exists>e. prepare upload other md ctx2 = (Error e, ctx2))
        \<and> (\<forall>other. other \<noteq> epoch \<longrightarrow> (\<exists>e. bind_consumer other ctx2 = (Error e, ctx2)))
        \<and> finish_consumer epoch ctx2 = (Ok (), ctx1)
        \<and> finish_step epoch ctx1 = (Ok (), completed ctx prepared)
        \<and> is_idle (completed ctx prepared)))"
proof (cases "preparation upload epoch md ctx")
  case (Inl e)
  then show ?thesis using prepare_idle [OF assms(1,2), of upload epoch md] assms(3) by auto
next
  case (Inr prepared)
  let ?c2 = "bound_to epoch (holding ctx prepared)"
  note scope = scope_idle [OF assms(1,2) Inr]
  have p: "r = Ok ()" "ctx1 = holding ctx prepared"
    using prepare_idle [OF assms(1,2), of upload epoch md] Inr assms(3) by auto
  have "\<exists>e. prepare upload other md ?c2 = (Error e, ?c2)" for other
    using assms(2) by (simp add: prepare_def reserve_def locked_def reserve_section_def bound_to_def holding_def)
  moreover have "\<exists>e. bind_consumer other ?c2 = (Error e, ?c2)" if "other \<noteq> epoch" for other
    using assms(2) that preparation_epoch [OF Inr] by (simp add: bind_consumer_def locked_def bind_section_def bound_to_def holding_def)
  moreover have "finish_consumer epoch ?c2 = (Ok (), holding ctx prepared)"
    by (simp add: finish_consumer_def scope(3))
  moreover have "finish_step epoch (holding ctx prepared) = (Ok (), completed ctx prepared)"
    by (simp add: finish_step_def scope(4))
  ultimately show ?thesis
    unfolding p using preparation_epoch [OF Inr] scope(1,2) completed_idle [OF assms(1)] by blast
qed

lemma demo_context_prepared:
  "fst (prepare (\<lambda>_. Ok ()) WarmupPrefill demo_metadata (context_new (deferred g))) = Ok ()"
proof -
  have "md_block_table demo_metadata = []" by code_simp
  then show ?thesis
    by (simp add: prepare_idle is_idle_def context_new_def default_attention_state_def preparation_def
        preparation_limits_def prepare_with_limits_def demo_valid prepare_block_table_def)
qed

theorem attention_step_scope_witness:
  "\<exists>ctx1 ctx2 prepared. prepare (\<lambda>_. Ok ()) WarmupPrefill demo_metadata
      (context_new (deferred \<lparr>geo_num_layers = 1, geo_block_size = 4, geo_num_kv_heads = 1, geo_head_dim = 8, geo_dtype = F32\<rparr> :: unit paged_kv_cache))
      = (Ok (), ctx1)
    \<and> bind_consumer WarmupPrefill ctx1 = (Ok (), ctx2) \<and> prepared_for_bound_consumer ctx2 = Ok prepared
    \<and> pa_logical prepared = demo_metadata"
proof -
  let ?ctx = "context_new (deferred \<lparr>geo_num_layers = 1, geo_block_size = 4, geo_num_kv_heads = 1, geo_head_dim = 8, geo_dtype = F32\<rparr> :: unit paged_kv_cache)"
  obtain ctx1 where p: "prepare (\<lambda>_. Ok ()) WarmupPrefill demo_metadata ?ctx = (Ok (), ctx1)"
    using demo_context_prepared by (metis prod.collapse)
  have "is_idle ?ctx" "\<not> runtime_poisoned ?ctx"
    by (simp_all add: is_idle_def context_new_def default_attention_state_def)
  from attention_step_scope [OF this p] p show ?thesis by blast
qed

end
