(* ===== verification/Loader.thy ===== *)
theory Loader
  imports Attention_Context "HOL-Library.Char_ord" "HOL-Library.List_Lexorder" "HOL-Library.Product_Lexorder"
begin

text \<open>
  \<^verbatim>\<open>config.rs\<close> and the path logic of \<^verbatim>\<open>loader.rs\<close>: the data type of a checkpoint, the offline switch,
  and the resolution of weight shards inside a local directory. The file system and the JSON parser
  are parameters; paths are Unix paths, and the components of a path are those of
  \<^verbatim>\<open>std::path::Path::components\<close>. Text is ASCII, so that trimming removes ASCII white space.
\<close>

datatype loader_error =
    NoTorchDtype
  | UnknownTorchDtype string
  | DtypeUnsupported string dtype
  | Io string
  | Json string
  | EmptyWeightMap string
  | ShardOutside string string
  | ShardMissing string string
  | NoShards string
  | HubFailed string
  | HubFileMissing string string
  | NoWeights string
  | NoTokenizer string
  | NoCachedConfig string string
  | NoEosToken
  | EmptyEosTokens
  | UnknownSpecialToken string token
  | InconsistentSpecialToken string token

section \<open>Configuration values\<close>

definition is_space :: "char \<Rightarrow> bool" where
  "is_space c = ((of_char c :: nat) \<in> {9, 10, 11, 12, 13, 32})"

definition trim :: "string \<Rightarrow> string" where
  "trim s = rev (dropWhile is_space (rev (dropWhile is_space s)))"

definition to_ascii_lowercase :: "string \<Rightarrow> string" where
  "to_ascii_lowercase = map (\<lambda>c. let n = of_char c :: nat in if 65 \<le> n \<and> n \<le> 90 then char_of (n + 32) else c)"

definition is_offline_value :: "string option \<Rightarrow> bool" where
  "is_offline_value raw =
     (case map_option (\<lambda>v. to_ascii_lowercase (trim v)) raw of
        Some v \<Rightarrow> v \<in> {''1'', ''true'', ''yes'', ''on''}
      | None \<Rightarrow> False)"

definition default_dtype :: "string option \<Rightarrow> (loader_error, dtype) outcome" where
  "default_dtype torch_dtype =
     (case torch_dtype of
        None \<Rightarrow> Error NoTorchDtype
      | Some raw \<Rightarrow>
          let v = to_ascii_lowercase (trim raw) in
          if v = ''bfloat16'' \<or> v = ''bf16'' then Ok BF16
          else if v = ''float16'' \<or> v = ''fp16'' \<or> v = ''half'' then Ok F16
          else if v = ''float32'' \<or> v = ''fp32'' \<or> v = ''float'' then Ok F32
          else if v = ''float64'' \<or> v = ''fp64'' \<or> v = ''double'' then Ok F64
          else Error (UnknownTorchDtype v))"

definition validate_model_dtype :: "dtype \<Rightarrow> string \<Rightarrow> (loader_error, dtype) outcome" where
  "validate_model_dtype dt origin = (if dt = BF16 \<or> dt = F16 then Ok dt else Error (DtypeUnsupported origin dt))"

section \<open>Paths\<close>

datatype component = RootDir | CurDir | ParentDir | Normal string

fun component_key :: "component \<Rightarrow> nat \<times> string" where
  "component_key RootDir = (0, [])"
| "component_key CurDir = (1, [])"
| "component_key ParentDir = (2, [])"
| "component_key (Normal s) = (3, s)"

lemma component_key_inj: "component_key a = component_key b \<longleftrightarrow> a = b"
  by (cases a; cases b) simp_all

instantiation component :: linorder
begin

definition less_eq_component :: "component \<Rightarrow> component \<Rightarrow> bool" where
  "less_eq_component a b = (component_key a \<le> component_key b)"

definition less_component :: "component \<Rightarrow> component \<Rightarrow> bool" where
  "less_component a b = (component_key a < component_key b)"

instance
  by standard (auto simp: less_eq_component_def less_component_def component_key_inj [symmetric])

end

fun split_on :: "char \<Rightarrow> string \<Rightarrow> string list" where
  "split_on c [] = [[]]"
| "split_on c (x # xs) =
     (if x = c then [] # split_on c xs
      else case split_on c xs of [] \<Rightarrow> [[x]] | p # ps \<Rightarrow> (x # p) # ps)"

definition is_absolute :: "string \<Rightarrow> bool" where
  "is_absolute p = (case p of [] \<Rightarrow> False | c # _ \<Rightarrow> c = CHR ''/'')"

definition part_components :: "bool \<Rightarrow> string \<Rightarrow> component list" where
  "part_components leading s =
     (if s = [] then [] else if s = ''.'' then (if leading then [CurDir] else [])
      else if s = ''..'' then [ParentDir] else [Normal s])"

definition path_components :: "string \<Rightarrow> component list" where
  "path_components p =
     (if is_absolute p then [RootDir] else [])
     @ (case split_on (CHR ''/'') p of [] \<Rightarrow> []
        | s # ss \<Rightarrow> part_components True s @ concat (map (part_components False) ss))"

definition path_join :: "string \<Rightarrow> string \<Rightarrow> string" where
  "path_join dir name =
     (if is_absolute name then name
      else if dir = [] \<or> last dir = CHR ''/'' then dir @ name
      else dir @ CHR ''/'' # name)"

fun is_normal :: "component \<Rightarrow> bool" where
  "is_normal (Normal _) = True"
| "is_normal _ = False"

definition file_name :: "string \<Rightarrow> string option" where
  "file_name p = (case rev (path_components p) of Normal s # _ \<Rightarrow> Some s | _ \<Rightarrow> None)"

text \<open>\<^verbatim>\<open>Path::parent\<close>, written in normal form: the same path as the prefix the standard library
  returns.\<close>

fun component_text :: "component \<Rightarrow> string" where
  "component_text RootDir = []"
| "component_text CurDir = ''.''"
| "component_text ParentDir = ''..''"
| "component_text (Normal s) = s"

fun path_text :: "component list \<Rightarrow> string" where
  "path_text [] = []"
| "path_text [RootDir] = ''/''"
| "path_text [c] = component_text c"
| "path_text (c # cs) = component_text c @ CHR ''/'' # path_text cs"

definition path_parent :: "string \<Rightarrow> string option" where
  "path_parent p = (case rev (path_components p) of [] \<Rightarrow> None | RootDir # _ \<Rightarrow> None
     | _ # cs \<Rightarrow> Some (path_text (rev cs)))"

text \<open>\<^verbatim>\<open>path.extension() == Some("safetensors")\<close>: a name that is more than the extension.\<close>

definition has_safetensors_extension :: "string \<Rightarrow> bool" where
  "has_safetensors_extension p =
     (case file_name p of None \<Rightarrow> False
      | Some name \<Rightarrow> 12 < length name \<and> drop (length name - 12) name = ''.safetensors'')"

section \<open>Shards of a local checkpoint\<close>

record 'b loader_io =
  is_file :: "string \<Rightarrow> bool"
  read_bytes :: "string \<Rightarrow> (string, 'b) outcome"
  read_dir :: "string \<Rightarrow> (string, (string, string) outcome list) outcome"
  canonicalize :: "string \<Rightarrow> (string, string) outcome"
  parse_weight_map :: "'b \<Rightarrow> (string, (string \<times> string) list) outcome"
  parse_torch_dtype :: "'b \<Rightarrow> (string, string option) outcome"

definition default_dtype_from_config_json :: "('b, 'z) loader_io_scheme \<Rightarrow> 'b \<Rightarrow> (loader_error, dtype) outcome" where
  "default_dtype_from_config_json io bytes = rbind (map_err Json (parse_torch_dtype io bytes)) default_dtype"

definition shard_name_ok :: "string \<Rightarrow> bool" where
  "shard_name_ok name = (\<not> (name = [] \<or> \<not> list_all is_normal (path_components name)))"

definition parse_index_shard_names :: "('b, 'z) loader_io_scheme \<Rightarrow> string \<Rightarrow> (loader_error, string list) outcome" where
  "parse_index_shard_names io idx =
     rbind (map_err Io (read_bytes io idx)) (\<lambda>bytes.
     rbind (map_err Json (parse_weight_map io bytes)) (\<lambda>weight_map.
     let unique = remdups_adj (sort (map snd weight_map)) in
     if unique = [] then Error (EmptyWeightMap idx)
     else case find (\<lambda>name. \<not> shard_name_ok name) unique of
        Some name \<Rightarrow> Error (ShardOutside name idx)
      | None \<Rightarrow> Ok unique))"

definition parse_index_shards :: "('b, 'z) loader_io_scheme \<Rightarrow> string \<Rightarrow> string \<Rightarrow> (loader_error, string list) outcome" where
  "parse_index_shards io idx dir =
     rbind (parse_index_shard_names io idx) (\<lambda>unique.
     let paths = map (path_join dir) unique in
     case find (\<lambda>p. \<not> is_file io p) paths of
       Some p \<Rightarrow> Error (ShardMissing p idx)
     | None \<Rightarrow> Ok paths)"

definition resolve_local_shards :: "('b, 'z) loader_io_scheme \<Rightarrow> string \<Rightarrow> (loader_error, string list) outcome" where
  "resolve_local_shards io dir =
     (let idx = path_join dir ''model.safetensors.index.json'' in
      if is_file io idx then parse_index_shards io idx dir
      else let single = path_join dir ''model.safetensors'' in
        if is_file io single then Ok [single]
        else rbind (map_err Io (read_dir io dir)) (\<lambda>entries.
          rbind (rcollect (map_err Io) entries) (\<lambda>paths.
          let shards = sort_key path_components (filter (\<lambda>p. is_file io p \<and> has_safetensors_extension p) paths) in
          if shards = [] then Error (NoShards dir) else Ok shards)))"

section \<open>Joined paths stay inside\<close>

lemma split_on_not_Nil [simp]: "split_on c s \<noteq> []"
  by (induction s) (auto split: list.splits)

lemma split_on_append: "split_on c (xs @ c # ys) = split_on c xs @ split_on c ys"
  by (induction xs) (auto split: list.splits)

lemma split_on_absent: "c \<notin> set xs \<Longrightarrow> split_on c xs = [xs]"
  by (induction xs) auto

lemma path_components_relative:
  assumes "\<not> is_absolute name" "list_all is_normal (path_components name)"
  shows "path_components name = concat (map (part_components False) (split_on (CHR ''/'') name))"
  using assms
  by (cases "split_on (CHR ''/'') name") (auto simp: path_components_def part_components_def split: if_splits)

lemma normal_not_absolute: "list_all is_normal (path_components name) \<Longrightarrow> \<not> is_absolute name"
  by (auto simp: path_components_def)

lemma is_absolute_append: "dir \<noteq> [] \<Longrightarrow> is_absolute (dir @ s) = is_absolute dir"
  by (cases dir) (simp_all add: is_absolute_def)

text \<open>Below a directory, a relative path of normal components adds exactly its own components.\<close>

lemma path_components_join:
  assumes "list_all is_normal (path_components name)"
  shows "path_components (path_join dir name) = path_components dir @ path_components name"
proof -
  note rel = normal_not_absolute [OF assms]
  note name = path_components_relative [OF rel assms]
  let ?sp = "split_on (CHR ''/'')" and ?cs = "\<lambda>ss. concat (map (part_components False) ss)"
  have split: "path_components (d @ CHR ''/'' # name) = path_components d @ ?cs (?sp name)" if "d \<noteq> []" for d
    by (cases "?sp d") (simp_all add: path_components_def split_on_append is_absolute_append [OF that])
  consider (empty) "dir = []" | (slash) d where "dir = d @ [CHR ''/'']" | (plain) "dir \<noteq> []" "last dir \<noteq> CHR ''/''"
    by (metis append_butlast_last_id)
  then show ?thesis
  proof cases
    case empty
    then show ?thesis using rel by (simp add: path_join_def path_components_def is_absolute_def part_components_def)
  next
    case slash
    show ?thesis
    proof (cases "d = []")
      case True
      then show ?thesis using rel name slash
        by (simp add: path_join_def) (simp add: path_components_def is_absolute_def part_components_def)
    next
      case False
      have "path_components dir = path_components d"
        using False by (cases "?sp d")
          (simp_all add: slash path_components_def split_on_append is_absolute_append part_components_def)
      then show ?thesis using rel slash split [OF False] name by (simp add: path_join_def)
    qed
  next
    case plain
    then show ?thesis using rel split name by (simp add: path_join_def)
  qed
qed

lemma distinct_remdups_adj_sorted: "sorted xs \<Longrightarrow> distinct (remdups_adj xs)"
  by (induction xs rule: remdups_adj.induct) auto

lemma parse_index_shard_names_Ok:
  assumes "parse_index_shard_names io idx = Ok names"
  shows "\<exists>bytes weight_map. read_bytes io idx = Ok bytes \<and> parse_weight_map io bytes = Ok weight_map
    \<and> set names = snd ` set weight_map" "sorted names" "distinct names" "names \<noteq> []"
    "\<forall>name \<in> set names. name \<noteq> [] \<and> list_all is_normal (path_components name)"
proof -
  obtain bytes weight_map where r: "read_bytes io idx = Ok bytes" "parse_weight_map io bytes = Ok weight_map"
    and n: "names = remdups_adj (sort (map snd weight_map))" "names \<noteq> []" "find (\<lambda>name. \<not> shard_name_ok name) names = None"
    using assms by (auto simp: parse_index_shard_names_def rbind_Ok_iff Let_def split: if_splits option.splits)
  show "\<exists>bytes weight_map. read_bytes io idx = Ok bytes \<and> parse_weight_map io bytes = Ok weight_map
    \<and> set names = snd ` set weight_map" using r n(1) by auto
  show "sorted names" by (simp add: n(1))
  show "distinct names" by (simp add: n(1) distinct_remdups_adj_sorted)
  show "names \<noteq> []" by (rule n(2))
  show "\<forall>name \<in> set names. name \<noteq> [] \<and> list_all is_normal (path_components name)"
    using n(3) by (auto simp: find_None_iff shard_name_ok_def)
qed

section \<open>Properties\<close>

text \<open>an index cannot make the loader leave its directory. When the shards of an index are
  resolved, they are the distinct file names of its weight map in order, each present, and every path is the
  model directory followed only by ordinary names: no parent, root or current-directory component of
  an index entry survives.\<close>

theorem index_shards_inside:
  assumes "parse_index_shards io idx dir = Ok paths"
  shows "\<exists>names bytes weight_map. paths = map (path_join dir) names \<and> sorted names \<and> distinct names \<and> names \<noteq> []
    \<and> read_bytes io idx = Ok bytes \<and> parse_weight_map io bytes = Ok weight_map \<and> set names = snd ` set weight_map
    \<and> (\<forall>name \<in> set names. is_file io (path_join dir name) \<and> list_all is_normal (path_components name)
         \<and> path_components (path_join dir name) = path_components dir @ path_components name)"
proof -
  obtain names where n: "parse_index_shard_names io idx = Ok names" "paths = map (path_join dir) names"
    "find (\<lambda>p. \<not> is_file io p) paths = None"
    using assms by (auto simp: parse_index_shards_def rbind_Ok_iff Let_def split: option.splits)
  note k = parse_index_shard_names_Ok [OF n(1)]
  have "\<forall>name \<in> set names. is_file io (path_join dir name)" using n(2,3) by (auto simp: find_None_iff)
  then show ?thesis using k n(2) path_components_join by blast
qed

definition demo_io :: "string loader_io" where
  "demo_io = \<lparr>is_file = (\<lambda>_. True), read_bytes = Ok, read_dir = (\<lambda>_. Ok []), canonicalize = Ok,
     parse_weight_map = (\<lambda>_. Ok [(''w1'', ''b.safetensors''), (''w2'', ''sub/a.safetensors''), (''w3'', ''b.safetensors'')]),
     parse_torch_dtype = (\<lambda>_. Ok (Some '' BFloat16''))\<rparr>"

theorem index_shards_inside_witness:
  "\<exists>names. parse_index_shards demo_io ''i'' ''/m'' = Ok (map (path_join ''/m'') names) \<and> distinct names"
proof -
  have p: "parse_index_shards demo_io ''i'' ''/m'' = Ok [''/m/b.safetensors'', ''/m/sub/a.safetensors'']"
    by code_simp
  then obtain paths where q: "parse_index_shards demo_io ''i'' ''/m'' = Ok paths" by blast
  from index_shards_inside [OF q] q show ?thesis by blast
qed

text \<open>a checkpoint's data type is decided by its documented spellings. Among the four supported
  families every spelling is recognised whatever its case and surrounding space; anything else is an
  error, and only the two half-precision types pass as a model's data type.\<close>

theorem default_dtype_spellings:
  "default_dtype raw = Ok dt \<longleftrightarrow>
     (\<exists>s. raw = Some s \<and> (dt, to_ascii_lowercase (trim s)) \<in> {BF16} \<times> {''bfloat16'', ''bf16''}
        \<union> {F16} \<times> {''float16'', ''fp16'', ''half''} \<union> {F32} \<times> {''float32'', ''fp32'', ''float''}
        \<union> {F64} \<times> {''float64'', ''fp64'', ''double''})"
  unfolding default_dtype_def
  by (cases raw) (auto simp: Let_def)

end
