(* ===== verification/Snapshot.thy ===== *)
theory Snapshot
  imports Loader
begin

text \<open>
  The walk \<^verbatim>\<open>collect_snapshot_files\<close> of \<^verbatim>\<open>loader/model_identity.rs\<close> over a cached snapshot, and its
  agreement with the recursive reading of the directory.
\<close>

text \<open>What the file system shows of a directory: an entry that cannot be read, one whose type cannot
  be read, a file or a link to one, any other entry (a broken link, a link to a directory), a
  directory. A directory may itself be unreadable.\<close>

datatype snapshot_entry =
    EntryUnreadable
  | TypeUnreadable string
  | FileEntry string
  | OtherEntry string
  | DirEntry string snapshot_dir
and snapshot_dir = DirUnreadable | Directory "snapshot_entry list"

text \<open>A path below the root as the names on the way, and its text with forward slashes.\<close>

fun join_names :: "string list \<Rightarrow> string" where
  "join_names [] = []"
| "join_names [s] = s"
| "join_names (s # t # ss) = s @ CHR ''/'' # join_names (t # ss)"

definition forward_slashes :: "string \<Rightarrow> string" where
  "forward_slashes = map (\<lambda>c. if c = CHR 0x5C then CHR ''/'' else c)"

definition relative_name :: "string list \<Rightarrow> string" where
  "relative_name names = forward_slashes (join_names names)"

type_synonym pending_dirs = "(string list \<times> snapshot_dir) list"

text \<open>The entries of one directory: directories are pushed, files are collected.\<close>

fun collect_entries ::
    "string list \<Rightarrow> snapshot_entry list \<Rightarrow> pending_dirs \<Rightarrow> string set \<Rightarrow> (loader_error, pending_dirs \<times> string set) outcome" where
  "collect_entries at [] dirs files = Ok (dirs, files)"
| "collect_entries at (EntryUnreadable # es) dirs files = Error (Io (relative_name at))"
| "collect_entries at (TypeUnreadable n # es) dirs files = Error (Io (relative_name (at @ [n])))"
| "collect_entries at (FileEntry n # es) dirs files = collect_entries at es dirs (insert (relative_name (at @ [n])) files)"
| "collect_entries at (OtherEntry n # es) dirs files = collect_entries at es dirs files"
| "collect_entries at (DirEntry n d # es) dirs files = collect_entries at es ((at @ [n], d) # dirs) files"

text \<open>Every directory visited leaves the total size of the pending ones smaller.\<close>

definition pending_size :: "pending_dirs \<Rightarrow> nat" where
  "pending_size dirs = (\<Sum>(_, d) \<leftarrow> dirs. size d)"

lemma pending_size_simps [simp]: "pending_size [] = 0" "pending_size ((at, d) # dirs) = size d + pending_size dirs"
  by (simp_all add: pending_size_def)

lemma collect_entries_size:
  "collect_entries at es dirs files = Ok (dirs', files') \<Longrightarrow> pending_size dirs' \<le> pending_size dirs + size_list size es"
  by (induction at es dirs files rule: collect_entries.induct) fastforce+

function collect_loop :: "pending_dirs \<Rightarrow> string set \<Rightarrow> (loader_error, string set) outcome" where
  "collect_loop [] files = Ok files"
| "collect_loop ((at, DirUnreadable) # dirs) files = Error (Io (relative_name at))"
| "collect_loop ((at, Directory es) # dirs) files =
     (case collect_entries at es dirs files of
        Inl e \<Rightarrow> Inl e
      | Inr (dirs', files') \<Rightarrow> collect_loop dirs' files')"
  by pat_completeness auto
termination
proof (relation "measure (\<lambda>(dirs, files). pending_size dirs)", goal_cases)
  case (2 at es dirs files out dirs' files')
  then show ?case using collect_entries_size [of at es dirs files dirs' files'] by (cases out) simp
qed simp

definition collect_snapshot_files :: "snapshot_dir \<Rightarrow> (loader_error, string set) outcome" where
  "collect_snapshot_files root = collect_loop [([], root)] {}"

section \<open>The recursive reading of a directory\<close>

fun entry_readable :: "snapshot_entry \<Rightarrow> bool" and dir_readable :: "snapshot_dir \<Rightarrow> bool" where
  "entry_readable EntryUnreadable = False"
| "entry_readable (TypeUnreadable _) = False"
| "entry_readable (FileEntry _) = True"
| "entry_readable (OtherEntry _) = True"
| "entry_readable (DirEntry _ d) = dir_readable d"
| "dir_readable DirUnreadable = False"
| "dir_readable (Directory es) = list_all entry_readable es"

fun entry_files :: "string list \<Rightarrow> snapshot_entry \<Rightarrow> string set" and dir_files :: "string list \<Rightarrow> snapshot_dir \<Rightarrow> string set" where
  "entry_files at (FileEntry n) = {relative_name (at @ [n])}"
| "entry_files at (DirEntry n d) = dir_files (at @ [n]) d"
| "entry_files at _ = {}"
| "dir_files at DirUnreadable = {}"
| "dir_files at (Directory es) = (\<Union>e \<in> set es. entry_files at e)"

definition pending_readable :: "pending_dirs \<Rightarrow> bool" where
  "pending_readable dirs \<longleftrightarrow> list_all (\<lambda>(_, d). dir_readable d) dirs"

definition pending_files :: "pending_dirs \<Rightarrow> string set" where
  "pending_files dirs = (\<Union>(at, d) \<in> set dirs. dir_files at d)"

lemma pending_simps [simp]:
  "pending_readable []" "pending_readable ((at, d) # dirs) \<longleftrightarrow> dir_readable d \<and> pending_readable dirs"
  "pending_files [] = {}" "pending_files ((at, d) # dirs) = dir_files at d \<union> pending_files dirs"
  by (simp_all add: pending_readable_def pending_files_def)

lemma collect_entries_spec:
  "(case collect_entries at es dirs files of
      Inl e \<Rightarrow> \<not> list_all entry_readable es \<and> e \<noteq> Panic
    | Inr (dirs', files') \<Rightarrow> files' \<union> pending_files dirs' = files \<union> pending_files dirs \<union> (\<Union>e \<in> set es. entry_files at e)
        \<and> (pending_readable dirs' \<longleftrightarrow> pending_readable dirs \<and> list_all entry_readable es))"
  by (induction at es dirs files rule: collect_entries.induct) (auto split: sum.splits)

lemma collect_loop_spec:
  "(case collect_loop dirs files of
      Inl e \<Rightarrow> \<not> pending_readable dirs \<and> e \<noteq> Panic
    | Inr files' \<Rightarrow> pending_readable dirs \<and> files' = files \<union> pending_files dirs)"
proof (induction dirs files rule: collect_loop.induct)
  case (3 at' es dirs files)
  note spec = collect_entries_spec [where at = at' and es = es and dirs = dirs and files = files]
  show ?case
  proof (cases "collect_entries at' es dirs files")
    case (Inl e)
    then show ?thesis using spec by simp
  next
    case (Inr q)
    obtain dirs' files' where q: "q = (dirs', files')" by force
    show ?thesis using 3 [OF Inr q [symmetric]] spec Inr q by (auto split: sum.splits)
  qed
qed auto

section \<open>Properties\<close>

text \<open>C36: the offline walk sees a snapshot exactly. The iterative walk over the pending directories ends
  on every directory tree; it succeeds exactly when everything on its way is readable (otherwise it is an
  error, not a panic), and then its result is the set of relative paths of all files of the tree, those behind a link to a file included
  and those behind a link to a directory left out.\<close>

theorem snapshot_walk_exact:
  "case collect_snapshot_files root of
      Inl e \<Rightarrow> \<not> dir_readable root \<and> e \<noteq> Panic
    | Inr files \<Rightarrow> dir_readable root \<and> files = dir_files [] root"
  using collect_loop_spec [of "[([], root)]" "{}"]
  by (auto simp: collect_snapshot_files_def split: sum.splits)

end
