(* ===== verification/Model_Identity.thy ===== *)
theory Model_Identity
  imports Snapshot
begin

text \<open>
  \<^verbatim>\<open>loader/model_identity.rs\<close>: one model source becomes one immutable identity with its artifacts. A
  Hub source is resolved to a commit once, and every artifact is then fetched by that commit.

  The trait \<^verbatim>\<open>HubAccess\<close> is a record of two operations on a client state. The online client calls
  the Hub's API and the offline client the local cache, both parameters of the model.
\<close>

section \<open>Sources and identities\<close>

datatype model_source = LocalSource string | HubSource string "string option"

datatype model_identity = LocalIdentity string | HubIdentity string string

record special_token_ids =
  eos_ids :: "token list"
  bos_id :: "token option"
  pad_id :: "token option"

record pinned_hub =
  pinned_repo :: string
  pinned_commit :: string

record hub_revision =
  rev_pinned :: pinned_hub
  rev_files :: "string set"

record 'h hub_access =
  hub_resolve_revision :: "string \<Rightarrow> string \<Rightarrow> 'h \<Rightarrow> (loader_error, hub_revision) outcome \<times> 'h"
  hub_get :: "pinned_hub \<Rightarrow> string \<Rightarrow> 'h \<Rightarrow> (loader_error, string) outcome \<times> 'h"

record 'b resolved_model =
  identity :: model_identity
  config_path :: string
  config_json :: 'b
  generation_config_json :: "'b option"
  tokenizer_path :: string
  weight_paths :: "string list"
  model_dtype :: dtype

section \<open>The two clients\<close>

record 'h hub_api =
  api_info :: "string \<Rightarrow> string \<Rightarrow> 'h \<Rightarrow> (string, string \<times> string list) outcome \<times> 'h"
  api_get :: "string \<Rightarrow> string \<Rightarrow> string \<Rightarrow> 'h \<Rightarrow> (string, string) outcome \<times> 'h"

definition online_resolve_revision ::
    "'h hub_api \<Rightarrow> string \<Rightarrow> string \<Rightarrow> 'h \<Rightarrow> (loader_error, hub_revision) outcome \<times> 'h" where
  "online_resolve_revision api repo revision h =
     (case api_info api repo revision h of (r, h') \<Rightarrow>
        (rbind (map_err HubFailed r) (\<lambda>(sha, siblings).
           if trim sha = [] then Error (HubFailed repo)
           else Ok \<lparr>rev_pinned = \<lparr>pinned_repo = repo, pinned_commit = sha\<rparr>, rev_files = set siblings\<rparr>), h'))"

definition online_get :: "'h hub_api \<Rightarrow> pinned_hub \<Rightarrow> string \<Rightarrow> 'h \<Rightarrow> (loader_error, string) outcome \<times> 'h" where
  "online_get api p name h =
     (case api_get api (pinned_repo p) (pinned_commit p) name h of (r, h') \<Rightarrow> (map_err HubFailed r, h'))"

definition online_hub :: "'h hub_api \<Rightarrow> 'h hub_access" where
  "online_hub api = \<lparr>hub_resolve_revision = online_resolve_revision api, hub_get = online_get api\<rparr>"

record hub_cache =
  cache_get :: "string \<Rightarrow> string \<Rightarrow> string \<Rightarrow> string option"
  pointer_path :: "string \<Rightarrow> string \<Rightarrow> string"
  snapshot :: "string \<Rightarrow> snapshot_dir"

definition offline_resolve_revision ::
    "('b, 'z) loader_io_scheme \<Rightarrow> hub_cache \<Rightarrow> string \<Rightarrow> string \<Rightarrow> (loader_error, hub_revision) outcome" where
  "offline_resolve_revision io c repo revision =
     (let direct = path_join (pointer_path c repo revision) ''config.json'';
          config = (case cache_get c repo revision ''config.json'' of
              Some p \<Rightarrow> Some p
            | None \<Rightarrow> if is_file io direct then Some direct else None) in
      case config of
        None \<Rightarrow> Error (NoCachedConfig repo revision)
      | Some p \<Rightarrow>
          (case path_parent p of
             None \<Rightarrow> Error (Io p)
           | Some root \<Rightarrow>
               (case file_name root of
                  None \<Rightarrow> Error (Io root)
                | Some commit \<Rightarrow>
                    if commit = [] then Error (Io root)
                    else rbind (collect_snapshot_files (snapshot c root)) (\<lambda>files.
                      Ok \<lparr>rev_pinned = \<lparr>pinned_repo = repo, pinned_commit = commit\<rparr>, rev_files = files\<rparr>))))"

definition offline_get :: "('b, 'z) loader_io_scheme \<Rightarrow> hub_cache \<Rightarrow> pinned_hub \<Rightarrow> string \<Rightarrow> (loader_error, string) outcome" where
  "offline_get io c p name =
     (let path = path_join (pointer_path c (pinned_repo p) (pinned_commit p)) name in
      if \<not> is_file io path then Error (HubFileMissing (pinned_commit p) name) else Ok path)"

definition offline_hub :: "('b, 'z) loader_io_scheme \<Rightarrow> hub_cache \<Rightarrow> unit hub_access" where
  "offline_hub io c = \<lparr>hub_resolve_revision = (\<lambda>repo revision h. (offline_resolve_revision io c repo revision, h)),
     hub_get = (\<lambda>p name h. (offline_get io c p name, h))\<rparr>"

section \<open>Resolution\<close>

definition read_optional_file :: "('b, 'z) loader_io_scheme \<Rightarrow> string \<Rightarrow> (loader_error, 'b option) outcome" where
  "read_optional_file io p =
     (if is_file io p then rbind (map_err Io (read_bytes io p)) (\<lambda>b. Ok (Some b)) else Ok None)"

definition select_dtype :: "('b, 'z) loader_io_scheme \<Rightarrow> 'b \<Rightarrow> dtype option \<Rightarrow> (loader_error, dtype) outcome" where
  "select_dtype io config requested =
     (case requested of Some dt \<Rightarrow> Ok dt
      | None \<Rightarrow> rbind (default_dtype_from_config_json io config) (\<lambda>dt. validate_model_dtype dt ''model config dtype''))"

definition validate_requested_dtype :: "dtype option \<Rightarrow> (loader_error, unit) outcome" where
  "validate_requested_dtype requested =
     (case requested of None \<Rightarrow> Ok () | Some dt \<Rightarrow> rbind (validate_model_dtype dt ''requested dtype'') (\<lambda>_. Ok ()))"

text \<open>Continue a computation on the client state, or stop with its failure.\<close>

definition hub_bind ::
    "(loader_error, 'a) outcome \<times> 'h \<Rightarrow> ('a \<Rightarrow> 'h \<Rightarrow> (loader_error, 'c) outcome \<times> 'h) \<Rightarrow> (loader_error, 'c) outcome \<times> 'h" where
  "hub_bind m f = (case m of (Inl e, h) \<Rightarrow> (Inl e, h) | (Inr x, h) \<Rightarrow> f x h)"

fun get_shards ::
    "'h hub_access \<Rightarrow> hub_revision \<Rightarrow> string list \<Rightarrow> 'h \<Rightarrow> (loader_error, string list) outcome \<times> 'h" where
  "get_shards hub rv [] h = (Ok [], h)"
| "get_shards hub rv (shard # shards) h =
     (if shard \<notin> rev_files rv then (Error (HubFileMissing (pinned_commit (rev_pinned rv)) shard), h)
      else hub_bind (hub_get hub (rev_pinned rv) shard h) (\<lambda>p h1.
           hub_bind (get_shards hub rv shards h1) (\<lambda>ps h2. (Ok (p # ps), h2))))"

definition hub_generation_config ::
    "('b, 'z) loader_io_scheme \<Rightarrow> 'h hub_access \<Rightarrow> hub_revision \<Rightarrow> 'h \<Rightarrow> (loader_error, 'b option) outcome \<times> 'h" where
  "hub_generation_config io hub rv h =
     (if ''generation_config.json'' \<in> rev_files rv
      then hub_bind (hub_get hub (rev_pinned rv) ''generation_config.json'' h) (\<lambda>p h1.
        (rbind (map_err Io (read_bytes io p)) (\<lambda>b. Ok (Some b)), h1))
      else (Ok None, h))"

definition hub_weights ::
    "('b, 'z) loader_io_scheme \<Rightarrow> 'h hub_access \<Rightarrow> hub_revision \<Rightarrow> 'h \<Rightarrow> (loader_error, string list) outcome \<times> 'h" where
  "hub_weights io hub rv h =
     (if ''model.safetensors.index.json'' \<in> rev_files rv
      then hub_bind (hub_get hub (rev_pinned rv) ''model.safetensors.index.json'' h) (\<lambda>idx h1.
           hub_bind (parse_index_shard_names io idx, h1) (\<lambda>names h2. get_shards hub rv names h2))
      else if ''model.safetensors'' \<in> rev_files rv
      then hub_bind (hub_get hub (rev_pinned rv) ''model.safetensors'' h) (\<lambda>p h1. (Ok [p], h1))
      else (Error (NoWeights (pinned_commit (rev_pinned rv))), h))"

definition resolve_with_hub ::
    "('b, 'z) loader_io_scheme \<Rightarrow> 'h hub_access \<Rightarrow> string \<Rightarrow> string option \<Rightarrow> dtype option \<Rightarrow> 'h \<Rightarrow>
      (loader_error, 'b resolved_model) outcome \<times> 'h" where
  "resolve_with_hub io hub repo revision requested h =
     hub_bind (validate_requested_dtype requested, h) (\<lambda>_ h0.
     hub_bind (hub_resolve_revision hub repo (case revision of Some r \<Rightarrow> r | None \<Rightarrow> ''main'') h0) (\<lambda>rv h1.
     case find (\<lambda>name. name \<notin> rev_files rv) [''config.json'', ''tokenizer.json''] of
       Some name \<Rightarrow> (Error (HubFileMissing (pinned_commit (rev_pinned rv)) name), h1)
     | None \<Rightarrow>
         hub_bind (hub_get hub (rev_pinned rv) ''config.json'' h1) (\<lambda>config h2.
         hub_bind (hub_get hub (rev_pinned rv) ''tokenizer.json'' h2) (\<lambda>tok h3.
         hub_bind (hub_generation_config io hub rv h3) (\<lambda>gen h4.
         hub_bind (hub_weights io hub rv h4) (\<lambda>weights h5.
           (rbind (map_err Io (read_bytes io config)) (\<lambda>bytes.
            rbind (select_dtype io bytes requested) (\<lambda>dt.
            Ok \<lparr>identity = HubIdentity (pinned_repo (rev_pinned rv)) (pinned_commit (rev_pinned rv)),
               config_path = config, config_json = bytes, generation_config_json = gen,
               tokenizer_path = tok, weight_paths = weights, model_dtype = dt\<rparr>)), h5)))))))"

definition resolve_local ::
    "('b, 'z) loader_io_scheme \<Rightarrow> string \<Rightarrow> dtype option \<Rightarrow> (loader_error, 'b resolved_model) outcome" where
  "resolve_local io given requested =
     rbind (validate_requested_dtype requested) (\<lambda>_.
     rbind (map_err Io (canonicalize io given)) (\<lambda>root.
     let config = path_join root ''config.json''; tok = path_join root ''tokenizer.json'' in
     rbind (map_err Io (read_bytes io config)) (\<lambda>bytes.
     if \<not> is_file io tok then Error (NoTokenizer tok)
     else rbind (read_optional_file io (path_join root ''generation_config.json'')) (\<lambda>gen.
          rbind (resolve_local_shards io root) (\<lambda>weights.
          rbind (select_dtype io bytes requested) (\<lambda>dt.
          Ok \<lparr>identity = LocalIdentity root, config_path = config, config_json = bytes,
             generation_config_json = gen, tokenizer_path = tok, weight_paths = weights, model_dtype = dt\<rparr>))))))"

text \<open>\<^verbatim>\<open>ResolvedModel::resolve\<close>, with the value of \<^verbatim>\<open>HF_HUB_OFFLINE\<close> and both clients given.\<close>

definition resolve ::
    "('b, 'z) loader_io_scheme \<Rightarrow> string option \<Rightarrow> hub_cache \<Rightarrow> 'h hub_api \<Rightarrow> model_source \<Rightarrow> dtype option \<Rightarrow> 'h \<Rightarrow>
      (loader_error, 'b resolved_model) outcome \<times> 'h" where
  "resolve io offline c api source requested h =
     (case source of
        LocalSource root \<Rightarrow> (resolve_local io root requested, h)
      | HubSource repo revision \<Rightarrow>
          if is_offline_value offline
          then (fst (resolve_with_hub io (offline_hub io c) repo
                  (Some (case revision of Some r \<Rightarrow> r | None \<Rightarrow> ''main'')) requested ()), h)
          else resolve_with_hub io (online_hub api) repo revision requested h)"

section \<open>Special tokens\<close>

datatype one_or_many = One token | Many "token list"

fun into_vec :: "one_or_many \<Rightarrow> token list" where
  "into_vec (One t) = [t]"
| "into_vec (Many ts) = ts"

record special_token_config =
  cfg_eos :: "one_or_many option"
  cfg_bos :: "token option"
  cfg_pad :: "token option"

definition default_special_token_config :: special_token_config where
  "default_special_token_config = \<lparr>cfg_eos = None, cfg_bos = None, cfg_pad = None\<rparr>"

record vocabulary =
  id_to_token :: "token \<Rightarrow> string option"
  token_to_id :: "string \<Rightarrow> token option"

definition or_else :: "'a option \<Rightarrow> 'a option \<Rightarrow> 'a option" where
  "or_else a b = (case a of Some x \<Rightarrow> Some x | None \<Rightarrow> b)"

fun unique_ids :: "token list \<Rightarrow> token list \<Rightarrow> token list" where
  "unique_ids seen [] = seen"
| "unique_ids seen (t # ts) = (if t \<in> set seen then unique_ids seen ts else unique_ids (seen @ [t]) ts)"

definition check_special :: "vocabulary \<Rightarrow> string \<times> token \<Rightarrow> (loader_error, unit) outcome" where
  "check_special voc = (\<lambda>(kind, i).
     case id_to_token voc i of
       None \<Rightarrow> Error (UnknownSpecialToken kind i)
     | Some t \<Rightarrow> if token_to_id voc t \<noteq> Some i then Error (InconsistentSpecialToken kind i) else Ok ())"

definition special_claims :: "special_token_ids \<Rightarrow> (string \<times> token) list" where
  "special_claims special =
     map (Pair ''eos_token_id'') (eos_ids special)
     @ (case bos_id special of None \<Rightarrow> [] | Some i \<Rightarrow> [(''bos_token_id'', i)])
     @ (case pad_id special of None \<Rightarrow> [] | Some i \<Rightarrow> [(''pad_token_id'', i)])"

definition resolve_special_tokens ::
    "('b \<Rightarrow> (string, special_token_config) outcome) \<Rightarrow> vocabulary \<Rightarrow> 'b resolved_model \<Rightarrow>
      (loader_error, special_token_ids) outcome" where
  "resolve_special_tokens parse voc model =
     rbind (map_err Json (parse (config_json model))) (\<lambda>own.
     rbind (case generation_config_json model of None \<Rightarrow> Ok default_special_token_config
            | Some b \<Rightarrow> map_err Json (parse b)) (\<lambda>gen.
     case or_else (cfg_eos gen) (cfg_eos own) of
       None \<Rightarrow> Error NoEosToken
     | Some eos \<Rightarrow>
         let unique = unique_ids [] (into_vec eos) in
         if unique = [] then Error EmptyEosTokens
         else let special = \<lparr>eos_ids = unique, bos_id = or_else (cfg_bos gen) (cfg_bos own),
                             pad_id = or_else (cfg_pad gen) (cfg_pad own)\<rparr> in
           rbind (rcollect (check_special voc) (special_claims special)) (\<lambda>_. Ok special)))"

section \<open>What is fetched\<close>

text \<open>A client with a record of its calls.\<close>

datatype hub_event = Resolved string string | Fetched pinned_hub string

definition recording :: "'h hub_access \<Rightarrow> ('h \<times> hub_event list) hub_access" where
  "recording hub = \<lparr>
     hub_resolve_revision = (\<lambda>repo revision (h, log).
       case hub_resolve_revision hub repo revision h of (r, h') \<Rightarrow> (r, (h', log @ [Resolved repo revision]))),
     hub_get = (\<lambda>p name (h, log). case hub_get hub p name h of (r, h') \<Rightarrow> (r, (h', log @ [Fetched p name])))\<rparr>"

text \<open>A computation that only fetches listed files of one revision.\<close>

definition fetches :: "hub_revision \<Rightarrow> 'a \<times> ('h \<times> hub_event list) \<Rightarrow> hub_event list \<Rightarrow> bool" where
  "fetches rv m log \<longleftrightarrow> (\<exists>names. snd (snd m) = log @ map (Fetched (rev_pinned rv)) names \<and> set names \<subseteq> rev_files rv)"

lemma fetches_nothing [intro]: "fetches rv (r, (h, log)) log"
  by (auto simp: fetches_def)

lemma fetches_get [intro]:
  "name \<in> rev_files rv \<Longrightarrow> fetches rv (hub_get (recording hub) (rev_pinned rv) name (h, log)) log"
  by (auto simp: fetches_def recording_def split: prod.splits intro: exI [of _ "[name]"])

lemma fetches_bind:
  assumes "fetches rv m log" "\<And>x h log'. fetches rv (f x (h, log')) log'"
  shows "fetches rv (hub_bind m f) log"
proof -
  obtain r h log' where m: "m = (r, (h, log'))" by (metis prod.exhaust)
  show ?thesis
  proof (cases r)
    case (Inl e)
    then show ?thesis using assms(1) m by (simp add: hub_bind_def fetches_def)
  next
    case (Inr x)
    obtain ns where ns: "log' = log @ map (Fetched (rev_pinned rv)) ns" "set ns \<subseteq> rev_files rv"
      using assms(1) m by (auto simp: fetches_def)
    obtain ns' where ns': "snd (snd (f x (h, log'))) = log' @ map (Fetched (rev_pinned rv)) ns'" "set ns' \<subseteq> rev_files rv"
      using assms(2) [of x h log'] by (auto simp: fetches_def)
    show ?thesis using ns ns' m Inr
      by (simp add: hub_bind_def fetches_def) (intro exI [of _ "ns @ ns'"], simp)
  qed
qed

lemma fetches_shards: "fetches rv (get_shards (recording hub) rv names (h, log)) log"
proof (induction names arbitrary: h log)
  case Nil
  then show ?case by auto
next
  case (Cons name names)
  have "fetches rv (hub_bind (get_shards (recording hub) rv names (h1, log1)) (\<lambda>ps h2. (Ok (p # ps), h2))) log1" for p h1 log1
    by (rule fetches_bind [OF Cons]) auto
  then have "fetches rv (hub_bind (hub_get (recording hub) (rev_pinned rv) name (h, log)) (\<lambda>p h1.
      hub_bind (get_shards (recording hub) rv names h1) (\<lambda>ps h2. (Ok (p # ps), h2)))) log" if "name \<in> rev_files rv"
    using that by (intro fetches_bind fetches_get Cons fetches_nothing)
  then show ?case by auto
qed

lemma fetches_generation: "fetches rv (hub_generation_config io (recording hub) rv (h, log)) log"
  by (auto simp: hub_generation_config_def intro: fetches_bind)

lemma fetches_weights: "fetches rv (hub_weights io (recording hub) rv (h, log)) log"
  by (auto simp: hub_weights_def intro!: fetches_bind fetches_shards)

text \<open>What \<open>resolve_with_hub\<close> does once the revision is known.\<close>

lemma fetches_resolved:
  assumes "''config.json'' \<in> rev_files rv" "''tokenizer.json'' \<in> rev_files rv"
  shows "fetches rv (hub_bind (hub_get (recording hub) (rev_pinned rv) ''config.json'' (h, log)) (\<lambda>config h2.
         hub_bind (hub_get (recording hub) (rev_pinned rv) ''tokenizer.json'' h2) (\<lambda>tok h3.
         hub_bind (hub_generation_config io (recording hub) rv h3) (\<lambda>gen h4.
         hub_bind (hub_weights io (recording hub) rv h4) (\<lambda>weights h5. (k config tok gen weights, h5)))))) log"
  by (intro fetches_bind fetches_get assms) (auto intro!: fetches_bind fetches_get fetches_generation fetches_weights assms)

lemma validate_model_dtype_Ok [simp]: "validate_model_dtype dt origin = Ok d \<longleftrightarrow> d = dt \<and> (dt = BF16 \<or> dt = F16)"
  by (auto simp: validate_model_dtype_def)

lemma select_dtype_Ok:
  assumes "select_dtype io bytes requested = Ok dt" "validate_requested_dtype requested = Ok ()"
  shows "(dt = BF16 \<or> dt = F16) \<and> (\<forall>d. requested = Some d \<longrightarrow> dt = d)
    \<and> (requested = None \<longrightarrow> default_dtype_from_config_json io bytes = Ok dt)"
  using assms by (cases requested) (auto simp: select_dtype_def validate_requested_dtype_def rbind_Ok_iff)

lemma hub_bind_Ok: "hub_bind m f = (Ok y, h') \<longleftrightarrow> (\<exists>x h. m = (Ok x, h) \<and> f x h = (Ok y, h'))"
  by (cases m; cases "fst m") (auto simp: hub_bind_def)

lemma resolve_with_hub_Ok:
  assumes "resolve_with_hub io hub repo revision requested h = (Ok model, h')"
  shows "validate_requested_dtype requested = Ok () \<and> select_dtype io (config_json model) requested = Ok (model_dtype model)"
  using assms by (auto simp: resolve_with_hub_def hub_bind_Ok rbind_Ok_iff split: option.splits)

lemma resolve_local_Ok:
  assumes "resolve_local io given requested = Ok model"
  shows "validate_requested_dtype requested = Ok () \<and> select_dtype io (config_json model) requested = Ok (model_dtype model)"
  using assms by (auto simp: resolve_local_def rbind_Ok_iff Let_def split: if_splits)

lemma unique_ids_spec: "set (unique_ids seen ts) = set seen \<union> set ts \<and> (distinct seen \<longrightarrow> distinct (unique_ids seen ts))"
  by (induction seen ts rule: unique_ids.induct) auto

section \<open>Properties\<close>

text \<open>C34: one model, one commit. Whatever the Hub answers, resolving a Hub source asks for the revision
  at most once; every file it then fetches is fetched by the single repository and commit of that
  answer and is listed in it; and the identity of the resolved model names exactly that commit.\<close>

theorem hub_pins_one_commit:
  assumes "resolve_with_hub io (recording hub) repo revision requested (h, []) = (r, (h', log))"
  defines "asked \<equiv> (case revision of Some v \<Rightarrow> v | None \<Rightarrow> ''main'')"
  shows "(log = [] \<or> log = [Resolved repo asked]) \<and> (\<exists>e. r = Inl e)
    \<or> (\<exists>rv h1 names. hub_resolve_revision hub repo asked h = (Ok rv, h1)
        \<and> log = Resolved repo asked # map (Fetched (rev_pinned rv)) names \<and> set names \<subseteq> rev_files rv
        \<and> (\<forall>model. r = Ok model \<longrightarrow> identity model = HubIdentity (pinned_repo (rev_pinned rv)) (pinned_commit (rev_pinned rv))))"
proof (cases "validate_requested_dtype requested")
  case (Inl e)
  then show ?thesis using assms(1) by (auto simp: resolve_with_hub_def hub_bind_def)
next
  case valid: (Inr u)
  obtain rr h1 where res: "hub_resolve_revision hub repo asked h = (rr, h1)" by force
  have rec: "hub_resolve_revision (recording hub) repo asked (h, []) = (rr, (h1, [Resolved repo asked]))"
    using res by (simp add: recording_def)
  show ?thesis
  proof (cases rr)
    case (Inl e)
    then show ?thesis using assms(1) valid rec
      by (auto simp: resolve_with_hub_def hub_bind_def asked_def [symmetric])
  next
    case (Inr rv)
    show ?thesis
    proof (cases "''config.json'' \<in> rev_files rv \<and> ''tokenizer.json'' \<in> rev_files rv")
      case False
      then have "\<exists>e. r = Inl e \<and> log = [Resolved repo asked]" using assms(1) valid rec Inr
        by (cases "''config.json'' \<in> rev_files rv") (auto simp: resolve_with_hub_def hub_bind_def asked_def [symmetric])
      then show ?thesis by blast
    next
      case True
      let ?k = "\<lambda>config tok gen weights. rbind (map_err Io (read_bytes io config)) (\<lambda>bytes.
            rbind (select_dtype io bytes requested) (\<lambda>dt.
            Ok \<lparr>identity = HubIdentity (pinned_repo (rev_pinned rv)) (pinned_commit (rev_pinned rv)),
               config_path = config, config_json = bytes, generation_config_json = gen,
               tokenizer_path = tok, weight_paths = weights, model_dtype = dt\<rparr>))"
      let ?rest = "hub_bind (hub_get (recording hub) (rev_pinned rv) ''config.json'' (h1, [Resolved repo asked])) (\<lambda>config h2.
         hub_bind (hub_get (recording hub) (rev_pinned rv) ''tokenizer.json'' h2) (\<lambda>tok h3.
         hub_bind (hub_generation_config io (recording hub) rv h3) (\<lambda>gen h4.
         hub_bind (hub_weights io (recording hub) rv h4) (\<lambda>weights h5. (?k config tok gen weights, h5)))))"
      have eq: "?rest = (r, (h', log))" using assms(1) valid rec Inr True
        by (simp add: resolve_with_hub_def asked_def [symmetric]) (simp add: hub_bind_def)
      have "fetches rv ?rest [Resolved repo asked]" using True by (intro fetches_resolved) auto
      then obtain names where "log = [Resolved repo asked] @ map (Fetched (rev_pinned rv)) names" "set names \<subseteq> rev_files rv"
        unfolding eq by (auto simp: fetches_def)
      moreover have "identity model = HubIdentity (pinned_repo (rev_pinned rv)) (pinned_commit (rev_pinned rv))"
        if "r = Ok model" for model
        using eq unfolding that by (auto simp: hub_bind_Ok rbind_Ok_iff)
      ultimately show ?thesis using res Inr by auto
    qed
  qed
qed

definition demo_hub :: "unit hub_access" where
  "demo_hub = \<lparr>hub_resolve_revision = (\<lambda>repo _ h. (Ok \<lparr>rev_pinned = \<lparr>pinned_repo = repo, pinned_commit = ''c0ffee''\<rparr>,
     rev_files = {''config.json'', ''tokenizer.json'', ''model.safetensors''}\<rparr>, h)),
     hub_get = (\<lambda>p name h. (Ok name, h))\<rparr>"

theorem hub_pins_one_commit_witness:
  "\<exists>model log h. resolve_with_hub demo_io (recording demo_hub) ''org/m'' None None ((), []) = (Ok model, (h, log))
     \<and> identity model = HubIdentity ''org/m'' ''c0ffee''"
proof -
  have "case resolve_with_hub demo_io (recording demo_hub) ''org/m'' None None ((), []) of (Inr _, _) \<Rightarrow> True | _ \<Rightarrow> False"
    by code_simp
  then obtain model h log where r: "resolve_with_hub demo_io (recording demo_hub) ''org/m'' None None ((), []) = (Ok model, (h, log))"
    by (auto split: prod.splits sum.splits)
  from hub_pins_one_commit [OF r] r show ?thesis by (auto simp: demo_hub_def)
qed

text \<open>C35: a resolved model has a supported data type. Every model that is resolved, from a local
  directory, from the Hub or from the offline cache, is bfloat16 or float16; it is the requested type
  when one was requested, and otherwise the one its configuration declares.\<close>

theorem resolved_dtype_supported:
  assumes "resolve io offline c api source requested h = (Ok model, h')"
  shows "(model_dtype model = BF16 \<or> model_dtype model = F16)
    \<and> (\<forall>d. requested = Some d \<longrightarrow> model_dtype model = d)
    \<and> (requested = None \<longrightarrow> default_dtype_from_config_json io (config_json model) = Ok (model_dtype model))"
proof -
  have "validate_requested_dtype requested = Ok () \<and> select_dtype io (config_json model) requested = Ok (model_dtype model)"
  proof (cases source)
    case (LocalSource root)
    then have "resolve_local io root requested = Ok model" using assms by (auto simp: resolve_def)
    then show ?thesis by (rule resolve_local_Ok)
  next
    case (HubSource repo revision)
    show ?thesis
    proof (cases "is_offline_value offline")
      case True
      let ?m = "resolve_with_hub io (offline_hub io c) repo (Some (case revision of Some r \<Rightarrow> r | None \<Rightarrow> ''main'')) requested ()"
      have "?m = (Ok model, snd ?m)" using assms True HubSource by (simp add: resolve_def prod_eq_iff)
      then show ?thesis by (rule resolve_with_hub_Ok)
    next
      case False
      then show ?thesis using assms HubSource by (intro resolve_with_hub_Ok) (simp add: resolve_def)
    qed
  qed
  then show ?thesis using select_dtype_Ok [of io "config_json model" requested "model_dtype model"] by simp
qed

theorem resolved_dtype_supported_witness:
  "\<exists>model. resolve demo_io None (undefined :: hub_cache) (undefined :: unit hub_api) (LocalSource ''/m'') (Some F16) () = (Ok model, ())
     \<and> model_dtype model = F16"
proof -
  have "case resolve_local demo_io ''/m'' (Some F16) of Inr _ \<Rightarrow> True | _ \<Rightarrow> False" by code_simp
  then obtain model where "resolve_local demo_io ''/m'' (Some F16) = Ok model"
    by (cases "resolve_local demo_io ''/m'' (Some F16)") simp_all
  then have m: "resolve demo_io None (undefined :: hub_cache) (undefined :: unit hub_api) (LocalSource ''/m'') (Some F16) () = (Ok model, ())"
    by (simp only: resolve_def model_source.case)
  from resolved_dtype_supported [OF m] m show ?thesis by blast
qed

text \<open>the stop tokens of a model are meaningful. Resolved special tokens have a non-empty list of
  distinct end-of-sequence ids, those of the generation configuration when it declares any and of the
  model configuration otherwise, and every special id is a token that maps back to it.\<close>

theorem special_tokens_consistent:
  assumes "resolve_special_tokens parse voc model = Ok special"
  shows "eos_ids special \<noteq> [] \<and> distinct (eos_ids special)
    \<and> (\<forall>i \<in> set (eos_ids special) \<union> set_option (bos_id special) \<union> set_option (pad_id special).
         \<exists>t. id_to_token voc i = Some t \<and> token_to_id voc t = Some i)
    \<and> (\<forall>b cfg ids. generation_config_json model = Some b \<longrightarrow> parse b = Ok cfg \<longrightarrow> cfg_eos cfg = Some ids \<longrightarrow>
         set (eos_ids special) = set (into_vec ids))"
proof -
  obtain own gen eos where p: "parse (config_json model) = Ok own"
    "(case generation_config_json model of None \<Rightarrow> Ok default_special_token_config | Some b \<Rightarrow> map_err Json (parse b)) = Ok gen"
    "or_else (cfg_eos gen) (cfg_eos own) = Some eos" "unique_ids [] (into_vec eos) \<noteq> []"
    and special: "special = \<lparr>eos_ids = unique_ids [] (into_vec eos), bos_id = or_else (cfg_bos gen) (cfg_bos own),
        pad_id = or_else (cfg_pad gen) (cfg_pad own)\<rparr>"
    and checked: "\<exists>us. rcollect (check_special voc) (special_claims special) = Ok us"
    using assms by (auto simp: resolve_special_tokens_def rbind_Ok_iff Let_def split: option.splits if_splits)
  have ok: "\<exists>u. check_special voc q = Ok u" if "q \<in> set (special_claims special)" for q
    using checked that by (metis in_set_conv_nth rcollect_Ok_iff)
  have ids: "\<exists>kind u. check_special voc (kind, i) = Ok u"
    if "i \<in> set (eos_ids special) \<union> set_option (bos_id special) \<union> set_option (pad_id special)" for i
    using that ok [of "(''eos_token_id'', i)"] ok [of "(''bos_token_id'', i)"] ok [of "(''pad_token_id'', i)"]
    by (auto simp: special_claims_def)
  have "\<exists>t. id_to_token voc i = Some t \<and> token_to_id voc t = Some i" if "check_special voc (kind, i) = Ok u" for kind i u
    using that by (auto simp: check_special_def split: option.splits if_splits)
  then have "\<forall>i \<in> set (eos_ids special) \<union> set_option (bos_id special) \<union> set_option (pad_id special).
         \<exists>t. id_to_token voc i = Some t \<and> token_to_id voc t = Some i"
    using ids by blast
  then show ?thesis using p unique_ids_spec [of "[]" "into_vec eos"]
    by (auto simp: special or_else_def)
qed

theorem special_tokens_consistent_witness:
  "\<exists>special. resolve_special_tokens (\<lambda>_. Ok \<lparr>cfg_eos = Some (Many [2, 3, 2]), cfg_bos = Some 1, cfg_pad = None\<rparr>)
      \<lparr>id_to_token = (\<lambda>i. Some (replicate (unat i) (CHR ''x''))), token_to_id = (\<lambda>t. Some (word_of_nat (length t)))\<rparr>
      \<lparr>identity = LocalIdentity ''/m'', config_path = ''c'', config_json = (), generation_config_json = None,
         tokenizer_path = ''t'', weight_paths = [], model_dtype = BF16\<rparr> = Ok special \<and> distinct (eos_ids special)"
proof -
  let ?r = "resolve_special_tokens (\<lambda>_. Ok \<lparr>cfg_eos = Some (Many [2, 3, 2]), cfg_bos = Some 1, cfg_pad = None\<rparr>)
      \<lparr>id_to_token = (\<lambda>i. Some (replicate (unat i) (CHR ''x''))), token_to_id = (\<lambda>t. Some (word_of_nat (length t)))\<rparr>
      \<lparr>identity = LocalIdentity ''/m'', config_path = ''c'', config_json = (), generation_config_json = None,
         tokenizer_path = ''t'', weight_paths = [], model_dtype = BF16\<rparr>"
  have "case ?r of Inr _ \<Rightarrow> True | _ \<Rightarrow> False" by code_simp
  then obtain special where s: "?r = Ok special" by (cases ?r) simp_all
  from special_tokens_consistent [OF s] s show ?thesis by blast
qed

end
