(* ===== verification/Sampling.thy ===== *)
theory Sampling
  imports Complex_Main Prelude
begin

text \<open>
  \<^verbatim>\<open>sampler.rs\<close>: the per-request sampling policy \<^verbatim>\<open>SamplingParams\<close>, its validation before
  admission, the two predicates that select a sampling path, and the greedy argmax.

  A \<^verbatim>\<open>f32\<close> is a NaN, an infinity or a finite number; the finite ones are rationals, a superset
  of the binary32 values, which is exact for everything modelled here: validation and argmax
  only compare (the two zeros compare equal in Rust as they do here).
\<close>

section \<open>Floating-point values as far as they are compared\<close>

datatype f32 = F32_NaN | F32_NegInf | F32_Finite rat | F32_PosInf

fun f32_is_nan :: "f32 \<Rightarrow> bool" where
  "f32_is_nan F32_NaN = True"
| "f32_is_nan _ = False"

fun f32_is_finite :: "f32 \<Rightarrow> bool" where
  "f32_is_finite (F32_Finite _) = True"
| "f32_is_finite _ = False"

text \<open>IEEE comparison: false as soon as one side is NaN.\<close>

fun f32_less :: "f32 \<Rightarrow> f32 \<Rightarrow> bool" where
  "f32_less F32_NaN _ = False"
| "f32_less _ F32_NaN = False"
| "f32_less _ F32_NegInf = False"
| "f32_less F32_NegInf _ = True"
| "f32_less F32_PosInf _ = False"
| "f32_less (F32_Finite _) F32_PosInf = True"
| "f32_less (F32_Finite a) (F32_Finite b) = (a < b)"

definition f32_eq :: "f32 \<Rightarrow> f32 \<Rightarrow> bool" where
  "f32_eq a b = (\<not> f32_is_nan a \<and> a = b)"

definition f32_le :: "f32 \<Rightarrow> f32 \<Rightarrow> bool" where
  "f32_le a b = (f32_less a b \<or> f32_eq a b)"

text \<open>\<^verbatim>\<open>(lo..=hi).contains(&x)\<close>.\<close>

definition f32_in_range :: "rat \<Rightarrow> rat \<Rightarrow> f32 \<Rightarrow> bool" where
  "f32_in_range lo hi x = (f32_le (F32_Finite lo) x \<and> f32_le x (F32_Finite hi))"

section \<open>The sampling policy\<close>

record sampling_params =
  temperature :: f32
  top_k :: "nat option"
  top_p :: "f32 option"
  max_tokens :: nat
  ignore_eos :: bool
  presence_penalty :: f32
  frequency_penalty :: f32
  repetition_penalty :: f32

definition default_sampling_params :: sampling_params where
  "default_sampling_params = \<lparr>
     temperature = F32_Finite 0, top_k = None, top_p = None, max_tokens = 16,
     ignore_eos = False, presence_penalty = F32_Finite 0, frequency_penalty = F32_Finite 0,
     repetition_penalty = F32_Finite 0\<rparr>"

text \<open>The value a validation error reports: a float or an integer, formatted by the caller.\<close>

datatype param_value = FloatValue f32 | UsizeValue nat

record sampling_params_validation_error =
  err_field :: string
  err_value :: param_value
  err_reason :: string

definition validation_error ::
    "string \<Rightarrow> param_value \<Rightarrow> string \<Rightarrow> (sampling_params_validation_error, 'a) outcome" where
  "validation_error f v r = Error \<lparr>err_field = f, err_value = v, err_reason = r\<rparr>"

definition validate_additive_penalty ::
    "string \<Rightarrow> f32 \<Rightarrow> (sampling_params_validation_error, unit) outcome" where
  "validate_additive_penalty field value =
     (if \<not> f32_is_finite value then validation_error field (FloatValue value) ''must be finite''
      else if \<not> f32_in_range (- 2) 2 value
      then validation_error field (FloatValue value) ''must be in [-2, 2]''
      else Ok ())"

definition validate_top_k :: "nat option \<Rightarrow> (sampling_params_validation_error, unit) outcome" where
  "validate_top_k k = (case k of None \<Rightarrow> Ok () | Some k \<Rightarrow>
     if k = 0 then validation_error ''top_k'' (UsizeValue k) ''must be at least 1 when set''
     else Ok ())"

definition validate_top_p :: "f32 option \<Rightarrow> (sampling_params_validation_error, unit) outcome" where
  "validate_top_p p = (case p of None \<Rightarrow> Ok () | Some p \<Rightarrow>
     if \<not> f32_is_finite p then validation_error ''top_p'' (FloatValue p) ''must be finite''
     else if \<not> f32_in_range 0 1 p \<or> f32_eq p (F32_Finite 0)
     then validation_error ''top_p'' (FloatValue p) ''must be in (0, 1]''
     else Ok ())"

definition validate_sampling_params ::
    "sampling_params \<Rightarrow> (sampling_params_validation_error, unit) outcome" where
  "validate_sampling_params ps =
     (if f32_is_nan (temperature ps)
      then validation_error ''temperature'' (FloatValue (temperature ps)) ''must not be NaN''
      else if f32_less (temperature ps) (F32_Finite 0)
      then validation_error ''temperature'' (FloatValue (temperature ps))
             ''must be greater than or equal to 0''
      else rbind (validate_top_k (top_k ps)) (\<lambda>_.
           rbind (validate_top_p (top_p ps)) (\<lambda>_.
           rbind (validate_additive_penalty ''presence_penalty'' (presence_penalty ps)) (\<lambda>_.
           rbind (validate_additive_penalty ''frequency_penalty'' (frequency_penalty ps)) (\<lambda>_.
             if \<not> f32_is_finite (repetition_penalty ps)
             then validation_error ''repetition_penalty'' (FloatValue (repetition_penalty ps))
                    ''must be finite''
             else if f32_less (repetition_penalty ps) (F32_Finite 0)
             then validation_error ''repetition_penalty'' (FloatValue (repetition_penalty ps))
                    ''must be greater than or equal to 0''
             else if max_tokens ps = 0
             then validation_error ''max_tokens'' (UsizeValue (max_tokens ps)) ''must be at least 1''
             else Ok ())))))"

definition is_greedy :: "sampling_params \<Rightarrow> bool" where
  "is_greedy ps = (f32_eq (temperature ps) (F32_Finite 0) \<or> top_k ps = Some 1)"

definition has_penalties :: "sampling_params \<Rightarrow> bool" where
  "has_penalties ps =
     (\<not> f32_eq (presence_penalty ps) (F32_Finite 0)
      \<or> \<not> f32_eq (frequency_penalty ps) (F32_Finite 0)
      \<or> \<not> f32_eq (repetition_penalty ps) (F32_Finite 0))"

text \<open>\<^verbatim>\<open>argmax_buf\<close>: the scan keeps \<open>(best_val, best_idx)\<close> and replaces it on a strict increase.\<close>

fun argmax_scan :: "nat \<Rightarrow> f32 \<Rightarrow> nat \<Rightarrow> f32 list \<Rightarrow> nat" where
  "argmax_scan i best_val best_idx [] = best_idx"
| "argmax_scan i best_val best_idx (v # vs) =
     (if f32_less best_val v then argmax_scan (Suc i) v i vs
      else argmax_scan (Suc i) best_val best_idx vs)"

definition argmax_buf :: "f32 list \<Rightarrow> nat" where
  "argmax_buf buf = argmax_scan 0 F32_NegInf 0 buf"

section \<open>Lemmas\<close>

text \<open>The documented domain of each field.\<close>

definition finite_between :: "rat \<Rightarrow> rat \<Rightarrow> f32 \<Rightarrow> bool" where
  "finite_between lo hi x = (case x of F32_Finite q \<Rightarrow> lo \<le> q \<and> q \<le> hi | _ \<Rightarrow> False)"

definition documented_domain :: "sampling_params \<Rightarrow> bool" where
  "documented_domain ps \<longleftrightarrow>
     (case temperature ps of F32_Finite q \<Rightarrow> 0 \<le> q | F32_PosInf \<Rightarrow> True | _ \<Rightarrow> False)
     \<and> top_k ps \<noteq> Some 0
     \<and> (case top_p ps of None \<Rightarrow> True
        | Some p \<Rightarrow> finite_between 0 1 p \<and> p \<noteq> F32_Finite 0)
     \<and> finite_between (- 2) 2 (presence_penalty ps)
     \<and> finite_between (- 2) 2 (frequency_penalty ps)
     \<and> (case repetition_penalty ps of F32_Finite q \<Rightarrow> 0 \<le> q | _ \<Rightarrow> False)
     \<and> 1 \<le> max_tokens ps"

lemma f32_in_range_iff: "f32_in_range lo hi x \<longleftrightarrow> finite_between lo hi x"
  by (cases x) (auto simp: f32_in_range_def finite_between_def f32_le_def f32_eq_def)

lemma validate_additive_penalty_Ok_iff:
  "validate_additive_penalty f v = Ok () \<longleftrightarrow> finite_between (- 2) 2 v"
  by (cases v) (auto simp: validate_additive_penalty_def validation_error_def f32_in_range_iff
      finite_between_def)

lemma validate_top_k_Ok_iff: "validate_top_k k = Ok () \<longleftrightarrow> k \<noteq> Some 0"
  by (auto simp: validate_top_k_def validation_error_def split: option.splits)

lemma validate_top_p_Ok_iff:
  "validate_top_p p = Ok () \<longleftrightarrow>
     (case p of None \<Rightarrow> True | Some p \<Rightarrow> finite_between 0 1 p \<and> p \<noteq> F32_Finite 0)"
  by (auto simp: validate_top_p_def validation_error_def f32_in_range_iff finite_between_def
      f32_eq_def split: option.splits f32.splits)

lemma temperature_domain:
  "\<not> f32_is_nan t \<and> \<not> f32_less t (F32_Finite 0) \<longleftrightarrow>
     (case t of F32_Finite q \<Rightarrow> 0 \<le> q | F32_PosInf \<Rightarrow> True | _ \<Rightarrow> False)"
  by (cases t) (auto simp: not_less)

lemma repetition_domain:
  "f32_is_finite r \<and> \<not> f32_less r (F32_Finite 0) \<longleftrightarrow>
     (case r of F32_Finite q \<Rightarrow> 0 \<le> q | _ \<Rightarrow> False)"
  by (cases r) (auto simp: not_less)

text \<open>
  The scan's result is either the starting index, when nothing in the rest beats the
  starting value, or the first position of a value that nothing in the rest beats.
\<close>

lemma f32_less_trans: "f32_less a b \<Longrightarrow> f32_less b c \<Longrightarrow> f32_less a c"
  by (cases a; cases b; cases c) auto

lemma f32_not_less_trans:
  "\<not> f32_is_nan b \<Longrightarrow> \<not> f32_less a b \<Longrightarrow> f32_less a c \<Longrightarrow> f32_less b c"
  by (cases a; cases b; cases c) auto

lemma argmax_scan_range:
  "argmax_scan i bv bi vs = bi \<or> (i \<le> argmax_scan i bv bi vs \<and> argmax_scan i bv bi vs < i + length vs)"
proof (induction vs arbitrary: i bv bi)
  case Nil
  then show ?case by simp
next
  case (Cons v vs)
  from Cons.IH [of "Suc i" v i] Cons.IH [of "Suc i" bv bi] show ?case by auto
qed

lemma argmax_scan_max:
  "\<not> f32_is_nan bv \<Longrightarrow>
     (\<forall>v \<in> set vs. \<not> f32_less bv v) \<and> argmax_scan i bv bi vs = bi
     \<or> (\<exists>j < length vs. argmax_scan i bv bi vs = i + j \<and> f32_less bv (vs ! j)
          \<and> (\<forall>v \<in> set vs. \<not> f32_less (vs ! j) v)
          \<and> (\<forall>k < j. f32_is_nan (vs ! k) \<or> f32_less (vs ! k) (vs ! j)))"
proof (induction vs arbitrary: i bv bi)
  case Nil
  then show ?case by simp
next
  case (Cons v vs)
  show ?case
  proof (cases "f32_less bv v")
    case True
    then have v: "\<not> f32_is_nan v" by (cases v; cases bv) auto
    have irr: "\<not> f32_less v v" by (cases v) auto
    from Cons.IH [OF v, of "Suc i" i] show ?thesis
    proof (elim disjE exE conjE)
      assume "\<forall>w \<in> set vs. \<not> f32_less v w" "argmax_scan (Suc i) v i vs = i"
      with True irr show ?thesis by (intro disjI2 exI [of _ 0]) auto
    next
      fix j assume j: "j < length vs" "argmax_scan (Suc i) v i vs = Suc i + j" "f32_less v (vs ! j)"
        "\<forall>w \<in> set vs. \<not> f32_less (vs ! j) w"
        "\<forall>k < j. f32_is_nan (vs ! k) \<or> f32_less (vs ! k) (vs ! j)"
      have "\<not> f32_less (vs ! j) v" using j(3) by (cases v; cases "vs ! j") auto
      with j True show ?thesis
        by (intro disjI2 exI [of _ "Suc j"]) (auto simp: less_Suc_eq_0_disj intro: f32_less_trans)
    qed
  next
    case False
    from Cons.IH [OF Cons.prems, of "Suc i" bi] show ?thesis
    proof (elim disjE exE conjE)
      assume "\<forall>w \<in> set vs. \<not> f32_less bv w" "argmax_scan (Suc i) bv bi vs = bi"
      with False show ?thesis by auto
    next
      fix j assume j: "j < length vs" "argmax_scan (Suc i) bv bi vs = Suc i + j" "f32_less bv (vs ! j)"
        "\<forall>w \<in> set vs. \<not> f32_less (vs ! j) w"
        "\<forall>k < j. f32_is_nan (vs ! k) \<or> f32_less (vs ! k) (vs ! j)"
      have v: "f32_is_nan v \<or> f32_less v (vs ! j)"
        using False j(3) f32_not_less_trans by blast
      moreover have "\<not> f32_less (vs ! j) v"
        using False j(3) f32_less_trans by blast
      ultimately show ?thesis using j False
        by (intro disjI2 exI [of _ "Suc j"]) (auto simp: less_Suc_eq_0_disj)
    qed
  qed
qed

section \<open>Properties\<close>

text \<open>\<^verbatim>\<open>SamplingParams::validate\<close> accepts a policy exactly when every field lies in the domain
  its documentation gives: a temperature that is non-negative or positive infinity, a positive
  top-k, a top-p in (0, 1], additive penalties in [-2, 2], a finite non-negative repetition
  penalty, and at least one completion token.\<close>

theorem validate_sampling_params_iff:
  "validate_sampling_params ps = Ok () \<longleftrightarrow> documented_domain ps"
  unfolding validate_sampling_params_def documented_domain_def
  using temperature_domain [of "temperature ps"] repetition_domain [of "repetition_penalty ps"]
  by (auto simp: rbind_Ok_iff validation_error_def validate_top_k_Ok_iff validate_top_p_Ok_iff
      validate_additive_penalty_Ok_iff)

end
