(* ===== verification/Device_Float.thy ===== *)
theory Device_Float
  imports Sampling "HOL-Library.Log_Nat"
begin

text \<open>
  The double-precision arithmetic of the memory budget. A finite non-negative \<^verbatim>\<open>f64\<close> is the
  rational it stands for; an operation computes the exact result and rounds it to 53 significant
  bits, ties to even. The budget stays inside the normal range, so neither subnormal numbers nor
  overflow to infinity arise.
\<close>

text \<open>The binary exponent of a positive rational: the greatest \<open>e\<close> with \<open>2 ^ e \<le> x\<close>.\<close>

definition f64_exponent :: "rat \<Rightarrow> int" where
  "f64_exponent x = (case quotient_of x of (p, q) \<Rightarrow>
     let e = bitlen p - bitlen q in if 2 powi e \<le> x then e else e - 1)"

definition round_half_even :: "rat \<Rightarrow> int" where
  "round_half_even y =
     (let f = \<lfloor>y\<rfloor>; d = y - of_int f in
      if d < 1 / 2 \<or> d = 1 / 2 \<and> even f then f else f + 1)"

definition f64_round :: "rat \<Rightarrow> rat" where
  "f64_round x =
     (if x \<le> 0 then 0
      else let u = 2 powi (f64_exponent x - 52) in of_int (round_half_even (x / u)) * u)"

text \<open>\<^verbatim>\<open>x as usize\<close> for a non-negative float: truncation that saturates.\<close>

definition f64_as_usize :: "rat \<Rightarrow> nat" where
  "f64_as_usize x = min (usize_bound - 1) (nat \<lfloor>x\<rfloor>)"

section \<open>Rounding below the exact range\<close>

lemma f64_exponent_le:
  assumes "0 < x"
  shows "2 powi f64_exponent x \<le> x"
proof -
  obtain p q where pq: "quotient_of x = (p, q)" by force
  have q: "0 < q" and x: "x = of_int p / of_int q"
    using quotient_of_denom_pos [OF pq] quotient_of_div [OF pq] by simp_all
  then have p: "0 < p" using assms by (simp add: zero_less_divide_iff)
  let ?e = "bitlen p - bitlen q"
  have "2 powi (?e - 1) \<le> x"
  proof -
    have bp: "0 < bitlen p" using p bitlen_eq_zero_iff [of p] bitlen_nonneg [of p] by linarith
    have "2 ^ nat (bitlen p - 1) \<le> p" "q < 2 ^ nat (bitlen q)" using bitlen_bounds p q by blast+
    then have "(2 :: rat) ^ nat (bitlen p - 1) \<le> of_int p" "of_int q \<le> (2 :: rat) ^ nat (bitlen q)"
      by (metis of_int_le_iff of_int_numeral of_int_power, metis less_imp_le of_int_le_iff of_int_numeral of_int_power)
    then have "(2 :: rat) ^ nat (bitlen p - 1) / 2 ^ nat (bitlen q) \<le> of_int p / of_int q"
      using q by (intro frac_le) (simp_all add: p less_imp_le)
    moreover have "(2 :: rat) powi (?e - 1) = 2 ^ nat (bitlen p - 1) / 2 ^ nat (bitlen q)"
    proof -
      have "(2 :: rat) powi (?e - 1) = 2 powi (bitlen p - 1) / 2 powi bitlen q"
        by (subst power_int_diff [symmetric]) (simp_all add: algebra_simps)
      then show ?thesis using bp bitlen_nonneg [of q] by (simp add: power_int_def)
    qed
    ultimately show ?thesis by (simp add: x)
  qed
  then show ?thesis by (simp add: f64_exponent_def pq Let_def)
qed

lemma round_half_even_le: "y \<le> of_int m \<Longrightarrow> round_half_even y \<le> m"
proof -
  assume le: "y \<le> of_int m"
  show ?thesis
  proof (cases "\<lfloor>y\<rfloor> < m")
    case True
    then show ?thesis by (simp add: round_half_even_def Let_def)
  next
    case False
    then have "\<lfloor>y\<rfloor> = m" "y = of_int m" using le by (linarith, metis False floor_less_iff le_less not_less_iff_gr_or_eq)
    then show ?thesis by (simp add: round_half_even_def)
  qed
qed

lemma round_half_even_of_int: "round_half_even (of_int m) = m"
  by (simp add: round_half_even_def)

text \<open>Rounding never passes an integer of the exact range, and keeps it.\<close>

lemma f64_unit:
  assumes "0 < x" "x < 2 ^ 53"
  obtains k :: nat where "(2 :: rat) powi (f64_exponent x - 52) = 1 / 2 ^ k"
proof -
  have "(2 :: rat) powi f64_exponent x < 2 powi 53" using f64_exponent_le [OF assms(1)] assms(2) by simp
  then have "f64_exponent x < 53"
    using power_int_increasing [of 53 "f64_exponent x" "2 :: rat"] by (meson leD le_less_linear one_le_numeral)
  then have "f64_exponent x - 52 = - int (nat (52 - f64_exponent x))" by linarith
  then have "(2 :: rat) powi (f64_exponent x - 52) = inverse (2 powi int (nat (52 - f64_exponent x)))"
    by (simp only: power_int_minus)
  then have "(2 :: rat) powi (f64_exponent x - 52) = 1 / 2 ^ nat (52 - f64_exponent x)"
    by (simp only: power_int_of_nat divide_inverse mult_1_left)
  then show thesis by (rule that)
qed

lemma f64_round_le:
  assumes "x \<le> of_nat m" "m < 2 ^ 53"
  shows "f64_round x \<le> of_nat m"
proof (cases "0 < x")
  case True
  have "(of_nat m :: rat) < 2 ^ 53" using assms(2) by (metis of_nat_less_iff of_nat_numeral of_nat_power)
  then have "x < 2 ^ 53" using assms(1) by linarith
  from f64_unit [OF True this] obtain k :: nat where u: "(2 :: rat) powi (f64_exponent x - 52) = 1 / 2 ^ k" .
  have "x * 2 ^ k \<le> of_int (int m * 2 ^ k)" using assms(1) by simp
  then have "of_int (round_half_even (x * 2 ^ k)) \<le> (of_int (int m * 2 ^ k) :: rat)"
    using round_half_even_le of_int_le_iff by blast
  then show ?thesis using True by (simp add: f64_round_def u Let_def divide_le_eq)
qed (simp add: f64_round_def)

lemma f64_round_of_nat: "m < 2 ^ 53 \<Longrightarrow> f64_round (of_nat m) = of_nat m"
proof (cases "m = 0")
  case False
  assume m: "m < 2 ^ 53"
  then have "(of_nat m :: rat) < 2 ^ 53" by (metis of_nat_less_iff of_nat_numeral of_nat_power)
  from f64_unit [OF _ this] False obtain k :: nat where u: "(2 :: rat) powi (f64_exponent (of_nat m) - 52) = 1 / 2 ^ k"
    by auto
  have "round_half_even (of_nat m * 2 ^ k) = int m * 2 ^ k"
    using round_half_even_of_int [of "int m * 2 ^ k"] by simp
  then show ?thesis using False by (simp add: f64_round_def u Let_def)
qed (simp add: f64_round_def)

text \<open>A fraction of an amount of memory below \<open>2 ^ 53\<close> bytes never exceeds that amount.\<close>

lemma f64_fraction_le:
  assumes "m < 2 ^ 53" "0 \<le> r" "r \<le> 1"
  shows "f64_as_usize (f64_round (f64_round (of_nat m) * r)) \<le> m"
proof -
  have "of_nat m * r \<le> of_nat m" using assms(2,3) by (simp add: mult_left_le)
  from f64_round_le [OF this assms(1)] have "f64_round (of_nat m * r) \<le> of_nat m" .
  then have "\<lfloor>f64_round (of_nat m * r)\<rfloor> \<le> int m" by (simp add: floor_le_iff)
  then show ?thesis using f64_round_of_nat [OF assms(1)] by (simp add: f64_as_usize_def)
qed

end
