(* ===== verification/Sequences.thy ===== *)
theory Sequences
  imports Sampling
begin

text \<open>
  \<^verbatim>\<open>engine/sequence.rs\<close>: the per-request record \<^verbatim>\<open>Sequence\<close>, its lifecycle status and its pure
  operations. Blocks of 256 tokens partition a token history; \<^verbatim>\<open>block(i)\<close> slices one out and
  panics outside the history. The underflow of \<^verbatim>\<open>num_tokens - num_prompt_tokens\<close> cannot occur
  on a well-formed sequence (\<open>wf_seq\<close>), which every operation keeps.
\<close>

definition BLOCK_SIZE :: nat where
  "BLOCK_SIZE = 256"

datatype sequence_status = Waiting | Running | Finished

record sequence =
  request_id :: nat
  seq_id :: nat
  status :: sequence_status
  token_ids :: "token list"
  last_token :: token
  num_tokens :: nat
  num_prompt_tokens :: nat
  num_cached_tokens :: nat
  num_scheduled_tokens :: nat
  recompute_target_tokens :: "nat option"
  is_prefill :: bool
  block_table :: "nat list"
  params :: sampling_params

definition seq_new :: "nat \<Rightarrow> nat \<Rightarrow> token list \<Rightarrow> sampling_params \<Rightarrow> sequence" where
  "seq_new rid sid tokens ps = \<lparr>
     request_id = rid, seq_id = sid, status = Waiting, token_ids = tokens,
     last_token = (if tokens = [] then 0 else last tokens),
     num_tokens = length tokens, num_prompt_tokens = length tokens,
     num_cached_tokens = 0, num_scheduled_tokens = 0, recompute_target_tokens = None,
     is_prefill = True, block_table = [], params = ps\<rparr>"

definition num_blocks :: "sequence \<Rightarrow> nat" where
  "num_blocks s = div_ceil (num_tokens s) BLOCK_SIZE"

definition last_block_num_tokens :: "sequence \<Rightarrow> nat" where
  "last_block_num_tokens s =
     (let nb = num_blocks s in if nb = 0 then 0 else num_tokens s - (nb - 1) * BLOCK_SIZE)"

definition seq_block :: "sequence \<Rightarrow> nat \<Rightarrow> ('e, token list) outcome" where
  "seq_block s i =
     (let start = i * BLOCK_SIZE; stop = min (start + BLOCK_SIZE) (num_tokens s)
      in slice_range (token_ids s) start stop)"

definition append_token :: "sequence \<Rightarrow> token \<Rightarrow> sequence" where
  "append_token s t =
     s\<lparr>token_ids := token_ids s @ [t], last_token := t, num_tokens := num_tokens s + 1\<rparr>"

definition is_finished :: "sequence \<Rightarrow> bool" where
  "is_finished s = (status s = Finished)"

definition prefill_target_tokens :: "sequence \<Rightarrow> nat" where
  "prefill_target_tokens s =
     (case recompute_target_tokens s of Some t \<Rightarrow> t | None \<Rightarrow> num_prompt_tokens s)"

definition num_completion_tokens :: "sequence \<Rightarrow> nat" where
  "num_completion_tokens s = num_tokens s - num_prompt_tokens s"

definition prompt_token_ids :: "sequence \<Rightarrow> ('e, token list) outcome" where
  "prompt_token_ids s = slice_range (token_ids s) 0 (num_prompt_tokens s)"

definition completion_token_ids :: "sequence \<Rightarrow> ('e, token list) outcome" where
  "completion_token_ids s = slice_range (token_ids s) (num_prompt_tokens s) (length (token_ids s))"

section \<open>Well-formedness\<close>

definition wf_seq :: "sequence \<Rightarrow> bool" where
  "wf_seq s \<longleftrightarrow>
     length (token_ids s) = num_tokens s \<and> num_prompt_tokens s \<le> num_tokens s
     \<and> 0 < num_prompt_tokens s \<and> num_cached_tokens s \<le> num_tokens s"

text \<open>Block \<open>i\<close> of a token history, without the range check.\<close>

definition block_tokens :: "token list \<Rightarrow> nat \<Rightarrow> token list" where
  "block_tokens ts i = take BLOCK_SIZE (drop (i * BLOCK_SIZE) ts)"

lemma BLOCK_SIZE_pos [simp]: "0 < BLOCK_SIZE"
  by (simp add: BLOCK_SIZE_def)

lemma BLOCK_SIZE_nonzero [simp]: "BLOCK_SIZE \<noteq> 0"
  by (simp add: BLOCK_SIZE_def)

lemma wf_seqD:
  assumes "wf_seq s"
  shows "length (token_ids s) = num_tokens s" "num_prompt_tokens s \<le> num_tokens s"
    "0 < num_prompt_tokens s" "num_cached_tokens s \<le> num_tokens s"
  using assms by (simp_all add: wf_seq_def)

lemma wf_seq_new: "tokens \<noteq> [] \<Longrightarrow> wf_seq (seq_new rid sid tokens ps)"
  by (simp add: wf_seq_def seq_new_def)

lemma wf_append_token: "wf_seq s \<Longrightarrow> wf_seq (append_token s t)"
  by (simp add: wf_seq_def append_token_def)

lemma less_num_blocks_iff: "i < num_blocks s \<longleftrightarrow> i * BLOCK_SIZE < num_tokens s"
  by (simp add: num_blocks_def less_div_ceil_iff)

lemma num_blocks_pos: "wf_seq s \<Longrightarrow> 0 < num_blocks s"
  by (simp add: less_num_blocks_iff wf_seq_def)

lemma seq_block_in_range:
  assumes "length (token_ids s) = num_tokens s" "i < num_blocks s"
  shows "seq_block s i = Ok (block_tokens (token_ids s) i)"
proof -
  have lt: "i * BLOCK_SIZE < num_tokens s" using assms(2) by (simp add: less_num_blocks_iff)
  have "min (i * BLOCK_SIZE + BLOCK_SIZE) (num_tokens s) - i * BLOCK_SIZE
        = min BLOCK_SIZE (num_tokens s - i * BLOCK_SIZE)" by simp
  then show ?thesis
    using lt assms(1)
    by (simp add: seq_block_def block_tokens_def Let_def min_def not_le)
qed

lemma seq_block_panics_iff:
  assumes "length (token_ids s) = num_tokens s"
  shows "seq_block s i = Panicked \<longleftrightarrow> num_tokens s < i * BLOCK_SIZE"
  using assms by (auto simp: seq_block_def Let_def slice_range_def)

lemma concat_block_tokens:
  "concat (map (block_tokens ts) [0..<k]) = take (k * BLOCK_SIZE) ts"
proof (induction k)
  case 0
  then show ?case by simp
next
  case (Suc k)
  have "take (k * BLOCK_SIZE + BLOCK_SIZE) ts = take (k * BLOCK_SIZE) ts @ block_tokens ts k"
    by (simp only: take_add block_tokens_def)
  with Suc show ?case by (simp add: add.commute)
qed

lemma last_block_range:
  assumes "0 < num_tokens s"
  shows "1 \<le> last_block_num_tokens s \<and> last_block_num_tokens s \<le> BLOCK_SIZE"
proof -
  have nb: "0 < num_blocks s" using assms by (simp add: less_num_blocks_iff)
  have lo: "(num_blocks s - 1) * BLOCK_SIZE < num_tokens s"
    using nb by (simp flip: less_num_blocks_iff)
  have "num_tokens s \<le> num_blocks s * BLOCK_SIZE"
    by (simp add: num_blocks_def div_ceil_upper)
  also have "\<dots> = (num_blocks s - 1) * BLOCK_SIZE + BLOCK_SIZE"
    using nb by (cases "num_blocks s") simp_all
  finally have "num_tokens s \<le> (num_blocks s - 1) * BLOCK_SIZE + BLOCK_SIZE" .
  moreover have "last_block_num_tokens s = num_tokens s - (num_blocks s - 1) * BLOCK_SIZE"
    using nb by (simp add: last_block_num_tokens_def Let_def)
  ultimately show ?thesis using lo by linarith
qed

section \<open>Properties\<close>

text \<open>slicing a well-formed sequence block by block never panics below \<^verbatim>\<open>num_blocks()\<close>, the
  blocks put together are the whole token history, and the last one holds between one and
  256 tokens.\<close>

theorem blocks_partition_history:
  assumes "wf_seq s"
  shows "(\<exists>bs. rcollect (seq_block s) [0..<num_blocks s] = (Ok bs :: ('e, token list list) outcome)
             \<and> concat bs = token_ids s)
         \<and> 1 \<le> last_block_num_tokens s \<and> last_block_num_tokens s \<le> BLOCK_SIZE"
proof -
  have eq: "rcollect (seq_block s) [0..<num_blocks s]
        = (Ok (map (block_tokens (token_ids s)) [0..<num_blocks s]) :: ('e, token list list) outcome)"
    using assms by (intro rcollect_total seq_block_in_range) (auto simp: wf_seq_def)
  have "num_tokens s \<le> num_blocks s * BLOCK_SIZE" by (simp add: num_blocks_def div_ceil_upper)
  with assms have "concat (map (block_tokens (token_ids s)) [0..<num_blocks s]) = token_ids s"
    by (simp add: concat_block_tokens wf_seq_def)
  moreover have "1 \<le> last_block_num_tokens s \<and> last_block_num_tokens s \<le> BLOCK_SIZE"
    using assms by (intro last_block_range) (auto simp: wf_seq_def)
  ultimately show ?thesis using eq by blast
qed

theorem blocks_partition_history_witness:
  "\<exists>bs. rcollect (seq_block (seq_new 0 0 (replicate 300 7) default_sampling_params))
            [0..<num_blocks (seq_new 0 0 (replicate 300 7) default_sampling_params)]
          = (Ok bs :: (unit, token list list) outcome)
        \<and> concat bs = replicate 300 7"
  using blocks_partition_history [OF wf_seq_new, of "replicate 300 7" 0 0 default_sampling_params,
      where 'e = unit]
  by (auto simp: seq_new_def)

end
