(* ===== verification/Block_Pool.thy ===== *)
theory Block_Pool
  imports Sequences
begin

text \<open>
  \<^verbatim>\<open>engine/block_pool.rs\<close>: the physical block pool. The free list is the \<^verbatim>\<open>VecDeque\<close> in queue
  order, the used set a set of block ids, and the prefix-cache index a map from chained hashes
  to buckets of block ids. The xxhash-64 function of the \<^verbatim>\<open>twox_hash\<close> crate is the parameter
  \<open>xxh\<close>, a function of the bytes written to the hasher; nothing is assumed of it, so every
  result holds with arbitrary collisions.

  An operation that mutates the pool returns its outcome together with the pool (and the
  sequences) as they are when it returns, on the error paths too: that a failed operation
  leaves them unchanged is a theorem, not a modelling choice. \<^verbatim>\<open>deallocate_batch\<close> validates the
  release counts in the iteration order of a \<^verbatim>\<open>HashMap\<close>, which Rust leaves open; the model
  takes the order of first occurrence, which decides only which error is reported.
\<close>

section \<open>Data\<close>

datatype block_pool_error =
    FreeBlockOutOfRange nat
  | FreeBlockInconsistent nat
  | NoFreeBlocks
  | AlreadyHasBlockTable
  | CachedCountExceeds nat nat
  | CachedHashNotFound
  | CachedBlockOutOfRange nat
  | CachedBlockRepeated nat
  | UsedCachedBlockUnreferenced nat
  | CachedRefCountOverflow nat
  | CachedBlockInconsistent nat
  | RequiredFreeCountOverflow
  | RepeatedInSequence nat nat
  | ReleaseCountOverflow nat
  | ReleaseOutOfRange nat
  | DoubleFree nat
  | RefCountTooSmall nat nat nat
  | DeallocationInconsistent nat
  | MoreAllocatedThanRequired nat
  | MissingBlocks nat nat

text \<open>The complete token chain that identifies one cached logical prefix block.\<close>

datatype prefix_cache_identity =
  PrefixCacheIdentity (parent: "prefix_cache_identity option") (identity_tokens: "token list")

record block =
  block_id :: nat
  ref_count :: nat
  block_hash :: i64
  cached_tokens :: "token list"
  prefix_identity :: "prefix_cache_identity option"

record block_pool =
  block_size :: nat
  blocks :: "block list"
  hash_to_block_id :: "i64 \<Rightarrow> nat list option"
  free_block_ids :: "nat list"
  used_block_ids :: "nat set"
  prefix_cache_enabled :: bool

definition identity_extend ::
    "prefix_cache_identity option \<Rightarrow> token list \<Rightarrow> prefix_cache_identity" where
  "identity_extend p ts = PrefixCacheIdentity p ts"

definition block_new :: "nat \<Rightarrow> block" where
  "block_new i = \<lparr>block_id = i, ref_count = 0, block_hash = - 1, cached_tokens = [],
                  prefix_identity = None\<rparr>"

definition block_update :: "i64 \<Rightarrow> token list \<Rightarrow> prefix_cache_identity \<Rightarrow> block \<Rightarrow> block" where
  "block_update h ts ident b =
     b\<lparr>block_hash := h, cached_tokens := ts, prefix_identity := Some ident\<rparr>"

definition block_reset :: "block \<Rightarrow> block" where
  "block_reset b =
     b\<lparr>ref_count := 1, block_hash := - 1, cached_tokens := [], prefix_identity := None\<rparr>"

definition bp_new_inner :: "nat \<Rightarrow> nat \<Rightarrow> bool \<Rightarrow> block_pool" where
  "bp_new_inner n bs enabled = \<lparr>
     block_size = bs, blocks = map block_new [0..<n], hash_to_block_id = (\<lambda>_. None),
     free_block_ids = [0..<n], used_block_ids = {}, prefix_cache_enabled = enabled\<rparr>"

definition bp_new :: "nat \<Rightarrow> nat \<Rightarrow> block_pool" where
  "bp_new n bs = bp_new_inner n bs True"

abbreviation modify_block :: "nat \<Rightarrow> (block \<Rightarrow> block) \<Rightarrow> block_pool \<Rightarrow> block_pool" where
  "modify_block i f p \<equiv> p\<lparr>blocks := (blocks p)[i := f (blocks p ! i)]\<rparr>"

section \<open>Hashing and the prefix-cache index\<close>

type_synonym hasher = "8 word list \<Rightarrow> 64 word"

definition compute_hash :: "hasher \<Rightarrow> token list \<Rightarrow> i64 \<Rightarrow> i64" where
  "compute_hash xxh ts prefix =
     xxh ((if prefix \<noteq> - 1 then le_bytes64 prefix else []) @ concat (map le_bytes32 ts))"

definition validate_free_block :: "block_pool \<Rightarrow> nat \<Rightarrow> (block_pool_error, unit) outcome" where
  "validate_free_block p i =
     (if \<not> i < length (blocks p) then Error (FreeBlockOutOfRange i)
      else if ref_count (blocks p ! i) \<noteq> 0 \<or> i \<in> used_block_ids p
      then Error (FreeBlockInconsistent i)
      else Ok ())"

definition cache_entry_matches ::
    "block_pool \<Rightarrow> i64 \<Rightarrow> prefix_cache_identity \<Rightarrow> nat \<Rightarrow> bool" where
  "cache_entry_matches p h ident i \<longleftrightarrow>
     i < length (blocks p) \<and> block_hash (blocks p ! i) = h
     \<and> prefix_identity (blocks p ! i) = Some ident
     \<and> cached_tokens (blocks p ! i) = identity_tokens ident"

definition cached_block_id :: "block_pool \<Rightarrow> i64 \<Rightarrow> prefix_cache_identity \<Rightarrow> nat option" where
  "cached_block_id p h ident =
     (case hash_to_block_id p h of
        None \<Rightarrow> None
      | Some ids \<Rightarrow> max_by_key (\<lambda>i. i \<in> used_block_ids p) (filter (cache_entry_matches p h ident) ids))"

text \<open>The loop of \<^verbatim>\<open>cached_prefix_block_ids\<close>, with \<open>n\<close> iterations left at block index \<open>i\<close>.\<close>

fun cached_prefix_loop ::
    "hasher \<Rightarrow> block_pool \<Rightarrow> sequence \<Rightarrow> nat \<Rightarrow> nat \<Rightarrow> i64 \<Rightarrow> prefix_cache_identity option
     \<Rightarrow> (block_pool_error, nat list) outcome" where
  "cached_prefix_loop xxh p s 0 i h ident = Ok []"
| "cached_prefix_loop xxh p s (Suc n) i h ident =
     rbind (seq_block s i) (\<lambda>ts.
       let h' = compute_hash xxh ts h; ident' = identity_extend ident ts
       in case cached_block_id p h' ident' of
            None \<Rightarrow> Ok []
          | Some b \<Rightarrow> rbind (cached_prefix_loop xxh p s n (Suc i) h' (Some ident'))
                        (\<lambda>bs. Ok (b # bs)))"

definition cached_prefix_block_ids ::
    "hasher \<Rightarrow> block_pool \<Rightarrow> sequence \<Rightarrow> nat \<Rightarrow> (block_pool_error, nat list) outcome" where
  "cached_prefix_block_ids xxh p s max_blocks = cached_prefix_loop xxh p s max_blocks 0 (- 1) None"

definition remove_cache_entry :: "i64 \<Rightarrow> nat \<Rightarrow> block_pool \<Rightarrow> block_pool" where
  "remove_cache_entry h i p =
     (case hash_to_block_id p h of
        None \<Rightarrow> p
      | Some ids \<Rightarrow>
          let ids' = filter (\<lambda>j. j \<noteq> i) ids
          in p\<lparr>hash_to_block_id := (hash_to_block_id p)(h := if ids' = [] then None else Some ids')\<rparr>)"

definition index_cache_entry :: "i64 \<Rightarrow> nat \<Rightarrow> block_pool \<Rightarrow> block_pool" where
  "index_cache_entry h i p =
     (let ids = (case hash_to_block_id p h of None \<Rightarrow> [] | Some ids \<Rightarrow> ids)
      in p\<lparr>hash_to_block_id := (hash_to_block_id p)(h := Some (filter (\<lambda>j. j \<noteq> i) ids @ [i]))\<rparr>)"

section \<open>Allocation\<close>

definition allocate_block_private :: "block_pool \<Rightarrow> (block_pool_error, nat) outcome \<times> block_pool" where
  "allocate_block_private p =
     (case free_block_ids p of
        [] \<Rightarrow> (Error NoFreeBlocks, p)
      | i # rest \<Rightarrow>
          (case validate_free_block p i of
             Inl e \<Rightarrow> (Inl e, p)
           | Inr _ \<Rightarrow>
               let old_hash = block_hash (blocks p ! i);
                   p1 = p\<lparr>free_block_ids := rest\<rparr>;
                   p2 = (if old_hash \<noteq> - 1 then remove_cache_entry old_hash i p1 else p1);
                   p3 = modify_block i block_reset p2
               in (Ok i, p3\<lparr>used_block_ids := insert i (used_block_ids p3)\<rparr>)))"

definition bp_can_allocate ::
    "hasher \<Rightarrow> block_pool \<Rightarrow> sequence \<Rightarrow> (block_pool_error, nat option) outcome" where
  "bp_can_allocate xxh p s =
     (if num_blocks s = 0 then Ok (Some 0)
      else if \<not> prefix_cache_enabled p
      then Ok (if num_blocks s \<le> length (free_block_ids p) then Some 0 else None)
      else rbind (cached_prefix_block_ids xxh p s (num_blocks s - 1)) (\<lambda>cached.
        let num_new_blocks = num_blocks s - length (filter (\<lambda>i. i \<in> used_block_ids p) cached)
        in if length (free_block_ids p) < num_new_blocks then Ok None
           else Ok (Some (length cached))))"

text \<open>The validation loop over the cached ids; \<open>seen\<close> is \<^verbatim>\<open>distinct_cached_block_ids\<close>.\<close>

fun check_cached :: "block_pool \<Rightarrow> nat set \<Rightarrow> nat list \<Rightarrow> (block_pool_error, unit) outcome" where
  "check_cached p seen [] = Ok ()"
| "check_cached p seen (i # is) =
     (if \<not> i < length (blocks p) then Error (CachedBlockOutOfRange i)
      else if i \<in> seen then Error (CachedBlockRepeated i)
      else if i \<in> used_block_ids p then
        (if ref_count (blocks p ! i) = 0 then Error (UsedCachedBlockUnreferenced i)
         else case checked_add (ref_count (blocks p ! i)) 1 of
                None \<Rightarrow> Error (CachedRefCountOverflow i)
              | Some _ \<Rightarrow> check_cached p (insert i seen) is)
      else if ref_count (blocks p ! i) \<noteq> 0 \<or> i \<notin> set (free_block_ids p)
      then Error (CachedBlockInconsistent i)
      else check_cached p (insert i seen) is)"

text \<open>The validation loop over the ids about to be taken from the free list.\<close>

fun check_free_distinct :: "block_pool \<Rightarrow> nat set \<Rightarrow> nat list \<Rightarrow> (block_pool_error, unit) outcome" where
  "check_free_distinct p seen [] = Ok ()"
| "check_free_distinct p seen (i # is) =
     (if i \<in> seen then Error (FreeBlockInconsistent i)
      else rbind (validate_free_block p i) (\<lambda>_. check_free_distinct p (insert i seen) is))"

text \<open>Take over one cached block: share it if it is used, else move it from free to used.\<close>

definition acquire_cached :: "nat \<Rightarrow> block_pool \<Rightarrow> block_pool" where
  "acquire_cached i p =
     (if i \<in> used_block_ids p
      then modify_block i (\<lambda>b. b\<lparr>ref_count := ref_count b + 1\<rparr>) p
      else (modify_block i (\<lambda>b. b\<lparr>ref_count := 1\<rparr>) p)
             \<lparr>free_block_ids := filter (\<lambda>j. j \<noteq> i) (free_block_ids p),
              used_block_ids := insert i (used_block_ids p)\<rparr>)"

abbreviation push_block :: "nat \<Rightarrow> sequence \<Rightarrow> sequence" where
  "push_block i s \<equiv> s\<lparr>block_table := block_table s @ [i]\<rparr>"

fun acquire_cached_loop :: "nat list \<Rightarrow> block_pool \<Rightarrow> sequence \<Rightarrow> block_pool \<times> sequence" where
  "acquire_cached_loop [] p s = (p, s)"
| "acquire_cached_loop (i # is) p s = acquire_cached_loop is (acquire_cached i p) (push_block i s)"

fun allocate_new_loop ::
    "nat \<Rightarrow> block_pool \<Rightarrow> sequence \<Rightarrow> (block_pool_error, unit) outcome \<times> block_pool \<times> sequence" where
  "allocate_new_loop 0 p s = (Ok (), p, s)"
| "allocate_new_loop (Suc n) p s =
     (case allocate_block_private p of
        (Inl e, p') \<Rightarrow> (Inl e, p', s)
      | (Inr i, p') \<Rightarrow> allocate_new_loop n p' (push_block i s))"

text \<open>The part of \<^verbatim>\<open>allocate\<close> that only validates; it yields the cached block ids.\<close>

definition allocate_validate ::
    "hasher \<Rightarrow> block_pool \<Rightarrow> sequence \<Rightarrow> nat \<Rightarrow> (block_pool_error, nat list) outcome" where
  "allocate_validate xxh p s k =
     (if block_table s \<noteq> [] then Error AlreadyHasBlockTable
      else if k > num_blocks s then Error (CachedCountExceeds k (num_blocks s))
      else rbind (cached_prefix_block_ids xxh p s k) (\<lambda>cached.
        if length cached \<noteq> k then Error CachedHashNotFound
        else rbind (check_cached p {} cached) (\<lambda>_.
          let required_uncached = num_blocks s - k;
              cached_free = length (filter (\<lambda>i. i \<notin> used_block_ids p) cached)
          in case checked_add required_uncached cached_free of
               None \<Rightarrow> Error RequiredFreeCountOverflow
             | Some required_free \<Rightarrow>
                 if length (free_block_ids p) < required_free then Error NoFreeBlocks
                 else let new_ids = take required_uncached
                            (filter (\<lambda>i. i \<notin> set cached) (free_block_ids p))
                      in if length new_ids \<noteq> required_uncached then Error NoFreeBlocks
                         else rbind (check_free_distinct p {} new_ids) (\<lambda>_. Ok cached))))"

definition bp_allocate ::
    "hasher \<Rightarrow> block_pool \<Rightarrow> sequence \<Rightarrow> nat
     \<Rightarrow> (block_pool_error, unit) outcome \<times> block_pool \<times> sequence" where
  "bp_allocate xxh p s k =
     (case allocate_validate xxh p s k of
        Inl e \<Rightarrow> (Inl e, p, s)
      | Inr cached \<Rightarrow>
          (case acquire_cached_loop cached p s of (p1, s1) \<Rightarrow>
             (case allocate_new_loop (num_blocks s - k) p1 s1 of
                (Inl e, p2, s2) \<Rightarrow> (Inl e, p2, s2)
              | (Inr _, p2, s2) \<Rightarrow>
                  (Ok (), p2, s2\<lparr>num_cached_tokens := k * block_size p\<rparr>))))"

section \<open>Release\<close>

text \<open>Count the releases of one block table, walked in reverse.\<close>

fun count_releases ::
    "nat \<Rightarrow> nat set \<Rightarrow> (nat \<Rightarrow> nat option) \<times> nat list \<Rightarrow> nat list
     \<Rightarrow> (block_pool_error, (nat \<Rightarrow> nat option) \<times> nat list) outcome" where
  "count_releases sid seen acc [] = Ok acc"
| "count_releases sid seen (counts, order) (i # is) =
     (if i \<in> seen then Error (RepeatedInSequence i sid)
      else let order' = (if counts i = None then order @ [i] else order);
               old = (case counts i of None \<Rightarrow> 0 | Some c \<Rightarrow> c)
           in case checked_add old 1 of
                None \<Rightarrow> Error (ReleaseCountOverflow i)
              | Some c \<Rightarrow> count_releases sid (insert i seen) (counts(i := Some c), order') is)"

fun count_all_releases ::
    "(nat \<Rightarrow> nat option) \<times> nat list \<Rightarrow> sequence list
     \<Rightarrow> (block_pool_error, (nat \<Rightarrow> nat option) \<times> nat list) outcome" where
  "count_all_releases acc [] = Ok acc"
| "count_all_releases acc (s # ss) =
     rbind (count_releases (seq_id s) {} acc (rev (block_table s))) (\<lambda>acc'. count_all_releases acc' ss)"

definition check_release :: "block_pool \<Rightarrow> nat \<Rightarrow> nat \<Rightarrow> (block_pool_error, unit) outcome" where
  "check_release p i c =
     (if \<not> i < length (blocks p) then Error (ReleaseOutOfRange i)
      else if ref_count (blocks p ! i) = 0 then Error (DoubleFree i)
      else if ref_count (blocks p ! i) < c then Error (RefCountTooSmall i (ref_count (blocks p ! i)) c)
      else if i \<notin> used_block_ids p \<or> i \<in> set (free_block_ids p)
      then Error (DeallocationInconsistent i)
      else Ok ())"

fun check_releases ::
    "block_pool \<Rightarrow> (nat \<Rightarrow> nat option) \<Rightarrow> nat list \<Rightarrow> (block_pool_error, unit) outcome" where
  "check_releases p counts [] = Ok ()"
| "check_releases p counts (i # is) =
     rbind (check_release p i (the (counts i))) (\<lambda>_. check_releases p counts is)"

definition release_block :: "nat \<Rightarrow> nat \<Rightarrow> block_pool \<Rightarrow> block_pool" where
  "release_block i c p =
     (let p1 = modify_block i (\<lambda>b. b\<lparr>ref_count := ref_count b - c\<rparr>) p
      in if ref_count (blocks p1 ! i) = 0
         then p1\<lparr>used_block_ids := used_block_ids p1 - {i}, free_block_ids := free_block_ids p1 @ [i]\<rparr>
         else p1)"

fun release_loop :: "(nat \<Rightarrow> nat option) \<Rightarrow> nat list \<Rightarrow> block_pool \<Rightarrow> block_pool" where
  "release_loop counts [] p = p"
| "release_loop counts (i # is) p = release_loop counts is (release_block i (the (counts i)) p)"

abbreviation clear_blocks :: "sequence \<Rightarrow> sequence" where
  "clear_blocks s \<equiv> s\<lparr>num_cached_tokens := 0, block_table := []\<rparr>"

definition bp_deallocate_batch ::
    "block_pool \<Rightarrow> sequence list \<Rightarrow> (block_pool_error, unit) outcome \<times> block_pool \<times> sequence list" where
  "bp_deallocate_batch p ss =
     (case count_all_releases ((\<lambda>_. None), []) ss of
        Inl e \<Rightarrow> (Inl e, p, ss)
      | Inr (counts, order) \<Rightarrow>
          (case check_releases p counts order of
             Inl e \<Rightarrow> (Inl e, p, ss)
           | Inr _ \<Rightarrow> (Ok (), release_loop counts order p, map clear_blocks ss)))"

definition bp_deallocate ::
    "block_pool \<Rightarrow> sequence \<Rightarrow> (block_pool_error, unit) outcome \<times> block_pool \<times> sequence" where
  "bp_deallocate p s =
     (case bp_deallocate_batch p [s] of (r, p', ss) \<Rightarrow> (r, p', hd ss))"

section \<open>Decode append\<close>

text \<open>\<^verbatim>\<open>can_append_batch\<close>: the loop returns false early, else compares the total.\<close>

fun required_append_blocks :: "nat \<Rightarrow> sequence list \<Rightarrow> nat option" where
  "required_append_blocks required [] = Some required"
| "required_append_blocks required (s # ss) =
     (case checked_sub (num_blocks s) (length (block_table s)) of
        None \<Rightarrow> None
      | Some missing \<Rightarrow>
          if missing > 1 then None
          else case checked_add required missing of
                 None \<Rightarrow> None
               | Some required' \<Rightarrow> required_append_blocks required' ss)"

definition bp_can_append_batch :: "block_pool \<Rightarrow> sequence list \<Rightarrow> bool" where
  "bp_can_append_batch p ss =
     (case required_append_blocks 0 ss of
        None \<Rightarrow> False
      | Some required \<Rightarrow> required \<le> length (free_block_ids p))"

definition bp_can_append :: "block_pool \<Rightarrow> sequence \<Rightarrow> bool" where
  "bp_can_append p s = bp_can_append_batch p [s]"

fun append_indices :: "nat \<Rightarrow> sequence list \<Rightarrow> (block_pool_error, nat list) outcome" where
  "append_indices i [] = Ok []"
| "append_indices i (s # ss) =
     (case checked_sub (num_blocks s) (length (block_table s)) of
        None \<Rightarrow> Error (MoreAllocatedThanRequired (seq_id s))
      | Some missing \<Rightarrow>
          if missing > 1 then Error (MissingBlocks (seq_id s) missing)
          else rbind (append_indices (Suc i) ss)
                 (\<lambda>is. Ok (if missing = 1 then i # is else is)))"

fun append_blocks_loop ::
    "nat list \<Rightarrow> block_pool \<Rightarrow> sequence list
     \<Rightarrow> (block_pool_error, unit) outcome \<times> block_pool \<times> sequence list" where
  "append_blocks_loop [] p ss = (Ok (), p, ss)"
| "append_blocks_loop (i # is) p ss =
     (case allocate_block_private p of
        (Inl e, p') \<Rightarrow> (Inl e, p', ss)
      | (Inr b, p') \<Rightarrow> append_blocks_loop is p' (ss[i := push_block b (ss ! i)]))"

definition bp_may_append_batch ::
    "block_pool \<Rightarrow> sequence list \<Rightarrow> (block_pool_error, unit) outcome \<times> block_pool \<times> sequence list" where
  "bp_may_append_batch p ss =
     (case append_indices 0 ss of
        Inl e \<Rightarrow> (Inl e, p, ss)
      | Inr is \<Rightarrow>
          if length (free_block_ids p) < length is then (Error NoFreeBlocks, p, ss)
          else (case check_free_distinct p {} (take (length is) (free_block_ids p)) of
                  Inl e \<Rightarrow> (Inl e, p, ss)
                | Inr _ \<Rightarrow> append_blocks_loop is p ss))"

definition bp_may_append ::
    "block_pool \<Rightarrow> sequence \<Rightarrow> (block_pool_error, unit) outcome \<times> block_pool \<times> sequence" where
  "bp_may_append p s = (case bp_may_append_batch p [s] of (r, p', ss) \<Rightarrow> (r, p', hd ss))"

section \<open>Publishing filled blocks\<close>

text \<open>The reads of one iteration of \<^verbatim>\<open>hash_blocks\<close>, each of which can panic: the block id at
  table index \<open>i\<close>, the tokens of logical block \<open>i\<close>, and the physical block.\<close>

definition hash_target ::
    "block_pool \<Rightarrow> sequence \<Rightarrow> nat \<Rightarrow> (block_pool_error, nat \<times> token list) outcome" where
  "hash_target p s i =
     rbind (index (block_table s) i) (\<lambda>b.
     rbind (seq_block s i) (\<lambda>ts.
     rbind (index (blocks p) b) (\<lambda>_. Ok (b, ts))))"

text \<open>The writes of one iteration.\<close>

definition publish_block ::
    "nat \<Rightarrow> i64 \<Rightarrow> token list \<Rightarrow> prefix_cache_identity \<Rightarrow> block_pool \<Rightarrow> block_pool" where
  "publish_block b h ts ident p =
     (let old_hash = block_hash (blocks p ! b);
          p1 = (if old_hash \<noteq> - 1 \<and> old_hash \<noteq> h then remove_cache_entry old_hash b p else p)
      in index_cache_entry h b (modify_block b (block_update h ts ident) p1))"

text \<open>The loop of \<^verbatim>\<open>hash_blocks\<close> with \<open>n\<close> iterations left at block index \<open>i\<close>.\<close>

fun hash_blocks_loop ::
    "hasher \<Rightarrow> nat \<Rightarrow> nat \<Rightarrow> i64 \<Rightarrow> prefix_cache_identity option \<Rightarrow> block_pool \<Rightarrow> sequence
     \<Rightarrow> (block_pool_error, unit) outcome \<times> block_pool" where
  "hash_blocks_loop xxh 0 i h ident p s = (Ok (), p)"
| "hash_blocks_loop xxh (Suc n) i h ident p s =
     (case hash_target p s i of
        Inl e \<Rightarrow> (Inl e, p)
      | Inr (b, ts) \<Rightarrow>
          let h' = compute_hash xxh ts h;
              ident' = identity_extend ident ts
          in hash_blocks_loop xxh n (Suc i) h' (Some ident') (publish_block b h' ts ident' p) s)"

definition bp_hash_blocks ::
    "hasher \<Rightarrow> block_pool \<Rightarrow> sequence \<Rightarrow> (block_pool_error, unit) outcome \<times> block_pool" where
  "bp_hash_blocks xxh p s =
     (if \<not> prefix_cache_enabled p then (Ok (), p)
      else if block_size p = 0 then (Panicked, p)
      else
        let start = num_cached_tokens s div block_size p;
            stop = (num_cached_tokens s + num_scheduled_tokens s) div block_size p
        in if start \<ge> stop then (Ok (), p)
           else if start > 0
           then (case rbind (index (block_table s) (start - 1)) (index (blocks p)) of
                   Inl e \<Rightarrow> (Inl e, p)
                 | Inr blk \<Rightarrow> hash_blocks_loop xxh (stop - start) start (block_hash blk)
                                (prefix_identity blk) p s)
           else hash_blocks_loop xxh (stop - start) start (- 1) None p s)"

definition bp_num_free_blocks :: "block_pool \<Rightarrow> nat" where
  "bp_num_free_blocks p = length (free_block_ids p)"

definition bp_num_blocks :: "block_pool \<Rightarrow> nat" where
  "bp_num_blocks p = length (blocks p)"

end
