(* ===== verification/Ownership.thy ===== *)
theory Ownership
  imports Block_Pool
begin

text \<open>
  Ownership of physical blocks. \<open>pool_inv\<close> relates the free list, the used set and the
  reference counts; \<open>owns p T\<close> adds that the reference count of every block is the number of
  block tables in \<open>T\<close> that contain it, where \<open>T\<close> is the multiset of the tables of all live
  sequences. One lemma per operation of the pool shows that it keeps \<open>owns\<close>.
\<close>

section \<open>Invariants\<close>

definition pool_inv :: "block_pool \<Rightarrow> bool" where
  "pool_inv p \<longleftrightarrow>
     distinct (free_block_ids p)
     \<and> set (free_block_ids p) \<inter> used_block_ids p = {}
     \<and> set (free_block_ids p) \<union> used_block_ids p = {..<length (blocks p)}
     \<and> (\<forall>i < length (blocks p). ref_count (blocks p ! i) = 0 \<longleftrightarrow> i \<in> set (free_block_ids p))"

text \<open>The number of tables that contain a block.\<close>

definition tcount :: "nat list multiset \<Rightarrow> nat \<Rightarrow> nat" where
  "tcount T i = size (filter_mset (\<lambda>t. i \<in> set t) T)"

definition owns :: "block_pool \<Rightarrow> nat list multiset \<Rightarrow> bool" where
  "owns p T \<longleftrightarrow>
     pool_inv p
     \<and> size T < usize_bound
     \<and> (\<forall>t \<in># T. distinct t \<and> set t \<subseteq> {..<length (blocks p)})
     \<and> (\<forall>i < length (blocks p). ref_count (blocks p ! i) = tcount T i)"

lemma pool_inv_new: "pool_inv (bp_new_inner n bs e)"
  by (auto simp: pool_inv_def bp_new_inner_def block_new_def)

lemma owns_new: "owns (bp_new_inner n bs e) {#}"
  by (simp add: owns_def pool_inv_new tcount_def usize_bound_def)
     (simp add: bp_new_inner_def block_new_def)

lemma tcount_add_mset [simp]:
  "tcount (add_mset t T) i = (if i \<in> set t then 1 else 0) + tcount T i"
  by (simp add: tcount_def)

lemma tcount_empty [simp]: "tcount {#} i = 0"
  by (simp add: tcount_def)

lemma tcount_union [simp]: "tcount (T + U) i = tcount T i + tcount U i"
  by (simp add: tcount_def)

lemma tcount_le_size: "tcount T i \<le> size T"
  by (simp add: tcount_def size_filter_mset_lesseq)

lemma tcount_pos_iff: "0 < tcount T i \<longleftrightarrow> (\<exists>t \<in># T. i \<in> set t)"
  by (auto simp: tcount_def nonempty_has_size [symmetric])

lemma owns_pool_inv: "owns p T \<Longrightarrow> pool_inv p"
  by (simp add: owns_def)

lemma owns_table:
  assumes "owns p T" "t \<in># T"
  shows "distinct t" "set t \<subseteq> {..<length (blocks p)}"
  using assms by (auto simp: owns_def)

lemma owns_ref_count: "owns p T \<Longrightarrow> i < length (blocks p) \<Longrightarrow> ref_count (blocks p ! i) = tcount T i"
  by (simp add: owns_def)

lemma owns_free_not_in_table:
  assumes "owns p T" "i \<in> set (free_block_ids p)" "t \<in># T"
  shows "i \<notin> set t"
proof
  assume i: "i \<in> set t"
  with assms have "i < length (blocks p)" by (auto simp: owns_def)
  with assms have "tcount T i = 0" by (auto simp: owns_def pool_inv_def)
  with i assms(3) show False by (metis tcount_pos_iff less_numeral_extra(3))
qed

lemma owns_used_iff:
  assumes "owns p T"
  shows "i \<in> used_block_ids p \<longleftrightarrow> i < length (blocks p) \<and> (\<exists>t \<in># T. i \<in> set t)"
proof -
  from assms have "i \<in> used_block_ids p \<longleftrightarrow> i < length (blocks p) \<and> i \<notin> set (free_block_ids p)"
    by (auto simp: owns_def pool_inv_def)
  moreover from assms have "i < length (blocks p) \<Longrightarrow> i \<notin> set (free_block_ids p) \<longleftrightarrow> 0 < tcount T i"
    by (auto simp: owns_def pool_inv_def)
  ultimately show ?thesis by (auto simp: tcount_pos_iff)
qed

section \<open>Taking a block from the free list\<close>

text \<open>What \<^verbatim>\<open>allocate_block_private\<close> does on a consistent pool.\<close>

definition took_free :: "nat \<Rightarrow> block_pool \<Rightarrow> block_pool \<Rightarrow> bool" where
  "took_free i p p' \<longleftrightarrow>
     free_block_ids p = i # free_block_ids p'
     \<and> blocks p' = (blocks p)[i := block_reset (blocks p ! i)]
     \<and> used_block_ids p' = insert i (used_block_ids p)
     \<and> block_size p' = block_size p \<and> prefix_cache_enabled p' = prefix_cache_enabled p"

lemma remove_cache_entry_frame [simp, frame_simps]:
  "blocks (remove_cache_entry h i p) = blocks p"
  "free_block_ids (remove_cache_entry h i p) = free_block_ids p"
  "used_block_ids (remove_cache_entry h i p) = used_block_ids p"
  "block_size (remove_cache_entry h i p) = block_size p"
  "prefix_cache_enabled (remove_cache_entry h i p) = prefix_cache_enabled p"
  by (auto simp: remove_cache_entry_def Let_def split: option.splits)

lemma index_cache_entry_frame [simp, frame_simps]:
  "blocks (index_cache_entry h i p) = blocks p"
  "free_block_ids (index_cache_entry h i p) = free_block_ids p"
  "used_block_ids (index_cache_entry h i p) = used_block_ids p"
  "block_size (index_cache_entry h i p) = block_size p"
  "prefix_cache_enabled (index_cache_entry h i p) = prefix_cache_enabled p"
  by (auto simp: index_cache_entry_def Let_def)

lemma validate_free_block_Ok:
  "pool_inv p \<Longrightarrow> i \<in> set (free_block_ids p) \<Longrightarrow> validate_free_block p i = Ok ()"
  by (auto simp: validate_free_block_def pool_inv_def)

lemma allocate_block_private_Ok:
  assumes "pool_inv p" "free_block_ids p = i # rest"
  shows "\<exists>p'. allocate_block_private p = (Ok i, p') \<and> took_free i p p'"
  using assms validate_free_block_Ok [of p i]
  by (auto simp: allocate_block_private_def took_free_def Let_def)

lemma allocate_block_private_err:
  "allocate_block_private p = (Inl e, p') \<Longrightarrow> p' = p"
  by (auto simp: allocate_block_private_def Let_def split: list.splits sum.splits if_splits)

lemma pool_inv_took_free:
  assumes "pool_inv p" "took_free i p p'"
  shows "pool_inv p'"
proof -
  from assms have d: "distinct (i # free_block_ids p')"
    and all: "insert i (set (free_block_ids p')) \<union> used_block_ids p = {..<length (blocks p)}"
    and disj: "insert i (set (free_block_ids p')) \<inter> used_block_ids p = {}"
    by (simp_all add: pool_inv_def took_free_def)
  have i: "i < length (blocks p)" using all by auto
  have refs: "ref_count (blocks p' ! j) = 0 \<longleftrightarrow> j \<in> set (free_block_ids p')"
    if "j < length (blocks p)" for j
  proof (cases "j = i")
    case True
    then show ?thesis using assms(2) i d by (simp add: took_free_def block_reset_def)
  next
    case False
    then show ?thesis using assms that by (simp add: pool_inv_def took_free_def)
  qed
  show ?thesis unfolding pool_inv_def
  proof (intro conjI)
    show "distinct (free_block_ids p')" using d by simp
    show "set (free_block_ids p') \<inter> used_block_ids p' = {}"
      using assms(2) d disj by (auto simp: took_free_def)
    show "set (free_block_ids p') \<union> used_block_ids p' = {..<length (blocks p')}"
      using assms(2) all by (auto simp: took_free_def)
    show "\<forall>j < length (blocks p'). ref_count (blocks p' ! j) = 0 \<longleftrightarrow> j \<in> set (free_block_ids p')"
      using refs assms(2) by (simp add: took_free_def)
  qed
qed

lemma owns_took_free:
  assumes "owns p (add_mset t T)" "took_free i p p'"
  shows "owns p' (add_mset (t @ [i]) T)"
proof -
  have free: "i \<in> set (free_block_ids p)" using assms(2) by (simp add: took_free_def)
  have inv: "pool_inv p" using assms(1) by (rule owns_pool_inv)
  have i: "i < length (blocks p)" using inv free by (auto simp: pool_inv_def)
  have notin: "i \<notin> set u" if "u \<in># add_mset t T" for u
    using owns_free_not_in_table [OF assms(1) free that] .
  have zero: "tcount T i = 0" using notin tcount_pos_iff [of T i] by auto
  have refs: "ref_count (blocks p' ! j) = tcount (add_mset (t @ [i]) T) j"
    if "j < length (blocks p)" for j
    using that i zero assms notin [of t]
    by (cases "j = i") (simp_all add: owns_def took_free_def block_reset_def)
  show ?thesis
    using assms pool_inv_took_free [OF inv assms(2)] refs notin [of t] i
    by (auto simp: owns_def took_free_def)
qed

section \<open>Sharing a cached block\<close>

lemma acquire_cached_frame [simp, frame_simps]:
  "length (blocks (acquire_cached i p)) = length (blocks p)"
  "block_size (acquire_cached i p) = block_size p"
  "prefix_cache_enabled (acquire_cached i p) = prefix_cache_enabled p"
  "hash_to_block_id (acquire_cached i p) = hash_to_block_id p"
  by (simp_all add: acquire_cached_def)

lemma pool_inv_acquire_cached:
  assumes "pool_inv p" "i < length (blocks p)"
  shows "pool_inv (acquire_cached i p)"
proof (cases "i \<in> used_block_ids p")
  case True
  then have "i \<notin> set (free_block_ids p)" using assms by (auto simp: pool_inv_def)
  with True assms show ?thesis
    by (auto simp: pool_inv_def acquire_cached_def nth_list_update)
next
  case False
  then show ?thesis using assms
    by (auto simp: pool_inv_def acquire_cached_def nth_list_update)
qed

lemma owns_acquire_cached:
  assumes "owns p (add_mset t T)" "i < length (blocks p)" "i \<notin> set t"
  shows "owns (acquire_cached i p) (add_mset (t @ [i]) T)"
proof -
  have inv: "pool_inv p" using assms(1) by (rule owns_pool_inv)
  have old: "ref_count (blocks p ! i) = tcount T i"
    using owns_ref_count [OF assms(1,2)] assms(3) by simp
  have free0: "i \<notin> used_block_ids p \<Longrightarrow> tcount T i = 0"
    using old inv assms(2) by (auto simp: pool_inv_def)
  have refs: "ref_count (blocks (acquire_cached i p) ! j) = tcount (add_mset (t @ [i]) T) j"
    if "j < length (blocks p)" for j
    using that assms old free0 by (auto simp: owns_def acquire_cached_def nth_list_update)
  show ?thesis
    using assms pool_inv_acquire_cached [OF inv assms(2)] refs by (auto simp: owns_def)
qed

lemma acquire_cached_loop_owns:
  assumes "owns p (add_mset (block_table s) T)" "set is \<subseteq> {..<length (blocks p)}"
    "distinct is" "set is \<inter> set (block_table s) = {}"
    "acquire_cached_loop is p s = (p', s')"
  shows "owns p' (add_mset (block_table s') T) \<and> s' = s\<lparr>block_table := block_table s @ is\<rparr>
    \<and> length (blocks p') = length (blocks p)"
  using assms
proof (induction "is" arbitrary: p s)
  case Nil
  then show ?case by simp
next
  case (Cons i "is")
  have "owns (acquire_cached i p) (add_mset (block_table (push_block i s)) T)"
    using Cons.prems owns_acquire_cached [of p "block_table s" T i] by simp
  then show ?case using Cons.IH [of "acquire_cached i p" "push_block i s"] Cons.prems by auto
qed

section \<open>Allocating a whole table\<close>

lemma allocate_new_loop_Ok:
  assumes "owns p (add_mset (block_table s) T)" "n \<le> length (free_block_ids p)"
  shows "\<exists>p'. allocate_new_loop n p s
             = (Ok (), p', s\<lparr>block_table := block_table s @ take n (free_block_ids p)\<rparr>)
           \<and> owns p' (add_mset (block_table s @ take n (free_block_ids p)) T)
           \<and> free_block_ids p' = drop n (free_block_ids p)
           \<and> length (blocks p') = length (blocks p)
           \<and> block_size p' = block_size p \<and> prefix_cache_enabled p' = prefix_cache_enabled p
           \<and> (\<forall>j < length (blocks p). j \<notin> set (take n (free_block_ids p))
                \<longrightarrow> blocks p' ! j = blocks p ! j)
           \<and> (\<forall>j \<in> set (take n (free_block_ids p)). prefix_identity (blocks p' ! j) = None)"
  using assms
proof (induction n arbitrary: p s)
  case 0
  then show ?case by simp
next
  case (Suc n)
  then obtain i rest where free: "free_block_ids p = i # rest" by (cases "free_block_ids p") auto
  have inv: "pool_inv p" using Suc.prems(1) by (rule owns_pool_inv)
  obtain p1 where p1: "allocate_block_private p = (Ok i, p1)" "took_free i p p1"
    using allocate_block_private_Ok [OF inv free] by blast
  have rest: "free_block_ids p1 = rest" using p1(2) free by (simp add: took_free_def)
  have i: "i < length (blocks p)" using inv free by (auto simp: pool_inv_def)
  have fresh: "i \<notin> set rest" using inv free by (simp add: pool_inv_def)
  have "owns p1 (add_mset (block_table (push_block i s)) T)"
    using owns_took_free [OF Suc.prems(1) p1(2)] by simp
  from Suc.IH [OF this] Suc.prems(2) free rest obtain p' where p':
    "allocate_new_loop n p1 (push_block i s)
       = (Ok (), p', s\<lparr>block_table := block_table s @ i # take n rest\<rparr>)"
    "owns p' (add_mset (block_table s @ i # take n rest) T)"
    "free_block_ids p' = drop n rest" "length (blocks p') = length (blocks p1)"
    "block_size p' = block_size p1" "prefix_cache_enabled p' = prefix_cache_enabled p1"
    "\<forall>j < length (blocks p1). j \<notin> set (take n rest) \<longrightarrow> blocks p' ! j = blocks p1 ! j"
    "\<forall>j \<in> set (take n rest). prefix_identity (blocks p' ! j) = None"
    by auto
  have "prefix_identity (blocks p' ! i) = None"
    using p'(7) p1(2) i fresh by (auto simp: took_free_def block_reset_def dest: in_set_takeD)
  moreover have "blocks p' ! j = blocks p ! j"
    if "j < length (blocks p)" "j \<notin> set (i # take n rest)" for j
    using that p'(7) p1(2) by (auto simp: took_free_def)
  ultimately show ?case
    using p1 p' free by (intro exI [of _ p']) (auto simp: took_free_def)
qed

text \<open>The part of a block that identifies its contents.\<close>

definition block_content :: "block \<Rightarrow> i64 \<times> token list \<times> prefix_cache_identity option" where
  "block_content b = (block_hash b, cached_tokens b, prefix_identity b)"

lemma block_content_eqD:
  "block_content a = block_content b \<Longrightarrow> prefix_identity a = prefix_identity b"
  by (simp add: block_content_def)

lemma check_cached_Ok:
  "check_cached p seen is = Ok () \<Longrightarrow>
     distinct is \<and> set is \<inter> seen = {} \<and> set is \<subseteq> {..<length (blocks p)}"
  by (induction p seen "is" rule: check_cached.induct) (auto split: if_splits option.splits)

lemma acquire_cached_content:
  "j < length (blocks p) \<Longrightarrow> block_content (blocks (acquire_cached i p) ! j) = block_content (blocks p ! j)"
  by (cases "i = j") (simp_all add: acquire_cached_def block_content_def)

lemma acquire_cached_loop_frame:
  assumes "acquire_cached_loop is p s = (p', s')"
  shows "length (blocks p') = length (blocks p) \<and> block_size p' = block_size p
    \<and> prefix_cache_enabled p' = prefix_cache_enabled p \<and> hash_to_block_id p' = hash_to_block_id p
    \<and> (\<forall>j < length (blocks p). block_content (blocks p' ! j) = block_content (blocks p ! j))"
  using assms
  by (induction "is" arbitrary: p s) (auto simp: acquire_cached_content)

lemma acquire_cached_free:
  "pool_inv p \<Longrightarrow> free_block_ids (acquire_cached i p) = filter (\<lambda>j. j \<noteq> i) (free_block_ids p)"
  by (auto simp: acquire_cached_def pool_inv_def intro!: filter_True [symmetric])

lemma acquire_cached_loop_free:
  assumes "pool_inv p" "set is \<subseteq> {..<length (blocks p)}" "acquire_cached_loop is p s = (p', s')"
  shows "free_block_ids p' = filter (\<lambda>j. j \<notin> set is) (free_block_ids p)"
  using assms
proof (induction "is" arbitrary: p s)
  case Nil
  then show ?case by simp
next
  case (Cons i "is")
  have "pool_inv (acquire_cached i p)" using Cons.prems by (auto intro: pool_inv_acquire_cached)
  with Cons.IH [of "acquire_cached i p" "push_block i s"] Cons.prems show ?case
    by (simp add: acquire_cached_free conj_commute cong: conj_cong)
qed

lemma allocate_validate_Ok:
  assumes "allocate_validate xxh p s k = Ok cached"
  shows "block_table s = []" "cached_prefix_block_ids xxh p s k = Ok cached" "length cached = k"
    "k \<le> num_blocks s" "check_cached p {} cached = Ok ()"
    "num_blocks s - k \<le> length (filter (\<lambda>i. i \<notin> set cached) (free_block_ids p))"
  using assms
  by (auto simp: allocate_validate_def rbind_Ok_iff Let_def split: if_splits option.splits)

text \<open>What a successful \<^verbatim>\<open>allocate\<close> does, as one elimination rule.\<close>

lemma bp_allocate_OkE:
  assumes own: "owns p (add_mset [] T)" and ok: "allocate_validate xxh p s k = Ok cached"
  obtains news p' where
    "bp_allocate xxh p s k
       = (Ok (), p', s\<lparr>block_table := cached @ news, num_cached_tokens := k * block_size p\<rparr>)"
    "k + length news = num_blocks s" "set news \<subseteq> set (free_block_ids p)"
    "set news \<inter> set cached = {}" "owns p' (add_mset (cached @ news) T)"
    "length (blocks p') = length (blocks p)" "block_size p' = block_size p"
    "prefix_cache_enabled p' = prefix_cache_enabled p"
    "\<forall>j < length (blocks p). j \<notin> set news \<longrightarrow>
        block_content (blocks p' ! j) = block_content (blocks p ! j)"
    "\<forall>j \<in> set news. prefix_identity (blocks p' ! j) = None"
proof -
  note v = allocate_validate_Ok [OF ok]
  have inv: "pool_inv p" using own by (rule owns_pool_inv)
  have c: "distinct cached" "set cached \<subseteq> {..<length (blocks p)}"
    using check_cached_Ok [OF v(5)] by auto
  obtain p1 s1 where loop1: "acquire_cached_loop cached p s = (p1, s1)" by fastforce
  let ?n = "num_blocks s - k"
  let ?news = "take ?n (filter (\<lambda>i. i \<notin> set cached) (free_block_ids p))"
  have own': "owns p (add_mset (block_table s) T)" using own v(1) by simp
  have o1: "owns p1 (add_mset (block_table s1) T)" and s1: "s1 = s\<lparr>block_table := cached\<rparr>"
    using acquire_cached_loop_owns [OF own' c(2,1) _ loop1] v(1) by auto
  note f1 = acquire_cached_loop_frame [OF loop1]
  have free1: "free_block_ids p1 = filter (\<lambda>i. i \<notin> set cached) (free_block_ids p)"
    using acquire_cached_loop_free [OF inv c(2) loop1] .
  obtain p' where p': "allocate_new_loop ?n p1 s1 = (Ok (), p', s1\<lparr>block_table := cached @ ?news\<rparr>)"
    "owns p' (add_mset (cached @ ?news) T)"
    "length (blocks p') = length (blocks p1)" "block_size p' = block_size p1"
    "prefix_cache_enabled p' = prefix_cache_enabled p1"
    "\<forall>j < length (blocks p1). j \<notin> set ?news \<longrightarrow> blocks p' ! j = blocks p1 ! j"
    "\<forall>j \<in> set ?news. prefix_identity (blocks p' ! j) = None"
    using allocate_new_loop_Ok [OF o1, of ?n] v(6) s1 free1 by auto
  show thesis
  proof (rule that [of p' ?news])
    show "bp_allocate xxh p s k
        = (Ok (), p', s\<lparr>block_table := cached @ ?news, num_cached_tokens := k * block_size p\<rparr>)"
      using ok loop1 p'(1) s1 by (simp add: bp_allocate_def)
    show "k + length ?news = num_blocks s" using v(4,6) by simp
    show "set ?news \<subseteq> set (free_block_ids p)" by (auto dest: in_set_takeD)
    show "set ?news \<inter> set cached = {}" by (auto dest: in_set_takeD)
    show "\<forall>j < length (blocks p). j \<notin> set ?news \<longrightarrow>
        block_content (blocks p' ! j) = block_content (blocks p ! j)"
      using p'(6) f1 by simp
  qed (use p' f1 in simp_all)
qed

lemma bp_allocate_err:
  assumes "owns p (add_mset [] T)" "bp_allocate xxh p s k = (Inl e, p', s')"
  shows "p' = p \<and> s' = s \<and> allocate_validate xxh p s k = Inl e"
proof (cases "allocate_validate xxh p s k")
  case (Inl f)
  then show ?thesis using assms(2) by (simp add: bp_allocate_def)
next
  case (Inr cached)
  from bp_allocate_OkE [OF assms(1) Inr] assms(2) show ?thesis by auto
qed

section \<open>Releasing tables\<close>

lemma count_releases_Ok:
  assumes "distinct is" "set is \<inter> seen = {}"
    "\<forall>i \<in> set is. (case counts i of None \<Rightarrow> 0 | Some c \<Rightarrow> c) + 1 < usize_bound"
  shows "count_releases sid seen (counts, order) is
    = Ok ((\<lambda>i. if i \<in> set is then Some ((case counts i of None \<Rightarrow> 0 | Some c \<Rightarrow> c) + 1) else counts i),
          order @ filter (\<lambda>i. counts i = None) is)"
  using assms
proof (induction "is" arbitrary: seen counts order)
  case Nil
  then show ?case by simp
next
  case (Cons i "is")
  let ?c = "(case counts i of None \<Rightarrow> 0 | Some c \<Rightarrow> c) + 1"
  let ?o = "if counts i = None then order @ [i] else order"
  have "count_releases sid seen (counts, order) (i # is)
      = count_releases sid (insert i seen) (counts(i := Some ?c), ?o) is"
    using Cons.prems by (simp add: checked_add_def Let_def)
  also have "\<dots> = Ok ((\<lambda>j. if j \<in> set is then Some ((case counts j of None \<Rightarrow> 0 | Some c \<Rightarrow> c) + 1)
          else (counts(i := Some ?c)) j), ?o @ filter (\<lambda>j. counts j = None) is)"
  proof -
    have eq: "(counts(i := Some ?c)) j = counts j" if "j \<in> set is" for j
      using that Cons.prems(1) by auto
    have f: "filter (\<lambda>j. (counts(i := Some ?c)) j = None) is = filter (\<lambda>j. counts j = None) is"
      using eq by (intro filter_cong) simp_all
    have g: "(\<lambda>j. if j \<in> set is then Some ((case (counts(i := Some ?c)) j of None \<Rightarrow> 0 | Some c \<Rightarrow> c) + 1)
               else (counts(i := Some ?c)) j)
        = (\<lambda>j. if j \<in> set is then Some ((case counts j of None \<Rightarrow> 0 | Some c \<Rightarrow> c) + 1)
               else (counts(i := Some ?c)) j)"
      using eq by (intro ext) auto
    have "count_releases sid (insert i seen) (counts(i := Some ?c), ?o) is
      = Ok ((\<lambda>j. if j \<in> set is then Some ((case (counts(i := Some ?c)) j of None \<Rightarrow> 0 | Some c \<Rightarrow> c) + 1)
               else (counts(i := Some ?c)) j),
            ?o @ filter (\<lambda>j. (counts(i := Some ?c)) j = None) is)"
      using Cons.prems eq by (intro Cons.IH) auto
    then show ?thesis by (simp only: f g)
  qed
  also have "\<dots> = Ok ((\<lambda>j. if j \<in> set (i # is) then Some ((case counts j of None \<Rightarrow> 0 | Some c \<Rightarrow> c) + 1)
          else counts j), order @ filter (\<lambda>j. counts j = None) (i # is))"
    using Cons.prems(1) by (auto intro!: ext)
  finally show ?case .
qed

text \<open>The release counts of a multiset of tables, as the map the code builds.\<close>

definition release_counts :: "nat list multiset \<Rightarrow> nat \<Rightarrow> nat option" where
  "release_counts T i = (if tcount T i = 0 then None else Some (tcount T i))"

abbreviation tables :: "sequence list \<Rightarrow> nat list multiset" where
  "tables ss \<equiv> image_mset block_table (mset ss)"

lemma count_all_releases_Ok:
  assumes "\<forall>s \<in> set ss. distinct (block_table s)" "size T + length ss < usize_bound"
    "distinct order" "set order = {i. 0 < tcount T i}"
  shows "\<exists>order'. count_all_releases (release_counts T, order) ss
            = Ok (release_counts (T + tables ss), order')
          \<and> distinct order' \<and> set order' = {i. 0 < tcount (T + tables ss) i}"
  using assms
proof (induction ss arbitrary: T order)
  case Nil
  then show ?case by simp
next
  case (Cons s ss)
  let ?t = "block_table s"
  let ?T = "add_mset ?t T"
  let ?o = "order @ filter (\<lambda>i. release_counts T i = None) (rev ?t)"
  have d: "distinct ?t" using Cons.prems(1) by simp
  have val: "(case release_counts T i of None \<Rightarrow> 0 | Some c \<Rightarrow> c) = tcount T i" for i
    by (simp add: release_counts_def)
  have bound: "tcount T i + 1 < usize_bound" for i
    using tcount_le_size [of T i] Cons.prems(2) by simp
  have step: "count_releases (seq_id s) {} (release_counts T, order) (rev ?t)
      = Ok (release_counts ?T, ?o)"
  proof -
    have "count_releases (seq_id s) {} (release_counts T, order) (rev ?t)
        = Ok ((\<lambda>i. if i \<in> set (rev ?t) then Some ((case release_counts T i of None \<Rightarrow> 0 | Some c \<Rightarrow> c) + 1)
                else release_counts T i), ?o)"
      using d bound by (intro count_releases_Ok) (simp_all add: val)
    moreover have "(\<lambda>i. if i \<in> set (rev ?t) then Some ((case release_counts T i of None \<Rightarrow> 0 | Some c \<Rightarrow> c) + 1)
                else release_counts T i) = release_counts ?T"
      by (intro ext) (simp add: val, simp add: release_counts_def)
    ultimately show ?thesis by simp
  qed
  have "distinct ?o" using Cons.prems(3,4) d by (auto simp: release_counts_def)
  moreover have "set ?o = {i. 0 < tcount ?T i}"
    using Cons.prems(4) by (auto simp: release_counts_def)
  ultimately have "\<exists>order'. count_all_releases (release_counts ?T, ?o) ss
            = Ok (release_counts (?T + tables ss), order')
          \<and> distinct order' \<and> set order' = {i. 0 < tcount (?T + tables ss) i}"
    using Cons.prems by (intro Cons.IH) auto
  then show ?case using step by (simp add: ac_simps)
qed

lemma check_releases_Ok_iff:
  "check_releases p counts is = Ok () \<longleftrightarrow> (\<forall>i \<in> set is. check_release p i (the (counts i)) = Ok ())"
  by (induction "is") (auto simp: rbind_Ok_iff)

lemma release_block_frame [simp, frame_simps]:
  "length (blocks (release_block i c p)) = length (blocks p)"
  "block_size (release_block i c p) = block_size p"
  "prefix_cache_enabled (release_block i c p) = prefix_cache_enabled p"
  "hash_to_block_id (release_block i c p) = hash_to_block_id p"
  by (simp_all add: release_block_def Let_def)

lemma release_block_nth:
  "i < length (blocks p) \<Longrightarrow> j < length (blocks p) \<Longrightarrow>
     blocks (release_block i c p) ! j
     = (if j = i then (blocks p ! i)\<lparr>ref_count := ref_count (blocks p ! i) - c\<rparr> else blocks p ! j)"
  by (auto simp: release_block_def Let_def)

lemma release_loop_spec:
  assumes "distinct is" "set is \<subseteq> {..<length (blocks p)}"
  shows "length (blocks (release_loop counts is p)) = length (blocks p)
    \<and> block_size (release_loop counts is p) = block_size p
    \<and> prefix_cache_enabled (release_loop counts is p) = prefix_cache_enabled p
    \<and> hash_to_block_id (release_loop counts is p) = hash_to_block_id p
    \<and> (\<forall>j < length (blocks p). blocks (release_loop counts is p) ! j
          = (if j \<in> set is then (blocks p ! j)\<lparr>ref_count := ref_count (blocks p ! j) - the (counts j)\<rparr>
             else blocks p ! j))
    \<and> free_block_ids (release_loop counts is p)
        = free_block_ids p @ filter (\<lambda>j. ref_count (blocks p ! j) \<le> the (counts j)) is
    \<and> used_block_ids (release_loop counts is p)
        = used_block_ids p - {j \<in> set is. ref_count (blocks p ! j) \<le> the (counts j)}"
  using assms
proof (induction "is" arbitrary: p)
  case Nil
  then show ?case by simp
next
  case (Cons i "is")
  let ?p = "release_block i (the (counts i)) p"
  have i: "i < length (blocks p)" "i \<notin> set is" using Cons.prems by auto
  have nth: "blocks ?p ! j = blocks p ! j" if "j \<in> set is" for j
    using that i Cons.prems by (subst release_block_nth) auto
  have f: "filter (\<lambda>j. ref_count (blocks ?p ! j) \<le> the (counts j)) is
      = filter (\<lambda>j. ref_count (blocks p ! j) \<le> the (counts j)) is"
    using nth by (intro filter_cong) auto
  have u: "{j \<in> set is. ref_count (blocks ?p ! j) \<le> the (counts j)}
      = {j \<in> set is. ref_count (blocks p ! j) \<le> the (counts j)}"
    using nth by auto
  have fr: "free_block_ids ?p = free_block_ids p
        @ (if ref_count (blocks p ! i) \<le> the (counts i) then [i] else [])"
    and us: "used_block_ids ?p = used_block_ids p
        - (if ref_count (blocks p ! i) \<le> the (counts i) then {i} else {})"
    using i by (simp_all add: release_block_def Let_def)
  have IH: "set is \<subseteq> {..<length (blocks ?p)}" "distinct is" using Cons.prems by simp_all
  show ?case
    using Cons.IH [OF IH(2,1)] i unfolding f u fr us
    by (auto simp: release_block_nth nth)
qed

lemma owns_release:
  assumes own: "owns p (T + U)" and order: "distinct order" "set order = {i. 0 < tcount U i}"
  shows "owns (release_loop (release_counts U) order p) T"
proof -
  let ?p = "release_loop (release_counts U) order p"
  let ?n = "length (blocks p)"
  have inv: "pool_inv p" using own by (rule owns_pool_inv)
  have in_range: "set order \<subseteq> {..<?n}"
    using own by (auto simp: order(2) tcount_pos_iff owns_def)
  note spec = release_loop_spec [OF order(1) in_range, of "release_counts U"]
  have cnt: "the (release_counts U i) = tcount U i" if "i \<in> set order" for i
    using that order(2) by (simp add: release_counts_def)
  have ref: "ref_count (blocks p ! i) = tcount T i + tcount U i" if "i < ?n" for i
    using owns_ref_count [OF own that] by simp
  have out: "i \<notin> set order \<Longrightarrow> tcount U i = 0" for i using order(2) by auto
  have refs: "ref_count (blocks ?p ! i) = tcount T i" if "i < ?n" for i
    using spec that ref [OF that] cnt out by (cases "i \<in> set order") simp_all
  have freed: "ref_count (blocks p ! i) \<le> the (release_counts U i) \<longleftrightarrow> tcount T i = 0"
    if "i \<in> set order" for i
    using that in_range ref [of i] cnt [OF that] by auto
  have free: "set (free_block_ids ?p) = set (free_block_ids p) \<union> {i \<in> set order. tcount T i = 0}"
    and used: "used_block_ids ?p = used_block_ids p - {i \<in> set order. tcount T i = 0}"
    using spec freed by auto
  have busy: "i \<notin> set (free_block_ids p)" if "i \<in> set order" for i
    using that order(2) owns_free_not_in_table [OF own] by (auto simp: tcount_pos_iff)
  have zero_iff: "tcount T i = 0 \<longleftrightarrow> i \<in> set (free_block_ids ?p)" if "i < ?n" for i
    using that ref [OF that] inv out [of i] unfolding free by (auto simp: pool_inv_def)
  have "pool_inv ?p" unfolding pool_inv_def
  proof (intro conjI)
    show "distinct (free_block_ids ?p)"
      using spec order(1) inv busy by (auto simp: pool_inv_def)
    show "set (free_block_ids ?p) \<inter> used_block_ids ?p = {}"
      unfolding free used using inv by (auto simp: pool_inv_def)
    show "set (free_block_ids ?p) \<union> used_block_ids ?p = {..<length (blocks ?p)}"
      unfolding free used using inv in_range spec by (auto simp: pool_inv_def)
    show "\<forall>i < length (blocks ?p). ref_count (blocks ?p ! i) = 0 \<longleftrightarrow> i \<in> set (free_block_ids ?p)"
      using refs zero_iff spec by simp
  qed
  then show ?thesis using own refs spec by (auto simp: owns_def)
qed

text \<open>A batch of live sequences is always released, and the pool then owns exactly the rest.\<close>

lemma bp_deallocate_batch_Ok:
  assumes own: "owns p (T + tables ss)"
  obtains p' where "bp_deallocate_batch p ss = (Ok (), p', map clear_blocks ss)" "owns p' T"
    "length (blocks p') = length (blocks p)" "block_size p' = block_size p"
    "prefix_cache_enabled p' = prefix_cache_enabled p" "hash_to_block_id p' = hash_to_block_id p"
    "\<forall>j < length (blocks p). block_content (blocks p' ! j) = block_content (blocks p ! j)"
proof -
  have d: "\<forall>s \<in> set ss. distinct (block_table s)" using own by (auto simp: owns_def)
  have b: "size {#} + length ss < usize_bound" using own by (auto simp: owns_def)
  have start: "(\<lambda>_. None) = release_counts {#}" by (intro ext) (simp add: release_counts_def)
  obtain order where c: "count_all_releases ((\<lambda>_. None), []) ss = Ok (release_counts (tables ss), order)"
    "distinct order" "set order = {i. 0 < tcount (tables ss) i}"
    using count_all_releases_Ok [OF d b, of "[]"] unfolding start by auto
  have in_range: "set order \<subseteq> {..<length (blocks p)}"
    using own by (auto simp: c(3) tcount_pos_iff owns_def)
  have "check_release p i (the (release_counts (tables ss) i)) = Ok ()" if "i \<in> set order" for i
  proof -
    have i: "i < length (blocks p)" "0 < tcount (tables ss) i" using that in_range c(3) by auto
    have "ref_count (blocks p ! i) = tcount T i + tcount (tables ss) i"
      using owns_ref_count [OF own i(1)] by simp
    with i own show ?thesis
      by (auto simp: check_release_def release_counts_def owns_def pool_inv_def)
  qed
  then have chk: "check_releases p (release_counts (tables ss)) order = Ok ()"
    by (simp add: check_releases_Ok_iff)
  note spec = release_loop_spec [OF c(2) in_range, of "release_counts (tables ss)"]
  show thesis
  proof (rule that [of "release_loop (release_counts (tables ss)) order p"])
    show "bp_deallocate_batch p ss
        = (Ok (), release_loop (release_counts (tables ss)) order p, map clear_blocks ss)"
      using c(1) chk by (simp add: bp_deallocate_batch_def)
    show "owns (release_loop (release_counts (tables ss)) order p) T"
      by (rule owns_release [OF own c(2,3)])
    show "\<forall>j < length (blocks p). block_content (blocks (release_loop (release_counts (tables ss)) order p) ! j)
        = block_content (blocks p ! j)"
      using spec by (simp add: block_content_def)
  qed (use spec in simp_all)
qed

lemma bp_deallocate_batch_err:
  "bp_deallocate_batch p ss = (Inl e, p', ss') \<Longrightarrow> p' = p \<and> ss' = ss"
  by (auto simp: bp_deallocate_batch_def split: sum.splits prod.splits)

lemma bp_deallocate_Ok:
  assumes "owns p (add_mset (block_table s) T)"
  obtains p' where "bp_deallocate p s = (Ok (), p', clear_blocks s)" "owns p' T"
    "length (blocks p') = length (blocks p)" "block_size p' = block_size p"
    "prefix_cache_enabled p' = prefix_cache_enabled p" "hash_to_block_id p' = hash_to_block_id p"
    "\<forall>j < length (blocks p). block_content (blocks p' ! j) = block_content (blocks p ! j)"
proof -
  have "owns p (T + tables [s])" using assms by simp
  then show thesis
    using that by (rule bp_deallocate_batch_Ok) (simp add: bp_deallocate_def)
qed

lemma owns_drop_empty: "owns p (add_mset [] T) \<Longrightarrow> owns p T"
  by (auto simp: owns_def)

lemma owns_add_empty: "owns p T \<Longrightarrow> size T + 1 < usize_bound \<Longrightarrow> owns p (add_mset [] T)"
  by (auto simp: owns_def)

section \<open>Appending blocks for a decode batch\<close>

text \<open>Whether a sequence misses a block for its tokens.\<close>

definition needs_block :: "sequence \<Rightarrow> bool" where
  "needs_block s \<longleftrightarrow> length (block_table s) < num_blocks s"

lemma append_indices_Ok:
  assumes "append_indices i ss = Ok is"
  shows "is = map (\<lambda>k. i + k) (filter (\<lambda>k. needs_block (ss ! k)) [0..<length ss])
    \<and> (\<forall>s \<in> set ss. length (block_table s) \<le> num_blocks s \<and> num_blocks s \<le> length (block_table s) + 1)"
  using assms
proof (induction i ss arbitrary: "is" rule: append_indices.induct)
  case (1 i)
  then show ?case by simp
next
  case (2 i s ss)
  then obtain "js" where js: "append_indices (Suc i) ss = Ok js"
    "length (block_table s) \<le> num_blocks s" "num_blocks s \<le> length (block_table s) + 1"
    "is = (if num_blocks s - length (block_table s) = 1 then i # js else js)"
    by (auto simp: rbind_Ok_iff split: option.splits if_splits)
  have "[0..<length (s # ss)] = 0 # map Suc [0..<length ss]"
    by (simp only: length_Cons upt_conv_Cons [OF zero_less_Suc] map_Suc_upt)
  then have "map (\<lambda>k. i + k) (filter (\<lambda>k. needs_block ((s # ss) ! k)) [0..<length (s # ss)])
      = (if needs_block s then [i] else [])
        @ map (\<lambda>k. Suc i + k) (filter (\<lambda>k. needs_block (ss ! k)) [0..<length ss])"
    by (simp add: filter_map o_def del: upt_Suc)
  with js "2.IH" [of "num_blocks s - length (block_table s)" js] show ?case
    by (auto simp: needs_block_def)
qed

lemma append_indices_total:
  assumes "\<forall>s \<in> set ss. length (block_table s) \<le> num_blocks s \<and> num_blocks s \<le> length (block_table s) + 1"
  shows "\<exists>is. append_indices i ss = Ok is"
  using assms
proof (induction ss arbitrary: i)
  case Nil
  then show ?case by simp
next
  case (Cons s ss)
  then obtain "is" where "append_indices (Suc i) ss = Ok is" by auto
  with Cons.prems show ?case by (auto simp: checked_sub_def)
qed

lemma check_free_distinct_Ok:
  assumes "pool_inv p" "distinct is" "set is \<inter> seen = {}" "set is \<subseteq> set (free_block_ids p)"
  shows "check_free_distinct p seen is = Ok ()"
  using assms by (induction "is" arbitrary: seen) (auto simp: validate_free_block_Ok)

lemma tables_update:
  "i < length ss \<Longrightarrow>
     tables (ss[i := s']) = add_mset (block_table s') (tables ss - {#block_table (ss ! i)#})"
  by (metis (no_types) length_map map_update mset_map mset_update nth_map)

lemma append_blocks_loop_Ok:
  assumes "owns p (T + tables ss)" "set is \<subseteq> {..<length ss}" "distinct is"
    "length is \<le> length (free_block_ids p)"
  shows "\<exists>p' ss'. append_blocks_loop is p ss = (Ok (), p', ss') \<and> owns p' (T + tables ss')
     \<and> length ss' = length ss
     \<and> (\<forall>k < length ss. k \<notin> set is \<longrightarrow> ss' ! k = ss ! k)
     \<and> (\<forall>k \<in> set is. \<exists>b \<in> set (take (length is) (free_block_ids p)). ss' ! k = push_block b (ss ! k))
     \<and> length (blocks p') = length (blocks p) \<and> block_size p' = block_size p
     \<and> prefix_cache_enabled p' = prefix_cache_enabled p
     \<and> free_block_ids p' = drop (length is) (free_block_ids p)
     \<and> (\<forall>j < length (blocks p). j \<notin> set (take (length is) (free_block_ids p))
           \<longrightarrow> blocks p' ! j = blocks p ! j)
     \<and> (\<forall>j \<in> set (take (length is) (free_block_ids p)).
           prefix_identity (blocks p' ! j) = None \<and> ref_count (blocks p' ! j) = 1)"
  using assms
proof (induction "is" arbitrary: p ss)
  case Nil
  then show ?case by simp
next
  case (Cons i "is")
  then obtain b rest where free: "free_block_ids p = b # rest" by (cases "free_block_ids p") auto
  have inv: "pool_inv p" using Cons.prems(1) by (rule owns_pool_inv)
  obtain p1 where p1: "allocate_block_private p = (Ok b, p1)" "took_free b p p1"
    using allocate_block_private_Ok [OF inv free] by blast
  have rest: "free_block_ids p1 = rest" using p1(2) free by (simp add: took_free_def)
  have b: "b < length (blocks p)" "b \<notin> set rest" using inv free by (auto simp: pool_inv_def)
  let ?ss = "ss[i := push_block b (ss ! i)]"
  have i: "i < length ss" "i \<notin> set is" using Cons.prems by auto
  have mem: "block_table (ss ! i) \<in># tables ss" using i(1) by simp
  define U where "U = tables ss - {#block_table (ss ! i)#}"
  have U: "tables ss = add_mset (block_table (ss ! i)) U"
    using mem unfolding U_def by (rule insert_DiffM [symmetric])
  have U': "tables ?ss = add_mset (block_table (ss ! i) @ [b]) U"
    using tables_update [OF i(1)] unfolding U_def by simp
  have "owns p (add_mset (block_table (ss ! i)) (T + U))"
    using Cons.prems(1) unfolding U by simp
  from owns_took_free [OF this p1(2)] have own1: "owns p1 (T + tables ?ss)"
    unfolding U' by simp
  obtain p' ss' where IH: "append_blocks_loop is p1 ?ss = (Ok (), p', ss')" "owns p' (T + tables ss')"
     "length ss' = length ss"
     "\<forall>k < length ss. k \<notin> set is \<longrightarrow> ss' ! k = ?ss ! k"
     "\<forall>k \<in> set is. \<exists>b \<in> set (take (length is) rest). ss' ! k = push_block b (?ss ! k)"
     "length (blocks p') = length (blocks p)" "block_size p' = block_size p"
     "prefix_cache_enabled p' = prefix_cache_enabled p"
     "free_block_ids p' = drop (length is) rest"
     "\<forall>j < length (blocks p). j \<notin> set (take (length is) rest) \<longrightarrow> blocks p' ! j = blocks p1 ! j"
     "\<forall>j \<in> set (take (length is) rest). prefix_identity (blocks p' ! j) = None \<and> ref_count (blocks p' ! j) = 1"
    using Cons.IH [OF own1] Cons.prems rest free p1(2) by (auto simp: took_free_def)
  have "ss' ! i = push_block b (ss ! i)" using IH(4) i by simp
  moreover have "\<exists>b' \<in> set (b # take (length is) rest). ss' ! k = push_block b' (ss ! k)"
    if "k \<in> set is" for k
  proof -
    have "k \<noteq> i" using that i by auto
    moreover from bspec [OF IH(5) that] obtain b' where
      "b' \<in> set (take (length is) rest)" "ss' ! k = push_block b' (?ss ! k)"
      by (rule bexE)
    ultimately show ?thesis by auto
  qed
  moreover have "prefix_identity (blocks p' ! b) = None \<and> ref_count (blocks p' ! b) = 1"
    using IH(10) b p1(2) by (auto simp: took_free_def block_reset_def dest: in_set_takeD)
  moreover have "blocks p' ! j = blocks p ! j"
    if "j < length (blocks p)" "j \<notin> set (b # take (length is) rest)" for j
    using that IH(10) p1(2) by (auto simp: took_free_def)
  ultimately show ?case
    using p1(1) IH free i by (intro exI [of _ p'] exI [of _ ss']) auto
qed

text \<open>What \<^verbatim>\<open>may_append_batch\<close> does on live sequences, on both outcomes.\<close>

definition appended :: "block_pool \<Rightarrow> block_pool \<Rightarrow> sequence \<Rightarrow> sequence \<Rightarrow> bool" where
  "appended p p' s s' \<longleftrightarrow>
     (if needs_block s
      then \<exists>b \<in> set (free_block_ids p). s' = push_block b s \<and> prefix_identity (blocks p' ! b) = None
      else s' = s)"

lemma bp_may_append_batch_cases:
  assumes own: "owns p (T + tables ss)"
  obtains (ok) p' ss' where "bp_may_append_batch p ss = (Ok (), p', ss')" "owns p' (T + tables ss')"
      "list_all2 (appended p p') ss ss'"
      "\<forall>s \<in> set ss. length (block_table s) \<le> num_blocks s \<and> num_blocks s \<le> length (block_table s) + 1"
      "length (blocks p') = length (blocks p)" "block_size p' = block_size p"
      "prefix_cache_enabled p' = prefix_cache_enabled p"
      "\<forall>j < length (blocks p). j \<notin> set (free_block_ids p) \<longrightarrow> blocks p' ! j = blocks p ! j"
      "\<forall>j < length (blocks p). prefix_identity (blocks p' ! j) = None \<and> ref_count (blocks p' ! j) \<le> 1
          \<or> blocks p' ! j = blocks p ! j"
  | (err) e where "bp_may_append_batch p ss = (Inl (Err e), p, ss)"
proof (cases "append_indices 0 ss")
  case (Inl f)
  have "f \<noteq> Panic" using Inl
  proof (induction "0 :: nat" ss arbitrary: f rule: append_indices.induct)
    case (2 i s ss)
    have "append_indices j ss \<noteq> Panicked" for j ss
      by (induction j ss rule: append_indices.induct) (auto simp: rbind_Inl_iff split: option.splits)
    then show ?case using 2 by metis
  qed simp
  then show thesis using Inl err by (cases f) (auto simp: bp_may_append_batch_def)
next
  case (Inr "is")
  note idx = append_indices_Ok [OF Inr]
  have is_eq: "is = filter (\<lambda>k. needs_block (ss ! k)) [0..<length ss]" using idx by simp
  then have is_props: "set is = {k. k < length ss \<and> needs_block (ss ! k)}" "distinct is" by auto
  show thesis
  proof (cases "length (free_block_ids p) < length is")
    case True
    then show thesis using Inr err by (simp add: bp_may_append_batch_def)
  next
    case False
    have inv: "pool_inv p" using own by (rule owns_pool_inv)
    have chk: "check_free_distinct p {} (take (length is) (free_block_ids p)) = Ok ()"
      using inv by (intro check_free_distinct_Ok) (auto simp: pool_inv_def dest: in_set_takeD)
    have sub: "set is \<subseteq> {..<length ss}" using is_props by auto
    obtain p' ss' where r: "append_blocks_loop is p ss = (Ok (), p', ss')" "owns p' (T + tables ss')"
      "length ss' = length ss" "\<forall>k < length ss. k \<notin> set is \<longrightarrow> ss' ! k = ss ! k"
      "\<forall>k \<in> set is. \<exists>b \<in> set (take (length is) (free_block_ids p)). ss' ! k = push_block b (ss ! k)"
      "length (blocks p') = length (blocks p)" "block_size p' = block_size p"
      "prefix_cache_enabled p' = prefix_cache_enabled p"
      "\<forall>j < length (blocks p). j \<notin> set (take (length is) (free_block_ids p))
           \<longrightarrow> blocks p' ! j = blocks p ! j"
      "\<forall>j \<in> set (take (length is) (free_block_ids p)).
           prefix_identity (blocks p' ! j) = None \<and> ref_count (blocks p' ! j) = 1"
      using append_blocks_loop_Ok [OF own sub is_props(2)] False by auto
    have app: "appended p p' (ss ! k) (ss' ! k)" if "k < length ss" for k
    proof (cases "k \<in> set is")
      case True
      then obtain b where b: "b \<in> set (take (length is) (free_block_ids p))"
        "ss' ! k = push_block b (ss ! k)" using r(5) by blast
      moreover from b have "prefix_identity (blocks p' ! b) = None" using r(10) by blast
      ultimately show ?thesis using True is_props(1)
        by (auto simp: appended_def dest: in_set_takeD)
    next
      case False
      then show ?thesis using that r(4) is_props(1) by (auto simp: appended_def)
    qed
    show thesis
    proof (rule ok [of p' ss'])
      show "bp_may_append_batch p ss = (Ok (), p', ss')"
        using Inr False chk r(1) by (simp add: bp_may_append_batch_def)
      show "list_all2 (appended p p') ss ss'" using app r(3) by (simp add: list_all2_conv_all_nth)
      show "\<forall>j < length (blocks p). j \<notin> set (free_block_ids p) \<longrightarrow> blocks p' ! j = blocks p ! j"
        using r(9) by (auto dest: in_set_takeD)
      show "\<forall>j < length (blocks p). prefix_identity (blocks p' ! j) = None \<and> ref_count (blocks p' ! j) \<le> 1
          \<or> blocks p' ! j = blocks p ! j"
        using r(9,10) by (metis le_refl)
    qed (use r idx in auto)
  qed
qed

section \<open>Publishing keeps ownership\<close>

lemma publish_block_frame [simp, frame_simps]:
  "length (blocks (publish_block b h ts ident p)) = length (blocks p)"
  "block_size (publish_block b h ts ident p) = block_size p"
  "prefix_cache_enabled (publish_block b h ts ident p) = prefix_cache_enabled p"
  "free_block_ids (publish_block b h ts ident p) = free_block_ids p"
  "used_block_ids (publish_block b h ts ident p) = used_block_ids p"
  by (simp_all add: publish_block_def Let_def)

lemma publish_block_nth:
  "b < length (blocks p) \<Longrightarrow> j < length (blocks p) \<Longrightarrow>
     blocks (publish_block b h ts ident p) ! j
     = (if j = b then block_update h ts ident (blocks p ! b) else blocks p ! j)"
  by (simp add: publish_block_def Let_def)

lemma hash_blocks_loop_owns:
  assumes "hash_blocks_loop xxh n i h ident p s = (r, p')"
  shows "length (blocks p') = length (blocks p) \<and> block_size p' = block_size p
    \<and> prefix_cache_enabled p' = prefix_cache_enabled p
    \<and> free_block_ids p' = free_block_ids p \<and> used_block_ids p' = used_block_ids p
    \<and> (\<forall>j < length (blocks p). ref_count (blocks p' ! j) = ref_count (blocks p ! j))"
  using assms
proof (induction n arbitrary: i h ident p)
  case 0
  then show ?case by simp
next
  case (Suc n)
  show ?case
  proof (cases "hash_target p s i")
    case (Inl e)
    then show ?thesis using Suc.prems by simp
  next
    case (Inr x)
    obtain b ts where x: "x = (b, ts)" by (cases x) auto
    have b: "b < length (blocks p)"
      using Inr x by (auto simp: hash_target_def rbind_Ok_iff index_Ok_iff)
    let ?h = "compute_hash xxh ts h"
    let ?ident = "identity_extend ident ts"
    have "hash_blocks_loop xxh n (Suc i) ?h (Some ?ident) (publish_block b ?h ts ?ident p) s = (r, p')"
      using Suc.prems Inr x by (simp add: Let_def)
    from Suc.IH [OF this] show ?thesis
      by (auto simp: publish_block_nth [OF b] block_update_def)
  qed
qed

lemma bp_hash_blocks_frame:
  assumes "bp_hash_blocks xxh p s = (r, p')"
  shows "length (blocks p') = length (blocks p)" "block_size p' = block_size p"
    "prefix_cache_enabled p' = prefix_cache_enabled p"
    "free_block_ids p' = free_block_ids p" "used_block_ids p' = used_block_ids p"
    "\<forall>j < length (blocks p). ref_count (blocks p' ! j) = ref_count (blocks p ! j)"
  using assms
  by (auto simp: bp_hash_blocks_def Let_def dest: hash_blocks_loop_owns
      split: if_splits sum.splits)

lemma bp_hash_blocks_owns:
  assumes "owns p T" "bp_hash_blocks xxh p s = (r, p')"
  shows "owns p' T"
  using assms(1) bp_hash_blocks_frame [OF assms(2)] by (auto simp: owns_def pool_inv_def)

end
