(* ===== verification/Prefix_Cache.thy ===== *)
theory Prefix_Cache
  imports Ownership
begin

text \<open>
  Correctness of prefix caching. A published block carries the complete chain of token blocks
  it caches (\<open>identity_at\<close>), so a lookup that succeeds returns a block of exactly the
  requested prefix whatever the hash function does. \<open>cache_inv p S\<close> states, for the live
  sequences \<open>S\<close>, who owns which block and what each block of a table holds: the full blocks of
  the cached prefix are published under that prefix, the blocks behind it are unpublished, and
  unpublished blocks are never shared. Every pool operation keeps it.
\<close>

section \<open>Token chains\<close>

fun identity_at :: "token list \<Rightarrow> nat \<Rightarrow> prefix_cache_identity" where
  "identity_at ts 0 = PrefixCacheIdentity None (block_tokens ts 0)"
| "identity_at ts (Suc j) = PrefixCacheIdentity (Some (identity_at ts j)) (block_tokens ts (Suc j))"

text \<open>The logical prefix an identity stands for, outermost block first.\<close>

fun identity_chain :: "prefix_cache_identity \<Rightarrow> token list list" where
  "identity_chain (PrefixCacheIdentity None ts) = [ts]"
| "identity_chain (PrefixCacheIdentity (Some q) ts) = identity_chain q @ [ts]"

definition identity_before :: "token list \<Rightarrow> nat \<Rightarrow> prefix_cache_identity option" where
  "identity_before ts i = (case i of 0 \<Rightarrow> None | Suc j \<Rightarrow> Some (identity_at ts j))"

lemma identity_extend_before: "identity_extend (identity_before ts i) (block_tokens ts i) = identity_at ts i"
  by (cases i) (simp_all add: identity_before_def identity_extend_def)

lemma identity_before_Suc [simp]: "identity_before ts (Suc i) = Some (identity_at ts i)"
  by (simp add: identity_before_def)

lemma identity_before_0 [simp]: "identity_before ts 0 = None"
  by (simp add: identity_before_def)

lemma identity_chain_at: "identity_chain (identity_at ts j) = map (block_tokens ts) [0..<Suc j]"
  by (induction j) simp_all

lemma identity_at_eqD:
  assumes "identity_at ts j = identity_at us k"
  shows "j = k" "take (Suc j * BLOCK_SIZE) ts = take (Suc j * BLOCK_SIZE) us"
proof -
  from assms have c: "map (block_tokens ts) [0..<Suc j] = map (block_tokens us) [0..<Suc k]"
    by (metis identity_chain_at)
  then have "length [0..<Suc j] = length [0..<Suc k]" by (metis length_map)
  then show jk: "j = k" by simp
  from c have "concat (map (block_tokens ts) [0..<Suc j]) = concat (map (block_tokens us) [0..<Suc j])"
    by (simp only: jk)
  then show "take (Suc j * BLOCK_SIZE) ts = take (Suc j * BLOCK_SIZE) us"
    by (simp only: concat_block_tokens)
qed

lemma block_tokens_append:
  "Suc i * BLOCK_SIZE \<le> length ts \<Longrightarrow> block_tokens (ts @ us) i = block_tokens ts i"
  by (simp add: block_tokens_def)

lemma identity_at_append:
  "Suc j * BLOCK_SIZE \<le> length ts \<Longrightarrow> identity_at (ts @ us) j = identity_at ts j"
  by (induction j) (simp_all add: block_tokens_append del: mult_Suc, simp add: block_tokens_append)

section \<open>Lookup\<close>

lemma cached_block_id_matches:
  "cached_block_id p h ident = Some i \<Longrightarrow> cache_entry_matches p h ident i"
  by (auto simp: cached_block_id_def dest: max_by_key_in split: option.splits)

lemma cached_prefix_loop_spec:
  assumes "length (token_ids s) = num_tokens s" "i + n \<le> num_blocks s"
  shows "\<exists>bs. cached_prefix_loop xxh p s n i h (identity_before (token_ids s) i) = Ok bs
     \<and> length bs \<le> n
     \<and> (\<forall>k < length bs. bs ! k < length (blocks p)
          \<and> prefix_identity (blocks p ! (bs ! k)) = Some (identity_at (token_ids s) (i + k)))"
  using assms(2)
proof (induction n arbitrary: i h)
  case 0
  then show ?case by simp
next
  case (Suc n)
  let ?ts = "block_tokens (token_ids s) i"
  let ?h = "compute_hash xxh ?ts h"
  let ?ident = "identity_at (token_ids s) i"
  have blk: "seq_block s i = (Ok ?ts :: (block_pool_error, token list) outcome)"
    using assms(1) Suc.prems by (intro seq_block_in_range) simp_all
  show ?case
  proof (cases "cached_block_id p ?h ?ident")
    case None
    then show ?thesis by (simp add: blk Let_def identity_extend_before)
  next
    case (Some b)
    have m: "b < length (blocks p)" "prefix_identity (blocks p ! b) = Some ?ident"
      using cached_block_id_matches [OF Some] by (simp_all add: cache_entry_matches_def)
    obtain bs where bs: "cached_prefix_loop xxh p s n (Suc i) ?h (Some ?ident) = Ok bs"
      "length bs \<le> n" "\<forall>k < length bs. bs ! k < length (blocks p)
          \<and> prefix_identity (blocks p ! (bs ! k)) = Some (identity_at (token_ids s) (Suc i + k))"
      using Suc.IH [of "Suc i" ?h] Suc.prems by auto
    have "cached_prefix_loop xxh p s (Suc n) i h (identity_before (token_ids s) i) = Ok (b # bs)"
      using Some bs(1) by (simp add: blk Let_def identity_extend_before)
    then show ?thesis using bs(2,3) m by (auto simp: less_Suc_eq_0_disj)
  qed
qed

lemma cached_prefix_loop_exact:
  "cached_prefix_loop xxh p s n i h ident = Ok bs \<Longrightarrow>
     cached_prefix_loop xxh p s (length bs) i h ident = Ok bs \<and> length bs \<le> n"
proof (induction n arbitrary: i h ident bs)
  case 0
  then show ?case by simp
next
  case (Suc n)
  then obtain ts where ts: "seq_block s i = (Ok ts :: (block_pool_error, token list) outcome)"
    by (auto simp: rbind_Ok_iff)
  let ?h = "compute_hash xxh ts h" and ?ident = "identity_extend ident ts"
  show ?case
  proof (cases "cached_block_id p ?h ?ident")
    case None
    then show ?thesis using Suc.prems by (simp add: ts Let_def)
  next
    case (Some b)
    then obtain cs where cs: "cached_prefix_loop xxh p s n (Suc i) ?h (Some ?ident) = Ok cs" "bs = b # cs"
      using Suc.prems by (auto simp: ts Let_def rbind_Ok_iff)
    from Suc.IH [OF cs(1)] Some cs show ?thesis by (simp add: ts Let_def)
  qed
qed

text \<open>The blocks of a hit are pairwise distinct: each carries a chain of another length.\<close>

lemma cached_prefix_block_ids_spec:
  assumes "length (token_ids s) = num_tokens s" "n \<le> num_blocks s"
  obtains bs where "cached_prefix_block_ids xxh p s n = Ok bs" "length bs \<le> n" "distinct bs"
    "set bs \<subseteq> {..<length (blocks p)}"
    "\<forall>k < length bs. prefix_identity (blocks p ! (bs ! k)) = Some (identity_at (token_ids s) k)"
    "cached_prefix_block_ids xxh p s (length bs) = Ok bs"
proof -
  obtain bs where bs: "cached_prefix_loop xxh p s n 0 (- 1) None = Ok bs" "length bs \<le> n"
    "\<forall>k < length bs. bs ! k < length (blocks p)
        \<and> prefix_identity (blocks p ! (bs ! k)) = Some (identity_at (token_ids s) k)"
    using cached_prefix_loop_spec [OF assms(1), of 0 n xxh p "- 1"] assms(2) by auto
  have "distinct bs" unfolding distinct_conv_nth
  proof (intro allI impI)
    fix j k assume jk: "j < length bs" "k < length bs" "j \<noteq> k"
    have "identity_at (token_ids s) j \<noteq> identity_at (token_ids s) k"
      using jk(3) identity_at_eqD(1) by blast
    with bs(3) jk(1,2) show "bs ! j \<noteq> bs ! k" by (metis option.inject)
  qed
  moreover have "set bs \<subseteq> {..<length (blocks p)}" using bs(3) by (auto simp: set_conv_nth)
  ultimately show thesis
    using that bs cached_prefix_loop_exact [OF bs(1)] by (simp add: cached_prefix_block_ids_def)
qed

section \<open>The admission check is exact\<close>

lemma check_cached_total:
  assumes "pool_inv p" "distinct is" "set is \<inter> seen = {}" "set is \<subseteq> {..<length (blocks p)}"
    "\<forall>i \<in> set is. ref_count (blocks p ! i) + 1 < usize_bound"
  shows "check_cached p seen is = Ok ()"
  using assms
  by (induction "is" arbitrary: seen) (auto simp: pool_inv_def checked_add_def)

lemma filter_partition_length: "length (filter P xs) + length (filter (\<lambda>x. \<not> P x) xs) = length xs"
  by (induction xs) simp_all

lemma distinct_filter_length_le:
  assumes "distinct xs" "distinct ys"
  shows "length (filter (\<lambda>x. x \<in> set ys) xs) \<le> length (filter (\<lambda>y. y \<in> set xs) ys)"
proof -
  have "length (filter (\<lambda>x. x \<in> set ys) xs) = card (set xs \<inter> set ys)"
    using assms by (metis distinct_card distinct_filter set_filter Int_def mem_Collect_eq)
  also have "\<dots> = length (filter (\<lambda>y. y \<in> set xs) ys)"
    using assms by (metis distinct_card distinct_filter set_filter Int_commute Int_def)
  finally show ?thesis by simp
qed

lemma enough_free_after_hits:
  assumes "pool_inv p" "distinct cached" "set cached \<subseteq> {..<length (blocks p)}"
    "m + length (filter (\<lambda>i. i \<notin> used_block_ids p) cached) \<le> length (free_block_ids p)"
  shows "m \<le> length (filter (\<lambda>i. i \<notin> set cached) (free_block_ids p))"
proof -
  have "length (filter (\<lambda>i. i \<in> set cached) (free_block_ids p))
      \<le> length (filter (\<lambda>i. i \<in> set (free_block_ids p)) cached)"
    using assms(1,2) by (intro distinct_filter_length_le) (auto simp: pool_inv_def)
  also have "filter (\<lambda>i. i \<in> set (free_block_ids p)) cached
      = filter (\<lambda>i. i \<notin> used_block_ids p) cached"
    using assms(1,3) by (intro filter_cong) (auto simp: pool_inv_def)
  finally show ?thesis
    using assms(4) filter_partition_length [of "\<lambda>i. i \<in> set cached" "free_block_ids p"] by linarith
qed

lemma can_allocate_validates:
  assumes own: "owns p (add_mset [] T)" and wf: "length (token_ids s) = num_tokens s"
    and fresh: "block_table s = []" and nb: "num_blocks s < usize_bound"
    and can: "bp_can_allocate xxh p s = Ok (Some k)"
  shows "\<exists>cached. allocate_validate xxh p s k = Ok cached"
proof -
  have inv: "pool_inv p" using own by (rule owns_pool_inv)
  obtain cached where c: "cached_prefix_block_ids xxh p s k = Ok cached" "length cached = k"
    "k \<le> num_blocks s" "distinct cached" "set cached \<subseteq> {..<length (blocks p)}"
    "num_blocks s - k + length (filter (\<lambda>i. i \<notin> used_block_ids p) cached)
       \<le> length (free_block_ids p)"
  proof (cases "num_blocks s = 0 \<or> \<not> prefix_cache_enabled p")
    case True
    then have "k = 0" "num_blocks s \<le> length (free_block_ids p)"
      using can by (auto simp: bp_can_allocate_def split: if_splits)
    then show thesis using that [of "[]"] by (simp add: cached_prefix_block_ids_def)
  next
    case False
    obtain bs where bs: "cached_prefix_block_ids xxh p s (num_blocks s - 1) = Ok bs"
      "length bs \<le> num_blocks s - 1" "distinct bs" "set bs \<subseteq> {..<length (blocks p)}"
      "cached_prefix_block_ids xxh p s (length bs) = Ok bs"
      by (rule cached_prefix_block_ids_spec [OF wf, of "num_blocks s - 1" xxh p]) simp_all
    have k: "k = length bs" and free: "num_blocks s - length (filter (\<lambda>i. i \<in> used_block_ids p) bs)
        \<le> length (free_block_ids p)"
      using can False bs(1) by (auto simp: bp_can_allocate_def Let_def split: if_splits)
    show thesis
    proof (rule that [of bs])
      show "num_blocks s - k + length (filter (\<lambda>i. i \<notin> used_block_ids p) bs)
          \<le> length (free_block_ids p)"
        using filter_partition_length [of "\<lambda>i. i \<in> used_block_ids p" bs] k free bs(2) by linarith
      show "k \<le> num_blocks s" using k bs(2) by linarith
    qed (use bs k in simp_all)
  qed
  have ref: "ref_count (blocks p ! i) + 1 < usize_bound" if "i < length (blocks p)" for i
  proof -
    have "ref_count (blocks p ! i) \<le> size T"
      using owns_ref_count [OF own that] tcount_le_size [of T i] by simp
    moreover have "size T + 1 < usize_bound" using own by (simp add: owns_def)
    ultimately show ?thesis by linarith
  qed
  have chk: "check_cached p {} cached = Ok ()"
    using inv c(4,5) ref by (intro check_cached_total) auto
  have enough: "num_blocks s - k \<le> length (filter (\<lambda>i. i \<notin> set cached) (free_block_ids p))"
    using enough_free_after_hits [OF inv c(4,5,6)] .
  let ?new = "take (num_blocks s - k) (filter (\<lambda>i. i \<notin> set cached) (free_block_ids p))"
  have chk2: "check_free_distinct p {} ?new = Ok ()"
    using inv by (intro check_free_distinct_Ok) (auto simp: pool_inv_def dest: in_set_takeD)
  have "length (filter (\<lambda>i. i \<notin> used_block_ids p) cached) \<le> k"
    using c(2) length_filter_le [of "\<lambda>i. i \<notin> used_block_ids p" cached] by simp
  then have add: "checked_add (num_blocks s - k) (length (filter (\<lambda>i. i \<notin> used_block_ids p) cached))
      = Some (num_blocks s - k + length (filter (\<lambda>i. i \<notin> used_block_ids p) cached))"
    using nb c(3) by (simp add: checked_add_def)
  have "allocate_validate xxh p s k = Ok cached"
    using fresh c chk chk2 enough add by (simp add: allocate_validate_def Let_def)
  then show ?thesis ..
qed

section \<open>What the blocks of a table hold\<close>

definition content_ok :: "block_pool \<Rightarrow> sequence \<Rightarrow> bool" where
  "content_ok p s \<longleftrightarrow>
     length (token_ids s) = num_tokens s
     \<and> num_cached_tokens s \<le> num_tokens s
     \<and> num_cached_tokens s \<le> length (block_table s) * BLOCK_SIZE
     \<and> (\<forall>j < length (block_table s).
          prefix_identity (blocks p ! (block_table s ! j))
          = (if j < num_cached_tokens s div BLOCK_SIZE then Some (identity_at (token_ids s) j) else None))"

text \<open>An unpublished block has at most one owner; a published one holds a full block.\<close>

definition share_ok :: "block_pool \<Rightarrow> bool" where
  "share_ok p \<longleftrightarrow>
     (\<forall>i < length (blocks p).
        case prefix_identity (blocks p ! i) of
          None \<Rightarrow> ref_count (blocks p ! i) \<le> 1
        | Some ident \<Rightarrow> length (identity_tokens ident) = BLOCK_SIZE)"

definition cache_inv :: "block_pool \<Rightarrow> sequence multiset \<Rightarrow> bool" where
  "cache_inv p S \<longleftrightarrow>
     owns p (image_mset block_table S) \<and> block_size p = BLOCK_SIZE \<and> prefix_cache_enabled p
     \<and> share_ok p \<and> (\<forall>s \<in># S. content_ok p s)"

lemma cache_inv_owns: "cache_inv p S \<Longrightarrow> owns p (image_mset block_table S)"
  by (simp add: cache_inv_def)

lemma cache_inv_content: "cache_inv p S \<Longrightarrow> s \<in># S \<Longrightarrow> content_ok p s"
  by (simp add: cache_inv_def)

lemma cache_inv_new: "cache_inv (bp_new n BLOCK_SIZE) {#}"
  by (auto simp: cache_inv_def bp_new_def owns_new share_ok_def)
     (auto simp: bp_new_inner_def block_new_def)

lemma content_ok_fresh: "length (token_ids s) = num_tokens s \<Longrightarrow> content_ok p (clear_blocks s)"
  by (simp add: content_ok_def)

text \<open>The invariant sees only four fields of a sequence.\<close>

definition same_cache_view :: "sequence \<Rightarrow> sequence \<Rightarrow> bool" where
  "same_cache_view s s' \<longleftrightarrow>
     token_ids s' = token_ids s \<and> num_tokens s' = num_tokens s
     \<and> num_cached_tokens s' = num_cached_tokens s \<and> block_table s' = block_table s"

lemma content_ok_view: "same_cache_view s s' \<Longrightarrow> content_ok p s' \<longleftrightarrow> content_ok p s"
  by (simp add: content_ok_def same_cache_view_def)

lemma cache_inv_view:
  "cache_inv p (add_mset s S) \<Longrightarrow> same_cache_view s s' \<Longrightarrow> cache_inv p (add_mset s' S)"
  using content_ok_view [of s s' p] by (simp add: cache_inv_def same_cache_view_def)

lemma content_ok_frame:
  assumes "content_ok p s" "\<forall>i \<in> set (block_table s). prefix_identity (blocks p' ! i) = prefix_identity (blocks p ! i)"
  shows "content_ok p' s"
  using assms by (auto simp: content_ok_def)

lemma div_BLOCK_SIZE_bound:
  assumes "j < n div BLOCK_SIZE" "n \<le> m"
  shows "Suc j * BLOCK_SIZE \<le> m"
proof -
  have "Suc j * BLOCK_SIZE \<le> n div BLOCK_SIZE * BLOCK_SIZE" using assms(1) by (intro mult_le_mono1) simp
  also have "\<dots> \<le> n" by (rule div_times_less_eq_dividend)
  finally show ?thesis using assms(2) by linarith
qed

lemma content_ok_append_token: "content_ok p s \<Longrightarrow> content_ok p (append_token s t)"
  unfolding content_ok_def append_token_def
  by (auto simp: identity_at_append div_BLOCK_SIZE_bound simp del: mult_Suc)

lemma cache_inv_append_token:
  "cache_inv p (add_mset s S) \<Longrightarrow> cache_inv p (add_mset (append_token s t) S)"
  using content_ok_append_token [of p s t] by (simp add: cache_inv_def append_token_def)

text \<open>A new request owns nothing.\<close>

lemma cache_inv_add:
  assumes "cache_inv p S" "block_table s = []" "num_cached_tokens s = 0"
    "length (token_ids s) = num_tokens s" "size S + 1 < usize_bound"
  shows "cache_inv p (add_mset s S)"
  using assms owns_add_empty [of p "image_mset block_table S"]
  by (simp add: cache_inv_def content_ok_def)

section \<open>Every operation keeps the invariant\<close>

lemma share_ok_Some:
  "share_ok p \<Longrightarrow> i < length (blocks p) \<Longrightarrow> prefix_identity (blocks p ! i) = Some ident \<Longrightarrow>
     length (identity_tokens ident) = BLOCK_SIZE"
  by (auto simp: share_ok_def split: option.splits)

lemma share_ok_None:
  "share_ok p \<Longrightarrow> i < length (blocks p) \<Longrightarrow> prefix_identity (blocks p ! i) = None \<Longrightarrow>
     ref_count (blocks p ! i) \<le> 1"
  by (auto simp: share_ok_def split: option.splits)

lemma share_ok_frame:
  assumes "share_ok p" "length (blocks p') = length (blocks p)"
    "\<And>i. i < length (blocks p) \<Longrightarrow>
        prefix_identity (blocks p' ! i) = None \<and> ref_count (blocks p' ! i) \<le> 1
        \<or> prefix_identity (blocks p' ! i) = prefix_identity (blocks p ! i)
            \<and> (prefix_identity (blocks p ! i) = None \<longrightarrow> ref_count (blocks p' ! i) \<le> ref_count (blocks p ! i))"
  shows "share_ok p'"
  unfolding share_ok_def
proof (intro allI impI)
  fix i assume i: "i < length (blocks p')"
  have old: "case prefix_identity (blocks p ! i) of None \<Rightarrow> ref_count (blocks p ! i) \<le> 1
        | Some ident \<Rightarrow> length (identity_tokens ident) = BLOCK_SIZE"
    using assms(1,2) i by (simp add: share_ok_def)
  show "case prefix_identity (blocks p' ! i) of None \<Rightarrow> ref_count (blocks p' ! i) \<le> 1
        | Some ident \<Rightarrow> length (identity_tokens ident) = BLOCK_SIZE"
    using assms(3) [of i] assms(2) i old by (auto split: option.splits)
qed

lemma identity_tokens_at [simp]: "identity_tokens (identity_at ts j) = block_tokens ts j"
  by (cases j) simp_all

lemma full_block_bound: "length (block_tokens ts j) = BLOCK_SIZE \<Longrightarrow> Suc j * BLOCK_SIZE \<le> length ts"
proof -
  assume "length (block_tokens ts j) = BLOCK_SIZE"
  then have "min (length ts - j * BLOCK_SIZE) BLOCK_SIZE = BLOCK_SIZE" by (simp add: block_tokens_def)
  moreover have "0 < BLOCK_SIZE" by simp
  ultimately show ?thesis unfolding mult_Suc by linarith
qed

lemma cache_inv_allocate:
  assumes inv: "cache_inv p (add_mset s S)" and empty: "num_cached_tokens s = 0"
    and ok: "allocate_validate xxh p s k = Ok cached"
  obtains p' news where
    "bp_allocate xxh p s k
       = (Ok (), p', s\<lparr>block_table := cached @ news, num_cached_tokens := k * BLOCK_SIZE\<rparr>)"
    "cache_inv p' (add_mset (s\<lparr>block_table := cached @ news, num_cached_tokens := k * BLOCK_SIZE\<rparr>) S)"
    "k + length news = num_blocks s" "length (blocks p') = length (blocks p)"
    "set news \<subseteq> set (free_block_ids p)"
proof -
  note v = allocate_validate_Ok [OF ok]
  have own: "owns p (add_mset [] (image_mset block_table S))"
    using inv v(1) by (simp add: cache_inv_def)
  have bs: "block_size p = BLOCK_SIZE" using inv by (simp add: cache_inv_def)
  have con: "content_ok p s" using inv by (simp add: cache_inv_def)
  obtain news p' where r: "bp_allocate xxh p s k
       = (Ok (), p', s\<lparr>block_table := cached @ news, num_cached_tokens := k * block_size p\<rparr>)"
    "k + length news = num_blocks s" "set news \<subseteq> set (free_block_ids p)"
    "set news \<inter> set cached = {}" "owns p' (add_mset (cached @ news) (image_mset block_table S))"
    "length (blocks p') = length (blocks p)" "block_size p' = block_size p"
    "prefix_cache_enabled p' = prefix_cache_enabled p"
    "\<forall>j < length (blocks p). j \<notin> set news \<longrightarrow>
        block_content (blocks p' ! j) = block_content (blocks p ! j)"
    "\<forall>j \<in> set news. prefix_identity (blocks p' ! j) = None"
    by (rule bp_allocate_OkE [OF own ok])
  let ?s = "s\<lparr>block_table := cached @ news, num_cached_tokens := k * BLOCK_SIZE\<rparr>"
  obtain cs where cs: "cached_prefix_block_ids xxh p s k = Ok cs" "set cs \<subseteq> {..<length (blocks p)}"
    "\<forall>j < length cs. prefix_identity (blocks p ! (cs ! j)) = Some (identity_at (token_ids s) j)"
    using con v(4) by (auto simp: content_ok_def intro: cached_prefix_block_ids_spec [of s k xxh p])
  have c: "cached = cs" using cs(1) v(2) by simp
  have same: "prefix_identity (blocks p' ! j) = prefix_identity (blocks p ! j)"
    if "j < length (blocks p)" "j \<notin> set news" for j
    using r(9) that block_content_eqD by blast
  have hit: "prefix_identity (blocks p' ! (cached ! j)) = Some (identity_at (token_ids s) j)"
    if "j < k" for j
  proof -
    have "cached ! j \<in> set cached" using that v(3) by simp
    then have "cached ! j < length (blocks p)" "cached ! j \<notin> set news" using cs(2) c r(4) by auto
    then show ?thesis using same cs(3) c that v(3) by simp
  qed
  have le: "k * BLOCK_SIZE \<le> num_tokens s"
  proof (cases k)
    case (Suc j)
    then have j: "j < length cs" using c v(3) by simp
    then have "cs ! j \<in> set cs" by (rule nth_mem)
    then have "cs ! j < length (blocks p)" using cs(2) by auto
    moreover have "prefix_identity (blocks p ! (cs ! j)) = Some (identity_at (token_ids s) j)"
      using cs(3) j by simp
    moreover have "share_ok p" using inv by (simp add: cache_inv_def)
    ultimately have "length (block_tokens (token_ids s) j) = BLOCK_SIZE"
      using share_ok_Some by fastforce
    then show ?thesis using full_block_bound Suc con by (metis content_ok_def)
  qed simp
  have content: "content_ok p' ?s"
    using con le hit r(2,10) v(3) by (auto simp: content_ok_def nth_append)
  have in_news: "ref_count (blocks p' ! j) = 1" if "j \<in> set news" for j
  proof -
    have j: "j < length (blocks p)" using own that r(3) by (auto simp: owns_def pool_inv_def)
    have "j \<in> set (free_block_ids p)" using that r(3) by auto
    then have "tcount (image_mset block_table S) j = 0"
      using owns_free_not_in_table [OF own] tcount_pos_iff [of "image_mset block_table S" j] by fastforce
    then show ?thesis using owns_ref_count [OF r(5)] j r(6) that by simp
  qed
  have share: "share_ok p'"
  proof (rule share_ok_frame)
    show "share_ok p" using inv by (simp add: cache_inv_def)
    show "length (blocks p') = length (blocks p)" by (rule r(6))
    fix i assume i: "i < length (blocks p)"
    show "prefix_identity (blocks p' ! i) = None \<and> ref_count (blocks p' ! i) \<le> 1
        \<or> prefix_identity (blocks p' ! i) = prefix_identity (blocks p ! i)
            \<and> (prefix_identity (blocks p ! i) = None \<longrightarrow> ref_count (blocks p' ! i) \<le> ref_count (blocks p ! i))"
    proof (cases "i \<in> set news")
      case True
      then show ?thesis using in_news r(10) by simp
    next
      case False
      have "i \<in> set cached \<Longrightarrow> prefix_identity (blocks p ! i) \<noteq> None"
        using cs(3) c by (auto simp: in_set_conv_nth)
      moreover have "ref_count (blocks p' ! i) \<le> ref_count (blocks p ! i)" if "i \<notin> set cached"
        using that False owns_ref_count [OF r(5)] owns_ref_count [OF own i] i r(6) by simp
      ultimately show ?thesis using same [OF i False] by (cases "i \<in> set cached") auto
    qed
  qed
  have others: "content_ok p' u" if "u \<in># S" for u
  proof (rule content_ok_frame)
    show "content_ok p u" using inv that by (simp add: cache_inv_def)
    show "\<forall>i \<in> set (block_table u). prefix_identity (blocks p' ! i) = prefix_identity (blocks p ! i)"
    proof
      fix i assume i: "i \<in> set (block_table u)"
      have mem: "block_table u \<in># add_mset [] (image_mset block_table S)" using that by simp
      have "i < length (blocks p)" using owns_table(2) [OF own mem] i by auto
      moreover have "i \<notin> set news" using owns_free_not_in_table [OF own _ mem] i r(3) by auto
      ultimately show "prefix_identity (blocks p' ! i) = prefix_identity (blocks p ! i)" by (rule same)
    qed
  qed
  have "cache_inv p' (add_mset ?s S)"
    using inv r(5,7,8) share content others bs by (simp add: cache_inv_def)
  then show thesis using that r(1,2,3,6) bs by simp
qed

lemma cache_inv_deallocate_batch:
  assumes inv: "cache_inv p (S + mset ss)"
  obtains p' where "bp_deallocate_batch p ss = (Ok (), p', map clear_blocks ss)"
    "cache_inv p' (S + mset (map clear_blocks ss))" "owns p' (image_mset block_table S)"
    "length (blocks p') = length (blocks p)"
proof -
  have own: "owns p (image_mset block_table S + tables ss)" using inv by (simp add: cache_inv_def)
  obtain p' where r: "bp_deallocate_batch p ss = (Ok (), p', map clear_blocks ss)"
    "owns p' (image_mset block_table S)"
    "length (blocks p') = length (blocks p)" "block_size p' = block_size p"
    "prefix_cache_enabled p' = prefix_cache_enabled p" "hash_to_block_id p' = hash_to_block_id p"
    "\<forall>j < length (blocks p). block_content (blocks p' ! j) = block_content (blocks p ! j)"
    by (rule bp_deallocate_batch_Ok [OF own])
  have same: "prefix_identity (blocks p' ! j) = prefix_identity (blocks p ! j)"
    if "j < length (blocks p)" for j
    using r(7) that block_content_eqD by blast
  have ref: "ref_count (blocks p' ! i) \<le> ref_count (blocks p ! i)" if "i < length (blocks p)" for i
    using owns_ref_count [OF own that] owns_ref_count [OF r(2)] that r(3) by simp
  have share: "share_ok p'"
    using inv r(3) same ref by (intro share_ok_frame [of p p']) (auto simp: cache_inv_def)
  have "content_ok p' u" if "u \<in># S" for u
  proof (rule content_ok_frame)
    show "content_ok p u" using inv that by (simp add: cache_inv_def)
    show "\<forall>i \<in> set (block_table u). prefix_identity (blocks p' ! i) = prefix_identity (blocks p ! i)"
      using owns_table(2) [OF own, of "block_table u"] that same by auto
  qed
  moreover have "content_ok p' (clear_blocks u)" if "u \<in> set ss" for u
    using inv that by (intro content_ok_fresh) (auto simp: cache_inv_def content_ok_def)
  moreover have "owns p' (image_mset block_table (S + mset (map clear_blocks ss)))"
  proof -
    have "size (image_mset block_table (S + mset (map clear_blocks ss))) < usize_bound"
      using own by (simp add: owns_def)
    moreover have "tcount (image_mset block_table (S + mset (map clear_blocks ss))) i
        = tcount (image_mset block_table S) i" for i
      by (induction ss) simp_all
    ultimately show ?thesis using r(2) by (auto simp: owns_def)
  qed
  ultimately have "cache_inv p' (S + mset (map clear_blocks ss))"
    using inv r(4,5) share by (auto simp: cache_inv_def)
  then show thesis using that r(1,2,3) by blast
qed

lemma cache_inv_deallocate:
  assumes "cache_inv p (add_mset s S)"
  obtains p' where "bp_deallocate p s = (Ok (), p', clear_blocks s)"
    "cache_inv p' (add_mset (clear_blocks s) S)" "length (blocks p') = length (blocks p)"
proof -
  have "cache_inv p (S + mset [s])" using assms by simp
  then show thesis
  proof (rule cache_inv_deallocate_batch)
    fix p' assume "bp_deallocate_batch p [s] = (Ok (), p', map clear_blocks [s])"
      "cache_inv p' (S + mset (map clear_blocks [s]))" "length (blocks p') = length (blocks p)"
    then show thesis using that [of p'] by (simp add: bp_deallocate_def)
  qed
qed

lemma appended_view:
  assumes "appended p p' s s'"
  shows "token_ids s' = token_ids s" "num_tokens s' = num_tokens s"
    "num_cached_tokens s' = num_cached_tokens s" "num_blocks s' = num_blocks s"
  using assms by (auto simp: appended_def num_blocks_def split: if_splits)

lemma content_ok_appended:
  assumes "content_ok p s" "appended p p' s s'"
    "\<forall>i \<in> set (block_table s). prefix_identity (blocks p' ! i) = prefix_identity (blocks p ! i)"
  shows "content_ok p' s'"
proof -
  have c: "content_ok p' s" using assms(1,3) by (rule content_ok_frame)
  show ?thesis
  proof (cases "needs_block s")
    case True
    then obtain b where b: "s' = push_block b s" "prefix_identity (blocks p' ! b) = None"
      using assms(2) by (auto simp: appended_def)
    have "num_cached_tokens s div BLOCK_SIZE \<le> length (block_table s)"
      using c by (simp add: content_ok_def div_le_mono [of _ "_ * BLOCK_SIZE" BLOCK_SIZE, simplified])
    then show ?thesis using c b by (auto simp: content_ok_def nth_append less_Suc_eq)
  next
    case False
    then show ?thesis using c assms(2) by (simp add: appended_def)
  qed
qed

lemma cache_inv_may_append_batch:
  assumes inv: "cache_inv p (S + mset ss)"
  obtains (ok) p' ss' where "bp_may_append_batch p ss = (Ok (), p', ss')" "cache_inv p' (S + mset ss')"
      "list_all2 (appended p p') ss ss'"
      "\<forall>s \<in> set ss. length (block_table s) \<le> num_blocks s \<and> num_blocks s \<le> length (block_table s) + 1"
      "length (blocks p') = length (blocks p)"
  | (err) e where "bp_may_append_batch p ss = (Inl (Err e), p, ss)"
proof -
  have own: "owns p (image_mset block_table S + tables ss)" using inv by (simp add: cache_inv_def)
  then show thesis
  proof (cases rule: bp_may_append_batch_cases)
    case (ok p' ss')
    have busy: "prefix_identity (blocks p' ! i) = prefix_identity (blocks p ! i)"
      if "i \<in> set (block_table u)" "u \<in># S + mset ss" for i u
    proof -
      have mem: "block_table u \<in># image_mset block_table S + tables ss" using that(2) by auto
      have "i < length (blocks p)" using owns_table(2) [OF own mem] that(1) by auto
      moreover have "i \<notin> set (free_block_ids p)" using owns_free_not_in_table [OF own _ mem] that(1) by auto
      ultimately show ?thesis using ok(8) by simp
    qed
    have ref: "prefix_identity (blocks p' ! i) = None \<and> ref_count (blocks p' ! i) \<le> 1
        \<or> prefix_identity (blocks p' ! i) = prefix_identity (blocks p ! i)
            \<and> (prefix_identity (blocks p ! i) = None \<longrightarrow> ref_count (blocks p' ! i) \<le> ref_count (blocks p ! i))"
      if "i < length (blocks p)" for i
      using ok(9) that by (metis le_refl)
    have share: "share_ok p'"
      using inv ok(5) ref by (intro share_ok_frame [of p p']) (auto simp: cache_inv_def)
    have c1: "content_ok p' u" if "u \<in># S" for u
    proof (rule content_ok_frame)
      show "content_ok p u" using inv that by (simp add: cache_inv_def)
      have "u \<in># S + mset ss" using that by simp
      then show "\<forall>i \<in> set (block_table u). prefix_identity (blocks p' ! i) = prefix_identity (blocks p ! i)"
        using busy by blast
    qed
    have c2: "content_ok p' u" if u: "u \<in> set ss'" for u
    proof -
      obtain k where k: "k < length ss'" "u = ss' ! k" using u by (auto simp: in_set_conv_nth)
      then have app: "appended p p' (ss ! k) u" and k': "k < length ss"
        using list_all2_lengthD [OF ok(3)] list_all2_nthD2 [OF ok(3) k(1)] by simp_all
      have mem: "ss ! k \<in># S + mset ss" using k' by simp
      then have "content_ok p (ss ! k)" using inv by (auto simp: cache_inv_def)
      then show ?thesis using content_ok_appended app busy mem by blast
    qed
    have "cache_inv p' (S + mset ss')"
      using inv ok(2,6,7) share c1 c2 by (auto simp: cache_inv_def)
    then show thesis using that(1) ok(1,3,4,5) by blast
  next
    case (err e)
    then show thesis using that(2) by blast
  qed
qed

section \<open>Publishing filled blocks\<close>

lemma hash_target_Ok:
  assumes "length (token_ids s) = num_tokens s" "i < length (block_table s)"
    "Suc i * BLOCK_SIZE \<le> num_tokens s" "block_table s ! i < length (blocks p)"
  shows "hash_target p s i = Ok (block_table s ! i, block_tokens (token_ids s) i)"
proof -
  have "0 < BLOCK_SIZE" by simp
  then have "i * BLOCK_SIZE < num_tokens s" using assms(3) unfolding mult_Suc by linarith
  then have "i < num_blocks s" by (simp add: less_num_blocks_iff)
  then show ?thesis using assms by (simp add: hash_target_def seq_block_in_range)
qed

lemma hash_blocks_loop_spec:
  assumes wf: "length (token_ids s) = num_tokens s"
    and tbl: "distinct (block_table s)" "set (block_table s) \<subseteq> {..<length (blocks p)}"
    and len: "i + n \<le> length (block_table s)" "(i + n) * BLOCK_SIZE \<le> num_tokens s"
  shows "\<exists>p'. hash_blocks_loop xxh n i h (identity_before (token_ids s) i) p s = (Ok (), p')
     \<and> (\<forall>k. i \<le> k \<and> k < i + n \<longrightarrow>
          prefix_identity (blocks p' ! (block_table s ! k)) = Some (identity_at (token_ids s) k))
     \<and> (\<forall>j < length (blocks p). (\<forall>k. i \<le> k \<and> k < i + n \<longrightarrow> block_table s ! k \<noteq> j)
          \<longrightarrow> blocks p' ! j = blocks p ! j)"
  using tbl(2) len
proof (induction n arbitrary: i h p)
  case 0
  then show ?case by auto
next
  case (Suc n)
  let ?ts = "block_tokens (token_ids s) i"
  let ?h = "compute_hash xxh ?ts h"
  let ?ident = "identity_at (token_ids s) i"
  let ?b = "block_table s ! i"
  let ?p = "publish_block ?b ?h ?ts ?ident p"
  have i: "i < length (block_table s)" using Suc.prems by simp
  then have b: "?b < length (blocks p)" using Suc.prems(1) nth_mem by blast
  have "Suc i * BLOCK_SIZE \<le> (i + Suc n) * BLOCK_SIZE" by (intro mult_le_mono1) simp
  then have full: "Suc i * BLOCK_SIZE \<le> num_tokens s" using Suc.prems(3) by linarith
  have step: "hash_blocks_loop xxh (Suc n) i h (identity_before (token_ids s) i) p s
      = hash_blocks_loop xxh n (Suc i) ?h (identity_before (token_ids s) (Suc i)) ?p s"
    using hash_target_Ok [OF wf i full b] by (simp add: Let_def identity_extend_before)
  have prems: "set (block_table s) \<subseteq> {..<length (blocks ?p)}" "Suc i + n \<le> length (block_table s)"
    "(Suc i + n) * BLOCK_SIZE \<le> num_tokens s" using Suc.prems by simp_all
  obtain p' where p': "hash_blocks_loop xxh n (Suc i) ?h (identity_before (token_ids s) (Suc i)) ?p s = (Ok (), p')"
    "\<forall>k. Suc i \<le> k \<and> k < Suc i + n \<longrightarrow>
          prefix_identity (blocks p' ! (block_table s ! k)) = Some (identity_at (token_ids s) k)"
    "\<forall>j < length (blocks ?p). (\<forall>k. Suc i \<le> k \<and> k < Suc i + n \<longrightarrow> block_table s ! k \<noteq> j)
          \<longrightarrow> blocks p' ! j = blocks ?p ! j"
    using Suc.IH [OF prems, of ?h] by blast
  have other: "block_table s ! k \<noteq> ?b" if "Suc i \<le> k" "k < Suc i + n" for k
    using that Suc.prems(2) tbl(1) i by (simp add: nth_eq_iff_index_eq)
  have "blocks p' ! ?b = blocks ?p ! ?b" using p'(3) b other by simp
  then have at_i: "prefix_identity (blocks p' ! ?b) = Some ?ident"
    using b by (simp add: publish_block_nth block_update_def)
  show ?case
  proof (intro exI [of _ p'] conjI allI impI)
    show "hash_blocks_loop xxh (Suc n) i h (identity_before (token_ids s) i) p s = (Ok (), p')"
      using step p'(1) by simp
    fix k assume "i \<le> k \<and> k < i + Suc n"
    then show "prefix_identity (blocks p' ! (block_table s ! k)) = Some (identity_at (token_ids s) k)"
      using at_i p'(2) by (cases "k = i") auto
  next
    fix j assume j: "j < length (blocks p)" "\<forall>k. i \<le> k \<and> k < i + Suc n \<longrightarrow> block_table s ! k \<noteq> j"
    then have "blocks p' ! j = blocks ?p ! j" using p'(3) by simp
    moreover have "?b \<noteq> j" using j(2) by simp
    ultimately show "blocks p' ! j = blocks p ! j" using j(1) b by (simp add: publish_block_nth)
  qed
qed

text \<open>A table entry behind the cached prefix belongs to its sequence alone.\<close>

lemma unpublished_exclusive:
  assumes inv: "cache_inv p (add_mset s S)" and j: "j < length (block_table s)"
    "num_cached_tokens s div BLOCK_SIZE \<le> j" and u: "u \<in># S"
  shows "block_table s ! j \<notin> set (block_table u)"
proof
  let ?b = "block_table s ! j"
  assume mem: "?b \<in> set (block_table u)"
  have own: "owns p (add_mset (block_table s) (image_mset block_table S))"
    using inv by (simp add: cache_inv_def)
  have b: "?b < length (blocks p)"
    using owns_table(2) [OF own, of "block_table s"] j(1) nth_mem by fastforce
  have "prefix_identity (blocks p ! ?b) = None"
    using inv j by (simp add: cache_inv_def content_ok_def)
  then have "ref_count (blocks p ! ?b) \<le> 1"
    using share_ok_None [OF _ b] inv by (simp add: cache_inv_def)
  moreover have "0 < tcount (image_mset block_table S) ?b"
    using mem u by (auto simp: tcount_pos_iff)
  moreover have "ref_count (blocks p ! ?b) = 1 + tcount (image_mset block_table S) ?b"
    using owns_ref_count [OF own b] j(1) by simp
  ultimately show False by linarith
qed

lemma cache_inv_hash_blocks:
  assumes inv: "cache_inv p (add_mset s S)"
    and fits: "num_cached_tokens s + num_scheduled_tokens s \<le> num_tokens s"
      "num_cached_tokens s + num_scheduled_tokens s \<le> length (block_table s) * BLOCK_SIZE"
  obtains p' where "bp_hash_blocks xxh p s = (Ok (), p')"
    "cache_inv p' (add_mset (s\<lparr>num_cached_tokens := num_cached_tokens s + num_scheduled_tokens s\<rparr>) S)"
    "length (blocks p') = length (blocks p)" "free_block_ids p' = free_block_ids p"
proof -
  let ?start = "num_cached_tokens s div BLOCK_SIZE"
  let ?stop = "(num_cached_tokens s + num_scheduled_tokens s) div BLOCK_SIZE"
  let ?s = "s\<lparr>num_cached_tokens := num_cached_tokens s + num_scheduled_tokens s\<rparr>"
  have own: "owns p (add_mset (block_table s) (image_mset block_table S))"
    using inv by (simp add: cache_inv_def)
  have tbl: "distinct (block_table s)" "set (block_table s) \<subseteq> {..<length (blocks p)}"
    using owns_table [OF own, of "block_table s"] by simp_all
  have con: "content_ok p s" using inv by (simp add: cache_inv_def)
  have wf: "length (token_ids s) = num_tokens s" using con by (simp add: content_ok_def)
  have basics: "prefix_cache_enabled p" "block_size p = BLOCK_SIZE" "share_ok p"
    using inv by (simp_all add: cache_inv_def)
  have le: "?start \<le> ?stop" by (simp add: div_le_mono)
  have stop_len: "?stop \<le> length (block_table s)"
    using fits(2) by (metis BLOCK_SIZE_nonzero div_le_mono nonzero_mult_div_cancel_right)
  have stop_tok: "?stop * BLOCK_SIZE \<le> num_tokens s"
    using fits(1) div_times_less_eq_dividend [of "num_cached_tokens s + num_scheduled_tokens s" BLOCK_SIZE]
    by linarith
  \<comment> \<open>the result of the call, in both the empty and the non-empty range\<close>
  obtain p' where r: "bp_hash_blocks xxh p s = (Ok (), p')"
    "\<forall>k. ?start \<le> k \<and> k < ?stop \<longrightarrow>
       prefix_identity (blocks p' ! (block_table s ! k)) = Some (identity_at (token_ids s) k)"
    "\<forall>j < length (blocks p). (\<forall>k. ?start \<le> k \<and> k < ?stop \<longrightarrow> block_table s ! k \<noteq> j)
       \<longrightarrow> blocks p' ! j = blocks p ! j"
  proof (cases "?start < ?stop")
    case False
    then have "bp_hash_blocks xxh p s = (Ok (), p)" using basics by (simp add: bp_hash_blocks_def Let_def)
    moreover have "\<not> (?start \<le> k \<and> k < ?stop)" for k using False by linarith
    ultimately show thesis using that [of p] by blast
  next
    case True
    have loop: "\<exists>p'. hash_blocks_loop xxh (?stop - ?start) ?start h (identity_before (token_ids s) ?start) p s
         = (Ok (), p')
       \<and> (\<forall>k. ?start \<le> k \<and> k < ?stop \<longrightarrow>
            prefix_identity (blocks p' ! (block_table s ! k)) = Some (identity_at (token_ids s) k))
       \<and> (\<forall>j < length (blocks p). (\<forall>k. ?start \<le> k \<and> k < ?stop \<longrightarrow> block_table s ! k \<noteq> j)
            \<longrightarrow> blocks p' ! j = blocks p ! j)" for h
      using hash_blocks_loop_spec [OF wf tbl, of ?start "?stop - ?start" xxh h] le stop_len stop_tok
      by simp
    show thesis
    proof (cases "?start")
      case 0
      then show thesis using loop [of "- 1"] that True basics
        by (auto simp: bp_hash_blocks_def Let_def)
    next
      case (Suc j)
      have j: "j < length (block_table s)" using Suc True stop_len by linarith
      then have b: "block_table s ! j < length (blocks p)" using tbl(2) nth_mem by blast
      have "prefix_identity (blocks p ! (block_table s ! j)) = identity_before (token_ids s) ?start"
        using con j Suc by (simp add: content_ok_def)
      then show thesis
        using loop [of "block_hash (blocks p ! (block_table s ! j))"] that True basics Suc j b
        by (auto simp: bp_hash_blocks_def Let_def)
    qed
  qed
  note fr = bp_hash_blocks_frame [OF r(1)]
  have share: "share_ok p'"
    unfolding share_ok_def
  proof (intro allI impI)
    fix i assume "i < length (blocks p')"
    then have i: "i < length (blocks p)" using fr(1) by simp
    show "case prefix_identity (blocks p' ! i) of None \<Rightarrow> ref_count (blocks p' ! i) \<le> 1
        | Some ident \<Rightarrow> length (identity_tokens ident) = BLOCK_SIZE"
    proof (cases "\<exists>k. ?start \<le> k \<and> k < ?stop \<and> block_table s ! k = i")
      case True
      then obtain k where k: "?start \<le> k" "k < ?stop" "block_table s ! k = i" by blast
      then have id: "prefix_identity (blocks p' ! i) = Some (identity_at (token_ids s) k)"
        using r(2) by blast
      have "k < num_tokens s div BLOCK_SIZE"
        using k(2) fits(1) by (meson div_le_mono less_le_trans)
      then have "length (block_tokens (token_ids s) k) = BLOCK_SIZE"
        using take_drop_nth_block [of k "token_ids s" BLOCK_SIZE] wf by (simp add: block_tokens_def)
      with id show ?thesis by simp
    next
      case False
      then have eq: "blocks p' ! i = blocks p ! i" using r(3) i by blast
      from basics(3) i show ?thesis unfolding share_ok_def eq by blast
    qed
  qed
  have content: "content_ok p' ?s"
  proof -
    have "prefix_identity (blocks p' ! (block_table s ! j))
        = (if j < ?stop then Some (identity_at (token_ids s) j) else None)"
      if j: "j < length (block_table s)" for j
    proof (cases "?start \<le> j \<and> j < ?stop")
      case True
      then show ?thesis using r(2) by simp
    next
      case False
      have "block_table s ! k \<noteq> block_table s ! j" if "?start \<le> k \<and> k < ?stop" for k
        using that False stop_len j tbl(1) by (auto simp: nth_eq_iff_index_eq)
      moreover have "block_table s ! j < length (blocks p)" using tbl(2) j nth_mem by blast
      ultimately have "blocks p' ! (block_table s ! j) = blocks p ! (block_table s ! j)"
        using r(3) by blast
      then show ?thesis using con j False le by (auto simp: content_ok_def)
    qed
    then show ?thesis using wf fits by (simp add: content_ok_def)
  qed
  have others: "content_ok p' u" if u: "u \<in># S" for u
  proof (rule content_ok_frame)
    show "content_ok p u" using inv u by (simp add: cache_inv_def)
    show "\<forall>i \<in> set (block_table u). prefix_identity (blocks p' ! i) = prefix_identity (blocks p ! i)"
    proof
      fix i assume i: "i \<in> set (block_table u)"
      have "block_table s ! k \<noteq> i" if "?start \<le> k \<and> k < ?stop" for k
        using unpublished_exclusive [OF inv _ _ u, of k] that stop_len i by auto
      moreover have "i < length (blocks p)"
        using owns_table(2) [OF own, of "block_table u"] u i by auto
      ultimately have "blocks p' ! i = blocks p ! i" using r(3) by blast
      then show "prefix_identity (blocks p' ! i) = prefix_identity (blocks p ! i)" by simp
    qed
  qed
  have "cache_inv p' (add_mset ?s S)"
    using bp_hash_blocks_owns [OF own r(1)] fr share content others basics by (simp add: cache_inv_def)
  then show thesis using that r(1) fr by blast
qed

end
