(* ===== verification/KV_Cache_Manager.thy ===== *)
theory KV_Cache_Manager
  imports Prefix_Cache
begin

text \<open>
  \<^verbatim>\<open>engine/kv_cache_manager.rs\<close>: the only seam through which the scheduler reaches the block
  pool. Every ownership method forwards to the pool; \<open>compute_slot_mapping\<close> is the bridge from
  a logical position to a slot of the physical cache. The shared handle to the physical
  \<^verbatim>\<open>PagedKVCache\<close> is stored but never used by these methods and is left out of the record.

  The locale \<open>kv_seam\<close> is the contract the scheduler relies on; it is interpreted on the
  manager's own operations at the end of the theory.
\<close>

datatype kv_cache_error = KvCacheError block_pool_error

record kv_cache_manager =
  pool :: block_pool
  kv_block_size :: nat

definition kv_new :: "nat \<Rightarrow> nat \<Rightarrow> kv_cache_manager" where
  "kv_new n bs = \<lparr>pool = bp_new n bs, kv_block_size = bs\<rparr>"

definition kv_can_allocate ::
    "hasher \<Rightarrow> kv_cache_manager \<Rightarrow> sequence \<Rightarrow> (block_pool_error, nat option) outcome" where
  "kv_can_allocate xxh m s = bp_can_allocate xxh (pool m) s"

definition kv_allocate ::
    "hasher \<Rightarrow> kv_cache_manager \<Rightarrow> sequence \<Rightarrow> nat
     \<Rightarrow> (block_pool_error, unit) outcome \<times> kv_cache_manager \<times> sequence" where
  "kv_allocate xxh m s k =
     (case bp_allocate xxh (pool m) s k of (r, p', s') \<Rightarrow> (r, m\<lparr>pool := p'\<rparr>, s'))"

definition kv_deallocate ::
    "kv_cache_manager \<Rightarrow> sequence
     \<Rightarrow> (block_pool_error, unit) outcome \<times> kv_cache_manager \<times> sequence" where
  "kv_deallocate m s = (case bp_deallocate (pool m) s of (r, p', s') \<Rightarrow> (r, m\<lparr>pool := p'\<rparr>, s'))"

definition kv_deallocate_batch ::
    "kv_cache_manager \<Rightarrow> sequence list
     \<Rightarrow> (kv_cache_error, unit) outcome \<times> kv_cache_manager \<times> sequence list" where
  "kv_deallocate_batch m ss =
     (case bp_deallocate_batch (pool m) ss of
        (r, p', ss') \<Rightarrow> (map_err KvCacheError r, m\<lparr>pool := p'\<rparr>, ss'))"

definition kv_can_append :: "kv_cache_manager \<Rightarrow> sequence \<Rightarrow> bool" where
  "kv_can_append m s = bp_can_append (pool m) s"

definition kv_may_append ::
    "kv_cache_manager \<Rightarrow> sequence
     \<Rightarrow> (block_pool_error, unit) outcome \<times> kv_cache_manager \<times> sequence" where
  "kv_may_append m s = (case bp_may_append (pool m) s of (r, p', s') \<Rightarrow> (r, m\<lparr>pool := p'\<rparr>, s'))"

definition kv_can_append_batch :: "kv_cache_manager \<Rightarrow> sequence list \<Rightarrow> bool" where
  "kv_can_append_batch m ss = bp_can_append_batch (pool m) ss"

definition kv_may_append_batch ::
    "kv_cache_manager \<Rightarrow> sequence list
     \<Rightarrow> (kv_cache_error, unit) outcome \<times> kv_cache_manager \<times> sequence list" where
  "kv_may_append_batch m ss =
     (case bp_may_append_batch (pool m) ss of
        (r, p', ss') \<Rightarrow> (map_err KvCacheError r, m\<lparr>pool := p'\<rparr>, ss'))"

definition kv_hash_blocks ::
    "hasher \<Rightarrow> kv_cache_manager \<Rightarrow> sequence \<Rightarrow> (block_pool_error, unit) outcome \<times> kv_cache_manager" where
  "kv_hash_blocks xxh m s =
     (case bp_hash_blocks xxh (pool m) s of (r, p') \<Rightarrow> (r, m\<lparr>pool := p'\<rparr>))"

text \<open>One entry of the slot mapping: the flat slot of an absolute position, or \<open>-1\<close>.\<close>

definition slot_of :: "kv_cache_manager \<Rightarrow> sequence \<Rightarrow> nat \<Rightarrow> int" where
  "slot_of m s abs_idx =
     (let block_idx = abs_idx div kv_block_size m; intra_offset = abs_idx mod kv_block_size m
      in if block_idx < length (block_table s)
         then usize_as_i64 (block_table s ! block_idx * kv_block_size m + intra_offset)
         else - 1)"

definition compute_slot_mapping ::
    "kv_cache_manager \<Rightarrow> sequence \<Rightarrow> nat \<Rightarrow> nat \<Rightarrow> ('e, int list) outcome" where
  "compute_slot_mapping m s token_offset n =
     (if kv_block_size m = 0 \<and> 0 < n then Panicked
      else Ok (map (\<lambda>i. slot_of m s (token_offset + i)) [0..<n]))"

definition kv_num_free_blocks :: "kv_cache_manager \<Rightarrow> nat" where
  "kv_num_free_blocks m = bp_num_free_blocks (pool m)"

section \<open>Capacity\<close>

text \<open>The append precondition of one sequence, and the blocks a batch still needs.\<close>

definition append_gap_ok :: "sequence \<Rightarrow> bool" where
  "append_gap_ok s \<longleftrightarrow>
     length (block_table s) \<le> num_blocks s \<and> num_blocks s \<le> length (block_table s) + 1"

definition missing_blocks :: "sequence list \<Rightarrow> nat" where
  "missing_blocks ss = sum_list (map (\<lambda>s. num_blocks s - length (block_table s)) ss)"

definition occupied :: "sequence multiset \<Rightarrow> nat set" where
  "occupied S = (\<Union>s \<in> set_mset S. set (block_table s))"

lemma missing_blocks_le: "\<forall>s \<in> set ss. append_gap_ok s \<Longrightarrow> missing_blocks ss \<le> length ss"
  by (induction ss) (auto simp: missing_blocks_def append_gap_ok_def)

lemma required_append_blocks_Some_iff:
  assumes "r + length ss < usize_bound"
  shows "required_append_blocks r ss = Some q
    \<longleftrightarrow> (\<forall>s \<in> set ss. append_gap_ok s) \<and> q = r + missing_blocks ss"
  using assms
proof (induction ss arbitrary: r)
  case Nil
  then show ?case by (auto simp: missing_blocks_def)
next
  case (Cons s ss)
  show ?case
  proof (cases "append_gap_ok s")
    case False
    then show ?thesis by (auto simp: append_gap_ok_def split: option.splits)
  next
    case True
    define gap where "gap = num_blocks s - length (block_table s)"
    have gap: "checked_sub (num_blocks s) (length (block_table s)) = Some gap" "gap \<le> 1"
      using True by (auto simp: gap_def append_gap_ok_def)
    then have "checked_add r gap = Some (r + gap)" "\<not> 1 < gap"
      using Cons.prems by (simp_all add: checked_add_def)
    then have "required_append_blocks r (s # ss) = required_append_blocks (r + gap) ss"
      by (simp only: required_append_blocks.simps gap(1) option.case if_False)
    then show ?thesis using Cons.IH [of "r + gap"] Cons.prems gap(2) True
      by (simp add: missing_blocks_def gap_def) linarith
  qed
qed

lemma bp_can_append_batch_iff:
  assumes "length ss < usize_bound"
  shows "bp_can_append_batch p ss
    \<longleftrightarrow> (\<forall>s \<in> set ss. append_gap_ok s) \<and> missing_blocks ss \<le> length (free_block_ids p)"
proof (cases "required_append_blocks 0 ss")
  case None
  then have "\<not> (\<forall>s \<in> set ss. append_gap_ok s)"
    using required_append_blocks_Some_iff [of 0 ss "missing_blocks ss"] assms by auto
  then show ?thesis by (simp add: bp_can_append_batch_def None)
next
  case (Some q)
  then show ?thesis using required_append_blocks_Some_iff [of 0 ss q] assms
    by (simp add: bp_can_append_batch_def)
qed

lemma append_indices_missing:
  "append_indices i ss = Ok is \<Longrightarrow> length is = missing_blocks ss"
proof (induction i ss arbitrary: "is" rule: append_indices.induct)
  case (1 i)
  then show ?case by (simp add: missing_blocks_def)
next
  case (2 i s ss)
  from "2.prems" obtain js where gap: "checked_sub (num_blocks s) (length (block_table s))
      = Some (num_blocks s - length (block_table s))" "\<not> 1 < num_blocks s - length (block_table s)"
    and js: "append_indices (Suc i) ss = Ok js"
      "is = (if num_blocks s - length (block_table s) = 1 then i # js else js)"
    by (auto simp: rbind_Ok_iff split: option.splits if_splits)
  from "2.IH" [OF gap js(1)] gap(2) js(2) show ?case by (auto simp: missing_blocks_def)
qed

text \<open>A batch that passes \<^verbatim>\<open>can_append_batch\<close> can be appended to.\<close>

lemma bp_may_append_batch_error:
  assumes own: "owns p (T + tables ss)" and err: "bp_may_append_batch p ss = (Error e, p, ss)"
  shows "\<not> bp_can_append_batch p ss"
proof
  assume can: "bp_can_append_batch p ss"
  have "size (T + tables ss) < usize_bound" using own by (simp add: owns_def)
  then have len: "length ss < usize_bound" by simp
  from can have gaps: "\<forall>s \<in> set ss. append_gap_ok s" "missing_blocks ss \<le> length (free_block_ids p)"
    using bp_can_append_batch_iff [OF len] by blast+
  obtain "is" where ix: "append_indices 0 ss = Ok is"
    using append_indices_total [of ss 0] gaps(1) by (auto simp: append_gap_ok_def)
  then have n: "length is \<le> length (free_block_ids p)" using append_indices_missing gaps(2) by auto
  have "is = filter (\<lambda>k. needs_block (ss ! k)) [0..<length ss]" using append_indices_Ok [OF ix] by simp
  then have "set is \<subseteq> {..<length ss}" "distinct is" by auto
  with append_blocks_loop_Ok [OF own _ _ n] obtain p' ss' where
    loop: "append_blocks_loop is p ss = (Ok (), p', ss')" by blast
  have chk: "check_free_distinct p {} (take (length is) (free_block_ids p)) = Ok ()"
    using owns_pool_inv [OF own] by (intro check_free_distinct_Ok) (auto simp: pool_inv_def dest: in_set_takeD)
  from ix n loop chk err show False by (simp add: bp_may_append_batch_def not_less)
qed

text \<open>On a consistent pool the free blocks are the ones no live sequence has in its table.\<close>

lemma owns_free_count:
  assumes own: "owns p (image_mset block_table S)"
  shows "length (free_block_ids p) + card (occupied S) = length (blocks p)"
proof -
  have inv: "pool_inv p" using own by (rule owns_pool_inv)
  have "used_block_ids p = occupied S"
    using owns_used_iff [OF own] owns_table(2) [OF own] by (auto simp: occupied_def)
  then have "set (free_block_ids p) \<inter> occupied S = {}" "set (free_block_ids p) \<union> occupied S = {..<length (blocks p)}"
    using inv by (auto simp: pool_inv_def)
  moreover from this(2) have "finite (occupied S)" by (metis finite_Un finite_lessThan)
  ultimately have "card (set (free_block_ids p)) + card (occupied S) = length (blocks p)"
    by (metis card_Un_disjoint card_lessThan finite_set)
  with inv show ?thesis by (simp add: pool_inv_def distinct_card)
qed

lemma bp_can_allocate_unused:
  assumes len: "length (token_ids s) = num_tokens s" and used: "used_block_ids p = {}"
    and fit: "num_blocks s \<le> length (free_block_ids p)"
  shows "\<exists>k. bp_can_allocate xxh p s = Ok (Some k)"
proof -
  obtain bs where "cached_prefix_block_ids xxh p s (num_blocks s - 1) = Ok bs"
    by (rule cached_prefix_block_ids_spec [OF len, of "num_blocks s - 1" xxh p]) simp_all
  with used fit show ?thesis by (simp add: bp_can_allocate_def Let_def)
qed

section \<open>The contract of the seam\<close>

locale kv_seam =
  fixes inv :: "'m \<Rightarrow> sequence multiset \<Rightarrow> bool"
    and can_allocate :: "'m \<Rightarrow> sequence \<Rightarrow> ('e, nat option) outcome"
    and allocate :: "'m \<Rightarrow> sequence \<Rightarrow> nat \<Rightarrow> ('e, unit) outcome \<times> 'm \<times> sequence"
    and deallocate :: "'m \<Rightarrow> sequence \<Rightarrow> ('e, unit) outcome \<times> 'm \<times> sequence"
    and deallocate_batch :: "'m \<Rightarrow> sequence list \<Rightarrow> ('d, unit) outcome \<times> 'm \<times> sequence list"
    and append_batch :: "'m \<Rightarrow> sequence list \<Rightarrow> ('d, unit) outcome \<times> 'm \<times> sequence list"
    and can_append_batch :: "'m \<Rightarrow> sequence list \<Rightarrow> bool"
    and publish :: "'m \<Rightarrow> sequence \<Rightarrow> ('e, unit) outcome \<times> 'm"
    and capacity :: "'m \<Rightarrow> nat"
    and free_blocks :: "'m \<Rightarrow> nat"
  assumes inv_view: "inv m (add_mset s S) \<Longrightarrow> same_cache_view s s' \<Longrightarrow> inv m (add_mset s' S)"
    and inv_append_token: "inv m (add_mset s S) \<Longrightarrow> inv m (add_mset (append_token s t) S)"
    and inv_admit: "inv m S \<Longrightarrow> block_table s = [] \<Longrightarrow> num_cached_tokens s = 0 \<Longrightarrow>
        length (token_ids s) = num_tokens s \<Longrightarrow> size S + 1 < usize_bound \<Longrightarrow> inv m (add_mset s S)"
    and inv_retire: "inv m (add_mset s S) \<Longrightarrow> block_table s = [] \<Longrightarrow> inv m S"
    and can_allocate_total: "inv m (add_mset s S) \<Longrightarrow> \<exists>r. can_allocate m s = Ok r"
    and allocate_ok: "inv m (add_mset s S) \<Longrightarrow> block_table s = [] \<Longrightarrow> num_cached_tokens s = 0 \<Longrightarrow>
        num_blocks s < usize_bound \<Longrightarrow> 0 < num_tokens s \<Longrightarrow> can_allocate m s = Ok (Some k) \<Longrightarrow>
        \<exists>m' t. allocate m s k = (Ok (), m', s\<lparr>block_table := t, num_cached_tokens := k * BLOCK_SIZE\<rparr>)
          \<and> inv m' (add_mset (s\<lparr>block_table := t, num_cached_tokens := k * BLOCK_SIZE\<rparr>) S)
          \<and> length t = num_blocks s \<and> k < num_blocks s \<and> capacity m' = capacity m"
    and deallocate_ok: "inv m (add_mset s S) \<Longrightarrow>
        \<exists>m'. deallocate m s = (Ok (), m', clear_blocks s) \<and> inv m' (add_mset (clear_blocks s) S)
          \<and> capacity m' = capacity m"
    and deallocate_batch_ok: "inv m (S + mset ss) \<Longrightarrow>
        \<exists>m'. deallocate_batch m ss = (Ok (), m', map clear_blocks ss) \<and> inv m' S
          \<and> capacity m' = capacity m"
    and append_batch_cases: "inv m (S + mset ss) \<Longrightarrow>
        (\<exists>m' ss'. append_batch m ss = (Ok (), m', ss') \<and> inv m' (S + mset ss')
           \<and> list_all2 (\<lambda>s s'. \<exists>t. s' = s\<lparr>block_table := t\<rparr> \<and> length t = num_blocks s) ss ss'
           \<and> capacity m' = capacity m)
        \<or> (\<exists>e. append_batch m ss = (Error e, m, ss)) \<and> \<not> can_append_batch m ss"
    and can_append_iff: "inv m (S + mset ss) \<Longrightarrow> can_append_batch m ss
        \<longleftrightarrow> (\<forall>s \<in> set ss. append_gap_ok s) \<and> missing_blocks ss \<le> free_blocks m"
    and publish_ok: "inv m (add_mset s S) \<Longrightarrow>
        num_cached_tokens s + num_scheduled_tokens s \<le> num_tokens s \<Longrightarrow>
        num_cached_tokens s + num_scheduled_tokens s \<le> length (block_table s) * BLOCK_SIZE \<Longrightarrow>
        \<exists>m'. publish m s = (Ok (), m') \<and> capacity m' = capacity m
          \<and> inv m' (add_mset (s\<lparr>num_cached_tokens := num_cached_tokens s + num_scheduled_tokens s\<rparr>) S)"
    and free_count: "inv m S \<Longrightarrow> free_blocks m + card (occupied S) = capacity m"
    and can_allocate_unused: "inv m (add_mset s S) \<Longrightarrow> occupied (add_mset s S) = {} \<Longrightarrow>
        num_blocks s \<le> capacity m \<Longrightarrow> \<exists>k. can_allocate m s = Ok (Some k)"
begin

text \<open>Fields the cache does not look at may change for any number of sequences at once.\<close>

lemma inv_view_list:
  "inv m (S + mset ss) \<Longrightarrow> list_all2 same_cache_view ss ss' \<Longrightarrow> inv m (S + mset ss')"
proof (induction ss arbitrary: ss' S)
  case Nil
  then show ?case by simp
next
  case (Cons s ss)
  then obtain s' rest where ss': "ss' = s' # rest" "same_cache_view s s'" "list_all2 same_cache_view ss rest"
    by (auto simp: list_all2_Cons1)
  have "inv m (add_mset s' (S + mset ss))" using inv_view [of m s "S + mset ss"] Cons.prems(1) ss'(2) by simp
  then have "inv m ((S + {#s'#}) + mset ss)" by simp
  from Cons.IH [OF this ss'(3)] show ?case using ss'(1) by simp
qed

text \<open>Admission that is rolled back leaves the sequence as it was, with nothing owned.\<close>

lemma allocate_then_deallocate:
  assumes "inv m (add_mset s S)" "block_table s = []" "num_cached_tokens s = 0"
    "num_blocks s < usize_bound" "0 < num_tokens s" "can_allocate m s = Ok (Some k)"
  shows "\<exists>m' s' m''. allocate m s k = (Ok (), m', s') \<and> deallocate m' s' = (Ok (), m'', s)
    \<and> inv m'' (add_mset s S) \<and> capacity m'' = capacity m"
proof -
  obtain m' t where a: "allocate m s k = (Ok (), m', s\<lparr>block_table := t, num_cached_tokens := k * BLOCK_SIZE\<rparr>)"
    "inv m' (add_mset (s\<lparr>block_table := t, num_cached_tokens := k * BLOCK_SIZE\<rparr>) S)"
    "capacity m' = capacity m"
    using allocate_ok [OF assms] by blast
  have "clear_blocks (s\<lparr>block_table := t, num_cached_tokens := k * BLOCK_SIZE\<rparr>) = s"
    using assms(2,3) by simp
  with deallocate_ok [OF a(2)] a(1,3) show ?thesis by (metis (no_types, lifting))
qed

text \<open>Once everything is released, every block is free again.\<close>

lemma deallocate_all_frees:
  assumes "inv m (mset ss)"
  shows "\<exists>m'. deallocate_batch m ss = (Ok (), m', map clear_blocks ss) \<and> inv m' {#}
    \<and> free_blocks m' = capacity m"
proof -
  obtain m' where "deallocate_batch m ss = (Ok (), m', map clear_blocks ss)" "inv m' {#}" "capacity m' = capacity m"
    using deallocate_batch_ok [of m "{#}" ss] assms by auto
  with free_count [of m' "{#}"] show ?thesis by (auto simp: occupied_def)
qed

text \<open>Appending to a sublist depends only on the free blocks.\<close>

lemma append_batch_ok:
  assumes "inv m (S + mset ss)" "\<forall>s \<in> set ss. append_gap_ok s" "missing_blocks ss \<le> free_blocks m"
  shows "\<exists>m' ss'. append_batch m ss = (Ok (), m', ss') \<and> inv m' (S + mset ss')
           \<and> list_all2 (\<lambda>s s'. \<exists>t. s' = s\<lparr>block_table := t\<rparr> \<and> length t = num_blocks s) ss ss'
           \<and> capacity m' = capacity m"
  using append_batch_cases [OF assms(1)] can_append_iff [OF assms(1)] assms(2,3) by blast

end

section \<open>The manager provides it\<close>

definition kv_inv :: "kv_cache_manager \<Rightarrow> sequence multiset \<Rightarrow> bool" where
  "kv_inv m S \<longleftrightarrow> cache_inv (pool m) S \<and> kv_block_size m = BLOCK_SIZE"

definition kv_capacity :: "kv_cache_manager \<Rightarrow> nat" where
  "kv_capacity m = length (blocks (pool m))"

lemma bp_can_allocate_total:
  assumes "length (token_ids s) = num_tokens s"
  shows "\<exists>r. bp_can_allocate xxh p s = Ok r"
proof -
  obtain bs where "cached_prefix_block_ids xxh p s (num_blocks s - 1) = Ok bs"
    by (rule cached_prefix_block_ids_spec [OF assms, of "num_blocks s - 1" xxh p]) simp_all
  then show ?thesis by (simp add: bp_can_allocate_def Let_def)
qed

lemma bp_can_allocate_hits:
  assumes "length (token_ids s) = num_tokens s" "0 < num_blocks s" "bp_can_allocate xxh p s = Ok (Some k)"
  shows "k < num_blocks s"
proof -
  obtain bs where bs: "cached_prefix_block_ids xxh p s (num_blocks s - 1) = Ok bs" "length bs \<le> num_blocks s - 1"
    by (rule cached_prefix_block_ids_spec [OF assms(1), of "num_blocks s - 1" xxh p]) simp_all
  have "k = 0 \<or> k = length bs"
    using assms(3) bs(1) by (auto simp: bp_can_allocate_def Let_def split: if_splits)
  then show ?thesis using bs(2) assms(2) by linarith
qed

lemma kv_allocate_contract:
  assumes inv: "kv_inv m (add_mset s S)" and fresh: "block_table s = []" "num_cached_tokens s = 0"
    and nb: "num_blocks s < usize_bound" "0 < num_tokens s" and can: "kv_can_allocate xxh m s = Ok (Some k)"
  shows "\<exists>m' t. kv_allocate xxh m s k
            = (Ok (), m', s\<lparr>block_table := t, num_cached_tokens := k * BLOCK_SIZE\<rparr>)
          \<and> kv_inv m' (add_mset (s\<lparr>block_table := t, num_cached_tokens := k * BLOCK_SIZE\<rparr>) S)
          \<and> length t = num_blocks s \<and> k < num_blocks s \<and> kv_capacity m' = kv_capacity m"
proof -
  have ci: "cache_inv (pool m) (add_mset s S)" using inv by (simp add: kv_inv_def)
  have own: "owns (pool m) (add_mset [] (image_mset block_table S))"
    using ci fresh(1) by (simp add: cache_inv_def)
  have wf: "length (token_ids s) = num_tokens s" using ci by (simp add: cache_inv_def content_ok_def)
  have can': "bp_can_allocate xxh (pool m) s = Ok (Some k)" using can by (simp add: kv_can_allocate_def)
  obtain cached where v: "allocate_validate xxh (pool m) s k = Ok cached"
    using can_allocate_validates [OF own wf fresh(1) nb(1) can'] by blast
  have pos: "0 < num_blocks s" using nb(2) by (simp add: less_num_blocks_iff)
  from bp_can_allocate_hits [OF wf pos can'] have k: "k < num_blocks s" .
  obtain p' news where r: "bp_allocate xxh (pool m) s k
       = (Ok (), p', s\<lparr>block_table := cached @ news, num_cached_tokens := k * BLOCK_SIZE\<rparr>)"
    "cache_inv p' (add_mset (s\<lparr>block_table := cached @ news, num_cached_tokens := k * BLOCK_SIZE\<rparr>) S)"
    "k + length news = num_blocks s" "length (blocks p') = length (blocks (pool m))"
    by (rule cache_inv_allocate [OF ci fresh(2) v])
  have "length (cached @ news) = num_blocks s" using r(3) allocate_validate_Ok(3) [OF v] by simp
  then show ?thesis using r k inv
    by (intro exI [of _ "m\<lparr>pool := p'\<rparr>"] exI [of _ "cached @ news"])
       (simp add: kv_allocate_def kv_inv_def kv_capacity_def)
qed

lemma kv_deallocate_contract:
  assumes "kv_inv m (add_mset s S)"
  shows "\<exists>m'. kv_deallocate m s = (Ok (), m', clear_blocks s) \<and> kv_inv m' (add_mset (clear_blocks s) S)
    \<and> kv_capacity m' = kv_capacity m"
proof -
  have ci: "cache_inv (pool m) (add_mset s S)" using assms by (simp add: kv_inv_def)
  obtain p' where "bp_deallocate (pool m) s = (Ok (), p', clear_blocks s)"
    "cache_inv p' (add_mset (clear_blocks s) S)" "length (blocks p') = length (blocks (pool m))"
    by (rule cache_inv_deallocate [OF ci])
  then show ?thesis using assms
    by (intro exI [of _ "m\<lparr>pool := p'\<rparr>"]) (simp add: kv_deallocate_def kv_inv_def kv_capacity_def)
qed

lemma cache_inv_retire:
  assumes "cache_inv p (S + U)" "owns p (image_mset block_table S)"
  shows "cache_inv p S"
  using assms by (simp add: cache_inv_def)

lemma kv_deallocate_batch_contract:
  assumes "kv_inv m (S + mset ss)"
  shows "\<exists>m'. kv_deallocate_batch m ss = (Ok (), m', map clear_blocks ss) \<and> kv_inv m' S
    \<and> kv_capacity m' = kv_capacity m"
proof -
  have ci: "cache_inv (pool m) (S + mset ss)" using assms by (simp add: kv_inv_def)
  obtain p' where p': "bp_deallocate_batch (pool m) ss = (Ok (), p', map clear_blocks ss)"
    "cache_inv p' (S + mset (map clear_blocks ss))" "owns p' (image_mset block_table S)"
    "length (blocks p') = length (blocks (pool m))"
    by (rule cache_inv_deallocate_batch [OF ci])
  from cache_inv_retire [OF p'(2,3)] p' assms show ?thesis
    by (intro exI [of _ "m\<lparr>pool := p'\<rparr>"]) (simp add: kv_deallocate_batch_def kv_inv_def kv_capacity_def)
qed

lemma kv_append_batch_contract:
  assumes "kv_inv m (S + mset ss)"
  shows "(\<exists>m' ss'. kv_may_append_batch m ss = (Ok (), m', ss') \<and> kv_inv m' (S + mset ss')
           \<and> list_all2 (\<lambda>s s'. \<exists>t. s' = s\<lparr>block_table := t\<rparr> \<and> length t = num_blocks s) ss ss'
           \<and> kv_capacity m' = kv_capacity m)
        \<or> (\<exists>e. kv_may_append_batch m ss = (Error e, m, ss)) \<and> \<not> kv_can_append_batch m ss"
proof -
  have ci: "cache_inv (pool m) (S + mset ss)" using assms by (simp add: kv_inv_def)
  then show ?thesis
  proof (cases rule: cache_inv_may_append_batch)
    case (ok p' ss')
    have "\<exists>t. s' = s\<lparr>block_table := t\<rparr> \<and> length t = num_blocks s"
      if s: "s \<in> set ss" and app: "appended (pool m) p' s s'" for s s'
    proof (cases "needs_block s")
      case True
      then obtain b where "s' = push_block b s" using app by (auto simp: appended_def)
      moreover have "Suc (length (block_table s)) = num_blocks s"
        using ok(4) s True by (auto simp: needs_block_def)
      ultimately show ?thesis by (intro exI [of _ "block_table s @ [b]"]) simp
    next
      case False
      then show ?thesis using app ok(4) s
        by (intro exI [of _ "block_table s"]) (auto simp: appended_def needs_block_def)
    qed
    then have "list_all2 (\<lambda>s s'. \<exists>t. s' = s\<lparr>block_table := t\<rparr> \<and> length t = num_blocks s) ss ss'"
      by (rule list.rel_mono_strong [OF ok(3)])
    with ok assms show ?thesis
      by (intro disjI1 exI [of _ "m\<lparr>pool := p'\<rparr>"] exI [of _ ss'])
         (simp add: kv_may_append_batch_def kv_inv_def kv_capacity_def)
  next
    case (err e)
    have "owns (pool m) (image_mset block_table S + tables ss)" using ci by (simp add: cache_inv_def)
    then have "\<not> kv_can_append_batch m ss"
      using bp_may_append_batch_error err by (auto simp: kv_can_append_batch_def)
    then show ?thesis using err
      by (intro disjI2 conjI exI [of _ "KvCacheError e"]) (simp_all add: kv_may_append_batch_def)
  qed
qed

lemma kv_publish_contract:
  assumes "kv_inv m (add_mset s S)" "num_cached_tokens s + num_scheduled_tokens s \<le> num_tokens s"
    "num_cached_tokens s + num_scheduled_tokens s \<le> length (block_table s) * BLOCK_SIZE"
  shows "\<exists>m'. kv_hash_blocks xxh m s = (Ok (), m') \<and> kv_capacity m' = kv_capacity m
    \<and> kv_inv m' (add_mset (s\<lparr>num_cached_tokens := num_cached_tokens s + num_scheduled_tokens s\<rparr>) S)"
proof -
  have ci: "cache_inv (pool m) (add_mset s S)" using assms(1) by (simp add: kv_inv_def)
  obtain p' where "bp_hash_blocks xxh (pool m) s = (Ok (), p')"
    "cache_inv p' (add_mset (s\<lparr>num_cached_tokens := num_cached_tokens s + num_scheduled_tokens s\<rparr>) S)"
    "length (blocks p') = length (blocks (pool m))"
    by (rule cache_inv_hash_blocks [OF ci assms(2,3)])
  then show ?thesis using assms(1)
    by (intro exI [of _ "m\<lparr>pool := p'\<rparr>"]) (simp add: kv_hash_blocks_def kv_inv_def kv_capacity_def)
qed

lemma kv_can_append_iff:
  assumes "kv_inv m (S + mset ss)"
  shows "kv_can_append_batch m ss
    \<longleftrightarrow> (\<forall>s \<in> set ss. append_gap_ok s) \<and> missing_blocks ss \<le> kv_num_free_blocks m"
proof -
  have "size (image_mset block_table (S + mset ss)) < usize_bound"
    using assms by (simp add: kv_inv_def cache_inv_def owns_def)
  then have "length ss < usize_bound" by simp
  from bp_can_append_batch_iff [OF this] show ?thesis
    by (simp add: kv_can_append_batch_def kv_num_free_blocks_def bp_num_free_blocks_def)
qed

lemma kv_free_count:
  "kv_inv m S \<Longrightarrow> kv_num_free_blocks m + card (occupied S) = kv_capacity m"
  using owns_free_count [of "pool m" S]
  by (simp add: kv_inv_def cache_inv_def kv_num_free_blocks_def bp_num_free_blocks_def kv_capacity_def)

lemma kv_can_allocate_unused:
  assumes inv: "kv_inv m (add_mset s S)" and occ: "occupied (add_mset s S) = {}"
    and fit: "num_blocks s \<le> kv_capacity m"
  shows "\<exists>k. kv_can_allocate xxh m s = Ok (Some k)"
proof -
  have own: "owns (pool m) (image_mset block_table (add_mset s S))"
    and len: "length (token_ids s) = num_tokens s"
    using inv by (simp_all add: kv_inv_def cache_inv_def content_ok_def)
  have "used_block_ids (pool m) = {}" using owns_used_iff [OF own] occ by (auto simp: occupied_def)
  moreover have "num_blocks s \<le> length (free_block_ids (pool m))"
    using owns_free_count [OF own] occ fit by (simp add: kv_capacity_def)
  ultimately show ?thesis using bp_can_allocate_unused [OF len] by (simp add: kv_can_allocate_def)
qed

interpretation kv: kv_seam kv_inv "kv_can_allocate xxh" "kv_allocate xxh" kv_deallocate
  kv_deallocate_batch kv_may_append_batch kv_can_append_batch "kv_hash_blocks xxh" kv_capacity kv_num_free_blocks
  for xxh
proof (unfold_locales, goal_cases)
  case (1 m s S s')
  then show ?case by (auto simp: kv_inv_def intro: cache_inv_view)
next
  case (2 m s S t)
  then show ?case by (auto simp: kv_inv_def intro: cache_inv_append_token)
next
  case (3 m S s)
  then show ?case by (auto simp: kv_inv_def intro: cache_inv_add)
next
  case (4 m s S)
  then show ?case by (auto simp: kv_inv_def cache_inv_def intro: owns_drop_empty)
next
  case (5 m s S)
  then show ?case using bp_can_allocate_total [of s xxh "pool m"]
    by (simp add: kv_can_allocate_def kv_inv_def cache_inv_def content_ok_def)
next
  case (6 m s S k)
  then show ?case by (rule kv_allocate_contract)
next
  case (7 m s S)
  then show ?case by (rule kv_deallocate_contract)
next
  case (8 m S ss)
  then show ?case by (rule kv_deallocate_batch_contract)
next
  case (9 m S ss)
  then show ?case by (rule kv_append_batch_contract)
next
  case (10 m S ss)
  then show ?case by (rule kv_can_append_iff)
next
  case (11 m s S)
  then show ?case by (rule kv_publish_contract)
next
  case (12 m S)
  then show ?case by (rule kv_free_count)
next
  case (13 m s S)
  then show ?case by (rule kv_can_allocate_unused)
qed

end
