(* ===== verification/Step_Plan.thy ===== *)
theory Step_Plan
  imports Attn_Metadata KV_Cache_Manager
begin

text \<open>
  \<^verbatim>\<open>engine/step.rs\<close>: the immutable plan of one engine step, the result that answers it and the
  errors of planning and applying. A \<^verbatim>\<open>Range<usize>\<close> is a pair of bounds. The texts of
  \<^verbatim>\<open>StepPlanError::Invalid\<close> and of a mismatch are constructors, one per message.
\<close>

datatype cache_operation =
    Allocation
  | AllocationRollback
  | EmptyAllocationRollback
  | AppendAllocation
  | Deallocation
  | FailureCleanup

datatype step_phase = Prefill_step | Decode_step | Mixed_step

datatype sequence_phase = Prefill | Decode

datatype admission_blocked_reason = TokenBudget | SequenceLimit | KvCache

record blocked_admission =
  blocked_request_id :: nat
  reason :: admission_blocked_reason

record sequence_cache_plan =
  cached_token_range :: "nat \<times> nat"
  kv_length :: nat
  plan_block_table :: "nat list"
  slot_mapping :: "int list"

record sequence_step_plan =
  plan_request_id :: nat
  plan_sequence_id :: nat
  plan_phase :: sequence_phase
  token_range :: "nat \<times> nat"
  logical_positions :: "nat \<times> nat"
  seq_token_budget :: nat
  cache :: sequence_cache_plan
  sampling_allowed :: bool
  input_token_ids :: "token list"
  plan_sampling_params :: sampling_params
  token_history :: "token list"
  completion_step :: nat

record step_plan =
  plan_id :: nat
  step_phase_of :: step_phase
  plan_sequences :: "sequence_step_plan list"
  token_budget :: nat
  attention :: attn_metadata
  plan_blocked_admission :: "blocked_admission option"

record sequence_step_result =
  result_request_id :: nat
  result_sequence_id :: nat
  sampled_token :: "token option"

record step_result =
  result_plan_id :: nat
  result_sequences :: "sequence_step_result list"

datatype invalid_plan =
    ScheduledTokenRangeOverflow
  | DecodeSequenceHasNoTokens
  | ZeroTokenWork nat
  | DoesNotFitU32
  | BlockIdDoesNotFitI32
  | RollbackFromEmptyRunning

datatype mismatch_reason =
    SequenceCountDiffers
  | WrongSequence nat nat nat nat
  | SamplingPermissionDiffers nat
  | NoLongerRunning nat
  | NotRunning nat

datatype step_plan_error =
    Invalid invalid_plan
  | PlanAlreadyInFlight nat
  | NoPlanInFlight nat
  | StaleResult nat nat
  | ResultMismatch nat mismatch_reason
  | CacheFailure cache_operation nat kv_cache_error
  | NoProgress nat nat nat nat "blocked_admission option"

text \<open>The text shown for a cache operation and for a blocked admission (\<^verbatim>\<open>Display\<close>).\<close>

definition cache_operation_text :: "cache_operation \<Rightarrow> string" where
  "cache_operation_text op =
     (case op of Allocation \<Rightarrow> ''allocation'' | AllocationRollback \<Rightarrow> ''allocation rollback''
      | EmptyAllocationRollback \<Rightarrow> ''empty allocation rollback''
      | AppendAllocation \<Rightarrow> ''append allocation'' | Deallocation \<Rightarrow> ''deallocation''
      | FailureCleanup \<Rightarrow> ''failure cleanup'')"

definition admission_blocked_reason_text :: "admission_blocked_reason \<Rightarrow> string" where
  "admission_blocked_reason_text r =
     (case r of TokenBudget \<Rightarrow> ''token budget'' | SequenceLimit \<Rightarrow> ''sequence limit''
      | KvCache \<Rightarrow> ''KV cache'')"

text \<open>\<^verbatim>\<open>Error::source\<close>: only a cache failure carries one.\<close>

definition error_source :: "step_plan_error \<Rightarrow> kv_cache_error option" where
  "error_source e = (case e of CacheFailure _ _ src \<Rightarrow> Some src | _ \<Rightarrow> None)"

end
