(* ===== verification/Scheduler.thy ===== *)
theory Scheduler
  imports Step_Plan
begin

text \<open>
  \<^verbatim>\<open>engine/scheduler.rs\<close>: the token-level scheduler. Every operation that changes state takes the
  scheduler and the KV cache manager and returns its outcome together with both as they are when
  it returns, on the error paths too. The loops are recursions: the preemption loop and the
  reservation loop end because each round takes a sequence off \<^verbatim>\<open>running\<close>.

  The field \<^verbatim>\<open>gpu_memory_utilization\<close>, which the scheduler only stores, is left out of the record;
  \<^verbatim>\<open>next_plan_id\<close> and the request counters are \<open>nat\<close>: wrapping them takes \<open>2 ^ 64\<close> steps or
  requests.
\<close>

section \<open>State\<close>

definition DEFAULT_MAX_NUM_BATCHED_TOKENS :: nat where
  "DEFAULT_MAX_NUM_BATCHED_TOKENS = 16384"

definition DEFAULT_MAX_NUM_SEQS :: nat where
  "DEFAULT_MAX_NUM_SEQS = 512"

record work_selection =
  ws_phase :: step_phase
  is_prefill_continuation :: bool
  ws_blocked_admission :: "blocked_admission option"

record request_output =
  out_request_id :: nat
  out_token_ids :: "token list"
  out_text :: string
  out_finished :: bool

record scheduler =
  waiting :: "sequence list"
  running :: "sequence list"
  max_num_batched_tokens :: nat
  max_num_seqs :: nat
  eos_token_ids :: "token list"
  next_seq_id :: nat
  next_request_id :: nat
  next_plan_id :: nat
  in_flight :: "step_plan option"

definition new_with_eos_token_ids :: "nat \<Rightarrow> nat \<Rightarrow> token list \<Rightarrow> scheduler" where
  "new_with_eos_token_ids batched seqs eos = \<lparr>
     waiting = [], running = [], max_num_batched_tokens = batched, max_num_seqs = seqs,
     eos_token_ids = eos, next_seq_id = 0, next_request_id = 0, next_plan_id = 0, in_flight = None\<rparr>"

definition scheduler_new :: "nat \<Rightarrow> nat \<Rightarrow> scheduler" where
  "scheduler_new batched seqs = new_with_eos_token_ids batched seqs []"

definition with_defaults :: scheduler where
  "with_defaults = scheduler_new DEFAULT_MAX_NUM_BATCHED_TOKENS DEFAULT_MAX_NUM_SEQS"

definition add_request :: "scheduler \<Rightarrow> token list \<Rightarrow> sampling_params \<Rightarrow> nat \<times> scheduler" where
  "add_request sch prompt ps =
     (let seq = seq_new (next_request_id sch) (next_seq_id sch) prompt ps
      in (next_request_id sch,
          sch\<lparr>next_seq_id := next_seq_id sch + 1, next_request_id := next_request_id sch + 1,
              waiting := waiting sch @ [seq]\<rparr>))"

definition is_running :: "scheduler \<Rightarrow> bool" where
  "is_running sch = (waiting sch \<noteq> [] \<or> running sch \<noteq> [])"

definition scheduled_tokens :: "scheduler \<Rightarrow> nat" where
  "scheduled_tokens sch = sum_list (map num_scheduled_tokens (running sch))"

text \<open>A call whose Rust type has no error: only a panic can come out of it.\<close>

definition infallible :: "('e, 'a) outcome \<Rightarrow> ('d, 'a) outcome" where
  "infallible r = (case r of Inl _ \<Rightarrow> Panicked | Inr x \<Rightarrow> Ok x)"

lemma infallible_simps [simp]: "infallible (Inl f) = Panicked" "infallible (Inr x) = Ok x"
  by (simp_all add: infallible_def)

section \<open>Work selection\<close>

definition sequence_phase :: "sequence \<Rightarrow> sequence_phase" where
  "sequence_phase s = (if num_cached_tokens s < prefill_target_tokens s then Prefill else Decode)"

definition running_token_count :: "sequence \<Rightarrow> nat \<Rightarrow> nat" where
  "running_token_count s budget =
     (case sequence_phase s of
        Prefill \<Rightarrow> min (prefill_target_tokens s - num_cached_tokens s) budget
      | Decode \<Rightarrow> if 0 < budget then 1 else 0)"

definition admission_block ::
    "hasher \<Rightarrow> scheduler \<Rightarrow> kv_cache_manager \<Rightarrow> nat \<Rightarrow> (step_plan_error, blocked_admission option) outcome" where
  "admission_block xxh sch kv scheduled =
     (case waiting sch of [] \<Rightarrow> Ok None
      | s # _ \<Rightarrow>
          let blocked = (\<lambda>r. Some \<lparr>blocked_request_id = request_id s, reason = r\<rparr>) in
          if max_num_batched_tokens sch \<le> scheduled then Ok (blocked TokenBudget)
          else if max_num_seqs sch \<le> length (running sch) then Ok (blocked SequenceLimit)
          else rbind (infallible (kv_can_allocate xxh kv s)) (\<lambda>c.
            case c of None \<Rightarrow> Ok (blocked KvCache) | Some _ \<Rightarrow> Ok None))"

text \<open>The closure of \<^verbatim>\<open>preempt_if_needed\<close>: the decode sequences the budget reaches.\<close>

fun select_decode :: "nat \<Rightarrow> sequence list \<Rightarrow> sequence list" where
  "select_decode budget [] = []"
| "select_decode budget (s # ss) =
     (let tokens = running_token_count s budget; rest = select_decode (budget - tokens) ss
      in if 0 < tokens \<and> sequence_phase s = Decode then s # rest else rest)"

definition preempted :: "sequence \<Rightarrow> sequence" where
  "preempted v = v\<lparr>status := Waiting, num_scheduled_tokens := 0,
     recompute_target_tokens := Some (max (case recompute_target_tokens v of None \<Rightarrow> 0 | Some t \<Rightarrow> t) (num_tokens v)),
     is_prefill := True\<rparr>"

function preempt_if_needed ::
    "hasher \<Rightarrow> scheduler \<Rightarrow> kv_cache_manager
     \<Rightarrow> (step_plan_error, unit) outcome \<times> scheduler \<times> kv_cache_manager" where
  "preempt_if_needed xxh sch kv =
     (case admission_block xxh sch kv 0 of Inl f \<Rightarrow> (Inl f, sch, kv)
      | Inr blocked \<Rightarrow>
          let reserve = (waiting sch \<noteq> [] \<and> blocked = None);
              budget = max_num_batched_tokens sch - (if reserve then 1 else 0)
          in if kv_can_append_batch kv (select_decode budget (running sch)) then (Ok (), sch, kv)
          else if running sch = [] then (Ok (), sch, kv)
          else let victim = last (running sch); rest = butlast (running sch) in
            (case kv_deallocate kv victim of
               (Inl Panic, kv', v') \<Rightarrow> (Panicked, sch\<lparr>running := rest\<rparr>, kv')
             | (Inl (Err e), kv', v') \<Rightarrow>
                 (Error (CacheFailure Deallocation (seq_id victim) (KvCacheError e)),
                  sch\<lparr>running := rest @ [v']\<rparr>, kv')
             | (Inr _, kv', v') \<Rightarrow>
                 preempt_if_needed xxh (sch\<lparr>running := rest, waiting := preempted v' # waiting sch\<rparr>) kv'))"
  by pat_completeness auto

termination preempt_if_needed
  by (relation "measure (\<lambda>(x, sch, kv). length (running sch))") auto

declare preempt_if_needed.simps [simp del]

fun schedule_running_loop :: "nat \<Rightarrow> nat \<Rightarrow> sequence list \<Rightarrow> sequence list" where
  "schedule_running_loop tb scheduled [] = []"
| "schedule_running_loop tb scheduled (s # ss) =
     (let s0 = s\<lparr>num_scheduled_tokens := 0\<rparr>; budget = tb - scheduled in
      if budget = 0 then s0 # schedule_running_loop tb scheduled ss
      else let n = running_token_count s0 budget in
        s0\<lparr>num_scheduled_tokens := n,
           is_prefill := saturating_add (num_cached_tokens s0) n < prefill_target_tokens s0\<rparr>
        # schedule_running_loop tb (scheduled + n) ss)"

definition schedule_running :: "scheduler \<Rightarrow> nat \<Rightarrow> scheduler" where
  "schedule_running sch tb = sch\<lparr>running := schedule_running_loop tb 0 (running sch)\<rparr>"

definition reset_sequence :: "sequence \<Rightarrow> sequence" where
  "reset_sequence s = s\<lparr>num_scheduled_tokens := 0,
     is_prefill := num_cached_tokens s < prefill_target_tokens s\<rparr>"

definition reset_scheduled_work :: "scheduler \<Rightarrow> scheduler" where
  "reset_scheduled_work sch = sch\<lparr>running := map reset_sequence (running sch)\<rparr>"

text \<open>Undo the allocations of an aborted prefill selection, newest first.\<close>

fun rollback_allocations ::
    "(nat \<times> nat) list \<Rightarrow> sequence list \<Rightarrow> kv_cache_manager
     \<Rightarrow> (step_plan_error, unit) outcome \<times> sequence list \<times> kv_cache_manager" where
  "rollback_allocations [] w kv = (Ok (), w, kv)"
| "rollback_allocations ((i, n) # rest) w kv =
     (case kv_deallocate kv (w ! i) of
        (Inl Panic, kv', s') \<Rightarrow> (Panicked, w[i := s'], kv')
      | (Inl (Err e), kv', s') \<Rightarrow>
          (Error (CacheFailure AllocationRollback (seq_id s') (KvCacheError e)), w[i := s'], kv')
      | (Inr _, kv', s') \<Rightarrow> rollback_allocations rest (w[i := s']) kv')"

fun prefill_loop ::
    "hasher \<Rightarrow> nat \<Rightarrow> nat list \<Rightarrow> nat \<Rightarrow> (nat \<times> nat) list \<Rightarrow> sequence list \<Rightarrow> kv_cache_manager
     \<Rightarrow> (step_plan_error, (nat \<times> nat) list) outcome \<times> sequence list \<times> kv_cache_manager" where
  "prefill_loop xxh tb [] total_tokens to_schedule w kv = (Ok to_schedule, w, kv)"
| "prefill_loop xxh tb (i # is) total_tokens to_schedule w kv =
     (if prefill_target_tokens (w ! i) - num_cached_tokens (w ! i) = 0
      then prefill_loop xxh tb is total_tokens to_schedule w kv
      else let budget = tb - total_tokens in
      if budget = 0 then (Ok to_schedule, w, kv)
      else case kv_can_allocate xxh kv (w ! i) of
        Inl _ \<Rightarrow> (Panicked, w, kv)
      | Inr None \<Rightarrow> (Ok to_schedule, w, kv)
      | Inr (Some num_cached) \<Rightarrow>
          (case kv_allocate xxh kv (w ! i) num_cached of
             (Inl Panic, kv', s') \<Rightarrow> (Panicked, w[i := s'], kv')
           | (Inl (Err e), kv', s') \<Rightarrow>
               (case rollback_allocations (rev to_schedule) (w[i := s']) kv' of
                  (Inl f, w', kv'') \<Rightarrow> (Inl f, w', kv'')
                | (Inr _, w', kv'') \<Rightarrow>
                    (Error (CacheFailure Allocation (seq_id (w' ! i)) (KvCacheError e)), w', kv''))
           | (Inr _, kv', s') \<Rightarrow>
               let n = min (prefill_target_tokens s' - num_cached_tokens s') budget in
               if n = 0 then
                 (case kv_deallocate kv' s' of
                    (Inl Panic, kv'', s'') \<Rightarrow> (Panicked, w[i := s''], kv'')
                  | (Inl (Err e), kv'', s'') \<Rightarrow>
                      (Error (CacheFailure EmptyAllocationRollback (seq_id s'') (KvCacheError e)),
                       w[i := s''], kv'')
                  | (Inr _, kv'', s'') \<Rightarrow>
                      prefill_loop xxh tb is total_tokens to_schedule (w[i := s'']) kv'')
               else prefill_loop xxh tb is (total_tokens + n) (to_schedule @ [(i, n)]) (w[i := s']) kv'))"

text \<open>\<^verbatim>\<open>self.waiting.remove(idx).unwrap()\<close> over the selected indices, last first.\<close>

fun extract_selected ::
    "(nat \<times> nat) list \<Rightarrow> sequence list \<Rightarrow> (step_plan_error, (sequence \<times> nat) list \<times> sequence list) outcome" where
  "extract_selected [] w = Ok ([], w)"
| "extract_selected ((i, n) # rest) w =
     rbind (index w i) (\<lambda>s. rbind (extract_selected rest (take i w @ drop (Suc i) w))
       (\<lambda>(sel, w'). Ok ((s, n) # sel, w')))"

definition admitted :: "sequence \<times> nat \<Rightarrow> sequence" where
  "admitted = (\<lambda>(s, n). s\<lparr>num_scheduled_tokens := n,
     is_prefill := \<not> (prefill_target_tokens s \<le> num_cached_tokens s + n), status := Running\<rparr>)"

definition schedule_prefill_with_budget ::
    "hasher \<Rightarrow> scheduler \<Rightarrow> kv_cache_manager \<Rightarrow> nat
     \<Rightarrow> (step_plan_error, work_selection) outcome \<times> scheduler \<times> kv_cache_manager" where
  "schedule_prefill_with_budget xxh sch kv tb =
     (let selection = \<lparr>ws_phase = Prefill_step, is_prefill_continuation = False, ws_blocked_admission = None\<rparr> in
      if waiting sch = [] then (Ok selection, sch, kv)
      else let max_running = max_num_seqs sch - length (running sch) in
        case prefill_loop xxh tb [0..<min (length (waiting sch)) max_running] 0 [] (waiting sch) kv of
          (Inl f, w, kv') \<Rightarrow> (Inl f, sch\<lparr>waiting := w\<rparr>, kv')
        | (Inr to_schedule, w, kv') \<Rightarrow>
            (case extract_selected (rev to_schedule) w of
               Inl f \<Rightarrow> (Inl f, sch\<lparr>waiting := w\<rparr>, kv')
             | Inr (sel, w') \<Rightarrow>
                 (Ok selection, sch\<lparr>waiting := w', running := running sch @ map admitted (rev sel)\<rparr>, kv')))"

definition schedule_prefill ::
    "hasher \<Rightarrow> scheduler \<Rightarrow> kv_cache_manager
     \<Rightarrow> (step_plan_error, work_selection) outcome \<times> scheduler \<times> kv_cache_manager" where
  "schedule_prefill xxh sch kv = schedule_prefill_with_budget xxh sch kv (max_num_batched_tokens sch)"

definition decode_indices :: "sequence list \<Rightarrow> nat list" where
  "decode_indices ss = filter (\<lambda>i. 0 < num_scheduled_tokens (ss ! i) \<and> sequence_phase (ss ! i) = Decode)
     [0..<length ss]"

definition store_tables :: "nat list \<Rightarrow> sequence list \<Rightarrow> sequence list \<Rightarrow> sequence list" where
  "store_tables ix reserved ss =
     fold (\<lambda>(i, r) run. run[i := (run ! i)\<lparr>block_table := block_table r\<rparr>]) (zip ix reserved) ss"

definition reserve_decode_cache ::
    "scheduler \<Rightarrow> kv_cache_manager \<Rightarrow> (step_plan_error, unit) outcome \<times> scheduler \<times> kv_cache_manager" where
  "reserve_decode_cache sch kv =
     (let ix = decode_indices (running sch) in
      if ix = [] then (Ok (), sch, kv)
      else let selected = map ((!) (running sch)) ix in
        case kv_may_append_batch kv selected of
          (Inl Panic, kv', _) \<Rightarrow> (Panicked, sch, kv')
        | (Inl (Err e), kv', _) \<Rightarrow>
            (Error (CacheFailure AppendAllocation (seq_id (hd selected)) e), sch, kv')
        | (Inr _, kv', reserved) \<Rightarrow>
            (Ok (), sch\<lparr>running := store_tables ix reserved (running sch)\<rparr>, kv'))"

definition unadmitted :: "sequence \<Rightarrow> sequence" where
  "unadmitted s = s\<lparr>status := Waiting, num_scheduled_tokens := 0, is_prefill := True\<rparr>"

definition rollback_last_admission ::
    "scheduler \<Rightarrow> kv_cache_manager \<Rightarrow> (step_plan_error, unit) outcome \<times> scheduler \<times> kv_cache_manager" where
  "rollback_last_admission sch kv =
     (if running sch = [] then (Error (Invalid RollbackFromEmptyRunning), sch, kv)
      else let s = last (running sch); rest = butlast (running sch) in
        case kv_deallocate kv s of
          (Inl Panic, kv', s') \<Rightarrow> (Panicked, sch\<lparr>running := rest\<rparr>, kv')
        | (Inl (Err e), kv', s') \<Rightarrow>
            (Error (CacheFailure AllocationRollback (seq_id s) (KvCacheError e)),
             sch\<lparr>running := rest @ [s']\<rparr>, kv')
        | (Inr _, kv', s') \<Rightarrow>
            (Ok (), sch\<lparr>running := rest, waiting := unadmitted s' # waiting sch\<rparr>, kv'))"

lemma rollback_last_admission_shorter:
  "rollback_last_admission sch kv = (Ok u, sch', kv') \<Longrightarrow> length (running sch') < length (running sch)"
  by (auto simp: rollback_last_admission_def Let_def split: prod.splits sum.splits failure.splits if_splits)

text \<open>The \<^verbatim>\<open>loop\<close> of \<^verbatim>\<open>select_work\<close> around \<^verbatim>\<open>reserve_decode_cache\<close>.\<close>

function reserve_loop ::
    "nat \<Rightarrow> scheduler \<Rightarrow> kv_cache_manager \<Rightarrow> (step_plan_error, unit) outcome \<times> scheduler \<times> kv_cache_manager" where
  "reserve_loop before sch kv =
     (case reserve_decode_cache sch kv of
        (Inl Panic, sch', kv') \<Rightarrow> (Panicked, sch', kv')
      | (Inr _, sch', kv') \<Rightarrow> (Ok (), sch', kv')
      | (Inl (Err e), sch', kv') \<Rightarrow>
          if length (running sch') = before then (Error e, reset_scheduled_work sch', kv')
          else (case rollback_last_admission sch' kv' of
                  (Inl Panic, sch'', kv'') \<Rightarrow> (Panicked, sch'', kv'')
                | (Inl (Err e'), sch'', kv'') \<Rightarrow> (Error e', reset_scheduled_work sch'', kv'')
                | (Inr _, sch'', kv'') \<Rightarrow> reserve_loop before sch'' kv''))"
  by pat_completeness auto

lemma reserve_decode_cache_length:
  "reserve_decode_cache sch kv = (Inl f, sch', kv') \<Longrightarrow> sch' = sch"
  by (auto simp: reserve_decode_cache_def Let_def split: prod.splits sum.splits failure.splits if_splits)

termination reserve_loop
  by (relation "measure (\<lambda>(b, sch, kv). length (running sch))")
     (auto dest!: rollback_last_admission_shorter [OF sym] reserve_decode_cache_length [OF sym])

declare reserve_loop.simps [simp del]

definition selected_work :: "scheduler \<Rightarrow> nat \<Rightarrow> blocked_admission option \<Rightarrow> work_selection" where
  "selected_work sch before blocked =
     (let active = filter (\<lambda>(i, s). 0 < num_scheduled_tokens s) (enumerate 0 (running sch));
          has_prefill = list_ex (\<lambda>(i, s). sequence_phase s = Prefill) active;
          has_decode = list_ex (\<lambda>(i, s). sequence_phase s = Decode) active;
          has_continued_prefill = list_ex (\<lambda>(i, s). sequence_phase s = Prefill \<and> i < before) active
      in \<lparr>ws_phase = (if has_prefill \<and> has_decode then Mixed_step
                     else if has_prefill then Prefill_step
                     else if has_decode then Decode_step
                     else if list_ex is_prefill (running sch) then Prefill_step else Decode_step),
          is_prefill_continuation = (has_prefill \<and> (has_decode \<or> has_continued_prefill)),
          ws_blocked_admission = blocked\<rparr>)"

text \<open>\<^verbatim>\<open>blocked.or_else(|| admission_block(...))\<close>\<close>

definition blocked_or_else ::
    "hasher \<Rightarrow> blocked_admission option \<Rightarrow> scheduler \<Rightarrow> kv_cache_manager
     \<Rightarrow> (step_plan_error, blocked_admission option) outcome" where
  "blocked_or_else xxh blocked sch kv =
     (case blocked of Some b \<Rightarrow> Ok (Some b) | None \<Rightarrow> admission_block xxh sch kv (scheduled_tokens sch))"

definition select_with_running ::
    "hasher \<Rightarrow> scheduler \<Rightarrow> kv_cache_manager \<Rightarrow> blocked_admission option \<Rightarrow> nat
     \<Rightarrow> (step_plan_error, work_selection) outcome \<times> scheduler \<times> kv_cache_manager" where
  "select_with_running xxh sch kv blocked running_budget =
     (let before = length (running sch); sch1 = schedule_running sch running_budget in
      case schedule_prefill_with_budget xxh sch1 kv (max_num_batched_tokens sch1 - scheduled_tokens sch1) of
        (Inl Panic, sch2, kv2) \<Rightarrow> (Panicked, sch2, kv2)
      | (Inl (Err e), sch2, kv2) \<Rightarrow> (Error e, reset_scheduled_work sch2, kv2)
      | (Inr _, sch2, kv2) \<Rightarrow>
          (case reserve_loop before sch2 kv2 of
             (Inl f, sch3, kv3) \<Rightarrow> (Inl f, sch3, kv3)
           | (Inr _, sch3, kv3) \<Rightarrow>
               (rbind (blocked_or_else xxh blocked sch3 kv3) (\<lambda>b. Ok (selected_work sch3 before b)), sch3, kv3)))"

definition select_prefill_only ::
    "hasher \<Rightarrow> scheduler \<Rightarrow> kv_cache_manager \<Rightarrow> blocked_admission option
     \<Rightarrow> (step_plan_error, work_selection) outcome \<times> scheduler \<times> kv_cache_manager" where
  "select_prefill_only xxh sch kv blocked =
     (case schedule_prefill xxh sch kv of
        (Inl f, sch', kv') \<Rightarrow> (Inl f, sch', kv')
      | (Inr sel, sch', kv') \<Rightarrow>
          (rbind (blocked_or_else xxh blocked sch' kv') (\<lambda>b. Ok (sel\<lparr>ws_blocked_admission := b\<rparr>)), sch', kv'))"

definition select_work ::
    "hasher \<Rightarrow> scheduler \<Rightarrow> kv_cache_manager
     \<Rightarrow> (step_plan_error, work_selection) outcome \<times> scheduler \<times> kv_cache_manager" where
  "select_work xxh sch0 kv0 =
     (case preempt_if_needed xxh sch0 kv0 of
        (Inl f, sch, kv) \<Rightarrow> (Inl f, sch, kv)
      | (Inr _, sch, kv) \<Rightarrow>
          (case admission_block xxh sch kv 0 of
             Inl f \<Rightarrow> (Inl f, sch, kv)
           | Inr blocked \<Rightarrow>
               let reserve = (waiting sch \<noteq> [] \<and> blocked = None);
                   running_budget = max_num_batched_tokens sch - (if reserve then 1 else 0)
               in if running sch \<noteq> [] then select_with_running xxh sch kv blocked running_budget
                  else select_prefill_only xxh sch kv blocked))"

section \<open>Planning\<close>

definition usize_to_u32 :: "nat \<Rightarrow> (step_plan_error, 32 word) outcome" where
  "usize_to_u32 v = (if v < 2 ^ 32 then Ok (word_of_nat v) else Error (Invalid DoesNotFitU32))"

definition block_to_i32 :: "nat \<Rightarrow> (step_plan_error, int) outcome" where
  "block_to_i32 b = (if b < 2 ^ 31 then Ok (int b) else Error (Invalid BlockIdDoesNotFitI32))"

definition block_tables_for_plan ::
    "sequence_step_plan list \<Rightarrow> (step_plan_error, int list list) outcome" where
  "block_tables_for_plan ps = rcollect (\<lambda>p. rcollect block_to_i32 (plan_block_table (cache p))) ps"

definition build_paged_prefill_plan_metadata ::
    "sequence_step_plan list \<Rightarrow> int list \<Rightarrow> (step_plan_error, attn_metadata) outcome" where
  "build_paged_prefill_plan_metadata ps slots =
     rbind (rcollect (\<lambda>p. usize_to_u32 (seq_token_budget p)) ps) (\<lambda>scheduled.
     rbind (rcollect (\<lambda>p. usize_to_u32 (kv_length (cache p))) ps) (\<lambda>kv_lengths.
     rbind (block_tables_for_plan ps) (\<lambda>tables.
       Ok (build_continued_prefill_metadata scheduled kv_lengths tables slots))))"

definition plan_range :: "sequence \<Rightarrow> (step_plan_error, (nat \<times> nat) \<times> bool) outcome" where
  "plan_range s =
     (case sequence_phase s of
        Prefill \<Rightarrow>
          (let start = num_cached_tokens s; target = prefill_target_tokens s in
           case checked_add start (num_scheduled_tokens s) of
             None \<Rightarrow> Error (Invalid ScheduledTokenRangeOverflow)
           | Some e \<Rightarrow> Ok ((start, min e target), min e target = target))
      | Decode \<Rightarrow>
          (case checked_sub (num_tokens s) 1 of
             None \<Rightarrow> Error (Invalid DecodeSequenceHasNoTokens)
           | Some start \<Rightarrow> Ok ((start, num_tokens s), True)))"

definition plan_sequence ::
    "kv_cache_manager \<Rightarrow> sequence \<Rightarrow> (step_plan_error, sequence_step_plan) outcome \<times> sequence" where
  "plan_sequence kv s =
     (case plan_range s of
        Inl f \<Rightarrow> (Inl f, s)
      | Inr ((start, stop), sampling) \<Rightarrow>
          let budget = stop - start in
          if budget = 0 then (Error (Invalid (ZeroTokenWork (seq_id s))), s)
          else let s' = s\<lparr>num_scheduled_tokens := budget\<rparr> in
            (rbind (compute_slot_mapping kv s' start budget) (\<lambda>slots.
             rbind (slice_range (token_ids s') start stop) (\<lambda>input.
               Ok \<lparr>plan_request_id = request_id s', plan_sequence_id = seq_id s',
                   plan_phase = sequence_phase s, token_range = (start, stop),
                   logical_positions = (start, stop), seq_token_budget = budget,
                   cache = \<lparr>cached_token_range = (0, num_cached_tokens s'), kv_length = stop,
                            plan_block_table = block_table s', slot_mapping = slots\<rparr>,
                   sampling_allowed = sampling, input_token_ids = input,
                   plan_sampling_params = params s', token_history = token_ids s',
                   completion_step = num_completion_tokens s'\<rparr>)), s'))"

fun plan_loop ::
    "kv_cache_manager \<Rightarrow> sequence list
     \<Rightarrow> (step_plan_error, sequence_step_plan list) outcome \<times> sequence list" where
  "plan_loop kv [] = (Ok [], [])"
| "plan_loop kv (s # ss) =
     (if num_scheduled_tokens s = 0 then (case plan_loop kv ss of (r, ss') \<Rightarrow> (r, s # ss'))
      else case plan_sequence kv s of
        (Inl f, s') \<Rightarrow> (Inl f, s' # ss)
      | (Inr p, s') \<Rightarrow>
          (case plan_loop kv ss of (r, ss') \<Rightarrow> (rbind r (\<lambda>ps. Ok (p # ps)), s' # ss')))"

definition has_cached_prefill :: "sequence_step_plan list \<Rightarrow> bool" where
  "has_cached_prefill ps =
     list_ex (\<lambda>p. plan_phase p = Prefill
       \<and> fst (cached_token_range (cache p)) < snd (cached_token_range (cache p))) ps"

definition plan_attention ::
    "work_selection \<Rightarrow> sequence_step_plan list \<Rightarrow> int list \<Rightarrow> (step_plan_error, attn_metadata) outcome" where
  "plan_attention out ps slots =
     (case ws_phase out of
        Prefill_step \<Rightarrow>
          if is_prefill_continuation out \<or> has_cached_prefill ps
          then build_paged_prefill_plan_metadata ps slots
          else rbind (rcollect (\<lambda>p. usize_to_u32 (seq_token_budget p)) ps) (\<lambda>scheduled.
               rbind (rcollect (\<lambda>p. usize_to_u32 (kv_length (cache p))) ps) (\<lambda>kv_lengths.
                 Ok (build_prefill_metadata scheduled kv_lengths slots)))
      | Decode_step \<Rightarrow>
          rbind (rcollect (\<lambda>p. usize_to_u32 (kv_length (cache p))) ps) (\<lambda>context_lengths.
          rbind (block_tables_for_plan ps) (\<lambda>tables.
            Ok (build_decode_metadata context_lengths tables slots)))
      | Mixed_step \<Rightarrow> build_paged_prefill_plan_metadata ps slots)"

definition finish_plan ::
    "work_selection \<Rightarrow> scheduler \<Rightarrow> kv_cache_manager \<Rightarrow> sequence_step_plan list
     \<Rightarrow> (step_plan_error, step_plan option) outcome \<times> scheduler" where
  "finish_plan out sch kv ps =
     (if ps = [] then
        (if is_running sch
         then Error (NoProgress (length (waiting sch)) (length (running sch)) (max_num_batched_tokens sch)
                       (kv_num_free_blocks kv) (ws_blocked_admission out))
         else Ok None, sch)
      else let slots = concat (map (\<lambda>p. slot_mapping (cache p)) ps) in
        case plan_attention out ps slots of
          Inl f \<Rightarrow> (Inl f, sch)
        | Inr md \<Rightarrow>
            let plan = \<lparr>plan_id = next_plan_id sch, step_phase_of = ws_phase out, plan_sequences = ps,
                        token_budget = sum_list (map seq_token_budget ps), attention = md,
                        plan_blocked_admission = ws_blocked_admission out\<rparr>
            in (Ok (Some plan), sch\<lparr>next_plan_id := next_plan_id sch + 1, in_flight := Some plan\<rparr>))"

definition plan_step ::
    "hasher \<Rightarrow> scheduler \<Rightarrow> kv_cache_manager
     \<Rightarrow> (step_plan_error, step_plan option) outcome \<times> scheduler \<times> kv_cache_manager" where
  "plan_step xxh sch kv =
     (case in_flight sch of
        Some plan \<Rightarrow> (Error (PlanAlreadyInFlight (plan_id plan)), sch, kv)
      | None \<Rightarrow>
          (case select_work xxh sch kv of
             (Inl f, sch', kv') \<Rightarrow> (Inl f, sch', kv')
           | (Inr out, sch', kv') \<Rightarrow>
               (case plan_loop kv' (running sch') of
                  (Inl f, run) \<Rightarrow> (Inl f, sch'\<lparr>running := run\<rparr>, kv')
                | (Inr ps, run) \<Rightarrow>
                    (case finish_plan out (sch'\<lparr>running := run\<rparr>) kv' ps of (r, sch'') \<Rightarrow> (r, sch'', kv')))))"

section \<open>Applying a result\<close>

definition is_planned :: "sequence_step_plan \<Rightarrow> sequence \<Rightarrow> bool" where
  "is_planned p s = (request_id s = plan_request_id p \<and> seq_id s = plan_sequence_id p)"

definition check_result ::
    "nat \<Rightarrow> sequence list \<Rightarrow> sequence_step_plan \<times> sequence_step_result \<Rightarrow> (step_plan_error, unit) outcome" where
  "check_result pid run = (\<lambda>(p, x).
     if plan_request_id p \<noteq> result_request_id x \<or> plan_sequence_id p \<noteq> result_sequence_id x
     then Error (ResultMismatch pid (WrongSequence (plan_request_id p) (plan_sequence_id p)
                                       (result_request_id x) (result_sequence_id x)))
     else if sampling_allowed p \<noteq> (sampled_token x \<noteq> None)
     then Error (ResultMismatch pid (SamplingPermissionDiffers (plan_sequence_id p)))
     else case find (is_planned p) run of
       None \<Rightarrow> Error (ResultMismatch pid (NoLongerRunning (plan_sequence_id p)))
     | Some s \<Rightarrow> if status s \<noteq> Running
                 then Error (ResultMismatch pid (NotRunning (plan_sequence_id p))) else Ok ())"

fun replace_first :: "('a \<Rightarrow> bool) \<Rightarrow> 'a \<Rightarrow> 'a list \<Rightarrow> 'a list" where
  "replace_first P y [] = []"
| "replace_first P y (x # xs) = (if P x then y # xs else x # replace_first P y xs)"

text \<open>The part of the apply loop that follows \<^verbatim>\<open>hash_blocks\<close>, for the sequence of one planned entry.\<close>

definition advance_cached :: "sequence_step_plan \<Rightarrow> sequence \<Rightarrow> sequence" where
  "advance_cached p s = s\<lparr>num_cached_tokens := min (num_cached_tokens s + seq_token_budget p) (num_tokens s),
     num_scheduled_tokens := 0\<rparr>"

definition is_recovered :: "sequence_step_plan \<Rightarrow> sequence \<Rightarrow> bool" where
  "is_recovered p s = (plan_phase p = Prefill \<and> sampling_allowed p
     \<and> recompute_target_tokens s = Some (num_cached_tokens s))"

definition hits_stop :: "token list \<Rightarrow> sequence \<Rightarrow> token \<Rightarrow> bool" where
  "hits_stop eos s t =
     (max_tokens (params s) \<le> num_completion_tokens s \<or> (t \<in> set eos \<and> \<not> ignore_eos (params s)))"

definition sample_token ::
    "token list \<Rightarrow> sequence \<Rightarrow> token option
     \<Rightarrow> (step_plan_error, (nat \<times> request_output) option) outcome \<times> sequence" where
  "sample_token eos s tok =
     (case tok of None \<Rightarrow> (Ok None, s)
      | Some t \<Rightarrow>
          let s1 = append_token s t in
          if hits_stop eos s1 t then
            let s2 = s1\<lparr>status := Finished\<rparr> in
            (rbind (completion_token_ids s2) (\<lambda>ids.
               Ok (Some (seq_id s2, \<lparr>out_request_id = request_id s2, out_token_ids = ids,
                                     out_text = [], out_finished = True\<rparr>))), s2)
          else (Ok None, s1))"

text \<open>The accumulators of the apply loop: finished entries with their outputs, recovered ids.\<close>

fun apply_loop ::
    "hasher \<Rightarrow> token list \<Rightarrow> (sequence_step_plan \<times> sequence_step_result) list
     \<Rightarrow> sequence list \<Rightarrow> kv_cache_manager
     \<Rightarrow> (step_plan_error, (nat \<times> request_output) list \<times> nat list) outcome \<times> sequence list \<times> kv_cache_manager" where
  "apply_loop xxh eos [] run kv = (Ok ([], []), run, kv)"
| "apply_loop xxh eos ((p, x) # rest) run kv =
     (case find (is_planned p) run of
        None \<Rightarrow> (Panicked, run, kv)
      | Some s \<Rightarrow>
          (case kv_hash_blocks xxh kv s of
             (Inl _, kv') \<Rightarrow> (Panicked, run, kv')
           | (Inr _, kv') \<Rightarrow>
               let s1 = advance_cached p s in
               (case sample_token eos s1 (sampled_token x) of
                  (Inl f, s2) \<Rightarrow> (Inl f, replace_first (is_planned p) s2 run, kv')
                | (Inr fin, s2) \<Rightarrow>
                    (case apply_loop xxh eos rest (replace_first (is_planned p) s2 run) kv' of
                       (r, run', kv'') \<Rightarrow>
                         (rbind r (\<lambda>(fins, recs).
                            Ok ((case fin of None \<Rightarrow> fins | Some f \<Rightarrow> f # fins),
                                (if is_recovered p s1 then seq_id s1 # recs else recs))), run', kv'')))))"

definition clear_recovered :: "nat list \<Rightarrow> sequence list \<Rightarrow> sequence list" where
  "clear_recovered ids run =
     map (\<lambda>s. if seq_id s \<in> set ids then s\<lparr>recompute_target_tokens := None\<rparr> else s) run"

definition retire_finished ::
    "scheduler \<Rightarrow> kv_cache_manager \<Rightarrow> nat list
     \<Rightarrow> (step_plan_error, unit) outcome \<times> scheduler \<times> kv_cache_manager" where
  "retire_finished sch kv ids =
     (case ids of [] \<Rightarrow> (Ok (), sch, kv)
      | first # _ \<Rightarrow>
          (case kv_deallocate_batch kv (filter (\<lambda>s. seq_id s \<in> set ids) (running sch)) of
             (Inl Panic, kv', _) \<Rightarrow> (Panicked, sch, kv')
           | (Inl (Err e), kv', _) \<Rightarrow> (Error (CacheFailure Deallocation first e), sch, kv')
           | (Inr _, kv', _) \<Rightarrow>
               (Ok (), sch\<lparr>running := filter (\<lambda>s. seq_id s \<notin> set ids) (running sch)\<rparr>, kv')))"

definition apply_step_result ::
    "hasher \<Rightarrow> step_result \<Rightarrow> scheduler \<Rightarrow> kv_cache_manager
     \<Rightarrow> (step_plan_error, request_output list) outcome \<times> scheduler \<times> kv_cache_manager" where
  "apply_step_result xxh res sch kv =
     (case in_flight sch of
        None \<Rightarrow> (Error (NoPlanInFlight (result_plan_id res)), sch, kv)
      | Some plan \<Rightarrow>
          if result_plan_id res \<noteq> plan_id plan
          then (Error (StaleResult (plan_id plan) (result_plan_id res)), sch, kv)
          else if length (result_sequences res) \<noteq> length (plan_sequences plan)
          then (Error (ResultMismatch (plan_id plan) SequenceCountDiffers), sch, kv)
          else let pairs = zip (plan_sequences plan) (result_sequences res) in
            (case rcollect (check_result (plan_id plan) (running sch)) pairs of
               Inl f \<Rightarrow> (Inl f, sch, kv)
             | Inr _ \<Rightarrow>
                 (case apply_loop xxh (eos_token_ids sch) pairs (running sch) kv of
                    (Inl f, run, kv') \<Rightarrow> (Inl f, sch\<lparr>running := run\<rparr>, kv')
                  | (Inr (fins, recs), run, kv') \<Rightarrow>
                      (case retire_finished (sch\<lparr>running := run\<rparr>) kv' (map fst fins) of
                         (Inl f, sch', kv'') \<Rightarrow> (Inl f, sch', kv'')
                       | (Inr _, sch', kv'') \<Rightarrow>
                           (Ok (map snd fins),
                            sch'\<lparr>running := clear_recovered recs (running sch'), in_flight := None\<rparr>, kv'')))))"

definition abort_all_requests ::
    "scheduler \<Rightarrow> kv_cache_manager \<Rightarrow> (step_plan_error, unit) outcome \<times> scheduler \<times> kv_cache_manager" where
  "abort_all_requests sch kv =
     (let allocated = filter (\<lambda>s. block_table s \<noteq> []) (running sch @ waiting sch);
          cleared = sch\<lparr>running := [], waiting := [], in_flight := None\<rparr> in
      if allocated = [] then (Ok (), cleared, kv)
      else case kv_deallocate_batch kv allocated of
        (Inl Panic, kv', _) \<Rightarrow> (Panicked, sch, kv')
      | (Inl (Err e), kv', _) \<Rightarrow>
          (Error (CacheFailure FailureCleanup (seq_id (hd allocated)) e), sch, kv')
      | (Inr _, kv', _) \<Rightarrow> (Ok (), cleared, kv'))"

definition num_waiting :: "scheduler \<Rightarrow> nat" where
  "num_waiting sch = length (waiting sch)"

definition num_running :: "scheduler \<Rightarrow> nat" where
  "num_running sch = length (running sch)"

end
