(* ===== verification/Scheduler_Invariant.thy ===== *)
theory Scheduler_Invariant
  imports Scheduler
begin

text \<open>
  The scheduler's state invariant and the first half of work selection. The queue of a scheduler
  is \<open>running @ waiting\<close>: selecting work never reorders it, because preemption and rollback take
  from the back of \<^verbatim>\<open>running\<close> to the front of \<^verbatim>\<open>waiting\<close> and admission goes the other way. The
  invariant ties every sequence of the queue to the KV cache (\<open>kv_inv\<close>) and says what a waiting,
  a prefilling and a decoding sequence look like.
\<close>

section \<open>Invariant\<close>

definition queue :: "scheduler \<Rightarrow> sequence list" where
  "queue sch = running sch @ waiting sch"

text \<open>What a request keeps while it is scheduled, preempted and rescheduled.\<close>

definition ident :: "sequence \<Rightarrow> nat \<times> nat \<times> token list \<times> nat \<times> sampling_params" where
  "ident s = (request_id s, seq_id s, token_ids s, num_prompt_tokens s, params s)"

definition seq_base :: "sequence \<Rightarrow> bool" where
  "seq_base s \<longleftrightarrow> wf_seq s
     \<and> (recompute_target_tokens s = None \<or> recompute_target_tokens s = Some (num_tokens s))
     \<and> num_completion_tokens s < max_tokens (params s)
     \<and> num_prompt_tokens s + max_tokens (params s) < usize_bound"

definition waiting_ok :: "sequence \<Rightarrow> bool" where
  "waiting_ok s \<longleftrightarrow> seq_base s \<and> status s = Waiting \<and> prefill_target_tokens s = num_tokens s
     \<and> block_table s = [] \<and> num_cached_tokens s = 0"

definition running_ok :: "sequence \<Rightarrow> bool" where
  "running_ok s \<longleftrightarrow> seq_base s \<and> status s = Running
     \<and> (if sequence_phase s = Prefill
        then prefill_target_tokens s = num_tokens s \<and> length (block_table s) = num_blocks s
        else recompute_target_tokens s = None \<and> num_cached_tokens s + 1 = num_tokens s \<and> append_gap_ok s)"

definition sched_core :: "scheduler \<Rightarrow> kv_cache_manager \<Rightarrow> bool" where
  "sched_core sch kv \<longleftrightarrow> kv_inv kv (mset (queue sch))
     \<and> (\<forall>s \<in> set (running sch). running_ok s) \<and> (\<forall>s \<in> set (waiting sch). waiting_ok s)
     \<and> length (running sch) \<le> max_num_seqs sch"

text \<open>Two states between which only the queues moved, in order.\<close>

definition moved :: "scheduler \<Rightarrow> kv_cache_manager \<Rightarrow> scheduler \<Rightarrow> kv_cache_manager \<Rightarrow> bool" where
  "moved sch kv sch' kv' \<longleftrightarrow>
     sch' = sch\<lparr>running := running sch', waiting := waiting sch'\<rparr>
     \<and> map ident (queue sch') = map ident (queue sch) \<and> kv_capacity kv' = kv_capacity kv"

lemma moved_refl [simp]: "moved sch kv sch kv"
  by (simp add: moved_def)

lemma moved_trans: "moved a k b l \<Longrightarrow> moved b l c m \<Longrightarrow> moved a k c m"
  unfolding moved_def by (cases a, cases b, cases c) auto

lemma moved_config:
  assumes "moved sch kv sch' kv'"
  shows "max_num_batched_tokens sch' = max_num_batched_tokens sch" "max_num_seqs sch' = max_num_seqs sch"
    "eos_token_ids sch' = eos_token_ids sch" "next_seq_id sch' = next_seq_id sch"
    "next_request_id sch' = next_request_id sch" "next_plan_id sch' = next_plan_id sch"
    "in_flight sch' = in_flight sch" "kv_capacity kv' = kv_capacity kv"
    "map ident (queue sch') = map ident (queue sch)"
  using assms by (cases sch, cases sch', auto simp: moved_def)+

lemma seq_base_simps [simp]:
  "seq_base (s\<lparr>num_scheduled_tokens := n\<rparr>) = seq_base s"
  "seq_base (s\<lparr>is_prefill := b\<rparr>) = seq_base s"
  "seq_base (s\<lparr>status := st\<rparr>) = seq_base s"
  "seq_base (s\<lparr>block_table := t\<rparr>) = seq_base s"
  by (simp_all add: seq_base_def wf_seq_def num_completion_tokens_def)

lemma seq_base_cached [simp]:
  "seq_base s \<Longrightarrow> n \<le> num_tokens s \<Longrightarrow> seq_base (s\<lparr>num_cached_tokens := n\<rparr>)"
  by (simp add: seq_base_def wf_seq_def num_completion_tokens_def)

lemma num_blocks_simps [simp]:
  "num_blocks (s\<lparr>num_scheduled_tokens := n\<rparr>) = num_blocks s"
  "num_blocks (s\<lparr>is_prefill := b\<rparr>) = num_blocks s"
  "num_blocks (s\<lparr>status := st\<rparr>) = num_blocks s"
  "num_blocks (s\<lparr>block_table := t\<rparr>) = num_blocks s"
  "num_blocks (s\<lparr>num_cached_tokens := n\<rparr>) = num_blocks s"
  "num_blocks (s\<lparr>recompute_target_tokens := r\<rparr>) = num_blocks s"
  by (simp_all add: num_blocks_def)

lemma prefill_target_simps [simp]:
  "prefill_target_tokens (s\<lparr>num_scheduled_tokens := n\<rparr>) = prefill_target_tokens s"
  "prefill_target_tokens (s\<lparr>is_prefill := b\<rparr>) = prefill_target_tokens s"
  "prefill_target_tokens (s\<lparr>status := st\<rparr>) = prefill_target_tokens s"
  "prefill_target_tokens (s\<lparr>block_table := t\<rparr>) = prefill_target_tokens s"
  "prefill_target_tokens (s\<lparr>num_cached_tokens := n\<rparr>) = prefill_target_tokens s"
  by (simp_all add: prefill_target_tokens_def split: option.splits)

lemma sequence_phase_simps [simp]:
  "sequence_phase (s\<lparr>num_scheduled_tokens := n\<rparr>) = sequence_phase s"
  "sequence_phase (s\<lparr>is_prefill := b\<rparr>) = sequence_phase s"
  "sequence_phase (s\<lparr>status := st\<rparr>) = sequence_phase s"
  "sequence_phase (s\<lparr>block_table := t\<rparr>) = sequence_phase s"
  by (simp_all add: sequence_phase_def)

lemma append_gap_ok_simps [simp]:
  "append_gap_ok (s\<lparr>num_scheduled_tokens := n\<rparr>) = append_gap_ok s"
  "append_gap_ok (s\<lparr>is_prefill := b\<rparr>) = append_gap_ok s"
  by (simp_all add: append_gap_ok_def)

lemma ident_simps [simp]:
  "ident (s\<lparr>num_scheduled_tokens := n\<rparr>) = ident s" "ident (s\<lparr>is_prefill := b\<rparr>) = ident s"
  "ident (s\<lparr>status := st\<rparr>) = ident s" "ident (s\<lparr>block_table := t\<rparr>) = ident s"
  "ident (s\<lparr>num_cached_tokens := n\<rparr>) = ident s" "ident (s\<lparr>recompute_target_tokens := r\<rparr>) = ident s"
  by (simp_all add: ident_def)

lemma running_ok_simps [simp]:
  "running_ok (s\<lparr>num_scheduled_tokens := n\<rparr>) = running_ok s"
  "running_ok (s\<lparr>is_prefill := b\<rparr>) = running_ok s"
  by (simp_all add: running_ok_def)

lemma running_okD:
  assumes "running_ok s"
  shows "seq_base s" "status s = Running"
    "sequence_phase s = Prefill \<Longrightarrow> prefill_target_tokens s = num_tokens s \<and> length (block_table s) = num_blocks s"
    "sequence_phase s = Decode \<Longrightarrow>
       recompute_target_tokens s = None \<and> num_cached_tokens s + 1 = num_tokens s \<and> append_gap_ok s"
  using assms by (auto simp: running_ok_def)

lemma seq_baseD:
  assumes "seq_base s"
  shows "wf_seq s" "0 < num_tokens s" "num_tokens s < usize_bound" "num_blocks s < usize_bound"
    "num_tokens s < num_prompt_tokens s + max_tokens (params s)"
proof -
  show wf: "wf_seq s" using assms by (simp add: seq_base_def)
  then show "0 < num_tokens s" by (auto simp: wf_seq_def)
  show lt: "num_tokens s < num_prompt_tokens s + max_tokens (params s)"
    using assms by (auto simp: seq_base_def num_completion_tokens_def wf_seq_def)
  then show b: "num_tokens s < usize_bound" using assms by (simp add: seq_base_def)
  have "num_blocks s \<le> num_tokens s"
    unfolding num_blocks_def by (simp add: div_ceil_le_iff BLOCK_SIZE_def)
  with b show "num_blocks s < usize_bound" by linarith
qed

lemma sched_core_member:
  assumes "sched_core sch kv" "s \<in> set (queue sch)"
  shows "kv_inv kv (add_mset s (mset (queue sch) - {#s#}))"
  using assms by (simp add: sched_core_def)

lemma admission_block_total:
  assumes "sched_core sch kv"
  shows "\<exists>b. admission_block xxh sch kv n = Ok b"
proof (cases "waiting sch")
  case Nil
  then show ?thesis by (simp add: admission_block_def)
next
  case (Cons s ss)
  then have "s \<in> set (queue sch)" by (simp add: queue_def)
  from kv.can_allocate_total [where xxh = xxh, OF sched_core_member [OF assms this]] Cons show ?thesis
    by (auto simp: admission_block_def Let_def split: option.splits)
qed

lemma admission_block_None_iff:
  assumes "sched_core sch kv"
  shows "admission_block xxh sch kv n = Ok None \<longleftrightarrow>
    (case waiting sch of [] \<Rightarrow> True
     | s # _ \<Rightarrow> n < max_num_batched_tokens sch \<and> length (running sch) < max_num_seqs sch
         \<and> (\<exists>k. kv_can_allocate xxh kv s = Ok (Some k)))"
proof (cases "waiting sch")
  case Nil
  then show ?thesis by (simp add: admission_block_def)
next
  case (Cons s ss)
  then have "s \<in> set (queue sch)" by (simp add: queue_def)
  from kv.can_allocate_total [where xxh = xxh, OF sched_core_member [OF assms this]] obtain r
    where "kv_can_allocate xxh kv s = Ok r" by blast
  with Cons show ?thesis
    by (auto simp: admission_block_def Let_def split: option.splits)
qed

section \<open>Preemption\<close>

text \<open>The tokens left for running work once an admission token is reserved.\<close>

definition running_budget :: "scheduler \<Rightarrow> blocked_admission option \<Rightarrow> nat" where
  "running_budget sch blocked =
     max_num_batched_tokens sch - (if waiting sch \<noteq> [] \<and> blocked = None then 1 else 0)"

lemma waiting_ok_preempted:
  assumes "running_ok s"
  shows "waiting_ok (preempted (clear_blocks s))"
proof -
  have b: "seq_base s" using assms by (rule running_okD)
  then have "max (case recompute_target_tokens s of None \<Rightarrow> 0 | Some t \<Rightarrow> t) (num_tokens s) = num_tokens s"
    by (auto simp: seq_base_def)
  with b show ?thesis
    by (simp add: waiting_ok_def preempted_def prefill_target_tokens_def seq_base_def wf_seq_def
        num_completion_tokens_def)
qed

lemma same_cache_view_preempted: "same_cache_view s (preempted s)"
  by (simp add: same_cache_view_def preempted_def)

lemma ident_preempted [simp]: "ident (preempted s) = ident s"
  by (simp add: preempted_def ident_def)

text \<open>Releasing the last running sequence and putting it in front of the waiting ones.\<close>

lemma release_last_running:
  assumes core: "sched_core sch kv" and run: "running sch \<noteq> []"
    and view: "\<And>s. same_cache_view s (f s)" and keep: "\<And>s. ident (f s) = ident s"
    and ok: "waiting_ok (f (clear_blocks (last (running sch))))"
  shows "\<exists>kv'. kv_deallocate kv (last (running sch)) = (Ok (), kv', clear_blocks (last (running sch)))
    \<and> sched_core (sch\<lparr>running := butlast (running sch),
          waiting := f (clear_blocks (last (running sch))) # waiting sch\<rparr>) kv'
    \<and> moved sch kv (sch\<lparr>running := butlast (running sch),
          waiting := f (clear_blocks (last (running sch))) # waiting sch\<rparr>) kv'"
proof -
  let ?v = "last (running sch)" and ?rest = "butlast (running sch)"
  have split: "running sch = ?rest @ [?v]" using run by simp
  have eq: "mset (queue sch) = add_mset ?v (mset (?rest @ waiting sch))"
    by (subst (1) queue_def, subst (1) split) simp
  then have inv: "kv_inv kv (add_mset ?v (mset (?rest @ waiting sch)))"
    using core by (simp add: sched_core_def)
  obtain kv' where d: "kv_deallocate kv ?v = (Ok (), kv', clear_blocks ?v)"
    "kv_inv kv' (add_mset (clear_blocks ?v) (mset (?rest @ waiting sch)))" "kv_capacity kv' = kv_capacity kv"
    using kv.deallocate_ok [OF inv] by blast
  have inv': "kv_inv kv' (add_mset (f (clear_blocks ?v)) (mset (?rest @ waiting sch)))"
    by (rule kv.inv_view [OF d(2) view])
  let ?sch = "sch\<lparr>running := ?rest, waiting := f (clear_blocks ?v) # waiting sch\<rparr>"
  have "sched_core ?sch kv'"
    using core inv' ok by (auto simp: sched_core_def queue_def dest: in_set_butlastD)
  moreover have "map ident (queue sch) = map ident ?rest @ ident ?v # map ident (waiting sch)"
    by (subst queue_def, subst split) (simp del: append_butlast_last_id)
  then have "moved sch kv ?sch kv'" using d(3) keep by (simp add: moved_def queue_def)
  ultimately show ?thesis using d(1) by blast
qed

lemma preempt_spec:
  assumes "sched_core sch kv"
  shows "\<exists>sch' kv' blocked. preempt_if_needed xxh sch kv = (Ok (), sch', kv') \<and> sched_core sch' kv'
    \<and> moved sch kv sch' kv' \<and> admission_block xxh sch' kv' 0 = Ok blocked
    \<and> (running sch' = [] \<or> kv_can_append_batch kv' (select_decode (running_budget sch' blocked) (running sch')))"
  using assms
proof (induction xxh sch kv rule: preempt_if_needed.induct)
  case (1 xxh sch kv)
  obtain blocked where b: "admission_block xxh sch kv 0 = Ok blocked"
    using admission_block_total [OF 1(2)] by blast
  show ?case
  proof (cases "running sch = [] \<or> kv_can_append_batch kv (select_decode (running_budget sch blocked) (running sch))")
    case True
    then have "preempt_if_needed xxh sch kv = (Ok (), sch, kv)"
      using b by (subst preempt_if_needed.simps) (auto simp: running_budget_def Let_def)
    then show ?thesis using True b 1(2) by auto
  next
    case False
    then have run: "running sch \<noteq> []" by simp
    have last_in: "last (running sch) \<in> set (running sch)" using run by simp
    then have "running_ok (last (running sch))" using 1(2) by (simp add: sched_core_def)
    from release_last_running [OF 1(2) run same_cache_view_preempted ident_preempted waiting_ok_preempted [OF this]]
    obtain kv1 where d: "kv_deallocate kv (last (running sch)) = (Ok (), kv1, clear_blocks (last (running sch)))"
      and core: "sched_core (sch\<lparr>running := butlast (running sch),
          waiting := preempted (clear_blocks (last (running sch))) # waiting sch\<rparr>) kv1"
      and mv: "moved sch kv (sch\<lparr>running := butlast (running sch),
          waiting := preempted (clear_blocks (last (running sch))) # waiting sch\<rparr>) kv1" by blast
    let ?sch = "sch\<lparr>running := butlast (running sch),
          waiting := preempted (clear_blocks (last (running sch))) # waiting sch\<rparr>"
    have step: "preempt_if_needed xxh sch kv = preempt_if_needed xxh ?sch kv1"
      using b False d by (subst preempt_if_needed.simps) (simp add: running_budget_def Let_def)
    have "\<exists>sch' kv' blocked. preempt_if_needed xxh ?sch kv1 = (Ok (), sch', kv') \<and> sched_core sch' kv'
      \<and> moved ?sch kv1 sch' kv' \<and> admission_block xxh sch' kv' 0 = Ok blocked
      \<and> (running sch' = [] \<or> kv_can_append_batch kv' (select_decode (running_budget sch' blocked) (running sch')))"
      by (rule "1.IH" [OF b refl refl _ run refl refl d [symmetric] refl refl core])
         (use False in \<open>auto simp: running_budget_def\<close>)
    then show ?thesis unfolding step using moved_trans [OF mv] by blast
  qed
qed

end
