(* ===== verification/Admission.thy ===== *)
theory Admission
  imports Scheduler_Invariant
begin

text \<open>
  The second half of work selection: spending the token budget on running sequences, admitting
  waiting ones, and reserving append blocks for the selected decoders with admissions rolled back
  from the tail while the reservation does not fit. \<open>select_work_spec\<close> puts the parts together.
\<close>

section \<open>Spending the budget on running sequences\<close>

definition sched_view :: "sequence \<Rightarrow> sequence \<Rightarrow> bool" where
  "sched_view s s' \<longleftrightarrow> (\<exists>n b. s' = s\<lparr>num_scheduled_tokens := n, is_prefill := b\<rparr>)"

definition work_ok :: "sequence \<Rightarrow> bool" where
  "work_ok s \<longleftrightarrow> num_scheduled_tokens s
     \<le> (case sequence_phase s of Prefill \<Rightarrow> prefill_target_tokens s - num_cached_tokens s | Decode \<Rightarrow> 1)"

definition is_decoder :: "sequence \<Rightarrow> bool" where
  "is_decoder s \<longleftrightarrow> 0 < num_scheduled_tokens s \<and> sequence_phase s = Decode"

lemma sched_view_simps:
  assumes "sched_view s s'"
  shows "running_ok s' = running_ok s" "ident s' = ident s" "same_cache_view s s'"
    "block_table s' = block_table s" "sequence_phase s' = sequence_phase s" "num_blocks s' = num_blocks s"
  using assms by (auto simp: sched_view_def same_cache_view_def)

lemma sched_view_reset: "sched_view s (reset_sequence s)"
  unfolding sched_view_def reset_sequence_def by blast

lemma running_token_count_le: "running_token_count s b \<le> b"
  by (simp add: running_token_count_def split: sequence_phase.splits)

lemma schedule_running_loop_view:
  "list_all2 sched_view ss (schedule_running_loop tb k ss)"
proof (induction ss arbitrary: k)
  case (Cons s ss)
  have "sched_view s (s\<lparr>num_scheduled_tokens := 0\<rparr>)"
    unfolding sched_view_def by (intro exI [of _ 0] exI [of _ "is_prefill s"]) simp
  moreover have "sched_view s (s\<lparr>num_scheduled_tokens := 0\<rparr>\<lparr>num_scheduled_tokens := n, is_prefill := b\<rparr>)" for n b
    unfolding sched_view_def by (intro exI [of _ n] exI [of _ b]) simp
  ultimately show ?case using Cons.IH by (auto simp: Let_def)
qed simp

lemma schedule_running_loop_budget:
  "sum_list (map num_scheduled_tokens (schedule_running_loop tb k ss)) \<le> tb - k"
proof (induction ss arbitrary: k)
  case (Cons s ss)
  show ?case
  proof (cases "tb - k = 0")
    case True
    then show ?thesis using Cons.IH [of k] by simp
  next
    case False
    let ?n = "running_token_count (s\<lparr>num_scheduled_tokens := 0\<rparr>) (tb - k)"
    have "?n \<le> tb - k" by (rule running_token_count_le)
    with Cons.IH [of "k + ?n"] False show ?thesis by (simp add: Let_def)
  qed
qed simp

lemma running_token_count_view [simp]:
  "running_token_count (s\<lparr>num_scheduled_tokens := n\<rparr>) b = running_token_count s b"
  by (simp add: running_token_count_def split: sequence_phase.splits)

lemma schedule_running_loop_work:
  "\<forall>s \<in> set (schedule_running_loop tb k ss). work_ok s"
  by (induction ss arbitrary: k)
     (auto simp: Let_def work_ok_def running_token_count_def split: sequence_phase.splits)

text \<open>The decoders that get a token are the ones the preemption test looked at.\<close>

lemma schedule_running_loop_decoders:
  "map (\<lambda>s. (num_blocks s, length (block_table s))) (filter is_decoder (schedule_running_loop tb k ss))
   = map (\<lambda>s. (num_blocks s, length (block_table s))) (select_decode (tb - k) ss)"
proof (induction ss arbitrary: k)
  case (Cons s ss)
  have none: "select_decode 0 ss = []" for ss
    by (induction ss) (auto simp: running_token_count_def split: sequence_phase.splits)
  show ?case
  proof (cases "tb - k = 0")
    case True
    then show ?thesis using Cons.IH [of k] none
      by (simp add: is_decoder_def running_token_count_def split: sequence_phase.splits)
  next
    case False
    with Cons.IH [of "k + running_token_count s (tb - k)"] show ?thesis
      by (cases "running_token_count s (tb - k) = 0") (simp_all add: Let_def is_decoder_def)
  qed
qed simp

lemma missing_blocks_map:
  "missing_blocks ss = sum_list (map (\<lambda>(a, b). a - b) (map (\<lambda>s. (num_blocks s, length (block_table s))) ss))"
  by (simp add: missing_blocks_def o_def)

lemma schedule_running_missing:
  "missing_blocks (filter is_decoder (schedule_running_loop tb 0 ss)) = missing_blocks (select_decode tb ss)"
  unfolding missing_blocks_map schedule_running_loop_decoders by simp

text \<open>The running queue may be replaced by one that differs only in the scheduled work.\<close>

lemma sched_core_view:
  assumes core: "sched_core sch kv" and view: "list_all2 sched_view (running sch) run"
  shows "sched_core (sch\<lparr>running := run\<rparr>) kv" "moved sch kv (sch\<lparr>running := run\<rparr>) kv"
proof -
  have len: "length run = length (running sch)" using view by (simp add: list_all2_lengthD)
  have ok: "\<forall>s \<in> set run. running_ok s"
    using core view by (fastforce simp: sched_core_def list_all2_conv_all_nth in_set_conv_nth sched_view_simps)
  have "kv_inv kv (mset (waiting sch) + mset (running sch))"
    using core by (simp add: sched_core_def queue_def ac_simps)
  moreover have "list_all2 same_cache_view (running sch) run"
    using view by (rule list.rel_mono_strong) (simp add: sched_view_simps)
  ultimately have "kv_inv kv (mset (waiting sch) + mset run)" by (rule kv.inv_view_list)
  with core ok len show "sched_core (sch\<lparr>running := run\<rparr>) kv"
    by (simp add: sched_core_def queue_def ac_simps)
  have "map ident run = map ident (running sch)"
    using view by (auto simp: list_all2_conv_all_nth sched_view_simps intro!: nth_equalityI)
  then show "moved sch kv (sch\<lparr>running := run\<rparr>) kv" by (simp add: moved_def queue_def)
qed

lemmas sched_core_schedule_running = sched_core_view [OF _ schedule_running_loop_view]

section \<open>Admission\<close>

text \<open>What admission does to one waiting sequence: a full block table, a cached prefix that is
  shorter than the history, and between one token and the rest of the history to compute.\<close>

definition admits :: "sequence \<Rightarrow> sequence \<times> nat \<Rightarrow> bool" where
  "admits s x \<longleftrightarrow> (\<exists>t c n. x = (s\<lparr>block_table := t, num_cached_tokens := c\<rparr>, n)
     \<and> length t = num_blocks s \<and> c < num_tokens s \<and> 0 < n \<and> n \<le> num_tokens s - c)"

lemma hits_less_tokens: "k < num_blocks s \<Longrightarrow> k * BLOCK_SIZE < num_tokens s"
  by (simp add: less_num_blocks_iff)

lemma waiting_ok_allocate:
  assumes ok: "waiting_ok s" and inv: "kv_inv kv (add_mset s S)" and can: "kv_can_allocate xxh kv s = Ok (Some k)"
  obtains kv' t where
    "kv_allocate xxh kv s k = (Ok (), kv', s\<lparr>block_table := t, num_cached_tokens := k * BLOCK_SIZE\<rparr>)"
    "kv_inv kv' (add_mset (s\<lparr>block_table := t, num_cached_tokens := k * BLOCK_SIZE\<rparr>) S)"
    "length t = num_blocks s" "k * BLOCK_SIZE < num_tokens s" "kv_capacity kv' = kv_capacity kv"
proof -
  have b: "seq_base s" "block_table s = []" "num_cached_tokens s = 0" using ok by (simp_all add: waiting_ok_def)
  from kv.allocate_ok [OF inv b(2,3) seq_baseD(4) [OF b(1)] seq_baseD(2) [OF b(1)] can]
  show thesis using that hits_less_tokens by blast
qed

lemma prefill_loop_spec:
  assumes "m \<le> length w" "i \<le> m" "kv_inv kv (S + mset w)" "\<forall>s \<in> set (drop i w). waiting_ok s"
  shows "\<exists>news kv'. prefill_loop xxh tb [i..<m] tot sel w kv
      = (Ok (sel @ zip [i..<i + length news] (map snd news)), take i w @ map fst news @ drop (i + length news) w, kv')
    \<and> i + length news \<le> m
    \<and> kv_inv kv' (S + mset (take i w @ map fst news @ drop (i + length news) w)) \<and> kv_capacity kv' = kv_capacity kv
    \<and> list_all2 admits (take (length news) (drop i w)) news \<and> sum_list (map snd news) \<le> tb - tot
    \<and> (i < m \<and> tot < tb \<and> (\<exists>k. kv_can_allocate xxh kv (w ! i) = Ok (Some k)) \<longrightarrow> news \<noteq> [])"
  using assms
proof (induction "m - i" arbitrary: i tot sel w kv)
  case 0
  then have "i = m" by simp
  then show ?case using 0 by (intro exI [of _ "[]"] exI [of _ kv]) simp
next
  case (Suc d)
  then have im: "i < m" by simp
  let ?s = "w ! i"
  have iw: "i < length w" using im Suc.prems(1) by simp
  have ok: "waiting_ok ?s" using Suc.prems(4) iw by (metis Cons_nth_drop_Suc list.set_intros(1))
  have tgt: "prefill_target_tokens ?s = num_tokens ?s" "num_cached_tokens ?s = 0" "0 < num_tokens ?s"
    using ok seq_baseD(2) by (auto simp: waiting_ok_def)
  have inv: "kv_inv kv (add_mset ?s (S + mset w - {#?s#}))" using Suc.prems(3) iw by simp
  obtain c where c: "kv_can_allocate xxh kv ?s = Ok c" using kv.can_allocate_total [OF inv] by blast
  have upt: "[i..<m] = i # [Suc i..<m]" using im by (rule upt_conv_Cons)
  have stay: ?case if "prefill_loop xxh tb [i..<m] tot sel w kv = (Ok sel, w, kv)"
    "\<not> (tot < tb \<and> (\<exists>k. kv_can_allocate xxh kv (w ! i) = Ok (Some k)))"
    using that Suc.prems by (intro exI [of _ "[]"] exI [of _ kv]) simp
  show ?case
  proof (cases "tot < tb \<and> c \<noteq> None")
    case False
    then show ?thesis using c tgt by (intro stay) (auto simp: upt Let_def)
  next
    case True
    then obtain k where k: "kv_can_allocate xxh kv ?s = Ok (Some k)" using c by auto
    obtain kv1 t where al: "kv_allocate xxh kv ?s k = (Ok (), kv1, ?s\<lparr>block_table := t, num_cached_tokens := k * BLOCK_SIZE\<rparr>)"
      "kv_inv kv1 (add_mset (?s\<lparr>block_table := t, num_cached_tokens := k * BLOCK_SIZE\<rparr>) (S + mset w - {#?s#}))"
      "length t = num_blocks ?s" "k * BLOCK_SIZE < num_tokens ?s" "kv_capacity kv1 = kv_capacity kv"
      by (rule waiting_ok_allocate [OF ok inv k])
    define s' where "s' = ?s\<lparr>block_table := t, num_cached_tokens := k * BLOCK_SIZE\<rparr>"
    define n where "n = min (num_tokens ?s - k * BLOCK_SIZE) (tb - tot)"
    have n: "0 < n" "n \<le> num_tokens ?s - k * BLOCK_SIZE" "n \<le> tb - tot"
      using al(4) True by (auto simp: n_def)
    have rem: "prefill_target_tokens s' - num_cached_tokens s' = num_tokens ?s - k * BLOCK_SIZE"
      using tgt by (simp add: s'_def)
    let ?w = "w[i := s']"
    have step: "prefill_loop xxh tb [i..<m] tot sel w kv = prefill_loop xxh tb [Suc i..<m] (tot + n) (sel @ [(i, n)]) ?w kv1"
      using True rem n(1) tgt(3) unfolding upt
      by (simp add: tgt(1,2) k al(1) [folded s'_def] flip: n_def)
    have "kv_inv kv1 (S + mset ?w)"
      using al(2) iw by (simp add: s'_def mset_update)
    moreover have "\<forall>s \<in> set (drop (Suc i) ?w). waiting_ok s"
      using Suc.prems(4) by (auto simp: drop_update_cancel dest: set_drop_subset_set_drop [of i "Suc i", THEN subsetD, rotated])
    moreover have "d = m - Suc i" "m \<le> length ?w" "Suc i \<le> m" using Suc(2) Suc.prems(1) im by simp_all
    ultimately obtain news kv' where ih:
      "prefill_loop xxh tb [Suc i..<m] (tot + n) (sel @ [(i, n)]) ?w kv1
        = (Ok ((sel @ [(i, n)]) @ zip [Suc i..<Suc i + length news] (map snd news)),
           take (Suc i) ?w @ map fst news @ drop (Suc i + length news) ?w, kv')"
      "Suc i + length news \<le> m"
      "kv_inv kv' (S + mset (take (Suc i) ?w @ map fst news @ drop (Suc i + length news) ?w))"
      "kv_capacity kv' = kv_capacity kv1" "list_all2 admits (take (length news) (drop (Suc i) ?w)) news"
      "sum_list (map snd news) \<le> tb - (tot + n)"
      using Suc.hyps(1) [of "Suc i" ?w kv1 "tot + n" "sel @ [(i, n)]"] by blast
    have tk: "take (Suc i) ?w = take i w @ [s']" using iw by (simp add: take_Suc_conv_app_nth)
    have dr: "drop (Suc i) ?w = drop (Suc i) w" "drop (Suc i + length news) ?w = drop (Suc i + length news) w"
      by simp_all
    have adm: "admits ?s (s', n)" using al(3,4) n by (auto simp: admits_def s'_def)
    have dropi: "drop i w = ?s # drop (Suc i) w" using iw by (simp add: Cons_nth_drop_Suc)
    show ?thesis
    proof (intro exI [of _ "(s', n) # news"] exI [of _ kv'] conjI)
      show "list_all2 admits (take (length ((s', n) # news)) (drop i w)) ((s', n) # news)"
        using adm ih(5) dr(1) by (simp add: dropi)
    qed (use ih al(5) n step tk dr in \<open>auto simp: upt_conv_Cons ac_simps simp del: upt_Suc\<close>)
  qed
qed

lemma extract_selected_prefix:
  "j \<le> length w \<Longrightarrow> length ns = j
   \<Longrightarrow> extract_selected (rev (zip [0..<j] ns)) w = Ok (rev (zip (take j w) ns), drop j w)"
proof (induction j arbitrary: ns w)
  case (Suc j)
  then obtain ms n where ns: "ns = ms @ [n]" "length ms = j" by (metis length_Suc_conv_rev)
  have jw: "j < length w" using Suc.prems(1) by simp
  let ?w = "take j w @ drop (Suc j) w"
  have "extract_selected (rev (zip [0..<j] ms)) ?w = Ok (rev (zip (take j ?w) ms), drop j ?w)"
    by (rule Suc.IH) (use Suc.prems ns in simp_all)
  then show ?case using jw ns by (simp add: take_Suc_conv_app_nth zip_append1)
qed simp

text \<open>A freshly admitted sequence: its whole history is still the prefill target.\<close>

definition fresh_ok :: "sequence \<Rightarrow> bool" where
  "fresh_ok s \<longleftrightarrow> running_ok s \<and> sequence_phase s = Prefill \<and> work_ok s \<and> 0 < num_scheduled_tokens s"

lemma fresh_okD:
  assumes "fresh_ok s"
  shows "running_ok s" "work_ok s" "\<not> is_decoder s" "prefill_target_tokens s = num_tokens s"
  using assms by (auto simp: fresh_ok_def is_decoder_def running_ok_def)

lemma admitted_fresh:
  assumes "waiting_ok s" "admits s x"
  shows "fresh_ok (admitted x)" "num_scheduled_tokens (admitted x) = snd x" "ident (admitted x) = ident s"
  using assms
  by (auto simp: admits_def admitted_def fresh_ok_def running_ok_def waiting_ok_def work_ok_def sequence_phase_def
      same_cache_view_def prefill_target_tokens_def split: option.splits)

lemma same_cache_view_admitted [simp]: "same_cache_view s (admitted (s, n))"
  by (simp add: admitted_def same_cache_view_def)

lemma list_all2_admitted:
  assumes "list_all2 admits ws news" "\<forall>s \<in> set ws. waiting_ok s"
  shows "\<forall>s \<in> set (map admitted news). fresh_ok s"
    and "map ident (map admitted news) = map ident ws"
    and "map num_scheduled_tokens (map admitted news) = map snd news"
    and "list_all2 same_cache_view (map fst news) (map admitted news)"
  using assms by (induction rule: list_all2_induct) (auto simp: admitted_fresh)

definition prefill_selection :: work_selection where
  "prefill_selection = \<lparr>ws_phase = Prefill_step, is_prefill_continuation = False, ws_blocked_admission = None\<rparr>"

definition admit :: "scheduler \<Rightarrow> (sequence \<times> nat) list \<Rightarrow> scheduler" where
  "admit sch news = sch\<lparr>waiting := drop (length news) (waiting sch), running := running sch @ map admitted news\<rparr>"

lemma zip_map_fst_snd: "zip (map fst xs) (map snd xs) = xs"
  by (induction xs) auto

lemma schedule_prefill_run:
  assumes core: "sched_core sch kv"
  shows "\<exists>news kv'. schedule_prefill_with_budget xxh sch kv tb = (Ok prefill_selection, admit sch news, kv')
    \<and> kv_inv kv' (mset (running sch) + mset (map fst news @ drop (length news) (waiting sch)))
    \<and> kv_capacity kv' = kv_capacity kv
    \<and> list_all2 admits (take (length news) (waiting sch)) news \<and> sum_list (map snd news) \<le> tb
    \<and> length news \<le> max_num_seqs sch - length (running sch)
    \<and> (0 < tb \<and> waiting sch \<noteq> [] \<and> length (running sch) < max_num_seqs sch
        \<and> (\<exists>k. kv_can_allocate xxh kv (hd (waiting sch)) = Ok (Some k)) \<longrightarrow> news \<noteq> [])"
proof (cases "waiting sch = []")
  case True
  then show ?thesis using core
    by (intro exI [of _ "[]"] exI [of _ kv])
       (simp add: schedule_prefill_with_budget_def prefill_selection_def admit_def sched_core_def queue_def)
next
  case False
  let ?w = "waiting sch"
  define m where "m = min (length ?w) (max_num_seqs sch - length (running sch))"
  have inv: "kv_inv kv (mset (running sch) + mset ?w)" using core by (simp add: sched_core_def queue_def)
  have "m \<le> length ?w" "0 \<le> m" "\<forall>s \<in> set (drop 0 ?w). waiting_ok s" using core by (auto simp: m_def sched_core_def)
  from prefill_loop_spec [OF this(1,2) inv this(3), of xxh tb 0 "[]"] obtain news kv' where
    loop: "prefill_loop xxh tb [0..<m] 0 [] ?w kv
      = (Ok (zip [0..<length news] (map snd news)), map fst news @ drop (length news) ?w, kv')"
    and rest: "length news \<le> m" "kv_inv kv' (mset (running sch) + mset (map fst news @ drop (length news) ?w))"
      "kv_capacity kv' = kv_capacity kv" "list_all2 admits (take (length news) ?w) news"
      "sum_list (map snd news) \<le> tb"
      "0 < m \<and> 0 < tb \<and> (\<exists>k. kv_can_allocate xxh kv (?w ! 0) = Ok (Some k)) \<longrightarrow> news \<noteq> []"
    by auto
  have "extract_selected (rev (zip [0..<length news] (map snd news))) (map fst news @ drop (length news) ?w)
      = Ok (rev (zip (map fst news) (map snd news)), drop (length news) ?w)"
    using extract_selected_prefix [of "length news" "map fst news @ drop (length news) ?w" "map snd news"] by simp
  then have "schedule_prefill_with_budget xxh sch kv tb = (Ok prefill_selection, admit sch news, kv')"
    using False loop
    by (simp add: schedule_prefill_with_budget_def prefill_selection_def admit_def m_def zip_map_fst_snd)
  moreover have "0 < m" if "length (running sch) < max_num_seqs sch" using that False by (simp add: m_def)
  moreover have "length news \<le> max_num_seqs sch - length (running sch)" using rest(1) by (simp add: m_def)
  ultimately show ?thesis using rest False by (auto simp: hd_conv_nth)
qed

lemma schedule_prefill_spec:
  assumes core: "sched_core sch kv"
  shows "\<exists>news kv'. schedule_prefill_with_budget xxh sch kv tb = (Ok prefill_selection, admit sch news, kv')
    \<and> sched_core (admit sch news) kv' \<and> moved sch kv (admit sch news) kv'
    \<and> (\<forall>s \<in> set (map admitted news). fresh_ok s)
    \<and> sum_list (map num_scheduled_tokens (map admitted news)) \<le> tb
    \<and> (0 < tb \<and> waiting sch \<noteq> [] \<and> length (running sch) < max_num_seqs sch
        \<and> (\<exists>k. kv_can_allocate xxh kv (hd (waiting sch)) = Ok (Some k)) \<longrightarrow> news \<noteq> [])"
proof -
  obtain news kv' where run: "schedule_prefill_with_budget xxh sch kv tb = (Ok prefill_selection, admit sch news, kv')"
    and inv: "kv_inv kv' (mset (running sch) + mset (map fst news @ drop (length news) (waiting sch)))"
    and cap: "kv_capacity kv' = kv_capacity kv"
    and adm: "list_all2 admits (take (length news) (waiting sch)) news"
    and rest: "sum_list (map snd news) \<le> tb" "length news \<le> max_num_seqs sch - length (running sch)"
      "0 < tb \<and> waiting sch \<noteq> [] \<and> length (running sch) < max_num_seqs sch
        \<and> (\<exists>k. kv_can_allocate xxh kv (hd (waiting sch)) = Ok (Some k)) \<longrightarrow> news \<noteq> []"
    using schedule_prefill_run [OF core, of xxh tb] by blast
  have wok: "\<forall>s \<in> set (take (length news) (waiting sch)). waiting_ok s"
    using core by (auto simp: sched_core_def dest: in_set_takeD)
  note fresh = list_all2_admitted [OF adm wok]
  have "kv_inv kv' ((mset (running sch) + mset (drop (length news) (waiting sch))) + mset (map fst news))"
    using inv by (simp add: ac_simps)
  from kv.inv_view_list [OF this fresh(4)]
  have inv': "kv_inv kv' (mset (queue (admit sch news)))" by (simp add: queue_def admit_def ac_simps)
  have "sched_core (admit sch news) kv'"
    using core inv' fresh(1) fresh_okD(1) rest(2)
    by (auto simp: sched_core_def admit_def dest: in_set_dropD)
  moreover have "map ident (queue (admit sch news)) = map ident (queue sch)"
    unfolding queue_def admit_def
    using fresh(2) by (simp del: map_map) (metis append_take_drop_id map_append)
  then have "moved sch kv (admit sch news) kv'" using cap by (simp add: moved_def admit_def)
  moreover have "sum_list (map num_scheduled_tokens (map admitted news)) \<le> tb"
    using rest(1) by (simp only: fresh(3))
  ultimately show ?thesis using run fresh(1) rest(3)
    by (intro exI [of _ news] exI [of _ kv'] conjI)
qed

section \<open>Reserving append blocks\<close>

lemma store_tables_simps [simp]:
  "store_tables [] rs ss = ss"
  "store_tables (i # ix) (r # rs) ss = store_tables ix rs (ss[i := (ss ! i)\<lparr>block_table := block_table r\<rparr>])"
  by (simp_all add: store_tables_def)

lemma store_tables_length [simp]: "length (store_tables ix rs ss) = length ss"
proof (induction ix arbitrary: rs ss)
  case (Cons i ix)
  then show ?case by (cases rs) (simp_all add: store_tables_def)
qed simp

lemma store_tables_other: "i \<notin> set ix \<Longrightarrow> store_tables ix rs ss ! i = ss ! i"
proof (induction ix arbitrary: rs ss)
  case (Cons j ix)
  then show ?case by (cases rs) (simp_all add: store_tables_def)
qed simp

lemma store_tables_nth:
  "distinct ix \<Longrightarrow> length rs = length ix \<Longrightarrow> set ix \<subseteq> {..<length ss} \<Longrightarrow> k < length ix
   \<Longrightarrow> store_tables ix rs ss ! (ix ! k) = (ss ! (ix ! k))\<lparr>block_table := block_table (rs ! k)\<rparr>"
proof (induction ix arbitrary: rs ss k)
  case (Cons i ix)
  then obtain r rs' where rs: "rs = r # rs'" by (cases rs) simp_all
  let ?ss = "ss[i := (ss ! i)\<lparr>block_table := block_table r\<rparr>]"
  show ?case
  proof (cases k)
    case 0
    then show ?thesis using Cons.prems store_tables_other [of i ix rs' ?ss] by (simp add: rs)
  next
    case (Suc l)
    then have l: "l < length ix" using Cons.prems by simp
    then have "ix ! l \<noteq> i" using Cons.prems(1) nth_mem by fastforce
    moreover have "store_tables ix rs' ?ss ! (ix ! l) = (?ss ! (ix ! l))\<lparr>block_table := block_table (rs' ! l)\<rparr>"
      by (rule Cons.IH) (use Cons.prems l in \<open>simp_all add: rs\<close>)
    ultimately show ?thesis by (simp add: rs Suc)
  qed
qed (simp only: list.size(3) not_less_zero)

lemma mset_by_indices:
  "mset xs = mset (map ((!) xs) (filter P [0..<length xs])) + mset (map ((!) xs) (filter (\<lambda>i. \<not> P i) [0..<length xs]))"
proof -
  have "mset xs = image_mset ((!) xs) (mset [0..<length xs])" by (metis map_nth mset_map)
  also have "mset [0..<length xs] = mset (filter P [0..<length xs]) + mset (filter (\<lambda>i. \<not> P i) [0..<length xs])"
    by (metis mset_filter multiset_partition)
  finally show ?thesis by simp
qed

text \<open>What a successful reservation does to one running sequence.\<close>

definition reserved :: "sequence \<Rightarrow> sequence \<Rightarrow> bool" where
  "reserved s s' \<longleftrightarrow>
     (if is_decoder s then \<exists>t. s' = s\<lparr>block_table := t\<rparr> \<and> length t = num_blocks s else s' = s)"

lemma decode_indices_eq: "decode_indices ss = filter (\<lambda>i. is_decoder (ss ! i)) [0..<length ss]"
  by (simp add: decode_indices_def is_decoder_def)

lemma filter_by_indices: "map ((!) xs) (filter (\<lambda>i. P (xs ! i)) [0..<length xs]) = filter P xs"
  by (metis (no_types, lifting) filter_map map_nth comp_apply filter_cong)

lemma decode_selected: "map ((!) ss) (decode_indices ss) = filter is_decoder ss"
  unfolding decode_indices_eq by (rule filter_by_indices)

lemma store_tables_decoders:
  assumes rs: "list_all2 (\<lambda>s s'. \<exists>t. s' = s\<lparr>block_table := t\<rparr> \<and> length t = num_blocks s)
      (filter is_decoder ss) rs"
  shows "list_all2 reserved ss (store_tables (decode_indices ss) rs ss)"
    and "mset (store_tables (decode_indices ss) rs ss) = mset rs + mset (filter (\<lambda>s. \<not> is_decoder s) ss)"
proof -
  let ?ix = "decode_indices ss"
  let ?st = "store_tables ?ix rs ss"
  have ix: "distinct ?ix" "set ?ix \<subseteq> {..<length ss}" "\<And>i. i \<in> set ?ix \<longleftrightarrow> i < length ss \<and> is_decoder (ss ! i)"
    by (auto simp: decode_indices_eq)
  have len: "length rs = length ?ix"
    using list_all2_lengthD [OF rs] by (simp flip: decode_selected)
  have at: "\<exists>t. rs ! k = (ss ! (?ix ! k))\<lparr>block_table := t\<rparr> \<and> length t = num_blocks (ss ! (?ix ! k))"
    if "k < length ?ix" for k
    using list_all2_nthD [OF rs, of k] that by (simp flip: decode_selected)
  have st: "?st ! (?ix ! k) = rs ! k" if "k < length ?ix" for k
    using store_tables_nth [OF ix(1) len ix(2) that] at [OF that] by auto
  have "reserved (ss ! i) (?st ! i)" if i: "i < length ss" for i
  proof (cases "is_decoder (ss ! i)")
    case True
    then have "i \<in> set ?ix" using ix(3) i by blast
    then obtain k where "k < length ?ix" "?ix ! k = i" by (auto simp: in_set_conv_nth)
    with st [of k] at [of k] True show ?thesis by (auto simp: reserved_def)
  next
    case False
    then have "i \<notin> set ?ix" using ix(3) by blast
    then show ?thesis using False store_tables_other by (simp add: reserved_def)
  qed
  then show "list_all2 reserved ss ?st" by (simp add: list_all2_conv_all_nth)
  have "mset ?st = mset (map ((!) ?st) ?ix) + mset (map ((!) ?st) (filter (\<lambda>i. \<not> is_decoder (ss ! i)) [0..<length ss]))"
    using mset_by_indices [of ?st "\<lambda>i. is_decoder (ss ! i)"] by (simp add: decode_indices_eq)
  also have "map ((!) ?st) ?ix = rs" using st len by (intro nth_equalityI) simp_all
  also have "map ((!) ?st) (filter (\<lambda>i. \<not> is_decoder (ss ! i)) [0..<length ss])
      = map ((!) ss) (filter (\<lambda>i. \<not> is_decoder (ss ! i)) [0..<length ss])"
    by (intro map_cong refl store_tables_other) (simp add: ix(3))
  also have "\<dots> = filter (\<lambda>s. \<not> is_decoder s) ss" by (rule filter_by_indices)
  finally show "mset ?st = mset rs + mset (filter (\<lambda>s. \<not> is_decoder s) ss)" .
qed

lemma reserved_simps:
  assumes "reserved s s'" "running_ok s"
  shows "running_ok s'" "ident s' = ident s" "work_ok s \<Longrightarrow> work_ok s'"
    "num_scheduled_tokens s' = num_scheduled_tokens s" "sequence_phase s' = sequence_phase s"
    "0 < num_scheduled_tokens s \<Longrightarrow> length (block_table s') = num_blocks s'"
  using assms
  by (cases "sequence_phase s"; auto simp: reserved_def running_ok_def work_ok_def append_gap_ok_def
      is_decoder_def split: if_splits)+

text \<open>The reservation fits when the decoders' missing blocks fit beside what is occupied.\<close>

lemma reserve_decode_cache_cases:
  assumes core: "sched_core sch kv"
  obtains (ok) run kv' where "reserve_decode_cache sch kv = (Ok (), sch\<lparr>running := run\<rparr>, kv')"
      "sched_core (sch\<lparr>running := run\<rparr>) kv'" "moved sch kv (sch\<lparr>running := run\<rparr>) kv'"
      "list_all2 reserved (running sch) run"
  | (full) e where "reserve_decode_cache sch kv = (Error e, sch, kv)"
      "kv_num_free_blocks kv < missing_blocks (filter is_decoder (running sch))"
proof (cases "decode_indices (running sch) = []")
  case True
  then have none: "filter is_decoder (running sch) = []" using decode_selected by (metis map_is_Nil_conv)
  have "list_all2 reserved (running sch) (running sch)"
    using none by (auto simp: list_all2_same reserved_def filter_empty_conv)
  then show thesis using True core by (intro ok [of "running sch" kv]) (simp_all add: reserve_decode_cache_def)
next
  case False
  let ?dec = "filter is_decoder (running sch)" and ?rest = "filter (\<lambda>s. \<not> is_decoder s) (running sch)"
  have sel: "map ((!) (running sch)) (decode_indices (running sch)) = ?dec" by (rule decode_selected)
  have gaps: "\<forall>s \<in> set ?dec. append_gap_ok s"
    using core by (auto simp: sched_core_def is_decoder_def dest: running_okD(4))
  have "mset (queue sch) = (mset ?rest + mset (waiting sch)) + mset ?dec"
    using multiset_partition [of "mset (running sch)" is_decoder] by (simp add: queue_def ac_simps)
  then have inv: "kv_inv kv ((mset ?rest + mset (waiting sch)) + mset ?dec)" using core by (simp add: sched_core_def)
  show thesis
  proof (cases "\<exists>e. kv_may_append_batch kv ?dec = (Error e, kv, ?dec)")
    case no: False
    obtain kv' rs where a: "kv_may_append_batch kv ?dec = (Ok (), kv', rs)"
      "kv_inv kv' ((mset ?rest + mset (waiting sch)) + mset rs)"
      "list_all2 (\<lambda>s s'. \<exists>t. s' = s\<lparr>block_table := t\<rparr> \<and> length t = num_blocks s) ?dec rs"
      "kv_capacity kv' = kv_capacity kv"
      using kv.append_batch_cases [OF inv] no by blast
    let ?run = "store_tables (decode_indices (running sch)) rs (running sch)"
    note st = store_tables_decoders [OF a(3)]
    have r_ok: "\<forall>s \<in> set ?run. running_ok s" and r_id: "map ident ?run = map ident (running sch)"
      using st(1) core reserved_simps(1,2)
      by (fastforce simp: sched_core_def list_all2_conv_all_nth in_set_conv_nth intro!: nth_equalityI)+
    have "kv_inv kv' (mset (queue (sch\<lparr>running := ?run\<rparr>)))"
      using a(2) st(2) by (simp add: queue_def ac_simps)
    with core r_ok have "sched_core (sch\<lparr>running := ?run\<rparr>) kv'" by (simp add: sched_core_def)
    moreover have "moved sch kv (sch\<lparr>running := ?run\<rparr>) kv'"
      using r_id a(4) by (simp add: moved_def queue_def)
    moreover have "reserve_decode_cache sch kv = (Ok (), sch\<lparr>running := ?run\<rparr>, kv')"
      using False a(1) sel by (simp add: reserve_decode_cache_def)
    ultimately show thesis using st(1) ok by blast
  next
    case True
    then obtain e where e: "kv_may_append_batch kv ?dec = (Error e, kv, ?dec)" by blast
    then have "\<not> kv_can_append_batch kv ?dec" using kv.append_batch_cases [OF inv] by auto
    then have "kv_num_free_blocks kv < missing_blocks ?dec" using kv.can_append_iff [OF inv] gaps by simp
    then show thesis using False sel e by (intro full) (simp_all add: reserve_decode_cache_def)
  qed
qed

end
