(* ===== verification/Selection.thy ===== *)
theory Selection
  imports Admission
begin

text \<open>
  \<^verbatim>\<open>select_work\<close> as a whole. Under the scheduler invariant it never fails: the append blocks of the
  selected decoders fit once enough admissions are rolled back, because the preemption test made
  them fit before any admission. It spends at most the token budget, keeps the order of the
  queue, and selects work whenever some request can run at all.
\<close>

section \<open>The reservation loop\<close>

lemma waiting_ok_unadmitted:
  assumes "fresh_ok s"
  shows "waiting_ok (unadmitted (clear_blocks s))"
  using fresh_okD(1,4) [OF assms]
  by (simp add: waiting_ok_def unadmitted_def running_ok_def seq_base_def wf_seq_def num_completion_tokens_def
      prefill_target_tokens_def split: option.splits)

lemma same_cache_view_unadmitted: "same_cache_view s (unadmitted s)"
  by (simp add: same_cache_view_def unadmitted_def)

lemma ident_unadmitted: "ident (unadmitted s) = ident s"
  by (simp add: unadmitted_def ident_def)

lemma rollback_fresh:
  assumes core: "sched_core sch kv" and run: "running sch = xs @ [s]" and fresh: "fresh_ok s"
  shows "\<exists>sch' kv'. rollback_last_admission sch kv = (Ok (), sch', kv') \<and> sched_core sch' kv'
    \<and> moved sch kv sch' kv' \<and> running sch' = xs"
proof -
  have "running sch \<noteq> []" "last (running sch) = s" "butlast (running sch) = xs" using run by simp_all
  with release_last_running [OF core _ same_cache_view_unadmitted ident_unadmitted] waiting_ok_unadmitted [OF fresh]
  obtain kv' where "kv_deallocate kv s = (Ok (), kv', clear_blocks s)"
    "sched_core (sch\<lparr>running := xs, waiting := unadmitted (clear_blocks s) # waiting sch\<rparr>) kv'"
    "moved sch kv (sch\<lparr>running := xs, waiting := unadmitted (clear_blocks s) # waiting sch\<rparr>) kv'"
    by metis
  then show ?thesis using run by (auto simp: rollback_last_admission_def)
qed

lemma occupied_running:
  assumes "sched_core sch kv"
  shows "occupied (mset (queue sch)) = occupied (mset (running sch))"
  using assms by (auto simp: occupied_def queue_def sched_core_def waiting_ok_def)

lemma free_beside_running:
  assumes "sched_core sch kv"
  shows "kv_num_free_blocks kv + card (occupied (mset (running sch))) = kv_capacity kv"
  using kv.free_count [of kv "mset (queue sch)"] occupied_running [OF assms] assms by (simp add: sched_core_def)

lemma reserved_fresh:
  "list_all2 reserved news ys \<Longrightarrow> \<forall>s \<in> set news. fresh_ok s \<Longrightarrow> ys = news"
  by (induction rule: list_all2_induct) (auto simp: reserved_def fresh_okD(3))

lemma reserve_loop_step:
  "reserve_loop before sch kv =
     (case reserve_decode_cache sch kv of
        (Inl Panic, sch', kv') \<Rightarrow> (Panicked, sch', kv')
      | (Inr _, sch', kv') \<Rightarrow> (Ok (), sch', kv')
      | (Inl (Err e), sch', kv') \<Rightarrow>
          if length (running sch') = before then (Error e, reset_scheduled_work sch', kv')
          else (case rollback_last_admission sch' kv' of
                  (Inl Panic, sch'', kv'') \<Rightarrow> (Panicked, sch'', kv'')
                | (Inl (Err e'), sch'', kv'') \<Rightarrow> (Error e', reset_scheduled_work sch'', kv'')
                | (Inr _, sch'', kv'') \<Rightarrow> reserve_loop before sch'' kv''))"
  by (subst reserve_loop.simps) (rule refl)

lemma reserve_loop_spec:
  assumes "sched_core sch kv" "running sch = olds @ news" "\<forall>s \<in> set news. fresh_ok s"
    "missing_blocks (filter is_decoder olds) + card (occupied (mset olds)) \<le> kv_capacity kv"
  shows "\<exists>sch' kv' olds' j. reserve_loop (length olds) sch kv = (Ok (), sch', kv') \<and> sched_core sch' kv'
    \<and> moved sch kv sch' kv' \<and> running sch' = olds' @ take j news \<and> list_all2 reserved olds olds'
    \<and> (take j news = news \<or> filter is_decoder olds \<noteq> [])"
  using assms
proof (induction news arbitrary: sch kv rule: rev_induct)
  case Nil
  show ?case using Nil(1)
  proof (cases rule: reserve_decode_cache_cases)
    case (ok run kv')
    then show ?thesis using Nil.prems
      by (intro exI [of _ "sch\<lparr>running := run\<rparr>"] exI [of _ kv'] exI [of _ run] exI [of _ 0])
         (simp add: reserve_loop_step)
  next
    case (full e)
    then show ?thesis using free_beside_running [OF Nil.prems(1)] Nil.prems(2,4) by simp
  qed
next
  case (snoc n news)
  show ?case using snoc.prems(1)
  proof (cases rule: reserve_decode_cache_cases)
    case (ok run kv')
    then obtain olds' ys where run: "run = olds' @ ys" "list_all2 reserved olds olds'"
      "list_all2 reserved (news @ [n]) ys"
      using snoc.prems(2) by (auto simp: list_all2_append1)
    then have "ys = news @ [n]" using reserved_fresh snoc.prems(3) by blast
    then show ?thesis using ok run
      by (intro exI [of _ "sch\<lparr>running := run\<rparr>"] exI [of _ kv'] exI [of _ olds'] exI [of _ "Suc (length news)"])
         (simp add: reserve_loop_step)
  next
    case (full e)
    have dec: "filter is_decoder olds \<noteq> []"
    proof
      assume "filter is_decoder olds = []"
      then have "filter is_decoder (running sch) = []"
        using snoc.prems(2,3) fresh_okD(3) by (auto simp: filter_empty_conv)
      then show False using full(2) by (simp add: missing_blocks_def)
    qed
    obtain sch1 kv1 where rb: "rollback_last_admission sch kv = (Ok (), sch1, kv1)" "sched_core sch1 kv1"
      "moved sch kv sch1 kv1" "running sch1 = olds @ news"
      using rollback_fresh [OF snoc.prems(1), of "olds @ news" n] snoc.prems(2,3) by auto
    have step: "reserve_loop (length olds) sch kv = reserve_loop (length olds) sch1 kv1"
      using full(1) rb(1) snoc.prems(2) by (simp add: reserve_loop_step [of "length olds" sch kv])
    have "kv_capacity kv1 = kv_capacity kv" using rb(3) by (rule moved_config)
    then obtain sch' kv' olds' j where "reserve_loop (length olds) sch1 kv1 = (Ok (), sch', kv')" "sched_core sch' kv'"
      "moved sch1 kv1 sch' kv'" "running sch' = olds' @ take j news" "list_all2 reserved olds olds'"
      using snoc.IH [OF rb(2,4)] snoc.prems(3,4) by auto
    moreover have "take (min j (length news)) (news @ [n]) = take j news" by (simp add: min_def)
    ultimately show ?thesis using dec step moved_trans [OF rb(3)]
      by (intro exI [of _ sch'] exI [of _ kv'] exI [of _ olds'] exI [of _ "min j (length news)"]) auto
  qed
qed

section \<open>Selecting work\<close>

lemma select_decode_subset: "mset (select_decode b ss) \<subseteq># mset ss"
proof (induction ss arbitrary: b)
  case (Cons s ss)
  from Cons.IH [of "b - running_token_count s b"] show ?case
    by (auto simp: Let_def intro: subset_mset.order_trans mset_subset_eq_add_right)
qed simp

lemma can_append_missing:
  assumes core: "sched_core sch kv" and can: "kv_can_append_batch kv (select_decode b (running sch))"
  shows "missing_blocks (select_decode b (running sch)) \<le> kv_num_free_blocks kv"
proof -
  have "mset (select_decode b (running sch)) \<subseteq># mset (queue sch)"
    using select_decode_subset [of b "running sch"] by (simp add: queue_def subset_mset.add_increasing2)
  then obtain S where "mset (queue sch) = S + mset (select_decode b (running sch))"
    by (metis add.commute mset_subset_eq_exists_conv)
  with core have "kv_inv kv (S + mset (select_decode b (running sch)))" by (simp add: sched_core_def)
  from kv.can_append_iff [OF this] can show ?thesis by blast
qed

text \<open>What a selected running queue satisfies: the work of every sequence is within its target and
  the blocks for it are in its table.\<close>

definition selected_ok :: "sequence \<Rightarrow> bool" where
  "selected_ok s \<longleftrightarrow> work_ok s \<and> (0 < num_scheduled_tokens s \<longrightarrow> length (block_table s) = num_blocks s)"

definition phase_ok :: "work_selection \<Rightarrow> sequence list \<Rightarrow> bool" where
  "phase_ok sel run \<longleftrightarrow>
     (\<forall>s \<in> set run. 0 < num_scheduled_tokens s \<longrightarrow>
        (ws_phase sel = Prefill_step \<longrightarrow> sequence_phase s = Prefill)
        \<and> (ws_phase sel = Decode_step \<longrightarrow> sequence_phase s = Decode))"

lemma fresh_selected: "fresh_ok s \<Longrightarrow> selected_ok s"
  by (auto simp: fresh_ok_def selected_ok_def running_ok_def)

lemma reserved_selected:
  assumes "list_all2 reserved olds olds'" "\<forall>s \<in> set olds. running_ok s \<and> work_ok s"
  shows "\<forall>s \<in> set olds'. selected_ok s" "map num_scheduled_tokens olds' = map num_scheduled_tokens olds"
  using assms by (induction rule: list_all2_induct) (auto simp: selected_ok_def reserved_simps)

lemma list_ex_enumerate: "list_ex (\<lambda>(i, s). P s) (filter (\<lambda>(i, s). Q s) (enumerate n xs)) \<longleftrightarrow> (\<exists>s \<in> set xs. Q s \<and> P s)"
  by (induction xs arbitrary: n) auto

lemma selected_work_phase: "phase_ok (selected_work sch before blocked) (running sch)"
proof -
  have iff: "sequence_phase s \<noteq> Prefill \<longleftrightarrow> sequence_phase s = Decode" for s by (cases "sequence_phase s") simp_all
  show ?thesis
    unfolding phase_ok_def selected_work_def Let_def list_ex_enumerate
    by (auto simp: iff split: if_splits) (metis iff neq0_conv)+
qed

lemma blocked_or_else_total:
  "sched_core sch kv \<Longrightarrow> \<exists>b. blocked_or_else xxh blocked sch kv = Ok b"
  using admission_block_total by (auto simp: blocked_or_else_def split: option.splits)

lemma occupied_view: "list_all2 sched_view ss ss' \<Longrightarrow> occupied (mset ss') = occupied (mset ss)"
  by (induction rule: list_all2_induct) (auto simp: occupied_def sched_view_simps)

text \<open>Positive work for the first running sequence as soon as there is budget.\<close>

lemma running_token_count_pos: "0 < b \<Longrightarrow> 0 < running_token_count s b"
  by (simp add: running_token_count_def sequence_phase_def)

lemma schedule_running_loop_pos:
  "0 < tb \<Longrightarrow> ss \<noteq> [] \<Longrightarrow> 0 < sum_list (map num_scheduled_tokens (schedule_running_loop tb 0 ss))"
  by (cases ss) (simp_all add: Let_def running_token_count_pos)

text \<open>The sequence at the front of the running queue keeps its place, and its work is what it was.\<close>

definition front_kept :: "sequence list \<Rightarrow> sequence list \<Rightarrow> bool" where
  "front_kept run run' \<longleftrightarrow> run' \<noteq> [] \<and> ident (hd run') = ident (hd run)
     \<and> num_cached_tokens (hd run') = num_cached_tokens (hd run)
     \<and> recompute_target_tokens (hd run') = recompute_target_tokens (hd run)"

lemma reserved_front:
  assumes "run \<noteq> []" "list_all2 reserved (schedule_running_loop rb 0 run) olds"
  shows "front_kept run (olds @ news)" "0 < rb \<Longrightarrow> 0 < num_scheduled_tokens (hd (olds @ news))"
proof -
  obtain f rest where run: "run = f # rest" using assms(1) by (cases run) auto
  obtain g gs where g: "schedule_running_loop rb 0 run = g # gs" "sched_view f g" "0 < rb \<Longrightarrow> 0 < num_scheduled_tokens g"
    using schedule_running_loop_view [of run rb 0] running_token_count_pos [of rb f]
    by (simp add: run Let_def split: if_splits)
  obtain h hs where h: "olds = h # hs" "reserved g h" using assms(2) g(1) by (cases olds) auto
  have "ident h = ident f \<and> num_cached_tokens h = num_cached_tokens f
      \<and> recompute_target_tokens h = recompute_target_tokens f \<and> num_scheduled_tokens h = num_scheduled_tokens g"
    using g(2) h(2) by (auto simp: sched_view_def reserved_def split: if_splits)
  then show "front_kept run (olds @ news)" "0 < rb \<Longrightarrow> 0 < num_scheduled_tokens (hd (olds @ news))"
    using g(3) by (simp_all add: front_kept_def run h(1))
qed

lemma sum_list_take_le: "sum_list (map f (take j xs)) \<le> sum_list (map f xs)" for f :: "'a \<Rightarrow> nat"
  by (metis append_take_drop_id le_add1 map_append sum_list_append)

lemma sum_list_pos_member: "x \<in> set xs \<Longrightarrow> 0 < f x \<Longrightarrow> 0 < sum_list (map f xs)" for f :: "'a \<Rightarrow> nat"
  using sum_list_le_member [of x xs f] by linarith

text \<open>The outcome of a selection, in the state it leaves.\<close>

definition selected_state :: "scheduler \<Rightarrow> kv_cache_manager \<Rightarrow> work_selection \<Rightarrow> scheduler \<Rightarrow> kv_cache_manager \<Rightarrow> bool" where
  "selected_state sch kv sel sch' kv' \<longleftrightarrow> sched_core sch' kv' \<and> moved sch kv sch' kv'
     \<and> (\<forall>s \<in> set (running sch'). selected_ok s)
     \<and> scheduled_tokens sch' \<le> max_num_batched_tokens sch' \<and> phase_ok sel (running sch')"

text \<open>A budget of one token that is reserved for admission can be spent on it.\<close>

lemma reserved_admission:
  assumes "sched_core sch kv" "admission_block xxh sch kv 0 = Ok blocked" "running_budget sch blocked = 0"
    "0 < max_num_batched_tokens sch"
  shows "waiting sch \<noteq> [] \<and> length (running sch) < max_num_seqs sch
    \<and> (\<exists>k. kv_can_allocate xxh kv (hd (waiting sch)) = Ok (Some k))"
proof -
  have "waiting sch \<noteq> []" "blocked = None"
    using assms(3,4) by (auto simp: running_budget_def split: if_splits)
  then show ?thesis
    using assms(2) admission_block_None_iff [OF assms(1), of xxh 0] by (auto split: list.splits)
qed

lemma select_with_running_spec:
  assumes core: "sched_core sch kv" and run: "running sch \<noteq> []"
    and adm: "admission_block xxh sch kv 0 = Ok blocked"
    and can: "kv_can_append_batch kv (select_decode (running_budget sch blocked) (running sch))"
  shows "\<exists>sel sch' kv'. select_with_running xxh sch kv blocked (running_budget sch blocked) = (Ok sel, sch', kv')
    \<and> selected_state sch kv sel sch' kv'
    \<and> (0 < max_num_batched_tokens sch \<longrightarrow> 0 < scheduled_tokens sch')
    \<and> front_kept (running sch) (running sch')
    \<and> (0 < running_budget sch blocked \<longrightarrow> 0 < num_scheduled_tokens (hd (running sch')))"
proof -
  define rb where "rb = running_budget sch blocked"
  define run1 where "run1 = schedule_running_loop rb 0 (running sch)"
  define sch1 where "sch1 = sch\<lparr>running := run1\<rparr>"
  define sum1 where "sum1 = sum_list (map num_scheduled_tokens run1)"
  have view: "list_all2 sched_view (running sch) run1" unfolding run1_def by (rule schedule_running_loop_view)
  have core1: "sched_core sch1 kv" and mv1: "moved sch kv sch1 kv"
    using sched_core_view [OF core view] by (simp_all add: sch1_def)
  have sum1: "sum1 \<le> rb" "rb \<le> max_num_batched_tokens sch"
    using schedule_running_loop_budget [of rb 0 "running sch"]
    by (simp_all add: sum1_def run1_def rb_def running_budget_def)
  let ?tb = "max_num_batched_tokens sch - sum1"
  obtain news kv2 where pre: "schedule_prefill_with_budget xxh sch1 kv ?tb = (Ok prefill_selection, admit sch1 news, kv2)"
    "sched_core (admit sch1 news) kv2" "moved sch1 kv (admit sch1 news) kv2"
    "\<forall>s \<in> set (map admitted news). fresh_ok s"
    "sum_list (map num_scheduled_tokens (map admitted news)) \<le> ?tb"
    "0 < ?tb \<and> waiting sch1 \<noteq> [] \<and> length (running sch1) < max_num_seqs sch1
        \<and> (\<exists>k. kv_can_allocate xxh kv (hd (waiting sch1)) = Ok (Some k)) \<longrightarrow> news \<noteq> []"
    using schedule_prefill_spec [OF core1, of xxh ?tb] by blast
  have run2: "running (admit sch1 news) = run1 @ map admitted news" by (simp add: admit_def sch1_def)
  have "missing_blocks (filter is_decoder run1) \<le> kv_num_free_blocks kv"
    using can_append_missing [OF core can] schedule_running_missing by (simp add: run1_def rb_def)
  then have fit: "missing_blocks (filter is_decoder run1) + card (occupied (mset run1)) \<le> kv_capacity kv2"
    using free_beside_running [OF core] occupied_view [OF view] moved_config(8) [OF pre(3)] by simp
  obtain sch3 kv3 olds' j where res: "reserve_loop (length run1) (admit sch1 news) kv2 = (Ok (), sch3, kv3)"
    "sched_core sch3 kv3" "moved (admit sch1 news) kv2 sch3 kv3"
    "running sch3 = olds' @ take j (map admitted news)" "list_all2 reserved run1 olds'"
    "take j (map admitted news) = map admitted news \<or> filter is_decoder run1 \<noteq> []"
    using reserve_loop_spec [OF pre(2) run2 pre(4) fit] by blast
  have before: "length run1 = length (running sch)" using view by (simp add: list_all2_lengthD)
  have mv: "moved sch kv sch3 kv3" using mv1 pre(3) res(3) moved_trans by blast
  have run1_ok: "\<forall>s \<in> set run1. running_ok s \<and> work_ok s"
    using core1 schedule_running_loop_work by (auto simp: sched_core_def sch1_def run1_def)
  note olds = reserved_selected [OF res(5) run1_ok]
  obtain b where b: "blocked_or_else xxh blocked sch3 kv3 = Ok b" using blocked_or_else_total [OF res(2)] by blast
  have call: "select_with_running xxh sch kv blocked rb = (Ok (selected_work sch3 (length (running sch)) b), sch3, kv3)"
    using pre(1) res(1) before b
    by (simp add: select_with_running_def schedule_running_def scheduled_tokens_def sch1_def run1_def sum1_def Let_def)
  have tot: "scheduled_tokens sch3 = sum1 + sum_list (map num_scheduled_tokens (take j (map admitted news)))"
    using olds(2) by (simp add: scheduled_tokens_def res(4) sum1_def del: take_map)
  have "sum_list (map num_scheduled_tokens (take j (map admitted news))) \<le> ?tb"
    using sum_list_take_le [of num_scheduled_tokens j "map admitted news"] pre(5) by linarith
  then have "scheduled_tokens sch3 \<le> max_num_batched_tokens sch3"
    using tot sum1 moved_config(1) [OF mv] by linarith
  moreover have "\<forall>s \<in> set (running sch3). selected_ok s"
    using olds(1) pre(4) fresh_selected unfolding res(4) set_append by (metis Un_iff in_set_takeD)
  ultimately have state: "selected_state sch kv (selected_work sch3 (length (running sch)) b) sch3 kv3"
    using res(2) mv selected_work_phase by (simp add: selected_state_def)
  have "0 < scheduled_tokens sch3" if pos: "0 < max_num_batched_tokens sch"
  proof (cases "0 < rb")
    case True
    then show ?thesis using schedule_running_loop_pos [OF True run] tot by (simp add: sum1_def run1_def)
  next
    case False
    then have zero: "sum1 = 0" using sum1 by simp
    have "news \<noteq> []"
      using pre(6) pos zero before reserved_admission [OF core adm _ pos] False by (simp add: sch1_def rb_def)
    moreover have "filter is_decoder run1 = []"
      using zero by (auto simp: sum1_def filter_empty_conv is_decoder_def)
    then have "take j (map admitted news) = map admitted news" using res(6) by simp
    ultimately obtain s where "s \<in> set (take j (map admitted news))" "0 < num_scheduled_tokens s"
      using pre(4) by (metis fresh_ok_def list.set_sel(1) list.map_disc_iff)
    then have "0 < sum_list (map num_scheduled_tokens (take j (map admitted news)))" by (rule sum_list_pos_member)
    then show ?thesis unfolding tot by simp
  qed
  moreover note reserved_front [OF run res(5) [unfolded run1_def], of "take j (map admitted news)", folded res(4)]
  ultimately show ?thesis using call state unfolding rb_def by (intro exI conjI impI)
qed

lemma num_blocks_ident:
  "wf_seq s \<Longrightarrow> wf_seq s' \<Longrightarrow> ident s' = ident s \<Longrightarrow> num_blocks s' = num_blocks s"
  by (simp add: num_blocks_def ident_def wf_seq_def)

lemma sched_core_wf: "sched_core sch kv \<Longrightarrow> s \<in> set (queue sch) \<Longrightarrow> wf_seq s"
  by (auto simp: sched_core_def queue_def running_ok_def waiting_ok_def seq_base_def)

lemma moved_num_blocks:
  assumes "sched_core sch kv" "sched_core sch' kv'" "moved sch kv sch' kv'" "\<forall>s \<in> set (queue sch). num_blocks s \<le> n"
  shows "\<forall>s \<in> set (queue sch'). num_blocks s \<le> n"
proof
  fix s' assume s': "s' \<in> set (queue sch')"
  then obtain s where s: "s \<in> set (queue sch)" "ident s = ident s'"
    using moved_config(9) [OF assms(3)] by (metis (no_types, lifting) image_iff list.set_map)
  have "num_blocks s' = num_blocks s"
    using num_blocks_ident [OF sched_core_wf [OF assms(1) s(1)] sched_core_wf [OF assms(2) s']] s(2) by simp
  with assms(4) s(1) show "num_blocks s' \<le> n" by simp
qed

lemma select_prefill_only_spec:
  assumes core: "sched_core sch kv" and run: "running sch = []"
  shows "\<exists>sel sch' kv'. select_prefill_only xxh sch kv blocked = (Ok sel, sch', kv')
    \<and> selected_state sch kv sel sch' kv'
    \<and> (0 < max_num_batched_tokens sch \<and> 0 < max_num_seqs sch \<and> waiting sch \<noteq> []
        \<and> num_blocks (hd (waiting sch)) \<le> kv_capacity kv \<longrightarrow> 0 < scheduled_tokens sch')"
proof -
  let ?tb = "max_num_batched_tokens sch"
  obtain news kv' where pre: "schedule_prefill_with_budget xxh sch kv ?tb = (Ok prefill_selection, admit sch news, kv')"
    "sched_core (admit sch news) kv'" "moved sch kv (admit sch news) kv'"
    "\<forall>s \<in> set (map admitted news). fresh_ok s"
    "sum_list (map num_scheduled_tokens (map admitted news)) \<le> ?tb"
    "0 < ?tb \<and> waiting sch \<noteq> [] \<and> length (running sch) < max_num_seqs sch
        \<and> (\<exists>k. kv_can_allocate xxh kv (hd (waiting sch)) = Ok (Some k)) \<longrightarrow> news \<noteq> []"
    using schedule_prefill_spec [OF core, of xxh ?tb] by blast
  let ?sch = "admit sch news"
  have run': "running ?sch = map admitted news" using run by (simp add: admit_def)
  obtain b where b: "blocked_or_else xxh blocked ?sch kv' = Ok b" using blocked_or_else_total [OF pre(2)] by blast
  let ?sel = "prefill_selection\<lparr>ws_blocked_admission := b\<rparr>"
  have "phase_ok ?sel (running ?sch)"
    using pre(4) unfolding run' by (auto simp: phase_ok_def prefill_selection_def fresh_ok_def)
  moreover have "\<forall>s \<in> set (running ?sch). selected_ok s" using pre(4) fresh_selected unfolding run' by blast
  moreover have "scheduled_tokens ?sch \<le> max_num_batched_tokens ?sch"
    using pre(5) run by (simp add: scheduled_tokens_def admit_def del: map_map)
  ultimately have "selected_state sch kv ?sel ?sch kv'" using pre(2,3) by (simp add: selected_state_def)
  moreover have "select_prefill_only xxh sch kv blocked = (Ok ?sel, ?sch, kv')"
    using pre(1) b by (simp add: select_prefill_only_def schedule_prefill_def)
  moreover have "0 < scheduled_tokens ?sch"
    if pos: "0 < ?tb \<and> 0 < max_num_seqs sch \<and> waiting sch \<noteq> [] \<and> num_blocks (hd (waiting sch)) \<le> kv_capacity kv"
  proof -
    have q: "mset (queue sch) = add_mset (hd (waiting sch)) (mset (tl (waiting sch)))"
      using pos run by (cases "waiting sch") (simp_all add: queue_def)
    have "occupied (mset (queue sch)) = {}" using occupied_running [OF core] run by (simp add: occupied_def)
    then have "\<exists>k. kv_can_allocate xxh kv (hd (waiting sch)) = Ok (Some k)"
      using kv.can_allocate_unused pos core unfolding q sched_core_def by blast
    then have "news \<noteq> []" using pre(6) pos run by simp
    then obtain s where "s \<in> set (running ?sch)" "0 < num_scheduled_tokens s"
      using pre(4) unfolding run' by (metis fresh_ok_def list.set_sel(1) list.map_disc_iff)
    then show ?thesis unfolding scheduled_tokens_def by (rule sum_list_pos_member)
  qed
  ultimately show ?thesis by (intro exI conjI impI)
qed

text \<open>Preemption takes from the back and never reaches the front, when the front sequence alone fits
  the cache: the blocks it lacks are then free as soon as it runs alone.\<close>

lemma preempt_front:
  assumes "sched_core sch kv" "preempt_if_needed xxh sch kv = (Ok (), sch', kv')"
    "running sch \<noteq> []" "num_blocks (hd (running sch)) \<le> kv_capacity kv"
  shows "running sch' \<noteq> [] \<and> hd (running sch') = hd (running sch)"
  using assms
proof (induction xxh sch kv rule: preempt_if_needed.induct)
  case (1 xxh sch kv)
  let ?r = "running sch"
  obtain blocked where b: "admission_block xxh sch kv 0 = Ok blocked"
    using admission_block_total [OF 1(2)] by blast
  show ?case
  proof (cases "kv_can_append_batch kv (select_decode (running_budget sch blocked) ?r)")
    case True
    then have "preempt_if_needed xxh sch kv = (Ok (), sch, kv)"
      using b by (subst preempt_if_needed.simps) (auto simp: running_budget_def Let_def)
    then show ?thesis using 1(3,4) by simp
  next
    case False
    have ok: "running_ok (last ?r)" "running_ok (hd ?r)" using 1(2,4) by (simp_all add: sched_core_def)
    have two: "butlast ?r \<noteq> []"
    proof
      assume "butlast ?r = []"
      then have one: "?r = [hd ?r]" using 1(4) by (cases ?r) (auto split: if_splits)
      have core: "kv_inv kv (mset (waiting sch) + mset ?r)" using 1(2) by (simp add: sched_core_def queue_def ac_simps)
      let ?d = "select_decode (running_budget sch blocked) ?r"
      have d: "?d = [] \<or> (?d = [hd ?r] \<and> sequence_phase (hd ?r) = Decode)"
        by (subst (1 3) one, subst (2) one) (auto simp: Let_def)
      have "card (occupied (mset ?r)) \<le> length (block_table (hd ?r))"
        by (subst one) (simp add: occupied_def card_length)
      then have free: "kv_capacity kv \<le> kv_num_free_blocks kv + length (block_table (hd ?r))"
        using free_beside_running [OF 1(2)] by simp
      have "kv_can_append_batch kv ?d"
      proof (cases "?d = []")
        case True
        then show ?thesis using kv.can_append_iff [of kv "mset (queue sch)" "[]"] 1(2)
          by (simp add: sched_core_def missing_blocks_def)
      next
        case f: False
        then have eq: "?d = [hd ?r]" "sequence_phase (hd ?r) = Decode" using d by simp_all
        then have gap: "append_gap_ok (hd ?r)" using running_okD(4) [OF ok(2)] by simp
        have "kv_inv kv (mset (waiting sch) + mset [hd ?r])" using core by (subst (asm) one)
        from kv.can_append_iff [OF this] gap free 1(5) show ?thesis unfolding eq(1) by (simp add: missing_blocks_def)
      qed
      then show False using False by simp
    qed
    from release_last_running [OF 1(2,4) same_cache_view_preempted ident_preempted waiting_ok_preempted [OF ok(1)]]
    obtain kv1 where d: "kv_deallocate kv (last ?r) = (Ok (), kv1, clear_blocks (last ?r))"
      and core: "sched_core (sch\<lparr>running := butlast ?r, waiting := preempted (clear_blocks (last ?r)) # waiting sch\<rparr>) kv1"
      and mv: "moved sch kv (sch\<lparr>running := butlast ?r, waiting := preempted (clear_blocks (last ?r)) # waiting sch\<rparr>) kv1"
      by blast
    let ?sch = "sch\<lparr>running := butlast ?r, waiting := preempted (clear_blocks (last ?r)) # waiting sch\<rparr>"
    have step: "preempt_if_needed xxh ?sch kv1 = (Ok (), sch', kv')"
      using b False d 1(3,4) by (subst (asm) preempt_if_needed.simps) (simp add: running_budget_def Let_def)
    have hd: "hd (butlast ?r) = hd ?r" using two by (cases ?r) auto
    have cap: "num_blocks (hd (running ?sch)) \<le> kv_capacity kv1" using 1(5) moved_config(8) [OF mv] hd by simp
    have "running sch' \<noteq> [] \<and> hd (running sch') = hd (running ?sch)"
      by (rule "1.IH" [OF b refl refl _ 1(4) refl refl d [symmetric] refl refl core step _ cap])
         (use False two in \<open>auto simp: running_budget_def\<close>)
    then show ?thesis using hd by simp
  qed
qed

theorem select_work_spec:
  assumes core: "sched_core sch kv"
  shows "\<exists>sel sch' kv'. select_work xxh sch kv = (Ok sel, sch', kv') \<and> selected_state sch kv sel sch' kv'
    \<and> (0 < max_num_batched_tokens sch \<and> 0 < max_num_seqs sch \<and> queue sch \<noteq> []
        \<and> (\<forall>s \<in> set (queue sch). num_blocks s \<le> kv_capacity kv) \<longrightarrow> 0 < scheduled_tokens sch')
    \<and> (running sch \<noteq> [] \<and> 1 < max_num_batched_tokens sch \<and> num_blocks (hd (running sch)) \<le> kv_capacity kv
        \<longrightarrow> front_kept (running sch) (running sch') \<and> 0 < num_scheduled_tokens (hd (running sch')))"
proof -
  obtain sch1 kv1 blocked where p: "preempt_if_needed xxh sch kv = (Ok (), sch1, kv1)" "sched_core sch1 kv1"
    "moved sch kv sch1 kv1" "admission_block xxh sch1 kv1 0 = Ok blocked"
    "running sch1 = [] \<or> kv_can_append_batch kv1 (select_decode (running_budget sch1 blocked) (running sch1))"
    using preempt_spec [OF core] by blast
  note cfg = moved_config [OF p(3)]
  have trans: "selected_state sch1 kv1 sel sch' kv' \<Longrightarrow> selected_state sch kv sel sch' kv'" for sel sch' kv'
    using moved_trans [OF p(3)] by (auto simp: selected_state_def)
  show ?thesis
  proof (cases "running sch1 = []")
    case False
    then have can: "kv_can_append_batch kv1 (select_decode (running_budget sch1 blocked) (running sch1))"
      using p(5) by simp
    obtain sel sch' kv' where s: "select_with_running xxh sch1 kv1 blocked (running_budget sch1 blocked) = (Ok sel, sch', kv')"
      "selected_state sch1 kv1 sel sch' kv'" "0 < max_num_batched_tokens sch1 \<longrightarrow> 0 < scheduled_tokens sch'"
      "front_kept (running sch1) (running sch')"
      "0 < running_budget sch1 blocked \<longrightarrow> 0 < num_scheduled_tokens (hd (running sch'))"
      using select_with_running_spec [OF p(2) False p(4) can] by (elim exE conjE)
    have call: "select_work xxh sch kv = (Ok sel, sch', kv')"
      using p(1,4) False s(1) by (simp add: select_work_def running_budget_def Let_def)
    have front: "front_kept (running sch) (running sch') \<and> 0 < num_scheduled_tokens (hd (running sch'))"
      if "running sch \<noteq> []" "1 < max_num_batched_tokens sch" "num_blocks (hd (running sch)) \<le> kv_capacity kv"
      using preempt_front [OF core p(1) that(1,3)] s(4,5) that(2) cfg(1) by (simp add: front_kept_def running_budget_def)
    show ?thesis using call trans [OF s(2)] s(3) cfg(1) front by (intro exI conjI impI) auto
  next
    case True
    obtain sel sch' kv' where s: "select_prefill_only xxh sch1 kv1 blocked = (Ok sel, sch', kv')"
      "selected_state sch1 kv1 sel sch' kv'"
      "0 < max_num_batched_tokens sch1 \<and> 0 < max_num_seqs sch1 \<and> waiting sch1 \<noteq> []
        \<and> num_blocks (hd (waiting sch1)) \<le> kv_capacity kv1 \<longrightarrow> 0 < scheduled_tokens sch'"
      using select_prefill_only_spec [OF p(2) True, of xxh blocked] by blast
    have "select_work xxh sch kv = (Ok sel, sch', kv')"
      using p(1,4) True s(1) by (simp add: select_work_def Let_def)
    moreover have "waiting sch1 \<noteq> []" if "queue sch \<noteq> []"
      using that cfg(9) True by (auto simp: queue_def)
    moreover have "num_blocks (hd (waiting sch1)) \<le> kv_capacity kv1"
      if "\<forall>s \<in> set (queue sch). num_blocks s \<le> kv_capacity kv" "waiting sch1 \<noteq> []"
      using moved_num_blocks [OF core p(2,3) that(1)] that(2) cfg(8) by (simp add: queue_def)
    moreover have "\<not> (running sch \<noteq> [] \<and> num_blocks (hd (running sch)) \<le> kv_capacity kv)"
      using preempt_front [OF core p(1)] True by blast
    ultimately show ?thesis using trans [OF s(2)] s(3) cfg(1,2) by (intro exI conjI impI) auto
  qed
qed

end
