(* ===== verification/Plan_Safety.thy ===== *)
theory Plan_Safety
  imports Planning
begin

text \<open>
  What the attention backend relies on in a plan: the slots it writes are in the cache, pairwise
  distinct and in blocks that no other live sequence reads, and the attention metadata passes the
  validation in \<^verbatim>\<open>PreparedAttention::prepare\<close>. The properties of \<^verbatim>\<open>plan_step\<close> follow.
\<close>

section \<open>Slots\<close>

lemma phys_slot_div [simp]: "phys_slot s j div BLOCK_SIZE = block_table s ! (j div BLOCK_SIZE)"
  by (simp add: phys_slot_def)

lemma phys_slot_mod [simp]: "phys_slot s j mod BLOCK_SIZE = j mod BLOCK_SIZE"
  by (simp add: phys_slot_def)

lemma position_block: "j < n * BLOCK_SIZE \<Longrightarrow> j div BLOCK_SIZE < n"
  by (simp add: less_mult_imp_div_less)

lemma phys_slot_inj:
  assumes "distinct (block_table s)" "i < length (block_table s) * BLOCK_SIZE" "j < length (block_table s) * BLOCK_SIZE"
    "phys_slot s i = phys_slot s j"
  shows "i = j"
proof -
  have "block_table s ! (i div BLOCK_SIZE) = block_table s ! (j div BLOCK_SIZE)" "i mod BLOCK_SIZE = j mod BLOCK_SIZE"
    using arg_cong [OF assms(4), of "\<lambda>x. x div BLOCK_SIZE"] arg_cong [OF assms(4), of "\<lambda>x. x mod BLOCK_SIZE"] by simp_all
  moreover from this(1) have "i div BLOCK_SIZE = j div BLOCK_SIZE"
    using assms(1) position_block [OF assms(2)] position_block [OF assms(3)] by (simp add: nth_eq_iff_index_eq)
  ultimately show ?thesis by (metis div_mult_mod_eq)
qed

text \<open>Slots of one sequence for the positions its next step writes.\<close>

definition write_slots :: "sequence \<Rightarrow> nat list" where
  "write_slots s = map (phys_slot s) [num_cached_tokens s..<num_cached_tokens s + num_scheduled_tokens s]"

definition covered :: "sequence \<Rightarrow> bool" where
  "covered s \<longleftrightarrow> num_cached_tokens s + num_scheduled_tokens s \<le> length (block_table s) * BLOCK_SIZE"

lemma write_slots_block:
  assumes "covered s" "x \<in> set (write_slots s)"
  obtains j where "j < length (block_table s)" "num_cached_tokens s div BLOCK_SIZE \<le> j"
    "x div BLOCK_SIZE = block_table s ! j"
proof -
  obtain i where i: "x = phys_slot s i" "num_cached_tokens s \<le> i" "i < length (block_table s) * BLOCK_SIZE"
    using assms by (auto simp: write_slots_def covered_def)
  then have "i div BLOCK_SIZE < length (block_table s)" "num_cached_tokens s div BLOCK_SIZE \<le> i div BLOCK_SIZE"
    by (simp_all add: position_block div_le_mono)
  then show thesis using that [of "i div BLOCK_SIZE"] i(1) by simp
qed

lemma write_slots_own:
  assumes "kv_inv kv (add_mset s S)" "covered s" "x \<in> set (write_slots s)"
  shows "x div BLOCK_SIZE \<in> set (block_table s)" "x < kv_capacity kv * BLOCK_SIZE"
    "u \<in># S \<Longrightarrow> x div BLOCK_SIZE \<notin> set (block_table u)"
proof -
  obtain j where j: "j < length (block_table s)" "num_cached_tokens s div BLOCK_SIZE \<le> j"
    "x div BLOCK_SIZE = block_table s ! j"
    using assms(2,3) by (rule write_slots_block)
  have ci: "cache_inv (pool kv) (add_mset s S)" using assms(1) by (simp add: kv_inv_def)
  show mem: "x div BLOCK_SIZE \<in> set (block_table s)" using j by simp
  have "block_table s \<in># image_mset block_table (add_mset s S)" by simp
  with owns_table(2) [OF cache_inv_owns [OF ci]] mem have "x div BLOCK_SIZE < kv_capacity kv"
    by (auto simp: kv_capacity_def)
  then show "x < kv_capacity kv * BLOCK_SIZE" by (simp add: div_less_iff_less_mult)
  show "x div BLOCK_SIZE \<notin> set (block_table u)" if "u \<in># S"
    using unpublished_exclusive [OF ci j(1,2) that] j(3) by simp
qed

lemma write_slots_distinct:
  assumes "kv_inv kv (add_mset s S)" "covered s"
  shows "distinct (write_slots s)"
proof -
  have "cache_inv (pool kv) (add_mset s S)" using assms(1) by (simp add: kv_inv_def)
  then have "distinct (block_table s)"
    using owns_table(1) [OF cache_inv_owns, of _ "add_mset s S" "block_table s"] by simp
  then show ?thesis using assms(2)
    by (auto simp: write_slots_def covered_def distinct_map inj_on_def intro: phys_slot_inj)
qed

lemma batch_slots_distinct:
  "kv_inv kv (S + mset ss) \<Longrightarrow> \<forall>s \<in> set ss. covered s \<Longrightarrow> distinct (concat (map write_slots ss))"
proof (induction ss arbitrary: S)
  case (Cons s ss)
  have inv: "kv_inv kv (add_mset s (S + mset ss))" using Cons.prems(1) by simp
  have "distinct (concat (map write_slots ss))"
    by (rule Cons.IH [of "add_mset s S"]) (use Cons.prems in simp_all)
  moreover have "set (write_slots s) \<inter> set (write_slots u) = {}" if u: "u \<in> set ss" for u
  proof -
    have "u \<in># add_mset s (S + mset ss)" using u by simp
    then obtain U where U: "add_mset s (S + mset ss) = add_mset u U" by (metis multi_member_split)
    have "x div BLOCK_SIZE \<in> set (block_table u)" if "x \<in> set (write_slots u)" for x
      using write_slots_own(1) [of kv u U] inv U Cons.prems(2) u that by auto
    moreover have "x div BLOCK_SIZE \<notin> set (block_table u)" if "x \<in> set (write_slots s)" for x
      using write_slots_own(3) [OF inv _ that] Cons.prems(2) u by simp
    ultimately show ?thesis by blast
  qed
  ultimately show ?case using write_slots_distinct [OF inv] Cons.prems(2) by auto
qed simp

text \<open>The plan's slot mapping is the batch of write slots.\<close>

lemma planned_slots:
  "concat (map (\<lambda>p. slot_mapping (cache p)) (map planned_entry ss)) = map usize_as_i64 (concat (map write_slots ss))"
  by (induction ss) (simp_all add: planned_entry_def write_slots_def Let_def)

lemma scheduled_sum: "sum_list (map num_scheduled_tokens (scheduled ss)) = sum_list (map num_scheduled_tokens ss)"
  by (induction ss) (simp_all add: scheduled_def)

lemma scheduled_covered:
  assumes "\<forall>s \<in> set run. running_ok s \<and> selected_ok s" "s \<in> set (scheduled run)"
  shows "covered s"
  using assms scheduled_bounds(3) by (auto simp: scheduled_def covered_def)

lemma write_slots_owner_count:
  assumes inv: "kv_inv kv (mset us)" and s: "s \<in> set us" "covered s" and x: "x \<in> set (write_slots s)"
  shows "length (filter (\<lambda>u. x div BLOCK_SIZE \<in> set (block_table u)) us) = 1"
proof -
  obtain U where U: "mset us = add_mset s U" using s(1) by (metis multi_member_split set_mset_mset)
  have "filter_mset (\<lambda>u. x div BLOCK_SIZE \<in> set (block_table u)) U = {#}"
    using write_slots_own(3) [OF inv [unfolded U] s(2) x] by (simp add: filter_mset_cong [of U U _ "\<lambda>_. False"])
  then have "size (filter_mset (\<lambda>u. x div BLOCK_SIZE \<in> set (block_table u)) (mset us)) = 1"
    using write_slots_own(1) [OF inv [unfolded U] s(2) x] by (simp add: U)
  then show ?thesis by (metis mset_filter size_mset)
qed

section \<open>Attention metadata\<close>

lemma unat_u32: "v < 2 ^ 32 \<Longrightarrow> unat (word_of_nat v :: 32 word) = v"
  by (simp add: unsigned_of_nat take_bit_nat_eq_self)

lemma rcollect_u32:
  assumes "rcollect (\<lambda>p. usize_to_u32 (h p)) ps = Ok ws"
  shows "map unat ws = map h ps"
  using assms by (induction ps arbitrary: ws)
    (auto simp: rbind_Ok_iff usize_to_u32_def unat_u32 split: if_splits)

lemma rcollect_length: "rcollect f xs = Inr ys \<Longrightarrow> length ys = length xs"
  by (simp add: rcollect_Ok_iff)

text \<open>The bounds the builders need, for the converted lengths of a plan.\<close>

definition plan_lengths_ok :: "sequence_step_plan list \<Rightarrow> int list \<Rightarrow> bool" where
  "plan_lengths_ok ps slots \<longleftrightarrow>
     (\<forall>p \<in> set ps. seq_token_budget p \<le> kv_length (cache p))
     \<and> sum_list (map (\<lambda>p. kv_length (cache p)) ps) < 2 ^ 32
     \<and> length slots = sum_list (map seq_token_budget ps)"

lemma converted_shape:
  fixes qs ks :: "32 word list"
  assumes ok: "plan_lengths_ok ps slots"
    and u: "map unat qs = map seq_token_budget ps" "map unat ks = map (\<lambda>p. kv_length (cache p)) ps"
  shows "length qs = length ks" "sum_list (map unat qs) < 2 ^ 32" "sum_list (map unat ks) < 2 ^ 32"
      "\<forall>i < length qs. qs ! i \<le> ks ! i" "length slots = sum_list (map unat qs)"
proof -
  have "sum_list (map seq_token_budget ps) \<le> sum_list (map (\<lambda>p. kv_length (cache p)) ps)"
    using ok by (intro sum_list_mono) (simp add: plan_lengths_ok_def)
  then show "sum_list (map unat qs) < 2 ^ 32" "sum_list (map unat ks) < 2 ^ 32" "length slots = sum_list (map unat qs)"
    using ok by (simp_all add: u plan_lengths_ok_def)
  have len: "length qs = length ps" "length ks = length ps" using u by (metis length_map)+
  then show "length qs = length ks" by simp
  have "unat (qs ! i) = seq_token_budget (ps ! i)" "unat (ks ! i) = kv_length (cache (ps ! i))" if "i < length ps" for i
    using arg_cong [OF u(1), of "\<lambda>xs. xs ! i"] arg_cong [OF u(2), of "\<lambda>xs. xs ! i"] that len by simp_all
  then show "\<forall>i < length qs. qs ! i \<le> ks ! i" using ok len by (simp add: word_le_nat_alt plan_lengths_ok_def)
qed

lemma block_tables_length: "block_tables_for_plan ps = Ok ts \<Longrightarrow> length ts = length ps"
  unfolding block_tables_for_plan_def by (rule rcollect_length)

lemma paged_metadata_valid:
  assumes ok: "plan_lengths_ok ps slots" and m: "build_paged_prefill_plan_metadata ps slots = Ok m"
  shows "validate_logical_metadata m = Ok () \<and> length (md_block_table m) = length ps"
proof -
  obtain qs ks ts where c: "rcollect (\<lambda>p. usize_to_u32 (seq_token_budget p)) ps = Ok qs"
    "rcollect (\<lambda>p. usize_to_u32 (kv_length (cache p))) ps = Ok ks" "block_tables_for_plan ps = Ok ts"
    "m = build_continued_prefill_metadata qs ks ts slots"
    using m by (auto simp: build_paged_prefill_plan_metadata_def rbind_Ok_iff)
  have "length ts = length qs" using rcollect_length [OF c(1)] block_tables_length [OF c(3)] by simp
  then show ?thesis
    using built_valid(1) [OF converted_shape [OF ok rcollect_u32 [OF c(1)] rcollect_u32 [OF c(2)]]] c(4)
      block_tables_length [OF c(3)]
    by (simp add: build_continued_prefill_metadata_def)
qed

lemma plan_attention_valid:
  assumes ok: "plan_lengths_ok ps slots" and md: "plan_attention sel ps slots = Ok md" and ne: "ps \<noteq> []"
    and dec: "ws_phase sel = Decode_step \<Longrightarrow> \<forall>p \<in> set ps. seq_token_budget p = 1"
  shows "validate_logical_metadata md = Ok ()
    \<and> (md_block_table md = [] \<longrightarrow> ws_phase sel = Prefill_step \<and> \<not> has_cached_prefill ps)"
proof (cases "ws_phase sel")
  case Prefill_step
  show ?thesis
  proof (cases "is_prefill_continuation sel \<or> has_cached_prefill ps")
    case True
    then show ?thesis using paged_metadata_valid [OF ok, of md] md ne Prefill_step by (auto simp: plan_attention_def)
  next
    case False
    then obtain qs ks where c: "rcollect (\<lambda>p. usize_to_u32 (seq_token_budget p)) ps = Ok qs"
      "rcollect (\<lambda>p. usize_to_u32 (kv_length (cache p))) ps = Ok ks" "md = build_prefill_metadata qs ks slots"
      using md Prefill_step by (auto simp: plan_attention_def rbind_Ok_iff)
    then show ?thesis
      using built_valid(2) [OF converted_shape [OF ok rcollect_u32 [OF c(1)] rcollect_u32 [OF c(2)]]] False Prefill_step
      by simp
  qed
next
  case Decode_step
  then obtain ks ts where c: "rcollect (\<lambda>p. usize_to_u32 (kv_length (cache p))) ps = Ok ks"
    "block_tables_for_plan ps = Ok ts" "md = build_decode_metadata ks ts slots"
    using md by (auto simp: plan_attention_def rbind_Ok_iff)
  have ones: "map unat (replicate (length ps) (1 :: 32 word)) = map seq_token_budget ps"
    using dec [OF Decode_step] by (intro nth_equalityI) simp_all
  note len = block_tables_length [OF c(2)]
  have "validate_logical_metadata md = Ok ()"
    using built_valid(3) [OF converted_shape [OF ok ones rcollect_u32 [OF c(1)]], of ts] c(3) len
    by (simp add: list_all_iff)
  then show ?thesis using c(3) len ne by (auto simp: build_decode_metadata_def)
next
  case Mixed_step
  then show ?thesis using paged_metadata_valid [OF ok, of md] md ne by (auto simp: plan_attention_def)
qed

section \<open>Progress\<close>

lemma plan_attention_total:
  assumes "\<forall>p \<in> set ps. seq_token_budget p < 2 ^ 32 \<and> kv_length (cache p) < 2 ^ 32
      \<and> (\<forall>b \<in> set (plan_block_table (cache p)). b < 2 ^ 31)"
  shows "\<exists>md. plan_attention sel ps slots = Ok md"
proof -
  have q: "rcollect (\<lambda>p. usize_to_u32 (seq_token_budget p)) ps = Inr (map (\<lambda>p. word_of_nat (seq_token_budget p)) ps)"
    and k: "rcollect (\<lambda>p. usize_to_u32 (kv_length (cache p))) ps = Inr (map (\<lambda>p. word_of_nat (kv_length (cache p))) ps)"
    using assms by (intro rcollect_total; simp add: usize_to_u32_def)+
  have t: "block_tables_for_plan ps = Inr (map (\<lambda>p. map int (plan_block_table (cache p))) ps)"
    unfolding block_tables_for_plan_def using assms
    by (intro rcollect_total) (simp add: block_to_i32_def)
  show ?thesis
    by (cases "ws_phase sel")
       (simp_all add: plan_attention_def build_paged_prefill_plan_metadata_def q k t)
qed

lemma kv_inv_table_bound:
  assumes "kv_inv kv S" "s \<in># S" "b \<in> set (block_table s)"
  shows "b < kv_capacity kv"
proof -
  have "owns (pool kv) (image_mset block_table S)" using assms(1) by (simp add: kv_inv_def cache_inv_def)
  from owns_table(2) [OF this, of "block_table s"] assms(2,3) show ?thesis by (auto simp: kv_capacity_def)
qed

text \<open>The machine limits within which every conversion of a plan succeeds.\<close>

definition plan_limits :: "scheduler \<Rightarrow> kv_cache_manager \<Rightarrow> bool" where
  "plan_limits sch kv \<longleftrightarrow> kv_capacity kv \<le> 2 ^ 31
     \<and> (\<forall>s \<in> set (queue sch). length (token_ids s) < 2 ^ 32 \<and> num_blocks s \<le> kv_capacity kv)"

lemma plan_step_progress:
  assumes inv: "sched_inv sch kv" and idle: "in_flight sch = None" and lim: "plan_limits sch kv"
    and cfg: "0 < max_num_batched_tokens sch" "0 < max_num_seqs sch" and work: "queue sch \<noteq> []"
  shows "\<exists>plan sch' kv'. plan_step xxh sch kv = (Ok (Some plan), sch', kv')"
proof -
  from inv idle obtain sel sch1 kv1 where st: "selected_state sch kv sel sch1 kv1"
    and pos: "0 < max_num_batched_tokens sch \<and> 0 < max_num_seqs sch \<and> queue sch \<noteq> []
        \<and> (\<forall>s \<in> set (queue sch). num_blocks s \<le> kv_capacity kv) \<longrightarrow> 0 < scheduled_tokens sch1"
    and eq: "plan_step xxh sch kv = (case finish_plan sel sch1 kv1 (map planned_entry (scheduled (running sch1)))
       of (r, sch2) \<Rightarrow> (r, sch2, kv1))"
    by (rule plan_step_result)
  have mv: "moved sch kv sch1 kv1" and core: "sched_core sch1 kv1" using st by (simp_all add: selected_state_def)
  have "0 < scheduled_tokens sch1" using pos cfg work lim by (simp add: plan_limits_def)
  then have "\<not> (\<forall>s \<in> set (running sch1). num_scheduled_tokens s = 0)"
    unfolding scheduled_tokens_def by (metis (no_types, lifting) imageE less_irrefl list.set_map sum_list_eq_0_iff)
  then have ne: "scheduled (running sch1) \<noteq> []" by (auto simp: scheduled_def filter_empty_conv)
  have each: "seq_token_budget (planned_entry s) < 2 ^ 32 \<and> kv_length (cache (planned_entry s)) < 2 ^ 32
      \<and> (\<forall>b \<in> set (plan_block_table (cache (planned_entry s))). b < 2 ^ 31)" if s: "s \<in> set (scheduled (running sch1))" for s
  proof -
    have s1: "s \<in> set (running sch1)" "s \<in> set (queue sch1)" "0 < num_scheduled_tokens s"
      using s by (auto simp: scheduled_def queue_def)
    have ok: "running_ok s" "selected_ok s" using st s1 by (auto simp: selected_state_def sched_core_def)
    have "token_ids s \<in> set (map token_ids (queue sch))"
      using s1(2) map_ident_proj(3) [OF moved_config(9) [OF mv]] by (metis image_eqI list.set_map)
    then have "length (token_ids s) < 2 ^ 32" using lim by (auto simp: plan_limits_def)
    then have "num_tokens s < 2 ^ 32" using seq_baseD(1) [OF running_okD(1) [OF ok(1)]] by (simp add: wf_seq_def)
    moreover note scheduled_bounds(1) [OF ok s1(3)]
    moreover have "b < 2 ^ 31" if "b \<in> set (block_table s)" for b
      using kv_inv_table_bound [of kv1 "mset (queue sch1)" s b] core s1(2) that lim moved_config(8) [OF mv]
      by (simp add: sched_core_def plan_limits_def)
    ultimately show ?thesis by (simp add: planned_entry_def Let_def)
  qed
  obtain md where "plan_attention sel (map planned_entry (scheduled (running sch1)))
      (concat (map (\<lambda>p. slot_mapping (cache p)) (map planned_entry (scheduled (running sch1))))) = Ok md"
    using plan_attention_total [of "map planned_entry (scheduled (running sch1))"] each by (metis (no_types, lifting) image_iff list.set_map)
  then show ?thesis using ne unfolding eq by (simp add: finish_plan_def Let_def)
qed

lemma demo_plan:
  obtains plan sch' kv' where "plan_step xxh demo_sched demo_kv = (Ok (Some plan), sch', kv')"
proof -
  have "plan_limits demo_sched demo_kv"
    by (simp add: plan_limits_def demo_sched_simps seq_new_def num_blocks_def div_ceil_def BLOCK_SIZE_def)
  from plan_step_progress [OF demo_sched_inv demo_sched_simps(1) this] show thesis
    using that by (auto simp: demo_sched_simps)
qed

section \<open>Properties\<close>

text \<open>C3: planning is safe. From any state that satisfies the scheduler invariant, \<^verbatim>\<open>plan_step\<close>
  returns without a panic, re-establishes the invariant over scheduler and block pool, keeps every
  request with its identity, tokens and parameters in the same order of \<open>running @ waiting\<close> (so
  admission and preemption are FIFO), and never reports a cache failure: its only errors are that a
  plan is already in flight, that no work can be selected, or that a length does not fit its
  machine type.\<close>

theorem plan_step_safe:
  assumes "sched_inv sch kv" "plan_step xxh sch kv = (r, sch', kv')"
  shows "sched_inv sch' kv' \<and> map ident (queue sch') = map ident (queue sch) \<and> r \<noteq> Panicked
    \<and> kv_capacity kv' = kv_capacity kv
    \<and> (\<forall>e. r = Error e \<longrightarrow> plan_refusal e \<or> (\<exists>plan. in_flight sch = Some plan \<and> e = PlanAlreadyInFlight (plan_id plan)))"
  by (rule plan_step_inv [OF assms])

theorem plan_step_safe_witness:
  "\<exists>r sch' kv'. plan_step (\<lambda>_. 0) demo_sched demo_kv = (r, sch', kv') \<and> sched_inv sch' kv'"
proof -
  obtain r sch' kv' where p: "plan_step (\<lambda>_. 0) demo_sched demo_kv = (r, sch', kv')" by (metis prod.exhaust)
  from plan_step_safe [OF demo_sched_inv p] p show ?thesis by blast
qed



text \<open>C5: writes are isolated. The slots of a plan are one per scheduled token, pairwise distinct
  across the whole batch and inside the physical cache, and the block of every slot is in the block
  table of exactly one live sequence, so a step never overwrites KV entries that another request
  reads (a shared prefix block in particular).\<close>

theorem plan_slots_isolated:
  assumes "sched_inv sch kv" "plan_step xxh sch kv = (Ok (Some plan), sch', kv')"
    and "kv_capacity kv * BLOCK_SIZE \<le> 2 ^ 63"
  shows "let slots = concat (map (\<lambda>p. slot_mapping (cache p)) (plan_sequences plan)) in
    length slots = token_budget plan \<and> distinct slots
    \<and> (\<forall>x \<in> set slots. 0 \<le> x \<and> x < int (kv_capacity kv * BLOCK_SIZE)
        \<and> length (filter (\<lambda>u. nat x div BLOCK_SIZE \<in> set (block_table u)) (queue sch')) = 1)"
proof -
  note p = plan_step_plan [OF assms(1,2)]
  have inv': "sched_inv sch' kv'" and cap: "kv_capacity kv' = kv_capacity kv"
    using plan_step_inv [OF assms(1,2)] by simp_all
  let ?ss = "scheduled (running sch')" and ?us = "concat (map write_slots (scheduled (running sch')))"
  have kvi: "kv_inv kv' (mset (queue sch'))" using inv' by (simp add: sched_inv_def sched_core_def)
  have cov: "\<forall>s \<in> set ?ss. covered s" using scheduled_covered p(8) by blast
  have slots: "concat (map (\<lambda>p. slot_mapping (cache p)) (plan_sequences plan)) = map usize_as_i64 ?us"
    unfolding p(4) by (rule planned_slots)
  have part: "mset (queue sch') = mset (filter (\<lambda>s. \<not> 0 < num_scheduled_tokens s) (running sch'))
      + mset (waiting sch') + mset ?ss"
    using multiset_partition [of "mset (running sch')" "\<lambda>s. 0 < num_scheduled_tokens s"]
    by (simp add: queue_def scheduled_def ac_simps)
  have dist: "distinct ?us" by (rule batch_slots_distinct [OF kvi [unfolded part] cov])
  have own: "x < kv_capacity kv * BLOCK_SIZE
      \<and> length (filter (\<lambda>u. x div BLOCK_SIZE \<in> set (block_table u)) (queue sch')) = 1" if x: "x \<in> set ?us" for x
  proof -
    obtain s where s: "s \<in> set ?ss" "x \<in> set (write_slots s)" using x by auto
    then have q: "s \<in> set (queue sch')" by (auto simp: scheduled_def queue_def)
    then obtain U where U: "mset (queue sch') = add_mset s U" by (metis multi_member_split set_mset_mset)
    show ?thesis using write_slots_own(2) [OF kvi [unfolded U] _ s(2)] cov s(1) cap
        write_slots_owner_count [OF kvi q _ s(2)] by simp
  qed
  have small: "usize_as_i64 x = int x" if x: "x \<in> set ?us" for x
  proof (rule usize_as_i64_small)
    show "x < 2 ^ 63" using own [OF x] assms(3) by (meson less_le_trans)
  qed
  then have eq: "map usize_as_i64 ?us = map int ?us" by simp
  have "length (write_slots s) = num_scheduled_tokens s" for s by (simp add: write_slots_def)
  then have "length ?us = sum_list (map num_scheduled_tokens ?ss)" by (simp add: length_concat o_def)
  also have "\<dots> = scheduled_tokens sch'" by (simp add: scheduled_tokens_def scheduled_sum)
  finally have len: "length ?us = token_budget plan" using p(6) by simp
  show ?thesis unfolding slots eq Let_def
    using len dist own by (auto simp: distinct_map simp del: of_nat_mult)
qed

theorem plan_slots_isolated_witness:
  "\<exists>plan sch' kv'. plan_step (\<lambda>_. 0) demo_sched demo_kv = (Ok (Some plan), sch', kv')
     \<and> distinct (concat (map (\<lambda>p. slot_mapping (cache p)) (plan_sequences plan)))"
proof -
  obtain plan sch' kv' where p: "plan_step (\<lambda>_. 0) demo_sched demo_kv = (Ok (Some plan), sch', kv')" by (rule demo_plan)
  have "kv_capacity demo_kv * BLOCK_SIZE \<le> 2 ^ 63" by (simp add: demo_sched_simps BLOCK_SIZE_def)
  from plan_slots_isolated [OF demo_sched_inv p this] p show ?thesis by (auto simp: Let_def)
qed

text \<open>C15: the attention metadata of a plan is valid. If the KV lengths of the planned sequences add
  up to less than \<open>2 ^ 32\<close>, the metadata passes \<^verbatim>\<open>validate_logical_metadata\<close>, and it has no block
  table only when no planned sequence has cached tokens, so that the unpaged path never misses
  keys.\<close>

theorem plan_metadata_valid:
  assumes "sched_inv sch kv" "plan_step xxh sch kv = (Ok (Some plan), sch', kv')"
    and "sum_list (map (\<lambda>p. kv_length (cache p)) (plan_sequences plan)) < 2 ^ 32"
  shows "validate_logical_metadata (attention plan) = Ok ()
    \<and> (\<not> uses_paged_kv (attention plan)
        \<longrightarrow> (\<forall>p \<in> set (plan_sequences plan). kv_length (cache p) = seq_token_budget p))"
proof -
  note p = plan_step_plan [OF assms(1,2)]
  let ?slots = "concat (map (\<lambda>p. slot_mapping (cache p)) (plan_sequences plan))"
  obtain sel where sel: "plan_attention sel (plan_sequences plan) ?slots = Ok (attention plan)"
    "phase_ok sel (running sch')" using p(9) by blast
  have ok: "running_ok s" "selected_ok s" "0 < num_scheduled_tokens s" if "s \<in> set (scheduled (running sch'))" for s
    using that p(8) by (auto simp: scheduled_def)
  have "length ?slots = sum_list (map seq_token_budget (plan_sequences plan))"
    unfolding p(4) by (simp add: length_concat o_def planned_entry_def Let_def)
  moreover have "\<forall>q \<in> set (plan_sequences plan). seq_token_budget q \<le> kv_length (cache q)"
    unfolding p(4) by (auto simp: planned_entry_def Let_def)
  ultimately have lens: "plan_lengths_ok (plan_sequences plan) ?slots"
    using assms(3) by (simp add: plan_lengths_ok_def)
  have phases: "ws_phase sel = Decode_step \<Longrightarrow> sequence_phase s = Decode"
    "ws_phase sel = Prefill_step \<Longrightarrow> sequence_phase s = Prefill" if "s \<in> set (scheduled (running sch'))" for s
    using sel(2) that by (auto simp: phase_ok_def scheduled_def)
  have dec: "\<forall>q \<in> set (plan_sequences plan). seq_token_budget q = 1" if d: "ws_phase sel = Decode_step"
    unfolding p(4) using scheduled_bounds(4) [OF ok] phases(1) d by (auto simp: planned_entry_def Let_def)
  note v = plan_attention_valid [OF lens sel(1) p(5) dec]
  have "\<forall>q \<in> set (plan_sequences plan). kv_length (cache q) = seq_token_budget q"
    if u: "ws_phase sel = Prefill_step \<and> \<not> has_cached_prefill (plan_sequences plan)"
  proof -
    have "num_cached_tokens s = 0" if s: "s \<in> set (scheduled (running sch'))" for s
      using u s phases(2) [OF s] unfolding p(4)
      by (force simp: has_cached_prefill_def list_ex_iff planned_entry_def Let_def)
    then show ?thesis unfolding p(4) by (auto simp: planned_entry_def Let_def)
  qed
  then show ?thesis using v by (auto simp: uses_paged_kv_def)
qed

lemma plan_kv_total:
  assumes "sched_inv sch kv" "plan_step xxh sch kv = (Ok (Some plan), sch', kv')"
  shows "sum_list (map (\<lambda>p. kv_length (cache p)) (plan_sequences plan))
    \<le> sum_list (map (\<lambda>s. length (token_ids s)) (queue sch))"
proof -
  note p = plan_step_plan [OF assms]
  have bound: "kv_length (cache (planned_entry s)) \<le> length (token_ids s)" if "s \<in> set (scheduled (running sch'))" for s
  proof -
    have ok: "running_ok s" "selected_ok s" "0 < num_scheduled_tokens s" using p(8) that by (auto simp: scheduled_def)
    have "length (token_ids s) = num_tokens s"
      using seq_baseD(1) [OF running_okD(1) [OF ok(1)]] by (simp add: wf_seq_def)
    then show ?thesis using scheduled_bounds(1) [OF ok] by (simp add: planned_entry_def Let_def)
  qed
  have "sum_list (map (\<lambda>p. kv_length (cache p)) (plan_sequences plan))
      \<le> sum_list (map (\<lambda>s. length (token_ids s)) (scheduled (running sch')))"
    unfolding p(4) map_map o_def by (rule sum_list_mono) (rule bound)
  also have "\<dots> \<le> sum_list (map (\<lambda>s. length (token_ids s)) (queue sch'))"
    unfolding scheduled_def queue_def map_append sum_list_append
    by (meson le_add1 le_trans sum_list_filter_le_nat)
  also have "map (\<lambda>s. length (token_ids s)) (queue sch') = map length (map token_ids (queue sch'))" by simp
  also have "map token_ids (queue sch') = map token_ids (queue sch)"
    using plan_step_inv [OF assms] by (intro map_ident_proj(3)) blast
  finally show ?thesis by (simp add: o_def)
qed

theorem plan_metadata_valid_witness:
  "\<exists>plan sch' kv'. plan_step (\<lambda>_. 0) demo_sched demo_kv = (Ok (Some plan), sch', kv')
     \<and> validate_logical_metadata (attention plan) = Ok ()"
proof -
  obtain plan sch' kv' where p: "plan_step (\<lambda>_. 0) demo_sched demo_kv = (Ok (Some plan), sch', kv')" by (rule demo_plan)
  have "sum_list (map (\<lambda>p. kv_length (cache p)) (plan_sequences plan)) < 2 ^ 32"
    using plan_kv_total [OF demo_sched_inv p] by (simp add: demo_sched_simps seq_new_def)
  from plan_metadata_valid [OF demo_sched_inv p this] p show ?thesis by blast
qed



end
