(* ===== verification/Applying.thy ===== *)
theory Applying
  imports Plan_Safety
begin

text \<open>
  \<^verbatim>\<open>apply_step_result\<close> and \<^verbatim>\<open>abort_all_requests\<close>. Under the scheduler invariant the apply loop is a
  map over the running queue (\<open>applied\<close>), and the invariant is restored once finished sequences are
  retired and recovered ones have their recompute target cleared.
\<close>

section \<open>One planned sequence\<close>

definition apply_one :: "token list \<Rightarrow> sequence \<Rightarrow> sequence_step_result \<Rightarrow> sequence" where
  "apply_one eos s x = snd (sample_token eos (advance_cached (planned_entry s) s) (sampled_token x))"

definition finishes :: "token list \<Rightarrow> sequence \<Rightarrow> sequence_step_result \<Rightarrow> bool" where
  "finishes eos s x \<longleftrightarrow> status (apply_one eos s x) = Finished"

definition final_output :: "token list \<Rightarrow> sequence \<Rightarrow> sequence_step_result \<Rightarrow> request_output" where
  "final_output eos s x = \<lparr>out_request_id = request_id s,
     out_token_ids = drop (num_prompt_tokens s) (token_ids (apply_one eos s x)), out_text = [], out_finished = True\<rparr>"

definition recovers :: "sequence \<Rightarrow> bool" where
  "recovers s \<longleftrightarrow> is_recovered (planned_entry s) (advance_cached (planned_entry s) s)"

text \<open>A sequence whose scheduled work lies within its tokens and its block table.\<close>

definition applicable :: "sequence \<Rightarrow> bool" where
  "applicable s \<longleftrightarrow> num_cached_tokens s + num_scheduled_tokens s \<le> num_tokens s \<and> covered s
     \<and> length (token_ids s) = num_tokens s \<and> num_prompt_tokens s \<le> num_tokens s \<and> status s = Running"

lemma advance_planned:
  "applicable s \<Longrightarrow> advance_cached (planned_entry s) s
     = s\<lparr>num_cached_tokens := num_cached_tokens s + num_scheduled_tokens s, num_scheduled_tokens := 0\<rparr>"
  by (simp add: advance_cached_def planned_entry_def applicable_def Let_def)

lemma apply_one_ids [simp]: "seq_id (apply_one eos s x) = seq_id s" "request_id (apply_one eos s x) = request_id s"
  "num_prompt_tokens (apply_one eos s x) = num_prompt_tokens s" "params (apply_one eos s x) = params s"
  by (simp_all add: apply_one_def sample_token_def advance_cached_def append_token_def Let_def split: option.splits)

lemma sample_token_ok:
  assumes "applicable s"
  shows "sample_token eos (advance_cached (planned_entry s) s) (sampled_token x)
    = (Ok (if finishes eos s x then Some (seq_id s, final_output eos s x) else None), apply_one eos s x)"
proof -
  let ?s = "advance_cached (planned_entry s) s"
  show ?thesis
  proof (cases "sampled_token x")
    case None
    then show ?thesis using assms
      by (simp add: sample_token_def apply_one_def finishes_def advance_cached_def applicable_def)
  next
    case (Some t)
    then show ?thesis using assms
      by (simp add: sample_token_def apply_one_def finishes_def final_output_def advance_cached_def applicable_def
          append_token_def completion_token_ids_def slice_range_def Let_def)
  qed
qed

lemma status_same: "status s = st \<Longrightarrow> s\<lparr>status := st\<rparr> = s"
  by (cases s) simp

lemma apply_one_None:
  assumes "applicable s" "sampled_token x = None"
  shows "apply_one eos s x
      = s\<lparr>num_cached_tokens := num_cached_tokens s + num_scheduled_tokens s, num_scheduled_tokens := 0\<rparr>"
  using assms by (simp add: apply_one_def sample_token_def advance_planned)

lemma apply_one_Some:
  assumes "applicable s" "sampled_token x = Some t"
  shows "apply_one eos s x
      = (append_token (s\<lparr>num_cached_tokens := num_cached_tokens s + num_scheduled_tokens s,
           num_scheduled_tokens := 0\<rparr>) t)\<lparr>status := if hits_stop eos (append_token s t) t then Finished else Running\<rparr>"
proof -
  let ?s = "append_token (s\<lparr>num_cached_tokens := num_cached_tokens s + num_scheduled_tokens s, num_scheduled_tokens := 0\<rparr>) t"
  have "hits_stop eos ?s t = hits_stop eos (append_token s t) t"
    by (simp add: hits_stop_def num_completion_tokens_def append_token_def)
  moreover have "status ?s = Running" using assms(1) by (simp add: append_token_def applicable_def)
  ultimately show ?thesis using assms
    by (simp add: apply_one_def sample_token_def advance_planned Let_def status_same)
qed

lemma finishes_iff:
  assumes "applicable s"
  shows "finishes eos s x \<longleftrightarrow> (\<exists>t. sampled_token x = Some t \<and> hits_stop eos (append_token s t) t)"
proof (cases "sampled_token x")
  case None
  then show ?thesis using assms apply_one_None [OF assms] by (simp add: finishes_def applicable_def)
next
  case (Some t)
  then show ?thesis using apply_one_Some [OF assms Some] by (simp add: finishes_def)
qed

lemma kv_inv_apply_one:
  assumes inv: "kv_inv kv (add_mset s S)" and app: "applicable s"
  shows "\<exists>kv'. kv_hash_blocks xxh kv s = (Ok (), kv') \<and> kv_capacity kv' = kv_capacity kv
    \<and> kv_inv kv' (add_mset (apply_one eos s x) S)"
proof -
  obtain kv' where kv': "kv_hash_blocks xxh kv s = (Ok (), kv')" "kv_capacity kv' = kv_capacity kv"
    "kv_inv kv' (add_mset (s\<lparr>num_cached_tokens := num_cached_tokens s + num_scheduled_tokens s\<rparr>) S)"
    using kv.publish_ok [OF inv, of xxh] app by (auto simp: applicable_def covered_def)
  let ?s1 = "s\<lparr>num_cached_tokens := num_cached_tokens s + num_scheduled_tokens s, num_scheduled_tokens := 0\<rparr>"
  have s1: "kv_inv kv' (add_mset ?s1 S)"
    by (rule kv.inv_view [OF kv'(3)]) (simp add: same_cache_view_def)
  have "kv_inv kv' (add_mset (apply_one eos s x) S)"
  proof (cases "sampled_token x")
    case None
    then show ?thesis using s1 apply_one_None [OF app] by simp
  next
    case (Some t)
    have "kv_inv kv' (add_mset (append_token ?s1 t) S)" by (rule kv.inv_append_token [OF s1])
    then show ?thesis unfolding apply_one_Some [OF app Some] by (rule kv.inv_view) (simp add: same_cache_view_def)
  qed
  with kv' show ?thesis by blast
qed

section \<open>The apply loop\<close>

definition applied :: "token list \<Rightarrow> (sequence \<times> sequence_step_result) list \<Rightarrow> sequence \<Rightarrow> sequence" where
  "applied eos pairs s = (case map_of (map (\<lambda>(s, x). (seq_id s, x)) pairs) (seq_id s) of
     None \<Rightarrow> s | Some x \<Rightarrow> apply_one eos s x)"

lemma applied_ids [simp]: "seq_id (applied eos ps s) = seq_id s" "request_id (applied eos ps s) = request_id s"
  by (simp_all add: applied_def split: option.splits)

lemma find_planned:
  assumes "distinct (map seq_id run)" "s \<in> set run"
  shows "find (is_planned (planned_entry s)) run = Some s"
  using assms by (induction run) (auto simp: is_planned_def planned_entry_def Let_def)

lemma same_seq_id:
  "distinct (map seq_id run) \<Longrightarrow> u \<in> set run \<Longrightarrow> s \<in> set run \<Longrightarrow> seq_id u = seq_id s \<Longrightarrow> u = s"
  by (auto simp: distinct_map inj_on_def)

lemma replace_absent:
  "seq_id s \<notin> set (map seq_id run) \<Longrightarrow> map (\<lambda>v. if seq_id v = seq_id s then y else v) run = run"
  by (induction run) auto

lemma replace_planned:
  assumes "distinct (map seq_id run)" "s \<in> set run"
  shows "replace_first (is_planned (planned_entry s)) y run = map (\<lambda>u. if seq_id u = seq_id s then y else u) run"
  using assms
proof (induction run)
  case (Cons u run)
  show ?case
  proof (cases "u = s")
    case True
    then have "map (\<lambda>v. if seq_id v = seq_id s then y else v) run = run"
      using Cons.prems(1) by (intro replace_absent) simp
    then show ?thesis using True by (simp add: is_planned_def planned_entry_def Let_def)
  next
    case False
    then have "seq_id u \<noteq> seq_id s" "s \<in> set run" using Cons.prems by auto
    then show ?thesis using Cons by (simp add: is_planned_def planned_entry_def Let_def)
  qed
qed simp

lemma mset_replace:
  assumes "distinct (map seq_id run)" "s \<in> set run"
  shows "mset (map (\<lambda>u. if seq_id u = seq_id s then y else u) run) = add_mset y (mset run - {#s#})"
  using assms
proof (induction run)
  case (Cons u run)
  show ?case
  proof (cases "u = s")
    case True
    then have "map (\<lambda>v. if seq_id v = seq_id s then y else v) run = run"
      using Cons.prems(1) by (intro replace_absent) simp
    then show ?thesis using True by simp
  next
    case False
    then have "seq_id u \<noteq> seq_id s" "s \<in> set run" using Cons.prems by auto
    then show ?thesis using Cons False by (simp add: add_mset_commute)
  qed
qed simp

definition finished_entries :: "token list \<Rightarrow> (sequence \<times> sequence_step_result) list \<Rightarrow> (nat \<times> request_output) list" where
  "finished_entries eos pairs
     = map (\<lambda>(s, x). (seq_id s, final_output eos s x)) (filter (\<lambda>(s, x). finishes eos s x) pairs)"

definition recovered_ids :: "(sequence \<times> sequence_step_result) list \<Rightarrow> nat list" where
  "recovered_ids pairs = map (\<lambda>(s, x). seq_id s) (filter (\<lambda>(s, x). recovers s) pairs)"

lemma apply_loop_spec:
  assumes "kv_inv kv (S + mset run)" "distinct (map seq_id run)" "distinct (map (seq_id \<circ> fst) pairs)"
    "\<forall>(s, x) \<in> set pairs. s \<in> set run \<and> applicable s"
  shows "\<exists>kv'. apply_loop xxh eos (map (\<lambda>(s, x). (planned_entry s, x)) pairs) run kv
      = (Ok (finished_entries eos pairs, recovered_ids pairs), map (applied eos pairs) run, kv')
    \<and> kv_inv kv' (S + mset (map (applied eos pairs) run)) \<and> kv_capacity kv' = kv_capacity kv"
  using assms
proof (induction pairs arbitrary: run kv)
  case Nil
  have "applied eos [] = id" by (simp add: applied_def fun_eq_iff)
  with Nil show ?case by (simp add: finished_entries_def recovered_ids_def)
next
  case (Cons sx pairs)
  obtain s x where sx: "sx = (s, x)" by force
  have s: "s \<in> set run" "applicable s" using Cons.prems(4) sx by auto
  let ?y = "apply_one eos s x"
  let ?run = "map (\<lambda>u. if seq_id u = seq_id s then ?y else u) run"
  have "add_mset s (mset run - {#s#}) = mset run" using s(1) by simp
  then have "kv_inv kv (add_mset s (S + (mset run - {#s#})))"
    using Cons.prems(1) by (metis union_mset_add_mset_right)
  from kv_inv_apply_one [OF this s(2)] obtain kv1 where kv1: "kv_hash_blocks xxh kv s = (Ok (), kv1)"
    "kv_capacity kv1 = kv_capacity kv" "kv_inv kv1 (add_mset ?y (S + (mset run - {#s#})))" by blast
  have inv1: "kv_inv kv1 (S + mset ?run)" using kv1(3) unfolding mset_replace [OF Cons.prems(2) s(1)] by simp
  have ids1: "map seq_id ?run = map seq_id run" by (intro nth_equalityI) simp_all
  have rest: "\<forall>(u, z) \<in> set pairs. u \<in> set ?run \<and> applicable u"
  proof clarify
    fix u z assume uz: "(u, z) \<in> set pairs"
    then have "seq_id u \<noteq> seq_id s" using Cons.prems(3) sx by (force simp: image_iff)
    moreover have "u \<in> set run" "applicable u" using Cons.prems(4) uz by auto
    ultimately show "u \<in> set ?run \<and> applicable u" by force
  qed
  have d1: "distinct (map seq_id ?run)" unfolding ids1 by (rule Cons.prems(2))
  have d2: "distinct (map (seq_id \<circ> fst) pairs)" using Cons.prems(3) by (simp add: o_def)
  from Cons.IH [OF inv1 d1 d2 rest] obtain kv' where ih:
    "apply_loop xxh eos (map (\<lambda>(s, x). (planned_entry s, x)) pairs) ?run kv1
      = (Ok (finished_entries eos pairs, recovered_ids pairs), map (applied eos pairs) ?run, kv')"
    "kv_inv kv' (S + mset (map (applied eos pairs) ?run))" "kv_capacity kv' = kv_capacity kv1" by blast
  have "map_of (map (\<lambda>(s, x). (seq_id s, x)) pairs) (seq_id s) = None"
    using Cons.prems(3) sx by (force simp: map_of_eq_None_iff image_iff)
  then have "applied eos pairs (if seq_id u = seq_id s then ?y else u) = applied eos (sx # pairs) u"
    if "u \<in> set run" for u
    using same_seq_id [OF Cons.prems(2) that s(1)] by (cases "seq_id u = seq_id s") (simp_all add: applied_def sx)
  then have run': "map (applied eos pairs) ?run = map (applied eos (sx # pairs)) run" by simp
  note ih' = ih [unfolded run']
  have "apply_loop xxh eos (map (\<lambda>(s, x). (planned_entry s, x)) (sx # pairs)) run kv
      = (Ok (finished_entries eos (sx # pairs), recovered_ids (sx # pairs)), map (applied eos (sx # pairs)) run, kv')"
    using ih'(1) kv1(1)
    by (simp add: sx find_planned [OF Cons.prems(2) s(1)] replace_planned [OF Cons.prems(2) s(1)]
        sample_token_ok [OF s(2)] Let_def finished_entries_def recovered_ids_def recovers_def)
       (simp add: advance_cached_def)
  then show ?case using ih'(2,3) kv1(2) by auto
qed

section \<open>Restoring the invariant\<close>

lemma scheduled_applicable:
  assumes "running_ok s" "selected_ok s" "0 < num_scheduled_tokens s"
  shows "applicable s"
proof -
  have "wf_seq s" "status s = Running" using running_okD [OF assms(1)] seq_baseD(1) by auto
  then show ?thesis using scheduled_bounds(1,3) [OF assms] by (simp add: applicable_def covered_def wf_seq_def)
qed

definition settle :: "bool \<Rightarrow> sequence \<Rightarrow> sequence" where
  "settle rec s = (if rec then s\<lparr>recompute_target_tokens := None\<rparr> else s)"

lemma num_blocks_append: "num_blocks (append_token s t) \<le> num_blocks s + 1" "num_blocks s \<le> num_blocks (append_token s t)"
  by (simp_all add: num_blocks_def append_token_def div_ceil_Suc)

lemma running_ok_unsampled:
  assumes ok: "running_ok s" "selected_ok s" "0 < num_scheduled_tokens s"
    and more: "num_cached_tokens s + num_scheduled_tokens s \<noteq> num_tokens s"
  shows "running_ok (s\<lparr>num_cached_tokens := num_cached_tokens s + num_scheduled_tokens s, num_scheduled_tokens := 0\<rparr>)"
proof -
  note b = scheduled_bounds [OF ok]
  have lt: "num_cached_tokens s + num_scheduled_tokens s < num_tokens s" using b(1) more by simp
  have pre: "sequence_phase s = Prefill" using b(4) more by (cases "sequence_phase s") auto
  then have tgt: "prefill_target_tokens s = num_tokens s" by (rule b(5))
  have "seq_base (s\<lparr>num_cached_tokens := num_cached_tokens s + num_scheduled_tokens s\<rparr>)"
    using running_okD(1) [OF ok(1)] b(1) by simp
  then show ?thesis using lt tgt running_okD(2) [OF ok(1)] b(2)
    by (simp add: running_ok_def sequence_phase_def)
qed

lemma recovers_iff:
  assumes ok: "running_ok s" "selected_ok s" "0 < num_scheduled_tokens s"
    and all: "num_cached_tokens s + num_scheduled_tokens s = num_tokens s"
  shows "recovers s \<longleftrightarrow> recompute_target_tokens s \<noteq> None"
proof -
  have "recompute_target_tokens s = None \<or> recompute_target_tokens s = Some (num_tokens s)"
    using running_okD(1) [OF ok(1)] by (simp add: seq_base_def)
  moreover have "sequence_phase s = Prefill" if "recompute_target_tokens s \<noteq> None"
    using that running_okD(4) [OF ok(1)] by (cases "sequence_phase s") auto
  ultimately show ?thesis
    using all by (auto simp: recovers_def is_recovered_def advance_planned [OF scheduled_applicable [OF ok]])
qed

lemma running_ok_sampled:
  assumes ok: "running_ok s" "selected_ok s" "0 < num_scheduled_tokens s"
    and all: "num_cached_tokens s + num_scheduled_tokens s = num_tokens s"
    and go: "\<not> hits_stop eos (append_token s t) t"
  shows "running_ok (settle (recovers s) ((append_token (s\<lparr>num_cached_tokens := num_cached_tokens s + num_scheduled_tokens s,
           num_scheduled_tokens := 0\<rparr>) t)\<lparr>status := Running\<rparr>))"
proof -
  define s' where "s' = settle (recovers s) ((append_token (s\<lparr>num_cached_tokens := num_cached_tokens s + num_scheduled_tokens s,
           num_scheduled_tokens := 0\<rparr>) t)\<lparr>status := Running\<rparr>)"
  have base: "seq_base s" using ok(1) by (rule running_okD)
  have f: "recompute_target_tokens s' = None" "num_tokens s' = num_tokens s + 1" "num_cached_tokens s' = num_tokens s"
    "num_prompt_tokens s' = num_prompt_tokens s" "status s' = Running" "token_ids s' = token_ids s @ [t]"
    "params s' = params s" "block_table s' = block_table s"
    using recovers_iff [OF ok all] all by (auto simp: s'_def settle_def append_token_def)
  have "num_completion_tokens s' < max_tokens (params s')"
    using go by (simp add: hits_stop_def num_completion_tokens_def append_token_def f(2,4,7) not_le)
  then have sb: "seq_base s'" using base by (simp add: seq_base_def wf_seq_def f)
  have "sequence_phase s' = Decode"
    using base by (simp add: sequence_phase_def prefill_target_tokens_def f seq_base_def wf_seq_def)
  moreover have "num_blocks s' = num_blocks (append_token s t)" by (simp add: num_blocks_def append_token_def f(2))
  then have "append_gap_ok s'"
    using scheduled_bounds(2) [OF ok] num_blocks_append [of s t] by (simp add: append_gap_ok_def f(8))
  ultimately show ?thesis using sb f by (simp add: running_ok_def flip: s'_def)
qed

text \<open>A result entry answers a planned sequence.\<close>

definition answers :: "sequence_step_plan \<Rightarrow> sequence_step_result \<Rightarrow> bool" where
  "answers p x \<longleftrightarrow> plan_request_id p = result_request_id x \<and> plan_sequence_id p = result_sequence_id x
     \<and> sampling_allowed p = (sampled_token x \<noteq> None)"

lemma running_ok_applied:
  assumes ok: "running_ok s" "selected_ok s" "0 < num_scheduled_tokens s"
    and ans: "answers (planned_entry s) x" and go: "\<not> finishes eos s x"
  shows "running_ok (settle (recovers s) (apply_one eos s x))"
proof -
  have app: "applicable s" by (rule scheduled_applicable [OF ok])
  show ?thesis
  proof (cases "sampled_token x")
    case None
    then have more: "num_cached_tokens s + num_scheduled_tokens s \<noteq> num_tokens s"
      using ans by (auto simp: answers_def planned_entry_def Let_def)
    then have "\<not> recovers s" by (simp add: recovers_def is_recovered_def planned_entry_def Let_def)
    then show ?thesis using running_ok_unsampled [OF ok more] apply_one_None [OF app None]
      by (simp add: settle_def)
  next
    case (Some t)
    then have all: "num_cached_tokens s + num_scheduled_tokens s = num_tokens s"
      using ans by (simp add: answers_def planned_entry_def Let_def)
    have "\<not> hits_stop eos (append_token s t) t" using go finishes_iff [OF app] Some by auto
    then show ?thesis using running_ok_sampled [OF ok all] apply_one_Some [OF app Some] by simp
  qed
qed

section \<open>The accepted results\<close>

definition accepts :: "step_plan \<Rightarrow> step_result \<Rightarrow> bool" where
  "accepts plan res \<longleftrightarrow> result_plan_id res = plan_id plan
     \<and> list_all2 answers (plan_sequences plan) (result_sequences res)"

lemma check_result_planned:
  assumes "distinct (map seq_id run)" "s \<in> set run" "status s = Running"
  shows "check_result pid run (planned_entry s, x) = Ok () \<longleftrightarrow> answers (planned_entry s) x"
    and "check_result pid run (planned_entry s, x) \<noteq> Panicked"
  using find_planned [OF assms(1,2)] assms(3)
  by (auto simp: check_result_def answers_def split: option.splits)

lemma rcollect_unit_iff: "(\<exists>ys. rcollect f xs = Inr ys) \<longleftrightarrow> (\<forall>x \<in> set xs. \<exists>y. f x = Inr y)"
  by (induction xs) (auto simp: rbind_Ok_iff)

lemma check_results_iff:
  assumes "distinct (map seq_id run)" "\<forall>s \<in> set ss. s \<in> set run \<and> status s = Running" "length xs = length ss"
  shows "(\<exists>ys. rcollect (check_result pid run) (zip (map planned_entry ss) xs) = Ok ys)
      \<longleftrightarrow> list_all2 answers (map planned_entry ss) xs"
    and "rcollect (check_result pid run) (zip (map planned_entry ss) xs) \<noteq> Panicked"
proof -
  have each: "check_result pid run (planned_entry s, x) = Ok () \<longleftrightarrow> answers (planned_entry s) x"
    "check_result pid run (planned_entry s, x) \<noteq> Panicked" if "s \<in> set ss" for s x
    using check_result_planned [OF assms(1)] that assms(2) by blast+
  show "(\<exists>ys. rcollect (check_result pid run) (zip (map planned_entry ss) xs) = Ok ys)
      \<longleftrightarrow> list_all2 answers (map planned_entry ss) xs"
  proof -
    have "fst q \<in> set ss" if "q \<in> set (zip ss xs)" for q using that by (metis prod.collapse set_zip_leftD)
    then have "(\<forall>q \<in> set (zip ss xs). \<exists>y. check_result pid run (planned_entry (fst q), snd q) = Ok y)
        \<longleftrightarrow> (\<forall>q \<in> set (zip ss xs). answers (planned_entry (fst q)) (snd q))"
      using each(1) by simp
    then show ?thesis unfolding rcollect_unit_iff zip_map1 list_all2_iff using assms(3) by (simp add: split_beta)
  qed
  show "rcollect (check_result pid run) (zip (map planned_entry ss) xs) \<noteq> Panicked"
  proof
    assume "rcollect (check_result pid run) (zip (map planned_entry ss) xs) = Panicked"
    then obtain s x where "(s, x) \<in> set (zip ss xs)" "check_result pid run (planned_entry s, x) = Panicked"
      unfolding zip_map1 by (auto dest!: rcollect_Panic)
    then show False using each(2) set_zip_leftD by metis
  qed
qed

text \<open>Rejection changes nothing.\<close>

lemma apply_rejected:
  assumes inv: "sched_inv sch kv" and plan: "in_flight sch = Some plan" and no: "\<not> accepts plan res"
  shows "\<exists>e. apply_step_result xxh res sch kv = (Error e, sch, kv)"
proof (cases "result_plan_id res = plan_id plan \<and> length (result_sequences res) = length (plan_sequences plan)")
  case False
  then show ?thesis using plan by (auto simp: apply_step_result_def)
next
  case True
  let ?ss = "scheduled (running sch)"
  have ps: "plan_sequences plan = map planned_entry ?ss"
    using sched_invD(3) [OF inv] plan by (simp add: in_flight_ok_def)
  have ids: "distinct (map seq_id (running sch))" using sched_invD(2) [OF inv] by (simp add: ids_ok_def queue_def)
  have ss: "\<forall>s \<in> set ?ss. s \<in> set (running sch) \<and> status s = Running"
    using sched_invD(1) [OF inv] by (auto simp: scheduled_def sched_core_def running_ok_def)
  have len: "length (result_sequences res) = length ?ss" using True ps by simp
  note chk = check_results_iff [OF ids ss len, of "plan_id plan"]
  have "\<not> list_all2 answers (map planned_entry ?ss) (result_sequences res)"
    using no True ps by (simp add: accepts_def)
  then obtain f where "rcollect (check_result (plan_id plan) (running sch))
      (zip (map planned_entry ?ss) (result_sequences res)) = Inl f"
    using chk(1) by (metis obj_sumE)
  moreover from this chk(2) obtain e where "f = Err e" by (cases f) auto
  ultimately show ?thesis using True plan ps by (simp add: apply_step_result_def)
qed

text \<open>The pairs of an accepted result.\<close>

definition answered :: "scheduler \<Rightarrow> step_result \<Rightarrow> (sequence \<times> sequence_step_result) list" where
  "answered sch res = zip (scheduled (running sch)) (result_sequences res)"

lemma answered_props:
  assumes inv: "sched_inv sch kv" and plan: "in_flight sch = Some plan" and acc: "accepts plan res"
  shows "plan_sequences plan = map planned_entry (scheduled (running sch))"
    "length (result_sequences res) = length (scheduled (running sch))"
    "\<And>s x. (s, x) \<in> set (answered sch res) \<Longrightarrow> s \<in> set (running sch) \<and> running_ok s \<and> selected_ok s
        \<and> 0 < num_scheduled_tokens s \<and> answers (planned_entry s) x"
    "distinct (map (seq_id \<circ> fst) (answered sch res))" "distinct (map seq_id (running sch))"
    "map fst (answered sch res) = scheduled (running sch)"
proof -
  show ps: "plan_sequences plan = map planned_entry (scheduled (running sch))"
    using sched_invD(3) [OF inv] plan by (simp add: in_flight_ok_def)
  have la: "list_all2 answers (map planned_entry (scheduled (running sch))) (result_sequences res)"
    using acc ps by (simp add: accepts_def)
  show len: "length (result_sequences res) = length (scheduled (running sch))"
    using list_all2_lengthD [OF la] by simp
  show ids: "distinct (map seq_id (running sch))" using sched_invD(2) [OF inv] by (simp add: ids_ok_def queue_def)
  show fsts: "map fst (answered sch res) = scheduled (running sch)" using len by (simp add: answered_def)
  have "distinct (map seq_id (map fst (answered sch res)))"
    unfolding fsts scheduled_def using ids by (simp add: distinct_map inj_on_def)
  then show "distinct (map (seq_id \<circ> fst) (answered sch res))" by simp
  show "s \<in> set (running sch) \<and> running_ok s \<and> selected_ok s \<and> 0 < num_scheduled_tokens s
      \<and> answers (planned_entry s) x" if sx: "(s, x) \<in> set (answered sch res)" for s x
  proof -
    have "answers (planned_entry s) x"
      using la sx by (auto simp: answered_def list_all2_iff zip_map1)
    moreover have "s \<in> set (scheduled (running sch))" using sx by (auto simp: answered_def dest: set_zip_leftD)
    moreover have "\<forall>s \<in> set (running sch). running_ok s \<and> selected_ok s"
      using sched_invD(1,3) [OF inv] plan by (simp add: sched_core_def in_flight_ok_def)
    ultimately show ?thesis by (auto simp: scheduled_def)
  qed
qed

lemma map_of_pairs:
  assumes "distinct (map (seq_id \<circ> fst) pairs)" "(s, x) \<in> set pairs"
  shows "map_of (map (\<lambda>(s, x). (seq_id s, x)) pairs) (seq_id s) = Some x"
  using assms by (intro map_of_is_SomeI) (auto simp: o_def split_beta intro: rev_image_eqI)

text \<open>What becomes of one running sequence: retired, settled or untouched.\<close>

lemma applied_member:
  assumes d: "distinct (map (seq_id \<circ> fst) pairs)" "distinct (map seq_id run)"
    and sub: "\<forall>(s, x) \<in> set pairs. s \<in> set run" and s: "s \<in> set run"
  shows "\<And>x. (s, x) \<in> set pairs \<Longrightarrow> applied eos pairs s = apply_one eos s x
        \<and> (seq_id s \<in> set (map fst (finished_entries eos pairs)) \<longleftrightarrow> finishes eos s x)
        \<and> (seq_id s \<in> set (recovered_ids pairs) \<longleftrightarrow> recovers s)"
    and "s \<notin> set (map fst pairs) \<Longrightarrow> applied eos pairs s = s
        \<and> seq_id s \<notin> set (map fst (finished_entries eos pairs)) \<and> seq_id s \<notin> set (recovered_ids pairs)"
proof -
  have uniq: "u = s" if "(u, y) \<in> set pairs" "seq_id u = seq_id s" for u y
    using that sub same_seq_id [OF d(2) _ s] by auto
  have fin: "seq_id s \<in> set (map fst (finished_entries eos pairs)) \<longleftrightarrow> (\<exists>y. (s, y) \<in> set pairs \<and> finishes eos s y)"
    unfolding finished_entries_def using uniq by (force simp: image_iff)
  have rec: "seq_id s \<in> set (recovered_ids pairs) \<longleftrightarrow> (\<exists>y. (s, y) \<in> set pairs \<and> recovers s)"
    unfolding recovered_ids_def using uniq by (force simp: image_iff)
  show "applied eos pairs s = apply_one eos s x
        \<and> (seq_id s \<in> set (map fst (finished_entries eos pairs)) \<longleftrightarrow> finishes eos s x)
        \<and> (seq_id s \<in> set (recovered_ids pairs) \<longleftrightarrow> recovers s)" if sx: "(s, x) \<in> set pairs" for x
  proof -
    have "y = x" if "(s, y) \<in> set pairs" for y
      using map_of_pairs [OF d(1) that] map_of_pairs [OF d(1) sx] by simp
    then have "(\<exists>y. (s, y) \<in> set pairs \<and> finishes eos s y) \<longleftrightarrow> finishes eos s x" using sx by blast
    moreover have "applied eos pairs s = apply_one eos s x"
      using map_of_pairs [OF d(1) sx] by (simp add: applied_def)
    ultimately show ?thesis using fin rec sx by blast
  qed
  assume none: "s \<notin> set (map fst pairs)"
  have "map_of (map (\<lambda>(s, x). (seq_id s, x)) pairs) (seq_id s) = None"
  proof (rule ccontr)
    assume "map_of (map (\<lambda>(s, x). (seq_id s, x)) pairs) (seq_id s) \<noteq> None"
    then obtain y where "(seq_id s, y) \<in> set (map (\<lambda>(s, x). (seq_id s, x)) pairs)"
      by (metis map_of_SomeD not_None_eq)
    then obtain u where "(u, y) \<in> set pairs" "seq_id u = seq_id s" by auto
    then show False using uniq none by force
  qed
  moreover have "(s, y) \<notin> set pairs" for y using none by force
  ultimately show "applied eos pairs s = s
        \<and> seq_id s \<notin> set (map fst (finished_entries eos pairs)) \<and> seq_id s \<notin> set (recovered_ids pairs)"
    using fin rec by (simp add: applied_def)
qed

text \<open>The running queue after an accepted result.\<close>

definition remaining :: "token list \<Rightarrow> (sequence \<times> sequence_step_result) list \<Rightarrow> sequence list \<Rightarrow> sequence list" where
  "remaining eos pairs run =
     clear_recovered (recovered_ids pairs)
       (filter (\<lambda>s. seq_id s \<notin> set (map fst (finished_entries eos pairs))) (map (applied eos pairs) run))"

lemma apply_accepted:
  assumes inv: "sched_inv sch kv" and plan: "in_flight sch = Some plan" and acc: "accepts plan res"
  shows "\<exists>kv'. apply_step_result xxh res sch kv
      = (Ok (map snd (finished_entries (eos_token_ids sch) (answered sch res))),
         sch\<lparr>running := remaining (eos_token_ids sch) (answered sch res) (running sch), in_flight := None\<rparr>, kv')
    \<and> kv_inv kv' (mset (waiting sch)
        + mset (filter (\<lambda>s. seq_id s \<notin> set (map fst (finished_entries (eos_token_ids sch) (answered sch res))))
                  (map (applied (eos_token_ids sch) (answered sch res)) (running sch))))
    \<and> kv_capacity kv' = kv_capacity kv"
proof -
  let ?eos = "eos_token_ids sch" and ?pairs = "answered sch res"
  let ?run = "map (applied ?eos ?pairs) (running sch)" and ?ids = "map fst (finished_entries ?eos ?pairs)"
  note a = answered_props [OF inv plan acc]
  have kvi: "kv_inv kv (mset (waiting sch) + mset (running sch))"
    using sched_invD(1) [OF inv] by (simp add: sched_core_def queue_def ac_simps)
  have sub: "\<forall>(s, x) \<in> set ?pairs. s \<in> set (running sch) \<and> applicable s"
    using a(3) scheduled_applicable by blast
  obtain kv1 where loop: "apply_loop xxh ?eos (map (\<lambda>(s, x). (planned_entry s, x)) ?pairs) (running sch) kv
      = (Ok (finished_entries ?eos ?pairs, recovered_ids ?pairs), ?run, kv1)"
    "kv_inv kv1 (mset (waiting sch) + mset ?run)" "kv_capacity kv1 = kv_capacity kv"
    using apply_loop_spec [OF kvi a(5,4) sub] by blast
  have zips: "zip (plan_sequences plan) (result_sequences res) = map (\<lambda>(s, x). (planned_entry s, x)) ?pairs"
    by (simp add: a(1) answered_def zip_map1)
  have st: "\<forall>s \<in> set (scheduled (running sch)). s \<in> set (running sch) \<and> status s = Running"
    using sched_invD(1) [OF inv] by (auto simp: scheduled_def sched_core_def running_ok_def)
  have la: "list_all2 answers (map planned_entry (scheduled (running sch))) (result_sequences res)"
    using acc a(1) by (simp add: accepts_def)
  obtain ys where chk: "rcollect (check_result (plan_id plan) (running sch))
      (zip (plan_sequences plan) (result_sequences res)) = Ok ys"
    unfolding a(1) using check_results_iff(1) [OF a(5) st a(2)] la by blast
  have part: "kv_inv kv1 ((mset (waiting sch) + mset (filter (\<lambda>s. seq_id s \<notin> set ?ids) ?run))
      + mset (filter (\<lambda>s. seq_id s \<in> set ?ids) ?run))"
    using loop(2) multiset_partition [of "mset ?run" "\<lambda>s. seq_id s \<in> set ?ids"] by (simp add: ac_simps del: mset_map)
  obtain kv2 where de: "kv_deallocate_batch kv1 (filter (\<lambda>s. seq_id s \<in> set ?ids) ?run)
      = (Ok (), kv2, map clear_blocks (filter (\<lambda>s. seq_id s \<in> set ?ids) ?run))"
    "kv_inv kv2 (mset (waiting sch) + mset (filter (\<lambda>s. seq_id s \<notin> set ?ids) ?run))" "kv_capacity kv2 = kv_capacity kv1"
    using kv.deallocate_batch_ok [OF part] by blast
  define kv' where "kv' = (if ?ids = [] then kv1 else kv2)"
  have ret: "retire_finished (sch\<lparr>running := ?run\<rparr>) kv1 ?ids
      = (Ok (), sch\<lparr>running := filter (\<lambda>s. seq_id s \<notin> set ?ids) ?run\<rparr>, kv')"
  proof (cases "?ids = []")
    case True
    then show ?thesis by (simp add: retire_finished_def kv'_def)
  next
    case False
    then obtain i js where "?ids = i # js" by (cases ?ids) auto
    then show ?thesis using de(1) by (simp add: retire_finished_def kv'_def del: filter_map)
  qed
  have lenr: "length (result_sequences res) = length (plan_sequences plan)" using a(1,2) by simp
  have "apply_step_result xxh res sch kv = (Ok (map snd (finished_entries ?eos ?pairs)),
         sch\<lparr>running := remaining ?eos ?pairs (running sch), in_flight := None\<rparr>, kv')"
    using plan acc lenr chk loop(1) ret
    by (simp add: apply_step_result_def accepts_def zips remaining_def del: map_map filter_map)
  moreover have "kv_inv kv' (mset (waiting sch) + mset (filter (\<lambda>s. seq_id s \<notin> set ?ids) ?run))"
    using de(2) loop(2) by (simp add: kv'_def del: mset_map)
  moreover have "kv_capacity kv' = kv_capacity kv" using de(3) loop(3) by (simp add: kv'_def)
  ultimately show ?thesis by blast
qed

end
