(* ===== verification/Apply_Safety.thy ===== *)
theory Apply_Safety
  imports Applying
begin

text \<open>
  The scheduler invariant is kept by applying a result and by aborting, and the properties of both:
  rejection without effect, exactly-once application, conservation of requests, the stopping
  condition of outputs, and the release of every block on abort.
\<close>

section \<open>Applying keeps the invariant\<close>

lemma remaining_map:
  assumes "\<And>s. f (applied eos pairs s) = f s" "\<And>s r. f (s\<lparr>recompute_target_tokens := r\<rparr>) = f s"
  shows "map f (remaining eos pairs run)
    = map f (filter (\<lambda>s. seq_id s \<notin> set (map fst (finished_entries eos pairs))) run)"
  by (induction run) (simp_all add: remaining_def clear_recovered_def assms)

lemma remaining_member:
  assumes "u \<in> set (remaining eos pairs run)"
  obtains s where "s \<in> set run" "seq_id s \<notin> set (map fst (finished_entries eos pairs))"
    "u = settle (seq_id s \<in> set (recovered_ids pairs)) (applied eos pairs s)"
  using assms by (auto simp: remaining_def clear_recovered_def settle_def split: if_splits)

lemma remaining_running_ok:
  assumes inv: "sched_inv sch kv" and plan: "in_flight sch = Some plan" and acc: "accepts plan res"
    and u: "u \<in> set (remaining eos (answered sch res) (running sch))"
  shows "running_ok u"
proof -
  note a = answered_props [OF inv plan acc]
  let ?pairs = "answered sch res"
  obtain s where s: "s \<in> set (running sch)" "seq_id s \<notin> set (map fst (finished_entries eos ?pairs))"
    "u = settle (seq_id s \<in> set (recovered_ids ?pairs)) (applied eos ?pairs s)"
    using u by (rule remaining_member)
  have sub: "\<forall>(s, x) \<in> set ?pairs. s \<in> set (running sch)" using a(3) by blast
  note mem = applied_member [OF a(4,5) sub s(1), where eos = eos]
  show ?thesis
  proof (cases "s \<in> set (map fst ?pairs)")
    case True
    then obtain x where x: "(s, x) \<in> set ?pairs" by auto
    have "\<not> finishes eos s x" "u = settle (recovers s) (apply_one eos s x)" using mem(1) [OF x] s(2,3) by simp_all
    then show ?thesis using running_ok_applied a(3) [OF x] by simp
  next
    case False
    then have "u = s" using mem(2) s(3) by (simp add: settle_def)
    then show ?thesis using s(1) sched_invD(1) [OF inv] by (simp add: sched_core_def)
  qed
qed

lemma clear_recovered_view: "list_all2 same_cache_view xs (clear_recovered ids xs)"
  by (induction xs) (simp_all add: clear_recovered_def same_cache_view_def)

lemma distinct_map_filter_append: "distinct (map f (xs @ ys)) \<Longrightarrow> distinct (map f (filter P xs @ ys))"
  by (induction xs) auto

lemma apply_step_result_inv:
  assumes inv: "sched_inv sch kv" and plan: "in_flight sch = Some plan" and acc: "accepts plan res"
  shows "\<exists>kv'. apply_step_result xxh res sch kv
      = (Ok (map snd (finished_entries (eos_token_ids sch) (answered sch res))),
         sch\<lparr>running := remaining (eos_token_ids sch) (answered sch res) (running sch), in_flight := None\<rparr>, kv')
    \<and> sched_inv (sch\<lparr>running := remaining (eos_token_ids sch) (answered sch res) (running sch), in_flight := None\<rparr>) kv'
    \<and> kv_capacity kv' = kv_capacity kv"
proof -
  let ?eos = "eos_token_ids sch" and ?pairs = "answered sch res"
  let ?rem = "remaining ?eos ?pairs (running sch)"
  let ?keep = "\<lambda>s. seq_id s \<notin> set (map fst (finished_entries ?eos ?pairs))"
  let ?sch = "sch\<lparr>running := ?rem, in_flight := None\<rparr>"
  obtain kv' where r: "apply_step_result xxh res sch kv = (Ok (map snd (finished_entries ?eos ?pairs)), ?sch, kv')"
    "kv_inv kv' (mset (waiting sch) + mset (filter ?keep (map (applied ?eos ?pairs) (running sch))))"
    "kv_capacity kv' = kv_capacity kv"
    using apply_accepted [OF inv plan acc] by blast
  from kv.inv_view_list [OF r(2) clear_recovered_view]
  have kvi: "kv_inv kv' (mset (queue ?sch))" by (simp add: queue_def remaining_def ac_simps)
  have ids: "map seq_id ?rem = map seq_id (filter ?keep (running sch))"
    "map request_id ?rem = map request_id (filter ?keep (running sch))"
    by (rule remaining_map; simp)+
  have core: "sched_core sch kv" "ids_ok sch" using inv by (simp_all add: sched_inv_def)
  have "length ?rem \<le> length (running sch)" using arg_cong [OF ids(1), of length] by simp
  then have "sched_core ?sch kv'"
    using core(1) kvi remaining_running_ok [OF inv plan acc] by (simp add: sched_core_def)
  moreover have "ids_ok ?sch"
  proof -
    have q: "map seq_id (queue ?sch) = map seq_id (filter ?keep (running sch) @ waiting sch)"
      "map request_id (queue ?sch) = map request_id (filter ?keep (running sch) @ waiting sch)"
      using ids by (simp_all add: queue_def)
    have d: "distinct (map seq_id (running sch @ waiting sch))" "distinct (map request_id (running sch @ waiting sch))"
      "\<forall>i \<in> set (map seq_id (running sch @ waiting sch)). i < next_seq_id sch"
      "\<forall>i \<in> set (map request_id (running sch @ waiting sch)). i < next_request_id sch"
      using core(2) unfolding ids_ok_def queue_def by blast+
    show ?thesis unfolding ids_ok_def q
    proof (intro conjI)
      show "distinct (map seq_id (filter ?keep (running sch) @ waiting sch))"
        "distinct (map request_id (filter ?keep (running sch) @ waiting sch))"
        by (rule distinct_map_filter_append, rule d)+
      show "\<forall>i \<in> set (map seq_id (filter ?keep (running sch) @ waiting sch)). i < next_seq_id ?sch"
        "\<forall>i \<in> set (map request_id (filter ?keep (running sch) @ waiting sch)). i < next_request_id ?sch"
        using d(3,4) by auto
    qed
  qed
  moreover have "in_flight_ok ?sch" by (simp add: in_flight_ok_def)
  ultimately show ?thesis using r(1,3) by (auto simp: sched_inv_def)
qed

section \<open>Outputs\<close>

lemma answered_finished:
  assumes inv: "sched_inv sch kv" and plan: "in_flight sch = Some plan" and acc: "accepts plan res"
  shows "mset (map fst (filter (\<lambda>(s, x). finishes eos s x) (answered sch res)))
    = mset (filter (\<lambda>s. seq_id s \<in> set (map fst (finished_entries eos (answered sch res)))) (running sch))"
proof -
  note a = answered_props [OF inv plan acc]
  let ?pairs = "answered sch res"
  have sub: "\<forall>(s, x) \<in> set ?pairs. s \<in> set (running sch)" using a(3) by blast
  have mem: "seq_id s \<in> set (map fst (finished_entries eos ?pairs)) \<longleftrightarrow> (\<exists>x. (s, x) \<in> set ?pairs \<and> finishes eos s x)"
    if s: "s \<in> set (running sch)" for s
  proof (cases "s \<in> set (map fst ?pairs)")
    case True
    then obtain x where "(s, x) \<in> set ?pairs" by auto
    then show ?thesis using applied_member(1) [OF a(4,5) sub s, where eos = eos] by blast
  next
    case False
    then have "(s, x) \<notin> set ?pairs" for x by force
    then show ?thesis using applied_member(2) [OF a(4,5) sub s False, where eos = eos] by blast
  qed
  have "distinct (running sch)" using a(5) by (simp add: distinct_map)
  moreover have "distinct (map fst ?pairs)" using a(4) by (metis distinct_map map_map)
  then have "distinct (map fst (filter (\<lambda>(s, x). finishes eos s x) ?pairs))" by (rule distinct_map_filter)
  moreover have "set (map fst (filter (\<lambda>(s, x). finishes eos s x) ?pairs))
      = set (filter (\<lambda>s. seq_id s \<in> set (map fst (finished_entries eos ?pairs))) (running sch))"
    using mem sub by (force simp del: set_map simp: set_map [of fst "filter _ _"])
  ultimately show ?thesis by (subst set_eq_iff_mset_eq_distinct [symmetric]) simp_all
qed

lemma request_conservation:
  assumes inv: "sched_inv sch kv" and plan: "in_flight sch = Some plan" and acc: "accepts plan res"
  shows "mset (map request_id (running sch))
    = mset (map request_id (remaining eos (answered sch res) (running sch)))
      + mset (map out_request_id (map snd (finished_entries eos (answered sch res))))"
proof -
  let ?pairs = "answered sch res"
  let ?fin = "\<lambda>s. seq_id s \<in> set (map fst (finished_entries eos ?pairs))"
  have "map out_request_id (map snd (finished_entries eos ?pairs))
      = map request_id (map fst (filter (\<lambda>(s, x). finishes eos s x) ?pairs))"
    by (simp add: finished_entries_def final_output_def split_beta)
  then have "mset (map out_request_id (map snd (finished_entries eos ?pairs)))
      = image_mset request_id (mset (filter ?fin (running sch)))"
    using answered_finished [OF assms, of eos] by (simp only: mset_map)
  moreover have "mset (map request_id (remaining eos ?pairs (running sch)))
      = image_mset request_id (mset (filter (\<lambda>s. \<not> ?fin s) (running sch)))"
    by (subst remaining_map) simp_all
  moreover have "mset (running sch) = mset (filter (\<lambda>s. \<not> ?fin s) (running sch)) + mset (filter ?fin (running sch))"
    using multiset_partition [of "mset (running sch)" ?fin] by (simp add: ac_simps)
  then have "image_mset request_id (mset (running sch)) = image_mset request_id (mset (filter (\<lambda>s. \<not> ?fin s) (running sch)))
      + image_mset request_id (mset (filter ?fin (running sch)))"
    by (metis image_mset_union)
  ultimately show ?thesis by (simp only: mset_map)
qed

lemma output_tokens:
  assumes inv: "sched_inv sch kv" and plan: "in_flight sch = Some plan" and acc: "accepts plan res"
    and out: "out \<in> set (map snd (finished_entries eos (answered sch res)))"
  shows "\<exists>s \<in> set (running sch). \<exists>t. out_request_id out = request_id s \<and> out_finished out
    \<and> out_token_ids out = drop (num_prompt_tokens s) (token_ids s) @ [t]
    \<and> length (out_token_ids out) \<le> max_tokens (params s)
    \<and> (length (out_token_ids out) = max_tokens (params s) \<or> t \<in> set eos \<and> \<not> ignore_eos (params s))"
proof -
  note a = answered_props [OF inv plan acc]
  obtain s x where sx: "(s, x) \<in> set (answered sch res)" "finishes eos s x" "out = final_output eos s x"
    using out by (auto simp: finished_entries_def)
  have s: "s \<in> set (running sch)" "running_ok s" "selected_ok s" "0 < num_scheduled_tokens s" using a(3) [OF sx(1)] by auto
  have app: "applicable s" by (rule scheduled_applicable [OF s(2-4)])
  then obtain t where t: "sampled_token x = Some t" "hits_stop eos (append_token s t) t"
    using sx(2) finishes_iff by blast
  have base: "seq_base s" using s(2) by (rule running_okD)
  have "num_prompt_tokens s \<le> length (token_ids s)" using app by (simp add: applicable_def)
  then have toks: "out_token_ids out = drop (num_prompt_tokens s) (token_ids s) @ [t]"
    by (simp add: sx(3) final_output_def apply_one_Some [OF app t(1)] append_token_def)
  have len: "length (out_token_ids out) = num_completion_tokens s + 1"
    using app by (simp add: toks num_completion_tokens_def applicable_def Suc_diff_le)
  have "num_completion_tokens (append_token s t) = num_completion_tokens s + 1"
    using app by (simp add: num_completion_tokens_def append_token_def applicable_def Suc_diff_le)
  then have "max_tokens (params s) \<le> num_completion_tokens s + 1 \<or> t \<in> set eos \<and> \<not> ignore_eos (params s)"
    using t(2) by (simp add: hits_stop_def append_token_def)
  moreover have "num_completion_tokens s < max_tokens (params s)" using base by (simp add: seq_base_def)
  ultimately have "length (out_token_ids out) \<le> max_tokens (params s)"
    "length (out_token_ids out) = max_tokens (params s) \<or> t \<in> set eos \<and> \<not> ignore_eos (params s)"
    using len by auto
  moreover have "out_request_id out = request_id s" "out_finished out" by (simp_all add: sx(3) final_output_def)
  ultimately show ?thesis using s(1) toks by blast
qed

section \<open>Aborting\<close>

lemma kv_inv_drop_empty:
  "kv_inv kv (S + mset ss) \<Longrightarrow> \<forall>s \<in> set ss. block_table s = [] \<Longrightarrow> kv_inv kv S"
proof (induction ss arbitrary: S)
  case (Cons s ss)
  have "kv_inv kv (add_mset s (S + mset ss))" "block_table s = []" using Cons.prems by simp_all
  then have "kv_inv kv (S + mset ss)" by (rule kv.inv_retire)
  then show ?case by (rule Cons.IH) (use Cons.prems(2) in simp)
qed simp

lemma abort_all_requests_ok:
  assumes inv: "sched_inv sch kv"
  shows "\<exists>kv'. abort_all_requests sch kv = (Ok (), sch\<lparr>running := [], waiting := [], in_flight := None\<rparr>, kv')
    \<and> kv_inv kv' {#} \<and> kv_num_free_blocks kv' = kv_capacity kv' \<and> kv_capacity kv' = kv_capacity kv"
proof -
  let ?all = "filter (\<lambda>s. block_table s \<noteq> []) (queue sch)" and ?none = "filter (\<lambda>s. \<not> block_table s \<noteq> []) (queue sch)"
  have "mset (queue sch) = mset ?none + mset ?all"
    using multiset_partition [of "mset (queue sch)" "\<lambda>s. block_table s \<noteq> []"] by (simp add: ac_simps)
  then have part: "kv_inv kv (mset ?none + mset ?all)" using inv by (simp add: sched_inv_def sched_core_def)
  obtain kv1 where de: "kv_deallocate_batch kv ?all = (Ok (), kv1, map clear_blocks ?all)" "kv_inv kv1 (mset ?none)"
    "kv_capacity kv1 = kv_capacity kv"
    using kv.deallocate_batch_ok [OF part] by blast
  define kv' where "kv' = (if ?all = [] then kv else kv1)"
  have "kv_inv kv' (mset ?none)"
  proof (cases "?all = []")
    case True
    have "kv_inv kv (mset ?none)" using part by (simp only: True mset.simps(1) add_0_right)
    then show ?thesis by (simp only: kv'_def True if_True simp_thms)
  next
    case False
    then show ?thesis using de(2) unfolding kv'_def by (simp only: if_False)
  qed
  then have "kv_inv kv' ({#} + mset ?none)" by (simp only: add_0_left)
  then have empty: "kv_inv kv' {#}" by (rule kv_inv_drop_empty) simp
  have "abort_all_requests sch kv = (Ok (), sch\<lparr>running := [], waiting := [], in_flight := None\<rparr>, kv')"
  proof (cases "?all = []")
    case True
    then show ?thesis by (simp add: abort_all_requests_def kv'_def queue_def Let_def)
  next
    case False
    then have "kv' = kv1" unfolding kv'_def by (simp only: if_False)
    then show ?thesis using de(1) False by (auto simp: abort_all_requests_def queue_def Let_def)
  qed
  moreover have "kv_num_free_blocks kv' = kv_capacity kv'" using kv.free_count [OF empty] by (simp add: occupied_def)
  moreover have "kv_capacity kv' = kv_capacity kv" using de(3) by (simp add: kv'_def)
  ultimately show ?thesis using empty by blast
qed

section \<open>Properties\<close>

text \<open>A result that answers every entry of a plan, sampling one fixed token where allowed.\<close>

definition demo_result :: "step_plan \<Rightarrow> token \<Rightarrow> step_result" where
  "demo_result plan t = \<lparr>result_plan_id = plan_id plan, result_sequences =
     map (\<lambda>p. \<lparr>result_request_id = plan_request_id p, result_sequence_id = plan_sequence_id p,
        sampled_token = (if sampling_allowed p then Some t else None)\<rparr>) (plan_sequences plan)\<rparr>"

lemma apply_no_plan:
  "in_flight sch = None \<Longrightarrow> apply_step_result xxh res sch kv = (Error (NoPlanInFlight (result_plan_id res)), sch, kv)"
  by (simp add: apply_step_result_def)

lemma demo_result_accepted: "accepts plan (demo_result plan t)"
  by (simp add: accepts_def demo_result_def list_all2_map2 list.rel_refl answers_def)

lemma demo_in_flight:
  obtains plan sch kv where "sched_inv sch kv" "in_flight sch = Some plan"
proof -
  obtain plan sch kv where p: "plan_step (\<lambda>_. 0) demo_sched demo_kv = (Ok (Some plan), sch, kv)" by (rule demo_plan)
  from plan_step_inv [OF demo_sched_inv p] plan_step_plan(2) [OF demo_sched_inv p] show thesis using that by blast
qed

text \<open>C4: a result is applied exactly once and only when it answers the plan in flight. In a
  consistent state a result that names another plan, another number or order of sequences, or that
  samples where sampling is not permitted is rejected and changes neither the scheduler nor the
  cache; an accepted one is applied without error or panic, keeps the invariant, leaves no plan in
  flight, and presenting it again is rejected.\<close>

theorem apply_exactly_once:
  assumes "sched_inv sch kv" "apply_step_result xxh res sch kv = (r, sch', kv')"
  shows "sched_inv sch' kv' \<and> r \<noteq> Panicked
    \<and> ((\<exists>outs. r = Ok outs) \<longleftrightarrow> (\<exists>plan. in_flight sch = Some plan \<and> accepts plan res))
    \<and> (\<forall>e. r = Error e \<longrightarrow> sch' = sch \<and> kv' = kv)
    \<and> (\<forall>outs. r = Ok outs \<longrightarrow> in_flight sch' = None
        \<and> apply_step_result xxh res sch' kv' = (Error (NoPlanInFlight (result_plan_id res)), sch', kv'))"
proof (cases "in_flight sch")
  case None
  then show ?thesis using assms by (auto simp: apply_step_result_def)
next
  case (Some plan)
  show ?thesis
  proof (cases "accepts plan res")
    case True
    then show ?thesis using apply_step_result_inv [OF assms(1) Some True, of xxh] assms(2) Some
      by (auto simp: apply_no_plan)
  next
    case False
    then show ?thesis using apply_rejected [OF assms(1) Some False, of xxh] assms Some by auto
  qed
qed

theorem apply_exactly_once_witness:
  "\<exists>plan sch kv r sch' kv'. in_flight sch = Some plan
     \<and> apply_step_result (\<lambda>_. 0) (demo_result plan 5) sch kv = (r, sch', kv') \<and> sched_inv sch' kv' \<and> (\<exists>outs. r = Ok outs)"
proof -
  obtain plan sch kv where p: "sched_inv sch kv" "in_flight sch = Some plan" by (rule demo_in_flight)
  obtain r sch' kv' where a: "apply_step_result (\<lambda>_. 0) (demo_result plan 5) sch kv = (r, sch', kv')" by (metis prod.exhaust)
  from apply_exactly_once [OF p(1) a] p(2) a demo_result_accepted show ?thesis by blast
qed

text \<open>C9: requests are conserved and outputs are complete. Applying an accepted result keeps every
  request either queued or among the outputs, each exactly once; every output holds the completion
  of its request including the token just sampled, no longer than \<^verbatim>\<open>max_tokens\<close>, and it is there
  because the limit was reached or because that token is an end-of-sequence token the request does
  not ignore.\<close>

theorem apply_outputs:
  assumes "sched_inv sch kv" "apply_step_result xxh res sch kv = (Ok outs, sch', kv')"
  shows "mset (map request_id (queue sch)) = mset (map request_id (queue sch')) + mset (map out_request_id outs)
    \<and> (\<forall>out \<in> set outs. \<exists>s \<in> set (running sch). \<exists>t. out_request_id out = request_id s \<and> out_finished out
        \<and> out_token_ids out = drop (num_prompt_tokens s) (token_ids s) @ [t]
        \<and> length (out_token_ids out) \<le> max_tokens (params s)
        \<and> (length (out_token_ids out) = max_tokens (params s) \<or> t \<in> set (eos_token_ids sch) \<and> \<not> ignore_eos (params s)))"
proof -
  obtain plan where plan: "in_flight sch = Some plan"
    using assms(2) by (cases "in_flight sch") (simp_all add: apply_step_result_def)
  have acc: "accepts plan res"
    using apply_rejected [OF assms(1) plan, of res xxh] assms(2) by auto
  have outs: "outs = map snd (finished_entries (eos_token_ids sch) (answered sch res))"
    and run: "running sch' = remaining (eos_token_ids sch) (answered sch res) (running sch)" "waiting sch' = waiting sch"
    using apply_step_result_inv [OF assms(1) plan acc, of xxh] assms(2) by auto
  have "mset (map request_id (queue sch)) = mset (map request_id (queue sch')) + mset (map out_request_id outs)"
    using request_conservation [OF assms(1) plan acc, of "eos_token_ids sch"]
    unfolding queue_def run outs by (simp only: map_append mset_append ac_simps)
  then show ?thesis using output_tokens [OF assms(1) plan acc] unfolding outs by blast
qed

theorem apply_outputs_witness:
  "\<exists>plan sch kv outs sch' kv'. apply_step_result (\<lambda>_. 0) (demo_result plan 0) sch kv = (Ok outs, sch', kv')
     \<and> mset (map request_id (queue sch)) = mset (map request_id (queue sch')) + mset (map out_request_id outs)"
proof -
  obtain plan sch kv where p: "sched_inv sch kv" "in_flight sch = Some plan" by (rule demo_in_flight)
  obtain outs sch' kv' where a: "apply_step_result (\<lambda>_. 0) (demo_result plan 0) sch kv = (Ok outs, sch', kv')"
    using apply_step_result_inv [OF p demo_result_accepted] by blast
  from apply_outputs [OF p(1) a] a show ?thesis by blast
qed

text \<open>aborting releases everything. From any consistent state, with or without a plan in
  flight, \<^verbatim>\<open>abort_all_requests\<close> succeeds, empties both queues and the plan slot, and returns every
  physical block to the free list.\<close>

theorem abort_releases_all:
  assumes "sched_inv sch kv"
  shows "\<exists>sch' kv'. abort_all_requests sch kv = (Ok (), sch', kv') \<and> sched_inv sch' kv' \<and> queue sch' = []
    \<and> in_flight sch' = None \<and> kv_num_free_blocks kv' = kv_capacity kv \<and> kv_capacity kv' = kv_capacity kv"
proof -
  obtain kv' where a: "abort_all_requests sch kv = (Ok (), sch\<lparr>running := [], waiting := [], in_flight := None\<rparr>, kv')"
    "kv_inv kv' {#}" "kv_num_free_blocks kv' = kv_capacity kv'" "kv_capacity kv' = kv_capacity kv"
    using abort_all_requests_ok [OF assms] by blast
  then show ?thesis
    by (intro exI [of _ "sch\<lparr>running := [], waiting := [], in_flight := None\<rparr>"] exI [of _ kv'])
       (simp add: sched_inv_def sched_core_def ids_ok_def in_flight_ok_def queue_def)
qed

theorem abort_releases_all_witness:
  "\<exists>sch' kv'. abort_all_requests demo_sched demo_kv = (Ok (), sch', kv') \<and> kv_num_free_blocks kv' = 4"
  using abort_releases_all [OF demo_sched_inv] by (auto simp: demo_sched_simps)

end
