(* ===== verification/Engine.thy ===== *)
theory Engine
  imports Apply_Safety Attention_Context
begin

text \<open>
  \<^verbatim>\<open>engine/mod.rs\<close>: the engine core, which runs one scheduler plan per step. A step plans, prepares
  and binds the attention context, executes the model and the sampler on exactly the planned work,
  releases the context, and lets the scheduler apply the result; on any failure it abandons every
  request and releases the cache.

  The model (\<^verbatim>\<open>dyn CausalLM\<close>), the tensor operations of \<^verbatim>\<open>candle\<close> and the sampler's draw from the
  logits are the fields of a record of parameters: each may fail, and the model and the sampler
  have a state of their own. The diagnostic capture behind the \<^verbatim>\<open>internal-golden\<close> feature is left
  out: it only reads the step.
\<close>

datatype engine_error =
    PlanFailed step_plan_error
  | AttentionFailed attention_error
  | ExecutionFailed string
  | EmptyStepPlan
  | PositionDoesNotFitU32
  | BudgetDoesNotMatchInputs
  | AlsoFailed engine_error engine_error
  | CleanupFailed engine_error step_plan_error
  | RequestsRunning
  | EmptyGenerationCall

text \<open>The operations the engine calls: the model, its tensors and the sampler.\<close>

record ('m, 's, 't) engine_ops =
  begin_generation :: "nat \<Rightarrow> 'm \<Rightarrow> 'm"
  end_generation :: "'m \<Rightarrow> 'm"
  model_forward :: "'t \<Rightarrow> 't \<Rightarrow> 't attention_context \<Rightarrow> 'm \<Rightarrow> (engine_error, 't) outcome \<times> 'm"
  compute_logits :: "'m \<Rightarrow> 't \<Rightarrow> (engine_error, 't) outcome"
  lm_vocab_size :: "'m \<Rightarrow> nat"
  tensor_from_vec :: "32 word list \<Rightarrow> (engine_error, 't) outcome"
  empty_logits :: "(engine_error, 't) outcome"
  tensor_row :: "'t \<Rightarrow> nat \<Rightarrow> (engine_error, 't) outcome"
  stack_rows :: "'t list \<Rightarrow> (engine_error, 't) outcome"
  to_f32 :: "'t \<Rightarrow> (engine_error, 't) outcome"
  sampler_forward :: "'t \<Rightarrow> sampling_params list \<Rightarrow> token list list \<Rightarrow> 's \<Rightarrow> (engine_error, 't) outcome \<times> 's"
  tokens_to_host :: "'t \<Rightarrow> (engine_error, token list) outcome"
  upload_metadata :: "prepared_attention \<Rightarrow> (metadata_error, unit) outcome"
  block_hasher :: hasher

record ('m, 's, 't) engine_core =
  eng_scheduler :: scheduler
  eng_kv :: kv_cache_manager
  eng_model :: 'm
  eng_sampler :: 's
  eng_ctx :: "'t attention_context"

section \<open>Admission\<close>

definition engine_is_running :: "('m, 's, 't) engine_core \<Rightarrow> bool" where
  "engine_is_running eng = is_running (eng_scheduler eng)"

fun admit_requests :: "scheduler \<Rightarrow> (token list \<times> sampling_params) list \<Rightarrow> nat list \<times> scheduler" where
  "admit_requests sch [] = ([], sch)"
| "admit_requests sch ((prompt, ps) # rs) =
     (let (rid, sch') = add_request sch prompt ps; (rids, sch'') = admit_requests sch' rs in (rid # rids, sch''))"

definition add_requests ::
    "('m, 's, 't) engine_ops \<Rightarrow> (token list \<times> sampling_params) list \<Rightarrow> ('m, 's, 't) engine_core \<Rightarrow>
      (engine_error, nat list) outcome \<times> ('m, 's, 't) engine_core" where
  "add_requests ops requests eng =
     (if engine_is_running eng then (Error RequestsRunning, eng)
      else if requests = [] then (Error EmptyGenerationCall, eng)
      else let m = begin_generation ops (length requests) (eng_model eng);
               (rids, sch) = admit_requests (eng_scheduler eng) requests
           in (Ok rids, eng\<lparr>eng_model := m, eng_scheduler := sch\<rparr>))"

section \<open>Executing a plan\<close>

definition position_to_u32 :: "nat \<Rightarrow> (engine_error, 32 word) outcome" where
  "position_to_u32 n = (if n < 2 ^ 32 then Ok (word_of_nat n) else Error PositionDoesNotFitU32)"

text \<open>The rows to sample from: the last row of every entry that may sample.\<close>

fun sample_rows ::
    "('m, 's, 't) engine_ops \<Rightarrow> 't \<Rightarrow> nat \<Rightarrow> sequence_step_plan list \<Rightarrow>
      (engine_error, ('t \<times> sampling_params \<times> token list) list) outcome" where
  "sample_rows ops hidden offset [] = Ok []"
| "sample_rows ops hidden offset (p # ps) =
     (if sampling_allowed p then
        (if offset + seq_token_budget p = 0 then Panicked
         else rbind (tensor_row ops hidden (offset + seq_token_budget p - 1)) (\<lambda>row.
              rbind (sample_rows ops hidden (offset + seq_token_budget p) ps) (\<lambda>rows.
              Ok ((row, plan_sampling_params p, token_history p) # rows))))
      else sample_rows ops hidden (offset + seq_token_budget p) ps)"

text \<open>One result per entry; each entry that may sample takes the next token, while there is one.\<close>

fun assign_tokens :: "sequence_step_plan list \<Rightarrow> token list \<Rightarrow> sequence_step_result list" where
  "assign_tokens [] ts = []"
| "assign_tokens (p # ps) ts =
     (if sampling_allowed p then
        \<lparr>result_request_id = plan_request_id p, result_sequence_id = plan_sequence_id p,
          sampled_token = (case ts of [] \<Rightarrow> None | t # _ \<Rightarrow> Some t)\<rparr> # assign_tokens ps (tl ts)
      else
        \<lparr>result_request_id = plan_request_id p, result_sequence_id = plan_sequence_id p, sampled_token = None\<rparr>
          # assign_tokens ps ts)"

text \<open>Logits and sampled tokens for the selected rows.\<close>

definition sample_step ::
    "('m, 's, 't) engine_ops \<Rightarrow> ('t \<times> sampling_params \<times> token list) list \<Rightarrow> 'm \<Rightarrow> 's \<Rightarrow>
      (engine_error, token list \<times> 't) outcome \<times> 's" where
  "sample_step ops rows m smp =
     (if rows = [] then (rbind (empty_logits ops) (\<lambda>logits. Ok ([], logits)), smp)
      else case rbind (stack_rows ops (map fst rows)) (\<lambda>x. rbind (compute_logits ops m x) (to_f32 ops)) of
        Inl e \<Rightarrow> (Inl e, smp)
      | Inr logits \<Rightarrow>
          (case sampler_forward ops logits (map (fst \<circ> snd) rows) (map (snd \<circ> snd) rows) smp of
             (Inl e, smp') \<Rightarrow> (Inl e, smp')
           | (Inr picked, smp') \<Rightarrow>
               (rbind (tokens_to_host ops picked) (\<lambda>ts. Ok (ts, logits)), smp')))"

definition plan_inputs :: "step_plan \<Rightarrow> (engine_error, 32 word list \<times> 32 word list) outcome" where
  "plan_inputs plan =
     (if plan_sequences plan = [] \<or> token_budget plan = 0 then Error EmptyStepPlan
      else let ids = concat (map input_token_ids (plan_sequences plan)) in
        rbind (rcollect position_to_u32
          (concat (map (\<lambda>p. [fst (logical_positions p)..<snd (logical_positions p)]) (plan_sequences plan)))) (\<lambda>positions.
        if length ids \<noteq> token_budget plan \<or> length positions \<noteq> token_budget plan
        then Error BudgetDoesNotMatchInputs else Ok (ids, positions)))"

definition execute_plan ::
    "('m, 's, 't) engine_ops \<Rightarrow> step_plan \<Rightarrow> ('m, 's, 't) engine_core \<Rightarrow>
      (engine_error, step_result \<times> 't) outcome \<times> ('m, 's, 't) engine_core" where
  "execute_plan ops plan eng =
     (case rbind (plan_inputs plan) (\<lambda>(ids, positions). rbind (tensor_from_vec ops ids) (\<lambda>x.
           rbind (tensor_from_vec ops positions) (\<lambda>pos. Ok (x, pos)))) of
        Inl e \<Rightarrow> (Inl e, eng)
      | Inr (x, pos) \<Rightarrow>
          (case model_forward ops x pos (eng_ctx eng) (eng_model eng) of
             (Inl e, m) \<Rightarrow> (Inl e, eng\<lparr>eng_model := m\<rparr>)
           | (Inr hidden, m) \<Rightarrow>
               (case sample_rows ops hidden 0 (plan_sequences plan) of
                  Inl e \<Rightarrow> (Inl e, eng\<lparr>eng_model := m\<rparr>)
                | Inr rows \<Rightarrow>
                    (case sample_step ops rows m (eng_sampler eng) of
                       (Inl e, smp) \<Rightarrow> (Inl e, eng\<lparr>eng_model := m, eng_sampler := smp\<rparr>)
                     | (Inr (ts, logits), smp) \<Rightarrow>
                         (Ok (\<lparr>result_plan_id = plan_id plan,
                               result_sequences = assign_tokens (plan_sequences plan) ts\<rparr>, logits),
                          eng\<lparr>eng_model := m, eng_sampler := smp\<rparr>)))))"

section \<open>The step\<close>

definition finish_attention_scope ::
    "(engine_error, 'a) outcome \<Rightarrow> (engine_error, unit) outcome \<Rightarrow> (engine_error, 'a) outcome" where
  "finish_attention_scope operation cleanup =
     (case (operation, cleanup) of
        (Inl Panic, _) \<Rightarrow> Panicked
      | (_, Inl Panic) \<Rightarrow> Panicked
      | (Inr v, Inr _) \<Rightarrow> Ok v
      | (Inl (Err e), Inr _) \<Rightarrow> Error e
      | (Inr _, Inl (Err e)) \<Rightarrow> Error e
      | (Inl (Err e), Inl (Err c)) \<Rightarrow> Error (AlsoFailed e c))"

text \<open>\<^verbatim>\<open>return Err(self.cleanup_failed_step(error))\<close>: the model ends the generation and every
  request is abandoned.\<close>

definition cleanup_failed_step ::
    "('m, 's, 't) engine_ops \<Rightarrow> engine_error \<Rightarrow> ('m, 's, 't) engine_core \<Rightarrow>
      (engine_error, 'a) outcome \<times> ('m, 's, 't) engine_core" where
  "cleanup_failed_step ops err eng =
     (case abort_all_requests (eng_scheduler eng) (eng_kv eng) of (r, sch, kv) \<Rightarrow>
        ((case r of Inl Panic \<Rightarrow> Panicked | Inl (Err e) \<Rightarrow> Error (CleanupFailed err e) | Inr _ \<Rightarrow> Error err),
         eng\<lparr>eng_model := end_generation ops (eng_model eng), eng_scheduler := sch, eng_kv := kv\<rparr>))"

definition fail_or_panic ::
    "('m, 's, 't) engine_ops \<Rightarrow> engine_error failure \<Rightarrow> ('m, 's, 't) engine_core \<Rightarrow>
      (engine_error, 'a) outcome \<times> ('m, 's, 't) engine_core" where
  "fail_or_panic ops f eng = (case f of Panic \<Rightarrow> (Panicked, eng) | Err e \<Rightarrow> cleanup_failed_step ops e eng)"

text \<open>The error of a failed binding, extended when releasing the prepared step fails too.\<close>

definition binding_failure ::
    "attention_error failure \<Rightarrow> (attention_error, unit) outcome \<Rightarrow> engine_error failure" where
  "binding_failure f released =
     (case (f, released) of
        (Err e, Inr _) \<Rightarrow> Err (AttentionFailed e)
      | (Err e, Inl (Err r)) \<Rightarrow> Err (AlsoFailed (AttentionFailed e) (AttentionFailed r))
      | _ \<Rightarrow> Panic)"

text \<open>Execution inside the bound scope. A panic unwinds through both guards, which are dropped in
  the reverse order of their creation.\<close>

definition execute_in_scope ::
    "('m, 's, 't) engine_ops \<Rightarrow> step_plan \<Rightarrow> ('m, 's, 't) engine_core \<Rightarrow>
      (engine_error, step_result \<times> 't) outcome \<times> ('m, 's, 't) engine_core" where
  "execute_in_scope ops plan eng =
     (let epoch = StepPlanEpoch (plan_id plan); (execution, eng1) = execute_plan ops plan eng in
      case execution of
        Inl Panic \<Rightarrow> (Panicked, eng1\<lparr>eng_ctx := drop_step epoch (drop_consumer epoch (eng_ctx eng1))\<rparr>)
      | _ \<Rightarrow>
          (let (unbound, ctx1) = finish_consumer epoch (eng_ctx eng1);
               (released, ctx2) = finish_step epoch ctx1
           in (finish_attention_scope (finish_attention_scope execution (map_err AttentionFailed unbound))
                 (map_err AttentionFailed released), eng1\<lparr>eng_ctx := ctx2\<rparr>)))"

definition apply_execution ::
    "('m, 's, 't) engine_ops \<Rightarrow> step_result \<Rightarrow> ('m, 's, 't) engine_core \<Rightarrow>
      (engine_error, request_output list) outcome \<times> ('m, 's, 't) engine_core" where
  "apply_execution ops result eng =
     (case apply_step_result (block_hasher ops) result (eng_scheduler eng) (eng_kv eng) of (r, sch, kv) \<Rightarrow>
        let eng1 = eng\<lparr>eng_scheduler := sch, eng_kv := kv\<rparr> in
        (case map_err PlanFailed r of
           Inl f \<Rightarrow> fail_or_panic ops f eng1
         | Inr outputs \<Rightarrow>
             (Ok outputs, if engine_is_running eng1 then eng1 else eng1\<lparr>eng_model := end_generation ops (eng_model eng1)\<rparr>)))"

definition run_plan ::
    "('m, 's, 't) engine_ops \<Rightarrow> step_plan \<Rightarrow> ('m, 's, 't) engine_core \<Rightarrow>
      (engine_error, request_output list) outcome \<times> ('m, 's, 't) engine_core" where
  "run_plan ops plan eng =
     (let epoch = StepPlanEpoch (plan_id plan) in
      case prepare (upload_metadata ops) epoch (attention plan) (eng_ctx eng) of
        (Inl f, ctx) \<Rightarrow> fail_or_panic ops (map_failure AttentionFailed f) (eng\<lparr>eng_ctx := ctx\<rparr>)
      | (Inr _, ctx1) \<Rightarrow>
          (case bind_consumer epoch ctx1 of
             (Inl f, ctx2) \<Rightarrow>
               (let (released, ctx3) = finish_step epoch ctx2
                in fail_or_panic ops (binding_failure f released) (eng\<lparr>eng_ctx := ctx3\<rparr>))
           | (Inr _, ctx2) \<Rightarrow>
               (case execute_in_scope ops plan (eng\<lparr>eng_ctx := ctx2\<rparr>) of
                  (Inl f, eng1) \<Rightarrow> fail_or_panic ops f eng1
                | (Inr (result, logits), eng1) \<Rightarrow> apply_execution ops result eng1)))"

definition engine_step ::
    "('m, 's, 't) engine_ops \<Rightarrow> ('m, 's, 't) engine_core \<Rightarrow>
      (engine_error, request_output list) outcome \<times> ('m, 's, 't) engine_core" where
  "engine_step ops eng =
     (case plan_step (block_hasher ops) (eng_scheduler eng) (eng_kv eng) of (r, sch, kv) \<Rightarrow>
        let eng1 = eng\<lparr>eng_scheduler := sch, eng_kv := kv\<rparr> in
        (case map_err PlanFailed r of
           Inl f \<Rightarrow> fail_or_panic ops f eng1
         | Inr None \<Rightarrow> (rbind (empty_logits ops) (\<lambda>_. Ok []), eng1)
         | Inr (Some plan) \<Rightarrow> run_plan ops plan eng1))"

section \<open>Frames and panics\<close>

text \<open>No operation the engine calls panics.\<close>

definition ops_no_panic :: "('m, 's, 't) engine_ops \<Rightarrow> bool" where
  "ops_no_panic ops \<longleftrightarrow>
     (\<forall>x pos ctx m. fst (model_forward ops x pos ctx m) \<noteq> Panicked)
     \<and> (\<forall>m x. compute_logits ops m x \<noteq> Panicked)
     \<and> (\<forall>v. tensor_from_vec ops v \<noteq> Panicked)
     \<and> empty_logits ops \<noteq> Panicked
     \<and> (\<forall>x i. tensor_row ops x i \<noteq> Panicked)
     \<and> (\<forall>xs. stack_rows ops xs \<noteq> Panicked)
     \<and> (\<forall>x. to_f32 ops x \<noteq> Panicked)
     \<and> (\<forall>x ps hs s. fst (sampler_forward ops x ps hs s) \<noteq> Panicked)
     \<and> (\<forall>x. tokens_to_host ops x \<noteq> Panicked)
     \<and> (\<forall>prepared. upload_metadata ops prepared \<noteq> Panicked)"

lemma execute_plan_frame:
  assumes "execute_plan ops plan eng = (r, eng')"
  shows "eng_scheduler eng' = eng_scheduler eng" "eng_kv eng' = eng_kv eng" "eng_ctx eng' = eng_ctx eng"
  using assms by (auto simp: execute_plan_def split: sum.splits prod.splits)

lemma execute_plan_result:
  assumes "execute_plan ops plan eng = (Ok (result, logits), eng')"
  shows "result_plan_id result = plan_id plan \<and> (\<exists>ts. result_sequences result = assign_tokens (plan_sequences plan) ts)"
  using assms by (auto simp: execute_plan_def split: sum.splits prod.splits)

lemma assign_tokens_answers:
  "length (filter sampling_allowed ps) \<le> length ts \<Longrightarrow> list_all2 answers ps (assign_tokens ps ts)"
proof (induction ps arbitrary: ts)
  case Nil
  then show ?case by simp
next
  case (Cons p ps)
  then show ?case by (cases ts) (auto simp: answers_def)
qed

lemma sample_rows_no_panic:
  assumes "ops_no_panic ops" "\<forall>p \<in> set ps. 0 < seq_token_budget p"
  shows "sample_rows ops hidden offset ps \<noteq> Panicked"
  using assms(2)
proof (induction ps arbitrary: offset)
  case Nil
  then show ?case by simp
next
  case (Cons p ps)
  then show ?case using assms(1) by (auto simp: ops_no_panic_def rbind_Inl_iff)
qed

lemma sample_step_no_panic:
  assumes "ops_no_panic ops"
  shows "fst (sample_step ops rows m smp) \<noteq> Panicked"
proof -
  have "rbind (stack_rows ops (map fst rows)) (\<lambda>x. rbind (compute_logits ops m x) (to_f32 ops)) \<noteq> Panicked"
    using assms by (auto simp: ops_no_panic_def rbind_Inl_iff)
  moreover have "sampler_forward ops a b c d \<noteq> (Panicked, e)" for a b c d e
    using assms unfolding ops_no_panic_def by (metis fst_conv)
  ultimately show ?thesis
    using assms by (auto simp: sample_step_def ops_no_panic_def rbind_Inl_iff split: sum.splits prod.splits)
qed

lemma plan_inputs_no_panic: "plan_inputs plan \<noteq> Panicked"
  by (auto simp: plan_inputs_def rbind_Inl_iff Let_def position_to_u32_def dest!: rcollect_Panic split: if_splits)

lemma execute_plan_no_panic:
  assumes "ops_no_panic ops" "\<forall>p \<in> set (plan_sequences plan). 0 < seq_token_budget p"
  shows "fst (execute_plan ops plan eng) \<noteq> Panicked"
proof -
  have "rbind (plan_inputs plan) (\<lambda>(ids, positions). rbind (tensor_from_vec ops ids) (\<lambda>x.
           rbind (tensor_from_vec ops positions) (\<lambda>pos. Ok (x, pos)))) \<noteq> Panicked"
    using assms(1) plan_inputs_no_panic [of plan] by (auto simp: ops_no_panic_def rbind_Inl_iff split: prod.splits)
  moreover have "model_forward ops a b c d \<noteq> (Panicked, e)" for a b c d e
    using assms(1) unfolding ops_no_panic_def by (metis fst_conv)
  moreover have "sample_step ops a b c \<noteq> (Panicked, d)" for a b c d
    using sample_step_no_panic [OF assms(1), of a b c] by auto
  ultimately show ?thesis
    using sample_rows_no_panic [OF assms] by (auto simp: execute_plan_def split: sum.splits prod.splits)
qed

section \<open>The engine invariant\<close>

text \<open>Between steps: the scheduler invariant holds, nothing is in flight and the attention context
  is idle and usable.\<close>

definition engine_inv :: "('m, 's, 't) engine_core \<Rightarrow> bool" where
  "engine_inv eng \<longleftrightarrow> sched_inv (eng_scheduler eng) (eng_kv eng) \<and> in_flight (eng_scheduler eng) = None
     \<and> is_idle (eng_ctx eng) \<and> \<not> runtime_poisoned (eng_ctx eng)"

definition eng_queue :: "('m, 's, 't) engine_core \<Rightarrow> sequence list" where
  "eng_queue eng = queue (eng_scheduler eng)"

text \<open>Nothing is queued and every block is free.\<close>

definition drained :: "('m, 's, 't) engine_core \<Rightarrow> bool" where
  "drained eng \<longleftrightarrow> eng_queue eng = [] \<and> kv_num_free_blocks (eng_kv eng) = kv_capacity (eng_kv eng)"

lemma sched_inv_aborted:
  "sched_inv sch kv \<Longrightarrow> kv_inv kv' {#} \<Longrightarrow> sched_inv (sch\<lparr>running := [], waiting := [], in_flight := None\<rparr>) kv'"
  by (simp add: sched_inv_def sched_core_def ids_ok_def in_flight_ok_def queue_def)

text \<open>The configuration of a scheduler, which no step changes.\<close>

definition limits :: "scheduler \<Rightarrow> nat \<times> nat \<times> token list" where
  "limits sch = (max_num_batched_tokens sch, max_num_seqs sch, eos_token_ids sch)"

lemma plan_step_limits:
  assumes inv: "sched_inv sch kv" and call: "plan_step xxh sch kv = (r, sch', kv')"
  shows "limits sch' = limits sch"
proof (cases "in_flight sch")
  case (Some plan)
  then show ?thesis using call by (auto simp: plan_step_def)
next
  case None
  from inv None obtain sel sch1 kv1 where st: "selected_state sch kv sel sch1 kv1"
    and eq: "plan_step xxh sch kv = (case finish_plan sel sch1 kv1 (map planned_entry (scheduled (running sch1)))
       of (r, sch2) \<Rightarrow> (r, sch2, kv1))"
    by (rule plan_step_result)
  have mv: "moved sch kv sch1 kv1" using st by (simp add: selected_state_def)
  have "finish_plan sel sch1 kv1 (map planned_entry (scheduled (running sch1))) = (r, sch')"
    using call eq by (auto split: prod.splits)
  then show ?thesis using moved_config [OF mv]
    by (cases rule: finish_plan_cases [of "map planned_entry (scheduled (running sch1))" sel sch1 kv1])
      (auto simp: limits_def Let_def)
qed

text \<open>A failed step: whatever went wrong, the engine is drained and usable.\<close>

definition failed_clean :: "('m, 's, 't) engine_core \<Rightarrow> ('m, 's, 't) engine_core \<Rightarrow> bool" where
  "failed_clean eng eng' \<longleftrightarrow> engine_inv eng' \<and> drained eng' \<and> kv_capacity (eng_kv eng') = kv_capacity (eng_kv eng)
     \<and> limits (eng_scheduler eng') = limits (eng_scheduler eng)"

lemma cleanup_clean:
  assumes "sched_inv (eng_scheduler eng) (eng_kv eng)" "is_idle (eng_ctx eng)" "\<not> runtime_poisoned (eng_ctx eng)"
    and call: "cleanup_failed_step ops err eng = (r, eng')"
  shows "r = Error err \<and> failed_clean eng eng'"
proof -
  obtain kv' where ab: "abort_all_requests (eng_scheduler eng) (eng_kv eng)
      = (Ok (), (eng_scheduler eng)\<lparr>running := [], waiting := [], in_flight := None\<rparr>, kv')"
    "kv_inv kv' {#}" "kv_num_free_blocks kv' = kv_capacity kv'" "kv_capacity kv' = kv_capacity (eng_kv eng)"
    using abort_all_requests_ok [OF assms(1)] by blast
  show ?thesis using call ab(1,3,4) sched_inv_aborted [OF assms(1) ab(2)] assms(2,3)
    by (auto simp: cleanup_failed_step_def failed_clean_def engine_inv_def drained_def eng_queue_def queue_def limits_def)
qed

text \<open>The engine after a plan was made, with an idle context.\<close>

definition planned_engine :: "step_plan \<Rightarrow> ('m, 's, 't) engine_core \<Rightarrow> bool" where
  "planned_engine plan eng \<longleftrightarrow> sched_inv (eng_scheduler eng) (eng_kv eng) \<and> in_flight (eng_scheduler eng) = Some plan
     \<and> is_idle (eng_ctx eng) \<and> \<not> runtime_poisoned (eng_ctx eng)
     \<and> (\<forall>p \<in> set (plan_sequences plan). 0 < seq_token_budget p)"

lemma finish_attention_scope_simps [simp]:
  "finish_attention_scope (Inr v) (Inr u) = Inr v"
  "finish_attention_scope (Inl f) (Inr u) = Inl f"
  by (cases f; simp add: finish_attention_scope_def)+

text \<open>Execution in the scope opened for the plan: the scheduler and the cache are untouched and the
  context is idle again.\<close>

lemma execute_in_scope_spec:
  assumes "ops_no_panic ops" "planned_engine plan eng"
    and prep: "preparation (upload_metadata ops) (StepPlanEpoch (plan_id plan)) (attention plan) (eng_ctx eng) = Ok prepared"
    and call: "execute_in_scope ops plan (eng\<lparr>eng_ctx := bound_to (StepPlanEpoch (plan_id plan)) (holding (eng_ctx eng) prepared)\<rparr>) = (r, eng')"
  shows "r \<noteq> Panicked \<and> eng_scheduler eng' = eng_scheduler eng \<and> eng_kv eng' = eng_kv eng
    \<and> is_idle (eng_ctx eng') \<and> \<not> runtime_poisoned (eng_ctx eng')
    \<and> (\<forall>result logits. r = Ok (result, logits) \<longrightarrow> result_plan_id result = plan_id plan
        \<and> (\<exists>ts. result_sequences result = assign_tokens (plan_sequences plan) ts))"
proof -
  let ?ep = "StepPlanEpoch (plan_id plan)"
  let ?eng = "eng\<lparr>eng_ctx := bound_to ?ep (holding (eng_ctx eng) prepared)\<rparr>"
  have idle: "is_idle (eng_ctx eng)" "\<not> runtime_poisoned (eng_ctx eng)"
    and pos: "\<forall>p \<in> set (plan_sequences plan). 0 < seq_token_budget p"
    using assms(2) by (simp_all add: planned_engine_def)
  obtain ex eng1 where ex: "execute_plan ops plan ?eng = (ex, eng1)" by force
  note fr = execute_plan_frame [OF ex]
  have np: "ex \<noteq> Panicked" using execute_plan_no_panic [OF assms(1) pos, of ?eng] ex by simp
  have fin: "finish_consumer ?ep (eng_ctx eng1) = (Ok (), holding (eng_ctx eng) prepared)"
    "finish_step ?ep (holding (eng_ctx eng) prepared) = (Ok (), completed (eng_ctx eng) prepared)"
    using scope_idle(3,4) [OF idle prep] fr(3) by (simp_all add: finish_consumer_def finish_step_def)
  have "(r, eng') = (finish_attention_scope (finish_attention_scope ex (Ok ())) (Ok ()),
      eng1\<lparr>eng_ctx := completed (eng_ctx eng) prepared\<rparr>)"
    using call np ex fin by (auto simp: execute_in_scope_def Let_def split: sum.splits failure.splits)
  then have "r = ex" "eng' = eng1\<lparr>eng_ctx := completed (eng_ctx eng) prepared\<rparr>" by (cases ex; simp)+
  then show ?thesis using np fr completed_idle [OF idle(1)] idle(2) execute_plan_result [of ops plan ?eng] ex by auto
qed

lemma apply_execution_ok:
  assumes "apply_step_result (block_hasher ops) result (eng_scheduler eng) (eng_kv eng) = (Ok outs, sch, kv)"
  shows "\<exists>m. apply_execution ops result eng = (Ok outs, eng\<lparr>eng_scheduler := sch, eng_kv := kv, eng_model := m\<rparr>)"
proof (cases "engine_is_running (eng\<lparr>eng_scheduler := sch, eng_kv := kv\<rparr>)")
  case True
  then show ?thesis using assms by (intro exI [of _ "eng_model eng"]) (simp add: apply_execution_def Let_def)
next
  case False
  then show ?thesis using assms
    by (intro exI [of _ "end_generation ops (eng_model eng)"]) (simp add: apply_execution_def Let_def)
qed

text \<open>How a step that runs a plan ends: cleanly failed, or with an accepted result applied.\<close>

lemma run_plan_spec:
  assumes ops: "ops_no_panic ops" and pl: "planned_engine plan eng"
    and call: "run_plan ops plan eng = (r, eng')"
  shows "(\<exists>e. r = Error e \<and> failed_clean eng eng')
    \<or> (\<exists>outs result. r = Ok outs \<and> engine_inv eng' \<and> kv_capacity (eng_kv eng') = kv_capacity (eng_kv eng)
        \<and> accepts plan result
        \<and> apply_step_result (block_hasher ops) result (eng_scheduler eng) (eng_kv eng)
            = (Ok outs, eng_scheduler eng', eng_kv eng'))"
proof -
  let ?ep = "StepPlanEpoch (plan_id plan)"
  let ?prep = "preparation (upload_metadata ops) ?ep (attention plan) (eng_ctx eng)"
  have inv: "sched_inv (eng_scheduler eng) (eng_kv eng)" and fly: "in_flight (eng_scheduler eng) = Some plan"
    and idle: "is_idle (eng_ctx eng)" "\<not> runtime_poisoned (eng_ctx eng)"
    using pl by (simp_all add: planned_engine_def)
  note prep = prepare_idle [OF idle, of "upload_metadata ops" ?ep "attention plan"]
  have np: "?prep \<noteq> Panicked" using ops by (intro preparation_no_panic) (simp add: ops_no_panic_def)
  show ?thesis
  proof (cases ?prep)
    case (Inl f)
    with np obtain e where "f = Err e" by (cases f) auto
    with Inl call prep have "cleanup_failed_step ops (AttentionFailed e) (eng\<lparr>eng_ctx := eng_ctx eng\<rparr>) = (r, eng')"
      by (simp add: run_plan_def fail_or_panic_def Let_def)
    from cleanup_clean [OF _ _ _ this] inv idle show ?thesis by (simp add: failed_clean_def)
  next
    case (Inr prepared)
    let ?eng = "eng\<lparr>eng_ctx := bound_to ?ep (holding (eng_ctx eng) prepared)\<rparr>"
    obtain x eng1 where x: "execute_in_scope ops plan ?eng = (x, eng1)" by force
    note sc = execute_in_scope_spec [OF ops pl Inr x]
    have run: "(r, eng') = (case x of Inl f \<Rightarrow> fail_or_panic ops f eng1
        | Inr (result, logits) \<Rightarrow> apply_execution ops result eng1)"
      using call prep Inr scope_idle(1) [OF idle Inr] x by (simp add: run_plan_def Let_def)
    show ?thesis
    proof (cases x)
      case (Inl f)
      with sc obtain e where "f = Err e" by (cases f) auto
      then have "cleanup_failed_step ops e eng1 = (r, eng')" using run Inl by (simp add: fail_or_panic_def)
      from cleanup_clean [OF _ _ _ this] sc inv show ?thesis by (simp add: failed_clean_def)
    next
      case (Inr p)
      obtain result logits where p: "p = (result, logits)" by force
      have eq: "(r, eng') = apply_execution ops result eng1" using run Inr p by simp
      show ?thesis
      proof (cases "accepts plan result")
        case True
        from apply_step_result_inv [OF inv fly True, of "block_hasher ops"] obtain outs sch' kv' where
          ap: "apply_step_result (block_hasher ops) result (eng_scheduler eng) (eng_kv eng) = (Ok outs, sch', kv')"
          and post: "sched_inv sch' kv'" "in_flight sch' = None" "kv_capacity kv' = kv_capacity (eng_kv eng)"
          by auto
        from ap have "apply_step_result (block_hasher ops) result (eng_scheduler eng1) (eng_kv eng1) = (Ok outs, sch', kv')"
          using sc by simp
        from apply_execution_ok [OF this] obtain m where
          m: "r = Ok outs" "eng' = eng1\<lparr>eng_scheduler := sch', eng_kv := kv', eng_model := m\<rparr>"
          using eq by (metis prod.inject)
        then have "engine_inv eng'" using post sc by (simp add: engine_inv_def)
        then show ?thesis using m post True ap by auto
      next
        case False
        from apply_rejected [OF inv fly False, of "block_hasher ops"] obtain e where
          ap: "apply_step_result (block_hasher ops) result (eng_scheduler eng) (eng_kv eng)
            = (Error e, eng_scheduler eng, eng_kv eng)" by blast
        then have "apply_step_result (block_hasher ops) result (eng_scheduler eng1) (eng_kv eng1)
            = (Error e, eng_scheduler eng1, eng_kv eng1)" using sc by simp
        then have "cleanup_failed_step ops (PlanFailed e) eng1 = (r, eng')"
          using eq by (simp add: apply_execution_def fail_or_panic_def Let_def)
        from cleanup_clean [OF _ _ _ this] sc inv show ?thesis by (simp add: failed_clean_def)
      qed
    qed
  qed
qed

text \<open>An idle plan means that nothing is queued.\<close>

lemma plan_step_idle:
  assumes inv: "sched_inv sch kv" and call: "plan_step xxh sch kv = (Ok None, sch', kv')"
  shows "queue sch = [] \<and> queue sch' = [] \<and> in_flight sch' = None"
proof -
  have none: "in_flight sch = None" using call by (cases "in_flight sch") (simp_all add: plan_step_def)
  from inv none obtain sel sch1 kv1 where st: "selected_state sch kv sel sch1 kv1"
    and eq: "plan_step xxh sch kv = (case finish_plan sel sch1 kv1 (map planned_entry (scheduled (running sch1)))
       of (r, sch2) \<Rightarrow> (r, sch2, kv1))"
    by (rule plan_step_result)
  have fin: "finish_plan sel sch1 kv1 (map planned_entry (scheduled (running sch1))) = (Ok None, sch')"
    using call eq by (auto split: prod.splits)
  have mv: "moved sch kv sch1 kv1" using st by (simp add: selected_state_def)
  have "queue sch1 = [] \<and> sch' = sch1"
    using fin by (cases rule: finish_plan_cases [of "map planned_entry (scheduled (running sch1))" sel sch1 kv1])
      (auto simp: is_running_def queue_def Let_def)
  moreover have "queue sch = [] \<longleftrightarrow> queue sch1 = []" using moved_config(9) [OF mv] by (metis map_is_Nil_conv)
  ultimately show ?thesis using moved_config(7) [OF mv] none by simp
qed

text \<open>How a step ends, in the terms of the scheduler.\<close>

lemma engine_step_cases:
  assumes ops: "ops_no_panic ops" and inv: "engine_inv eng" and call: "engine_step ops eng = (r, eng')"
  obtains (failed) e where "r = Error e" "failed_clean eng eng'"
  | (idle) "r = Ok []" "eng_queue eng = []" "engine_inv eng'" "eng_queue eng' = []"
      "kv_capacity (eng_kv eng') = kv_capacity (eng_kv eng)" "limits (eng_scheduler eng') = limits (eng_scheduler eng)"
  | (applied) plan sch kv result outs where "r = Ok outs"
      "plan_step (block_hasher ops) (eng_scheduler eng) (eng_kv eng) = (Ok (Some plan), sch, kv)"
      "accepts plan result"
      "apply_step_result (block_hasher ops) result sch kv = (Ok outs, eng_scheduler eng', eng_kv eng')"
      "engine_inv eng'" "kv_capacity (eng_kv eng') = kv_capacity (eng_kv eng)"
proof -
  obtain pr sch kv where p: "plan_step (block_hasher ops) (eng_scheduler eng) (eng_kv eng) = (pr, sch, kv)"
    by (metis prod.exhaust)
  have si: "sched_inv (eng_scheduler eng) (eng_kv eng)" and fly: "in_flight (eng_scheduler eng) = None"
    and idle: "is_idle (eng_ctx eng)" "\<not> runtime_poisoned (eng_ctx eng)"
    using inv by (simp_all add: engine_inv_def)
  note pinv = plan_step_inv [OF si p] and plim = plan_step_limits [OF si p]
  let ?eng = "eng\<lparr>eng_scheduler := sch, eng_kv := kv\<rparr>"
  have clean: "failed_clean eng eng'" if "failed_clean ?eng eng'" using that pinv plim by (simp add: failed_clean_def)
  show thesis
  proof (cases pr)
    case (Inl f)
    with pinv obtain e where e: "f = Err e" by (cases f) auto
    have "cleanup_failed_step ops (PlanFailed e) ?eng = (r, eng')"
      using call p Inl e by (simp add: engine_step_def fail_or_panic_def)
    from cleanup_clean [OF _ _ _ this] pinv idle clean show thesis using failed by simp
  next
    case (Inr o_plan)
    show thesis
    proof (cases o_plan)
      case None
      have q: "queue (eng_scheduler eng) = []" "queue sch = []" "in_flight sch = None"
        using plan_step_idle [OF si] p Inr None by blast+
      have eq: "r = rbind (empty_logits ops) (\<lambda>_. Ok [])" "eng' = ?eng"
        using call p Inr None by (simp_all add: engine_step_def)
      have inv': "engine_inv eng'" using pinv q(3) idle by (simp add: eq(2) engine_inv_def)
      have cap: "kv_capacity (eng_kv eng') = kv_capacity (eng_kv eng)" using pinv by (simp add: eq(2))
      show thesis
      proof (cases "empty_logits ops")
        case (Inr t)
        then show thesis using idle(1) q inv' cap eq plim by (intro that(2)) (simp_all add: eng_queue_def)
      next
        case (Inl f)
        with ops obtain e where "f = Err e" by (cases f) (auto simp: ops_no_panic_def)
        moreover have "kv_inv kv {#}" using inv' q(2) by (simp add: eq(2) engine_inv_def sched_inv_def sched_core_def)
        then have "kv_num_free_blocks kv = kv_capacity kv" using kv.free_count [of kv "{#}"] by (simp add: occupied_def)
        ultimately show thesis using failed [of e] Inl eq inv' cap q(2) plim
          by (simp add: failed_clean_def drained_def eng_queue_def)
      qed
    next
      case (Some plan)
      have pp: "plan_step (block_hasher ops) (eng_scheduler eng) (eng_kv eng) = (Ok (Some plan), sch, kv)"
        using p Inr Some by simp
      have "\<forall>q \<in> set (plan_sequences plan). 0 < seq_token_budget q"
        using plan_step_plan(4) [OF si pp] by (auto simp: scheduled_def planned_entry_def Let_def)
      then have pl: "planned_engine plan ?eng"
        using pinv plan_step_plan(2) [OF si pp] idle by (simp add: planned_engine_def)
      have "run_plan ops plan ?eng = (r, eng')" using call pp by (simp add: engine_step_def)
      from run_plan_spec [OF ops pl this] show thesis
        using failed clean applied [OF _ pp] pinv by auto
    qed
  qed
qed

text \<open>What a successful step does to the requests.\<close>

lemma engine_step_requests:
  assumes ops: "ops_no_panic ops" and inv: "engine_inv eng" and call: "engine_step ops eng = (Ok outs, eng')"
  shows "mset (map request_id (eng_queue eng)) = mset (map request_id (eng_queue eng')) + mset (map out_request_id outs)"
proof (cases rule: engine_step_cases [OF ops inv call])
  case (2)
  then show ?thesis by simp
next
  case (3 plan sch kv result outs')
  have si: "sched_inv (eng_scheduler eng) (eng_kv eng)" using inv by (simp add: engine_inv_def)
  note pinv = plan_step_inv [OF si 3(2)]
  have fly: "in_flight sch = Some plan" using plan_step_plan(2) [OF si 3(2)] .
  have sch': "outs = map snd (finished_entries (eos_token_ids sch) (answered sch result))"
    "eng_scheduler eng' = sch\<lparr>running := remaining (eos_token_ids sch) (answered sch result) (running sch), in_flight := None\<rparr>"
    using apply_step_result_inv [OF conjunct1 [OF pinv] fly 3(3), of "block_hasher ops"] 3(1,4) by auto
  have "map ident (queue sch) = map ident (queue (eng_scheduler eng))" using pinv by (elim conjE)
  from map_ident_proj(2) [OF this] have "map request_id (queue sch) = map request_id (eng_queue eng)"
    by (simp only: eng_queue_def)
  then have "mset (map request_id (eng_queue eng)) = mset (map request_id (running sch)) + mset (map request_id (waiting sch))"
    by (metis queue_def map_append mset_append)
  moreover have "mset (map request_id (eng_queue eng'))
      = mset (map request_id (remaining (eos_token_ids sch) (answered sch result) (running sch))) + mset (map request_id (waiting sch))"
    by (simp add: eng_queue_def sch'(2) queue_def)
  ultimately show ?thesis
    using request_conservation [OF conjunct1 [OF pinv] fly 3(3), of "eos_token_ids sch"] sch'(1)
    by (simp only: ac_simps)
qed auto

end
