(* ===== verification/Engine_Safety.thy ===== *)
theory Engine_Safety
  imports Engine
begin

text \<open>
  What a step of the engine promises. A successful step conserves requests, a failed one leaves
  a drained engine, and no step, whatever the model and the sampler do and even when they
  panic, leaves the attention context occupied or the cache and its owners out of step. Also here:
  the admission of a call.
\<close>

section \<open>Steps that may panic\<close>

text \<open>The state every step keeps: a plan may still be in flight after a panic.\<close>

definition engine_safe :: "('m, 's, 't) engine_core \<Rightarrow> bool" where
  "engine_safe eng \<longleftrightarrow> sched_inv (eng_scheduler eng) (eng_kv eng)
     \<and> is_idle (eng_ctx eng) \<and> \<not> runtime_poisoned (eng_ctx eng)"

lemma engine_inv_safe: "engine_inv eng \<longleftrightarrow> engine_safe eng \<and> in_flight (eng_scheduler eng) = None"
  by (auto simp: engine_inv_def engine_safe_def)

lemma failed_clean_safe: "failed_clean eng eng' \<Longrightarrow> engine_safe eng'"
  by (simp add: failed_clean_def engine_inv_safe)

lemma fail_or_panic_safe:
  assumes "engine_safe eng" "fail_or_panic ops f eng = (r, eng')"
  shows "engine_safe eng' \<and> (f = Panic \<longrightarrow> r = Panicked) \<and> (\<forall>e. f = Err e \<longrightarrow> r = Error e \<and> failed_clean eng eng')"
proof (cases f)
  case Panic
  then show ?thesis using assms by (simp add: fail_or_panic_def)
next
  case (Err e)
  have "cleanup_failed_step ops e eng = (r, eng')" using assms(2) Err by (simp add: fail_or_panic_def)
  from cleanup_clean [OF _ _ _ this] assms(1) have "r = Error e \<and> failed_clean eng eng'"
    by (simp add: engine_safe_def)
  then show ?thesis using Err failed_clean_safe by blast
qed

lemma execute_in_scope_idle:
  assumes idle: "is_idle (eng_ctx eng)" "\<not> runtime_poisoned (eng_ctx eng)"
    and prep: "preparation (upload_metadata ops) (StepPlanEpoch (plan_id plan)) md (eng_ctx eng) = Ok prepared"
    and call: "execute_in_scope ops plan (eng\<lparr>eng_ctx := bound_to (StepPlanEpoch (plan_id plan)) (holding (eng_ctx eng) prepared)\<rparr>) = (r, eng')"
  shows "eng_scheduler eng' = eng_scheduler eng \<and> eng_kv eng' = eng_kv eng
    \<and> is_idle (eng_ctx eng') \<and> \<not> runtime_poisoned (eng_ctx eng')"
proof -
  let ?ep = "StepPlanEpoch (plan_id plan)"
  let ?eng = "eng\<lparr>eng_ctx := bound_to ?ep (holding (eng_ctx eng) prepared)\<rparr>"
  obtain ex eng1 where ex: "execute_plan ops plan ?eng = (ex, eng1)" by force
  note fr = execute_plan_frame [OF ex]
  note sc = scope_idle(3,4) [OF idle prep]
  have "eng' = eng1\<lparr>eng_ctx := completed (eng_ctx eng) prepared\<rparr>"
  proof (cases "ex = Panicked")
    case True
    then show ?thesis using call ex fr(3) sc
      by (simp add: execute_in_scope_def Let_def drop_step_def drop_consumer_def)
  next
    case False
    have "finish_consumer ?ep (eng_ctx eng1) = (Ok (), holding (eng_ctx eng) prepared)"
      "finish_step ?ep (holding (eng_ctx eng) prepared) = (Ok (), completed (eng_ctx eng) prepared)"
      using sc fr(3) by (simp_all add: finish_consumer_def finish_step_def)
    then show ?thesis using call ex False
      by (auto simp: execute_in_scope_def Let_def split: sum.splits failure.splits)
  qed
  then show ?thesis using fr(1,2) idle completed_idle by simp
qed

lemma apply_execution_safe:
  assumes "engine_safe eng" "apply_execution ops result eng = (r, eng')"
  shows "engine_safe eng'"
proof -
  obtain ar sch kv where a: "apply_step_result (block_hasher ops) result (eng_scheduler eng) (eng_kv eng) = (ar, sch, kv)"
    by (metis prod.exhaust)
  have "sched_inv sch kv"
  proof (cases "in_flight (eng_scheduler eng)")
    case None
    then show ?thesis using a assms(1) by (simp add: apply_no_plan engine_safe_def)
  next
    case (Some plan)
    note inv = assms(1) [unfolded engine_safe_def, THEN conjunct1]
    show ?thesis
    proof (cases "accepts plan result")
      case True
      from apply_step_result_inv [OF inv Some this, of "block_hasher ops"] a show ?thesis by auto
    next
      case False
      from apply_rejected [OF inv Some this, of "block_hasher ops"] a inv show ?thesis by auto
    qed
  qed
  then have safe: "engine_safe (eng\<lparr>eng_scheduler := sch, eng_kv := kv\<rparr>)"
    using assms(1) by (simp add: engine_safe_def)
  show ?thesis
  proof (cases ar)
    case (Inl f)
    have "fail_or_panic ops (map_failure PlanFailed f) (eng\<lparr>eng_scheduler := sch, eng_kv := kv\<rparr>) = (r, eng')"
      using assms(2) a Inl by (cases f) (simp_all add: apply_execution_def)
    then show ?thesis using fail_or_panic_safe [OF safe] by blast
  next
    case (Inr outs)
    with a have "apply_step_result (block_hasher ops) result (eng_scheduler eng) (eng_kv eng) = (Ok outs, sch, kv)" by simp
    from apply_execution_ok [OF this] assms(2) obtain m where
      "eng' = eng\<lparr>eng_scheduler := sch, eng_kv := kv, eng_model := m\<rparr>" by auto
    then show ?thesis using safe by (simp add: engine_safe_def)
  qed
qed

lemma run_plan_safe:
  assumes safe: "engine_safe eng" and call: "run_plan ops plan eng = (r, eng')"
  shows "engine_safe eng'"
proof -
  let ?ep = "StepPlanEpoch (plan_id plan)"
  let ?prep = "preparation (upload_metadata ops) ?ep (attention plan) (eng_ctx eng)"
  have idle: "is_idle (eng_ctx eng)" "\<not> runtime_poisoned (eng_ctx eng)" using safe by (simp_all add: engine_safe_def)
  note prep = prepare_idle [OF idle, of "upload_metadata ops" ?ep "attention plan"]
  show ?thesis
  proof (cases ?prep)
    case (Inl f)
    with prep call have "fail_or_panic ops (map_failure AttentionFailed f) eng = (r, eng')"
      by (simp add: run_plan_def Let_def)
    then show ?thesis using fail_or_panic_safe [OF safe] by blast
  next
    case (Inr prepared)
    let ?eng = "eng\<lparr>eng_ctx := bound_to ?ep (holding (eng_ctx eng) prepared)\<rparr>"
    obtain x eng1 where x: "execute_in_scope ops plan ?eng = (x, eng1)" by force
    have safe1: "engine_safe eng1"
      using execute_in_scope_idle [OF idle Inr x] safe by (simp add: engine_safe_def)
    have run: "(r, eng') = (case x of Inl f \<Rightarrow> fail_or_panic ops f eng1
        | Inr (result, logits) \<Rightarrow> apply_execution ops result eng1)"
      using call prep Inr scope_idle(1) [OF idle Inr] x by (simp add: run_plan_def Let_def)
    show ?thesis
    proof (cases x)
      case (Inl f)
      then have "fail_or_panic ops f eng1 = (r, eng')" using run by simp
      then show ?thesis using fail_or_panic_safe [OF safe1] by blast
    next
      case (Inr p)
      then have "apply_execution ops (fst p) eng1 = (r, eng')" using run by (simp add: split_beta)
      then show ?thesis by (rule apply_execution_safe [OF safe1])
    qed
  qed
qed

lemma engine_step_safe:
  assumes safe: "engine_safe eng" and call: "engine_step ops eng = (r, eng')"
  shows "engine_safe eng'"
proof -
  obtain pr sch kv where p: "plan_step (block_hasher ops) (eng_scheduler eng) (eng_kv eng) = (pr, sch, kv)"
    by (metis prod.exhaust)
  let ?eng = "eng\<lparr>eng_scheduler := sch, eng_kv := kv\<rparr>"
  have "sched_inv (eng_scheduler eng) (eng_kv eng)" using safe by (simp add: engine_safe_def)
  from plan_step_inv [OF this p] safe have safe1: "engine_safe ?eng" by (simp add: engine_safe_def)
  show ?thesis
  proof (cases pr)
    case (Inl f)
    have "fail_or_panic ops (map_failure PlanFailed f) ?eng = (r, eng')"
      using call p Inl by (cases f) (simp_all add: engine_step_def)
    then show ?thesis using fail_or_panic_safe [OF safe1] by blast
  next
    case (Inr o_plan)
    then show ?thesis using call p safe1 run_plan_safe [OF safe1]
      by (cases o_plan) (auto simp: engine_step_def)
  qed
qed

section \<open>Admission of a call\<close>

text \<open>What the callers of \<open>add_requests\<close> check before: prompts that are not empty, a positive
  number of tokens, and lengths that do not overflow.\<close>

definition admissible :: "token list \<times> sampling_params \<Rightarrow> bool" where
  "admissible q \<longleftrightarrow> fst q \<noteq> [] \<and> 0 < max_tokens (snd q) \<and> length (fst q) + max_tokens (snd q) < usize_bound"

fun new_sequences :: "nat \<Rightarrow> nat \<Rightarrow> (token list \<times> sampling_params) list \<Rightarrow> sequence list" where
  "new_sequences rid sid [] = []"
| "new_sequences rid sid ((prompt, ps) # rs) = seq_new rid sid prompt ps # new_sequences (rid + 1) (sid + 1) rs"

lemma new_sequences_length [simp]: "length (new_sequences rid sid rs) = length rs"
  by (induction rid sid rs rule: new_sequences.induct) simp_all

lemma new_sequences_ids: "map request_id (new_sequences rid sid rs) = [rid ..< rid + length rs]"
  by (induction rid sid rs rule: new_sequences.induct) (simp_all add: seq_new_def upt_rec)

lemma admit_requests_eq:
  "admit_requests sch rs = ([next_request_id sch ..< next_request_id sch + length rs],
     sch\<lparr>next_seq_id := next_seq_id sch + length rs, next_request_id := next_request_id sch + length rs,
         waiting := waiting sch @ new_sequences (next_request_id sch) (next_seq_id sch) rs\<rparr>)"
proof (induction sch rs rule: admit_requests.induct)
  case (1 sch)
  then show ?case by simp
next
  case (2 sch prompt ps rs)
  then show ?case by (simp add: add_request_def Let_def upt_rec)
qed

lemma admit_requests_inv:
  assumes "sched_inv sch kv" "\<forall>q \<in> set rs. admissible q" "length (queue sch) + length rs < usize_bound"
  shows "sched_inv (snd (admit_requests sch rs)) kv"
  using assms
proof (induction sch rs rule: admit_requests.induct)
  case (1 sch)
  then show ?case by simp
next
  case (2 sch prompt ps rs)
  obtain rid sch1 where a: "add_request sch prompt ps = (rid, sch1)" by force
  have "sched_inv (snd (add_request sch prompt ps)) kv"
    using 2 by (intro sched_inv_add_request) (auto simp: admissible_def)
  moreover have "length (queue sch1) = length (queue sch) + 1"
    using a by (auto simp: add_request_def queue_def Let_def)
  ultimately have "sched_inv (snd (admit_requests sch1 rs)) kv"
    using 2(1) [OF a [symmetric]] 2(3,4) a by simp
  then show ?case using a by (simp add: split_beta)
qed

lemma add_requests_ok:
  assumes "engine_inv eng" "eng_queue eng = []" "rs \<noteq> []" "\<forall>q \<in> set rs. admissible q" "length rs < usize_bound"
  shows "\<exists>eng'. add_requests ops rs eng = (Ok [next_request_id (eng_scheduler eng) ..<
        next_request_id (eng_scheduler eng) + length rs], eng')
    \<and> engine_inv eng' \<and> eng_kv eng' = eng_kv eng
    \<and> eng_queue eng' = new_sequences (next_request_id (eng_scheduler eng)) (next_seq_id (eng_scheduler eng)) rs
    \<and> limits (eng_scheduler eng') = limits (eng_scheduler eng)"
proof -
  have q: "running (eng_scheduler eng) = []" "waiting (eng_scheduler eng) = []"
    using assms(2) by (simp_all add: eng_queue_def queue_def)
  have "sched_inv (snd (admit_requests (eng_scheduler eng) rs)) (eng_kv eng)"
    using assms by (intro admit_requests_inv) (auto simp: engine_inv_def eng_queue_def)
  then show ?thesis using assms q
    by (auto simp: add_requests_def engine_is_running_def is_running_def admit_requests_eq engine_inv_def eng_queue_def queue_def limits_def)
qed

section \<open>A concrete engine\<close>

text \<open>A model whose hidden rows are its input tokens and a sampler that answers with a fixed token
  per row: the parameters of the witnesses.\<close>

definition demo_ops :: "(nat, nat, token list) engine_ops" where
  "demo_ops = \<lparr>begin_generation = (\<lambda>n m. n), end_generation = (\<lambda>m. 0),
     model_forward = (\<lambda>x pos ctx m. (Ok x, m)), compute_logits = (\<lambda>m x. Ok x), lm_vocab_size = (\<lambda>m. 100),
     tensor_from_vec = (\<lambda>v. Ok v), empty_logits = Ok [],
     tensor_row = (\<lambda>x i. if i < length x then Ok [x ! i] else Error (ExecutionFailed ''row'')),
     stack_rows = (\<lambda>rows. Ok (concat rows)), to_f32 = (\<lambda>x. Ok x),
     sampler_forward = (\<lambda>x ps hs s. (Ok (map (\<lambda>_. 5) ps), s + 1)), tokens_to_host = (\<lambda>x. Ok x),
     upload_metadata = (\<lambda>_. Ok ()), block_hasher = (\<lambda>_. 0)\<rparr>"

text \<open>The same engine with a model that panics.\<close>

definition panicking_ops :: "(nat, nat, token list) engine_ops" where
  "panicking_ops = demo_ops\<lparr>model_forward := (\<lambda>x pos ctx m. (Panicked, m))\<rparr>"

definition demo_engine :: "(nat, nat, token list) engine_core" where
  "demo_engine = \<lparr>eng_scheduler = demo_sched, eng_kv = demo_kv, eng_model = 1, eng_sampler = 0,
     eng_ctx = context_new (deferred \<lparr>geo_num_layers = 1, geo_block_size = 256, geo_num_kv_heads = 1,
       geo_head_dim = 8, geo_dtype = F32\<rparr>)\<rparr>"

lemma demo_ops_no_panic: "ops_no_panic demo_ops"
  by (simp add: ops_no_panic_def demo_ops_def)

lemma demo_engine_inv: "engine_inv demo_engine"
  using demo_sched_inv
  by (simp add: engine_inv_def demo_engine_def demo_sched_simps is_idle_def context_new_def default_attention_state_def)

section \<open>Properties\<close>



text \<open>C12: a step is unwind-safe. Whatever the model, the tensor library and the sampler do, panics
  included, after the step the attention context is idle and the scheduler and the cache still
  satisfy the scheduler invariant; and when a panic left a plan in flight, the next step does
  not run on it: it fails, releases every request and block, and restores the engine invariant.\<close>

theorem engine_step_unwinds:
  assumes "engine_safe eng" "engine_step ops eng = (r, eng')"
  shows "is_idle (eng_ctx eng') \<and> \<not> runtime_poisoned (eng_ctx eng')
    \<and> sched_inv (eng_scheduler eng') (eng_kv eng')
    \<and> (\<forall>plan. in_flight (eng_scheduler eng') = Some plan \<longrightarrow>
        (\<exists>eng''. engine_step ops eng' = (Error (PlanFailed (PlanAlreadyInFlight (plan_id plan))), eng'')
           \<and> engine_inv eng'' \<and> drained eng''))"
proof -
  note safe = engine_step_safe [OF assms]
  have "\<exists>eng''. engine_step ops eng' = (Error (PlanFailed (PlanAlreadyInFlight (plan_id plan))), eng'')
      \<and> engine_inv eng'' \<and> drained eng''"
    if fly: "in_flight (eng_scheduler eng') = Some plan" for plan
  proof -
    have "plan_step (block_hasher ops) (eng_scheduler eng') (eng_kv eng')
        = (Error (PlanAlreadyInFlight (plan_id plan)), eng_scheduler eng', eng_kv eng')"
      using fly by (simp add: plan_step_def)
    then have step: "engine_step ops eng' = cleanup_failed_step ops (PlanFailed (PlanAlreadyInFlight (plan_id plan))) eng'"
      by (simp add: engine_step_def fail_or_panic_def)
    obtain r2 eng'' where c: "cleanup_failed_step ops (PlanFailed (PlanAlreadyInFlight (plan_id plan))) eng'
        = (r2 :: (engine_error, request_output list) outcome, eng'')" by force
    from cleanup_clean [OF _ _ _ c] safe step c show ?thesis
      by (auto simp: engine_safe_def failed_clean_def)
  qed
  then show ?thesis using safe by (simp add: engine_safe_def)
qed

theorem engine_step_unwinds_witness:
  "\<exists>r eng'. engine_step panicking_ops demo_engine = (r, eng') \<and> is_idle (eng_ctx eng')
     \<and> sched_inv (eng_scheduler eng') (eng_kv eng')"
proof -
  obtain r eng' where s: "engine_step panicking_ops demo_engine = (r, eng')" by force
  have "engine_safe demo_engine" using demo_engine_inv by (simp add: engine_inv_safe)
  from engine_step_unwinds [OF this s] s show ?thesis by blast
qed

text \<open>a call is admitted whole or not at all. It is refused without a change while requests are
  running or when it is empty; otherwise its requests receive consecutive fresh ids in input
  order, wait in that order behind no one, and the engine invariant holds for them.\<close>

theorem add_requests_admits:
  assumes "engine_inv eng" "\<forall>q \<in> set rs. admissible q" "length rs < usize_bound"
  shows "if engine_is_running eng then add_requests ops rs eng = (Error RequestsRunning, eng)
    else if rs = [] then add_requests ops rs eng = (Error EmptyGenerationCall, eng)
    else \<exists>eng'. add_requests ops rs eng = (Ok [next_request_id (eng_scheduler eng) ..<
          next_request_id (eng_scheduler eng) + length rs], eng')
      \<and> engine_inv eng' \<and> eng_kv eng' = eng_kv eng
      \<and> map request_id (eng_queue eng') = [next_request_id (eng_scheduler eng) ..< next_request_id (eng_scheduler eng) + length rs]
      \<and> map token_ids (eng_queue eng') = map fst rs \<and> map params (eng_queue eng') = map snd rs"
proof -
  have seqs: "map token_ids (new_sequences rid sid rs) = map fst rs"
    "map params (new_sequences rid sid rs) = map snd rs" for rid sid
    by (induction rid sid rs rule: new_sequences.induct) (simp_all add: seq_new_def)
  have "eng_queue eng = []" if "\<not> engine_is_running eng"
    using that by (simp add: engine_is_running_def is_running_def eng_queue_def queue_def)
  then show ?thesis
    using add_requests_ok [OF assms(1) _ _ assms(2,3), of ops] new_sequences_ids seqs
    by (auto simp: add_requests_def)
qed

theorem add_requests_admits_witness:
  "\<exists>eng'. add_requests demo_ops [([1, 2], default_sampling_params), ([3], default_sampling_params)]
      (demo_engine\<lparr>eng_scheduler := new_with_eos_token_ids 64 4 [0]\<rparr>) = (Ok [0, 1], eng') \<and> engine_inv eng'"
proof -
  let ?eng = "demo_engine\<lparr>eng_scheduler := new_with_eos_token_ids 64 4 [0]\<rparr>"
  have "engine_inv ?eng" using sched_inv_new [of 64 4 "[0]" 4] demo_engine_inv
    by (simp add: engine_inv_def demo_engine_def demo_kv_def new_with_eos_token_ids_def)
  from add_requests_admits [OF this, of "[([1, 2], default_sampling_params), ([3], default_sampling_params)]" demo_ops]
  show ?thesis
    by (auto simp: admissible_def default_sampling_params_def usize_bound_def engine_is_running_def is_running_def
        new_with_eos_token_ids_def upt_rec)
qed

end
