(* ===== verification/Initialization.thy ===== *)
theory Initialization
  imports Device_Float Engine_Safety Plan_Safety Loader
begin

text \<open>
  \<^verbatim>\<open>llm/initialization.rs\<close> and the options of \<^verbatim>\<open>llm.rs\<close>: sizing the cache from the free device
  memory, its one allocation, the compute limits of the attention context, and the warmup, which
  runs a prefill and a decode step on the model before any request is admitted.

  The tensor operations that only the initialization uses extend the record of parameters. A panic
  while the cache lock is held poisons it; a failed warmup step drops its guards in reverse order.
\<close>

section \<open>Options\<close>

record engine_options =
  opt_max_num_batched_tokens :: nat
  opt_max_num_seqs :: nat
  opt_max_model_len :: nat
  opt_gpu_memory_utilization :: f32
  opt_enforce_eager :: bool
  opt_dtype :: "dtype option"

text \<open>The single-precision number nearest to 0.9.\<close>

definition DEFAULT_GPU_MEMORY_UTILIZATION :: f32 where
  "DEFAULT_GPU_MEMORY_UTILIZATION = F32_Finite (15099494 / 16777216)"

definition default_engine_options :: engine_options where
  "default_engine_options = \<lparr>opt_max_num_batched_tokens = DEFAULT_MAX_NUM_BATCHED_TOKENS,
     opt_max_num_seqs = DEFAULT_MAX_NUM_SEQS, opt_max_model_len = 4096,
     opt_gpu_memory_utilization = DEFAULT_GPU_MEMORY_UTILIZATION, opt_enforce_eager = True, opt_dtype = None\<rparr>"

datatype init_error =
    EagerRequired
  | OptionZero string
  | ModelLenTooSmall
  | UtilizationOutOfRange f32
  | OptionDtype loader_error
  | CacheDtypeUnsupported dtype
  | GeometryZero string
  | BytesPerBlockOverflow
  | BudgetLimiting nat nat nat nat nat
  | CacheLockPoisoned
  | CacheAllocationFailed nat nat nat attention_error
  | LimitsRejected attention_error
  | WarmupNeedsToken
  | WarmupDoesNotFit string nat
  | CacheSlotsOverflow
  | ContextLengthOverflow
  | CacheCapacityLimiting nat nat
  | WarmupPreparing attention_epoch attention_error
  | WarmupBinding attention_epoch attention_error
  | WarmupExecution attention_epoch engine_error
  | WarmupRows attention_epoch nat nat
  | WarmupDtype attention_epoch dtype dtype
  | WarmupLogitsShape attention_epoch nat "nat list"
  | WarmupUnbinding attention_epoch attention_error
  | WarmupReleasing attention_epoch attention_error
  | DeviceFailed engine_error

definition utilization_ok :: "f32 \<Rightarrow> bool" where
  "utilization_ok u = (\<not> (\<not> f32_is_finite u \<or> \<not> f32_in_range 0 1 u \<or> f32_eq u (F32_Finite 0)))"

definition validate_options :: "engine_options \<Rightarrow> (init_error, unit) outcome" where
  "validate_options opts =
     (if \<not> opt_enforce_eager opts then Error EagerRequired
      else case find (\<lambda>(name, value). value = 0)
          [(''max_num_batched_tokens'', opt_max_num_batched_tokens opts), (''max_num_seqs'', opt_max_num_seqs opts)] of
        Some (name, _) \<Rightarrow> Error (OptionZero name)
      | None \<Rightarrow>
          if opt_max_model_len opts < 2 then Error ModelLenTooSmall
          else if \<not> utilization_ok (opt_gpu_memory_utilization opts)
          then Error (UtilizationOutOfRange (opt_gpu_memory_utilization opts))
          else (case opt_dtype opts of
              None \<Rightarrow> Ok ()
            | Some dt \<Rightarrow> rbind (map_err OptionDtype (validate_model_dtype dt ''requested dtype'')) (\<lambda>_. Ok ())))"

section \<open>The cache budget\<close>

record kv_cache_plan =
  plan_bytes_per_block :: nat
  plan_pool_bytes :: nat
  plan_num_blocks :: nat

fun try_product :: "nat \<Rightarrow> nat list \<Rightarrow> nat option" where
  "try_product acc [] = Some acc"
| "try_product acc (n # ns) = (case checked_mul acc n of None \<Rightarrow> None | Some m \<Rightarrow> try_product m ns)"

text \<open>The finite fraction behind an accepted utilization.\<close>

fun f32_value :: "f32 \<Rightarrow> rat" where
  "f32_value (F32_Finite r) = r"
| "f32_value _ = 0"

definition from_budget ::
    "(dtype \<Rightarrow> nat) \<Rightarrow> cache_geometry \<Rightarrow> nat \<Rightarrow> f32 \<Rightarrow> nat \<Rightarrow> (init_error, kv_cache_plan) outcome" where
  "from_budget size_in_bytes g available utilization max_len =
     (if \<not> utilization_ok utilization then Error (UtilizationOutOfRange utilization)
      else if \<not> (geo_dtype g = BF16 \<or> geo_dtype g = F16) then Error (CacheDtypeUnsupported (geo_dtype g))
      else case find (\<lambda>(name, value). value = 0)
          [(''num_layers'', geo_num_layers g), (''block_size'', geo_block_size g),
           (''num_kv_heads'', geo_num_kv_heads g), (''head_dim'', geo_head_dim g)] of
        Some (name, _) \<Rightarrow> Error (GeometryZero name)
      | None \<Rightarrow>
          (case try_product 1 [2, geo_num_layers g, geo_block_size g, geo_num_kv_heads g, geo_head_dim g,
                size_in_bytes (geo_dtype g)] of
             None \<Rightarrow> Error BytesPerBlockOverflow
           | Some bytes \<Rightarrow>
               let pool = f64_as_usize (f64_round (f64_round (of_nat available) * f32_value utilization)) in
               if bytes = 0 then Panicked
               else let blocks = pool div bytes; required = div_ceil max_len (geo_block_size g) in
                 if blocks < required then Error (BudgetLimiting pool blocks max_len required bytes)
                 else Ok \<lparr>plan_bytes_per_block = bytes, plan_pool_bytes = pool, plan_num_blocks = blocks\<rparr>))"

record ('m, 's, 't) device_ops = "('m, 's, 't) engine_ops" +
  size_in_bytes :: "dtype \<Rightarrow> nat"
  cache_zeros :: "nat list \<Rightarrow> dtype \<Rightarrow> (attention_error, 't) outcome"
  input_zeros :: "nat \<Rightarrow> (engine_error, 't) outcome"
  dim0 :: "'t \<Rightarrow> (engine_error, nat) outcome"
  tensor_dims :: "'t \<Rightarrow> nat list"
  dtype_of :: "'t \<Rightarrow> dtype"
  unsqueeze0 :: "'t \<Rightarrow> (engine_error, 't) outcome"
  device_synchronize :: "(engine_error, unit) outcome"
  cuda_mem_info :: "(engine_error, nat \<times> nat) outcome"

definition allocate_kv_cache ::
    "('m, 's, 't, 'z) device_ops_scheme \<Rightarrow> nat \<Rightarrow> f32 \<Rightarrow> nat \<Rightarrow> 't attention_context \<Rightarrow>
      (init_error, kv_cache_plan) outcome \<times> 't attention_context" where
  "allocate_kv_cache ops available utilization max_len ctx =
     (if kv_poisoned ctx then (Error CacheLockPoisoned, ctx)
      else case from_budget (size_in_bytes ops) (geometry (paged_kv ctx)) available utilization max_len of
        Inl Panic \<Rightarrow> (Panicked, ctx\<lparr>kv_poisoned := True\<rparr>)
      | Inl (Err e) \<Rightarrow> (Error e, ctx)
      | Inr plan \<Rightarrow>
          (case cache_allocate (cache_zeros ops) (plan_num_blocks plan) (paged_kv ctx) of
             (Inl Panic, kvc) \<Rightarrow> (Panicked, ctx\<lparr>paged_kv := kvc, kv_poisoned := True\<rparr>)
           | (Inl (Err e), kvc) \<Rightarrow>
               (Error (CacheAllocationFailed (plan_num_blocks plan) (plan_num_blocks plan * plan_bytes_per_block plan)
                  (plan_pool_bytes plan) e), ctx\<lparr>paged_kv := kvc\<rparr>)
           | (Inr _, kvc) \<Rightarrow> (Ok plan, ctx\<lparr>paged_kv := kvc\<rparr>)))"

section \<open>Warmup\<close>

definition to_u32 :: "string \<Rightarrow> nat \<Rightarrow> (init_error, 32 word) outcome" where
  "to_u32 what n = (if n < 2 ^ 32 then Ok (word_of_nat n) else Error (WarmupDoesNotFit what n))"

definition to_i64 :: "string \<Rightarrow> nat \<Rightarrow> (init_error, int) outcome" where
  "to_i64 what n = (if n < 2 ^ 63 then Ok (int n) else Error (WarmupDoesNotFit what n))"

definition to_i32 :: "string \<Rightarrow> nat \<Rightarrow> (init_error, int) outcome" where
  "to_i32 what n = (if n < 2 ^ 31 then Ok (int n) else Error (WarmupDoesNotFit what n))"

text \<open>The model's part of a warmup step: hidden rows, their dtype, and the logits of the last row.\<close>

definition warmup_forward ::
    "('m, 's, 't, 'z) device_ops_scheme \<Rightarrow> attention_epoch \<Rightarrow> dtype \<Rightarrow> 't \<Rightarrow> 't \<Rightarrow> 't attention_context \<Rightarrow> 'm \<Rightarrow>
      (init_error, unit) outcome \<times> 'm" where
  "warmup_forward ops epoch cache_dtype ids pos ctx m =
     (case map_err (WarmupExecution epoch) (dim0 ops ids) of
        Inl e \<Rightarrow> (Inl e, m)
      | Inr expected \<Rightarrow>
          (case model_forward ops ids pos ctx m of
             (Inl e, m') \<Rightarrow> (map_err (WarmupExecution epoch) (Inl e), m')
           | (Inr hidden, m') \<Rightarrow>
               (rbind (map_err (WarmupExecution epoch) (dim0 ops hidden)) (\<lambda>rows.
                  if rows \<noteq> expected then Error (WarmupRows epoch expected rows)
                  else if dtype_of ops hidden \<noteq> cache_dtype then Error (WarmupDtype epoch (dtype_of ops hidden) cache_dtype)
                  else if expected = 0 then Panicked
                  else rbind (map_err (WarmupExecution epoch) (rbind (tensor_row ops hidden (expected - 1)) (unsqueeze0 ops))) (\<lambda>final_row.
                       rbind (map_err (WarmupExecution epoch) (compute_logits ops m' final_row)) (\<lambda>logits.
                       if tensor_dims ops logits \<noteq> [1, lm_vocab_size ops m']
                       then Error (WarmupLogitsShape epoch (lm_vocab_size ops m') (tensor_dims ops logits))
                       else Ok ()))), m')))"

definition warmup_step ::
    "('m, 's, 't, 'z) device_ops_scheme \<Rightarrow> attention_epoch \<Rightarrow> attn_metadata \<Rightarrow> dtype \<Rightarrow> 't \<Rightarrow> 't \<Rightarrow>
      't attention_context \<Rightarrow> 'm \<Rightarrow> (init_error, unit) outcome \<times> 't attention_context \<times> 'm" where
  "warmup_step ops epoch md cache_dtype ids pos ctx m =
     (case prepare (upload_metadata ops) epoch md ctx of
        (Inl e, ctx1) \<Rightarrow> (map_err (WarmupPreparing epoch) (Inl e), ctx1, m)
      | (Inr _, ctx1) \<Rightarrow>
          (case bind_consumer epoch ctx1 of
             (Inl e, ctx2) \<Rightarrow> (map_err (WarmupBinding epoch) (Inl e), drop_step epoch ctx2, m)
           | (Inr _, ctx2) \<Rightarrow>
               (case warmup_forward ops epoch cache_dtype ids pos ctx2 m of
                  (Inl e, m') \<Rightarrow> (Inl e, drop_step epoch (drop_consumer epoch ctx2), m')
                | (Inr _, m') \<Rightarrow>
                    (case finish_consumer epoch ctx2 of
                       (Inl e, ctx3) \<Rightarrow> (map_err (WarmupUnbinding epoch) (Inl e), drop_step epoch ctx3, m')
                     | (Inr _, ctx3) \<Rightarrow>
                         (case finish_step epoch ctx3 of
                            (r, ctx4) \<Rightarrow> (map_err (WarmupReleasing epoch) r, ctx4, m'))))))"

text \<open>The shapes of the two warmup steps: metadata, input tensors and the cache dtype.\<close>

definition warmup_shapes ::
    "nat \<Rightarrow> 't attention_context \<Rightarrow> (init_error, 32 word list \<times> attn_metadata \<times> 32 word \<times> attn_metadata) outcome" where
  "warmup_shapes n ctx =
     (if n = 0 then Error WarmupNeedsToken
      else rbind (to_u32 ''tokens'' n) (\<lambda>n32.
        rbind (rcollect (to_u32 ''positions'') [0..<n]) (\<lambda>positions.
        rbind (rcollect (to_i64 ''slot mapping'') [0..<n]) (\<lambda>slots.
        if kv_poisoned ctx then Error CacheLockPoisoned
        else let bs = geo_block_size (geometry (paged_kv ctx)) in
          (case checked_mul (cache_num_blocks (paged_kv ctx)) bs of
             None \<Rightarrow> Error CacheSlotsOverflow
           | Some cache_slots \<Rightarrow>
               (case checked_add n 1 of
                  None \<Rightarrow> Error ContextLengthOverflow
                | Some context_tokens \<Rightarrow>
                    if cache_slots < context_tokens then Error (CacheCapacityLimiting context_tokens cache_slots)
                    else rbind (to_u32 ''context tokens'' context_tokens) (\<lambda>c32.
                         rbind (to_i64 ''decode slot'' n) (\<lambda>decode_slot.
                         if bs = 0 then Panicked
                         else rbind (rcollect (to_i32 ''block table'') [0..<div_ceil context_tokens bs]) (\<lambda>blocks.
                         Ok (positions, build_prefill_metadata [n32] [n32] slots, n32,
                             build_decode_metadata [c32] [blocks] [decode_slot]))))))))))"

definition warmup_model ::
    "('m, 's, 't, 'z) device_ops_scheme \<Rightarrow> nat \<Rightarrow> 't attention_context \<Rightarrow> 'm \<Rightarrow>
      (init_error, unit) outcome \<times> 't attention_context \<times> 'm" where
  "warmup_model ops n ctx m =
     (case rbind (warmup_shapes n ctx) (\<lambda>(positions, prefill_md, n32, decode_md).
           map_err DeviceFailed
             (rbind (input_zeros ops n) (\<lambda>ids.
              rbind (tensor_from_vec ops positions) (\<lambda>pos.
              rbind (input_zeros ops 1) (\<lambda>decode_ids.
              rbind (tensor_from_vec ops [n32]) (\<lambda>decode_pos.
              Ok (ids, pos, prefill_md, decode_ids, decode_pos, decode_md))))))) of
        Inl e \<Rightarrow> (Inl e, ctx, m)
      | Inr (ids, pos, prefill_md, decode_ids, decode_pos, decode_md) \<Rightarrow>
          let dt = geo_dtype (geometry (paged_kv ctx)) in
          (case warmup_step ops WarmupPrefill prefill_md dt ids pos ctx m of
             (Inl e, ctx1, m1) \<Rightarrow> (Inl e, ctx1, m1)
           | (Inr _, ctx1, m1) \<Rightarrow>
               (case warmup_step ops WarmupDecode decode_md dt decode_ids decode_pos ctx1 m1 of
                  (Inl e, ctx2, m2) \<Rightarrow> (Inl e, ctx2, m2)
                | (Inr _, ctx2, m2) \<Rightarrow> (map_err DeviceFailed (device_synchronize ops), ctx2, m2))))"

section \<open>Initialization\<close>

record kv_cache_allocation =
  alloc_free_bytes :: nat
  alloc_total_bytes :: nat
  alloc_bytes_per_block :: nat
  alloc_pool_bytes :: nat
  alloc_num_blocks :: nat
  alloc_warmup_prefill_tokens :: nat

definition initialize_with_memory ::
    "('m, 's, 't, 'z) device_ops_scheme \<Rightarrow> nat \<times> nat \<Rightarrow> engine_options \<Rightarrow> 't attention_context \<Rightarrow> 'm \<Rightarrow>
      (init_error, kv_cache_allocation) outcome \<times> 't attention_context \<times> 'm" where
  "initialize_with_memory ops memory opts ctx m =
     (let n = min (opt_max_num_batched_tokens opts) (opt_max_model_len opts - 1) in
      case allocate_kv_cache ops (fst memory) (opt_gpu_memory_utilization opts) (opt_max_model_len opts) ctx of
        (Inl e, ctx1) \<Rightarrow> (Inl e, ctx1, m)
      | (Inr plan, ctx1) \<Rightarrow>
          let remaining = fst memory - plan_num_blocks plan * plan_bytes_per_block plan in
          (case set_compute_limits (opt_max_num_batched_tokens opts) (remaining div 2) ctx1 of
             (Inl e, ctx2) \<Rightarrow> (map_err LimitsRejected (Inl e), ctx2, m)
           | (Inr _, ctx2) \<Rightarrow>
               (case warmup_model ops n ctx2 m of
                  (Inl e, ctx3, m3) \<Rightarrow> (Inl e, ctx3, m3)
                | (Inr _, ctx3, m3) \<Rightarrow>
                    (Ok \<lparr>alloc_free_bytes = fst memory, alloc_total_bytes = snd memory,
                       alloc_bytes_per_block = plan_bytes_per_block plan, alloc_pool_bytes = plan_pool_bytes plan,
                       alloc_num_blocks = plan_num_blocks plan, alloc_warmup_prefill_tokens = n\<rparr>, ctx3, m3))))"

definition initialize_model ::
    "('m, 's, 't, 'z) device_ops_scheme \<Rightarrow> engine_options \<Rightarrow> 't attention_context \<Rightarrow> 'm \<Rightarrow>
      (init_error, kv_cache_allocation) outcome \<times> 't attention_context \<times> 'm" where
  "initialize_model ops opts ctx m =
     (case map_err DeviceFailed (rbind (device_synchronize ops) (\<lambda>_. cuda_mem_info ops)) of
        Inl e \<Rightarrow> (Inl e, ctx, m)
      | Inr memory \<Rightarrow> initialize_with_memory ops memory opts ctx m)"

section \<open>The budget is respected\<close>

lemma try_product_Some:
  "try_product acc ns = Some m \<Longrightarrow> acc < usize_bound \<Longrightarrow> m = acc * prod_list ns \<and> m < usize_bound"
proof (induction ns arbitrary: acc)
  case (Cons n ns)
  then obtain a where "checked_mul acc n = Some a" "try_product a ns = Some m" by (auto split: option.splits)
  then have "a = acc * n \<and> a < usize_bound" "try_product a ns = Some m"
    by (auto simp: checked_mul_def split: if_splits)
  then show ?case using Cons.IH [of a] by simp
qed simp

lemma utilization_fraction: "utilization_ok u \<Longrightarrow> 0 < f32_value u \<and> f32_value u \<le> 1"
  by (cases u) (auto simp: utilization_ok_def f32_in_range_def f32_le_def f32_eq_def)

lemma from_budget_Ok:
  assumes "from_budget sz g available u len = Ok plan"
  shows "utilization_ok u" "0 < geo_num_layers g" "0 < geo_block_size g" "0 < geo_num_kv_heads g" "0 < geo_head_dim g"
    "plan_bytes_per_block plan = 2 * geo_num_layers g * geo_block_size g * geo_num_kv_heads g * geo_head_dim g * sz (geo_dtype g)"
    "0 < plan_bytes_per_block plan" "plan_bytes_per_block plan < usize_bound"
    "plan_pool_bytes plan = f64_as_usize (f64_round (f64_round (of_nat available) * f32_value u))"
    "plan_num_blocks plan = plan_pool_bytes plan div plan_bytes_per_block plan"
    "div_ceil len (geo_block_size g) \<le> plan_num_blocks plan"
proof -
  have one: "(1 :: nat) < usize_bound" by (simp add: usize_bound_def)
  let ?ns = "[2, geo_num_layers g, geo_block_size g, geo_num_kv_heads g, geo_head_dim g, sz (geo_dtype g)]"
  obtain bytes where b: "try_product 1 ?ns = Some bytes"
    "plan = \<lparr>plan_bytes_per_block = bytes, plan_pool_bytes = f64_as_usize (f64_round (f64_round (of_nat available) * f32_value u)),
       plan_num_blocks = f64_as_usize (f64_round (f64_round (of_nat available) * f32_value u)) div bytes\<rparr>"
    "bytes \<noteq> 0" "div_ceil len (geo_block_size g) \<le> f64_as_usize (f64_round (f64_round (of_nat available) * f32_value u)) div bytes"
    using assms by (auto simp: from_budget_def Let_def simp del: try_product.simps split: if_splits option.splits)
  show "utilization_ok u" "0 < geo_num_layers g" "0 < geo_block_size g" "0 < geo_num_kv_heads g" "0 < geo_head_dim g"
    using assms by (auto simp: from_budget_def Let_def simp del: try_product.simps split: if_splits option.splits)
  show "plan_bytes_per_block plan = 2 * geo_num_layers g * geo_block_size g * geo_num_kv_heads g * geo_head_dim g * sz (geo_dtype g)"
    "plan_bytes_per_block plan < usize_bound"
    using try_product_Some [OF b(1) one] by (simp_all add: b(2) algebra_simps)
  show "0 < plan_bytes_per_block plan" "div_ceil len (geo_block_size g) \<le> plan_num_blocks plan"
    "plan_pool_bytes plan = f64_as_usize (f64_round (f64_round (of_nat available) * f32_value u))"
    "plan_num_blocks plan = plan_pool_bytes plan div plan_bytes_per_block plan"
    using b(2-4) by simp_all
qed

lemma from_budget_capacity:
  assumes "from_budget sz g available u len = Ok plan"
  shows "len \<le> plan_num_blocks plan * geo_block_size g"
    "plan_num_blocks plan * plan_bytes_per_block plan \<le> plan_pool_bytes plan"
    "available < 2 ^ 53 \<Longrightarrow> plan_pool_bytes plan \<le> available"
proof -
  note b = from_budget_Ok [OF assms]
  show "len \<le> plan_num_blocks plan * geo_block_size g" using b(3,11) by (simp add: div_ceil_le_iff)
  show "plan_num_blocks plan * plan_bytes_per_block plan \<le> plan_pool_bytes plan" by (simp add: b(10))
  show "plan_pool_bytes plan \<le> available" if "available < 2 ^ 53"
    using f64_fraction_le [OF that] utilization_fraction [OF b(1)] by (simp add: b(9))
qed

section \<open>The context stays idle\<close>

lemma drop_scope:
  assumes "is_idle ctx" "\<not> runtime_poisoned ctx" "preparation upload epoch md ctx = Ok prepared"
  shows "drop_consumer epoch (bound_to epoch (holding ctx prepared)) = holding ctx prepared"
    "drop_step epoch (holding ctx prepared) = completed ctx prepared"
    "finish_consumer epoch (bound_to epoch (holding ctx prepared)) = (Ok (), holding ctx prepared)"
    "finish_step epoch (holding ctx prepared) = (Ok (), completed ctx prepared)"
  using scope_idle(3,4) [OF assms]
  by (simp_all add: drop_consumer_def drop_step_def finish_consumer_def finish_step_def)

text \<open>A warmup step leaves the context as it was, up to its counters.\<close>

lemma warmup_step_context:
  assumes idle: "is_idle ctx" "\<not> runtime_poisoned ctx"
    and call: "warmup_step ops epoch md dt ids pos ctx m = (r, ctx', m')"
  shows "ctx' = ctx \<or> (\<exists>prepared. ctx' = completed ctx prepared)"
proof -
  note prep = prepare_idle [OF idle, of "upload_metadata ops" epoch md]
  show ?thesis
  proof (cases "preparation (upload_metadata ops) epoch md ctx")
    case (Inl e)
    then show ?thesis using call prep by (simp add: warmup_step_def)
  next
    case (Inr prepared)
    note sc = drop_scope [OF idle Inr] scope_idle(1) [OF idle Inr]
    obtain x m1 where f: "warmup_forward ops epoch dt ids pos (bound_to epoch (holding ctx prepared)) m = (x, m1)" by force
    have "ctx' = completed ctx prepared" using call prep Inr sc f by (cases x) (simp_all add: warmup_step_def)
    then show ?thesis by blast
  qed
qed

text \<open>What initialization never changes in a context, and an idle usable context.\<close>

definition usable :: "'t attention_context \<Rightarrow> bool" where
  "usable ctx \<longleftrightarrow> is_idle ctx \<and> \<not> runtime_poisoned ctx"

definition context_frame :: "'t attention_context \<Rightarrow> 't attention_context \<Rightarrow> bool" where
  "context_frame ctx ctx' \<longleftrightarrow> paged_kv ctx' = paged_kv ctx \<and> kv_poisoned ctx' = kv_poisoned ctx
     \<and> ctx_query_heads ctx' = ctx_query_heads ctx \<and> compute_limits (runtime ctx') = compute_limits (runtime ctx)"

lemma warmup_step_usable:
  assumes "usable ctx" "warmup_step ops epoch md dt ids pos ctx m = (r, ctx', m')"
  shows "usable ctx' \<and> context_frame ctx ctx'"
  using warmup_step_context [OF _ _ assms(2)] assms(1) completed_idle
  by (auto simp: usable_def context_frame_def)

lemma warmup_model_usable:
  assumes "usable ctx" "warmup_model ops n ctx m = (r, ctx', m')"
  shows "usable ctx' \<and> context_frame ctx ctx'"
proof -
  have refl: "usable ctx \<and> context_frame ctx ctx" using assms(1) by (simp add: context_frame_def)
  let ?inputs = "rbind (warmup_shapes n ctx) (\<lambda>(positions, prefill_md, n32, decode_md).
           map_err DeviceFailed
             (rbind (input_zeros ops n) (\<lambda>ids.
              rbind (tensor_from_vec ops positions) (\<lambda>pos.
              rbind (input_zeros ops 1) (\<lambda>decode_ids.
              rbind (tensor_from_vec ops [n32]) (\<lambda>decode_pos.
              Ok (ids, pos, prefill_md, decode_ids, decode_pos, decode_md)))))))"
  show ?thesis
  proof (cases ?inputs)
    case (Inl e)
    then show ?thesis using assms(2) refl by (simp add: warmup_model_def)
  next
    case (Inr inputs)
    obtain ids pos md ids' pos' md' where i: "inputs = (ids, pos, md, ids', pos', md')" by (metis prod.exhaust)
    let ?dt = "geo_dtype (geometry (paged_kv ctx))"
    obtain r1 c1 m1 where s1: "warmup_step ops WarmupPrefill md ?dt ids pos ctx m = (r1, c1, m1)" by (metis prod.exhaust)
    note u1 = warmup_step_usable [OF assms(1) s1]
    obtain r2 c2 m2 where s2: "warmup_step ops WarmupDecode md' ?dt ids' pos' c1 m1 = (r2, c2, m2)" by (metis prod.exhaust)
    note u2 = warmup_step_usable [OF conjunct1 [OF u1] s2]
    have "ctx' = c1 \<or> ctx' = c2"
      using assms(2) Inr i s1 s2 by (cases r1; cases r2) (simp_all add: warmup_model_def Let_def)
    then show ?thesis using u1 u2 by (auto simp: context_frame_def)
  qed
qed

text \<open>The state in which initialization leaves the context.\<close>

definition cache_ready :: "engine_options \<Rightarrow> nat \<Rightarrow> kv_cache_allocation \<Rightarrow> 't attention_context \<Rightarrow> 't attention_context \<Rightarrow> bool" where
  "cache_ready opts free a ctx ctx' \<longleftrightarrow>
     buffer (paged_kv ctx') \<noteq> None \<and> geometry (paged_kv ctx') = geometry (paged_kv ctx)
     \<and> cache_num_blocks (paged_kv ctx') = alloc_num_blocks a
     \<and> opt_max_model_len opts \<le> alloc_num_blocks a * geo_block_size (geometry (paged_kv ctx))
     \<and> 0 < geo_block_size (geometry (paged_kv ctx))
     \<and> alloc_num_blocks a * alloc_bytes_per_block a \<le> alloc_pool_bytes a
     \<and> (free < 2 ^ 53 \<longrightarrow> alloc_pool_bytes a \<le> free)
     \<and> compute_limits (runtime ctx') = Some (opt_max_num_batched_tokens opts, (free - alloc_num_blocks a * alloc_bytes_per_block a) div 2)"

lemma allocate_kv_cache_cases:
  assumes "allocate_kv_cache ops available u len ctx = (r, ctx')"
  shows "runtime ctx' = runtime ctx" "runtime_poisoned ctx' = runtime_poisoned ctx" "ctx_query_heads ctx' = ctx_query_heads ctx"
    "\<And>plan. r = Ok plan \<Longrightarrow> from_budget (size_in_bytes ops) (geometry (paged_kv ctx)) available u len = Ok plan
        \<and> buffer (paged_kv ctx) = None \<and> buffer (paged_kv ctx') \<noteq> None
        \<and> geometry (paged_kv ctx') = geometry (paged_kv ctx) \<and> cache_num_blocks (paged_kv ctx') = plan_num_blocks plan"
  using assms by (auto simp: allocate_kv_cache_def cache_allocate_def split: if_splits sum.splits failure.splits)

lemma set_compute_limits_idle:
  "usable ctx \<Longrightarrow> set_compute_limits q w ctx = (Ok (), ctx\<lparr>runtime := (runtime ctx)\<lparr>compute_limits := Some (q, w)\<rparr>\<rparr>)"
  by (simp add: usable_def set_compute_limits_def locked_def set_limits_section_def is_idle_def)

lemma initialize_spec:
  assumes "usable ctx" "initialize_with_memory ops memory opts ctx m = (r, ctx', m')"
  shows "usable ctx' \<and> (\<forall>a. r = Ok a \<longrightarrow> cache_ready opts (fst memory) a ctx ctx')"
proof -
  obtain ar c1 where a: "allocate_kv_cache ops (fst memory) (opt_gpu_memory_utilization opts) (opt_max_model_len opts) ctx = (ar, c1)"
    by force
  note al = allocate_kv_cache_cases [OF a]
  have u1: "usable c1" using assms(1) al(1,2) by (simp add: usable_def is_idle_def)
  show ?thesis
  proof (cases ar)
    case (Inl e)
    then show ?thesis using assms(2) a u1 by (auto simp: initialize_with_memory_def Let_def)
  next
    case (Inr plan)
    let ?w = "(fst memory - plan_num_blocks plan * plan_bytes_per_block plan) div 2"
    let ?c2 = "c1\<lparr>runtime := (runtime c1)\<lparr>compute_limits := Some (opt_max_num_batched_tokens opts, ?w)\<rparr>\<rparr>"
    have u2: "usable ?c2" using u1 by (simp add: usable_def is_idle_def)
    obtain wr c3 m3 where w: "warmup_model ops (min (opt_max_num_batched_tokens opts) (opt_max_model_len opts - 1)) ?c2 m = (wr, c3, m3)"
      by (metis prod.exhaust)
    note u3 = warmup_model_usable [OF u2 w]
    note plan = al(4) [OF Inr] and cap = from_budget_capacity [OF conjunct1 [OF al(4) [OF Inr]]]
    have bs: "0 < geo_block_size (geometry (paged_kv ctx))" using from_budget_Ok(3) plan by blast
    have "(r, ctx', m') = (case wr of Inl e \<Rightarrow> (Inl e, c3, m3) | Inr _ \<Rightarrow>
        (Ok \<lparr>alloc_free_bytes = fst memory, alloc_total_bytes = snd memory,
           alloc_bytes_per_block = plan_bytes_per_block plan, alloc_pool_bytes = plan_pool_bytes plan,
           alloc_num_blocks = plan_num_blocks plan,
           alloc_warmup_prefill_tokens = min (opt_max_num_batched_tokens opts) (opt_max_model_len opts - 1)\<rparr>, c3, m3))"
      using assms(2) a Inr set_compute_limits_idle [OF u1] w by (cases wr) (simp_all add: initialize_with_memory_def Let_def)
    then show ?thesis using u3 plan cap bs by (cases wr) (auto simp: cache_ready_def context_frame_def)
  qed
qed

lemma to_u32_Ok [simp]: "n < 2 ^ 32 \<Longrightarrow> to_u32 what n = Ok (word_of_nat n)"
  by (simp add: to_u32_def)

lemma warmup_shapes_Ok:
  assumes "warmup_shapes n ctx = Ok (positions, prefill_md, n32, decode_md)"
  shows "\<exists>slots blocks. 0 < n \<and> n + 1 < 2 ^ 32 \<and> n32 = word_of_nat n \<and> length slots = n
    \<and> n < cache_num_blocks (paged_kv ctx) * geo_block_size (geometry (paged_kv ctx))
    \<and> prefill_md = build_prefill_metadata [word_of_nat n] [word_of_nat n] slots
    \<and> decode_md = build_decode_metadata [word_of_nat (n + 1)] [blocks] [int n]"
  using assms
  by (auto simp: warmup_shapes_def rbind_Ok_iff to_u32_def to_i64_def Let_def checked_add_def checked_mul_def rcollect_Ok_iff
      split: if_splits option.splits)

section \<open>A concrete device\<close>

definition demo_geometry :: cache_geometry where
  "demo_geometry = \<lparr>geo_num_layers = 1, geo_block_size = 256, geo_num_kv_heads = 2, geo_head_dim = 8, geo_dtype = BF16\<rparr>"

definition demo_device :: "(nat, nat, token list) device_ops" where
  "demo_device = engine_ops.extend demo_ops (device_ops.fields (\<lambda>_. 2) (\<lambda>_ _. Ok []) (\<lambda>n. Ok (replicate n 0))
     (\<lambda>x. Ok (length x)) (\<lambda>_. [1, 100]) (\<lambda>_. BF16) Ok (Ok ()) (Ok (1000000, 1000000)))"

section \<open>Properties\<close>

text \<open>C32: the cache that is allocated respects its budget. For less than \<open>2 ^ 53\<close> bytes of free memory,
  the bound the source relies on, an accepted plan occupies no more than the free memory however the
  floating-point product is rounded; its block size in bytes is the exact product of the geometry
  and fits a \<^verbatim>\<open>usize\<close>; and its blocks hold a request of the maximum length.\<close>

theorem kv_budget_fits:
  assumes "from_budget sz g available u len = Ok plan" "available < 2 ^ 53"
  shows "plan_num_blocks plan * plan_bytes_per_block plan \<le> plan_pool_bytes plan \<and> plan_pool_bytes plan \<le> available
    \<and> plan_bytes_per_block plan = 2 * geo_num_layers g * geo_block_size g * geo_num_kv_heads g * geo_head_dim g * sz (geo_dtype g)
    \<and> plan_bytes_per_block plan < usize_bound
    \<and> len \<le> plan_num_blocks plan * geo_block_size g"
  using from_budget_capacity [OF assms(1)] from_budget_Ok [OF assms(1)] assms(2) by simp

theorem kv_budget_fits_witness:
  "\<exists>plan. from_budget (\<lambda>_. 2) demo_geometry
      1000000 (F32_Finite 1) 4096 = Ok plan \<and> plan_pool_bytes plan \<le> 1000000 \<and> 4096 \<le> plan_num_blocks plan * 256"
proof -
  let ?g = demo_geometry
  have "f64_round (of_nat 1000000) = of_nat 1000000" by (rule f64_round_of_nat) simp
  then have "f64_as_usize (f64_round (f64_round 1000000)) = 1000000"
    by (simp add: f64_as_usize_def usize_bound_def)
  then have "\<exists>plan. from_budget (\<lambda>_. 2) ?g 1000000 (F32_Finite 1) 4096 = Ok plan"
    by (simp add: from_budget_def demo_geometry_def utilization_ok_def f32_in_range_def f32_le_def f32_eq_def checked_mul_def usize_bound_def
        div_ceil_def)
  then obtain plan where plan: "from_budget (\<lambda>_. 2) ?g 1000000 (F32_Finite 1) 4096 = Ok plan" by blast
  from kv_budget_fits [OF plan] plan show ?thesis by (auto simp: demo_geometry_def)
qed

text \<open>the warmup steps are well formed. Whenever the shapes of a warmup are computed, both the
  prefill metadata and the decode metadata pass the validation of the attention layer, and the
  decode step's slot lies inside the allocated cache.\<close>

theorem warmup_shapes_valid:
  assumes "warmup_shapes n ctx = Ok (positions, prefill_md, n32, decode_md)"
  shows "validate_logical_metadata prefill_md = Ok () \<and> validate_logical_metadata decode_md = Ok ()
    \<and> md_slot_mapping decode_md = [int n]
    \<and> n < cache_num_blocks (paged_kv ctx) * geo_block_size (geometry (paged_kv ctx))"
proof -
  obtain slots blocks where w: "0 < n" "n + 1 < 2 ^ 32" "length slots = n"
    "n < cache_num_blocks (paged_kv ctx) * geo_block_size (geometry (paged_kv ctx))"
    "prefill_md = build_prefill_metadata [word_of_nat n] [word_of_nat n] slots"
    "decode_md = build_decode_metadata [word_of_nat (n + 1)] [blocks] [int n]"
    using warmup_shapes_Ok [OF assms] by blast
  have u: "unat (word_of_nat n :: 32 word) = n" "unat (word_of_nat (n + 1) :: 32 word) = n + 1"
    using w(2) by (intro unat_u32; linarith)+
  have "validate_logical_metadata prefill_md = Ok ()"
    unfolding w(5) by (rule built_valid(2)) (use w(2,3) u in \<open>simp_all del: of_nat_add\<close>)
  moreover have "(1 :: 32 word) \<le> word_of_nat (n + 1)" using u(2) by (simp only: word_le_nat_alt) simp
  then have "validate_logical_metadata decode_md = Ok ()"
    unfolding w(6) by (intro built_valid(3) [of "[1]"]) (use w(2) u in \<open>simp_all del: of_nat_add\<close>)
  ultimately show ?thesis using w(4,6) by (simp add: build_decode_metadata_def)
qed

theorem warmup_shapes_valid_witness:
  "\<exists>positions prefill_md n32 decode_md. warmup_shapes 2 (context_new \<lparr>buffer = Some (), geometry = demo_geometry, cache_num_blocks = 1\<rparr>)
      = Ok (positions, prefill_md, n32, decode_md) \<and> validate_logical_metadata decode_md = Ok ()"
proof -
  let ?ctx = "context_new \<lparr>buffer = Some (), geometry = demo_geometry, cache_num_blocks = 1\<rparr>"
  have "\<exists>out. warmup_shapes 2 ?ctx = Ok out"
    by (simp add: warmup_shapes_def demo_geometry_def context_new_def to_i64_def to_i32_def checked_mul_def checked_add_def usize_bound_def
        div_ceil_def Let_def upt_rec)
  then obtain positions prefill_md n32 decode_md where s: "warmup_shapes 2 ?ctx = Ok (positions, prefill_md, n32, decode_md)"
    by auto
  from warmup_shapes_valid [OF s] s show ?thesis by blast
qed



end
