(* ===== verification/Qwen3_Config.thy ===== *)
theory Qwen3_Config
  imports Model_Identity Initialization
begin

text \<open>
  The configuration of \<^verbatim>\<open>models/qwen3.rs\<close>, the construction of its attention context, and the registry of
  \<^verbatim>\<open>models/registry.rs\<close>. The layers themselves, the parser and the weights are parameters; what is
  modelled is every check that decides whether a model is built, the geometry its cache gets, and
  how its forward pass obtains the attention metadata of the step.
\<close>

record qwen3_config =
  hidden_size :: nat
  num_hidden_layers :: nat
  num_attention_heads :: nat
  num_key_value_heads :: nat
  intermediate_size :: nat
  vocab_size :: nat
  rms_norm_eps :: f32
  rope_theta :: f32
  max_position_embeddings :: nat
  config_head_dim :: "nat option"
  hidden_act :: string
  tie_word_embeddings :: "bool option"
  attention_bias :: "bool option"
  rope_scaling :: "string option"
  use_sliding_window :: bool
  layer_types :: "string list option"

datatype config_error =
    NoAttentionHeads
  | HiddenNotDivisible
  | HeadDimInvalid
  | ConfigZero string
  | HeadsNotDivisible
  | FusedGeometryOverflow string
  | CacheGeometryOverflow string
  | RopeScalingUnsupported
  | SlidingWindowUnsupported
  | LayerTypesUnsupported
  | ActivationUnsupported string
  | RopeThetaInvalid
  | NormEpsInvalid

datatype build_error =
    ConfigJson string
  | ConfigRejected config_error
  | ModelLenExceeds nat nat
  | NoShardPaths
  | WeightsFailed string
  | LayersFailed string
  | ArchitecturesJson string
  | NoArchitecture
  | UnknownArchitecture string "string list"

section \<open>Validation\<close>

definition qwen3_head_dim :: "qwen3_config \<Rightarrow> (config_error, nat) outcome" where
  "qwen3_head_dim c =
     (if num_attention_heads c = 0 then Error NoAttentionHeads
      else rbind (case config_head_dim c of
            Some d \<Rightarrow> Ok d
          | None \<Rightarrow> if \<not> num_attention_heads c dvd hidden_size c then Error HiddenNotDivisible
                    else Ok (hidden_size c div num_attention_heads c)) (\<lambda>d.
        if d = 0 \<or> \<not> 2 dvd d then Error HeadDimInvalid else Ok d))"

definition validate_cache_geometry ::
    "(dtype \<Rightarrow> nat) \<Rightarrow> dtype \<Rightarrow> nat \<Rightarrow> qwen3_config \<Rightarrow> (config_error, unit) outcome" where
  "validate_cache_geometry bytes_of dt nb c =
     rbind (qwen3_head_dim c) (\<lambda>d.
     case try_product 1 [2, num_hidden_layers c, nb, 256, num_key_value_heads c, d] of
       None \<Rightarrow> Error (CacheGeometryOverflow ''elements'')
     | Some elements \<Rightarrow>
         if \<not> elements < 2 ^ 63 then Error (CacheGeometryOverflow ''index'')
         else (case checked_mul elements (bytes_of dt) of
             None \<Rightarrow> Error (CacheGeometryOverflow ''bytes'')
           | Some bytes \<Rightarrow> if \<not> bytes < 2 ^ 63 then Error (CacheGeometryOverflow ''isize'') else Ok ()))"

definition fused_qkv :: "qwen3_config \<Rightarrow> nat \<Rightarrow> nat option" where
  "fused_qkv c d =
     (case checked_mul (num_key_value_heads c) 2 of None \<Rightarrow> None | Some kv \<Rightarrow>
      (case checked_add (num_attention_heads c) kv of None \<Rightarrow> None | Some heads \<Rightarrow> checked_mul heads d))"

definition validate_config :: "(dtype \<Rightarrow> nat) \<Rightarrow> dtype \<Rightarrow> qwen3_config \<Rightarrow> (config_error, unit) outcome" where
  "validate_config bytes_of dt c =
     (case find (\<lambda>(name, value). value = 0)
        [(''hidden_size'', hidden_size c), (''num_hidden_layers'', num_hidden_layers c),
         (''num_attention_heads'', num_attention_heads c), (''num_key_value_heads'', num_key_value_heads c),
         (''intermediate_size'', intermediate_size c), (''vocab_size'', vocab_size c),
         (''max_position_embeddings'', max_position_embeddings c)] of
        Some (name, _) \<Rightarrow> Error (ConfigZero name)
      | None \<Rightarrow>
          if \<not> num_key_value_heads c dvd num_attention_heads c then Error HeadsNotDivisible
          else rbind (qwen3_head_dim c) (\<lambda>d.
            if fused_qkv c d = None then Error (FusedGeometryOverflow ''QKV'')
            else if checked_mul (intermediate_size c) 2 = None then Error (FusedGeometryOverflow ''gate/up'')
            else rbind (validate_cache_geometry bytes_of dt 1 c) (\<lambda>_.
              if rope_scaling c \<noteq> None then Error RopeScalingUnsupported
              else if use_sliding_window c then Error SlidingWindowUnsupported
              else if (case layer_types c of None \<Rightarrow> False | Some ts \<Rightarrow>
                  length ts \<noteq> num_hidden_layers c \<or> list_ex (\<lambda>kind. kind \<noteq> ''full_attention'') ts) then Error LayerTypesUnsupported
              else if hidden_act c \<noteq> ''silu'' then Error (ActivationUnsupported (hidden_act c))
              else if \<not> f32_is_finite (rope_theta c) \<or> f32_le (rope_theta c) (F32_Finite 0) then Error RopeThetaInvalid
              else if \<not> f32_is_finite (rms_norm_eps c) \<or> f32_le (rms_norm_eps c) (F32_Finite 0) then Error NormEpsInvalid
              else Ok ())))"

definition has_qkv_bias :: "qwen3_config \<Rightarrow> bool" where
  "has_qkv_bias c = (case attention_bias c of Some b \<Rightarrow> b | None \<Rightarrow> False)"

definition ties_word_embeddings :: "qwen3_config \<Rightarrow> bool" where
  "ties_word_embeddings c = (case tie_word_embeddings c of Some b \<Rightarrow> b | None \<Rightarrow> False)"

section \<open>Building a model\<close>

record ('m, 't) built_model =
  built :: 'm
  built_ctx :: "'t attention_context"

text \<open>The parser of the configuration, the memory-mapped weights and the layers built from them.\<close>

record ('b, 'w, 'm, 't) build_ops =
  parse_config :: "'b \<Rightarrow> (string, qwen3_config) outcome"
  parse_architectures :: "'b \<Rightarrow> (string, string list) outcome"
  map_weights :: "string list \<Rightarrow> dtype \<Rightarrow> (string, 'w) outcome"
  build_layers :: "'w \<Rightarrow> qwen3_config \<Rightarrow> 't attention_context \<Rightarrow> (string, 'm) outcome"
  element_size :: "dtype \<Rightarrow> nat"

definition var_builder_from_paths ::
    "('b, 'w, 'm, 't) build_ops \<Rightarrow> string list \<Rightarrow> dtype \<Rightarrow> (build_error, 'w) outcome" where
  "var_builder_from_paths bo paths dt =
     (if paths = [] then Error NoShardPaths else map_err WeightsFailed (map_weights bo paths dt))"

definition load_resolved_weights_vb :: "('b, 'w, 'm, 't) build_ops \<Rightarrow> 'b resolved_model \<Rightarrow> (build_error, 'w) outcome" where
  "load_resolved_weights_vb bo model = var_builder_from_paths bo (weight_paths model) (model_dtype model)"

definition qwen3_build ::
    "('b, 'w, 'm, 't) build_ops \<Rightarrow> 'b resolved_model \<Rightarrow> nat \<Rightarrow> (build_error, ('m, 't) built_model) outcome" where
  "qwen3_build bo model max_len =
     rbind (map_err ConfigJson (parse_config bo (config_json model))) (\<lambda>c.
     rbind (map_err ConfigRejected (validate_config (element_size bo) (model_dtype model) c)) (\<lambda>_.
     if max_position_embeddings c < max_len then Error (ModelLenExceeds max_len (max_position_embeddings c))
     else rbind (load_resolved_weights_vb bo model) (\<lambda>vb.
          rbind (map_err ConfigRejected (qwen3_head_dim c)) (\<lambda>d.
          let ctx = new_with_query_heads (deferred \<lparr>geo_num_layers = num_hidden_layers c, geo_block_size = 256,
                geo_num_kv_heads = num_key_value_heads c, geo_head_dim = d, geo_dtype = model_dtype model\<rparr>)
                (num_attention_heads c) in
          rbind (map_err LayersFailed (build_layers bo vb c ctx)) (\<lambda>m.
          Ok \<lparr>built = m, built_ctx = ctx\<rparr>)))))"

section \<open>Registry\<close>

definition read_architecture :: "('b, 'w, 'm, 't) build_ops \<Rightarrow> 'b \<Rightarrow> (build_error, string) outcome" where
  "read_architecture bo config =
     rbind (map_err ArchitecturesJson (parse_architectures bo config)) (\<lambda>archs.
     case archs of [] \<Rightarrow> Error NoArchitecture | a # _ \<Rightarrow> Ok a)"

definition resolved_factory ::
    "('b, 'w, 'm, 't) build_ops \<Rightarrow> (string \<times> 'f) list \<Rightarrow> 'b \<Rightarrow> (build_error, 'f) outcome" where
  "resolved_factory bo entries config =
     rbind (read_architecture bo config) (\<lambda>arch.
     case find (\<lambda>(name, _). name = arch) entries of
       Some (_, f) \<Rightarrow> Ok f
     | None \<Rightarrow> Error (UnknownArchitecture arch (map fst entries)))"

definition build_resolved_model ::
    "('b, 'w, 'm, 't) build_ops \<Rightarrow> 'b resolved_model \<Rightarrow> nat \<Rightarrow> (build_error, ('m, 't) built_model) outcome" where
  "build_resolved_model bo model max_len =
     rbind (resolved_factory bo [(''Qwen3ForCausalLM'', qwen3_build bo)] (config_json model)) (\<lambda>factory.
     factory model max_len)"

section \<open>The model as the engine sees it\<close>

text \<open>\<^verbatim>\<open>ProjectionLayout\<close>: the padding of small batches.\<close>

definition layout_for_batch :: "nat \<Rightarrow> nat" where
  "layout_for_batch n = max 1 (min n 8)"

record 'w qwen3_model =
  projection_layout :: nat
  layers :: 'w
  model_vocab_size :: nat

definition qwen3_begin_generation :: "nat \<Rightarrow> 'w qwen3_model \<Rightarrow> 'w qwen3_model" where
  "qwen3_begin_generation n m = m\<lparr>projection_layout := layout_for_batch n\<rparr>"

definition qwen3_end_generation :: "'w qwen3_model \<Rightarrow> 'w qwen3_model" where
  "qwen3_end_generation m = m\<lparr>projection_layout := layout_for_batch 1\<rparr>"

definition qwen3_forward ::
    "('w \<Rightarrow> 't \<Rightarrow> 't \<Rightarrow> prepared_attention \<Rightarrow> nat \<Rightarrow> (engine_error, 't) outcome) \<Rightarrow> 't \<Rightarrow> 't \<Rightarrow>
      't attention_context \<Rightarrow> 'w qwen3_model \<Rightarrow> (engine_error, 't) outcome \<times> 'w qwen3_model" where
  "qwen3_forward run ids pos ctx m =
     (rbind (map_err AttentionFailed (prepared_for_bound_consumer ctx)) (\<lambda>prepared.
        run (layers m) ids pos prepared (projection_layout m)), m)"

section \<open>What a built model guarantees\<close>

lemma qwen3_head_dim_Ok:
  "qwen3_head_dim c = Ok d \<Longrightarrow> 0 < d \<and> 2 dvd d \<and> 0 < num_attention_heads c
     \<and> (config_head_dim c = None \<longrightarrow> d * num_attention_heads c = hidden_size c)"
  by (auto simp: qwen3_head_dim_def rbind_Ok_iff split: if_splits option.splits)

lemma validate_config_Ok:
  assumes "validate_config bytes_of dt c = Ok u"
  shows "0 < num_hidden_layers c \<and> 0 < num_key_value_heads c \<and> num_key_value_heads c dvd num_attention_heads c
    \<and> (\<exists>d. qwen3_head_dim c = Ok d \<and> validate_cache_geometry bytes_of dt 1 c = Ok ())"
  using assms by (auto simp: validate_config_def rbind_Ok_iff split: if_splits option.splits)

lemma cache_geometry_bytes:
  assumes "validate_cache_geometry bytes_of dt nb c = Ok u" "qwen3_head_dim c = Ok d"
  shows "2 * num_hidden_layers c * nb * 256 * num_key_value_heads c * d * bytes_of dt < 2 ^ 63"
proof -
  have one: "(1 :: nat) < usize_bound" by (simp add: usize_bound_def)
  obtain elements where e: "try_product 1 [2, num_hidden_layers c, nb, 256, num_key_value_heads c, d] = Some elements"
    "elements * bytes_of dt < 2 ^ 63"
    using assms by (auto simp: validate_cache_geometry_def rbind_Ok_iff checked_mul_def simp del: try_product.simps
        split: if_splits option.splits)
  then show ?thesis using try_product_Some [OF e(1) one] by (simp add: algebra_simps)
qed

lemma qwen3_build_Ok:
  assumes "qwen3_build bo model max_len = Ok bm"
  shows "\<exists>c d. parse_config bo (config_json model) = Ok c \<and> validate_config (element_size bo) (model_dtype model) c = Ok ()
    \<and> qwen3_head_dim c = Ok d \<and> max_len \<le> max_position_embeddings c \<and> weight_paths model \<noteq> []
    \<and> built_ctx bm = new_with_query_heads (deferred \<lparr>geo_num_layers = num_hidden_layers c, geo_block_size = 256,
                geo_num_kv_heads = num_key_value_heads c, geo_head_dim = d, geo_dtype = model_dtype model\<rparr>) (num_attention_heads c)"
  using assms
  by (auto simp: qwen3_build_def rbind_Ok_iff Let_def load_resolved_weights_vb_def var_builder_from_paths_def split: if_splits)

lemma built_usable:
  assumes "build_resolved_model bo model max_len = Ok bm"
  shows "usable (built_ctx bm)" "geo_block_size (geometry (paged_kv (built_ctx bm))) = 256"
    "qwen3_build bo model max_len = Ok bm"
proof -
  show b: "qwen3_build bo model max_len = Ok bm"
    using assms by (auto simp: build_resolved_model_def resolved_factory_def rbind_Ok_iff split: if_splits)
  show "usable (built_ctx bm)" "geo_block_size (geometry (paged_kv (built_ctx bm))) = 256"
    using qwen3_build_Ok [OF b]
    by (auto simp: new_with_query_heads_def context_new_def deferred_def usable_def is_idle_def default_attention_state_def)
qed

section \<open>Properties\<close>

text \<open>C33: a model that is built has a sound attention geometry. Its positions cover the requested
  context length, its heads are positive and grouped evenly, its head dimension is positive and even,
  one block of its cache is addressable by a signed 64-bit index, its cache is not yet allocated, and
  its blocks have the size the scheduler uses.\<close>

theorem qwen3_geometry_sound:
  assumes "build_resolved_model bo model max_len = Ok bm"
  shows "\<exists>c d. parse_config bo (config_json model) = Ok c \<and> max_len \<le> max_position_embeddings c
    \<and> geometry (paged_kv (built_ctx bm)) = \<lparr>geo_num_layers = num_hidden_layers c, geo_block_size = BLOCK_SIZE,
         geo_num_kv_heads = num_key_value_heads c, geo_head_dim = d, geo_dtype = model_dtype model\<rparr>
    \<and> buffer (paged_kv (built_ctx bm)) = None \<and> ctx_query_heads (built_ctx bm) = Some (num_attention_heads c)
    \<and> 0 < d \<and> 2 dvd d \<and> 0 < num_hidden_layers c \<and> 0 < num_key_value_heads c
    \<and> num_key_value_heads c dvd num_attention_heads c
    \<and> 2 * num_hidden_layers c * BLOCK_SIZE * num_key_value_heads c * d * element_size bo (model_dtype model) < 2 ^ 63"
proof -
  obtain c d where b: "parse_config bo (config_json model) = Ok c" "validate_config (element_size bo) (model_dtype model) c = Ok ()"
    "qwen3_head_dim c = Ok d" "max_len \<le> max_position_embeddings c"
    "built_ctx bm = new_with_query_heads (deferred \<lparr>geo_num_layers = num_hidden_layers c, geo_block_size = 256,
                geo_num_kv_heads = num_key_value_heads c, geo_head_dim = d, geo_dtype = model_dtype model\<rparr>) (num_attention_heads c)"
    using qwen3_build_Ok [OF built_usable(3) [OF assms]] by blast
  note v = validate_config_Ok [OF b(2)]
  then have "validate_cache_geometry (element_size bo) (model_dtype model) 1 c = Ok ()" by blast
  note bytes = cache_geometry_bytes [OF this b(3)]
  show ?thesis using b(1,4) v bytes qwen3_head_dim_Ok [OF b(3)]
    by (intro exI [of _ c] exI [of _ d])
       (simp add: b(5) new_with_query_heads_def context_new_def deferred_def BLOCK_SIZE_def)
qed

definition demo_config :: qwen3_config where
  "demo_config = \<lparr>hidden_size = 8, num_hidden_layers = 2, num_attention_heads = 4, num_key_value_heads = 2,
     intermediate_size = 16, vocab_size = 100, rms_norm_eps = F32_Finite (1 / 1000000), rope_theta = F32_Finite 1000000,
     max_position_embeddings = 4096, config_head_dim = None, hidden_act = ''silu'', tie_word_embeddings = None,
     attention_bias = None, rope_scaling = None, use_sliding_window = False, layer_types = None\<rparr>"

definition demo_build_ops :: "(unit, unit, nat, token list) build_ops" where
  "demo_build_ops = \<lparr>parse_config = (\<lambda>_. Ok demo_config), parse_architectures = (\<lambda>_. Ok [''Qwen3ForCausalLM'']),
     map_weights = (\<lambda>_ _. Ok ()), build_layers = (\<lambda>_ _ _. Ok 0), element_size = (\<lambda>_. 2)\<rparr>"

definition demo_model :: "unit resolved_model" where
  "demo_model = \<lparr>identity = LocalIdentity ''/m'', config_path = ''/m/config.json'', config_json = (),
     generation_config_json = None, tokenizer_path = ''/m/tokenizer.json'', weight_paths = [''/m/model.safetensors''],
     model_dtype = BF16\<rparr>"

lemma demo_config_fields [simp]:
  "hidden_size demo_config = 8" "num_hidden_layers demo_config = 2" "num_attention_heads demo_config = 4"
  "num_key_value_heads demo_config = 2" "intermediate_size demo_config = 16" "vocab_size demo_config = 100"
  "rms_norm_eps demo_config = F32_Finite (1 / 1000000)" "rope_theta demo_config = F32_Finite 1000000"
  "max_position_embeddings demo_config = 4096" "config_head_dim demo_config = None" "hidden_act demo_config = ''silu''"
  "rope_scaling demo_config = None" "\<not> use_sliding_window demo_config" "layer_types demo_config = None"
  by (simp_all add: demo_config_def)

lemma demo_config_valid:
  "qwen3_head_dim demo_config = Ok 2" "fused_qkv demo_config 2 = Some 16"
  "validate_cache_geometry (\<lambda>_. 2) BF16 1 demo_config = Ok ()" "validate_config (\<lambda>_. 2) BF16 demo_config = Ok ()"
proof -
  show d: "qwen3_head_dim demo_config = Ok 2" by (simp add: qwen3_head_dim_def)
  show q: "fused_qkv demo_config 2 = Some 16"
    by (simp add: fused_qkv_def checked_mul_def checked_add_def usize_bound_def)
  show g: "validate_cache_geometry (\<lambda>_. 2) BF16 1 demo_config = Ok ()"
    by (simp add: validate_cache_geometry_def d checked_mul_def usize_bound_def)
  have "checked_mul 16 2 = Some 32" by (simp add: checked_mul_def usize_bound_def)
  then show "validate_config (\<lambda>_. 2) BF16 demo_config = Ok ()"
    using d q g by (simp add: validate_config_def f32_le_def f32_eq_def)
qed

theorem qwen3_geometry_sound_witness:
  "\<exists>bm. build_resolved_model demo_build_ops demo_model 1024 = Ok bm \<and> buffer (paged_kv (built_ctx bm)) = None"
proof -
  have "\<exists>bm. build_resolved_model demo_build_ops demo_model 1024 = Ok bm"
    using demo_config_valid
    by (simp add: build_resolved_model_def resolved_factory_def read_architecture_def qwen3_build_def demo_build_ops_def
        demo_model_def load_resolved_weights_vb_def var_builder_from_paths_def Let_def)
  then obtain bm where b: "build_resolved_model demo_build_ops demo_model 1024 = Ok bm" by blast
  from qwen3_geometry_sound [OF b] b show ?thesis by blast
qed

text \<open>the model reads the metadata of its own step and nothing else. Inside the scope that was
  prepared and bound for a step, the forward pass runs on exactly the metadata and the epoch of that step;
  before the binding and outside a step it fails without running.\<close>

theorem qwen3_reads_step_metadata:
  assumes "is_idle ctx" "\<not> runtime_poisoned ctx" "prepare upload epoch md ctx = (Ok (), ctx1)"
    and "bind_consumer epoch ctx1 = (Ok (), ctx2)"
  shows "\<exists>prepared. pa_epoch prepared = epoch \<and> pa_logical prepared = md
    \<and> qwen3_forward run ids pos ctx2 m = (run (layers m) ids pos prepared (projection_layout m), m)
    \<and> (\<exists>e. qwen3_forward run ids pos ctx m = (Error e, m)) \<and> (\<exists>e. qwen3_forward run ids pos ctx1 m = (Error e, m))"
proof -
  obtain prepared where p: "preparation upload epoch md ctx = Ok prepared" "ctx1 = holding ctx prepared"
    using assms(3) prepare_idle [OF assms(1,2), of upload epoch md] by (auto split: sum.splits)
  note sc = scope_idle [OF assms(1,2) p(1)]
  have c2: "ctx2 = bound_to epoch (holding ctx prepared)" using assms(4) sc(1) p(2) by simp
  have "prepared_for_bound_consumer ctx2 = Ok prepared" using sc(2) c2 by simp
  moreover have "prepared_for_bound_consumer ctx = Error NothingPrepared"
    using assms(1,2) by (simp add: prepared_for_bound_consumer_def locked_def borrow_section_def is_idle_def)
  moreover have "prepared_for_bound_consumer ctx1 = Error (NoBoundConsumer (pa_epoch prepared))"
    using assms(1,2) by (simp add: p(2) prepared_for_bound_consumer_def locked_def borrow_section_def is_idle_def holding_def)
  ultimately show ?thesis using preparation_epoch [OF p(1)]
    by (intro exI [of _ prepared]) (simp add: qwen3_forward_def)
qed

theorem qwen3_reads_step_metadata_witness:
  "\<exists>ctx2. qwen3_forward (\<lambda>w ids pos p l. Ok [pa_epoch p]) [] [] ctx2 \<lparr>projection_layout = 1, layers = (), model_vocab_size = 4\<rparr>
      = (Ok [WarmupPrefill], \<lparr>projection_layout = 1, layers = (), model_vocab_size = 4\<rparr>)"
proof -
  let ?ctx = "context_new (deferred demo_geometry) :: attention_epoch list attention_context"
  obtain ctx1 where p: "prepare (\<lambda>_. Ok ()) WarmupPrefill demo_metadata ?ctx = (Ok (), ctx1)"
    using demo_context_prepared by (metis prod.collapse)
  have idle: "is_idle ?ctx" "\<not> runtime_poisoned ?ctx"
    by (simp_all add: is_idle_def context_new_def default_attention_state_def)
  obtain prepared where "preparation (\<lambda>_. Ok ()) WarmupPrefill demo_metadata ?ctx = Ok prepared" "ctx1 = holding ?ctx prepared"
    using p prepare_idle [OF idle, of "\<lambda>_. Ok ()" WarmupPrefill demo_metadata] by (auto split: sum.splits)
  then have "bind_consumer WarmupPrefill ctx1 = (Ok (), bound_to WarmupPrefill (holding ?ctx prepared))"
    using scope_idle(1) [OF idle] by simp
  from qwen3_reads_step_metadata [OF idle p this, of "\<lambda>w ids pos p l. Ok [pa_epoch p]" "[]" "[]"
      "\<lparr>projection_layout = 1, layers = (), model_vocab_size = 4\<rparr>"]
  show ?thesis by auto
qed

end
