(* ===== verification/Progress.thy ===== *)
theory Progress
  imports Apply_Safety
begin

text \<open>
  Every step makes progress. When the token budget is at least two and every queued request fits
  the cache on its own, the sequence at the front of the running queue is never preempted and gets
  work in every step, so each applied plan either samples a token or shortens the prefill of the
  front sequence. The measure \<open>work_left\<close> decreases in each step; it bounds the number of steps in
  which a set of requests is served, whatever the model samples.
\<close>

section \<open>The measure\<close>

text \<open>Completion tokens that a request may still produce.\<close>

definition open_tokens :: "sequence \<Rightarrow> nat" where
  "open_tokens s = max_tokens (params s) - (length (token_ids s) - num_prompt_tokens s)"

definition prefill_left :: "sequence \<Rightarrow> nat" where
  "prefill_left s = length (token_ids s) - num_cached_tokens s"

definition front_left :: "scheduler \<Rightarrow> nat" where
  "front_left sch = (case running sch of
     [] \<Rightarrow> Suc (sum_list (map (\<lambda>s. length (token_ids s)) (waiting sch)))
   | f # _ \<Rightarrow> prefill_left f)"

definition open_left :: "scheduler \<Rightarrow> nat" where
  "open_left sch = sum_list (map open_tokens (queue sch))"

definition work_left :: "scheduler \<Rightarrow> nat \<times> nat" where
  "work_left sch = (open_left sch, front_left sch)"

text \<open>A request whose complete history fits the cache.\<close>

definition fits_cache :: "nat \<Rightarrow> sequence \<Rightarrow> bool" where
  "fits_cache cap s \<longleftrightarrow> num_prompt_tokens s + max_tokens (params s) \<le> cap * BLOCK_SIZE"

lemma fits_cache_ident: "ident s' = ident s \<Longrightarrow> fits_cache cap s' = fits_cache cap s"
  by (simp add: fits_cache_def ident_def)

lemma open_tokens_ident: "ident s' = ident s \<Longrightarrow> open_tokens s' = open_tokens s"
  by (simp add: open_tokens_def ident_def)

lemma fits_num_blocks:
  assumes "seq_base s" "fits_cache cap s"
  shows "num_blocks s \<le> cap"
proof -
  have "num_tokens s \<le> cap * BLOCK_SIZE" using seq_baseD(5) [OF assms(1)] assms(2) by (simp add: fits_cache_def)
  then show ?thesis by (simp add: num_blocks_def div_ceil_le_iff BLOCK_SIZE_def)
qed

lemma open_tokens_pos: "seq_base s \<Longrightarrow> 0 < open_tokens s"
  using seq_baseD(1,5) [of s] by (auto simp: open_tokens_def wf_seq_def)

lemma queue_base: "sched_inv sch kv \<Longrightarrow> s \<in> set (queue sch) \<Longrightarrow> seq_base s"
  by (auto simp: sched_inv_def sched_core_def queue_def running_ok_def waiting_ok_def)

lemma open_left_moved: "map ident (queue sch') = map ident (queue sch) \<Longrightarrow> open_left sch' = open_left sch"
proof -
  assume eq: "map ident (queue sch') = map ident (queue sch)"
  have "open_tokens = (\<lambda>(r, i, t, n, p). max_tokens p - (length t - n)) \<circ> ident"
    by (auto simp: open_tokens_def ident_def)
  then have "map open_tokens ss = map (\<lambda>(r, i, t, n, p). max_tokens p - (length t - n)) (map ident ss)" for ss
    by (simp only: map_map)
  then show ?thesis by (simp only: open_left_def eq)
qed

section \<open>Planning keeps the front\<close>

lemma plan_step_front:
  assumes inv: "sched_inv sch kv" and call: "plan_step xxh sch kv = (Ok (Some plan), sch', kv')"
    and fit: "\<forall>s \<in> set (queue sch). fits_cache (kv_capacity kv) s"
    and lim: "1 < max_num_batched_tokens sch" "0 < max_num_seqs sch"
  shows "running sch' \<noteq> []" "running sch \<noteq> [] \<Longrightarrow> front_kept (running sch) (running sch') \<and> 0 < num_scheduled_tokens (hd (running sch'))"
proof -
  have small: "\<forall>s \<in> set (queue sch). num_blocks s \<le> kv_capacity kv"
    using fit fits_num_blocks queue_base [OF inv] by blast
  have idle: "in_flight sch = None" by (rule plan_step_plan(1) [OF inv call])
  obtain sel sch1 kv1 where s: "select_work xxh sch kv = (Ok sel, sch1, kv1)" "selected_state sch kv sel sch1 kv1"
    "running sch \<noteq> [] \<and> 1 < max_num_batched_tokens sch \<and> num_blocks (hd (running sch)) \<le> kv_capacity kv
        \<longrightarrow> front_kept (running sch) (running sch1) \<and> 0 < num_scheduled_tokens (hd (running sch1))"
    using select_work_spec [OF sched_invD(1) [OF inv]] by blast
  have "\<forall>s \<in> set (running sch1). running_ok s \<and> selected_ok s" "kv_block_size kv1 = BLOCK_SIZE"
    using s(2) by (auto simp: selected_state_def sched_core_def kv_inv_def)
  from plan_loop_ok [OF this] s(1) idle have eq: "finish_plan sel sch1 kv1 (map planned_entry (scheduled (running sch1))) = (Ok (Some plan), sch')"
    using call by (auto simp: plan_step_def split: prod.splits)
  have run: "running sch' = running sch1"
    using eq by (cases rule: finish_plan_cases [of "map planned_entry (scheduled (running sch1))" sel sch1 kv1])
      (auto simp: Let_def)
  show "running sch' \<noteq> []"
    using plan_step_plan(4,5) [OF inv call] by (auto simp: scheduled_def)
  show "front_kept (running sch) (running sch') \<and> 0 < num_scheduled_tokens (hd (running sch'))" if "running sch \<noteq> []"
  proof -
    have "hd (running sch) \<in> set (queue sch)" using that by (simp add: queue_def)
    then show ?thesis using s(3) that lim small run by simp
  qed
qed

lemma plan_step_config:
  assumes inv: "sched_inv sch kv" and call: "plan_step xxh sch kv = (Ok (Some plan), sch', kv')"
  shows "max_num_batched_tokens sch' = max_num_batched_tokens sch \<and> max_num_seqs sch' = max_num_seqs sch
    \<and> eos_token_ids sch' = eos_token_ids sch \<and> next_request_id sch' = next_request_id sch"
proof -
  have idle: "in_flight sch = None" by (rule plan_step_plan(1) [OF inv call])
  from inv idle obtain sel sch1 kv1 where st: "selected_state sch kv sel sch1 kv1"
    and eq: "plan_step xxh sch kv = (case finish_plan sel sch1 kv1 (map planned_entry (scheduled (running sch1)))
       of (r, sch2) \<Rightarrow> (r, sch2, kv1))"
    by (rule plan_step_result)
  have mv: "moved sch kv sch1 kv1" using st by (simp add: selected_state_def)
  have "finish_plan sel sch1 kv1 (map planned_entry (scheduled (running sch1))) = (Ok (Some plan), sch')"
    using call eq by (auto split: prod.splits)
  then show ?thesis using moved_config [OF mv]
    by (cases rule: finish_plan_cases [of "map planned_entry (scheduled (running sch1))" sel sch1 kv1])
      (auto simp: Let_def)
qed

section \<open>Applying decreases the measure\<close>

text \<open>A sampled token uses up one of the tokens its request may still produce.\<close>

lemma open_tokens_applied:
  assumes "running_ok s" "selected_ok s" "0 < num_scheduled_tokens s" "answers (planned_entry s) x"
  shows "sampled_token x = None \<Longrightarrow> open_tokens (apply_one eos s x) = open_tokens s
      \<and> prefill_left (apply_one eos s x) < prefill_left s"
    and "sampled_token x \<noteq> None \<Longrightarrow> open_tokens (apply_one eos s x) < open_tokens s"
proof -
  have app: "applicable s" by (rule scheduled_applicable [OF assms(1-3)])
  have base: "seq_base s" using assms(1) by (rule running_okD)
  show "open_tokens (apply_one eos s x) = open_tokens s \<and> prefill_left (apply_one eos s x) < prefill_left s"
    if n: "sampled_token x = None"
  proof -
    have "num_cached_tokens s < length (token_ids s)" using app assms(3) by (simp add: applicable_def)
    then show ?thesis using assms(3) unfolding apply_one_None [OF app n]
      by (simp add: open_tokens_def prefill_left_def)
  qed
  show "open_tokens (apply_one eos s x) < open_tokens s" if some: "sampled_token x \<noteq> None"
  proof -
    obtain t where t: "sampled_token x = Some t" using some by blast
    have "num_prompt_tokens s \<le> length (token_ids s)" using app by (simp add: applicable_def)
    then show ?thesis using open_tokens_pos [OF base] unfolding apply_one_Some [OF app t]
      by (simp add: open_tokens_def append_token_def)
  qed
qed

lemma open_tokens_settle [simp]: "open_tokens (settle b s) = open_tokens s" "prefill_left (settle b s) = prefill_left s"
  by (simp_all add: settle_def open_tokens_def prefill_left_def)

text \<open>What the running sequences may still produce, before and after an accepted result.\<close>

lemma sum_list_remaining:
  "sum_list (map open_tokens (remaining eos pairs run))
    = sum_list (map (\<lambda>s. if seq_id s \<in> set (map fst (finished_entries eos pairs)) then 0
        else open_tokens (applied eos pairs s)) run)"
proof (induction run)
  case Nil
  then show ?case by (simp add: remaining_def clear_recovered_def)
next
  case (Cons s run)
  have "open_tokens (u\<lparr>recompute_target_tokens := r\<rparr>) = open_tokens u" for u r by (simp add: open_tokens_def)
  with Cons show ?case by (simp add: remaining_def clear_recovered_def)
qed

lemma sum_list_less:
  fixes f g :: "'a \<Rightarrow> nat"
  assumes "\<forall>x \<in> set xs. f x \<le> g x" "x \<in> set xs" "f x < g x"
  shows "sum_list (map f xs) < sum_list (map g xs)"
  using assms
proof (induction xs)
  case (Cons y ys)
  have le: "sum_list (map f ys) \<le> sum_list (map g ys)" using Cons.prems(1) by (intro sum_list_mono) auto
  show ?case
  proof (cases "x = y")
    case True
    then show ?thesis using Cons.prems(3) le by simp
  next
    case False
    then have "sum_list (map f ys) < sum_list (map g ys)" using Cons by simp
    then show ?thesis using Cons.prems(1) by (simp add: add_le_less_mono)
  qed
qed simp

lemma apply_measure:
  assumes inv: "sched_inv sch kv" and plan: "in_flight sch = Some plan" and acc: "accepts plan res"
  defines "sch' \<equiv> sch\<lparr>running := remaining (eos_token_ids sch) (answered sch res) (running sch), in_flight := None\<rparr>"
  shows "open_left sch' \<le> open_left sch"
    and "(\<exists>x \<in> set (result_sequences res). sampled_token x \<noteq> None) \<Longrightarrow> open_left sch' < open_left sch"
    and "(\<forall>x \<in> set (result_sequences res). sampled_token x = None) \<Longrightarrow> running sch \<noteq> [] \<Longrightarrow>
        0 < num_scheduled_tokens (hd (running sch)) \<Longrightarrow>
        running sch' \<noteq> [] \<and> prefill_left (hd (running sch')) < prefill_left (hd (running sch))"
proof -
  note a = answered_props [OF inv plan acc]
  let ?eos = "eos_token_ids sch" and ?pairs = "answered sch res"
  let ?after = "\<lambda>s. if seq_id s \<in> set (map fst (finished_entries ?eos ?pairs)) then 0 else open_tokens (applied ?eos ?pairs s)"
  have sub: "\<forall>(s, x) \<in> set ?pairs. s \<in> set (running sch)" using a(3) by blast
  note mem = applied_member [OF a(4,5) sub, where eos = ?eos]
  have opt: "open_tokens (applied ?eos ?pairs s) \<le> open_tokens s \<and> (sampled_token x \<noteq> None \<longrightarrow> ?after s < open_tokens s)"
    if sx: "(s, x) \<in> set ?pairs" for s x
  proof -
    have s: "s \<in> set (running sch)" "running_ok s" "selected_ok s" "0 < num_scheduled_tokens s" "answers (planned_entry s) x"
      using a(3) [OF sx] by auto
    have "applied ?eos ?pairs s = apply_one ?eos s x" using mem(1) [OF s(1) sx] by blast
    moreover have "0 < open_tokens s" using open_tokens_pos running_okD(1) [OF s(2)] by blast
    ultimately show ?thesis
      using open_tokens_applied [OF s(2-5), of ?eos] by (cases "sampled_token x = None") auto
  qed
  have le: "?after s \<le> open_tokens s" if s: "s \<in> set (running sch)" for s
  proof (cases "s \<in> set (map fst ?pairs)")
    case True
    then obtain x where "(s, x) \<in> set ?pairs" by auto
    then show ?thesis using opt by auto
  next
    case False
    then show ?thesis using mem(2) [OF s False] by simp
  qed
  have sum: "open_left sch' = sum_list (map ?after (running sch)) + sum_list (map open_tokens (waiting sch))"
    "open_left sch = sum_list (map open_tokens (running sch)) + sum_list (map open_tokens (waiting sch))"
    by (simp_all add: open_left_def queue_def sch'_def sum_list_remaining)
  show "open_left sch' \<le> open_left sch" unfolding sum using le by (intro add_right_mono sum_list_mono) auto
  have in_pairs: "\<exists>s. (s, x) \<in> set ?pairs" if "x \<in> set (result_sequences res)" for x
    using that a(2) by (metis answered_def in_set_impl_in_set_zip2)
  show "open_left sch' < open_left sch" if ex: "\<exists>x \<in> set (result_sequences res). sampled_token x \<noteq> None"
  proof -
    obtain s x where sx: "(s, x) \<in> set ?pairs" "sampled_token x \<noteq> None" using ex in_pairs by blast
    have "sum_list (map ?after (running sch)) < sum_list (map open_tokens (running sch))"
      using le opt [OF sx(1)] sx(2) a(3) [OF sx(1)] by (intro sum_list_less [of _ _ _ s]) auto
    then show ?thesis unfolding sum by simp
  qed
  assume none: "\<forall>x \<in> set (result_sequences res). sampled_token x = None"
    and run: "running sch \<noteq> []" and pos: "0 < num_scheduled_tokens (hd (running sch))"
  obtain f rest where f: "running sch = f # rest" using run by (cases "running sch") auto
  then have "f \<in> set (map fst ?pairs)" using pos by (simp add: a(6) scheduled_def)
  then obtain x where fx: "(f, x) \<in> set ?pairs" by auto
  have nx: "sampled_token x = None" using none fx by (auto simp: answered_def dest: set_zip_rightD)
  have ok: "running_ok f" "selected_ok f" "0 < num_scheduled_tokens f" "answers (planned_entry f) x" "f \<in> set (running sch)"
    using a(3) [OF fx] by auto
  have app: "applicable f" by (rule scheduled_applicable [OF ok(1-3)])
  have nf: "seq_id f \<notin> set (map fst (finished_entries ?eos ?pairs))" "applied ?eos ?pairs f = apply_one ?eos f x"
    using mem(1) [OF ok(5) fx] finishes_iff [OF app, of ?eos x] nx by auto
  then have "running sch' = (if seq_id f \<in> set (recovered_ids ?pairs)
      then (apply_one ?eos f x)\<lparr>recompute_target_tokens := None\<rparr> else apply_one ?eos f x) # remaining ?eos ?pairs rest"
    by (simp add: sch'_def f remaining_def clear_recovered_def)
  then show "running sch' \<noteq> [] \<and> prefill_left (hd (running sch')) < prefill_left (hd (running sch))"
    using open_tokens_applied(1) [OF ok(1-4) nx, of ?eos] by (simp add: f prefill_left_def)
qed

lemma unsampled_tokens:
  assumes inv: "sched_inv sch kv" and plan: "in_flight sch = Some plan" and acc: "accepts plan res"
    and none: "\<forall>x \<in> set (result_sequences res). sampled_token x = None"
  shows "map token_ids (remaining eos (answered sch res) (running sch)) = map token_ids (running sch)"
proof -
  note a = answered_props [OF inv plan acc]
  let ?pairs = "answered sch res"
  have none': "sampled_token x = None" if "(s, x) \<in> set ?pairs" for s x
    using none that by (auto simp: answered_def dest: set_zip_rightD)
  have "\<not> finishes eos s x" if sx: "(s, x) \<in> set ?pairs" for s x
    using finishes_iff [OF scheduled_applicable, of s eos x] a(3) [OF sx] none' [OF sx] by auto
  then have nil: "finished_entries eos ?pairs = []" by (auto simp: finished_entries_def filter_empty_conv)
  have "token_ids (applied eos ?pairs s) = token_ids s" for s
  proof (cases "map_of (map (\<lambda>(s, x). (seq_id s, x)) ?pairs) (seq_id s)")
    case None
    then show ?thesis by (simp add: applied_def)
  next
    case (Some x)
    then have "sampled_token x = None" using none' by (auto dest!: map_of_SomeD)
    then show ?thesis using Some by (simp add: applied_def apply_one_def sample_token_def advance_cached_def)
  qed
  then show ?thesis by (subst remaining_map) (simp_all add: nil)
qed

section \<open>One step\<close>

abbreviation work_order :: "((nat \<times> nat) \<times> (nat \<times> nat)) set" where
  "work_order \<equiv> less_than <*lex*> less_than"

text \<open>The limits under which a set of requests is served: a budget of two tokens, one sequence, and
  a cache in which every request fits on its own.\<close>

definition servable :: "scheduler \<Rightarrow> kv_cache_manager \<Rightarrow> bool" where
  "servable sch kv \<longleftrightarrow> 1 < max_num_batched_tokens sch \<and> 0 < max_num_seqs sch
     \<and> (\<forall>s \<in> set (queue sch). fits_cache (kv_capacity kv) s)"

lemma front_left_le:
  assumes "running sch \<noteq> []"
  shows "front_left sch \<le> sum_list (map (length \<circ> token_ids) (queue sch))"
  using assms by (cases "running sch") (simp_all add: front_left_def prefill_left_def queue_def)

lemma step_decreases:
  assumes inv: "sched_inv sch kv" and srv: "servable sch kv"
    and call: "plan_step xxh sch kv = (Ok (Some plan), sch1, kv1)" and acc: "accepts plan res"
    and app: "apply_step_result xxh res sch1 kv1 = (Ok outs, sch2, kv2)"
  shows "(work_left sch2, work_left sch) \<in> work_order" "servable sch2 kv2"
proof -
  note p = plan_step_inv [OF inv call]
  have inv1: "sched_inv sch1 kv1" and idq: "map ident (queue sch1) = map ident (queue sch)"
    and cap1: "kv_capacity kv1 = kv_capacity kv" using p by (blast, blast, blast)
  have fly: "in_flight sch1 = Some plan" by (rule plan_step_plan(2) [OF inv call])
  have lim: "1 < max_num_batched_tokens sch" "0 < max_num_seqs sch" "\<forall>s \<in> set (queue sch). fits_cache (kv_capacity kv) s"
    using srv by (simp_all add: servable_def)
  note front = plan_step_front [OF inv call lim(3,1,2)]
  have sch2: "sch2 = sch1\<lparr>running := remaining (eos_token_ids sch1) (answered sch1 res) (running sch1), in_flight := None\<rparr>"
    and cap2: "kv_capacity kv2 = kv_capacity kv1"
    using apply_step_result_inv [OF inv1 fly acc, of xxh] app by auto
  note m = apply_measure [OF inv1 fly acc, folded sch2]
  have open1: "open_left sch1 = open_left sch" using open_left_moved [OF idq] .
  show "(work_left sch2, work_left sch) \<in> work_order"
  proof (cases "\<exists>x \<in> set (result_sequences res). sampled_token x \<noteq> None")
    case True
    then show ?thesis using m(2) open1 by (simp add: work_left_def)
  next
    case False
    then have none: "\<forall>x \<in> set (result_sequences res). sampled_token x = None" by blast
    have "front_left sch2 < front_left sch"
    proof (cases "running sch")
      case (Cons f rest)
      obtain g gs where g: "running sch1 = g # gs" using front(1) by (cases "running sch1") auto
      have "ident g = ident f" "num_cached_tokens g = num_cached_tokens f" "0 < num_scheduled_tokens g"
        using front(2) by (simp_all add: Cons g front_kept_def)
      then have "prefill_left g = prefill_left f" by (simp add: prefill_left_def ident_def)
      moreover have "running sch2 \<noteq> [] \<and> prefill_left (hd (running sch2)) < prefill_left g"
        using m(3) [OF none front(1)] \<open>0 < num_scheduled_tokens g\<close> by (simp add: g)
      ultimately show ?thesis by (cases "running sch2") (simp_all add: front_left_def Cons)
    next
      case Nil
      note un = unsampled_tokens [OF inv1 fly acc none, of "eos_token_ids sch1"]
      have "map token_ids (running sch2) = map token_ids (running sch1)" "waiting sch2 = waiting sch1"
        using un by (simp_all add: sch2)
      then have tq: "map token_ids (queue sch2) = map token_ids (queue sch1)" and ne: "running sch2 \<noteq> []"
        using front(1) by (auto simp: queue_def)
      have "map token_ids (queue sch2) = map token_ids (queue sch)" unfolding tq by (rule map_ident_proj(3) [OF idq])
      then have "sum_list (map (length \<circ> token_ids) (queue sch2)) = sum_list (map (length \<circ> token_ids) (queue sch))"
        by (metis map_map)
      then show ?thesis using front_left_le [OF ne] by (simp add: front_left_def Nil queue_def o_def)
    qed
    then show ?thesis using m(1) open1 by (auto simp: work_left_def)
  qed
  have cfg: "max_num_batched_tokens sch1 = max_num_batched_tokens sch" "max_num_seqs sch1 = max_num_seqs sch"
    using plan_step_config [OF inv call] by simp_all
  have fit1: "\<forall>s \<in> set (queue sch1). fits_cache (kv_capacity kv) s"
    using lim(3) idq fits_cache_ident by (metis (no_types, lifting) image_iff list.set_map)
  have keep: "fits_cache c (settle b (applied eos ps s)) = fits_cache c s" for c b eos ps s
    by (simp add: fits_cache_def settle_def applied_def split: option.splits)
  have "fits_cache (kv_capacity kv) s" if "s \<in> set (queue sch2)" for s
  proof (cases "s \<in> set (waiting sch1)")
    case True
    then show ?thesis using fit1 by (simp add: queue_def)
  next
    case False
    then have "s \<in> set (remaining (eos_token_ids sch1) (answered sch1 res) (running sch1))"
      using that by (simp add: queue_def sch2)
    then obtain u where "u \<in> set (running sch1)"
      "s = settle (seq_id u \<in> set (recovered_ids (answered sch1 res))) (applied (eos_token_ids sch1) (answered sch1 res) u)"
      by (rule remaining_member)
    then show ?thesis using fit1 by (simp add: keep queue_def)
  qed
  then show "servable sch2 kv2" using lim(1,2) cfg cap1 cap2 by (simp add: servable_def sch2)
qed

end
