(* ===== verification/Serving.thy ===== *)
theory Serving
  imports Engine_Safety Progress
begin

text \<open>
  Serving a call to its end. Requests keep their identity from admission to their output, an output
  is a complete answer to its request, and the measure of \<^verbatim>\<open>Progress\<close> bounds the number of steps:
  the engine loop returns.
\<close>

section \<open>Complete answers\<close>

text \<open>A completion that stops where it has to: at the token limit or at the first end-of-sequence
  token the request does not ignore.\<close>

definition complete_answer :: "token list \<Rightarrow> sampling_params \<Rightarrow> token list \<Rightarrow> bool" where
  "complete_answer eos ps ts \<longleftrightarrow> ts \<noteq> [] \<and> length ts \<le> max_tokens ps
     \<and> (length ts = max_tokens ps \<or> \<not> ignore_eos ps \<and> last ts \<in> set eos)
     \<and> (\<not> ignore_eos ps \<longrightarrow> set (butlast ts) \<inter> set eos = {})"

text \<open>The requests of a call: id, prompt and parameters.\<close>

type_synonym call = "(nat \<times> token list \<times> sampling_params) set"

definition serves :: "token list \<Rightarrow> call \<Rightarrow> sequence \<Rightarrow> bool" where
  "serves eos R s \<longleftrightarrow> (request_id s, take (num_prompt_tokens s) (token_ids s), params s) \<in> R
     \<and> (\<not> ignore_eos (params s) \<longrightarrow> set (drop (num_prompt_tokens s) (token_ids s)) \<inter> set eos = {})"

definition answers_call :: "token list \<Rightarrow> call \<Rightarrow> request_output \<Rightarrow> bool" where
  "answers_call eos R out \<longleftrightarrow> out_finished out
     \<and> (\<exists>prompt ps. (out_request_id out, prompt, ps) \<in> R \<and> complete_answer eos ps (out_token_ids out))"

lemma serves_ident: "ident s' = ident s \<Longrightarrow> serves eos R s' = serves eos R s"
  by (simp add: serves_def ident_def)

lemma serves_queue:
  assumes "map ident ys = map ident xs" "\<forall>s \<in> set xs. serves eos R s"
  shows "\<forall>s \<in> set ys. serves eos R s"
proof
  fix s assume "s \<in> set ys"
  then have "ident s \<in> set (map ident xs)" unfolding assms(1) [symmetric] by simp
  then obtain u where "u \<in> set xs" "ident s = ident u" by auto
  then show "serves eos R s" using assms(2) serves_ident by blast
qed

lemma serves_applied:
  assumes s: "running_ok s" "selected_ok s" "0 < num_scheduled_tokens s" "answers (planned_entry s) x"
    and srv: "serves eos R s" and go: "\<not> finishes eos s x"
  shows "serves eos R (apply_one eos s x)"
proof (cases "sampled_token x")
  case None
  have app: "applicable s" by (rule scheduled_applicable [OF s(1-3)])
  show ?thesis using srv unfolding apply_one_None [OF app None] by (simp add: serves_def)
next
  case (Some t)
  have app: "applicable s" by (rule scheduled_applicable [OF s(1-3)])
  have "\<not> hits_stop eos (append_token s t) t" using go finishes_iff [OF app] Some by blast
  then have "t \<notin> set eos \<or> ignore_eos (params s)" by (auto simp: hits_stop_def append_token_def)
  moreover have "num_prompt_tokens s \<le> length (token_ids s)" using app by (simp add: applicable_def)
  ultimately show ?thesis using srv unfolding apply_one_Some [OF app Some]
    by (auto simp: serves_def append_token_def)
qed

lemma serves_settle [simp]: "serves eos R (settle b s) = serves eos R s"
  by (simp add: serves_def settle_def)

text \<open>Applying an accepted result: what stays queued is still being served, and what leaves is
  answered completely.\<close>

lemma apply_serves:
  assumes inv: "sched_inv sch kv" and plan: "in_flight sch = Some plan" and acc: "accepts plan res"
    and srv: "\<forall>s \<in> set (running sch). serves eos R s"
  shows "\<forall>s \<in> set (remaining eos (answered sch res) (running sch)). serves eos R s"
    and "\<forall>out \<in> set (map snd (finished_entries eos (answered sch res))). answers_call eos R out"
proof -
  note a = answered_props [OF inv plan acc]
  let ?pairs = "answered sch res"
  have sub: "\<forall>(s, x) \<in> set ?pairs. s \<in> set (running sch)" using a(3) by blast
  note mem = applied_member [OF a(4,5) sub, where eos = eos]
  show "\<forall>s \<in> set (remaining eos ?pairs (running sch)). serves eos R s"
  proof
    fix u assume "u \<in> set (remaining eos ?pairs (running sch))"
    then obtain s where s: "s \<in> set (running sch)" "seq_id s \<notin> set (map fst (finished_entries eos ?pairs))"
      "u = settle (seq_id s \<in> set (recovered_ids ?pairs)) (applied eos ?pairs s)" by (rule remaining_member)
    have "serves eos R (applied eos ?pairs s)"
    proof (cases "s \<in> set (map fst ?pairs)")
      case True
      then obtain x where x: "(s, x) \<in> set ?pairs" by auto
      have "\<not> finishes eos s x" "applied eos ?pairs s = apply_one eos s x" using mem(1) [OF s(1) x] s(2) by auto
      then show ?thesis using serves_applied a(3) [OF x] srv by simp
    next
      case False
      then show ?thesis using mem(2) [OF s(1) False] srv s(1) by simp
    qed
    then show "serves eos R u" by (simp add: s(3))
  qed
  show "\<forall>out \<in> set (map snd (finished_entries eos ?pairs)). answers_call eos R out"
  proof
    fix out assume "out \<in> set (map snd (finished_entries eos ?pairs))"
    from output_tokens [OF inv plan acc this] obtain s t where s: "s \<in> set (running sch)"
      "out_request_id out = request_id s" "out_finished out"
      "out_token_ids out = drop (num_prompt_tokens s) (token_ids s) @ [t]"
      "length (out_token_ids out) \<le> max_tokens (params s)"
      "length (out_token_ids out) = max_tokens (params s) \<or> t \<in> set eos \<and> \<not> ignore_eos (params s)" by blast
    then show "answers_call eos R out" using srv
      by (fastforce simp: answers_call_def complete_answer_def serves_def)
  qed
qed

section \<open>A step of the engine\<close>

definition engine_serves :: "token list \<Rightarrow> call \<Rightarrow> ('m, 's, 't) engine_core \<Rightarrow> bool" where
  "engine_serves eos R eng \<longleftrightarrow> eos_token_ids (eng_scheduler eng) = eos \<and> (\<forall>s \<in> set (eng_queue eng). serves eos R s)"

definition engine_servable :: "('m, 's, 't) engine_core \<Rightarrow> bool" where
  "engine_servable eng \<longleftrightarrow> servable (eng_scheduler eng) (eng_kv eng)"

definition engine_work :: "('m, 's, 't) engine_core \<Rightarrow> nat \<times> nat" where
  "engine_work eng = work_left (eng_scheduler eng)"

text \<open>A successful step with work queued: the measure decreases, the limits stay, and every
  request is still served or answered.\<close>

lemma engine_step_serves:
  assumes ops: "ops_no_panic ops" and inv: "engine_inv eng" and srv: "engine_servable eng" "engine_serves eos R eng"
    and run: "engine_is_running eng" and call: "engine_step ops eng = (Ok outs, eng')"
  shows "(engine_work eng', engine_work eng) \<in> work_order" "engine_servable eng'" "engine_serves eos R eng'"
    "\<forall>out \<in> set outs. answers_call eos R out"
proof -
  have ne: "eng_queue eng \<noteq> []"
    using run by (auto simp: engine_is_running_def is_running_def eng_queue_def queue_def)
  obtain plan sch kv result where
    p: "plan_step (block_hasher ops) (eng_scheduler eng) (eng_kv eng) = (Ok (Some plan), sch, kv)"
    and acc: "accepts plan result"
    and app: "apply_step_result (block_hasher ops) result sch kv = (Ok outs, eng_scheduler eng', eng_kv eng')"
    using ne by (cases rule: engine_step_cases [OF ops inv call]) auto
  have si: "sched_inv (eng_scheduler eng) (eng_kv eng)" using inv by (simp add: engine_inv_def)
  note d = step_decreases [OF si _ p acc app]
  show "(engine_work eng', engine_work eng) \<in> work_order" "engine_servable eng'"
    using d srv(1) by (simp_all add: engine_work_def engine_servable_def)
  note pinv = plan_step_inv [OF si p]
  have fly: "in_flight sch = Some plan" by (rule plan_step_plan(2) [OF si p])
  have eos: "eos_token_ids sch = eos" using plan_step_config [OF si p] srv(2) by (simp add: engine_serves_def)
  have "map ident (queue sch) = map ident (eng_queue eng)" using pinv unfolding eng_queue_def by (elim conjE)
  from serves_queue [OF this] srv(2) have sq: "\<forall>s \<in> set (queue sch). serves eos R s" by (simp add: engine_serves_def)
  then have sr: "\<forall>s \<in> set (running sch). serves eos R s" by (simp add: queue_def)
  note as = apply_serves [OF conjunct1 [OF pinv] fly acc sr]
  have res: "outs = map snd (finished_entries eos (answered sch result))"
    "eng_scheduler eng' = sch\<lparr>running := remaining eos (answered sch result) (running sch), in_flight := None\<rparr>"
    using apply_step_result_inv [OF conjunct1 [OF pinv] fly acc, of "block_hasher ops"] app eos by auto
  show "\<forall>out \<in> set outs. answers_call eos R out" using as(2) by (simp only: res(1))
  have "\<forall>s \<in> set (eng_queue eng'). serves eos R s"
    using as(1) sq by (auto simp: eng_queue_def res(2) queue_def)
  then show "engine_serves eos R eng'" using eos by (simp add: engine_serves_def res(2))
qed

lemma engine_step_limits:
  assumes ops: "ops_no_panic ops" and inv: "engine_inv eng" and call: "engine_step ops eng = (r, eng')"
  shows "limits (eng_scheduler eng') = limits (eng_scheduler eng) \<and> kv_capacity (eng_kv eng') = kv_capacity (eng_kv eng)"
proof (cases rule: engine_step_cases [OF assms])
  case (1 e)
  then show ?thesis by (simp add: failed_clean_def)
next
  case (2)
  then show ?thesis by simp
next
  case (3 plan sch kv result outs)
  have si: "sched_inv (eng_scheduler eng) (eng_kv eng)" using inv by (simp add: engine_inv_def)
  have "eng_scheduler eng' = sch\<lparr>running := remaining (eos_token_ids sch) (answered sch result) (running sch), in_flight := None\<rparr>"
    using apply_step_result_inv [OF conjunct1 [OF plan_step_inv [OF si 3(2)]] plan_step_plan(2) [OF si 3(2)] 3(3), of "block_hasher ops"] 3(4)
    by auto
  then show ?thesis using plan_step_limits [OF si 3(2)] 3(6) by (simp add: limits_def)
qed

end
