(* ===== verification/Step_Loop.thy ===== *)
theory Step_Loop
  imports Prelude
begin

text \<open>
  A loop that drives a stepping machine until it is idle, collecting what the steps put out. The
  locale names what such a loop relies on: a good state has a good successor and gives up
  some work, the outputs answer pending requests exactly once, and a failed step leaves a clean
  state. Its lemma is total correctness of every function that satisfies the loop's equation.
\<close>

locale step_loop =
  fixes is_busy :: "'e \<Rightarrow> bool"
    and step :: "'e \<Rightarrow> ('f, 'o list) outcome \<times> 'e"
    and good :: "'e \<Rightarrow> bool"
    and clean :: "'e \<Rightarrow> bool"
    and answer :: "'o \<Rightarrow> bool"
    and key :: "'o \<Rightarrow> 'k"
    and pending :: "'e \<Rightarrow> 'k multiset"
    and work :: "('e \<times> 'e) set"
    and frame :: "'e \<Rightarrow> 'l"
  assumes work_wf: "wf work"
    and step_good: "good e \<Longrightarrow> is_busy e \<Longrightarrow> step e = (Ok outs, e') \<Longrightarrow> good e' \<and> (e', e) \<in> work"
    and step_answers: "good e \<Longrightarrow> is_busy e \<Longrightarrow> step e = (Ok outs, e') \<Longrightarrow>
        (\<forall>out \<in> set outs. answer out) \<and> mset (map key outs) + pending e' = pending e"
    and step_fails: "good e \<Longrightarrow> is_busy e \<Longrightarrow> step e = (Inl f, e') \<Longrightarrow> f \<noteq> Panic \<and> clean e'"
    and step_frame: "good e \<Longrightarrow> is_busy e \<Longrightarrow> step e = (r, e') \<Longrightarrow> frame e' = frame e"
    and idle_clean: "good e \<Longrightarrow> \<not> is_busy e \<Longrightarrow> clean e \<and> pending e = {#}"
begin

lemma loop_returns:
  assumes loop: "\<And>e acc. loop e acc = (if \<not> is_busy e then Some (Ok acc, e)
      else case step e of (Inl f, e') \<Rightarrow> Some (Inl f, e') | (Inr outs, e') \<Rightarrow> loop e' (acc @ outs))"
    and good: "good e" and acc: "\<forall>out \<in> set acc. answer out"
  shows "\<exists>r e'. loop e acc = Some (r, e') \<and> clean e' \<and> r \<noteq> Panicked \<and> frame e' = frame e
    \<and> (\<forall>outs. r = Ok outs \<longrightarrow> (\<forall>out \<in> set outs. answer out) \<and> mset (map key outs) = mset (map key acc) + pending e)"
  using good acc
proof (induction e arbitrary: acc rule: wf_induct_rule [OF work_wf])
  case (1 e)
  show ?case
  proof (cases "is_busy e")
    case False
    then show ?thesis using idle_clean [OF 1(2) False] 1(3) by (subst loop) simp
  next
    case busy: True
    obtain r e1 where s: "step e = (r, e1)" by force
    show ?thesis
    proof (cases r)
      case (Inl f)
      then have "loop e acc = Some (Inl f, e1)" using busy s by (subst loop) simp
      then show ?thesis using step_fails [OF 1(2) busy, of f e1] step_frame [OF 1(2) busy s] s Inl by simp
    next
      case (Inr outs)
      have s: "step e = (Ok outs, e1)" using s Inr by simp
      have next_loop: "loop e acc = loop e1 (acc @ outs)" using busy s by (subst loop) simp
      note g = step_good [OF 1(2) busy s] and a = step_answers [OF 1(2) busy s] and f = step_frame [OF 1(2) busy s]
      have acc': "\<forall>out \<in> set (acc @ outs). answer out" using a 1(3) by auto
      have sum: "mset (map key (acc @ outs)) + pending e1 = mset (map key acc) + pending e"
        using conjunct2 [OF a] by (simp add: add.assoc)
      show ?thesis using 1(1) [OF conjunct2 [OF g] conjunct1 [OF g] acc'] unfolding next_loop f sum .
    qed
  qed
qed

end

end
