(* ===== verification/Generate.thy ===== *)
theory Generate
  imports Serving Step_Loop
begin

text \<open>
  \<^verbatim>\<open>LLM::generate\<close> of \<^verbatim>\<open>llm.rs\<close>: one blocking call. It checks the parameters, tokenizes and
  checks the prompts, admits the requests, steps the engine until nothing is queued, puts the
  outputs in input order and detokenizes them. The loop is a partial function, so that not
  returning is the value \<open>None\<close>; the theorem \<open>generate_returns\<close> shows that it is never reached
  within the limits that the composition root establishes.

  The tokenizer is a pair of parameters. Logging, timing and the diagnostic modes behind the
  \<^verbatim>\<open>internal-golden\<close> feature are left out.
\<close>

datatype prompt = Text string | TokenIds "token list"

datatype generate_error =
    ParamsCountMismatch nat nat
  | InvalidParams nat sampling_params_validation_error
  | EncodeFailed string
  | OutsideVocabulary nat nat token nat
  | EmptyPrompt nat
  | ContextBudgetExceeded nat nat
  | AdmissionFailed engine_error
  | RuntimeFailure engine_error
  | AcceptedTwice nat
  | UnknownRequest nat
  | CompletedTwice nat
  | DidNotComplete nat nat
  | DetokenizationFailed nat string

record tokenizer =
  tok_encode :: "string \<Rightarrow> (string, token list) outcome"
  tok_decode :: "token list \<Rightarrow> (string, string) outcome"

record ('m, 's, 't) llm =
  llm_engine :: "('m, 's, 't) engine_core"
  llm_tokenizer :: tokenizer
  llm_max_model_len :: nat

section \<open>Checking the call\<close>

definition validate_params_at :: "nat \<times> sampling_params \<Rightarrow> (generate_error, unit) outcome" where
  "validate_params_at = (\<lambda>(i, ps). map_err (InvalidParams i) (validate_sampling_params ps))"

definition tokenize_prompt :: "tokenizer \<Rightarrow> prompt \<Rightarrow> (generate_error, token list) outcome" where
  "tokenize_prompt tk p = (case p of Text s \<Rightarrow> map_err EncodeFailed (tok_encode tk s) | TokenIds ids \<Rightarrow> Ok ids)"

definition validate_prompt_token_ids :: "token list \<Rightarrow> nat \<Rightarrow> nat \<Rightarrow> (generate_error, unit) outcome" where
  "validate_prompt_token_ids tokens vocab position =
     (case find (\<lambda>(offset, t). vocab \<le> unat t) (enumerate 0 tokens) of
        Some (offset, t) \<Rightarrow> Error (OutsideVocabulary position offset t vocab)
      | None \<Rightarrow> Ok ())"

definition check_prompt ::
    "nat \<Rightarrow> nat \<Rightarrow> nat \<times> token list \<times> sampling_params \<Rightarrow> (generate_error, unit) outcome" where
  "check_prompt vocab max_len = (\<lambda>(position, tokens, ps).
     rbind (validate_prompt_token_ids tokens vocab position) (\<lambda>_.
     if tokens = [] then Error (EmptyPrompt position)
     else case checked_add (length tokens) (max_tokens ps) of
        None \<Rightarrow> Error (ContextBudgetExceeded position max_len)
      | Some l \<Rightarrow> if max_len < l then Error (ContextBudgetExceeded position max_len) else Ok ()))"

section \<open>Outputs in input order\<close>

fun input_positions :: "nat \<Rightarrow> nat list \<Rightarrow> (nat \<rightharpoonup> nat) \<Rightarrow> (generate_error, nat \<rightharpoonup> nat) outcome" where
  "input_positions i [] m = Ok m"
| "input_positions i (rid # rids) m =
     (if m rid \<noteq> None then Error (AcceptedTwice rid) else input_positions (i + 1) rids (m(rid \<mapsto> i)))"

fun place_outputs ::
    "nat list \<Rightarrow> (nat \<rightharpoonup> nat) \<Rightarrow> request_output list \<Rightarrow> request_output option list \<Rightarrow>
      (generate_error, request_output option list) outcome" where
  "place_outputs rids m [] placed = Ok placed"
| "place_outputs rids m (out # outs) placed =
     (case m (out_request_id out) of
        None \<Rightarrow> Error (UnknownRequest (out_request_id out))
      | Some i \<Rightarrow>
          rbind (index placed i) (\<lambda>old.
          if old \<noteq> None then rbind (index rids i) (\<lambda>rid. Error (CompletedTwice rid))
          else place_outputs rids m outs (placed[i := Some out])))"

definition order_request_outputs :: "nat list \<Rightarrow> request_output list \<Rightarrow> (generate_error, request_output list) outcome" where
  "order_request_outputs rids outs =
     rbind (input_positions 0 rids Map.empty) (\<lambda>m.
     rbind (place_outputs rids m outs (replicate (length rids) None)) (\<lambda>placed.
     rcollect (\<lambda>(i, out). case out of Some out \<Rightarrow> Ok out
       | None \<Rightarrow> rbind (index rids i) (\<lambda>rid. Error (DidNotComplete rid i))) (enumerate 0 placed)))"

text \<open>\<^verbatim>\<open>results.iter_mut().zip(sampling_params)\<close>\<close>

fun detokenize :: "tokenizer \<Rightarrow> request_output list \<Rightarrow> sampling_params list \<Rightarrow> (generate_error, request_output list) outcome" where
  "detokenize tk (out # outs) (ps # pss) =
     rbind (map_err (DetokenizationFailed (out_request_id out)) (tok_decode tk (out_token_ids out))) (\<lambda>text.
     rbind (detokenize tk outs pss) (\<lambda>outs'. Ok (out\<lparr>out_text := text\<rparr> # outs')))"
| "detokenize tk outs _ = Ok outs"

section \<open>The call\<close>

partial_function (option) generate_loop ::
    "('m, 's, 't) engine_ops \<Rightarrow> ('m, 's, 't) engine_core \<Rightarrow> request_output list \<Rightarrow>
      ((engine_error, request_output list) outcome \<times> ('m, 's, 't) engine_core) option" where
  "generate_loop ops eng done =
     (if \<not> engine_is_running eng then Some (Ok done, eng)
      else case engine_step ops eng of
         (Inl e, eng') \<Rightarrow> Some (Inl e, eng')
       | (Inr outs, eng') \<Rightarrow> generate_loop ops eng' (done @ outs))"

definition checked_prompts ::
    "('m, 's, 't) engine_ops \<Rightarrow> ('m, 's, 't) llm \<Rightarrow> prompt list \<Rightarrow> sampling_params list \<Rightarrow>
      (generate_error, token list list) outcome" where
  "checked_prompts ops l prompts pss =
     rbind (rcollect (tokenize_prompt (llm_tokenizer l)) prompts) (\<lambda>toks.
     rbind (rcollect (check_prompt (lm_vocab_size ops (eng_model (llm_engine l))) (llm_max_model_len l))
       (enumerate 0 (zip toks pss))) (\<lambda>_. Ok toks))"

definition run_call ::
    "('m, 's, 't) engine_ops \<Rightarrow> ('m, 's, 't) llm \<Rightarrow> token list list \<Rightarrow> sampling_params list \<Rightarrow>
      ((generate_error, request_output list) outcome \<times> ('m, 's, 't) llm) option" where
  "run_call ops l toks pss =
     (case add_requests ops (zip toks pss) (llm_engine l) of
        (Inl e, eng) \<Rightarrow> Some (map_err AdmissionFailed (Inl e), l\<lparr>llm_engine := eng\<rparr>)
      | (Inr rids, eng) \<Rightarrow>
          (case generate_loop ops eng [] of
             None \<Rightarrow> None
           | Some (r, eng') \<Rightarrow>
               Some (rbind (map_err RuntimeFailure r) (\<lambda>outs.
                     rbind (order_request_outputs rids outs) (\<lambda>results. detokenize (llm_tokenizer l) results pss)),
                 l\<lparr>llm_engine := eng'\<rparr>)))"

definition generate ::
    "('m, 's, 't) engine_ops \<Rightarrow> ('m, 's, 't) llm \<Rightarrow> prompt list \<Rightarrow> sampling_params list \<Rightarrow>
      ((generate_error, request_output list) outcome \<times> ('m, 's, 't) llm) option" where
  "generate ops l prompts pss =
     (if length pss \<noteq> length prompts then Some (Error (ParamsCountMismatch (length prompts) (length pss)), l)
      else case rcollect validate_params_at (enumerate 0 pss) of
        Inl e \<Rightarrow> Some (Inl e, l)
      | Inr _ \<Rightarrow>
          if prompts = [] then Some (Ok [], l)
          else (case checked_prompts ops l prompts pss of
              Inl e \<Rightarrow> Some (Inl e, l)
            | Inr toks \<Rightarrow> run_call ops l toks pss))"

section \<open>The loop returns\<close>

lemma drained_iff: "engine_inv eng \<Longrightarrow> \<not> engine_is_running eng \<Longrightarrow> drained eng"
proof -
  assume inv: "engine_inv eng" and stop: "\<not> engine_is_running eng"
  have q: "queue (eng_scheduler eng) = []" using stop by (simp add: engine_is_running_def is_running_def queue_def)
  have "kv_inv (eng_kv eng) {#}" using inv q by (simp add: engine_inv_def sched_inv_def sched_core_def)
  then have "kv_num_free_blocks (eng_kv eng) = kv_capacity (eng_kv eng)"
    using kv.free_count [of "eng_kv eng" "{#}"] by (simp add: occupied_def)
  then show ?thesis using q by (simp add: drained_def eng_queue_def)
qed

text \<open>The engine is such a machine: its step is the one the loop of \<^verbatim>\<open>generate\<close> drives.\<close>

definition engine_good ::
    "('m, 's, 't) engine_ops \<Rightarrow> token list \<Rightarrow> call \<Rightarrow> ('m, 's, 't) engine_core \<Rightarrow> bool" where
  "engine_good ops eos R eng \<longleftrightarrow> ops_no_panic ops \<and> engine_inv eng \<and> engine_servable eng \<and> engine_serves eos R eng"

definition engine_frame :: "('m, 's, 't) engine_core \<Rightarrow> nat \<times> nat \<times> nat \<times> token list" where
  "engine_frame eng = (kv_capacity (eng_kv eng), limits (eng_scheduler eng))"

interpretation el: step_loop engine_is_running "engine_step ops" "engine_good ops eos R"
  "\<lambda>eng. engine_inv eng \<and> drained eng" "answers_call eos R" out_request_id
  "\<lambda>eng. mset (map request_id (eng_queue eng))" "inv_image work_order engine_work" engine_frame
  for ops eos R
proof (unfold_locales, goal_cases)
  case 1
  show ?case by (intro wf_inv_image) auto
next
  case (2 eng outs eng')
  then have g: "ops_no_panic ops" "engine_inv eng" "engine_servable eng" "engine_serves eos R eng" by (simp_all add: engine_good_def)
  have "engine_inv eng'" by (cases rule: engine_step_cases [OF g(1,2) 2(3)]) auto
  then show ?case using engine_step_serves [OF g 2(2,3)] g(1) by (simp add: engine_good_def)
next
  case (3 eng outs eng')
  then have g: "ops_no_panic ops" "engine_inv eng" "engine_servable eng" "engine_serves eos R eng" by (simp_all add: engine_good_def)
  show ?case using engine_step_serves(4) [OF g 3(2,3)] engine_step_requests [OF g(1,2) 3(3)] by simp
next
  case (4 eng f eng')
  then have g: "ops_no_panic ops" "engine_inv eng" by (simp_all add: engine_good_def)
  show ?case by (cases rule: engine_step_cases [OF g 4(3)]) (auto simp: failed_clean_def)
next
  case (5 eng r eng')
  then show ?case using engine_step_limits [of ops eng r eng'] by (simp add: engine_good_def engine_frame_def)
next
  case (6 eng)
  then have "drained eng" using drained_iff by (auto simp: engine_good_def)
  then show ?case using 6 by (simp add: engine_good_def drained_def)
qed

lemma generate_loop_returns:
  assumes "ops_no_panic ops" "engine_inv eng" "engine_servable eng" "engine_serves eos R eng"
    and "\<forall>out \<in> set done. answers_call eos R out"
  shows "\<exists>r eng'. generate_loop ops eng done = Some (r, eng') \<and> engine_inv eng' \<and> drained eng' \<and> r \<noteq> Panicked
    \<and> kv_capacity (eng_kv eng') = kv_capacity (eng_kv eng) \<and> limits (eng_scheduler eng') = limits (eng_scheduler eng)
    \<and> (\<forall>outs. r = Ok outs \<longrightarrow> (\<forall>out \<in> set outs. answers_call eos R out)
         \<and> mset (map out_request_id outs) = mset (map out_request_id done) + mset (map request_id (eng_queue eng)))"
proof -
  have "engine_good ops eos R eng" using assms by (simp add: engine_good_def)
  from el.loop_returns [of "generate_loop ops", OF generate_loop.simps this assms(5)] show ?thesis
    by (auto simp: engine_frame_def)
qed

section \<open>The order of the results\<close>

lemma input_positions_ok:
  assumes "distinct rids" "\<forall>rid \<in> set rids. m rid = None"
  shows "\<exists>m'. input_positions i rids m = Ok m' \<and> (\<forall>j < length rids. m' (rids ! j) = Some (i + j))
    \<and> (\<forall>rid. rid \<notin> set rids \<longrightarrow> m' rid = m rid)"
  using assms
proof (induction rids arbitrary: i m)
  case Nil
  then show ?case by simp
next
  case (Cons rid rids)
  have fresh: "\<forall>r \<in> set rids. (m(rid \<mapsto> i)) r = None" using Cons.prems by auto
  have "distinct rids" using Cons.prems(1) by simp
  from Cons.IH [OF this fresh, of "i + 1"] obtain m' where m: "input_positions (i + 1) rids (m(rid \<mapsto> i)) = Ok m'"
    "\<forall>j < length rids. m' (rids ! j) = Some (i + 1 + j)" "\<forall>r. r \<notin> set rids \<longrightarrow> m' r = (m(rid \<mapsto> i)) r"
    by blast
  have "m' ((rid # rids) ! j) = Some (i + j)" if "j < length (rid # rids)" for j
    using m(2,3) Cons.prems(1) that by (cases j) auto
  then show ?case using m Cons.prems by (intro exI [of _ m']) auto
qed

lemma place_outputs_ok:
  assumes "length placed = length rids" "\<forall>j < length rids. m (rids ! j) = Some j" "distinct rids"
    "distinct (map out_request_id outs)" "set (map out_request_id outs) \<subseteq> set rids"
    "\<forall>j < length rids. rids ! j \<in> set (map out_request_id outs) \<longrightarrow> placed ! j = None"
  shows "\<exists>placed'. place_outputs rids m outs placed = Ok placed' \<and> length placed' = length rids
    \<and> (\<forall>j < length rids. (rids ! j \<notin> set (map out_request_id outs) \<longrightarrow> placed' ! j = placed ! j)
        \<and> (\<forall>out \<in> set outs. out_request_id out = rids ! j \<longrightarrow> placed' ! j = Some out))"
  using assms
proof (induction outs arbitrary: placed)
  case Nil
  then show ?case by simp
next
  case (Cons out outs)
  obtain i where i: "i < length rids" "rids ! i = out_request_id out"
    using Cons.prems(5) by (auto simp: in_set_conv_nth)
  have none: "placed ! i = None" using Cons.prems(6) i by simp
  have other: "rids ! j = out_request_id out \<longleftrightarrow> j = i" if "j < length rids" for j
    using that i Cons.prems(3) nth_eq_iff_index_eq by metis
  have "\<forall>j < length rids. rids ! j \<in> set (map out_request_id outs) \<longrightarrow> placed[i := Some out] ! j = None"
  proof (intro allI impI)
    fix j assume j: "j < length rids" "rids ! j \<in> set (map out_request_id outs)"
    then have "j \<noteq> i" using Cons.prems(4) i(2) by (metis distinct.simps(2) list.simps(9))
    then show "placed[i := Some out] ! j = None" using Cons.prems(6) j by simp
  qed
  then obtain placed' where p: "place_outputs rids m outs (placed[i := Some out]) = Ok placed'" "length placed' = length rids"
    "\<forall>j < length rids. (rids ! j \<notin> set (map out_request_id outs) \<longrightarrow> placed' ! j = placed[i := Some out] ! j)
        \<and> (\<forall>out \<in> set outs. out_request_id out = rids ! j \<longrightarrow> placed' ! j = Some out)"
    using Cons.IH [of "placed[i := Some out]"] Cons.prems by auto
  have "m (out_request_id out) = Some i" using Cons.prems(2) i by metis
  then have eq: "place_outputs rids m (out # outs) placed = Ok placed'"
    using p(1) none i(1) Cons.prems(1) by simp
  have fresh: "\<forall>o' \<in> set outs. out_request_id o' \<noteq> out_request_id out" using Cons.prems(4) by (metis distinct.simps(2) image_eqI list.set_map list.simps(9))
  have "placed' ! i = Some out" using p(3) i Cons.prems(1) fresh by auto
  then have "(rids ! j \<notin> set (map out_request_id (out # outs)) \<longrightarrow> placed' ! j = placed ! j)
      \<and> (\<forall>o' \<in> set (out # outs). out_request_id o' = rids ! j \<longrightarrow> placed' ! j = Some o')" if "j < length rids" for j
  proof (cases "j = i")
    case True
    then show ?thesis using \<open>placed' ! i = Some out\<close> fresh i by auto
  next
    case False
    then show ?thesis using p(3) that other [OF that] by auto
  qed
  then show ?case using eq p(2) by blast
qed

lemma order_request_outputs_ok:
  assumes "distinct rids" "mset (map out_request_id outs) = mset rids"
  shows "\<exists>results. order_request_outputs rids outs = Ok results \<and> map out_request_id results = rids \<and> set results = set outs"
proof -
  have ids: "distinct (map out_request_id outs)" "set (map out_request_id outs) = set rids"
    using assms mset_eq_imp_distinct_iff mset_eq_setD by blast+
  obtain m where m: "input_positions 0 rids Map.empty = Ok m" "\<forall>j < length rids. m (rids ! j) = Some j"
    using input_positions_ok [OF assms(1), of Map.empty 0] by auto
  obtain placed where p: "place_outputs rids m outs (replicate (length rids) None) = Ok placed" "length placed = length rids"
    "\<forall>j < length rids. \<forall>out \<in> set outs. out_request_id out = rids ! j \<longrightarrow> placed ! j = Some out"
    using place_outputs_ok [of "replicate (length rids) None" rids m outs] m(2) assms(1) ids by auto
  have hit: "\<exists>out \<in> set outs. out_request_id out = rids ! j \<and> placed ! j = Some out" if "j < length rids" for j
  proof -
    have "rids ! j \<in> set (map out_request_id outs)" using that ids(2) by simp
    then obtain out where "out \<in> set outs" "out_request_id out = rids ! j" by auto
    then show ?thesis using p(3) that by blast
  qed
  let ?results = "map the placed"
  have "rcollect (\<lambda>(i, out). case out of Some out \<Rightarrow> Ok out
       | None \<Rightarrow> rbind (index rids i) (\<lambda>rid. Error (DidNotComplete rid i))) (enumerate 0 placed) = Ok (map (the \<circ> snd) (enumerate 0 placed))"
    by (rule rcollect_total) (use hit p(2) in \<open>fastforce simp: in_set_enumerate_eq\<close>)
  then have "order_request_outputs rids outs = Ok ?results"
    using m(1) p(1) by (simp add: order_request_outputs_def map_map [symmetric] del: map_map)
  moreover have ids': "map out_request_id ?results = rids"
    using hit p(2) by (intro nth_equalityI) force+
  moreover have "set ?results \<subseteq> set outs" using hit p(2) by (force simp: in_set_conv_nth)
  moreover have "set outs \<subseteq> set ?results"
  proof
    fix out assume out: "out \<in> set outs"
    then have "out_request_id out \<in> set (map out_request_id ?results)" using ids(2) ids' by auto
    then obtain o' where o': "o' \<in> set ?results" "out_request_id o' = out_request_id out" by (metis imageE set_map)
    then have "o' = out" using calculation(3) out ids(1) by (auto simp: distinct_map inj_on_def)
    then show "out \<in> set ?results" using o' by simp
  qed
  ultimately show ?thesis by blast
qed

lemma detokenize_no_panic:
  "(\<And>ts. tok_decode tk ts \<noteq> Panicked) \<Longrightarrow> detokenize tk outs pss \<noteq> Panicked"
proof (induction outs arbitrary: pss)
  case (Cons out outs)
  then show ?case by (cases pss) (auto simp: rbind_Inl_iff)
qed simp

lemma detokenize_ok:
  assumes "length outs = length pss" "detokenize tk outs pss = Ok results"
  shows "length results = length outs
      \<and> (\<forall>i < length outs. out_request_id (results ! i) = out_request_id (outs ! i) \<and> out_token_ids (results ! i) = out_token_ids (outs ! i)
          \<and> out_finished (results ! i) = out_finished (outs ! i)
          \<and> tok_decode tk (out_token_ids (outs ! i)) = Ok (out_text (results ! i)))"
  using assms
proof (induction outs arbitrary: pss results)
  case (Cons out outs)
  obtain ps pss' where pss: "pss = ps # pss'" using Cons.prems by (cases pss) auto
  obtain str res where r: "tok_decode tk (out_token_ids out) = Ok str" "detokenize tk outs pss' = Ok res"
    "results = out\<lparr>out_text := str\<rparr> # res" using Cons.prems by (auto simp: pss rbind_Ok_iff)
  show ?case using Cons.IH [OF _ r(2)] Cons.prems(1) r by (auto simp: pss nth_Cons split: nat.splits)
qed simp

section \<open>The call returns\<close>

text \<open>What the composition root establishes: an idle engine, a token budget of two, one sequence,
  and a cache that holds the longest admitted request.\<close>

definition llm_ready :: "('m, 's, 't) llm \<Rightarrow> bool" where
  "llm_ready l \<longleftrightarrow> engine_inv (llm_engine l) \<and> \<not> engine_is_running (llm_engine l)
     \<and> 1 < max_num_batched_tokens (eng_scheduler (llm_engine l)) \<and> 0 < max_num_seqs (eng_scheduler (llm_engine l))
     \<and> llm_max_model_len l \<le> kv_capacity (eng_kv (llm_engine l)) * BLOCK_SIZE"

definition tokenizer_total :: "tokenizer \<Rightarrow> bool" where
  "tokenizer_total tk \<longleftrightarrow> (\<forall>s. tok_encode tk s \<noteq> Panicked) \<and> (\<forall>ts. tok_decode tk ts \<noteq> Panicked)"

lemma validated_max_tokens: "validate_sampling_params ps = Ok u \<Longrightarrow> 0 < max_tokens ps"
  by (auto simp: validate_sampling_params_def rbind_Ok_iff validation_error_def split: if_splits)

lemma validate_sampling_params_no_panic: "validate_sampling_params ps \<noteq> Panicked"
  by (auto simp: validate_sampling_params_def rbind_Inl_iff validation_error_def validate_top_k_def validate_top_p_def
      validate_additive_penalty_def split: option.splits if_splits)

lemma validated_calls:
  assumes "rcollect validate_params_at (enumerate 0 pss) = Ok us" "ps \<in> set pss"
  shows "0 < max_tokens ps"
proof -
  obtain i where i: "i < length pss" "pss ! i = ps" using assms(2) by (auto simp: in_set_conv_nth)
  then have "validate_params_at (i, ps) = Ok (us ! i)"
    using assms(1) by (auto simp: rcollect_Ok_iff nth_enumerate_eq)
  then show ?thesis using validated_max_tokens by (simp add: validate_params_at_def)
qed

lemma validate_params_at_no_panic: "rcollect validate_params_at xs \<noteq> Panicked"
  using validate_sampling_params_no_panic by (auto simp: validate_params_at_def dest!: rcollect_Panic)

lemma check_prompt_no_panic: "check_prompt v n q \<noteq> Panicked"
  by (auto simp: check_prompt_def validate_prompt_token_ids_def rbind_Inl_iff split: prod.splits option.splits if_splits)

lemma checked_prompts_no_panic:
  "tokenizer_total (llm_tokenizer l) \<Longrightarrow> checked_prompts ops l prompts pss \<noteq> Panicked"
  using check_prompt_no_panic
  by (auto simp: checked_prompts_def tokenizer_total_def tokenize_prompt_def rbind_Inl_iff
      dest!: rcollect_Panic split: prompt.splits)

lemma check_prompt_ok:
  "check_prompt v n (i, toks, ps) = Ok u \<Longrightarrow> toks \<noteq> [] \<and> length toks + max_tokens ps \<le> n \<and> length toks + max_tokens ps < usize_bound"
  by (auto simp: check_prompt_def rbind_Ok_iff checked_add_def split: option.splits if_splits)

lemma checked_prompts_ok:
  assumes "checked_prompts ops l prompts pss = Ok toks" "length pss = length prompts"
  shows "length toks = length prompts"
    and "\<forall>i < length prompts. tokenize_prompt (llm_tokenizer l) (prompts ! i) = Ok (toks ! i)"
    and "\<forall>i < length prompts. toks ! i \<noteq> [] \<and> length (toks ! i) + max_tokens (pss ! i) \<le> llm_max_model_len l
          \<and> length (toks ! i) + max_tokens (pss ! i) < usize_bound"
proof -
  obtain us where t: "rcollect (tokenize_prompt (llm_tokenizer l)) prompts = Ok toks"
    and c: "rcollect (check_prompt (lm_vocab_size ops (eng_model (llm_engine l))) (llm_max_model_len l)) (enumerate 0 (zip toks pss)) = Ok us"
    using assms(1) by (auto simp: checked_prompts_def rbind_Ok_iff)
  show len: "length toks = length prompts"
    and "\<forall>i < length prompts. tokenize_prompt (llm_tokenizer l) (prompts ! i) = Ok (toks ! i)"
    using t by (simp_all add: rcollect_Ok_iff)
  show "\<forall>i < length prompts. toks ! i \<noteq> [] \<and> length (toks ! i) + max_tokens (pss ! i) \<le> llm_max_model_len l
          \<and> length (toks ! i) + max_tokens (pss ! i) < usize_bound"
    using c len assms(2) check_prompt_ok by (auto simp: rcollect_Ok_iff nth_enumerate_eq)
qed

text \<open>The requests of a call by id.\<close>

definition call_of :: "nat \<Rightarrow> token list list \<Rightarrow> sampling_params list \<Rightarrow> call" where
  "call_of rid toks pss = {(rid + i, toks ! i, pss ! i) | i. i < length toks}"

lemma new_sequences_nth:
  "i < length rs \<Longrightarrow> new_sequences rid sid rs ! i = seq_new (rid + i) (sid + i) (fst (rs ! i)) (snd (rs ! i))"
  by (induction rid sid rs arbitrary: i rule: new_sequences.induct) (auto simp: nth_Cons split: nat.splits)

lemma new_sequences_served:
  assumes "length pss = length toks" "s \<in> set (new_sequences rid sid (zip toks pss))"
  shows "serves eos (call_of rid toks pss) s"
    and "\<forall>i < length toks. length (toks ! i) + max_tokens (pss ! i) \<le> c * BLOCK_SIZE \<Longrightarrow> fits_cache c s"
proof -
  obtain i where i: "i < length toks" "s = seq_new (rid + i) (sid + i) (toks ! i) (pss ! i)"
    using assms by (auto simp: in_set_conv_nth new_sequences_nth)
  then show "serves eos (call_of rid toks pss) s" by (auto simp: serves_def seq_new_def call_of_def)
  show "fits_cache c s" if "\<forall>i < length toks. length (toks ! i) + max_tokens (pss ! i) \<le> c * BLOCK_SIZE"
    using that i by (simp add: fits_cache_def seq_new_def)
qed

text \<open>The outcome of a call that was admitted.\<close>

definition results_ok :: "token list \<Rightarrow> tokenizer \<Rightarrow> sampling_params list \<Rightarrow> request_output list \<Rightarrow> bool" where
  "results_ok eos tk pss outs \<longleftrightarrow> length outs = length pss
     \<and> (\<forall>i < length pss. out_finished (outs ! i) \<and> complete_answer eos (pss ! i) (out_token_ids (outs ! i))
          \<and> tok_decode tk (out_token_ids (outs ! i)) = Ok (out_text (outs ! i)))"

lemma run_call_returns:
  assumes ops: "ops_no_panic ops" and tk: "tokenizer_total (llm_tokenizer l)" and ready: "llm_ready l"
    and len: "length pss = length toks" "toks \<noteq> []" "length toks < usize_bound"
    and ok: "\<forall>i < length toks. toks ! i \<noteq> [] \<and> 0 < max_tokens (pss ! i) \<and> length (toks ! i) + max_tokens (pss ! i) \<le> llm_max_model_len l
          \<and> length (toks ! i) + max_tokens (pss ! i) < usize_bound"
  defines "eng \<equiv> llm_engine l"
  shows "\<exists>r eng'. run_call ops l toks pss = Some (r, l\<lparr>llm_engine := eng'\<rparr>) \<and> r \<noteq> Panicked \<and> engine_inv eng' \<and> drained eng'
    \<and> kv_capacity (eng_kv eng') = kv_capacity (eng_kv eng) \<and> limits (eng_scheduler eng') = limits (eng_scheduler eng)
    \<and> (\<forall>outs. r = Ok outs \<longrightarrow> results_ok (eos_token_ids (eng_scheduler eng)) (llm_tokenizer l) pss outs)"
proof -
  let ?sch = "eng_scheduler eng" and ?cap = "kv_capacity (eng_kv eng)"
  let ?rid = "next_request_id ?sch" and ?eos = "eos_token_ids ?sch" and ?n = "length toks"
  let ?R = "call_of ?rid toks pss" and ?seqs = "new_sequences ?rid (next_seq_id ?sch) (zip toks pss)"
  have rd: "engine_inv eng" "eng_queue eng = []" "1 < max_num_batched_tokens ?sch" "0 < max_num_seqs ?sch"
    "llm_max_model_len l \<le> ?cap * BLOCK_SIZE"
    using ready by (auto simp: llm_ready_def eng_def engine_is_running_def is_running_def eng_queue_def queue_def)
  have "\<forall>q \<in> set (zip toks pss). admissible q"
    using ok len(1) by (auto simp: admissible_def in_set_conv_nth)
  then obtain eng0 where a: "add_requests ops (zip toks pss) eng = (Ok [?rid ..< ?rid + ?n], eng0)"
    "engine_inv eng0" "eng_kv eng0 = eng_kv eng" "eng_queue eng0 = ?seqs" "limits (eng_scheduler eng0) = limits ?sch"
    using add_requests_ok [OF rd(1,2), of "zip toks pss" ops] len by (cases pss) auto
  have seqs: "\<forall>s \<in> set ?seqs. serves ?eos ?R s \<and> fits_cache ?cap s"
    using new_sequences_served [OF len(1)] ok rd(5) order_trans by blast
  have srv: "engine_servable eng0" "engine_serves ?eos ?R eng0"
    using seqs a(3-5) rd(3,4) by (simp_all add: engine_servable_def servable_def engine_serves_def limits_def eng_queue_def)
  obtain r eng' where g: "generate_loop ops eng0 [] = Some (r, eng')" "engine_inv eng'" "drained eng'" "r \<noteq> Panicked"
    "kv_capacity (eng_kv eng') = ?cap" "limits (eng_scheduler eng') = limits ?sch"
    "\<And>outs. r = Ok outs \<Longrightarrow> (\<forall>out \<in> set outs. answers_call ?eos ?R out) \<and> mset (map out_request_id outs) = mset (map request_id ?seqs)"
    using generate_loop_returns [OF ops a(2) srv, of "[]"] a(3-5) by auto
  let ?rids = "[?rid ..< ?rid + ?n]"
  define res where "res = rbind (map_err RuntimeFailure r) (\<lambda>outs. rbind (order_request_outputs ?rids outs)
    (\<lambda>results. detokenize (llm_tokenizer l) results pss))"
  have run: "run_call ops l toks pss = Some (res, l\<lparr>llm_engine := eng'\<rparr>)"
    using a(1) g(1) by (simp add: run_call_def eng_def res_def)
  have "res \<noteq> Panicked \<and> (\<forall>outs. res = Ok outs \<longrightarrow> results_ok ?eos (llm_tokenizer l) pss outs)"
  proof (cases r)
    case (Inl f)
    then show ?thesis using g(4) by (cases f) (auto simp: res_def)
  next
    case (Inr outs)
    have "mset (map out_request_id outs) = mset ?rids" using g(7) [OF Inr] len(1) by (simp add: new_sequences_ids)
    then obtain ordered where o: "order_request_outputs ?rids outs = Ok ordered" "map out_request_id ordered = ?rids" "set ordered = set outs"
      using order_request_outputs_ok [of ?rids outs] by auto
    have res: "res = detokenize (llm_tokenizer l) ordered pss" using Inr o(1) by (simp add: res_def)
    have lo: "length ordered = length pss" using arg_cong [OF o(2), of length] len(1) by simp
    have ans: "complete_answer ?eos (pss ! i) (out_token_ids (ordered ! i)) \<and> out_finished (ordered ! i)" if i: "i < length pss" for i
    proof -
      have "out_request_id (ordered ! i) = ?rid + i"
        using arg_cong [OF o(2), of "\<lambda>xs. xs ! i"] i lo len(1) by simp
      moreover have "answers_call ?eos ?R (ordered ! i)" using g(7) [OF Inr] o(3) i lo by (metis nth_mem)
      ultimately show ?thesis by (auto simp: answers_call_def call_of_def)
    qed
    have "results_ok ?eos (llm_tokenizer l) pss outs'" if "res = Ok outs'" for outs'
      using detokenize_ok [OF lo, of "llm_tokenizer l" outs'] that res lo ans by (simp add: results_ok_def)
    then show ?thesis using res detokenize_no_panic tk by (simp add: tokenizer_total_def)
  qed
  then show ?thesis using run g by blast
qed

lemma generate_outcome:
  assumes "ops_no_panic ops" "tokenizer_total (llm_tokenizer l)" "llm_ready l" "length prompts < usize_bound"
  shows "\<exists>r l'. generate ops l prompts pss = Some (r, l') \<and> r \<noteq> Panicked \<and> llm_ready l' \<and> drained (llm_engine l')
    \<and> (\<forall>outs. r = Ok outs \<longrightarrow> length outs = length prompts
         \<and> results_ok (eos_token_ids (eng_scheduler (llm_engine l))) (llm_tokenizer l) pss outs)"
proof -
  have dr: "drained (llm_engine l)" using assms(3) by (auto simp: llm_ready_def intro: drained_iff)
  note defs = generate_def results_ok_def
  show ?thesis
  proof (cases "length pss = length prompts")
    case False
    then show ?thesis using dr assms(3) by (simp add: defs)
  next
    case len: True
    show ?thesis
    proof (cases "rcollect validate_params_at (enumerate 0 pss)")
      case (Inl e)
      then show ?thesis using len dr assms(3) validate_params_at_no_panic [of "enumerate 0 pss"] by (auto simp: defs)
    next
      case v: (Inr us)
      show ?thesis
      proof (cases "prompts = []")
        case True
        then show ?thesis using len dr assms(3) v by (simp add: defs)
      next
        case ne: False
        show ?thesis
        proof (cases "checked_prompts ops l prompts pss")
          case (Inl e)
          then show ?thesis using len v ne dr assms(3) checked_prompts_no_panic [OF assms(2), of ops prompts pss]
            by (auto simp: defs)
        next
          case (Inr toks)
          note c = checked_prompts_ok [OF Inr len]
          have ok: "\<forall>i < length toks. toks ! i \<noteq> [] \<and> 0 < max_tokens (pss ! i) \<and> length (toks ! i) + max_tokens (pss ! i) \<le> llm_max_model_len l
              \<and> length (toks ! i) + max_tokens (pss ! i) < usize_bound"
            using c(1,3) validated_calls [OF v] len by simp
          have tl: "length pss = length toks" "toks \<noteq> []" "length toks < usize_bound" using c(1) len ne assms(4) by auto
          obtain r eng' where r: "run_call ops l toks pss = Some (r, l\<lparr>llm_engine := eng'\<rparr>)" "r \<noteq> Panicked" "engine_inv eng'"
            "drained eng'" "kv_capacity (eng_kv eng') = kv_capacity (eng_kv (llm_engine l))"
            "limits (eng_scheduler eng') = limits (eng_scheduler (llm_engine l))"
            "\<forall>outs. r = Ok outs \<longrightarrow> results_ok (eos_token_ids (eng_scheduler (llm_engine l))) (llm_tokenizer l) pss outs"
            using run_call_returns [OF assms(1-3) tl ok] by blast
          have "llm_ready (l\<lparr>llm_engine := eng'\<rparr>)" using r(3-6) assms(3)
            by (simp add: llm_ready_def limits_def drained_def eng_queue_def queue_def engine_is_running_def is_running_def)
          moreover have "generate ops l prompts pss = Some (r, l\<lparr>llm_engine := eng'\<rparr>)"
            using len v ne Inr r(1) by (simp add: generate_def)
          ultimately show ?thesis using r len by (auto simp: results_ok_def)
        qed
      qed
    qed
  qed
qed

section \<open>Properties\<close>

text \<open>C1: a call of \<^verbatim>\<open>LLM::generate\<close> returns. On an idle engine with a token budget of at least two,
  and for every batch of prompts and parameters and every model and sampler that do not panic, the
  call ends, without a panic, with an error or with results; it leaves the engine idle with every
  cache block free and ready for the next call. The results come in input order, one per prompt:
  each holds a finished completion that is not empty, is no longer than \<^verbatim>\<open>max_tokens\<close>, stops at the
  first end-of-sequence token its request does not ignore or at that limit, and carries its
  decoded text.\<close>

theorem generate_returns:
  assumes "ops_no_panic ops" "tokenizer_total (llm_tokenizer l)" "llm_ready l" "length prompts < usize_bound"
  shows "\<exists>r l'. generate ops l prompts pss = Some (r, l') \<and> r \<noteq> Panicked \<and> llm_ready l' \<and> drained (llm_engine l')
    \<and> (\<forall>outs. r = Ok outs \<longrightarrow> length outs = length prompts
         \<and> results_ok (eos_token_ids (eng_scheduler (llm_engine l))) (llm_tokenizer l) pss outs)"
  by (rule generate_outcome [OF assms])

definition demo_llm :: "(nat, nat, token list) llm" where
  "demo_llm = \<lparr>llm_engine = demo_engine\<lparr>eng_scheduler := new_with_eos_token_ids 64 4 [0]\<rparr>,
     llm_tokenizer = \<lparr>tok_encode = (\<lambda>s. Ok (replicate (length s) 7)), tok_decode = (\<lambda>ts. Ok ''ok'')\<rparr>,
     llm_max_model_len = 1024\<rparr>"

lemma demo_llm_ready: "llm_ready demo_llm" "tokenizer_total (llm_tokenizer demo_llm)"
proof -
  have "engine_inv (demo_engine\<lparr>eng_scheduler := new_with_eos_token_ids 64 4 [0]\<rparr>)"
    using sched_inv_new [of 64 4 "[0]" 4] demo_engine_inv
    by (simp add: engine_inv_def demo_engine_def demo_kv_def new_with_eos_token_ids_def)
  then show "llm_ready demo_llm"
    by (simp add: llm_ready_def demo_llm_def engine_is_running_def is_running_def new_with_eos_token_ids_def
        demo_engine_def demo_sched_simps BLOCK_SIZE_def)
  show "tokenizer_total (llm_tokenizer demo_llm)" by (simp add: tokenizer_total_def demo_llm_def)
qed

theorem generate_returns_witness:
  "\<exists>r l'. generate demo_ops demo_llm [Text ''hello'', TokenIds [1, 2, 3]] [default_sampling_params, default_sampling_params]
     = Some (r, l') \<and> r \<noteq> Panicked \<and> llm_ready l'"
  using generate_returns [OF demo_ops_no_panic demo_llm_ready(2,1),
      of "[Text ''hello'', TokenIds [1, 2, 3]]" "[default_sampling_params, default_sampling_params]"]
  by (auto simp: usize_bound_def)

end
