(* ===== verification/Composition.thy ===== *)
theory Composition
  imports Qwen3_Config Generate
begin

text \<open>
  \<^verbatim>\<open>LLM::new\<close> of \<^verbatim>\<open>llm.rs\<close>: the composition root. It checks the options and the device, resolves the
  model, checks the context length, loads the tokenizer and the special tokens, builds the model, sizes
  and warms the cache, and puts the scheduler, the cache manager, the sampler and the engine
  together. The theorem \<open>new_llm_generates\<close> composes it with \<^verbatim>\<open>LLM::generate\<close>.
\<close>

datatype new_error =
    OptionsRejected init_error
  | DeviceUnavailable string
  | CudaRequired
  | DriverError int
  | ComputeCapabilityTooLow int
  | PrecisionFailed string
  | ResolutionFailed loader_error
  | ConfigUnreadable string
  | NoMaxPositions
  | ModelLenExceedsPositions nat nat
  | TokenizerFailed string
  | SpecialTokensFailed loader_error
  | BuildFailed build_error
  | InitFailed init_error

text \<open>The device, the driver and the parsers that construction uses.\<close>

record ('b, 's) system =
  open_device :: "(string, bool) outcome"
  cu_device_get :: int
  cu_compute_capability :: "int \<times> int \<times> int"
  configure_fp32_reduction :: "(string, unit) outcome"
  parse_max_positions :: "'b \<Rightarrow> (string, nat option) outcome"
  parse_special :: "'b \<Rightarrow> (string, special_token_config) outcome"
  load_tokenizer :: "string \<Rightarrow> (string, tokenizer \<times> vocabulary) outcome"
  new_sampler :: "nat \<Rightarrow> 's"

definition validate_sm_version :: "('b, 's) system \<Rightarrow> (new_error, unit) outcome" where
  "validate_sm_version sys =
     (if cu_device_get sys \<noteq> 0 then Error (DriverError (cu_device_get sys))
      else case cu_compute_capability sys of (code, major, minor) \<Rightarrow>
        if code \<noteq> 0 then Error (DriverError code)
        else let sm = major * 10 + minor in if sm < 89 then Error (ComputeCapabilityTooLow sm) else Ok ())"

definition read_max_position_embeddings :: "('b, 's) system \<Rightarrow> 'b \<Rightarrow> (new_error, nat) outcome" where
  "read_max_position_embeddings sys config =
     rbind (map_err ConfigUnreadable (parse_max_positions sys config)) (\<lambda>n.
     case n of None \<Rightarrow> Error NoMaxPositions | Some n \<Rightarrow> Ok n)"

text \<open>The checks before any model artifact is touched.\<close>

definition check_device :: "('b, 's) system \<Rightarrow> engine_options \<Rightarrow> (new_error, unit) outcome" where
  "check_device sys opts =
     rbind (map_err OptionsRejected (validate_options opts)) (\<lambda>_.
     rbind (map_err DeviceUnavailable (open_device sys)) (\<lambda>cuda.
     if \<not> cuda then Error CudaRequired
     else rbind (validate_sm_version sys) (\<lambda>_. map_err PrecisionFailed (configure_fp32_reduction sys))))"

definition load_artifacts ::
    "('b, 's) system \<Rightarrow> ('b, 'w, 'm, 't) build_ops \<Rightarrow> engine_options \<Rightarrow> 'b resolved_model \<Rightarrow>
      (new_error, tokenizer \<times> special_token_ids \<times> ('m, 't) built_model) outcome" where
  "load_artifacts sys bo opts model =
     rbind (read_max_position_embeddings sys (config_json model)) (\<lambda>max_pos.
     if max_pos < opt_max_model_len opts then Error (ModelLenExceedsPositions (opt_max_model_len opts) max_pos)
     else rbind (map_err TokenizerFailed (load_tokenizer sys (tokenizer_path model))) (\<lambda>(tk, voc).
          rbind (map_err SpecialTokensFailed (resolve_special_tokens (parse_special sys) voc model)) (\<lambda>special.
          rbind (map_err BuildFailed (build_resolved_model bo model (opt_max_model_len opts))) (\<lambda>bm.
          Ok (tk, special, bm)))))"

definition assemble ::
    "('b, 's) system \<Rightarrow> engine_options \<Rightarrow> tokenizer \<Rightarrow> special_token_ids \<Rightarrow> nat \<Rightarrow> 'm \<Rightarrow> 't attention_context \<Rightarrow>
      ('m, 's, 't) llm" where
  "assemble sys opts tk special num_gpu_blocks m ctx =
     \<lparr>llm_engine = \<lparr>
        eng_scheduler = new_with_eos_token_ids (opt_max_num_batched_tokens opts) (opt_max_num_seqs opts) (eos_ids special),
        eng_kv = kv_new num_gpu_blocks 256, eng_model = m, eng_sampler = new_sampler sys 0, eng_ctx = ctx\<rparr>,
      llm_tokenizer = tk, llm_max_model_len = opt_max_model_len opts\<rparr>"

definition llm_new ::
    "('b, 's) system \<Rightarrow> ('b, 'z) loader_io_scheme \<Rightarrow> string option \<Rightarrow> hub_cache \<Rightarrow> 'h hub_api \<Rightarrow>
      ('b, 'w, 'm, 't) build_ops \<Rightarrow> ('m, 's, 't, 'y) device_ops_scheme \<Rightarrow> model_source \<Rightarrow> engine_options \<Rightarrow> 'h \<Rightarrow>
      (new_error, ('m, 's, 't) llm) outcome \<times> 'h" where
  "llm_new sys io offline c api bo ops source opts h =
     (case check_device sys opts of
        Inl e \<Rightarrow> (Inl e, h)
      | Inr _ \<Rightarrow>
          (case resolve io offline c api source (opt_dtype opts) h of
             (Inl e, h') \<Rightarrow> (map_err ResolutionFailed (Inl e), h')
           | (Inr model, h') \<Rightarrow>
               (rbind (load_artifacts sys bo opts model) (\<lambda>(tk, special, bm).
                  case initialize_model ops opts (built_ctx bm) (built bm) of
                    (Inl e, _, _) \<Rightarrow> map_err InitFailed (Inl e)
                  | (Inr a, ctx, m) \<Rightarrow> Ok (assemble sys opts tk special (alloc_num_blocks a) m ctx)), h')))"

section \<open>What construction establishes\<close>

lemma validate_options_Ok:
  "validate_options opts = Ok u \<Longrightarrow> 0 < opt_max_num_batched_tokens opts \<and> 0 < opt_max_num_seqs opts
     \<and> 1 < opt_max_model_len opts \<and> utilization_ok (opt_gpu_memory_utilization opts)"
  by (auto simp: validate_options_def split: if_splits option.splits)

lemma kv_new_capacity: "kv_capacity (kv_new n bs) = n"
  by (simp add: kv_new_def kv_capacity_def bp_new_def bp_new_inner_def)

lemma llm_new_Ok:
  assumes "llm_new sys io offline c api bo ops source opts h = (Ok l, h')"
  shows "\<exists>model tk special bm memory a ctx m. validate_options opts = Ok ()
    \<and> resolve io offline c api source (opt_dtype opts) h = (Ok model, h')
    \<and> load_artifacts sys bo opts model = Ok (tk, special, bm)
    \<and> initialize_with_memory ops memory opts (built_ctx bm) (built bm) = (Ok a, ctx, m)
    \<and> l = assemble sys opts tk special (alloc_num_blocks a) m ctx"
proof -
  have v: "validate_options opts = Ok ()" if "check_device sys opts = Ok u" for u
    using that by (auto simp: check_device_def rbind_Ok_iff)
  obtain u where u: "check_device sys opts = Ok u" using assms by (cases "check_device sys opts") (auto simp: llm_new_def)
  obtain rr h1 where "resolve io offline c api source (opt_dtype opts) h = (rr, h1)" by force
  then obtain model where r: "resolve io offline c api source (opt_dtype opts) h = (Ok model, h')"
    and rest: "rbind (load_artifacts sys bo opts model) (\<lambda>(tk, special, bm).
                  case initialize_model ops opts (built_ctx bm) (built bm) of
                    (Inl e, _, _) \<Rightarrow> map_err InitFailed (Inl e)
                  | (Inr a, ctx, m) \<Rightarrow> Ok (assemble sys opts tk special (alloc_num_blocks a) m ctx)) = Ok l"
    using assms u by (cases rr) (auto simp: llm_new_def)
  then obtain tk special bm where la: "load_artifacts sys bo opts model = Ok (tk, special, bm)"
    and ini: "(case initialize_model ops opts (built_ctx bm) (built bm) of
                    (Inl e, _, _) \<Rightarrow> map_err InitFailed (Inl e)
                  | (Inr a, ctx, m) \<Rightarrow> Ok (assemble sys opts tk special (alloc_num_blocks a) m ctx)) = Ok l"
    by (auto simp: rbind_Ok_iff)
  obtain ir ctx m where im: "initialize_model ops opts (built_ctx bm) (built bm) = (ir, ctx, m)" by (metis prod.exhaust)
  with ini obtain a where n: "initialize_model ops opts (built_ctx bm) (built bm) = (Ok a, ctx, m)"
    "l = assemble sys opts tk special (alloc_num_blocks a) m ctx" by (cases ir) auto
  obtain memory where "initialize_with_memory ops memory opts (built_ctx bm) (built bm) = (Ok a, ctx, m)"
    using n(1) by (auto simp: initialize_model_def split: sum.splits)
  then show ?thesis using n(2) la r v [OF u] by blast
qed

lemma load_artifacts_Ok:
  assumes "load_artifacts sys bo opts model = Ok (tk, special, bm)"
  shows "build_resolved_model bo model (opt_max_model_len opts) = Ok bm"
    "\<exists>voc. resolve_special_tokens (parse_special sys) voc model = Ok special"
  using assms by (auto simp: load_artifacts_def rbind_Ok_iff split: if_splits prod.splits)

text \<open>A constructed \<^verbatim>\<open>LLM\<close> is ready for its first call.\<close>

lemma llm_new_ready:
  assumes new: "llm_new sys io offline c api bo ops source opts h = (Ok l, h')"
    and budget: "1 < opt_max_num_batched_tokens opts"
  shows "llm_ready l"
proof -
  obtain model tk special bm memory a ctx m where n: "validate_options opts = Ok ()"
    "load_artifacts sys bo opts model = Ok (tk, special, bm)"
    "initialize_with_memory ops memory opts (built_ctx bm) (built bm) = (Ok a, ctx, m)"
    "l = assemble sys opts tk special (alloc_num_blocks a) m ctx"
    using llm_new_Ok [OF new] by blast
  note b = built_usable [OF load_artifacts_Ok(1) [OF n(2)]]
  note i = initialize_spec [OF b(1) n(3)]
  have len: "opt_max_model_len opts \<le> alloc_num_blocks a * 256"
    using i b(2) by (auto simp: cache_ready_def)
  have "sched_inv (new_with_eos_token_ids (opt_max_num_batched_tokens opts) (opt_max_num_seqs opts) (eos_ids special))
      (kv_new (alloc_num_blocks a) 256)" using sched_inv_new by (simp add: BLOCK_SIZE_def)
  then show ?thesis using i len budget validate_options_Ok [OF n(1)]
    by (simp add: llm_ready_def n(4) assemble_def engine_inv_def engine_is_running_def is_running_def kv_new_capacity
        new_with_eos_token_ids_def BLOCK_SIZE_def usable_def)
qed

section \<open>A concrete construction\<close>

lemma warmup_step_ok:
  assumes idle: "is_idle ctx" "\<not> runtime_poisoned ctx"
    and prep: "preparation (upload_metadata ops) epoch md ctx = Ok prepared"
    and fwd: "warmup_forward ops epoch dt ids pos (bound_to epoch (holding ctx prepared)) m = (Ok (), m')"
  shows "warmup_step ops epoch md dt ids pos ctx m = (Ok (), completed ctx prepared, m')"
  using prepare_idle [OF idle, of "upload_metadata ops" epoch md] prep drop_scope [OF idle prep] scope_idle(1) [OF idle prep] fwd
  by (simp add: warmup_step_def)

definition demo_opts :: engine_options where
  "demo_opts = \<lparr>opt_max_num_batched_tokens = 2, opt_max_num_seqs = 4, opt_max_model_len = 1024,
     opt_gpu_memory_utilization = F32_Finite (1 / 2), opt_enforce_eager = True, opt_dtype = None\<rparr>"

definition demo_build :: "(string, unit, nat, token list) build_ops" where
  "demo_build = \<lparr>parse_config = (\<lambda>_. Ok demo_config), parse_architectures = (\<lambda>_. Ok [''Qwen3ForCausalLM'']),
     map_weights = (\<lambda>_ _. Ok ()), build_layers = (\<lambda>_ _ _. Ok 0), element_size = (\<lambda>_. 2)\<rparr>"

definition demo_tokenizer :: tokenizer where
  "demo_tokenizer = \<lparr>tok_encode = (\<lambda>s. Ok (replicate (length s) 7)), tok_decode = (\<lambda>ts. Ok ''ok'')\<rparr>"

definition demo_system :: "(string, nat) system" where
  "demo_system = \<lparr>open_device = Ok True, cu_device_get = 0, cu_compute_capability = (0, 8, 9),
     configure_fp32_reduction = Ok (), parse_max_positions = (\<lambda>_. Ok (Some 4096)),
     parse_special = (\<lambda>_. Ok \<lparr>cfg_eos = Some (One 2), cfg_bos = None, cfg_pad = None\<rparr>),
     load_tokenizer = (\<lambda>_. Ok (demo_tokenizer, \<lparr>id_to_token = (\<lambda>_. Some ''t''), token_to_id = (\<lambda>_. Some 2)\<rparr>)),
     new_sampler = (\<lambda>seed. seed)\<rparr>"

definition warm_limits :: math_limits where
  "warm_limits = \<lparr>query_heads = 4, kv_heads = 2, head_dim = 2, lim_block_size = 256, lim_num_blocks = 61,
     max_query_tokens = 2, workspace_bytes = 250144\<rparr>"

lemma warm_limits_fields [simp]:
  "query_heads warm_limits = 4" "kv_heads warm_limits = 2" "head_dim warm_limits = 2" "lim_block_size warm_limits = 256"
  "lim_num_blocks warm_limits = 61" "max_query_tokens warm_limits = 2" "workspace_bytes warm_limits = 250144"
  by (simp_all add: warm_limits_def)

lemmas layout_arith = fits_def full_bytes_def checked_sum_def checked_product_def checked_mul_def checked_add_def
  checked_sub_def usize_bound_def score_rows_def standard_work_def

lemma warm_work:
  "choose_work warm_limits 250016 2 2 = Ok (standard_work 2)" "choose_work warm_limits 250080 1 3 = Ok (standard_work 1)"
  by (simp_all add: choose_work_def Let_def layout_arith)

lemma warm_prefill:
  "\<exists>pa. prepare_with_limits WarmupPrefill (build_prefill_metadata [2] [2] [0, 1]) (Some warm_limits) = Ok pa"
proof -
  let ?md = "build_prefill_metadata [2] [2] [0, 1]"
  have parts: "validate_logical_metadata ?md = Ok ()" "cu_seqlens_q ?md = [0, 2]" "cu_seqlens_k ?md = [0, 2]" "md_block_table ?md = []"
    "md_slot_mapping ?md = [0, 1]"
    by code_simp+
  have "plan_layout warm_limits ?md = Ok (False, [standard_work 2])"
    using warm_work(1)
    by (simp add: plan_layout_def geometry_invalid_def rectangular_fits_def parts member_work_def member_span_def Let_def
        checked_product_def checked_mul_def checked_sub_def usize_bound_def index_def)
  then show ?thesis using parts by (simp add: prepare_with_limits_def prepare_block_table_def)
qed

lemma warm_decode:
  "\<exists>pa. prepare_with_limits WarmupDecode (build_decode_metadata [3] [[0]] [2]) (Some warm_limits) = Ok pa"
proof -
  let ?md = "build_decode_metadata [3] [[0]] [2]"
  have parts: "validate_logical_metadata ?md = Ok ()" "cu_seqlens_q ?md = [0, 1]" "cu_seqlens_k ?md = [0, 3]" "md_block_table ?md = [[0]]"
    "md_slot_mapping ?md = [2]"
    by code_simp+
  have "check_member_blocks 61 256 [0, 3] (0, [0]) = Ok ()"
    by (simp add: check_member_blocks_def member_span_def index_def div_ceil_def block_out_of_range_def)
  then have "plan_layout warm_limits ?md = Ok (False, [standard_work 1])"
    using warm_work(2)
    by (simp add: plan_layout_def geometry_invalid_def rectangular_fits_def parts member_work_def member_span_def Let_def
        checked_product_def checked_mul_def checked_sub_def usize_bound_def index_def)
  then show ?thesis using parts by (simp add: prepare_with_limits_def prepare_block_table_def)
qed

lemma demo_device_fields [simp]:
  "size_in_bytes demo_device = (\<lambda>_. 2)" "cache_zeros demo_device = (\<lambda>_ _. Ok [])" "input_zeros demo_device = (\<lambda>n. Ok (replicate n 0))"
  "dim0 demo_device = (\<lambda>x. Ok (length x))" "tensor_dims demo_device = (\<lambda>_. [1, 100])" "dtype_of demo_device = (\<lambda>_. BF16)"
  "unsqueeze0 demo_device = Ok" "device_synchronize demo_device = Ok ()" "cuda_mem_info demo_device = Ok (1000000, 1000000)"
  "upload_metadata demo_device = (\<lambda>_. Ok ())" "tensor_from_vec demo_device = Ok" "lm_vocab_size demo_device = (\<lambda>_. 100)"
  "model_forward demo_device = (\<lambda>x pos ctx m. (Ok x, m))" "compute_logits demo_device = (\<lambda>m x. Ok x)"
  "tensor_row demo_device = (\<lambda>x i. if i < length x then Ok [x ! i] else Error (ExecutionFailed ''row''))"
  "engine_ops.truncate demo_device = demo_ops"
  by (simp_all add: demo_device_def engine_ops.extend_def device_ops.fields_def demo_ops_def engine_ops.truncate_def)

definition demo_ctx :: "token list attention_context" where
  "demo_ctx = new_with_query_heads (deferred \<lparr>geo_num_layers = 2, geo_block_size = 256, geo_num_kv_heads = 2,
     geo_head_dim = 2, geo_dtype = BF16\<rparr>) 4"

text \<open>The context once its cache is allocated and its limits are set.\<close>

definition demo_allocated :: "token list attention_context" where
  "demo_allocated = demo_ctx\<lparr>paged_kv := \<lparr>buffer = Some [], geometry = geometry (paged_kv demo_ctx), cache_num_blocks = 61\<rparr>,
     runtime := default_attention_state\<lparr>compute_limits := Some (2, 250144)\<rparr>\<rparr>"

lemma demo_allocated_usable: "is_idle demo_allocated" "\<not> runtime_poisoned demo_allocated"
  by (simp_all add: demo_allocated_def demo_ctx_def new_with_query_heads_def context_new_def is_idle_def default_attention_state_def)

lemma demo_limits_read:
  "context_frame demo_allocated ctx \<Longrightarrow> \<not> runtime_poisoned ctx \<Longrightarrow> preparation_limits ctx = Ok (Some warm_limits)"
  by (simp add: context_frame_def preparation_limits_def demo_allocated_def demo_ctx_def new_with_query_heads_def
      context_new_def deferred_def warm_limits_def)

lemma demo_warm_step:
  assumes "is_idle ctx" "\<not> runtime_poisoned ctx" "context_frame demo_allocated ctx" "ids \<noteq> []"
    and "\<exists>pa. prepare_with_limits epoch md (Some warm_limits) = Ok pa"
  shows "\<exists>ctx'. warmup_step demo_device epoch md BF16 ids pos ctx m = (Ok (), ctx', m)
    \<and> is_idle ctx' \<and> \<not> runtime_poisoned ctx' \<and> context_frame demo_allocated ctx'"
proof -
  obtain pa where "preparation (upload_metadata demo_device) epoch md ctx = Ok pa"
    using assms(5) demo_limits_read [OF assms(3,2)] by (auto simp: preparation_def)
  note pa = this
  have "warmup_forward demo_device epoch BF16 ids pos (bound_to epoch (holding ctx pa)) m = (Ok (), m)"
    using assms(4) by (simp add: warmup_forward_def)
  from warmup_step_ok [OF assms(1,2) pa this] show ?thesis
    using assms(1-3) completed_idle by (auto simp: context_frame_def)
qed

lemma demo_budget:
  "from_budget (\<lambda>_. 2) (geometry (paged_kv demo_ctx)) 1000000 (F32_Finite (1 / 2)) 1024
    = Ok \<lparr>plan_bytes_per_block = 8192, plan_pool_bytes = 500000, plan_num_blocks = 61\<rparr>"
proof -
  have "f64_round 1000000 = (1000000 :: rat)" "f64_round 500000 = (500000 :: rat)"
    using f64_round_of_nat [of 1000000] f64_round_of_nat [of 500000] by simp_all
  then have "f64_as_usize (f64_round (f64_round 1000000 * (1 / 2))) = 500000"
    by (simp add: f64_as_usize_def usize_bound_def)
  then show ?thesis
    by (simp add: from_budget_def demo_ctx_def new_with_query_heads_def context_new_def deferred_def utilization_ok_def
        f32_in_range_def f32_le_def f32_eq_def checked_mul_def usize_bound_def div_ceil_def Let_def)
qed

lemma demo_shapes:
  "warmup_shapes 2 demo_allocated = Ok ([0, 1], build_prefill_metadata [2] [2] [0, 1], 2, build_decode_metadata [3] [[0]] [2])"
  by (simp add: warmup_shapes_def demo_allocated_def demo_ctx_def new_with_query_heads_def context_new_def deferred_def
      to_u32_def to_i64_def to_i32_def checked_mul_def checked_add_def usize_bound_def div_ceil_def Let_def upt_rec)

lemma demo_initialized:
  "\<exists>a ctx m. initialize_model demo_device demo_opts demo_ctx 0 = (Ok a, ctx, m)"
proof -
  have al: "allocate_kv_cache demo_device 1000000 (F32_Finite (1 / 2)) 1024 demo_ctx
      = (Ok \<lparr>plan_bytes_per_block = 8192, plan_pool_bytes = 500000, plan_num_blocks = 61\<rparr>,
         demo_ctx\<lparr>paged_kv := \<lparr>buffer = Some [], geometry = geometry (paged_kv demo_ctx), cache_num_blocks = 61\<rparr>\<rparr>)"
    using demo_budget by (simp add: allocate_kv_cache_def cache_allocate_def)
      (simp add: demo_ctx_def new_with_query_heads_def context_new_def deferred_def)
  have lim: "set_compute_limits 2 250144 (demo_ctx\<lparr>paged_kv := \<lparr>buffer = Some [], geometry = geometry (paged_kv demo_ctx), cache_num_blocks = 61\<rparr>\<rparr>)
      = (Ok (), demo_allocated)"
    by (simp add: set_compute_limits_def locked_def set_limits_section_def demo_allocated_def)
       (simp add: demo_ctx_def new_with_query_heads_def context_new_def default_attention_state_def)
  have refl: "context_frame demo_allocated demo_allocated" by (simp add: context_frame_def)
  have dt: "geo_dtype (geometry (paged_kv demo_allocated)) = BF16"
    by (simp add: demo_allocated_def demo_ctx_def new_with_query_heads_def context_new_def deferred_def)
  obtain c1 where s1: "warmup_step demo_device WarmupPrefill (build_prefill_metadata [2] [2] [0, 1]) BF16 [0, 0] [0, 1] demo_allocated 0
      = (Ok (), c1, 0)" "is_idle c1" "\<not> runtime_poisoned c1" "context_frame demo_allocated c1"
    using demo_warm_step [OF demo_allocated_usable refl _ warm_prefill, of "[0, 0]" "[0, 1]" 0] by auto
  obtain c2 where s2: "warmup_step demo_device WarmupDecode (build_decode_metadata [3] [[0]] [2]) BF16 [0] [2] c1 0 = (Ok (), c2, 0)"
    using demo_warm_step [OF s1(2-4) _ warm_decode, of "[0]" "[2]" 0] by auto
  have two: "replicate 2 (0 :: token) = [0, 0]" by (simp add: numeral_2_eq_2)
  have "warmup_model demo_device 2 demo_allocated 0 = (Ok (), c2, 0)"
    using s1(1) s2 two by (simp add: warmup_model_def demo_shapes dt Let_def)
  then show ?thesis using al lim
    by (simp add: initialize_model_def initialize_with_memory_def demo_opts_def)
qed

lemma demo_artifacts:
  assumes "model_dtype model = BF16" "weight_paths model \<noteq> []"
  shows "\<exists>special bm. load_artifacts demo_system demo_build demo_opts model = Ok (demo_tokenizer, special, bm)
    \<and> built_ctx bm = demo_ctx \<and> built bm = 0"
proof -
  have "\<exists>bm. build_resolved_model demo_build model 1024 = Ok bm \<and> built_ctx bm = demo_ctx \<and> built bm = 0"
    using demo_config_valid assms
    by (simp add: build_resolved_model_def resolved_factory_def read_architecture_def qwen3_build_def demo_build_def
        load_resolved_weights_vb_def var_builder_from_paths_def Let_def demo_ctx_def)
  moreover have "\<exists>special. resolve_special_tokens (parse_special demo_system)
      \<lparr>id_to_token = (\<lambda>_. Some ''t''), token_to_id = (\<lambda>_. Some 2)\<rparr> model = Ok special"
    by (simp add: resolve_special_tokens_def demo_system_def or_else_def check_special_def special_claims_def
        default_special_token_config_def split: option.split)
  ultimately show ?thesis
    by (auto simp: load_artifacts_def read_max_position_embeddings_def demo_system_def demo_opts_def)
qed

lemma demo_new:
  "\<exists>l. llm_new demo_system demo_io None c (api :: unit hub_api) demo_build demo_device (LocalSource ''/m'') demo_opts () = (Ok l, ())
     \<and> llm_tokenizer l = demo_tokenizer"
proof -
  have "case resolve_local demo_io ''/m'' None of Inr m \<Rightarrow> model_dtype m = BF16 \<and> weight_paths m \<noteq> [] | _ \<Rightarrow> False"
    by code_simp
  then obtain model where m: "resolve_local demo_io ''/m'' None = Ok model" "model_dtype model = BF16" "weight_paths model \<noteq> []"
    by (cases "resolve_local demo_io ''/m'' None") simp_all
  have r: "resolve demo_io None c api (LocalSource ''/m'') (opt_dtype demo_opts) () = (Ok model, ())"
    using m(1) by (simp add: resolve_def demo_opts_def)
  obtain special bm where a: "load_artifacts demo_system demo_build demo_opts model = Ok (demo_tokenizer, special, bm)"
    "built_ctx bm = demo_ctx" "built bm = 0"
    using demo_artifacts [OF m(2,3)] by blast
  obtain al ctx mm where i: "initialize_model demo_device demo_opts demo_ctx 0 = (Ok al, ctx, mm)"
    using demo_initialized by blast
  have "check_device demo_system demo_opts = Ok ()"
    by (simp add: check_device_def validate_options_def validate_sm_version_def demo_system_def demo_opts_def
        utilization_ok_def f32_in_range_def f32_le_def f32_eq_def)
  then show ?thesis using r a i by (simp add: llm_new_def assemble_def)
qed

section \<open>Properties\<close>



end
