(* ===== verification/Prefix_Index.thy ===== *)
theory Prefix_Index
  imports KV_Cache_Manager
begin

text \<open>
  The index of the prefix cache. \<open>Prefix_Cache\<close> shows that a hit is never wrong; here the converse:
  every published block is filed under the chained hash of its identity (\<open>index_ok\<close>), every pool
  operation keeps it so, and therefore a lookup finds every published prefix.
\<close>

section \<open>The index invariant\<close>

fun chain_hash :: "hasher \<Rightarrow> prefix_cache_identity \<Rightarrow> i64" where
  "chain_hash xxh (PrefixCacheIdentity None ts) = compute_hash xxh ts (- 1)"
| "chain_hash xxh (PrefixCacheIdentity (Some q) ts) = compute_hash xxh ts (chain_hash xxh q)"

definition hash_before :: "hasher \<Rightarrow> token list \<Rightarrow> nat \<Rightarrow> i64" where
  "hash_before xxh ts i = (case identity_before ts i of None \<Rightarrow> - 1 | Some ident \<Rightarrow> chain_hash xxh ident)"

lemma hash_before_simps [simp]:
  "hash_before xxh ts 0 = - 1" "hash_before xxh ts (Suc i) = chain_hash xxh (identity_at ts i)"
  by (simp_all add: hash_before_def)

lemma compute_hash_before:
  "compute_hash xxh (block_tokens ts i) (hash_before xxh ts i) = chain_hash xxh (identity_at ts i)"
  by (cases i) simp_all

definition filed :: "hasher \<Rightarrow> block_pool \<Rightarrow> nat \<Rightarrow> prefix_cache_identity \<Rightarrow> bool" where
  "filed xxh p i ident \<longleftrightarrow> block_hash (blocks p ! i) = chain_hash xxh ident
     \<and> cached_tokens (blocks p ! i) = identity_tokens ident
     \<and> (\<exists>ids. hash_to_block_id p (chain_hash xxh ident) = Some ids \<and> i \<in> set ids)"

definition index_ok :: "hasher \<Rightarrow> block_pool \<Rightarrow> bool" where
  "index_ok xxh p \<longleftrightarrow> (\<forall>i < length (blocks p). \<forall>ident.
     prefix_identity (blocks p ! i) = Some ident \<longrightarrow> filed xxh p i ident)"

lemma index_okD: "index_ok xxh p \<Longrightarrow> i < length (blocks p) \<Longrightarrow> prefix_identity (blocks p ! i) = Some ident \<Longrightarrow> filed xxh p i ident"
  by (simp add: index_ok_def)

lemma index_ok_new: "index_ok xxh (bp_new_inner n bs e)"
  by (simp add: index_ok_def bp_new_inner_def block_new_def)

text \<open>An operation that touches neither the contents of the blocks nor the index.\<close>

lemma index_ok_frame:
  assumes "index_ok xxh p" "hash_to_block_id p' = hash_to_block_id p" "length (blocks p') = length (blocks p)"
    and "\<And>i. i < length (blocks p) \<Longrightarrow> block_content (blocks p' ! i) = block_content (blocks p ! i)"
  shows "index_ok xxh p'"
  using assms by (fastforce simp: index_ok_def filed_def block_content_def)

lemma remove_cache_entry_keeps:
  "hash_to_block_id p h = Some ids \<Longrightarrow> j \<in> set ids \<Longrightarrow> j \<noteq> i \<Longrightarrow>
     \<exists>ids'. hash_to_block_id (remove_cache_entry h' i p) h = Some ids' \<and> j \<in> set ids'"
  by (auto simp: remove_cache_entry_def Let_def filter_empty_conv split: option.split)

lemma index_cache_entry_keeps:
  "hash_to_block_id p h = Some ids \<Longrightarrow> j \<in> set ids \<Longrightarrow>
     \<exists>ids'. hash_to_block_id (index_cache_entry h' i p) h = Some ids' \<and> j \<in> set ids'"
  by (auto simp: index_cache_entry_def Let_def)

lemma index_ok_remove:
  assumes "index_ok xxh p" "j < length (blocks p)" "prefix_identity (blocks p ! j) = Some ident" "j \<noteq> i"
  shows "filed xxh (if c then remove_cache_entry h i p else p) j ident"
  using index_okD [OF assms(1-3)] remove_cache_entry_keeps [OF _ _ assms(4)] by (auto simp: filed_def)

section \<open>Every operation keeps it\<close>

lemma index_ok_allocate_block:
  assumes "index_ok xxh p" "allocate_block_private p = (r, p')"
  shows "index_ok xxh p'"
proof (cases r)
  case (Inl e)
  then show ?thesis using allocate_block_private_err assms by metis
next
  case (Inr i)
  let ?q = "if block_hash (blocks p ! i) \<noteq> - 1 then remove_cache_entry (block_hash (blocks p ! i)) i p else p"
  have f: "blocks p' = (blocks p)[i := block_reset (blocks p ! i)]" "hash_to_block_id p' = hash_to_block_id ?q" "i < length (blocks p)"
    using assms(2) Inr by (auto simp: allocate_block_private_def Let_def remove_cache_entry_def validate_free_block_def
        split: list.splits sum.splits option.splits if_splits)
  show ?thesis unfolding index_ok_def
  proof (intro allI impI)
    fix j ident assume j: "j < length (blocks p')" "prefix_identity (blocks p' ! j) = Some ident"
    then have ne: "j \<noteq> i" using f by (auto simp: block_reset_def)
    then have "filed xxh ?q j ident" using index_ok_remove [OF assms(1)] j f(1) by simp
    then show "filed xxh p' j ident" using f ne by (auto simp: filed_def split: if_splits)
  qed
qed

lemma index_ok_allocate_new:
  "index_ok xxh p \<Longrightarrow> allocate_new_loop n p s = (r, p', s') \<Longrightarrow> index_ok xxh p'"
  by (induction n arbitrary: p s) (auto split: prod.splits sum.splits dest: index_ok_allocate_block)

lemma index_ok_append_blocks:
  "index_ok xxh p \<Longrightarrow> append_blocks_loop is p ss = (r, p', ss') \<Longrightarrow> index_ok xxh p'"
  by (induction "is" arbitrary: p ss) (auto split: prod.splits sum.splits dest: index_ok_allocate_block)

lemma acquire_cached_index [simp]: "hash_to_block_id (acquire_cached i p) = hash_to_block_id p"
  by (simp add: acquire_cached_def)

lemma acquire_cached_length [simp]: "length (blocks (acquire_cached i p)) = length (blocks p)"
  by (simp add: acquire_cached_def)

lemma index_ok_acquire: "index_ok xxh p \<Longrightarrow> index_ok xxh (acquire_cached i p)"
  by (rule index_ok_frame [of xxh p]) (simp_all add: acquire_cached_content)

lemma index_ok_acquire_loop: "index_ok xxh p \<Longrightarrow> index_ok xxh (fst (acquire_cached_loop is p s))"
  by (induction "is" arbitrary: p s) (auto simp: index_ok_acquire)

lemma index_ok_allocate:
  assumes "index_ok xxh p" "bp_allocate xxh p s k = (r, p', s')"
  shows "index_ok xxh p'"
proof (cases "allocate_validate xxh p s k")
  case (Inl e)
  then show ?thesis using assms by (simp add: bp_allocate_def)
next
  case (Inr cached)
  obtain p1 s1 where l: "acquire_cached_loop cached p s = (p1, s1)" by force
  obtain r2 p2 s2 where n: "allocate_new_loop (num_blocks s - k) p1 s1 = (r2, p2, s2)" by (metis prod.exhaust)
  have "index_ok xxh p1" using index_ok_acquire_loop [OF assms(1), of cached s] l by simp
  then have "index_ok xxh p2" using n by (rule index_ok_allocate_new)
  then show ?thesis using assms(2) Inr l n by (auto simp: bp_allocate_def split: sum.splits)
qed

lemma index_ok_append:
  "index_ok xxh p \<Longrightarrow> bp_may_append_batch p ss = (r, p', ss') \<Longrightarrow> index_ok xxh p'"
  by (auto simp: bp_may_append_batch_def split: sum.splits if_splits dest: index_ok_append_blocks)

lemma index_ok_deallocate:
  assumes "owns p (T + tables ss)" "index_ok xxh p" "bp_deallocate_batch p ss = (r, p', ss')"
  shows "index_ok xxh p'"
proof -
  obtain q where "bp_deallocate_batch p ss = (Ok (), q, map clear_blocks ss)" "length (blocks q) = length (blocks p)"
    "hash_to_block_id q = hash_to_block_id p" "\<forall>j < length (blocks p). block_content (blocks q ! j) = block_content (blocks p ! j)"
    by (rule bp_deallocate_batch_Ok [OF assms(1)])
  then show ?thesis using assms(3) index_ok_frame [OF assms(2), of q] by simp
qed

lemma publish_block_filed:
  assumes "index_ok xxh p" "b < length (blocks p)" "h = chain_hash xxh ident" "ts = identity_tokens ident"
  shows "index_ok xxh (publish_block b h ts ident p)"
  unfolding index_ok_def
proof (intro allI impI)
  let ?q = "if block_hash (blocks p ! b) \<noteq> - 1 \<and> block_hash (blocks p ! b) \<noteq> h
    then remove_cache_entry (block_hash (blocks p ! b)) b p else p"
  have idx: "hash_to_block_id (publish_block b h ts ident p) = hash_to_block_id (index_cache_entry h b ?q)"
    by (simp add: publish_block_def Let_def index_cache_entry_def)
  fix j jd assume j: "j < length (blocks (publish_block b h ts ident p))"
    "prefix_identity (blocks (publish_block b h ts ident p) ! j) = Some jd"
  then have len: "j < length (blocks p)" by simp
  show "filed xxh (publish_block b h ts ident p) j jd"
  proof (cases "j = b")
    case True
    then have "jd = ident" using j(2) assms(2) by (simp add: publish_block_nth block_update_def)
    then show ?thesis using True assms(2-4) idx
      by (simp add: filed_def publish_block_nth block_update_def index_cache_entry_def Let_def)
  next
    case False
    then have eq: "blocks (publish_block b h ts ident p) ! j = blocks p ! j" using len assms(2) by (simp add: publish_block_nth)
    then have "filed xxh ?q j jd" using index_ok_remove [OF assms(1) len _ False, of jd] j(2) by metis
    then obtain ids where "hash_to_block_id ?q (chain_hash xxh jd) = Some ids" "j \<in> set ids"
      "block_hash (blocks p ! j) = chain_hash xxh jd" "cached_tokens (blocks p ! j) = identity_tokens jd"
      by (auto simp: filed_def split: if_splits)
    then show ?thesis using index_cache_entry_keeps [of ?q _ ids j h b] by (simp add: filed_def idx eq)
  qed
qed

lemma index_ok_hash_loop:
  assumes "index_ok xxh p" "length (token_ids s) = num_tokens s"
    "hash_blocks_loop xxh n i (hash_before xxh (token_ids s) i) (identity_before (token_ids s) i) p s = (r, p')"
  shows "index_ok xxh p'"
  using assms(1,3)
proof (induction n arbitrary: i p)
  case 0
  then show ?case by simp
next
  case (Suc n)
  show ?case
  proof (cases "hash_target p s i")
    case (Inl e)
    then show ?thesis using Suc.prems by simp
  next
    case (Inr q)
    obtain b ts where q: "q = (b, ts)" by force
    have sb: "seq_block s i = (Ok ts :: (block_pool_error, token list) outcome)" "b < length (blocks p)"
      using Inr q by (auto simp: hash_target_def rbind_Ok_iff index_Ok_iff)
    then have ts: "ts = block_tokens (token_ids s) i" using assms(2)
      by (auto simp: seq_block_def slice_range_def block_tokens_def Let_def min_def split: if_splits)
    let ?ident = "identity_at (token_ids s) i"
    have ident: "identity_extend (identity_before (token_ids s) i) ts = ?ident" by (simp add: ts identity_extend_before)
    have h: "compute_hash xxh ts (hash_before xxh (token_ids s) i) = chain_hash xxh ?ident" by (simp add: ts compute_hash_before)
    have "index_ok xxh (publish_block b (chain_hash xxh ?ident) ts ?ident p)"
      using Suc.prems(1) sb(2) by (rule publish_block_filed) (simp_all add: ts)
    then show ?thesis using Suc.prems(2) Inr q Suc.IH [of "publish_block b (chain_hash xxh ?ident) ts ?ident p" "Suc i"]
      by (simp add: ident h Let_def)
  qed
qed

lemma index_ok_hash_blocks:
  assumes idx: "index_ok xxh p" and con: "content_ok p s" and tbl: "set (block_table s) \<subseteq> {..<length (blocks p)}"
    and size: "block_size p = BLOCK_SIZE" and run: "bp_hash_blocks xxh p s = (r, p')"
  shows "index_ok xxh p'"
proof -
  let ?start = "num_cached_tokens s div BLOCK_SIZE" and ?stop = "(num_cached_tokens s + num_scheduled_tokens s) div BLOCK_SIZE"
  have wf: "length (token_ids s) = num_tokens s" using con by (simp add: content_ok_def)
  note loop = index_ok_hash_loop [OF idx wf, where n = "?stop - ?start" and i = ?start and r = r and p' = p']
  show ?thesis
  proof (cases "\<not> prefix_cache_enabled p \<or> ?stop \<le> ?start")
    case True
    then have "bp_hash_blocks xxh p s = (Ok (), p)" using size by (auto simp: bp_hash_blocks_def Let_def)
    then show ?thesis using run idx by simp
  next
    case False
    show ?thesis
    proof (cases ?start)
      case 0
      then show ?thesis using loop run size False by (simp add: bp_hash_blocks_def Let_def)
    next
      case (Suc j)
      show ?thesis
      proof (cases "j < length (block_table s)")
        case out: False
        then show ?thesis using run idx size False Suc by (simp add: bp_hash_blocks_def Let_def index_def)
      next
        case j: True
        let ?b = "block_table s ! j"
        have b: "?b < length (blocks p)" using tbl j nth_mem by blast
        have id: "prefix_identity (blocks p ! ?b) = Some (identity_at (token_ids s) j)"
          using con j Suc by (simp add: content_ok_def)
        then have "block_hash (blocks p ! ?b) = hash_before xxh (token_ids s) ?start"
          using index_okD [OF idx b] Suc by (simp add: filed_def)
        then show ?thesis using loop run size False Suc j b id by (simp add: bp_hash_blocks_def Let_def)
      qed
    qed
  qed
qed

section \<open>A lookup finds every published prefix\<close>

definition published :: "block_pool \<Rightarrow> prefix_cache_identity \<Rightarrow> bool" where
  "published p ident \<longleftrightarrow> (\<exists>i < length (blocks p). prefix_identity (blocks p ! i) = Some ident)"

lemma cached_block_id_found:
  assumes "index_ok xxh p" "published p ident"
  shows "\<exists>b. cached_block_id p (chain_hash xxh ident) ident = Some b"
proof -
  obtain i where i: "i < length (blocks p)" "prefix_identity (blocks p ! i) = Some ident"
    using assms(2) by (auto simp: published_def)
  then obtain ids where f: "filed xxh p i ident" "hash_to_block_id p (chain_hash xxh ident) = Some ids" "i \<in> set ids"
    using index_okD [OF assms(1)] by (fastforce simp: filed_def)
  then have "i \<in> set (filter (cache_entry_matches p (chain_hash xxh ident) ident) ids)"
    using i by (simp add: cache_entry_matches_def filed_def)
  then have "max_by_key (\<lambda>i. i \<in> used_block_ids p) (filter (cache_entry_matches p (chain_hash xxh ident) ident) ids) \<noteq> None"
    by (auto simp: filter_empty_conv)
  then show ?thesis using f(2) unfolding cached_block_id_def by (simp only: option.case not_None_eq)
qed

lemma cached_prefix_loop_complete:
  assumes "index_ok xxh p" "length (token_ids s) = num_tokens s" "i + n \<le> num_blocks s"
    and "\<And>j. i \<le> j \<Longrightarrow> j < k \<Longrightarrow> published p (identity_at (token_ids s) j)"
    and "cached_prefix_loop xxh p s n i (hash_before xxh (token_ids s) i) (identity_before (token_ids s) i) = Ok bs"
  shows "min n (k - i) \<le> length bs"
  using assms(3-5)
proof (induction n arbitrary: i bs)
  case 0
  then show ?case by simp
next
  case (Suc n)
  show ?case
  proof (cases "i < k")
    case False
    then show ?thesis by simp
  next
    case True
    let ?ident = "identity_at (token_ids s) i"
    obtain b where b: "cached_block_id p (chain_hash xxh ?ident) ?ident = Some b"
      using cached_block_id_found [OF assms(1) Suc.prems(2)] True by blast
    have blk: "seq_block s i = (Ok (block_tokens (token_ids s) i) :: (block_pool_error, token list) outcome)"
      using assms(2) Suc.prems(1) by (intro seq_block_in_range) simp_all
    obtain cs where cs: "cached_prefix_loop xxh p s n (Suc i) (chain_hash xxh ?ident) (Some ?ident) = Ok cs" "bs = b # cs"
      using Suc.prems(3) b by (auto simp: blk Let_def compute_hash_before identity_extend_before rbind_Ok_iff)
    have "min n (k - Suc i) \<le> length cs"
      using cs(1) Suc.prems by (intro Suc.IH) simp_all
    then show ?thesis by (simp add: cs(2))
  qed
qed

end
