(* ===== verification/Prefix_Reuse.thy ===== *)
theory Prefix_Reuse
  imports Prefix_Index
begin

text \<open>
  The cache manager as a state machine. \<open>kv_reach xxh n m S\<close> holds of every manager \<open>m\<close> with
  \<open>n\<close> blocks and every multiset \<open>S\<close> of live sequences that the operations of
  \<^verbatim>\<open>engine/kv_cache_manager.rs\<close> can produce, in any order a caller that respects their contract may
  choose: arrival, admission, decode append, generation, publishing, preemption, retirement. The
  properties describe every reachable state and every operation from one.
\<close>

inductive kv_reach :: "hasher \<Rightarrow> nat \<Rightarrow> kv_cache_manager \<Rightarrow> sequence multiset \<Rightarrow> bool" for xxh n where
  boot: "kv_reach xxh n (kv_new n BLOCK_SIZE) {#}"
| arrive: "kv_reach xxh n m S \<Longrightarrow> ts \<noteq> [] \<Longrightarrow> size S + 1 < usize_bound \<Longrightarrow>
    kv_reach xxh n m (add_mset (seq_new rid sid ts ps) S)"
| admit: "kv_reach xxh n m (add_mset s S) \<Longrightarrow> block_table s = [] \<Longrightarrow> num_cached_tokens s = 0 \<Longrightarrow>
    0 < num_tokens s \<Longrightarrow> num_blocks s < usize_bound \<Longrightarrow> kv_can_allocate xxh m s = Ok (Some k) \<Longrightarrow>
    kv_allocate xxh m s k = (r, m', s') \<Longrightarrow> kv_reach xxh n m' (add_mset s' S)"
| grow_tables: "kv_reach xxh n m (S + mset ss) \<Longrightarrow> kv_may_append_batch m ss = (q, m', ss') \<Longrightarrow>
    kv_reach xxh n m' (S + mset ss')"
| generated: "kv_reach xxh n m (add_mset s S) \<Longrightarrow> kv_reach xxh n m (add_mset (append_token s t) S)"
| view: "kv_reach xxh n m (add_mset s S) \<Longrightarrow> same_cache_view s s' \<Longrightarrow> kv_reach xxh n m (add_mset s' S)"
| publish: "kv_reach xxh n m (add_mset s S) \<Longrightarrow>
    num_cached_tokens s + num_scheduled_tokens s \<le> num_tokens s \<Longrightarrow>
    num_cached_tokens s + num_scheduled_tokens s \<le> length (block_table s) * BLOCK_SIZE \<Longrightarrow>
    kv_hash_blocks xxh m s = (r, m') \<Longrightarrow>
    kv_reach xxh n m' (add_mset (s\<lparr>num_cached_tokens := num_cached_tokens s + num_scheduled_tokens s\<rparr>) S)"
| preempt: "kv_reach xxh n m (add_mset s S) \<Longrightarrow> kv_deallocate m s = (r, m', s') \<Longrightarrow> kv_reach xxh n m' (add_mset s' S)"
| retire: "kv_reach xxh n m (S + mset ss) \<Longrightarrow> kv_deallocate_batch m ss = (q, m', ss') \<Longrightarrow> kv_reach xxh n m' S"

definition reach_inv :: "hasher \<Rightarrow> nat \<Rightarrow> kv_cache_manager \<Rightarrow> sequence multiset \<Rightarrow> bool" where
  "reach_inv xxh n m S \<longleftrightarrow> kv_inv m S \<and> kv_capacity m = n \<and> index_ok xxh (pool m)"

lemma kv_inv_owns: "kv_inv m S \<Longrightarrow> owns (pool m) (image_mset block_table S)"
  by (simp add: kv_inv_def cache_inv_def)

lemma kv_inv_content: "kv_inv m S \<Longrightarrow> s \<in># S \<Longrightarrow> content_ok (pool m) s"
  by (simp add: kv_inv_def cache_inv_def)

lemma reach_inv_deallocate:
  assumes "reach_inv xxh n m (S + mset ss)" "bp_deallocate_batch (pool m) ss = (r, p', ss')"
  shows "index_ok xxh p'"
proof (rule index_ok_deallocate)
  show "owns (pool m) (image_mset block_table S + tables ss)"
    using assms(1) kv_inv_owns [of m "S + mset ss"] by (simp add: reach_inv_def)
qed (use assms in \<open>simp_all add: reach_inv_def\<close>)

lemma kv_reach_inv: "kv_reach xxh n m S \<Longrightarrow> reach_inv xxh n m S"
proof (induction rule: kv_reach.induct)
  case boot
  have "cache_inv (bp_new n BLOCK_SIZE) {#}" by (rule cache_inv_new)
  then show ?case by (simp add: reach_inv_def kv_inv_def kv_new_def kv_capacity_def index_ok_new bp_new_def)
     (simp add: bp_new_inner_def)
next
  case (arrive m S ts rid sid ps)
  then show ?case using kv.inv_admit [of m S "seq_new rid sid ts ps"] by (simp add: reach_inv_def seq_new_def)
next
  case (admit m s S k r m' s')
  then have i: "kv_inv m (add_mset s S)" "kv_capacity m = n" "index_ok xxh (pool m)" by (simp_all add: reach_inv_def)
  obtain p' where p': "bp_allocate xxh (pool m) s k = (r, p', s')" "m' = m\<lparr>pool := p'\<rparr>"
    using admit.hyps(7) by (auto simp: kv_allocate_def split: prod.splits)
  have "index_ok xxh p'" using i(3) p'(1) by (rule index_ok_allocate)
  then show ?case using kv_allocate_contract [OF i(1) admit.hyps(2,3,5,4,6)] admit.hyps(7) i(2) p'(2)
    by (auto simp: reach_inv_def)
next
  case (grow_tables m S ss q m' ss')
  then have i: "kv_inv m (S + mset ss)" "kv_capacity m = n" "index_ok xxh (pool m)" by (simp_all add: reach_inv_def)
  obtain r p' where p': "bp_may_append_batch (pool m) ss = (r, p', ss')" "m' = m\<lparr>pool := p'\<rparr>"
    using grow_tables.hyps(2) by (auto simp: kv_may_append_batch_def split: prod.splits)
  have "index_ok xxh p'" using i(3) p'(1) by (rule index_ok_append)
  then show ?case using kv_append_batch_contract [OF i(1)] grow_tables.hyps(2) i p'(2)
    by (auto simp: reach_inv_def)
next
  case (generated m s S t)
  then show ?case using kv.inv_append_token by (simp add: reach_inv_def)
next
  case (view m s S s')
  then show ?case using kv.inv_view [of m s S s'] by (auto simp: reach_inv_def)
next
  case (publish m s S r m')
  then have i: "kv_inv m (add_mset s S)" "kv_capacity m = n" "index_ok xxh (pool m)" by (simp_all add: reach_inv_def)
  obtain p' where p': "bp_hash_blocks xxh (pool m) s = (r, p')" "m' = m\<lparr>pool := p'\<rparr>"
    using publish.hyps(4) by (auto simp: kv_hash_blocks_def split: prod.splits)
  have "set (block_table s) \<subseteq> {..<length (blocks (pool m))}"
    using owns_table(2) [OF kv_inv_owns [OF i(1)], of "block_table s"] by simp
  then have "index_ok xxh p'"
    using index_ok_hash_blocks [OF i(3) kv_inv_content [OF i(1)] _ _ p'(1)] i(1) by (simp add: kv_inv_def cache_inv_def)
  then show ?case using kv_publish_contract [OF i(1) publish.hyps(2,3), of xxh] publish.hyps(4) i(2) p'(2)
    by (auto simp: reach_inv_def)
next
  case (preempt m s S r m' s')
  then have i: "reach_inv xxh n m (S + mset [s])" "kv_inv m (add_mset s S)" by (simp_all add: reach_inv_def)
  obtain p' ss where p': "bp_deallocate_batch (pool m) [s] = (r, p', ss)" "m' = m\<lparr>pool := p'\<rparr>"
    using preempt.hyps(2) by (auto simp: kv_deallocate_def bp_deallocate_def split: prod.splits)
  have "index_ok xxh p'" using reach_inv_deallocate [OF i(1) p'(1)] .
  then show ?case using kv_deallocate_contract [OF i(2)] preempt.hyps(2) i(1) p'(2) by (auto simp: reach_inv_def)
next
  case (retire m S ss q m' ss')
  then have i: "reach_inv xxh n m (S + mset ss)" "kv_inv m (S + mset ss)" by (simp_all add: reach_inv_def)
  obtain r p' where p': "bp_deallocate_batch (pool m) ss = (r, p', ss')" "m' = m\<lparr>pool := p'\<rparr>"
    using retire.hyps(2) by (auto simp: kv_deallocate_batch_def split: prod.splits)
  have "index_ok xxh p'" using reach_inv_deallocate [OF i(1) p'(1)] .
  then show ?case using kv_deallocate_batch_contract [OF i(2)] retire.hyps(2) i(1) p'(2) by (auto simp: reach_inv_def)
qed

section \<open>Sharing\<close>

text \<open>Two sequences that hold the same block hold it at the same place of the same cached prefix.\<close>

definition same_prefix :: "nat \<Rightarrow> sequence \<Rightarrow> sequence \<Rightarrow> bool" where
  "same_prefix j s u \<longleftrightarrow> take (Suc j * BLOCK_SIZE) (token_ids s) = take (Suc j * BLOCK_SIZE) (token_ids u)
     \<and> Suc j * BLOCK_SIZE \<le> num_cached_tokens s \<and> Suc j * BLOCK_SIZE \<le> num_cached_tokens u"

lemma less_div_BLOCK_SIZE: "j < n div BLOCK_SIZE \<Longrightarrow> Suc j * BLOCK_SIZE \<le> n"
  using div_BLOCK_SIZE_bound by blast

lemma shared_block_prefix:
  assumes inv: "cache_inv p (add_mset s S)" and u: "u \<in># S" and j: "j < length (block_table s)" and k: "k < length (block_table u)"
    and same: "block_table s ! j = block_table u ! k"
  shows "j = k \<and> same_prefix j s u"
proof -
  have cs: "content_ok p s" "content_ok p u" using inv u by (simp_all add: cache_inv_def)
  have pub: "j < num_cached_tokens s div BLOCK_SIZE"
  proof (rule ccontr)
    assume "\<not> j < num_cached_tokens s div BLOCK_SIZE"
    then have "block_table s ! j \<notin> set (block_table u)" using unpublished_exclusive [OF inv j _ u] by simp
    then show False using same k by simp
  qed
  then have "prefix_identity (blocks p ! (block_table s ! j)) = Some (identity_at (token_ids s) j)"
    using cs(1) j by (simp add: content_ok_def)
  then have id: "prefix_identity (blocks p ! (block_table u ! k)) = Some (identity_at (token_ids s) j)" by (simp only: same)
  then have "k < num_cached_tokens u div BLOCK_SIZE \<and> identity_at (token_ids u) k = identity_at (token_ids s) j"
    using cs(2) k by (auto simp: content_ok_def split: if_splits)
  then show ?thesis using pub identity_at_eqD [of "token_ids u" k "token_ids s" j]
    by (auto simp: same_prefix_def less_div_BLOCK_SIZE simp del: mult_Suc)
qed

text \<open>C6: the accounting of the cache is exact in every reachable state. Whatever the hash function and
  whatever the order of operations, the capacity never changes, a block is free exactly when no live
  sequence has it, the reference count of a block is the number of live sequences that have it, and two
  sequences share a block only at the same index of the same token prefix, once both have computed it.\<close>

theorem kv_reachable_sound:
  assumes "kv_reach xxh n m S"
  shows "length (blocks (pool m)) = n \<and> kv_num_free_blocks m + card (occupied S) = n
    \<and> (\<forall>i < n. (i \<in> set (free_block_ids (pool m)) \<longleftrightarrow> i \<notin> occupied S)
         \<and> ref_count (blocks (pool m) ! i) = size {#s \<in># S. i \<in> set (block_table s)#})
    \<and> (\<forall>s u S'. S = add_mset s (add_mset u S') \<longrightarrow>
         (\<forall>j k. j < length (block_table s) \<longrightarrow> k < length (block_table u) \<longrightarrow> block_table s ! j = block_table u ! k \<longrightarrow>
            j = k \<and> same_prefix j s u))"
proof -
  have inv: "kv_inv m S" "kv_capacity m = n" using kv_reach_inv [OF assms] by (simp_all add: reach_inv_def)
  note own = kv_inv_owns [OF inv(1)]
  have ref: "ref_count (blocks (pool m) ! i) = size {#s \<in># S. i \<in> set (block_table s)#}" if "i < n" for i
    using owns_ref_count [OF own, of i] that inv(2)
    by (simp add: kv_capacity_def tcount_def filter_mset_image_mset)
  have free: "i \<in> set (free_block_ids (pool m)) \<longleftrightarrow> i \<notin> occupied S" if "i < n" for i
    using owns_used_iff [OF own, of i] owns_pool_inv [OF own] that inv(2)
    by (auto simp: pool_inv_def kv_capacity_def occupied_def)
  have "j = k \<and> same_prefix j s u"
    if "S = add_mset s (add_mset u S')" "j < length (block_table s)" "k < length (block_table u)" "block_table s ! j = block_table u ! k"
    for s u S' j k
    using shared_block_prefix [of "pool m" s "add_mset u S'" u j k] that inv(1) by (auto simp: kv_inv_def)
  then show ?thesis using ref free kv_free_count [OF inv(1)] inv(2) by (simp add: kv_capacity_def)
qed

section \<open>A concrete manager\<close>

definition demo_request :: "nat \<Rightarrow> nat \<Rightarrow> sequence" where
  "demo_request i n = seq_new i i (replicate n 7) default_sampling_params"

lemma demo_request_fields [simp]:
  "token_ids (demo_request i n) = replicate n 7" "num_tokens (demo_request i n) = n" "block_table (demo_request i n) = []"
  "num_cached_tokens (demo_request i n) = 0"
  by (simp_all add: demo_request_def seq_new_def)

lemma demo_arrived: "0 < n \<Longrightarrow> kv_reach xxh 4 (kv_new 4 BLOCK_SIZE) {#demo_request 0 n#}"
  using arrive [OF boot, of "replicate n 7"] by (simp add: demo_request_def usize_bound_def)

text \<open>A request of one block is admitted, computed and published.\<close>

lemma demo_admitted:
  obtains m t where "kv_reach xxh 4 m {#demo_request 0 256\<lparr>block_table := t\<rparr>#}" "length t = 1"
proof -
  let ?m = "kv_new 4 BLOCK_SIZE" and ?s = "demo_request 0 256"
  have r: "kv_reach xxh 4 ?m (add_mset ?s {#})" using demo_arrived [of 256 xxh] by simp
  have inv: "kv_inv ?m (add_mset ?s {#})" "kv_capacity ?m = 4" using kv_reach_inv [OF r] by (simp_all add: reach_inv_def)
  have nb: "num_blocks ?s = 1" by (simp add: num_blocks_def div_ceil_def BLOCK_SIZE_def)
  have "occupied (add_mset ?s {#}) = {}" by (simp add: occupied_def)
  then obtain k where k: "kv_can_allocate xxh ?m ?s = Ok (Some k)"
    using kv_can_allocate_unused [OF inv(1), of xxh] nb inv(2) by auto
  obtain m' t where a: "kv_allocate xxh ?m ?s k = (Ok (), m', ?s\<lparr>block_table := t, num_cached_tokens := k * BLOCK_SIZE\<rparr>)"
    "length t = num_blocks ?s" "k < num_blocks ?s"
    using kv_allocate_contract [OF inv(1) _ _ _ _ k] nb by (auto simp: usize_bound_def)
  have "kv_reach xxh 4 m' {#?s\<lparr>block_table := t, num_cached_tokens := k * BLOCK_SIZE\<rparr>#}"
    by (rule admit [OF r _ _ _ _ k a(1)]) (simp_all add: nb usize_bound_def)
  then show thesis using that a(2,3) nb by (simp add: demo_request_def seq_new_def)
qed

lemma demo_published:
  obtains m u where "kv_reach xxh 4 m {#u#}" "token_ids u = replicate 256 7" "num_cached_tokens u = 256" "length (block_table u) = 1"
proof -
  obtain m t where r: "kv_reach xxh 4 m {#demo_request 0 256\<lparr>block_table := t\<rparr>#}" "length t = 1" by (rule demo_admitted)
  let ?s = "demo_request 0 256\<lparr>block_table := t, num_scheduled_tokens := 256\<rparr>"
  have v: "kv_reach xxh 4 m (add_mset ?s {#})" using view [OF r(1), of ?s] by (simp add: same_cache_view_def)
  obtain q m' where h: "kv_hash_blocks xxh m ?s = (q, m')" by force
  have "kv_reach xxh 4 m' {#?s\<lparr>num_cached_tokens := 256\<rparr>#}"
    using publish [OF v _ _ h] r(2) by (simp add: BLOCK_SIZE_def)
  from that [OF this] r(2) show thesis by simp
qed

theorem kv_reachable_sound_witness:
  "\<exists>m u. kv_reach (\<lambda>_. 0) 4 m {#u#} \<and> num_cached_tokens u = 256 \<and> kv_num_free_blocks m + card (occupied {#u#}) = 4"
proof -
  obtain m u where r: "kv_reach (\<lambda>_. 0) 4 m {#u#}" "num_cached_tokens u = 256" by (rule demo_published)
  from kv_reachable_sound [OF r(1)] r show ?thesis by blast
qed

section \<open>Reuse\<close>

lemma identity_at_take:
  "take (Suc j * BLOCK_SIZE) ts = take (Suc j * BLOCK_SIZE) us \<Longrightarrow> identity_at ts j = identity_at us j"
proof (induction j)
  case 0
  then show ?case by (simp add: block_tokens_def)
next
  case (Suc j)
  have "take (Suc j * BLOCK_SIZE) ts = take (Suc j * BLOCK_SIZE) us"
    using arg_cong [OF Suc.prems, of "take (Suc j * BLOCK_SIZE)"] by (simp add: min_def)
  moreover have "block_tokens ts (Suc j) = block_tokens us (Suc j)"
    using arg_cong [OF Suc.prems, of "drop (Suc j * BLOCK_SIZE)"] by (simp add: block_tokens_def drop_take)
  ultimately show ?case using Suc.IH by simp
qed

lemma cached_prefix_published:
  assumes inv: "kv_inv m S" and u: "u \<in># S" and k: "k * BLOCK_SIZE \<le> num_cached_tokens u" and j: "j < k"
  shows "published (pool m) (identity_at (token_ids u) j)"
proof -
  have c: "content_ok (pool m) u" using inv u by (rule kv_inv_content)
  have jc: "j < num_cached_tokens u div BLOCK_SIZE" using k j by (simp add: less_eq_div_iff_mult_less_eq order.strict_trans2)
  have "num_cached_tokens u div BLOCK_SIZE \<le> length (block_table u)"
    using c by (simp add: content_ok_def div_le_mono [of _ "_ * BLOCK_SIZE" BLOCK_SIZE, simplified])
  then have jt: "j < length (block_table u)" using jc by simp
  have "block_table u ! j < length (blocks (pool m))"
    using owns_table(2) [OF kv_inv_owns [OF inv], of "block_table u"] u jt nth_mem by fastforce
  then show ?thesis using c jc jt by (auto simp: published_def content_ok_def)
qed

text \<open>C7: a computed prefix is reused. When some live sequence has computed the first \<open>k\<close> blocks of tokens
  that a waiting request also starts with, and enough blocks are free, then the request is admitted
  with at least those \<open>k\<close> blocks of its prompt already cached, whatever the hash function; only its
  last block is never taken from the cache.\<close>

theorem computed_prefix_reused:
  assumes "kv_reach xxh n m (add_mset s S)" "block_table s = []" "num_cached_tokens s = 0" "0 < num_tokens s"
    and "u \<in># S" "k * BLOCK_SIZE \<le> num_cached_tokens u" "take (k * BLOCK_SIZE) (token_ids s) = take (k * BLOCK_SIZE) (token_ids u)"
    and "k < num_blocks s" "num_blocks s \<le> kv_num_free_blocks m" "num_blocks s < usize_bound"
  shows "\<exists>k' m' s'. kv_can_allocate xxh m s = Ok (Some k') \<and> k \<le> k' \<and> k' < num_blocks s
    \<and> kv_allocate xxh m s k' = (Ok (), m', s') \<and> num_cached_tokens s' = k' * BLOCK_SIZE
    \<and> length (block_table s') = num_blocks s \<and> kv_reach xxh n m' (add_mset s' S)"
proof -
  have i: "kv_inv m (add_mset s S)" "index_ok xxh (pool m)" using kv_reach_inv [OF assms(1)] by (simp_all add: reach_inv_def)
  have wf: "length (token_ids s) = num_tokens s" using kv_inv_content [OF i(1), of s] by (simp add: content_ok_def)
  have pub: "published (pool m) (identity_at (token_ids s) j)" if "j < k" for j
  proof -
    have "Suc j * BLOCK_SIZE \<le> k * BLOCK_SIZE" using that by (intro mult_le_mono1) simp
    then have "take (Suc j * BLOCK_SIZE) (token_ids s) = take (Suc j * BLOCK_SIZE) (token_ids u)"
      using arg_cong [OF assms(7), of "take (Suc j * BLOCK_SIZE)"] by (simp add: min_absorb1)
    then have "identity_at (token_ids s) j = identity_at (token_ids u) j" by (rule identity_at_take)
    moreover have "u \<in># add_mset s S" using assms(5) by simp
    ultimately show ?thesis using cached_prefix_published [OF i(1) _ assms(6) that] by simp
  qed
  obtain bs where bs: "cached_prefix_block_ids xxh (pool m) s (num_blocks s - 1) = Ok bs" "length bs \<le> num_blocks s - 1"
    by (rule cached_prefix_block_ids_spec [OF wf, of "num_blocks s - 1" xxh "pool m"]) simp_all
  have "min (num_blocks s - 1) (k - 0) \<le> length bs"
    using bs(1) pub by (intro cached_prefix_loop_complete [OF i(2) wf]) (simp_all add: cached_prefix_block_ids_def)
  then have ge: "k \<le> length bs" using assms(8) by simp
  have en: "prefix_cache_enabled (pool m)" using i(1) by (simp add: kv_inv_def cache_inv_def)
  have can: "kv_can_allocate xxh m s = Ok (Some (length bs))"
    using bs(1) en assms(8,9) by (simp add: kv_can_allocate_def bp_can_allocate_def kv_num_free_blocks_def bp_num_free_blocks_def Let_def)
  obtain m' t where a: "kv_allocate xxh m s (length bs) = (Ok (), m', s\<lparr>block_table := t, num_cached_tokens := length bs * BLOCK_SIZE\<rparr>)"
    "length t = num_blocks s"
    using kv_allocate_contract [OF i(1) assms(2,3,10,4) can] by blast
  from admit [OF assms(1-4,10) can a(1)] a can ge bs(2) assms(8) show ?thesis by force
qed

theorem computed_prefix_reused_witness:
  "\<exists>m u k' m' s'. kv_reach (\<lambda>_. 0) 4 m {#demo_request 1 300, u#} \<and> kv_can_allocate (\<lambda>_. 0) m (demo_request 1 300) = Ok (Some k')
     \<and> 1 \<le> k' \<and> kv_allocate (\<lambda>_. 0) m (demo_request 1 300) k' = (Ok (), m', s')"
proof -
  obtain m u where r: "kv_reach (\<lambda>_. 0) 4 m {#u#}" "token_ids u = replicate 256 7" "num_cached_tokens u = 256" "length (block_table u) = 1"
    by (rule demo_published)
  have r2: "kv_reach (\<lambda>_. 0) 4 m (add_mset (demo_request 1 300) {#u#})"
    using arrive [OF r(1), of "replicate 300 7" 1 1 default_sampling_params] by (simp add: demo_request_def usize_bound_def)
  have nb: "num_blocks (demo_request 1 300) = 2" by (simp add: num_blocks_def div_ceil_def BLOCK_SIZE_def)
  have "kv_num_free_blocks m + card (occupied {#u#}) = 4"
    using kv_reach_inv [OF r(1)] kv_free_count [of m "{#u#}"] by (simp add: reach_inv_def)
  moreover have "card (occupied {#u#}) \<le> 1" using card_length [of "block_table u"] r(4) by (simp add: occupied_def)
  ultimately have "2 \<le> kv_num_free_blocks m" by simp
  then have free: "num_blocks (demo_request 1 300) \<le> kv_num_free_blocks m" by (simp only: nb)
  have "take (1 * BLOCK_SIZE) (token_ids (demo_request 1 300)) = take (1 * BLOCK_SIZE) (token_ids u)"
    "1 * BLOCK_SIZE \<le> num_cached_tokens u"
    by (simp_all add: r(2,3) BLOCK_SIZE_def)
  then obtain k' m' s' where "kv_can_allocate (\<lambda>_. 0) m (demo_request 1 300) = Ok (Some k')" "1 \<le> k'"
    "kv_allocate (\<lambda>_. 0) m (demo_request 1 300) k' = (Ok (), m', s')"
    using computed_prefix_reused [OF r2 _ _ _ _ _ _ _ free, of u 1] nb by (auto simp: usize_bound_def)
  then show ?thesis using r2 by blast
qed

section \<open>Failures\<close>

lemma check_cached_no_panic: "check_cached p seen is \<noteq> Panicked"
  by (induction p seen "is" rule: check_cached.induct) (auto split: option.splits)

lemma check_free_distinct_no_panic: "check_free_distinct p seen is \<noteq> Panicked"
  by (induction p seen "is" rule: check_free_distinct.induct) (auto simp: validate_free_block_def)

lemma allocate_validate_no_panic:
  assumes "length (token_ids s) = num_tokens s"
  shows "allocate_validate xxh p s k \<noteq> Panicked"
proof (cases "k \<le> num_blocks s")
  case True
  then obtain bs where "cached_prefix_block_ids xxh p s k = Ok bs"
    by (rule cached_prefix_block_ids_spec [OF assms, of k xxh p])
  then show ?thesis using check_cached_no_panic [of p "{}" bs]
      check_free_distinct_no_panic [of p "{}" "take (num_blocks s - k) (filter (\<lambda>i. i \<notin> set bs) (free_block_ids p))"]
    by (cases "check_cached p {} bs"; cases "check_free_distinct p {} (take (num_blocks s - k) (filter (\<lambda>i. i \<notin> set bs) (free_block_ids p)))")
       (auto simp: allocate_validate_def Let_def split: option.splits)
qed (simp add: allocate_validate_def)



text \<open>admission that is rolled back leaves no trace. A request that is admitted and at once released has
  its old fields back, the cache has its old number of free blocks, and the state is still reachable.\<close>

theorem admit_release_roundtrip:
  assumes "kv_reach xxh n m (add_mset s S)" "block_table s = []" "num_cached_tokens s = 0" "0 < num_tokens s"
    and "num_blocks s < usize_bound" "kv_can_allocate xxh m s = Ok (Some k)"
  shows "\<exists>m' s' m''. kv_allocate xxh m s k = (Ok (), m', s') \<and> kv_deallocate m' s' = (Ok (), m'', s)
    \<and> kv_reach xxh n m'' (add_mset s S) \<and> kv_num_free_blocks m'' = kv_num_free_blocks m"
proof -
  have i: "kv_inv m (add_mset s S)" using kv_reach_inv [OF assms(1)] by (simp add: reach_inv_def)
  obtain m' s' m'' where r: "kv_allocate xxh m s k = (Ok (), m', s')" "kv_deallocate m' s' = (Ok (), m'', s)"
    using kv.allocate_then_deallocate [OF i assms(2,3,5,4,6)] by blast
  have reach: "kv_reach xxh n m'' (add_mset s S)"
    by (rule preempt [OF admit [OF assms(1-6) r(1)] r(2)])
  have "kv_num_free_blocks m'' + card (occupied (add_mset s S)) = n" "kv_num_free_blocks m + card (occupied (add_mset s S)) = n"
    using kv_free_count kv_reach_inv [OF reach] kv_reach_inv [OF assms(1)] by (simp_all add: reach_inv_def)
  then show ?thesis using r reach by auto
qed

theorem admit_release_roundtrip_witness:
  "\<exists>k m' s' m''. kv_allocate (\<lambda>_. 0) (kv_new 4 BLOCK_SIZE) (demo_request 0 3) k = (Ok (), m', s')
     \<and> kv_deallocate m' s' = (Ok (), m'', demo_request 0 3)"
proof -
  let ?s = "demo_request 0 3"
  have r: "kv_reach (\<lambda>_. 0) 4 (kv_new 4 BLOCK_SIZE) (add_mset ?s {#})" using demo_arrived [of 3] by simp
  have nb: "num_blocks ?s = 1" by (simp add: num_blocks_def div_ceil_def BLOCK_SIZE_def)
  have inv: "kv_inv (kv_new 4 BLOCK_SIZE) (add_mset ?s {#})" "kv_capacity (kv_new 4 BLOCK_SIZE) = 4"
    using kv_reach_inv [OF r] by (simp_all add: reach_inv_def)
  have "occupied (add_mset ?s {#}) = {}" by (simp add: occupied_def)
  then obtain k where k: "kv_can_allocate (\<lambda>_. 0) (kv_new 4 BLOCK_SIZE) ?s = Ok (Some k)"
    using kv_can_allocate_unused [OF inv(1), of "\<lambda>_. 0"] nb inv(2) by auto
  have "num_blocks ?s < usize_bound" by (simp add: nb usize_bound_def)
  from admit_release_roundtrip [OF r _ _ _ this k] show ?thesis by auto
qed

end
