(* ===== verification/Float_Ops.thy ===== *)
theory Float_Ops
  imports Device_Float
begin

text \<open>
  The arithmetic of \<^verbatim>\<open>f32\<close> and \<^verbatim>\<open>f64\<close> values that the sampler uses. Both formats share the
  datatype \<open>f32\<close> of \<open>Sampling\<close> (NaN, infinities, rationals); an operation computes the exact
  rational result and rounds it to the nearest number of its format, ties to even, subnormal numbers
  and overflow to infinity included. The two zeros are one value: the code never divides by a zero,
  and nothing else it does tells them apart.
\<close>

type_synonym f64 = f32

text \<open>Rounding to \<open>p\<close> significant bits with greatest exponent \<open>emax\<close>.\<close>

definition ieee_round :: "nat \<Rightarrow> nat \<Rightarrow> rat \<Rightarrow> f32" where
  "ieee_round p emax x =
     (if x = 0 then F32_Finite 0
      else let e = max (f64_exponent \<bar>x\<bar>) (1 - int emax);
               u = 2 powi (e - int p + 1);
               r = of_int (round_half_even (\<bar>x\<bar> / u)) * u
           in if 2 ^ Suc emax \<le> r then (if 0 < x then F32_PosInf else F32_NegInf)
              else F32_Finite (sgn x * r))"

abbreviation round32 :: "rat \<Rightarrow> f32" where "round32 \<equiv> ieee_round 24 127"

abbreviation round64 :: "rat \<Rightarrow> f64" where "round64 \<equiv> ieee_round 53 1023"

fun fl_neg :: "f32 \<Rightarrow> f32" where
  "fl_neg F32_NaN = F32_NaN"
| "fl_neg F32_NegInf = F32_PosInf"
| "fl_neg F32_PosInf = F32_NegInf"
| "fl_neg (F32_Finite a) = F32_Finite (- a)"

definition fl_abs :: "f32 \<Rightarrow> f32" where
  "fl_abs a = (if f32_less a (F32_Finite 0) then fl_neg a else a)"

fun fl_add :: "(rat \<Rightarrow> f32) \<Rightarrow> f32 \<Rightarrow> f32 \<Rightarrow> f32" where
  "fl_add rnd F32_NaN _ = F32_NaN"
| "fl_add rnd _ F32_NaN = F32_NaN"
| "fl_add rnd (F32_Finite a) (F32_Finite b) = rnd (a + b)"
| "fl_add rnd (F32_Finite _) b = b"
| "fl_add rnd a (F32_Finite _) = a"
| "fl_add rnd a b = (if a = b then a else F32_NaN)"

definition fl_sub :: "(rat \<Rightarrow> f32) \<Rightarrow> f32 \<Rightarrow> f32 \<Rightarrow> f32" where
  "fl_sub rnd a b = fl_add rnd a (fl_neg b)"

text \<open>An infinity with the sign of a product or a quotient.\<close>

definition fl_signed_inf :: "bool \<Rightarrow> f32" where
  "fl_signed_inf negative = (if negative then F32_NegInf else F32_PosInf)"

definition fl_negative :: "f32 \<Rightarrow> bool" where
  "fl_negative a = f32_less a (F32_Finite 0)"

definition fl_mul :: "(rat \<Rightarrow> f32) \<Rightarrow> f32 \<Rightarrow> f32 \<Rightarrow> f32" where
  "fl_mul rnd a b =
     (case (a, b) of
        (F32_Finite x, F32_Finite y) \<Rightarrow> rnd (x * y)
      | _ \<Rightarrow> if f32_is_nan a \<or> f32_is_nan b \<or> a = F32_Finite 0 \<or> b = F32_Finite 0 then F32_NaN
             else fl_signed_inf (fl_negative a \<noteq> fl_negative b))"

definition fl_div :: "(rat \<Rightarrow> f32) \<Rightarrow> f32 \<Rightarrow> f32 \<Rightarrow> f32" where
  "fl_div rnd a b =
     (if f32_is_nan a \<or> f32_is_nan b then F32_NaN
      else case (a, b) of
        (F32_Finite x, F32_Finite y) \<Rightarrow>
          if y = 0 then (if x = 0 then F32_NaN else fl_signed_inf (fl_negative a)) else rnd (x / y)
      | (F32_Finite x, _) \<Rightarrow> F32_Finite 0
      | (_, F32_Finite y) \<Rightarrow> fl_signed_inf (fl_negative a \<noteq> fl_negative b)
      | _ \<Rightarrow> F32_NaN)"

text \<open>\<^verbatim>\<open>f64::max\<close>: a NaN argument is ignored.\<close>

definition fl_max :: "f32 \<Rightarrow> f32 \<Rightarrow> f32" where
  "fl_max a b = (if f32_is_nan a then b else if f32_is_nan b then a else if f32_less a b then b else a)"

text \<open>\<^verbatim>\<open>x as f32\<close> for an \<^verbatim>\<open>f64\<close>; the other direction is exact.\<close>

fun f64_as_f32 :: "f64 \<Rightarrow> f32" where
  "f64_as_f32 (F32_Finite a) = round32 a"
| "f64_as_f32 a = a"

section \<open>Rounding stays below a power of two\<close>

lemma ieee_round_le:
  assumes "\<bar>x\<bar> \<le> 2 ^ n" "n \<le> emax" "0 < p" "0 < emax"
  obtains r where "ieee_round p emax x = F32_Finite r" "\<bar>r\<bar> \<le> 2 ^ n"
proof (cases "x = 0")
  case True
  then show thesis using that [of 0] by (simp add: ieee_round_def)
next
  case False
  let ?e = "max (f64_exponent \<bar>x\<bar>) (1 - int emax)" and ?u = "2 powi (max (f64_exponent \<bar>x\<bar>) (1 - int emax) - int p + 1) :: rat"
  let ?r = "of_int (round_half_even (\<bar>x\<bar> / ?u)) * ?u"
  have "(2 :: rat) powi f64_exponent \<bar>x\<bar> \<le> 2 ^ n" using f64_exponent_le [of "\<bar>x\<bar>"] False assms(1) by simp
  then have "\<not> int n < f64_exponent \<bar>x\<bar>"
    using power_int_strict_increasing [of "int n" "f64_exponent \<bar>x\<bar>" "2 :: rat"] by auto
  then have en: "?e \<le> int n" using assms(2,4) by simp
  then have "0 \<le> int n - (?e - int p + 1)" using assms(3) by linarith
  then obtain m where m: "int n - (?e - int p + 1) = int m" using zero_le_imp_eq_int by blast
  have u: "0 < ?u" by simp
  have split: "(2 :: rat) ^ n = 2 ^ m * ?u"
  proof -
    have "int n = int m + (?e - int p + 1)" using m by linarith
    then have "(2 :: rat) powi int n = 2 powi (int m + (?e - int p + 1))" by (rule arg_cong)
    also have "\<dots> = 2 powi int m * ?u" by (rule power_int_add) simp
    finally show ?thesis by (simp only: power_int_of_nat)
  qed
  then have "\<bar>x\<bar> / ?u \<le> of_int (2 ^ m)" using assms(1) u by (simp add: pos_divide_le_eq)
  then have le: "round_half_even (\<bar>x\<bar> / ?u) \<le> 2 ^ m" by (rule round_half_even_le)
  have "0 \<le> \<bar>x\<bar> / ?u" using u by simp
  then have "0 \<le> \<lfloor>\<bar>x\<bar> / ?u\<rfloor>" by simp
  then have nn: "0 \<le> round_half_even (\<bar>x\<bar> / ?u)" by (simp add: round_half_even_def Let_def)
  have "of_int (round_half_even (\<bar>x\<bar> / ?u)) \<le> (2 :: rat) ^ m" using le by (metis of_int_le_iff of_int_numeral of_int_power)
  then have r: "?r \<le> 2 ^ n" "0 \<le> ?r" using nn u by (simp_all add: split mult_right_mono)
  have "(2 :: rat) ^ n < 2 ^ Suc emax" using assms(2) by (intro power_strict_increasing) simp_all
  then have "\<not> 2 ^ Suc emax \<le> ?r" using r(1) by linarith
  then have "ieee_round p emax x = F32_Finite (sgn x * ?r)" using False by (simp add: ieee_round_def Let_def)
  moreover have "\<bar>sgn x * y\<bar> = \<bar>y\<bar>" for y using False by (simp add: abs_mult abs_sgn_eq)
  then have "\<bar>sgn x * ?r\<bar> \<le> 2 ^ n" using r by (simp only: abs_of_nonneg)
  ultimately show thesis by (rule that)
qed

lemma round_half_even_ge: "of_int m \<le> y \<Longrightarrow> m \<le> round_half_even y"
proof -
  assume "of_int m \<le> y"
  then have "m \<le> \<lfloor>y\<rfloor>" by (simp add: le_floor_iff)
  then show ?thesis by (simp add: round_half_even_def Let_def)
qed

lemma ieee_round_ge:
  assumes "2 ^ n \<le> x" "0 < p" "0 < emax"
  shows "ieee_round p emax x = F32_PosInf \<or> (\<exists>r. ieee_round p emax x = F32_Finite r \<and> 2 ^ n \<le> r)"
proof -
  have x: "0 < x" using assms(1) by (metis less_le_trans zero_less_numeral zero_less_power)
  let ?e = "max (f64_exponent x) (1 - int emax)" and ?u = "2 powi (max (f64_exponent x) (1 - int emax) - int p + 1) :: rat"
  let ?r = "of_int (round_half_even (x / ?u)) * ?u"
  have u: "0 < ?u" by simp
  have power: "2 ^ n \<le> ?r" if k: "int n \<le> k" "2 powi k \<le> x" "k - (?e - int p + 1) = int m" for k m
  proof -
    have "k = int m + (?e - int p + 1)" using k(3) by linarith
    then have "(2 :: rat) powi k = 2 powi (int m + (?e - int p + 1))" by (rule arg_cong)
    also have "\<dots> = 2 powi int m * ?u" by (rule power_int_add) simp
    finally have split: "(2 :: rat) powi k = 2 ^ m * ?u" by (simp only: power_int_of_nat)
    then have "of_int (2 ^ m) \<le> x / ?u" using k(2) u by (simp add: pos_le_divide_eq)
    then have "2 ^ m \<le> round_half_even (x / ?u)" by (rule round_half_even_ge)
    then have "(2 :: rat) ^ m \<le> of_int (round_half_even (x / ?u))" by (metis of_int_le_iff of_int_numeral of_int_power)
    then have "(2 :: rat) powi k \<le> ?r" using u by (simp add: split mult_right_mono)
    moreover have "(2 :: rat) powi int n \<le> 2 powi k" using k(1) by (intro power_int_increasing) simp_all
    ultimately show ?thesis by simp
  qed
  have "2 ^ n \<le> ?r"
  proof (cases "?e - int p + 1 \<le> int n")
    case True
    then have "0 \<le> int n - (?e - int p + 1)" by linarith
    then obtain m where "int n - (?e - int p + 1) = int m" using zero_le_imp_eq_int by blast
    then show ?thesis using assms(1) by (intro power [of "int n"]) simp_all
  next
    case False
    then have e: "?e = f64_exponent x" "int n \<le> ?e" using assms(2,3) by linarith+
    have "?e - (?e - int p + 1) = int (p - 1)" using assms(2) by (simp add: of_nat_diff)
    moreover have "2 powi ?e \<le> x" unfolding e(1) using x by (rule f64_exponent_le)
    ultimately show ?thesis using e(2) by (intro power)
  qed
  then show ?thesis using x by (auto simp: ieee_round_def Let_def)
qed

lemma ieee_round_nonneg: "0 \<le> x \<Longrightarrow> ieee_round p emax x = F32_Finite r \<Longrightarrow> 0 \<le> r"
proof -
  assume x: "0 \<le> x" and r: "ieee_round p emax x = F32_Finite r"
  have "0 \<le> round_half_even y" if "0 \<le> y" for y using round_half_even_ge [of 0 y] that by simp
  then show "0 \<le> r" using x r by (auto simp: ieee_round_def Let_def split: if_splits)
qed

lemma ieee_round_0 [simp]: "ieee_round p emax 0 = F32_Finite 0"
  by (simp add: ieee_round_def)

end
