(* ===== verification/Sampler.thy ===== *)
theory Sampler
  imports Float_Ops
begin

text \<open>
  The sampler of \<^verbatim>\<open>sampler.rs\<close>: the checks and the dispatch of \<^verbatim>\<open>forward\<close>, the host pipeline (penalties,
  greedy choice, temperature, top-k, top-p, Gumbel draw), its wide variant for rows whose \<^verbatim>\<open>f32\<close>
  arithmetic would overflow, and the transactional seeds of the device path.

  Parameters are the generator of the \<^verbatim>\<open>rand\<close> crate, the Gumbel distribution of \<^verbatim>\<open>rand_distr\<close>, the
  exponential of \<^verbatim>\<open>f64\<close>, the tensor accesses of candle and the device kernels. A \<^verbatim>\<open>HashMap\<close> of token
  counts is walked in the order of first occurrence; its entries concern distinct tokens, so the
  order does not matter (\<open>penalize_counts_nth\<close>). On a row with NaN the order Rust's sorts leave is
  unspecified; the model takes a stable sort.
\<close>

record ('r, 't, 'w) sampler_ops =
  next_u64 :: "'r \<Rightarrow> 64 word \<times> 'r"
  gumbel_new :: bool
  gumbel_sample :: "'r \<Rightarrow> f64 \<times> 'r"
  f64_exp :: "f64 \<Rightarrow> f64"
  tensor_rank :: "'t \<Rightarrow> nat"
  tensor_dim :: "'t \<Rightarrow> nat \<Rightarrow> (string, nat) outcome"
  tensor_is_cuda :: "'t \<Rightarrow> bool"
  tensor_get :: "'t \<Rightarrow> nat \<Rightarrow> (string, 't) outcome"
  tensor_f32 :: "'t \<Rightarrow> (string, f32 list) outcome"
  tensor_from_ids :: "token list \<Rightarrow> 't \<Rightarrow> (string, 't) outcome"
  device_sample :: "'t \<Rightarrow> sampling_params list \<Rightarrow> token list list \<Rightarrow> 64 word list \<Rightarrow> 'w \<Rightarrow> (string, 't) outcome \<times> 'w"

record ('r, 'w) sampler =
  rng :: 'r
  workspace :: 'w

section \<open>Token counts and penalties\<close>

text \<open>\<^verbatim>\<open>*counts.entry(token).or_insert(0) += 1\<close> over the history, out-of-vocabulary tokens skipped.\<close>

fun count_token :: "token \<Rightarrow> (token \<times> nat) list \<Rightarrow> (token \<times> nat) list" where
  "count_token t [] = [(t, 1)]"
| "count_token t ((u, c) # counts) = (if u = t then (u, c + 1) # counts else (u, c) # count_token t counts)"

fun history_counts :: "nat \<Rightarrow> token list \<Rightarrow> (token \<times> nat) list \<Rightarrow> (token \<times> nat) list" where
  "history_counts vocab [] counts = counts"
| "history_counts vocab (t # ts) counts =
     history_counts vocab ts (if unat t < vocab then count_token t counts else counts)"

definition penalize :: "sampling_params \<Rightarrow> nat \<Rightarrow> f32 \<Rightarrow> f32" where
  "penalize ps n v =
     (let v1 = (if \<not> f32_eq (repetition_penalty ps) (F32_Finite 0) then fl_div round32 v (repetition_penalty ps) else v);
          v2 = fl_sub round32 v1 (presence_penalty ps)
      in if \<not> f32_eq (frequency_penalty ps) (F32_Finite 0)
         then fl_sub round32 v2 (fl_mul round32 (frequency_penalty ps) (round32 (of_nat n)))
         else v2)"

fun penalize_counts :: "sampling_params \<Rightarrow> (token \<times> nat) list \<Rightarrow> f32 list \<Rightarrow> ('e, f32 list) outcome" where
  "penalize_counts ps [] buf = Ok buf"
| "penalize_counts ps ((t, c) # counts) buf =
     rbind (index buf (unat t)) (\<lambda>v. penalize_counts ps counts (buf[unat t := penalize ps c v]))"

definition apply_penalties :: "f32 list \<Rightarrow> sampling_params \<Rightarrow> token list \<Rightarrow> nat \<Rightarrow> ('e, f32 list) outcome" where
  "apply_penalties buf ps history vocab = penalize_counts ps (history_counts vocab history []) buf"

section \<open>Masks\<close>

text \<open>The stable descending sort of positions by value, with \<^verbatim>\<open>partial_cmp(..).unwrap_or(Equal)\<close>.\<close>

fun insert_desc :: "f32 list \<Rightarrow> nat \<Rightarrow> nat list \<Rightarrow> nat list" where
  "insert_desc buf i [] = [i]"
| "insert_desc buf i (j # js) = (if f32_less (buf ! i) (buf ! j) then j # insert_desc buf i js else i # j # js)"

definition order_desc :: "f32 list \<Rightarrow> nat list" where
  "order_desc buf = foldr (insert_desc buf) [0..<length buf] []"

definition mask_top_k :: "f32 list \<Rightarrow> nat \<Rightarrow> ('e, f32 list) outcome" where
  "mask_top_k buf k =
     rbind (index (order_desc buf) (k - 1)) (\<lambda>i.
     Ok (map (\<lambda>v. if f32_less v (buf ! i) then F32_NegInf else v) buf))"

text \<open>The number of leading positions of the sorted order that make up the nucleus: the loop over the
  ranks with the cumulative sum so far.\<close>

fun nucleus_cutoff :: "(f64 \<Rightarrow> f64) \<Rightarrow> f32 list \<Rightarrow> f32 \<Rightarrow> f64 \<Rightarrow> f64 \<Rightarrow> nat list \<Rightarrow> nat \<Rightarrow> f64 \<Rightarrow> nat" where
  "nucleus_cutoff ex buf mx exp_sum p [] rank cumsum = length buf"
| "nucleus_cutoff ex buf mx exp_sum p (tok # toks) rank cumsum =
     (let prob = fl_div round64 (ex (fl_sub round32 (buf ! tok) mx)) exp_sum;
          cumsum' = fl_add round64 cumsum prob
      in if f32_le p cumsum' then rank + 1 else nucleus_cutoff ex buf mx exp_sum p toks (rank + 1) cumsum')"

definition exp_total :: "(f64 \<Rightarrow> f64) \<Rightarrow> f32 list \<Rightarrow> f32 \<Rightarrow> f64" where
  "exp_total ex buf mx = foldl (\<lambda>s v. fl_add round64 s (ex (fl_sub round32 v mx))) (F32_Finite 0) buf"

definition mask_top_p :: "(f64 \<Rightarrow> f64) \<Rightarrow> f32 list \<Rightarrow> f32 \<Rightarrow> ('e, f32 list) outcome" where
  "mask_top_p ex buf p =
     (let idx = order_desc buf in
      rbind (index idx 0) (\<lambda>first.
        let mx = buf ! first;
            cutoff = nucleus_cutoff ex buf mx (exp_total ex buf mx) p idx 0 (F32_Finite 0)
        in Ok (map (\<lambda>tok. if tok \<in> set (drop cutoff idx) then F32_NegInf else buf ! tok) [0..<length buf])))"

section \<open>Drawing\<close>

fun gumbel_scan :: "('r \<Rightarrow> f64 \<times> 'r) \<Rightarrow> nat \<Rightarrow> f32 \<Rightarrow> nat \<Rightarrow> f32 list \<Rightarrow> 'r \<Rightarrow> nat \<times> 'r" where
  "gumbel_scan draw i best_val best_idx [] g = (best_idx, g)"
| "gumbel_scan draw i best_val best_idx (v # vs) g =
     (case draw g of (noise, g') \<Rightarrow>
        let score = fl_add round32 v (f64_as_f32 noise)
        in if f32_less best_val score then gumbel_scan draw (Suc i) score i vs g'
           else gumbel_scan draw (Suc i) best_val best_idx vs g')"

definition gumbel_argmax_buf :: "('r, 't, 'w) sampler_ops \<Rightarrow> f32 list \<Rightarrow> 'r \<Rightarrow> nat \<times> 'r" where
  "gumbel_argmax_buf ops buf g =
     (if \<not> gumbel_new ops then (argmax_buf buf, g) else gumbel_scan (gumbel_sample ops) 0 F32_NegInf 0 buf g)"

text \<open>Steps five to seven, shared by the ordinary and the wide path: the two masks and the draw.\<close>

definition sample_masked ::
    "('r, 't, 'w) sampler_ops \<Rightarrow> sampling_params \<Rightarrow> f32 list \<Rightarrow> nat \<Rightarrow> 'r \<Rightarrow> (string, nat) outcome \<times> 'r" where
  "sample_masked ops ps buf vocab g =
     (case (case top_k ps of Some k \<Rightarrow> if 1 \<le> k \<and> k < vocab then mask_top_k buf k else Ok buf | None \<Rightarrow> Ok buf) of
        Inl e \<Rightarrow> (Inl e, g)
      | Inr buf1 \<Rightarrow>
          (case (case top_p ps of
                   Some p \<Rightarrow> if f32_less (F32_Finite 0) p \<and> f32_less p (F32_Finite 1) then mask_top_p (f64_exp ops) buf1 p else Ok buf1
                 | None \<Rightarrow> Ok buf1) of
             Inl e \<Rightarrow> (Inl e, g)
           | Inr buf2 \<Rightarrow> (case gumbel_argmax_buf ops buf2 g of (i, g') \<Rightarrow> (Ok i, g'))))"

section \<open>The wide path\<close>

definition requires_wide_sampling :: "f32 list \<Rightarrow> sampling_params \<Rightarrow> token list \<Rightarrow> bool" where
  "requires_wide_sampling buf ps history =
     (let penalized = has_penalties ps \<and> history \<noteq> [] in
      if is_greedy ps \<and> \<not> penalized then False
      else if \<not> list_all f32_is_finite buf then False
      else
        let bound = foldl (\<lambda>b v. fl_max b (fl_abs v)) (F32_Finite 0) buf;
            bound = (if penalized then
                let b = (if f32_less (F32_Finite 0) (repetition_penalty ps)
                         then fl_max bound (fl_div round64 bound (repetition_penalty ps)) else bound)
                in fl_add round64 b (fl_add round64 (fl_abs (presence_penalty ps))
                     (fl_mul round64 (fl_abs (frequency_penalty ps)) (round64 (of_nat (length history)))))
              else bound)
        in if f32_less (F32_Finite (2 ^ 128 - 2 ^ 104)) bound then True
           else if is_greedy ps \<or> temperature ps \<in> {F32_PosInf, F32_NegInf} then False
           else let inv_t = fl_div round32 (F32_Finite 1) (temperature ps)
                in \<not> f32_is_finite inv_t \<or> f32_le (F32_Finite 16777216) (fl_mul round64 bound inv_t))"

record wide_score =
  base :: f64
  score_count :: nat

definition two_sum :: "f64 \<Rightarrow> f64 \<Rightarrow> f64 \<times> f64" where
  "two_sum left right =
     (let sm = fl_add round64 left right;
          right_part = fl_sub round64 sm left;
          err = fl_add round64 (fl_sub round64 left (fl_sub round64 sm right_part)) (fl_sub round64 right right_part)
      in (sm, err))"

definition difference :: "wide_score \<Rightarrow> wide_score \<Rightarrow> sampling_params \<Rightarrow> f64" where
  "difference a b ps =
     (let primary = fl_sub round64 (base a) (base b) in
      if \<not> f32_is_finite primary then primary
      else
        let presence = (if (0 < score_count a) = (0 < score_count b) then F32_Finite 0
                        else if 0 < score_count a then fl_neg (presence_penalty ps) else presence_penalty ps);
            count_difference = (if score_count b \<le> score_count a then round64 (of_nat (score_count a - score_count b))
                                else fl_neg (round64 (of_nat (score_count b - score_count a))));
            frequency = fl_mul round64 (fl_neg (frequency_penalty ps)) count_difference
        in case two_sum primary frequency of (s1, err) \<Rightarrow>
             (case two_sum s1 presence of (s2, next_err) \<Rightarrow> fl_add round64 s2 (fl_add round64 err next_err)))"

fun widen_counts :: "sampling_params \<Rightarrow> (token \<times> nat) list \<Rightarrow> wide_score list \<Rightarrow> ('e, wide_score list) outcome" where
  "widen_counts ps [] wide = Ok wide"
| "widen_counts ps ((t, c) # counts) wide =
     rbind (index wide (unat t)) (\<lambda>v.
       let b = (if \<not> f32_eq (repetition_penalty ps) (F32_Finite 0) then fl_div round64 (base v) (repetition_penalty ps) else base v)
       in widen_counts ps counts (wide[unat t := v\<lparr>base := b, score_count := c\<rparr>]))"

definition wide_sampling_scores :: "f32 list \<Rightarrow> sampling_params \<Rightarrow> token list \<Rightarrow> ('e, wide_score list) outcome" where
  "wide_sampling_scores buf ps history =
     (let wide = map (\<lambda>v. \<lparr>base = v, score_count = 0\<rparr>) buf in
      if has_penalties ps \<and> history \<noteq> [] then widen_counts ps (history_counts (length wide) history []) wide else Ok wide)"

fun wide_scan :: "sampling_params \<Rightarrow> nat \<Rightarrow> wide_score \<Rightarrow> nat \<Rightarrow> wide_score list \<Rightarrow> wide_score \<times> nat" where
  "wide_scan ps i best best_idx [] = (best, best_idx)"
| "wide_scan ps i best best_idx (v # vs) =
     (if f32_less (F32_Finite 0) (difference v best ps) then wide_scan ps (Suc i) v i vs
      else wide_scan ps (Suc i) best best_idx vs)"

definition normalized_scores :: "sampling_params \<Rightarrow> wide_score \<Rightarrow> wide_score list \<Rightarrow> f32 list" where
  "normalized_scores ps best wide =
     map (\<lambda>v. if temperature ps \<in> {F32_PosInf, F32_NegInf} then F32_Finite 0
              else f64_as_f32 (fl_div round64 (difference v best ps) (temperature ps))) wide"

definition sample_row_wide ::
    "('r, 't, 'w) sampler_ops \<Rightarrow> f32 list \<Rightarrow> sampling_params \<Rightarrow> token list \<Rightarrow> 'r \<Rightarrow> (string, nat) outcome \<times> 'r" where
  "sample_row_wide ops buf ps history g =
     (case wide_sampling_scores buf ps history of
        Inl e \<Rightarrow> (Inl e, g)
      | Inr wide \<Rightarrow>
          (case wide_scan ps 0 \<lparr>base = F32_NegInf, score_count = 0\<rparr> 0 wide of (best, i) \<Rightarrow>
             if is_greedy ps then (Ok i, g)
             else let normalized = normalized_scores ps best wide
                  in sample_masked ops ps normalized (length normalized) g))"

section \<open>One row, a batch, a call\<close>

definition sample_row_host ::
    "('r, 't, 'w) sampler_ops \<Rightarrow> 't \<Rightarrow> sampling_params \<Rightarrow> token list \<Rightarrow> nat \<Rightarrow> 'r \<Rightarrow> (string, nat) outcome \<times> 'r" where
  "sample_row_host ops row ps history vocab g =
     (case tensor_f32 ops row of
        Inl e \<Rightarrow> (Inl e, g)
      | Inr buf \<Rightarrow>
          if requires_wide_sampling buf ps history then sample_row_wide ops buf ps history g
          else
            (case (if has_penalties ps \<and> history \<noteq> [] then apply_penalties buf ps history vocab else Ok buf) of
               Inl e \<Rightarrow> (Inl e, g)
             | Inr buf1 \<Rightarrow>
                 if is_greedy ps then (Ok (argmax_buf buf1), g)
                 else let inv_t = fl_div round32 (F32_Finite 1) (temperature ps)
                      in sample_masked ops ps (map (\<lambda>v. fl_mul round32 v inv_t) buf1) vocab g))"

fun forward_rows ::
    "('r, 't, 'w) sampler_ops \<Rightarrow> 't \<Rightarrow> (nat \<times> sampling_params \<times> token list) list \<Rightarrow> nat \<Rightarrow> 'r \<Rightarrow> (string, token list) outcome \<times> 'r" where
  "forward_rows ops logits [] vocab g = (Ok [], g)"
| "forward_rows ops logits ((row, ps, history) # rows) vocab g =
     (case tensor_get ops logits row of
        Inl e \<Rightarrow> (Inl e, g)
      | Inr t \<Rightarrow>
          (case sample_row_host ops t ps history vocab g of
             (Inl e, g') \<Rightarrow> (Inl e, g')
           | (Inr i, g') \<Rightarrow>
               (case forward_rows ops logits rows vocab g' of
                  (Inl e, g'') \<Rightarrow> (Inl e, g'')
                | (Inr ids, g'') \<Rightarrow> (Ok (word_of_nat i # ids), g''))))"

definition forward_host ::
    "('r, 't, 'w) sampler_ops \<Rightarrow> 't \<Rightarrow> sampling_params list \<Rightarrow> token list list \<Rightarrow> nat \<Rightarrow> nat \<Rightarrow> ('r, 'w) sampler \<Rightarrow>
      (string, 't) outcome \<times> ('r, 'w) sampler" where
  "forward_host ops logits pss histories batch vocab s =
     (case forward_rows ops logits (map (\<lambda>row. (row, pss ! row, histories ! row)) [0..<batch]) vocab (rng s) of
        (Inl e, g) \<Rightarrow> (Inl e, s\<lparr>rng := g\<rparr>)
      | (Inr ids, g) \<Rightarrow> (tensor_from_ids ops ids logits, s\<lparr>rng := g\<rparr>))"

fun draw_seeds :: "('r \<Rightarrow> 64 word \<times> 'r) \<Rightarrow> nat \<Rightarrow> 'r \<Rightarrow> 64 word list \<times> 'r" where
  "draw_seeds nxt 0 g = ([], g)"
| "draw_seeds nxt (Suc n) g = (case nxt g of (x, g') \<Rightarrow> (case draw_seeds nxt n g' of (xs, g'') \<Rightarrow> (x # xs, g'')))"

definition forward_cuda ::
    "('r, 't, 'w) sampler_ops \<Rightarrow> 't \<Rightarrow> sampling_params list \<Rightarrow> token list list \<Rightarrow> nat \<Rightarrow> ('r, 'w) sampler \<Rightarrow>
      (string, 't) outcome \<times> ('r, 'w) sampler" where
  "forward_cuda ops logits pss histories batch s =
     (case draw_seeds (next_u64 ops) batch (rng s) of (row_seeds, pending_rng) \<Rightarrow>
        (case device_sample ops logits pss histories row_seeds (workspace s) of
           (Inl e, w) \<Rightarrow> (Inl e, s\<lparr>workspace := w\<rparr>)
         | (Inr selected, w) \<Rightarrow> (Ok selected, \<lparr>rng = pending_rng, workspace = w\<rparr>)))"

definition forward ::
    "('r, 't, 'w) sampler_ops \<Rightarrow> 't \<Rightarrow> sampling_params list \<Rightarrow> token list list \<Rightarrow> ('r, 'w) sampler \<Rightarrow>
      (string, 't) outcome \<times> ('r, 'w) sampler" where
  "forward ops logits pss histories s =
     (if tensor_rank ops logits \<noteq> 2 then (Error ''logits must be rank-2'', s)
      else case tensor_dim ops logits 0 of
        Inl e \<Rightarrow> (Inl e, s)
      | Inr batch \<Rightarrow>
          (case tensor_dim ops logits 1 of
             Inl e \<Rightarrow> (Inl e, s)
           | Inr vocab \<Rightarrow>
               if batch = 0 \<or> vocab = 0 then (Error ''batch and vocabulary must be nonempty'', s)
               else if length pss \<noteq> batch then (Error ''params'', s)
               else if length histories \<noteq> batch then (Error ''token_history'', s)
               else if tensor_is_cuda ops logits then forward_cuda ops logits pss histories batch s
               else forward_host ops logits pss histories batch vocab s))"

end
