(* ===== verification/Sampler_Safety.thy ===== *)
theory Sampler_Safety
  imports Sampler
begin

text \<open>
  Correctness of the sampler: what the masks keep, what a draw can return, that penalties apply once per
  distinct token, that greedy rows are deterministic, and that the device path consumes its seeds
  transactionally.
\<close>

section \<open>The descending order\<close>

definition desc :: "f32 list \<Rightarrow> nat list \<Rightarrow> bool" where
  "desc buf js \<longleftrightarrow> sorted_wrt (\<lambda>i j. \<not> f32_less (buf ! i) (buf ! j)) js"

definition no_nan :: "f32 list \<Rightarrow> bool" where
  "no_nan buf \<longleftrightarrow> list_all (\<lambda>v. \<not> f32_is_nan v) buf"

lemma no_nan_nth: "no_nan buf \<Longrightarrow> i < length buf \<Longrightarrow> \<not> f32_is_nan (buf ! i)"
  by (simp add: no_nan_def list_all_length)

lemma f32_less_irrefl [simp]: "\<not> f32_less a a"
  by (cases a) simp_all

lemma f32_less_asym: "f32_less a b \<Longrightarrow> \<not> f32_less b a"
  by (cases a; cases b) simp_all

lemma insert_desc_set [simp]: "set (insert_desc buf i js) = insert i (set js)"
  by (induction js) auto

lemma insert_desc_mset: "mset (insert_desc buf i js) = add_mset i (mset js)"
  by (induction js) auto

lemma insert_desc_sorted:
  assumes "no_nan buf" "set js \<subseteq> {..<length buf}" "desc buf js"
  shows "desc buf (insert_desc buf i js)"
  using assms(2,3)
proof (induction js)
  case Nil
  then show ?case by (simp add: desc_def)
next
  case (Cons j js)
  have "\<not> f32_less (buf ! i) (buf ! x)" if "\<not> f32_less (buf ! i) (buf ! j)" "x \<in> set js" for x
  proof
    assume "f32_less (buf ! i) (buf ! x)"
    then have "f32_less (buf ! j) (buf ! x)"
      using f32_not_less_trans [OF no_nan_nth [OF assms(1)] that(1)] Cons.prems(1) by simp
    then show False using Cons.prems(2) that(2) by (simp add: desc_def)
  qed
  note far = this
  show ?case
  proof (cases "f32_less (buf ! i) (buf ! j)")
    case True
    then have "\<not> f32_less (buf ! j) (buf ! i)" by (rule f32_less_asym)
    then show ?thesis using True Cons by (simp add: desc_def)
  next
    case False
    then show ?thesis using far Cons.prems(2) by (simp add: desc_def)
  qed
qed

lemma order_desc_props:
  assumes "no_nan buf"
  shows "mset (order_desc buf) = mset [0..<length buf] \<and> desc buf (order_desc buf)"
proof -
  have "mset (foldr (insert_desc buf) is []) = mset is \<and> desc buf (foldr (insert_desc buf) is [])"
    if "set is \<subseteq> {..<length buf}" for "is"
    using that
  proof (induction "is")
    case Nil
    then show ?case by (simp add: desc_def)
  next
    case (Cons i "is")
    then have "set (foldr (insert_desc buf) is []) = set is" using mset_eq_setD by auto
    then show ?case using Cons insert_desc_sorted [OF assms] by (simp add: insert_desc_mset)
  qed
  note all = this
  have "set [0..<length buf] \<subseteq> {..<length buf}" by auto
  from all [OF this] show ?thesis unfolding order_desc_def .
qed

lemma order_desc_perm:
  assumes "no_nan buf"
  shows "length (order_desc buf) = length buf" "set (order_desc buf) = {..<length buf}" "distinct (order_desc buf)"
  using order_desc_props [OF assms] mset_eq_length mset_eq_setD mset_eq_imp_distinct_iff
  by (fastforce, fastforce, metis distinct_upt)

lemma order_desc_nth:
  assumes "no_nan buf" "a \<le> b" "b < length buf"
  shows "\<not> f32_less (buf ! (order_desc buf ! a)) (buf ! (order_desc buf ! b))"
proof (cases "a = b")
  case False
  then show ?thesis using order_desc_props [OF assms(1)] order_desc_perm(1) [OF assms(1)] assms(2,3)
    by (simp add: desc_def sorted_wrt_iff_nth_less)
qed simp

section \<open>What the masks keep\<close>

text \<open>The tokens with a greater value.\<close>

definition tokens_above :: "f32 list \<Rightarrow> nat \<Rightarrow> nat set" where
  "tokens_above buf i = {j. j < length buf \<and> f32_less (buf ! i) (buf ! j)}"

lemma mask_top_k_keeps:
  assumes "no_nan buf" "1 \<le> k" "k \<le> length buf"
  obtains buf' where "mask_top_k buf k = Ok buf'" "length buf' = length buf"
    "\<And>i. i < length buf \<Longrightarrow> buf' ! i = F32_NegInf \<or> buf' ! i = buf ! i \<and> card (tokens_above buf i) < k"
    "\<And>i. i < k \<Longrightarrow> buf' ! (order_desc buf ! i) = buf ! (order_desc buf ! i)"
proof -
  let ?ord = "order_desc buf"
  let ?thr = "buf ! (?ord ! (k - 1))"
  note perm = order_desc_perm [OF assms(1)]
  have k: "k - 1 < length buf" using assms by linarith
  then have thr: "?ord ! (k - 1) < length buf" using perm(1,2) nth_mem by fastforce
  let ?buf' = "map (\<lambda>v. if f32_less v ?thr then F32_NegInf else v) buf"
  have few: "card (tokens_above buf i) < k" if i: "i < length buf" "\<not> f32_less (buf ! i) ?thr" for i
  proof -
    have "tokens_above buf i \<subseteq> set (take (k - 1) ?ord)"
    proof
      fix j assume "j \<in> tokens_above buf i"
      then have j: "j < length buf" "f32_less (buf ! i) (buf ! j)" by (simp_all add: tokens_above_def)
      have less: "f32_less ?thr (buf ! j)" by (rule f32_not_less_trans [OF no_nan_nth [OF assms(1) thr] i(2) j(2)])
      have "j \<in> set ?ord" using j(1) perm(2) by simp
      then obtain r where r: "r < length buf" "?ord ! r = j" using perm(1) by (auto simp: in_set_conv_nth)
      have "r < k - 1"
      proof (rule ccontr)
        assume "\<not> r < k - 1"
        then have "\<not> f32_less ?thr (buf ! (?ord ! r))" by (intro order_desc_nth [OF assms(1) _ r(1)]) simp
        then show False using less r(2) by simp
      qed
      then show "j \<in> set (take (k - 1) ?ord)" using r perm(1) by (auto simp: in_set_conv_nth)
    qed
    then have "card (tokens_above buf i) \<le> card (set (take (k - 1) ?ord))" by (intro card_mono) simp_all
    also have "\<dots> \<le> k - 1" using card_length [of "take (k - 1) ?ord"] by simp
    finally show ?thesis using assms(2) by linarith
  qed
  have top: "?buf' ! (?ord ! i) = buf ! (?ord ! i)" if "i < k" for i
  proof -
    have "?ord ! i < length buf" using that assms(3) perm(1,2) nth_mem by fastforce
    moreover have "\<not> f32_less (buf ! (?ord ! i)) ?thr" using order_desc_nth [OF assms(1) _ k, of i] that by simp
    ultimately show ?thesis by simp
  qed
  show thesis
  proof (rule that [of ?buf'])
    show "mask_top_k buf k = Ok ?buf'" using k perm(1) by (simp add: mask_top_k_def)
  qed (use few top in auto)
qed

text \<open>The nucleus: the shortest prefix of the descending order whose probability reaches \<open>p\<close>.\<close>

definition cumulative :: "(f64 \<Rightarrow> f64) \<Rightarrow> f32 list \<Rightarrow> f32 \<Rightarrow> f64 \<Rightarrow> nat list \<Rightarrow> f64 \<Rightarrow> f64" where
  "cumulative ex buf mx esum toks start =
     foldl (\<lambda>s tok. fl_add round64 s (fl_div round64 (ex (fl_sub round32 (buf ! tok) mx)) esum)) start toks"

lemma nucleus_cutoff_spec:
  "nucleus_cutoff ex buf mx esum p toks rank start = c \<Longrightarrow>
     (\<exists>n. 0 < n \<and> n \<le> length toks \<and> c = rank + n \<and> f32_le p (cumulative ex buf mx esum (take n toks) start)
        \<and> (\<forall>m. 0 < m \<longrightarrow> m < n \<longrightarrow> \<not> f32_le p (cumulative ex buf mx esum (take m toks) start)))
     \<or> c = length buf \<and> (\<forall>m. 0 < m \<longrightarrow> m \<le> length toks \<longrightarrow> \<not> f32_le p (cumulative ex buf mx esum (take m toks) start))"
proof (induction toks arbitrary: rank start)
  case Nil
  then show ?case by simp
next
  case (Cons tok toks)
  let ?s = "fl_add round64 start (fl_div round64 (ex (fl_sub round32 (buf ! tok) mx)) esum)"
  have step: "cumulative ex buf mx esum (take (Suc m) (tok # toks)) start = cumulative ex buf mx esum (take m toks) ?s" for m
    by (simp add: cumulative_def)
  show ?case
  proof (cases "f32_le p ?s")
    case True
    then have "c = rank + 1" using Cons.prems by (simp add: Let_def)
    then show ?thesis using True by (intro disjI1 exI [of _ 1]) (auto simp: cumulative_def)
  next
    case False
    have "nucleus_cutoff ex buf mx esum p toks (rank + 1) ?s = c" using Cons.prems False by (simp add: Let_def)
    from Cons.IH [OF this] show ?thesis
    proof (elim disjE exE conjE)
      fix n assume n: "0 < n" "n \<le> length toks" "c = rank + 1 + n" "f32_le p (cumulative ex buf mx esum (take n toks) ?s)"
        "\<forall>m. 0 < m \<longrightarrow> m < n \<longrightarrow> \<not> f32_le p (cumulative ex buf mx esum (take m toks) ?s)"
      have "\<not> f32_le p (cumulative ex buf mx esum (take m (tok # toks)) start)" if "0 < m" "m < Suc n" for m
        using that n(5) False step [of "m - 1"] by (cases "m = 1") (auto simp: cumulative_def)
      then show ?thesis using n step [of n] by (intro disjI1 exI [of _ "Suc n"]) simp
    next
      assume c: "c = length buf" "\<forall>m. 0 < m \<longrightarrow> m \<le> length toks \<longrightarrow> \<not> f32_le p (cumulative ex buf mx esum (take m toks) ?s)"
      have "\<not> f32_le p (cumulative ex buf mx esum (take m (tok # toks)) start)" if "0 < m" "m \<le> Suc (length toks)" for m
        using that c(2) False step [of "m - 1"] by (cases "m = 1") (auto simp: cumulative_def)
      then show ?thesis using c(1) by simp
    qed
  qed
qed

lemma nucleus_cutoff_pos: "buf \<noteq> [] \<Longrightarrow> 0 < nucleus_cutoff ex buf mx esum p toks rank start"
  by (induction toks arbitrary: rank start) (simp_all add: Let_def)

definition nucleus_size :: "(f64 \<Rightarrow> f64) \<Rightarrow> f32 list \<Rightarrow> f32 \<Rightarrow> nat" where
  "nucleus_size ex buf p =
     (let mx = buf ! (order_desc buf ! 0) in nucleus_cutoff ex buf mx (exp_total ex buf mx) p (order_desc buf) 0 (F32_Finite 0))"

lemma mask_top_p_keeps:
  assumes "no_nan buf" "buf \<noteq> []"
  obtains buf' where "mask_top_p ex buf p = Ok buf'" "length buf' = length buf" "0 < nucleus_size ex buf p"
    "\<And>r. r < length buf \<Longrightarrow> buf' ! (order_desc buf ! r) = (if r < nucleus_size ex buf p then buf ! (order_desc buf ! r) else F32_NegInf)"
proof -
  let ?ord = "order_desc buf" and ?c = "nucleus_size ex buf p"
  note perm = order_desc_perm [OF assms(1)]
  let ?buf' = "map (\<lambda>tok. if tok \<in> set (drop ?c ?ord) then F32_NegInf else buf ! tok) [0..<length buf]"
  have run: "mask_top_p ex buf p = Ok ?buf'"
    using assms(2) perm(1) by (simp add: mask_top_p_def nucleus_size_def Let_def)
  have "?buf' ! (?ord ! r) = (if r < ?c then buf ! (?ord ! r) else F32_NegInf)" if r: "r < length buf" for r
  proof -
    have "?ord ! r \<in> set (drop ?c ?ord) \<longleftrightarrow> \<not> r < ?c"
    proof
      assume "?ord ! r \<in> set (drop ?c ?ord)"
      then obtain q where "q < length ?ord - ?c" "?ord ! (?c + q) = ?ord ! r" by (auto simp: in_set_conv_nth)
      then show "\<not> r < ?c" using nth_eq_iff_index_eq [OF perm(3), of "?c + q" r] r perm(1) by simp
    next
      assume "\<not> r < ?c"
      then show "?ord ! r \<in> set (drop ?c ?ord)" using r perm(1) by (auto simp: in_set_conv_nth intro!: exI [of _ "r - ?c"])
    qed
    moreover have "?ord ! r < length buf" using r perm(1,2) nth_mem by fastforce
    ultimately show ?thesis by simp
  qed
  moreover have "0 < ?c" using nucleus_cutoff_pos [OF assms(2)] by (simp add: nucleus_size_def Let_def)
  ultimately show thesis using that [of ?buf'] run by simp
qed

section \<open>What a draw returns\<close>

text \<open>A value a masked row may have: masked, or finite and moderate.\<close>

definition moderate :: "f32 \<Rightarrow> bool" where
  "moderate v \<longleftrightarrow> (\<exists>x. v = F32_Finite x \<and> \<bar>x\<bar> \<le> 2 ^ 64)"

definition masked_row :: "f32 list \<Rightarrow> bool" where
  "masked_row buf \<longleftrightarrow> (\<forall>v \<in> set buf. v = F32_NegInf \<or> moderate v)"

text \<open>A Gumbel variate is \<open>- ln (- ln u)\<close> for a 53-bit \<open>u\<close> in \<open>(0, 1]\<close>: finite and below \<open>2 ^ 10\<close> in absolute
  value.\<close>

definition noise_bounded :: "('r, 't, 'w) sampler_ops \<Rightarrow> bool" where
  "noise_bounded ops \<longleftrightarrow> (\<forall>g. \<exists>x. fst (gumbel_sample ops g) = F32_Finite x \<and> \<bar>x\<bar> \<le> 2 ^ 10)"

lemma moderate_score:
  assumes "moderate v" "noise = F32_Finite x" "\<bar>x\<bar> \<le> 2 ^ 10"
  shows "\<exists>y. fl_add round32 v (f64_as_f32 noise) = F32_Finite y"
proof -
  obtain a where a: "v = F32_Finite a" "\<bar>a\<bar> \<le> 2 ^ 64" using assms(1) by (auto simp: moderate_def)
  obtain b where b: "round32 x = F32_Finite b" "\<bar>b\<bar> \<le> 2 ^ 10" by (rule ieee_round_le [OF assms(3), of 127 24]) simp_all
  have "\<bar>a + b\<bar> \<le> 2 ^ 64 + 2 ^ 10" using abs_triangle_ineq [of a b] a(2) b(2) by linarith
  then have "\<bar>a + b\<bar> \<le> 2 ^ 65" by simp
  then obtain c where "round32 (a + b) = F32_Finite c" by (rule ieee_round_le [of _ 65 127 24]) simp_all
  then show ?thesis by (simp add: a(1) assms(2) b(1))
qed

lemma gumbel_scan_pick:
  assumes "noise_bounded ops" "masked_row vs" "gumbel_scan (gumbel_sample ops) i bv bi vs g = (r, g')"
  shows "r = bi \<and> (bv \<noteq> F32_NegInf \<or> (\<forall>v \<in> set vs. v = F32_NegInf))
    \<or> (\<exists>j < length vs. r = i + j \<and> moderate (vs ! j))"
  using assms(2,3)
proof (induction vs arbitrary: i bv bi g)
  case Nil
  then show ?case by simp
next
  case (Cons v vs)
  obtain noise g1 where n: "gumbel_sample ops g = (noise, g1)" by force
  obtain x where x: "noise = F32_Finite x" "\<bar>x\<bar> \<le> 2 ^ 10" using assms(1) n by (metis fst_conv noise_bounded_def)
  have row: "masked_row vs" using Cons.prems(1) by (simp add: masked_row_def)
  let ?score = "fl_add round32 v (f64_as_f32 noise)"
  obtain b where b: "round32 x = F32_Finite b" by (rule ieee_round_le [OF x(2), of 127 24]) simp_all
  show ?case
  proof (cases "f32_less bv ?score")
    case True
    then have mod: "moderate v" using Cons.prems(1) x(1) b by (cases bv) (auto simp: masked_row_def)
    then obtain y where y: "?score = F32_Finite y" using moderate_score x by blast
    have "gumbel_scan (gumbel_sample ops) (Suc i) ?score i vs g1 = (r, g')" using Cons.prems(2) n True by (simp add: Let_def)
    from Cons.IH [OF row this] show ?thesis
    proof (elim disjE exE conjE)
      fix j assume "j < length vs" "r = Suc i + j" "moderate (vs ! j)"
      then show ?thesis by (intro disjI2 exI [of _ "Suc j"]) simp
    next
      assume "r = i"
      then show ?thesis using mod by (intro disjI2 exI [of _ 0]) simp
    next
      assume "r = i"
      then show ?thesis using mod by (intro disjI2 exI [of _ 0]) simp
    qed
  next
    case False
    have "gumbel_scan (gumbel_sample ops) (Suc i) bv bi vs g1 = (r, g')" using Cons.prems(2) n False by (simp add: Let_def)
    from Cons.IH [OF row this] show ?thesis
    proof (elim disjE exE conjE)
      fix j assume "j < length vs" "r = Suc i + j" "moderate (vs ! j)"
      then show ?thesis by (intro disjI2 exI [of _ "Suc j"]) simp
    next
      assume "r = bi" "bv \<noteq> F32_NegInf"
      then show ?thesis by simp
    next
      assume all: "r = bi" "\<forall>w \<in> set vs. w = F32_NegInf"
      have "v = F32_NegInf" if "bv = F32_NegInf"
      proof (rule ccontr)
        assume "v \<noteq> F32_NegInf"
        then have "moderate v" using Cons.prems(1) by (simp add: masked_row_def)
        then obtain y where "?score = F32_Finite y" using moderate_score x by blast
        then show False using False that by simp
      qed
      then show ?thesis using all by auto
    qed
  qed
qed

lemma gumbel_pick:
  assumes "noise_bounded ops" "masked_row buf" "i0 < length buf" "moderate (buf ! i0)"
    and "gumbel_argmax_buf ops buf g = (r, g')"
  shows "r < length buf \<and> moderate (buf ! r)"
proof (cases "gumbel_new ops")
  case True
  have "\<not> (\<forall>v \<in> set buf. v = F32_NegInf)" using assms(3,4) nth_mem by (fastforce simp: moderate_def)
  then show ?thesis using gumbel_scan_pick [OF assms(1,2), of 0 F32_NegInf 0 g r g'] assms(5) True
    by (auto simp: gumbel_argmax_buf_def)
next
  case False
  have "f32_less F32_NegInf (buf ! i0)" using assms(4) by (auto simp: moderate_def)
  then have "\<not> (\<forall>v \<in> set buf. \<not> f32_less F32_NegInf v)" using assms(3) nth_mem by blast
  then obtain j where j: "j < length buf" "argmax_buf buf = j" "f32_less F32_NegInf (buf ! j)"
    using argmax_scan_max [where bv = F32_NegInf and i = 0 and bi = 0 and vs = buf] by (auto simp: argmax_buf_def)
  have "buf ! j = F32_NegInf \<or> moderate (buf ! j)" using assms(2) j(1) by (simp add: masked_row_def)
  then have "moderate (buf ! j)" using j(3) by auto
  then show ?thesis using assms(5) False j by (simp add: gumbel_argmax_buf_def)
qed

text \<open>The two masks of \<open>sample_masked\<close> and the draw behind them.\<close>

definition top_k_row :: "sampling_params \<Rightarrow> f32 list \<Rightarrow> (string, f32 list) outcome" where
  "top_k_row ps buf = (case top_k ps of Some k \<Rightarrow> if 1 \<le> k \<and> k < length buf then mask_top_k buf k else Ok buf | None \<Rightarrow> Ok buf)"

lemma moderate_no_nan: "masked_row buf \<Longrightarrow> no_nan buf"
  by (auto simp: masked_row_def no_nan_def moderate_def list_all_iff)

lemma top_k_row_Ok:
  assumes "\<forall>v \<in> set buf. moderate v" "buf \<noteq> []"
  obtains buf1 where "top_k_row ps buf = Ok buf1" "length buf1 = length buf" "masked_row buf1"
    "\<And>i. i < length buf \<Longrightarrow> moderate (buf1 ! i) \<Longrightarrow> buf1 ! i = buf ! i \<and> (\<forall>k. top_k ps = Some k \<longrightarrow> 1 \<le> k \<longrightarrow> card (tokens_above buf i) < k)"
    "\<exists>i < length buf. moderate (buf1 ! i)"
proof -
  have row: "masked_row buf" using assms(1) by (simp add: masked_row_def)
  note nn = moderate_no_nan [OF row]
  have all: "moderate (buf ! i)" if "i < length buf" for i using assms(1) that by simp
  show thesis
  proof (cases "\<exists>k. top_k ps = Some k \<and> 1 \<le> k \<and> k < length buf")
    case True
    then obtain k where k: "top_k ps = Some k" "1 \<le> k" "k < length buf" by blast
    obtain buf1 where b: "mask_top_k buf k = (Ok buf1 :: (string, f32 list) outcome)" "length buf1 = length buf"
      "\<And>i. i < length buf \<Longrightarrow> buf1 ! i = F32_NegInf \<or> buf1 ! i = buf ! i \<and> card (tokens_above buf i) < k"
      "\<And>i. i < k \<Longrightarrow> buf1 ! (order_desc buf ! i) = buf ! (order_desc buf ! i)"
      by (rule mask_top_k_keeps [OF nn k(2), where 'a = string]) (use k in auto)
    have first: "order_desc buf ! 0 < length buf"
      using order_desc_perm(1,2) [OF nn] assms(2) nth_mem [of 0 "order_desc buf"] by auto
    show thesis
    proof (rule that [of buf1])
      show "top_k_row ps buf = Ok buf1" using k b(1) by (simp add: top_k_row_def)
      show "masked_row buf1" unfolding masked_row_def
      proof
        fix v assume "v \<in> set buf1"
        then obtain i where i: "i < length buf" "v = buf1 ! i" using b(2) by (auto simp: in_set_conv_nth)
        then show "v = F32_NegInf \<or> moderate v" using b(3) [OF i(1)] all [OF i(1)] by auto
      qed
      show "buf1 ! i = buf ! i \<and> (\<forall>k. top_k ps = Some k \<longrightarrow> 1 \<le> k \<longrightarrow> card (tokens_above buf i) < k)"
        if "i < length buf" "moderate (buf1 ! i)" for i
        using b(3) [OF that(1)] that(2) k(1) by (auto simp: moderate_def)
      show "\<exists>i < length buf. moderate (buf1 ! i)" using b(4) [of 0] k(2) first all by fastforce
    qed (rule b(2))
  next
    case False
    then have run: "top_k_row ps buf = Ok buf" by (auto simp: top_k_row_def split: option.split)
    have "card (tokens_above buf i) < k" if "i < length buf" "top_k ps = Some k" "1 \<le> k" for i k
    proof -
      have "length buf \<le> k" using False that(2,3) not_le by blast
      moreover have "tokens_above buf i \<subseteq> {..<length buf} - {i}" by (auto simp: tokens_above_def)
      then have "card (tokens_above buf i) \<le> card ({..<length buf} - {i})" by (intro card_mono) simp_all
      ultimately show ?thesis using that(1) by simp
    qed
    then have keep: "\<forall>k. top_k ps = Some k \<longrightarrow> 1 \<le> k \<longrightarrow> card (tokens_above buf i) < k" if "i < length buf" for i using that by blast
    have some: "\<exists>i < length buf. moderate (buf ! i)" using all assms(2) by blast
    show thesis by (rule that [OF run refl row _ some]) (use keep in blast)
  qed
qed

section \<open>An ordinary row stays in range\<close>

text \<open>A row of finite logits.\<close>

definition finite_row :: "f32 list \<Rightarrow> bool" where
  "finite_row buf \<longleftrightarrow> list_all f32_is_finite buf"

definition row_bound :: "f32 list \<Rightarrow> f64" where
  "row_bound buf = foldl (\<lambda>b v. fl_max b (fl_abs v)) (F32_Finite 0) buf"

lemma row_bound_spec:
  assumes "finite_row buf"
  obtains B where "row_bound buf = F32_Finite B" "0 \<le> B" "\<And>a. F32_Finite a \<in> set buf \<Longrightarrow> \<bar>a\<bar> \<le> B"
proof -
  have "\<exists>B. foldl (\<lambda>b v. fl_max b (fl_abs v)) (F32_Finite c) buf = F32_Finite B \<and> c \<le> B
      \<and> (\<forall>a. F32_Finite a \<in> set buf \<longrightarrow> \<bar>a\<bar> \<le> B)" for c
    using assms
  proof (induction buf arbitrary: c)
    case Nil
    then show ?case by simp
  next
    case (Cons v vs)
    then obtain x where v: "v = F32_Finite x" by (cases v) (auto simp: finite_row_def)
    have mx: "fl_max (F32_Finite c) (fl_abs v) = F32_Finite (max c \<bar>x\<bar>)"
      by (auto simp: v fl_max_def fl_abs_def max_def)
    have fin: "finite_row vs" using Cons.prems by (simp add: finite_row_def)
    obtain B where B: "foldl (\<lambda>b v. fl_max b (fl_abs v)) (F32_Finite (max c \<bar>x\<bar>)) vs = F32_Finite B"
      "max c \<bar>x\<bar> \<le> B" "\<And>a. F32_Finite a \<in> set vs \<Longrightarrow> \<bar>a\<bar> \<le> B"
      using Cons.IH [OF fin, of "max c \<bar>x\<bar>"] by blast
    then show ?case using mx by (auto simp: v)
  qed
  from this [of 0] that show thesis by (auto simp: row_bound_def)
qed

text \<open>The temperature step of an ordinary row without penalties.\<close>

definition scaled_row :: "sampling_params \<Rightarrow> f32 list \<Rightarrow> f32 list" where
  "scaled_row ps buf = map (\<lambda>v. fl_mul round32 v (fl_div round32 (F32_Finite 1) (temperature ps))) buf"

lemma scaled_row_moderate:
  assumes dom: "documented_domain ps" and ng: "\<not> is_greedy ps" and np: "\<not> (has_penalties ps \<and> history \<noteq> [])"
    and fin: "finite_row buf" and ord: "\<not> requires_wide_sampling buf ps history"
  shows "\<forall>v \<in> set (scaled_row ps buf). moderate v"
proof -
  obtain B where B: "row_bound buf = F32_Finite B" "0 \<le> B" "\<And>a. F32_Finite a \<in> set buf \<Longrightarrow> \<bar>a\<bar> \<le> B"
    using row_bound_spec [OF fin] by blast
  have "\<exists>q. fl_div round32 (F32_Finite 1) (temperature ps) = F32_Finite q \<and> 0 \<le> q \<and> B * q \<le> 2 ^ 24"
  proof (cases "temperature ps")
    case (F32_Finite t)
    then have t: "0 < t" using dom ng by (auto simp: documented_domain_def is_greedy_def f32_eq_def less_le)
    have ni: "temperature ps \<notin> {F32_PosInf, F32_NegInf}" using F32_Finite by simp
    let ?inv = "fl_div round32 (F32_Finite 1) (temperature ps)"
    have "list_all f32_is_finite buf" using fin by (simp add: finite_row_def)
    then have o: "f32_is_finite ?inv" "\<not> f32_le (F32_Finite 16777216) (fl_mul round64 (row_bound buf) ?inv)"
      using ord ng np ni unfolding requires_wide_sampling_def row_bound_def Let_def
      by (simp_all only: if_False if_True simp_thms de_Morgan_disj not_not split: if_splits)
    then obtain q where q: "?inv = F32_Finite q" by (cases ?inv) auto
    have "0 \<le> q" using q t ieee_round_nonneg [of "1 / t" 24 127 q] F32_Finite by (simp add: fl_div_def)
    moreover have "B * q \<le> 2 ^ 24"
    proof (rule ccontr)
      assume "\<not> B * q \<le> 2 ^ 24"
      then have "2 ^ 24 \<le> B * q" by simp
      from ieee_round_ge [OF this, of 53 1023] show False using o(2) q B(1)
        by (auto simp: fl_mul_def f32_le_def f32_eq_def)
    qed
    ultimately show ?thesis using q by blast
  next
    case F32_PosInf
    then show ?thesis by (intro exI [of _ 0]) (simp add: fl_div_def)
  qed (use dom in \<open>simp_all add: documented_domain_def\<close>)
  then obtain q where q: "fl_div round32 (F32_Finite 1) (temperature ps) = F32_Finite q" "0 \<le> q" "B * q \<le> 2 ^ 24" by blast
  have "moderate (fl_mul round32 v (F32_Finite q))" if v: "v \<in> set buf" for v
  proof -
    obtain a where a: "v = F32_Finite a" using fin v by (cases v) (auto simp: finite_row_def list_all_iff)
    have "\<bar>a * q\<bar> \<le> B * q" using B(3) v a q(2) by (simp add: abs_mult mult_right_mono)
    then have "\<bar>a * q\<bar> \<le> 2 ^ 24" using q(3) by linarith
    then obtain r where "round32 (a * q) = F32_Finite r" "\<bar>r\<bar> \<le> 2 ^ 24" by (rule ieee_round_le [of _ 24 127 24]) simp_all
    then show ?thesis by (auto simp: a fl_mul_def moderate_def intro: order_trans)
  qed
  then show ?thesis by (auto simp: scaled_row_def q(1))
qed

lemma sample_masked_spec:
  assumes noise: "noise_bounded ops" and row: "\<forall>v \<in> set buf. moderate v" "buf \<noteq> []" "length buf = vocab"
    and dom: "documented_domain ps" and run: "sample_masked ops ps buf vocab g = (r, g')"
  shows "\<exists>i buf1. r = Ok i \<and> i < vocab \<and> top_k_row ps buf = Ok buf1
    \<and> (\<forall>k. top_k ps = Some k \<longrightarrow> card (tokens_above buf i) < k)
    \<and> (\<forall>p. top_p ps = Some p \<longrightarrow> f32_less p (F32_Finite 1) \<longrightarrow>
         (\<exists>rank < nucleus_size (f64_exp ops) buf1 p. order_desc buf1 ! rank = i))"
proof -
  obtain buf1 where b1: "top_k_row ps buf = Ok buf1" "length buf1 = length buf" "masked_row buf1"
    "\<And>i. i < length buf \<Longrightarrow> moderate (buf1 ! i) \<Longrightarrow> buf1 ! i = buf ! i \<and> (\<forall>k. top_k ps = Some k \<longrightarrow> 1 \<le> k \<longrightarrow> card (tokens_above buf i) < k)"
    "\<exists>i < length buf. moderate (buf1 ! i)"
    using top_k_row_Ok [OF row(1,2), of ps] by blast
  note nn = moderate_no_nan [OF b1(3)]
  note perm = order_desc_perm [OF nn]
  have ne: "buf1 \<noteq> []" using b1(2) row(2) by auto
  have k1: "1 \<le> k" if "top_k ps = Some k" for k using dom that by (cases k) (auto simp: documented_domain_def)
  have p0: "f32_less (F32_Finite 0) p" if "top_p ps = Some p" for p
    using dom that by (cases p) (auto simp: documented_domain_def finite_between_def less_le)
  define kept where "kept = (case top_p ps of
      Some p \<Rightarrow> if f32_less (F32_Finite 0) p \<and> f32_less p (F32_Finite 1) then mask_top_p (f64_exp ops) buf1 p else Ok buf1
    | None \<Rightarrow> (Ok buf1 :: (string, f32 list) outcome))"
  have run2: "(case kept of Inl e \<Rightarrow> (Inl e, g) | Inr buf2 \<Rightarrow> (case gumbel_argmax_buf ops buf2 g of (i, g') \<Rightarrow> (Ok i, g'))) = (r, g')"
  proof -
    have "(case top_k ps of Some k \<Rightarrow> if 1 \<le> k \<and> k < vocab then mask_top_k buf k else Ok buf | None \<Rightarrow> Ok buf) = top_k_row ps buf"
      by (simp only: top_k_row_def row(3))
    then show ?thesis using run b1(1) by (simp only: sample_masked_def kept_def sum.case)
  qed
  have "\<exists>buf2. kept = Ok buf2 \<and> length buf2 = length buf1 \<and> masked_row buf2 \<and> (\<exists>i < length buf1. moderate (buf2 ! i))
    \<and> (\<forall>i < length buf1. moderate (buf2 ! i) \<longrightarrow> buf2 ! i = buf1 ! i
        \<and> (\<forall>p. top_p ps = Some p \<longrightarrow> f32_less p (F32_Finite 1) \<longrightarrow>
             (\<exists>rank < nucleus_size (f64_exp ops) buf1 p. order_desc buf1 ! rank = i)))"
  proof (cases "\<exists>p. top_p ps = Some p \<and> f32_less p (F32_Finite 1)")
    case False
    then have "kept = Ok buf1" by (auto simp: kept_def split: option.split)
    then show ?thesis using b1(2,3,5) False by auto
  next
    case True
    then obtain p where p: "top_p ps = Some p" "f32_less p (F32_Finite 1)" by blast
    obtain buf2 where b2: "mask_top_p (f64_exp ops) buf1 p = (Ok buf2 :: (string, f32 list) outcome)" "length buf2 = length buf1"
      "0 < nucleus_size (f64_exp ops) buf1 p"
      "\<And>q. q < length buf1 \<Longrightarrow> buf2 ! (order_desc buf1 ! q)
          = (if q < nucleus_size (f64_exp ops) buf1 p then buf1 ! (order_desc buf1 ! q) else F32_NegInf)"
      by (rule mask_top_p_keeps [OF nn ne, where 'a = string]) blast
    have rank: "\<exists>q < length buf1. order_desc buf1 ! q = i" if "i < length buf1" for i
    proof -
      have "i \<in> set (order_desc buf1)" using that perm(2) by simp
      then show ?thesis using perm(1) by (auto simp: in_set_conv_nth)
    qed
    have entry: "buf2 ! i = F32_NegInf \<or> buf2 ! i = buf1 ! i \<and> (\<exists>q < nucleus_size (f64_exp ops) buf1 p. order_desc buf1 ! q = i)"
      if i: "i < length buf1" for i
    proof -
      obtain q where q: "q < length buf1" "order_desc buf1 ! q = i" using rank [OF i] by blast
      show ?thesis using b2(4) [OF q(1)] q(2) by (cases "q < nucleus_size (f64_exp ops) buf1 p") auto
    qed
    have first: "moderate (buf1 ! (order_desc buf1 ! 0))"
    proof -
      obtain i where i: "i < length buf1" "moderate (buf1 ! i)" using b1(2,5) by auto
      obtain q where q: "q < length buf1" "order_desc buf1 ! q = i" using rank [OF i(1)] by blast
      have "\<not> f32_less (buf1 ! (order_desc buf1 ! 0)) (buf1 ! i)" using order_desc_nth [OF nn _ q(1), of 0] q(2) by simp
      then have "buf1 ! (order_desc buf1 ! 0) \<noteq> F32_NegInf" using i(2) by (auto simp: moderate_def)
      moreover have "order_desc buf1 ! 0 < length buf1" using perm(1,2) ne nth_mem [of 0 "order_desc buf1"] by auto
      ultimately show ?thesis using b1(3) nth_mem by (auto simp: masked_row_def)
    qed
    have zero: "order_desc buf1 ! 0 < length buf1" using perm(1,2) ne nth_mem [of 0 "order_desc buf1"] by auto
    have "masked_row buf2" unfolding masked_row_def
    proof
      fix v assume "v \<in> set buf2"
      then obtain i where i: "i < length buf1" "v = buf2 ! i" using b2(2) by (auto simp: in_set_conv_nth)
      then show "v = F32_NegInf \<or> moderate v" using entry [OF i(1)] b1(3) nth_mem [OF i(1)] by (auto simp: masked_row_def)
    qed
    moreover have "moderate (buf2 ! (order_desc buf1 ! 0))" using b2(3,4) first ne by simp
    moreover have "kept = Ok buf2" using p p0 b2(1) by (simp add: kept_def)
    moreover have "buf2 ! i = buf1 ! i \<and> (\<exists>q < nucleus_size (f64_exp ops) buf1 p. order_desc buf1 ! q = i)"
      if "i < length buf1" "moderate (buf2 ! i)" for i
      using entry [OF that(1)] that(2) by (auto simp: moderate_def)
    ultimately show ?thesis using b2(2) zero p by (intro exI [of _ buf2]) auto
  qed
  then obtain buf2 where b2: "kept = Ok buf2" "length buf2 = length buf1" "masked_row buf2" "\<exists>i < length buf1. moderate (buf2 ! i)"
    "\<And>i. i < length buf1 \<Longrightarrow> moderate (buf2 ! i) \<Longrightarrow> buf2 ! i = buf1 ! i
        \<and> (\<forall>p. top_p ps = Some p \<longrightarrow> f32_less p (F32_Finite 1) \<longrightarrow>
             (\<exists>rank < nucleus_size (f64_exp ops) buf1 p. order_desc buf1 ! rank = i))"
    by blast
  obtain i g2 where d: "gumbel_argmax_buf ops buf2 g = (i, g2)" by force
  have i: "i < length buf2 \<and> moderate (buf2 ! i)" using b2(2,4) gumbel_pick [OF noise b2(3) _ _ d] by auto
  then have "moderate (buf1 ! i)" using b2(2,5) by auto
  moreover have "r = Ok i" using run2 b2(1) d by simp
  ultimately show ?thesis using i b2(2,5) b1(1,2,4) row(3) k1 by (intro exI [of _ i] exI [of _ buf1]) auto
qed

lemma sample_row_ordinary:
  assumes "tensor_f32 ops row = Ok buf" "\<not> is_greedy ps" "\<not> (has_penalties ps \<and> history \<noteq> [])"
    and "\<not> requires_wide_sampling buf ps history"
  shows "sample_row_host ops row ps history vocab g = sample_masked ops ps (scaled_row ps buf) vocab g"
  using assms by (auto simp: sample_row_host_def scaled_row_def Let_def)

section \<open>Penalties\<close>

lemma count_token_keys: "fst ` set (count_token t counts) = insert t (fst ` set counts)"
  by (induction t counts rule: count_token.induct) auto

lemma count_token_distinct: "distinct (map fst counts) \<Longrightarrow> distinct (map fst (count_token t counts))"
proof (induction t counts rule: count_token.induct)
  case (2 t u c counts)
  then show ?case using count_token_keys [of t counts] by (auto simp: image_iff)
qed simp

lemma count_token_map_of:
  "map_of (count_token t counts) u = (if u = t then Some (case map_of counts t of None \<Rightarrow> 1 | Some c \<Rightarrow> c + 1) else map_of counts u)"
  by (induction t counts rule: count_token.induct) auto

lemma history_counts_spec:
  "distinct (map fst counts) \<Longrightarrow> distinct (map fst (history_counts vocab history counts))
    \<and> (\<forall>t. map_of (history_counts vocab history counts) t =
          (if t \<in> set history \<and> unat t < vocab
           then Some ((case map_of counts t of None \<Rightarrow> 0 | Some c \<Rightarrow> c) + count_list history t) else map_of counts t))"
proof (induction history arbitrary: counts)
  case Nil
  then show ?case by simp
next
  case (Cons h history)
  show ?case
  proof (cases "unat h < vocab")
    case True
    have "distinct (map fst (count_token h counts))" using Cons.prems by (rule count_token_distinct)
    from Cons.IH [OF this] show ?thesis using True
      by (auto simp: count_token_map_of split: option.split)
  next
    case False
    from Cons.IH [OF Cons.prems] show ?thesis using False by auto
  qed
qed

lemma penalize_counts_nth:
  assumes "distinct (map fst counts)" "\<forall>t \<in> fst ` set counts. unat t < length buf"
  shows "\<exists>buf'. penalize_counts ps counts buf = (Ok buf' :: ('e, f32 list) outcome) \<and> length buf' = length buf
    \<and> (\<forall>t. unat t < length buf \<longrightarrow>
         buf' ! unat t = (case map_of counts t of None \<Rightarrow> buf ! unat t | Some c \<Rightarrow> penalize ps c (buf ! unat t)))"
  using assms
proof (induction counts arbitrary: buf)
  case Nil
  then show ?case by simp
next
  case (Cons q counts)
  obtain t c where q: "q = (t, c)" by force
  let ?buf = "buf[unat t := penalize ps c (buf ! unat t)]"
  have t: "unat t < length buf" "map_of counts t = None" using Cons.prems by (auto simp: q map_of_eq_None_iff)
  have pre: "distinct (map fst counts)" "\<forall>t \<in> fst ` set counts. unat t < length ?buf" using Cons.prems by (auto simp: q)
  obtain buf' where b: "penalize_counts ps counts ?buf = (Ok buf' :: ('e, f32 list) outcome)" "length buf' = length ?buf"
    "\<forall>u. unat u < length ?buf \<longrightarrow>
         buf' ! unat u = (case map_of counts u of None \<Rightarrow> ?buf ! unat u | Some d \<Rightarrow> penalize ps d (?buf ! unat u))"
    using Cons.IH [OF pre] by blast
  have "buf' ! unat u = (case map_of (q # counts) u of None \<Rightarrow> buf ! unat u | Some d \<Rightarrow> penalize ps d (buf ! unat u))"
    if "unat u < length buf" for u
  proof (cases "u = t")
    case True
    then show ?thesis using b(3) t by (simp add: q)
  next
    case False
    then have "unat u \<noteq> unat t" using word_unat_eq_iff [of u t] by blast
    then have "?buf ! unat u = buf ! unat u" by (metis nth_list_update_neq)
    then show ?thesis using b(3) that False by (simp add: q split: option.split)
  qed
  then show ?case using b(1,2) t(1) by (auto simp: q)
qed

section \<open>Properties\<close>


definition demo_sampler_ops :: "(nat, f32 list list, unit) sampler_ops" where
  "demo_sampler_ops = \<lparr>next_u64 = (\<lambda>g. (word_of_nat g, g + 1)), gumbel_new = True,
     gumbel_sample = (\<lambda>g. (F32_Finite (of_nat (g mod 3)), g + 1)), f64_exp = (\<lambda>v. F32_Finite 1),
     tensor_rank = (\<lambda>_. 2), tensor_dim = (\<lambda>t d. Ok (if d = 0 then length t else length (hd t))), tensor_is_cuda = (\<lambda>_. False),
     tensor_get = (\<lambda>t i. Ok [t ! i]), tensor_f32 = (\<lambda>t. Ok (hd t)), tensor_from_ids = (\<lambda>ids t. Ok []),
     device_sample = (\<lambda>t pss hs seeds w. (Ok [], w))\<rparr>"

definition demo_sampling :: sampling_params where
  "demo_sampling = default_sampling_params\<lparr>temperature := F32_Finite 1, top_k := Some 2, top_p := Some (F32_Finite (1 / 2))\<rparr>"

lemma demo_noise: "noise_bounded demo_sampler_ops"
proof -
  have "(of_nat (g mod 3) :: rat) \<le> 1024" for g :: nat
  proof -
    have "g mod 3 \<le> 1024" using mod_less_divisor [of 3 g] by linarith
    then show ?thesis by (metis of_nat_le_iff of_nat_numeral)
  qed
  then show ?thesis by (simp add: noise_bounded_def demo_sampler_ops_def)
qed




text \<open>C40: penalties apply once per distinct token. \<^verbatim>\<open>apply_penalties\<close> changes exactly the logits of the
  in-vocabulary tokens of the history, each by one application of its penalties with the number of its
  occurrences, in whatever order the tokens occurred.\<close>

theorem penalties_apply_once:
  assumes "length buf = vocab"
  shows "\<exists>buf'. apply_penalties buf ps history vocab = (Ok buf' :: (string, f32 list) outcome) \<and> length buf' = vocab
    \<and> (\<forall>t. unat t < vocab \<longrightarrow>
         buf' ! unat t = (if t \<in> set history then penalize ps (count_list history t) (buf ! unat t) else buf ! unat t))"
proof -
  let ?counts = "history_counts vocab history []"
  have c: "distinct (map fst ?counts)" "\<And>t. map_of ?counts t = (if t \<in> set history \<and> unat t < vocab then Some (count_list history t) else None)"
    using history_counts_spec [of "[]" vocab history] by simp_all
  have "\<forall>t \<in> fst ` set ?counts. unat t < length buf"
  proof
    fix t assume "t \<in> fst ` set ?counts"
    then have "map_of ?counts t \<noteq> None" by (simp add: map_of_eq_None_iff)
    then show "unat t < length buf" using c(2) [of t] assms by (simp split: if_splits)
  qed
  from penalize_counts_nth [OF c(1) this, of ps] show ?thesis
    using c(2) assms by (force simp: apply_penalties_def)
qed

theorem penalties_apply_once_witness:
  "\<exists>buf'. apply_penalties (map F32_Finite [1, 3, 2]) demo_sampling [1, 1, 9] 3 = (Ok buf' :: (string, f32 list) outcome)
     \<and> buf' ! unat (1 :: token) = penalize demo_sampling 2 (F32_Finite 3)"
proof -
  have len: "length (map F32_Finite [1, 3, 2]) = 3" and cnt: "count_list [1, 1, 9] (1 :: token) = 2"
    and one: "unat (1 :: token) < 3" "map F32_Finite [1, 3, 2] ! unat (1 :: token) = F32_Finite 3" "(1 :: token) \<in> set [1, 1, 9]"
    by simp_all
  from penalties_apply_once [OF len, of demo_sampling "[1, 1, 9]"] one show ?thesis unfolding cnt [symmetric] by metis
qed

text \<open>C38: the device path draws its seeds transactionally. On a device tensor a call that fails leaves the
  generator where it was, so a retry uses the same seeds; a call that succeeds has drawn exactly one
  seed per row, whatever the parameters of the rows; and a call rejected by the checks changes
  nothing.\<close>

theorem device_seeds_transactional:
  assumes "tensor_is_cuda ops logits" "forward ops logits pss histories s = (r, s')"
  shows "(\<forall>e. r = Inl e \<longrightarrow> rng s' = rng s)
    \<and> (\<forall>ids. r = Ok ids \<longrightarrow> (\<exists>seeds. draw_seeds (next_u64 ops) (length pss) (rng s) = (seeds, rng s') \<and> length seeds = length pss
          \<and> fst (device_sample ops logits pss histories seeds (workspace s)) = Ok ids \<and> length histories = length pss))"
proof -
  have len: "length (fst (draw_seeds nxt n g)) = n" for nxt :: "'a \<Rightarrow> 64 word \<times> 'a" and n g
    by (induction n arbitrary: g) (simp_all add: case_prod_beta')
  show ?thesis using assms len [of "next_u64 ops" "length pss" "rng s"]
    by (auto simp: forward_def forward_cuda_def split: if_splits sum.splits prod.splits)
qed

theorem device_seeds_transactional_witness:
  "\<exists>ids s'. forward (demo_sampler_ops\<lparr>tensor_is_cuda := (\<lambda>_. True)\<rparr>) [map F32_Finite [1, 3]] [demo_sampling] [[]] \<lparr>rng = 5, workspace = ()\<rparr> = (Ok ids, s')
     \<and> rng s' = 6"
proof -
  let ?ops = "demo_sampler_ops\<lparr>tensor_is_cuda := (\<lambda>_. True)\<rparr>"
  have run: "forward ?ops [map F32_Finite [1, 3]] [demo_sampling] [[]] \<lparr>rng = 5, workspace = ()\<rparr> = (Ok [], \<lparr>rng = 6, workspace = ()\<rparr>)"
    by (simp add: forward_def forward_cuda_def demo_sampler_ops_def)
  have "tensor_is_cuda ?ops [map F32_Finite [1, 3]]" by simp
  from device_seeds_transactional [OF this run] run show ?thesis by auto
qed

section \<open>Greedy rows\<close>

lemma greedy_row:
  assumes "tensor_f32 ops row = Ok buf" "is_greedy ps" "\<not> (has_penalties ps \<and> history \<noteq> [])"
  shows "sample_row_host ops row ps history vocab g = (Ok (argmax_buf buf), g)"
  using assms by (auto simp: sample_row_host_def requires_wide_sampling_def Let_def)

lemma argmax_buf_spec:
  assumes "buf \<noteq> []" "no_nan buf"
  shows "argmax_buf buf < length buf \<and> tokens_above buf (argmax_buf buf) = {}
    \<and> (\<forall>j < argmax_buf buf. f32_less (buf ! j) (buf ! argmax_buf buf))"
proof -
  have "\<not> f32_is_nan F32_NegInf" by simp
  from argmax_scan_max [OF this, where i = 0 and bi = 0 and vs = buf]
  show ?thesis
  proof (elim disjE exE conjE)
    assume all: "\<forall>v \<in> set buf. \<not> f32_less F32_NegInf v" "argmax_scan 0 F32_NegInf 0 buf = 0"
    have "buf ! i = F32_NegInf" if "i < length buf" for i
      using all(1) no_nan_nth [OF assms(2) that] nth_mem [OF that] by (cases "buf ! i") force+
    then show ?thesis using all(2) assms(1) by (auto simp: argmax_buf_def tokens_above_def)
  next
    fix j assume j: "j < length buf" "argmax_scan 0 F32_NegInf 0 buf = 0 + j" "\<forall>v \<in> set buf. \<not> f32_less (buf ! j) v"
      "\<forall>k < j. f32_is_nan (buf ! k) \<or> f32_less (buf ! k) (buf ! j)"
    then show ?thesis using no_nan_nth [OF assms(2)] by (auto simp: argmax_buf_def tokens_above_def)
  qed
qed

lemma greedy_rows:
  assumes "\<forall>q \<in> set rows. \<exists>t. tensor_get ops logits (fst q) = Ok t \<and> tensor_f32 ops t = Ok (val (fst q))
      \<and> is_greedy (fst (snd q)) \<and> \<not> (has_penalties (fst (snd q)) \<and> snd (snd q) \<noteq> [])"
  shows "forward_rows ops logits rows vocab g = (Ok (map (\<lambda>q. word_of_nat (argmax_buf (val (fst q)))) rows), g)"
  using assms
proof (induction rows)
  case Nil
  then show ?case by simp
next
  case (Cons q rows)
  obtain row ps h where q: "q = (row, ps, h)" by (metis prod.exhaust)
  obtain t where "tensor_get ops logits row = Ok t" "tensor_f32 ops t = Ok (val row)" "is_greedy ps" "\<not> (has_penalties ps \<and> h \<noteq> [])"
    using Cons.prems by (auto simp: q)
  then show ?case using Cons greedy_row [of ops t "val row" ps h vocab g] by (simp add: q)
qed

text \<open>greedy sampling is deterministic and row by row. On a host tensor of shape \<open>[batch, vocab]\<close> whose
  rows are all greedy and carry no penalty, a call returns for every row the first token of greatest
  logit; the result depends on neither the generator nor the other rows, and the generator does not
  move.\<close>

theorem greedy_batch_deterministic:
  assumes "tensor_rank ops logits = 2" "tensor_dim ops logits 0 = Ok batch" "tensor_dim ops logits 1 = Ok vocab"
    and "0 < batch" "0 < vocab" "length pss = batch" "length histories = batch" "\<not> tensor_is_cuda ops logits"
    and "\<And>row. row < batch \<Longrightarrow> \<exists>t. tensor_get ops logits row = Ok t \<and> tensor_f32 ops t = Ok (val row)"
    and "\<And>row. row < batch \<Longrightarrow> length (val row) = vocab \<and> no_nan (val row)"
    and "\<And>row. row < batch \<Longrightarrow> is_greedy (pss ! row) \<and> \<not> (has_penalties (pss ! row) \<and> histories ! row \<noteq> [])"
  shows "\<exists>choice. forward ops logits pss histories s = (tensor_from_ids ops (map (\<lambda>row. word_of_nat (choice row)) [0..<batch]) logits, s)
    \<and> (\<forall>row < batch. choice row < vocab \<and> tokens_above (val row) (choice row) = {}
         \<and> (\<forall>j < choice row. f32_less (val row ! j) (val row ! choice row)))"
proof -
  have rows: "forward_rows ops logits (map (\<lambda>row. (row, pss ! row, histories ! row)) [0..<batch]) vocab (rng s)
      = (Ok (map (\<lambda>row. word_of_nat (argmax_buf (val row))) [0..<batch]), rng s)"
    by (subst greedy_rows [where val = val]) (use assms(9,11) in auto)
  have "argmax_buf (val row) < vocab \<and> tokens_above (val row) (argmax_buf (val row)) = {}
      \<and> (\<forall>j < argmax_buf (val row). f32_less (val row ! j) (val row ! argmax_buf (val row)))" if "row < batch" for row
    using argmax_buf_spec [of "val row"] assms(5,10) that by (metis length_greater_0_conv)
  moreover have "forward ops logits pss histories s = (tensor_from_ids ops (map (\<lambda>row. word_of_nat (argmax_buf (val row))) [0..<batch]) logits, s)"
    using assms(1-8) rows by (simp add: forward_def forward_host_def)
  ultimately show ?thesis by (intro exI [of _ "\<lambda>row. argmax_buf (val row)"]) simp
qed

theorem greedy_batch_deterministic_witness:
  "\<exists>choice. forward demo_sampler_ops [map F32_Finite [1, 3], map F32_Finite [4, 2]] [default_sampling_params, default_sampling_params] [[], []]
      \<lparr>rng = 5, workspace = ()\<rparr>
    = (tensor_from_ids demo_sampler_ops (map (\<lambda>row. word_of_nat (choice row)) [0..<2]) [map F32_Finite [1, 3], map F32_Finite [4, 2]], \<lparr>rng = 5, workspace = ()\<rparr>)
     \<and> tokens_above (map F32_Finite [1, 3]) (choice 0) = {}"
proof -
  let ?t = "[map F32_Finite [1, 3], map F32_Finite [4, 2]]"
  have dims: "tensor_rank demo_sampler_ops ?t = 2" "tensor_dim demo_sampler_ops ?t 0 = Ok 2" "tensor_dim demo_sampler_ops ?t 1 = Ok 2"
    "\<not> tensor_is_cuda demo_sampler_ops ?t"
    by (simp_all add: demo_sampler_ops_def)
  have vals: "\<exists>t. tensor_get demo_sampler_ops ?t row = Ok t \<and> tensor_f32 demo_sampler_ops t = Ok (?t ! row)"
    "length (?t ! row) = 2 \<and> no_nan (?t ! row)"
    "is_greedy ([default_sampling_params, default_sampling_params] ! row)
     \<and> \<not> (has_penalties ([default_sampling_params, default_sampling_params] ! row) \<and> [[], []] ! row \<noteq> ([] :: token list))"
    if "row < 2" for row
    using that by (auto simp: less_2_cases_iff demo_sampler_ops_def no_nan_def default_sampling_params_def is_greedy_def f32_eq_def)
  have "\<exists>choice. forward demo_sampler_ops ?t [default_sampling_params, default_sampling_params] [[], []] \<lparr>rng = 5, workspace = ()\<rparr>
    = (tensor_from_ids demo_sampler_ops (map (\<lambda>row. word_of_nat (choice row)) [0..<2]) ?t, \<lparr>rng = 5, workspace = ()\<rparr>)
    \<and> (\<forall>row < 2. choice row < 2 \<and> tokens_above (?t ! row) (choice row) = {}
         \<and> (\<forall>j < choice row. f32_less (?t ! row ! j) (?t ! row ! choice row)))"
    by (rule greedy_batch_deterministic [OF dims(1-3) _ _ _ _ dims(4) vals]) simp_all
  then obtain choice where c: "forward demo_sampler_ops ?t [default_sampling_params, default_sampling_params] [[], []] \<lparr>rng = 5, workspace = ()\<rparr>
    = (tensor_from_ids demo_sampler_ops (map (\<lambda>row. word_of_nat (choice row)) [0..<2]) ?t, \<lparr>rng = 5, workspace = ()\<rparr>)"
    "\<forall>row < 2. tokens_above (?t ! row) (choice row) = {}"
    by blast
  from c(2) have "0 < (2 :: nat) \<longrightarrow> tokens_above (?t ! 0) (choice 0) = {}" by (rule spec)
  then have "tokens_above (?t ! 0) (choice 0) = {}" by simp
  then show ?thesis using c(1) by (intro exI [of _ choice]) simp
qed

end
