(* ===== verification/Golden_Types.thy ===== *)
theory Golden_Types
  imports Loader Float_Ops
begin

text \<open>
  \<^verbatim>\<open>types.rs\<close> of the crate \<^verbatim>\<open>vllm-oxide-test\<close>: the release manifest and the fixtures it lists, the
  pinned identities of a release, and the decoding of little-endian tensor payloads. The JSON and
  safetensors parsers produce these values; their rejections (unknown fields, wrong types) are
  failures of the parser parameter of the theories that read files.
\<close>

unbundle bit_operations_syntax

section \<open>The manifest\<close>

datatype prompt_category = CanonicalPrompt | RegressionPrompt

datatype fixture_family = Canonical | Batch | Regression

datatype oracle_name = Transformers | Vllm | Fake

datatype oracle_role = Reference | Baseline

datatype logits_dtype = Float32

datatype required_comparison = CompareL1 | CompareL1L2 | Calibration

record archive_info =
  archive_filename :: string
  archive_sha256 :: string

record expected_fixture =
  ef_fixture_id :: string
  ef_prompt_id :: string
  ef_family :: fixture_family
  ef_model_revision :: string
  ef_dtype :: string
  ef_oracle :: oracle_name
  ef_oracle_role :: oracle_role
  ef_required_comparison :: required_comparison
  ef_filename :: string

record model_info =
  model_id :: string
  model_revision :: string
  tokenizer_revision :: string
  config_sha256 :: string
  tokenizer_sha256 :: string
  weights_sha256 :: string
  model_arch :: string
  model_dtype :: string
  model_vocab_size :: nat

record oracle_versions =
  transformers_oracle :: string
  vllm_oracle :: string

record wheel_identity =
  wheel_name :: string
  wheel_version :: string
  wheel_filename :: string
  wheel_sha256 :: string

record runtime_info =
  evidence_mode :: string
  registry_install_mode :: string
  pythonhashseed :: string
  cublas_workspace_config :: string
  python_version :: string
  torch_version :: string
  torch_cuda_version :: string
  transformers_version :: string
  vllm_version :: string
  xgrammar_version :: string
  triton_version :: string
  cuda_toolkit_version :: string
  rustc_version :: string
  nvidia_driver_version :: string
  gpu_name :: string
  compute_capability :: string
  os_kernel :: string
  generator_commit :: string
  uv_lock_sha256 :: string
  wheels :: "wheel_identity list"

record kernel_paths =
  reference_kernel :: string
  baseline_kernel :: string
  candidate_kernel :: string

definition comparison_scope :: "kernel_paths \<Rightarrow> string" where
  "comparison_scope k = reference_kernel k @ ''::vs::'' @ candidate_kernel k"

record generation_config =
  canonical_max_tokens :: nat
  regression_max_tokens :: nat
  generation_temperature :: f64
  attn_implementation :: string

record baseline_calibration =
  candidate_atol :: f64
  observed_max_abs_diff :: f64
  calibration_factor :: f64
  calibration_method :: string

record tolerance_policy =
  policy_version :: string
  policy_dtype :: string
  policy_kernel :: string
  l1_near_tie_max_abs_logit_gap :: f64
  l2_atol :: f64
  policy_rationale :: string
  policy_evidence :: "string list"

record fixture_metadata =
  fm_prompt_id :: string
  fm_category :: prompt_category
  fm_oracle :: oracle_name
  fm_num_tokens :: nat
  fm_logits_dtype :: logits_dtype
  fm_logits_shape :: "nat \<times> nat"
  fm_sha256 :: string
  fm_filename :: string

record golden_manifest =
  schema_version :: nat
  product_version :: string
  golden_version :: string
  manifest_archive :: archive_info
  generated_at :: string
  manifest_model :: model_info
  manifest_oracle_versions :: oracle_versions
  manifest_runtime :: runtime_info
  manifest_kernel_paths :: kernel_paths
  manifest_generation :: generation_config
  manifest_policy :: tolerance_policy
  manifest_calibration :: baseline_calibration
  expected_fixtures :: "expected_fixture list"
  fixtures :: "fixture_metadata list"
  calibrated_fixtures :: "string list"

record fixture_data =
  fd_prompt_id :: string
  fd_category :: prompt_category
  fd_oracle :: oracle_name
  fd_num_tokens :: nat
  fd_token_ids :: "int list"
  fd_n_prompt_tokens :: int
  fd_logits :: "f32 list option"
  fd_logits_shape :: "nat \<times> nat"
  fd_top5_indices :: "int list option"
  fd_top5_logits :: "f32 list option"

section \<open>Pinned identities\<close>

definition MANIFEST_SCHEMA_VERSION :: nat where "MANIFEST_SCHEMA_VERSION = 4"
definition PRODUCT_VERSION :: string where "PRODUCT_VERSION = ''v0.2.0''"
definition GOLDEN_VERSION :: string where "GOLDEN_VERSION = ''goldens-v0.2''"
definition MANIFEST_FILENAME :: string where "MANIFEST_FILENAME = ''manifest.json''"
definition ARCHIVE_FILENAME :: string where "ARCHIVE_FILENAME = ''goldens-v0.2.tar.gz''"
definition MODEL_ID :: string where "MODEL_ID = ''Qwen/Qwen3-0.6B''"
definition MODEL_REVISION :: string where "MODEL_REVISION = ''7e4ae267688d671ddfca3122e4528ee980cf3234''"
definition MODEL_CONFIG_SHA256 :: string where
  "MODEL_CONFIG_SHA256 = ''660db3b73d788119c04535e48cf9be5f55bc3100841a718637ae695b442f27dd''"
definition TOKENIZER_SHA256 :: string where
  "TOKENIZER_SHA256 = ''aeb13307a71acd8fe81861d94ad54ab689df773318809eed3cbe794b4492dae4''"
definition MODEL_WEIGHTS_SHA256 :: string where
  "MODEL_WEIGHTS_SHA256 = ''f47f71177f32bcd101b7573ec9171e6a57f4f4d31148d38e382306f42996874b''"
definition REFERENCE_KERNEL_PATH :: string where
  "REFERENCE_KERNEL_PATH = ''transformers-4.57.6/torch-2.10.0/fp32-gemm-reduction/sdpa-math''"
definition BASELINE_KERNEL_PATH :: string where
  "BASELINE_KERNEL_PATH = ''vllm-0.18.1/flash-attn-v2/eager/inproc-scheduler''"
definition CANDIDATE_KERNEL_PATH :: string where
  "CANDIDATE_KERNEL_PATH = ''vllm-oxide/candle-27f20fea993c81ea6d32ce44018f42b68466525e/fp32-gemm-reduction+causal-math-v2+call-layout-v2''"

section \<open>Text helpers\<close>

definition is_lowercase_hex :: "string \<Rightarrow> nat \<Rightarrow> bool" where
  "is_lowercase_hex s n \<longleftrightarrow> length s = n
     \<and> list_all (\<lambda>c. let k = of_char c :: nat in 48 \<le> k \<and> k \<le> 57 \<or> 97 \<le> k \<and> k \<le> 102) s"

definition is_lowercase_sha256 :: "string \<Rightarrow> bool" where
  "is_lowercase_sha256 s = is_lowercase_hex s 64"

text \<open>\<^verbatim>\<open>str::contains\<close>, \<^verbatim>\<open>starts_with\<close> and \<^verbatim>\<open>ends_with\<close>.\<close>

definition starts_with :: "string \<Rightarrow> string \<Rightarrow> bool" where
  "starts_with s p \<longleftrightarrow> take (length p) s = p"

definition ends_with :: "string \<Rightarrow> string \<Rightarrow> bool" where
  "ends_with s p \<longleftrightarrow> length p \<le> length s \<and> drop (length s - length p) s = p"

fun contains_text :: "string \<Rightarrow> string \<Rightarrow> bool" where
  "contains_text [] p \<longleftrightarrow> p = []"
| "contains_text (c # s) p \<longleftrightarrow> starts_with (c # s) p \<or> contains_text s p"

definition is_id_char :: "char \<Rightarrow> bool" where
  "is_id_char c \<longleftrightarrow> (let k = of_char c :: nat in
     48 \<le> k \<and> k \<le> 57 \<or> 65 \<le> k \<and> k \<le> 90 \<or> 97 \<le> k \<and> k \<le> 122) \<or> c = CHR ''_'' \<or> c = CHR ''-''"

section \<open>Tensor payloads\<close>

text \<open>\<^verbatim>\<open>as_chunks::<n>().0\<close>: the complete chunks; a shorter rest is dropped.\<close>

definition as_chunks :: "nat \<Rightarrow> 'a list \<Rightarrow> 'a list list" where
  "as_chunks n xs = map (\<lambda>i. take n (drop (i * n) xs)) [0..<length xs div n]"

definition i64_from_le_bytes :: "8 word list \<Rightarrow> int" where
  "i64_from_le_bytes bs = sint (word_rcat (rev bs) :: 64 word)"

text \<open>The value of a binary32 bit pattern.\<close>

definition f32_from_bits :: "32 word \<Rightarrow> f32" where
  "f32_from_bits w =
     (let e = unat (drop_bit 23 w AND 255); m = unat (w AND 8388607);
          sg = if bit w 31 then - 1 else 1 :: rat
      in if e = 255 then (if m \<noteq> 0 then F32_NaN else if bit w 31 then F32_NegInf else F32_PosInf)
         else if e = 0 then F32_Finite (sg * of_nat m / 2 ^ 149)
         else F32_Finite (sg * of_nat (2 ^ 23 + m) * 2 powi (int e - 150)))"

definition f32_from_le_bytes :: "8 word list \<Rightarrow> f32" where
  "f32_from_le_bytes bs = f32_from_bits (word_rcat (rev bs) :: 32 word)"

lemma length_as_chunks [simp]: "length (as_chunks n xs) = length xs div n"
  by (simp add: as_chunks_def)

lemma as_chunks_append:
  assumes "length x = n" "0 < n"
  shows "as_chunks n (x @ xs) = x # as_chunks n xs"
proof (rule nth_equalityI)
  have len: "(n + length xs) div n = Suc (length xs div n)" using assms(2) by simp
  then show "length (as_chunks n (x @ xs)) = length (x # as_chunks n xs)" using assms(1) by simp
  fix i assume "i < length (as_chunks n (x @ xs))"
  then have i: "i < Suc (length xs div n)" using assms(1) len by simp
  then show "as_chunks n (x @ xs) ! i = (x # as_chunks n xs) ! i"
    using assms(1) len by (cases i) (simp_all add: as_chunks_def del: upt_Suc)
qed

lemma as_chunks_Nil [simp]: "as_chunks n [] = []"
  by (simp add: as_chunks_def)

end
