(* ===== verification/Golden_Compare.thy ===== *)
theory Golden_Compare
  imports Golden_Types
begin

text \<open>
  \<^verbatim>\<open>l1.rs\<close> and \<^verbatim>\<open>l2.rs\<close> of the crate \<^verbatim>\<open>vllm-oxide-test\<close>: the comparison of generated tokens and of
  logits with a reference fixture. Both stop at the first divergent token, because later rows have
  a different causal prefix.
\<close>

datatype compare_error =
    RowOffsetOverflow
  | RowEndOverflow
  | NoCandidateRow nat
  | ExpectedOutside nat
  | ActualOutside nat
  | NoFixtureLogits
  | LogitGeometry

section \<open>Tokens\<close>

datatype l1_position_detail =
    Match nat int
  | NearTie nat int int f64
  | Mismatch nat int int

datatype mismatch_kind = Deterministic | NearTieGap f64

record l1_result =
  l1_prompt_id :: string
  l1_passed :: bool
  total_positions :: nat
  compared_positions :: nat
  exact_matches :: nat
  near_ties :: nat
  mismatches :: nat
  l1_first_divergence :: "nat option"
  excluded_positions :: nat
  l1_policy_version :: string
  near_tie_max_abs_logit_gap :: f64
  l1_details :: "l1_position_detail list"

text \<open>\<^verbatim>\<open>row.get(i)\<close> and \<^verbatim>\<open>xs.get(a..b)\<close>.\<close>

definition get_at :: "'a list \<Rightarrow> nat \<Rightarrow> 'a option" where
  "get_at xs i = (if i < length xs then Some (xs ! i) else None)"

definition get_range :: "'a list \<Rightarrow> nat \<Rightarrow> nat \<Rightarrow> 'a list option" where
  "get_range xs a b = (if a \<le> b \<and> b \<le> length xs then Some (take (b - a) (drop a xs)) else None)"

definition ok_or :: "'e \<Rightarrow> 'a option \<Rightarrow> ('e, 'a) outcome" where
  "ok_or e x = (case x of None \<Rightarrow> Error e | Some v \<Rightarrow> Ok v)"

definition candidate_logit_gap :: "f32 list \<Rightarrow> nat \<Rightarrow> nat \<Rightarrow> nat \<Rightarrow> nat \<Rightarrow> (compare_error, f64) outcome" where
  "candidate_logit_gap logits vocab position expected actual =
     rbind (ok_or RowOffsetOverflow (checked_mul position vocab)) (\<lambda>start.
     rbind (ok_or RowEndOverflow (checked_add start vocab)) (\<lambda>end.
     rbind (ok_or (NoCandidateRow position) (get_range logits start end)) (\<lambda>row.
     rbind (ok_or (ExpectedOutside expected) (get_at row expected)) (\<lambda>e.
     rbind (ok_or (ActualOutside actual) (get_at row actual)) (\<lambda>a.
     Ok (fl_abs (fl_sub round32 a e)))))))"

text \<open>\<^verbatim>\<open>x as usize\<close> on an \<^verbatim>\<open>i64\<close>.\<close>

definition i64_as_usize :: "int \<Rightarrow> nat" where
  "i64_as_usize x = nat (x mod 2 ^ 64)"

record l1_scan =
  scan_details :: "l1_position_detail list"
  scan_exact :: nat
  scan_ties :: nat
  scan_mismatches :: nat
  scan_divergence :: "nat option"

text \<open>The loop of \<^verbatim>\<open>compare_tokens_loop\<close> over the zipped tokens from position \<open>i\<close> on.\<close>

fun compare_tokens_from ::
    "(nat \<Rightarrow> int \<Rightarrow> int \<Rightarrow> (compare_error, mismatch_kind option) outcome) \<Rightarrow> nat \<Rightarrow> (int \<times> token) list
       \<Rightarrow> l1_scan \<Rightarrow> (compare_error, l1_scan) outcome" where
  "compare_tokens_from classify i [] st = Ok st"
| "compare_tokens_from classify i ((expected, tok) # rest) st =
     (let actual = int (unat tok) in
      rbind (classify i expected actual) (\<lambda>k.
      case k of
        None \<Rightarrow> compare_tokens_from classify (Suc i) rest
          (st\<lparr>scan_exact := scan_exact st + 1, scan_details := scan_details st @ [Match i expected]\<rparr>)
      | Some (NearTieGap gap) \<Rightarrow>
          Ok (st\<lparr>scan_ties := scan_ties st + 1, scan_divergence := Some i,
                scan_details := scan_details st @ [NearTie i expected actual gap]\<rparr>)
      | Some Deterministic \<Rightarrow>
          Ok (st\<lparr>scan_mismatches := scan_mismatches st + 1, scan_divergence := Some i,
                scan_details := scan_details st @ [Mismatch i expected actual]\<rparr>)))"

definition empty_scan :: l1_scan where
  "empty_scan = \<lparr>scan_details = [], scan_exact = 0, scan_ties = 0, scan_mismatches = 0, scan_divergence = None\<rparr>"

definition compare_tokens_loop ::
    "fixture_data \<Rightarrow> token list \<Rightarrow> tolerance_policy
       \<Rightarrow> (nat \<Rightarrow> int \<Rightarrow> int \<Rightarrow> (compare_error, mismatch_kind option) outcome) \<Rightarrow> (compare_error, l1_result) outcome" where
  "compare_tokens_loop fixture generated policy classify =
     (let n = min (length (fd_token_ids fixture)) (length generated) in
      rbind (compare_tokens_from classify 0 (zip (take n (fd_token_ids fixture)) (take n generated)) empty_scan) (\<lambda>st.
      let total = max (length (fd_token_ids fixture)) (length generated);
          short = scan_divergence st = None \<and> length (fd_token_ids fixture) \<noteq> length generated;
          divergence = (if short then Some n else scan_divergence st);
          bad = (if short then scan_mismatches st + 1 else scan_mismatches st);
          compared = length (scan_details st)
      in Ok \<lparr>l1_prompt_id = fd_prompt_id fixture, l1_passed = (bad = 0), total_positions = total,
             compared_positions = compared, exact_matches = scan_exact st, near_ties = scan_ties st,
             mismatches = bad, l1_first_divergence = divergence, excluded_positions = total - compared,
             l1_policy_version = policy_version policy,
             near_tie_max_abs_logit_gap = l1_near_tie_max_abs_logit_gap policy, l1_details = scan_details st\<rparr>))"

definition classify_with_logits ::
    "(f32 list \<times> nat) option \<Rightarrow> tolerance_policy \<Rightarrow> nat \<Rightarrow> int \<Rightarrow> int \<Rightarrow> (compare_error, mismatch_kind option) outcome" where
  "classify_with_logits generated_logits policy i expected actual =
     (if expected = actual then Ok None
      else case generated_logits of
        None \<Rightarrow> Ok (Some Deterministic)
      | Some (logits, vocab) \<Rightarrow>
          rbind (candidate_logit_gap logits vocab i (i64_as_usize expected) (i64_as_usize actual)) (\<lambda>gap.
          if f32_le gap (l1_near_tie_max_abs_logit_gap policy) then Ok (Some (NearTieGap gap))
          else Ok (Some Deterministic)))"

definition compare_l1 ::
    "fixture_data \<Rightarrow> token list \<Rightarrow> (f32 list \<times> nat) option \<Rightarrow> tolerance_policy \<Rightarrow> (compare_error, l1_result) outcome" where
  "compare_l1 fixture generated generated_logits policy =
     compare_tokens_loop fixture generated policy (classify_with_logits generated_logits policy)"

definition classify_exact :: "nat \<Rightarrow> int \<Rightarrow> int \<Rightarrow> (compare_error, mismatch_kind option) outcome" where
  "classify_exact i expected actual = (if expected = actual then Ok None else Ok (Some Deterministic))"

definition compare_l1_tokens_only ::
    "fixture_data \<Rightarrow> token list \<Rightarrow> tolerance_policy \<Rightarrow> (compare_error, l1_result) outcome" where
  "compare_l1_tokens_only fixture generated policy = compare_tokens_loop fixture generated policy classify_exact"

section \<open>Logits\<close>

record l2_result =
  l2_prompt_id :: string
  l2_passed :: bool
  compared_steps :: nat
  l2_first_divergence :: "nat option"
  excluded_steps :: nat
  total_elements :: nat
  max_abs_diff :: f64
  elements_exceeding_tol :: nat

record l2_scan =
  scan_exceeding :: nat
  scan_max :: f64

text \<open>One element pair: a non-finite value counts as exceeding; otherwise the difference is taken in
  \<^verbatim>\<open>f64\<close>.\<close>

definition compare_element :: "f64 \<Rightarrow> f32 \<Rightarrow> f32 \<Rightarrow> l2_scan \<Rightarrow> l2_scan" where
  "compare_element atol actual expected st =
     (if \<not> f32_is_finite actual \<or> \<not> f32_is_finite expected
      then st\<lparr>scan_max := F32_PosInf, scan_exceeding := scan_exceeding st + 1\<rparr>
      else let abs_diff = fl_abs (fl_sub round64 actual expected);
               st1 = (if f32_less (scan_max st) abs_diff then st\<lparr>scan_max := abs_diff\<rparr> else st)
           in if f32_less atol abs_diff then st1\<lparr>scan_exceeding := scan_exceeding st1 + 1\<rparr> else st1)"

fun compare_row :: "f64 \<Rightarrow> f32 list \<Rightarrow> nat \<Rightarrow> f32 list \<Rightarrow> l2_scan \<Rightarrow> (compare_error, l2_scan) outcome" where
  "compare_row atol generated pos [] st = Ok st"
| "compare_row atol generated pos (expected # rest) st =
     rbind (index generated pos) (\<lambda>actual.
     compare_row atol generated (Suc pos) rest (compare_element atol actual expected st))"

text \<open>The loop over steps; the result is the number of compared steps, the divergence and the scan.\<close>

fun compare_steps ::
    "f64 \<Rightarrow> nat \<Rightarrow> f32 list \<Rightarrow> f32 list \<Rightarrow> nat \<Rightarrow> (int \<times> token) list \<Rightarrow> l2_scan
       \<Rightarrow> (compare_error, nat \<times> nat option \<times> l2_scan) outcome" where
  "compare_steps atol vocab reference generated step [] st = Ok (step, None, st)"
| "compare_steps atol vocab reference generated step ((expected, tok) # rest) st =
     rbind (slice_range reference (step * vocab) (step * vocab + vocab)) (\<lambda>row.
     rbind (compare_row atol generated (step * vocab) row st) (\<lambda>st'.
     if expected \<noteq> int (unat tok) then Ok (Suc step, Some step, st')
     else compare_steps atol vocab reference generated (Suc step) rest st'))"

definition compare_l2 ::
    "fixture_data \<Rightarrow> f32 list \<Rightarrow> token list \<Rightarrow> tolerance_policy \<Rightarrow> (compare_error, l2_result) outcome" where
  "compare_l2 fixture generated_logits generated policy =
     rbind (ok_or NoFixtureLogits (fd_logits fixture)) (\<lambda>reference.
     let n_steps = fd_num_tokens fixture; vocab = snd (fd_logits_shape fixture) in
     if n_steps = 0 \<or> vocab = 0 \<or> fst (fd_logits_shape fixture) \<noteq> n_steps
        \<or> length (fd_token_ids fixture) \<noteq> n_steps
        \<or> checked_mul n_steps vocab \<noteq> Some (length reference)
        \<or> generated = [] \<or> checked_mul (length generated) vocab \<noteq> Some (length generated_logits)
        \<or> \<not> f32_is_finite (l2_atol policy) \<or> f32_less (l2_atol policy) (F32_Finite 0)
     then Error LogitGeometry
     else let min_steps = min (min n_steps (length generated)) (length (fd_token_ids fixture)) in
     rbind (compare_steps (l2_atol policy) vocab reference generated_logits 0
              (zip (take min_steps (fd_token_ids fixture)) (take min_steps generated))
              \<lparr>scan_exceeding = 0, scan_max = F32_Finite 0\<rparr>) (\<lambda>(steps, divergence, st).
     Ok \<lparr>l2_prompt_id = fd_prompt_id fixture, l2_passed = (scan_exceeding st = 0), compared_steps = steps,
         l2_first_divergence = divergence, excluded_steps = min_steps - steps,
         total_elements = steps * vocab, max_abs_diff = scan_max st,
         elements_exceeding_tol = scan_exceeding st\<rparr>))"

section \<open>Where two token lists part\<close>

text \<open>The length of the common prefix of the reference tokens and the generated ones.\<close>

fun shared_prefix :: "int list \<Rightarrow> token list \<Rightarrow> nat" where
  "shared_prefix (e # es) (t # ts) = (if e = int (unat t) then Suc (shared_prefix es ts) else 0)"
| "shared_prefix _ _ = 0"

lemma shared_prefix_le: "shared_prefix es ts \<le> length es" "shared_prefix es ts \<le> length ts"
  by (induction es ts rule: shared_prefix.induct) simp_all

lemma shared_prefix_nth: "i < shared_prefix es ts \<Longrightarrow> es ! i = int (unat (ts ! i))"
proof (induction es ts arbitrary: i rule: shared_prefix.induct)
  case (1 e es t ts)
  then show ?case by (cases i) (auto split: if_splits)
qed simp_all

lemma shared_prefix_diverges:
  "shared_prefix es ts < length es \<Longrightarrow> shared_prefix es ts < length ts
     \<Longrightarrow> es ! shared_prefix es ts \<noteq> int (unat (ts ! shared_prefix es ts))"
  by (induction es ts rule: shared_prefix.induct) auto

lemma shared_prefix_full:
  "shared_prefix es ts = length es \<and> length es = length ts \<longleftrightarrow> es = map (\<lambda>t. int (unat t)) ts"
  by (induction es ts rule: shared_prefix.induct) auto

lemma shared_prefix_take:
  "shared_prefix (take (min (length es) (length ts)) es) (take (min (length es) (length ts)) ts) = shared_prefix es ts"
  by (induction es ts rule: shared_prefix.induct) simp_all

text \<open>The token loop walks the shared prefix.\<close>

definition matched :: "nat \<Rightarrow> int list \<Rightarrow> token list \<Rightarrow> l1_scan \<Rightarrow> l1_scan" where
  "matched i es ts st = (let c = shared_prefix es ts in
     st\<lparr>scan_exact := scan_exact st + c, scan_details := scan_details st @ map (\<lambda>j. Match (i + j) (es ! j)) [0..<c]\<rparr>)"

lemma compare_tokens_from_shared:
  assumes "\<And>j e. classify j e e = Ok None"
  shows "compare_tokens_from classify i (zip es ts) st = compare_tokens_from classify (i + shared_prefix es ts)
    (zip (drop (shared_prefix es ts) es) (drop (shared_prefix es ts) ts)) (matched i es ts st)"
proof (induction es ts arbitrary: i st rule: shared_prefix.induct)
  case (1 e es t ts)
  have split: "[0..<Suc c] = 0 # map Suc [0..<c]" for c by (simp add: map_Suc_upt upt_conv_Cons)
  show ?case
  proof (cases "e = int (unat t)")
    case True
    then show ?thesis
      using 1 [of "Suc i" "st\<lparr>scan_exact := scan_exact st + 1, scan_details := scan_details st @ [Match i e]\<rparr>"]
      by (simp add: assms matched_def Let_def split o_def del: upt_Suc)
  next
    case False
    then show ?thesis by (simp add: matched_def)
  qed
qed (simp_all add: matched_def)

text \<open>The outcome of the token comparison: equal, diverging at the end of the shared prefix, or of
  different lengths.\<close>

lemma compare_tokens_loop_cases:
  fixes policy :: tolerance_policy
  assumes same: "\<And>j e. classify j e e = Ok None"
    and diff: "\<And>j e a. e \<noteq> a \<Longrightarrow> classify j e a \<noteq> Ok None"
    and call: "compare_tokens_loop fixture generated policy classify = Ok r"
  defines "c \<equiv> shared_prefix (fd_token_ids fixture) generated"
  shows "exact_matches r = c \<and> total_positions r = max (length (fd_token_ids fixture)) (length generated)
      \<and> l1_prompt_id r = fd_prompt_id fixture"
    and "c < length (fd_token_ids fixture) \<and> c < length generated \<Longrightarrow> l1_first_divergence r = Some c
      \<and> compared_positions r = Suc c
      \<and> (\<exists>k. classify c (fd_token_ids fixture ! c) (int (unat (generated ! c))) = Ok (Some k)
           \<and> (l1_passed r \<longleftrightarrow> k \<noteq> Deterministic))"
    and "\<not> (c < length (fd_token_ids fixture) \<and> c < length generated) \<Longrightarrow>
      (l1_passed r \<longleftrightarrow> length (fd_token_ids fixture) = length generated) \<and> compared_positions r = c
      \<and> l1_first_divergence r = (if length (fd_token_ids fixture) = length generated then None else Some c)"
proof -
  let ?es = "fd_token_ids fixture" and ?n = "min (length (fd_token_ids fixture)) (length generated)"
  have z: "zip (take ?n ?es) (take ?n generated) = zip ?es generated"
    by (metis take_zip take_all length_zip le_refl)
  let ?m = "matched 0 ?es generated empty_scan"
  have le: "c \<le> length ?es" "c \<le> length generated" unfolding c_def by (rule shared_prefix_le)+
  have m: "scan_exact ?m = c" "length (scan_details ?m) = c" "scan_mismatches ?m = 0" "scan_divergence ?m = None"
    by (simp_all add: matched_def empty_scan_def c_def Let_def)
  obtain st where st: "compare_tokens_from classify c (zip (drop c ?es) (drop c generated)) ?m = Ok st"
    using call unfolding compare_tokens_loop_def Let_def z
    by (subst (asm) compare_tokens_from_shared) (auto simp: same c_def rbind_Ok_iff)
  have r: "total_positions r = max (length ?es) (length generated)" "l1_prompt_id r = fd_prompt_id fixture"
    "exact_matches r = scan_exact st" "compared_positions r = length (scan_details st)"
    "l1_first_divergence r = (if scan_divergence st = None \<and> length ?es \<noteq> length generated then Some ?n else scan_divergence st)"
    "l1_passed r \<longleftrightarrow> (if scan_divergence st = None \<and> length ?es \<noteq> length generated then scan_mismatches st + 1 else scan_mismatches st) = 0"
    using call st unfolding compare_tokens_loop_def Let_def z
    by (subst (asm) compare_tokens_from_shared; auto simp: same c_def rbind_Ok_iff)+
  have part: "scan_exact st = c \<and> length (scan_details st) = Suc c \<and> scan_divergence st = Some c
      \<and> (\<exists>k. classify c (?es ! c) (int (unat (generated ! c))) = Ok (Some k) \<and> (scan_mismatches st = 0 \<longleftrightarrow> k \<noteq> Deterministic))"
    if lt: "c < length ?es \<and> c < length generated"
  proof -
    have d: "drop c ?es = ?es ! c # drop (Suc c) ?es" "drop c generated = generated ! c # drop (Suc c) generated"
      using lt by (simp_all add: Cons_nth_drop_Suc)
    have "?es ! c \<noteq> int (unat (generated ! c))" using shared_prefix_diverges lt by (simp add: c_def)
    note nn = diff [OF this, of c]
    obtain y where y: "classify c (?es ! c) (int (unat (generated ! c))) = Ok y"
      using st by (auto simp: d rbind_Ok_iff Let_def)
    then obtain k where k: "y = Some k" using nn by (cases y) auto
    with y st m show ?thesis by (cases k) (auto simp: d Let_def)
  qed
  have whole: "st = ?m" if "\<not> (c < length ?es \<and> c < length generated)"
    using st that le by (auto simp: not_less)
  show "exact_matches r = c \<and> total_positions r = max (length ?es) (length generated) \<and> l1_prompt_id r = fd_prompt_id fixture"
    using r part whole m by (cases "c < length ?es \<and> c < length generated") auto
  show "l1_first_divergence r = Some c \<and> compared_positions r = Suc c
      \<and> (\<exists>k. classify c (?es ! c) (int (unat (generated ! c))) = Ok (Some k) \<and> (l1_passed r \<longleftrightarrow> k \<noteq> Deterministic))"
    if "c < length ?es \<and> c < length generated"
    using part [OF that] r by auto
  show "(l1_passed r \<longleftrightarrow> length ?es = length generated) \<and> compared_positions r = c
      \<and> l1_first_divergence r = (if length ?es = length generated then None else Some c)"
    if n: "\<not> (c < length ?es \<and> c < length generated)"
    using whole [OF n] r m n le by (auto simp: not_less)
qed

lemma classify_with_logits_kinds:
  "classify_with_logits lg policy j e e = Ok None"
  "e \<noteq> a \<Longrightarrow> classify_with_logits lg policy j e a \<noteq> Ok None"
  by (auto simp: classify_with_logits_def rbind_Ok_iff split: option.splits if_splits)

lemma classify_exact_kinds:
  "classify_exact j e e = Ok None" "e \<noteq> a \<Longrightarrow> classify_exact j e a \<noteq> Ok None"
  by (simp_all add: classify_exact_def)

text \<open>A tolerated divergence: the logits of the two tokens in the row of the divergence are within the
  policy's gap.\<close>

definition near_tie_at :: "(f32 list \<times> nat) option \<Rightarrow> tolerance_policy \<Rightarrow> nat \<Rightarrow> int \<Rightarrow> int \<Rightarrow> bool" where
  "near_tie_at lg policy i e a \<longleftrightarrow> (\<exists>logits vocab gap. lg = Some (logits, vocab)
     \<and> candidate_logit_gap logits vocab i (i64_as_usize e) (i64_as_usize a) = Ok gap
     \<and> f32_le gap (l1_near_tie_max_abs_logit_gap policy))"

lemma classify_with_logits_tolerated:
  "classify_with_logits lg policy i e a = Ok (Some k) \<Longrightarrow> k \<noteq> Deterministic \<longleftrightarrow> near_tie_at lg policy i e a"
  by (auto simp: classify_with_logits_def near_tie_at_def rbind_Ok_iff split: option.splits if_splits)

lemma compare_l1_verdict:
  assumes "compare_l1 fixture generated lg policy = Ok r"
  defines "c \<equiv> shared_prefix (fd_token_ids fixture) generated"
  shows "l1_passed r \<longleftrightarrow> fd_token_ids fixture = map (\<lambda>t. int (unat t)) generated
      \<or> c < length (fd_token_ids fixture) \<and> c < length generated
        \<and> near_tie_at lg policy c (fd_token_ids fixture ! c) (int (unat (generated ! c)))"
    and "exact_matches r = c" "l1_prompt_id r = fd_prompt_id fixture"
proof -
  note cs = compare_tokens_loop_cases [OF classify_with_logits_kinds assms(1) [unfolded compare_l1_def], folded c_def]
  note full = shared_prefix_full [of "fd_token_ids fixture" generated, folded c_def]
  show "l1_passed r \<longleftrightarrow> fd_token_ids fixture = map (\<lambda>t. int (unat t)) generated
      \<or> c < length (fd_token_ids fixture) \<and> c < length generated
        \<and> near_tie_at lg policy c (fd_token_ids fixture ! c) (int (unat (generated ! c)))"
  proof (cases "c < length (fd_token_ids fixture) \<and> c < length generated")
    case True
    then obtain k where "classify_with_logits lg policy c (fd_token_ids fixture ! c) (int (unat (generated ! c))) = Ok (Some k)"
      "l1_passed r \<longleftrightarrow> k \<noteq> Deterministic" using cs(2) by blast
    moreover have "fd_token_ids fixture \<noteq> map (\<lambda>t. int (unat t)) generated" using full True by auto
    ultimately show ?thesis using classify_with_logits_tolerated True by blast
  next
    case False
    moreover have "c \<le> length (fd_token_ids fixture)" "c \<le> length generated" unfolding c_def by (rule shared_prefix_le)+
    ultimately show ?thesis using cs(3) full by auto
  qed
  show "exact_matches r = c" "l1_prompt_id r = fd_prompt_id fixture" using cs(1) by simp_all
qed

lemma compare_l1_tokens_only_verdict:
  assumes "compare_l1_tokens_only fixture generated policy = Ok r"
  shows "l1_passed r \<longleftrightarrow> fd_token_ids fixture = map (\<lambda>t. int (unat t)) generated"
proof -
  define c where "c = shared_prefix (fd_token_ids fixture) generated"
  note cs = compare_tokens_loop_cases [OF classify_exact_kinds assms [unfolded compare_l1_tokens_only_def], folded c_def]
  note full = shared_prefix_full [of "fd_token_ids fixture" generated, folded c_def]
  show ?thesis
  proof (cases "c < length (fd_token_ids fixture) \<and> c < length generated")
    case True
    then show ?thesis using cs(2) full by (auto simp: classify_exact_def split: if_splits)
  next
    case False
    moreover have "c \<le> length (fd_token_ids fixture)" "c \<le> length generated" unfolding c_def by (rule shared_prefix_le)+
    ultimately show ?thesis using cs(3) full by auto
  qed
qed

section \<open>The logit comparison\<close>

definition elements_close :: "f64 \<Rightarrow> f32 \<Rightarrow> f32 \<Rightarrow> bool" where
  "elements_close atol actual expected \<longleftrightarrow> f32_is_finite actual \<and> f32_is_finite expected
     \<and> \<not> f32_less atol (fl_abs (fl_sub round64 actual expected))"

lemma compare_element_exceeding:
  "scan_exceeding (compare_element atol a e st) = scan_exceeding st + (if elements_close atol a e then 0 else 1)"
  by (simp add: compare_element_def elements_close_def Let_def)

lemma all_less_shift: "(\<forall>k < Suc n. P k) \<longleftrightarrow> P 0 \<and> (\<forall>k < n. P (Suc k))" for P :: "nat \<Rightarrow> bool"
  by (auto simp: less_Suc_eq_0_disj)

lemma compare_row_Ok:
  "pos + length row \<le> length generated \<Longrightarrow> \<exists>st'. compare_row atol generated pos row st = Ok st'
    \<and> (scan_exceeding st' = 0 \<longleftrightarrow> scan_exceeding st = 0
         \<and> (\<forall>j < length row. elements_close atol (generated ! (pos + j)) (row ! j)))"
proof (induction row arbitrary: pos st)
  case (Cons e row)
  let ?st = "compare_element atol (generated ! pos) e st"
  have "Suc pos + length row \<le> length generated" using Cons.prems by simp
  from Cons.IH [OF this, of ?st] obtain st' where st'': "compare_row atol generated (Suc pos) row ?st = Ok st'
    \<and> (scan_exceeding st' = 0 \<longleftrightarrow> scan_exceeding ?st = 0
         \<and> (\<forall>j < length row. elements_close atol (generated ! (Suc pos + j)) (row ! j)))" ..
  note st' = conjunct1 [OF st''] conjunct2 [OF st'']
  then have "compare_row atol generated pos (e # row) st = Ok st'" using Cons.prems by simp
  moreover have "scan_exceeding st' = 0 \<longleftrightarrow> scan_exceeding st = 0
         \<and> (\<forall>j < length (e # row). elements_close atol (generated ! (pos + j)) ((e # row) ! j))"
    unfolding st'(2) length_Cons all_less_shift by (simp add: compare_element_exceeding)
  ultimately show ?case by (intro exI [of _ st'] conjI)
qed simp

definition row_close :: "f64 \<Rightarrow> nat \<Rightarrow> f32 list \<Rightarrow> f32 list \<Rightarrow> nat \<Rightarrow> bool" where
  "row_close atol vocab reference generated k \<longleftrightarrow>
     (\<forall>j < vocab. elements_close atol (generated ! (k * vocab + j)) (reference ! (k * vocab + j)))"

lemma compare_steps_Ok:
  assumes "(step + length es) * vocab \<le> length reference" "(step + length es) * vocab \<le> length generated"
    "length es = length ts"
  shows "\<exists>st'. compare_steps atol vocab reference generated step (zip es ts) st
      = Ok (step + min (Suc (shared_prefix es ts)) (length es),
            if shared_prefix es ts < length es then Some (step + shared_prefix es ts) else None, st')
    \<and> (scan_exceeding st' = 0 \<longleftrightarrow> scan_exceeding st = 0
         \<and> (\<forall>k < min (Suc (shared_prefix es ts)) (length es). row_close atol vocab reference generated (step + k)))"
  using assms
proof (induction es ts arbitrary: step st rule: shared_prefix.induct)
  case (1 e es t ts)
  let ?row = "take vocab (drop (step * vocab) reference)"
  have b: "step * vocab + vocab \<le> length reference" "step * vocab + vocab \<le> length generated"
    using "1.prems"(1,2) by (simp_all add: algebra_simps)
  have lrow: "length ?row = vocab" using b by simp
  have "step * vocab + length ?row \<le> length generated" using b lrow by simp
  from compare_row_Ok [OF this, of atol st] obtain st1 where st1': "compare_row atol generated (step * vocab) ?row st = Ok st1
    \<and> (scan_exceeding st1 = 0 \<longleftrightarrow> scan_exceeding st = 0
         \<and> (\<forall>j < length ?row. elements_close atol (generated ! (step * vocab + j)) (?row ! j)))" ..
  note st1 = conjunct1 [OF st1'] conjunct2 [OF st1']
  have x1: "scan_exceeding st1 = 0 \<longleftrightarrow> scan_exceeding st = 0 \<and> row_close atol vocab reference generated step"
    using st1(2) b unfolding lrow row_close_def by (auto simp: add.commute)
  have slice: "slice_range reference (step * vocab) (step * vocab + vocab) = (Ok ?row :: (compare_error, _) outcome)"
    using b by (simp add: slice_range_def)
  show ?case
  proof (cases "e = int (unat t)")
    case True
    have "(Suc step + length es) * vocab \<le> length reference" "(Suc step + length es) * vocab \<le> length generated"
      "length es = length ts" using "1.prems" by simp_all
    note "1.IH" [OF True this, of st1]
    then obtain st2 where "compare_steps atol vocab reference generated (Suc step) (zip es ts) st1
        = Ok (Suc step + min (Suc (shared_prefix es ts)) (length es),
              if shared_prefix es ts < length es then Some (Suc step + shared_prefix es ts) else None, st2)
      \<and> (scan_exceeding st2 = 0 \<longleftrightarrow> scan_exceeding st1 = 0
         \<and> (\<forall>k < min (Suc (shared_prefix es ts)) (length es).
              row_close atol vocab reference generated (Suc step + k)))" ..
    then show ?thesis
      using True slice st1(1) x1
      by (intro exI [of _ st2]) (simp del: mult_Suc add: all_less_shift)
  next
    case False
    then show ?thesis using slice st1(1) x1 by (intro exI [of _ st1]) simp
  qed
qed auto

text \<open>The geometry that the comparison checks, on which its loop runs without a panic.\<close>

definition l2_geometry :: "fixture_data \<Rightarrow> f32 list \<Rightarrow> token list \<Rightarrow> tolerance_policy \<Rightarrow> f32 list \<Rightarrow> bool" where
  "l2_geometry fixture generated_logits generated policy reference \<longleftrightarrow>
     (let n = fd_num_tokens fixture; vocab = snd (fd_logits_shape fixture) in
      n \<noteq> 0 \<and> vocab \<noteq> 0 \<and> fst (fd_logits_shape fixture) = n \<and> length (fd_token_ids fixture) = n
      \<and> checked_mul n vocab = Some (length reference) \<and> generated \<noteq> []
      \<and> checked_mul (length generated) vocab = Some (length generated_logits)
      \<and> f32_is_finite (l2_atol policy) \<and> \<not> f32_less (l2_atol policy) (F32_Finite 0))"

lemma compare_l2_steps:
  assumes "l2_geometry fixture generated_logits generated policy reference"
  defines "c \<equiv> shared_prefix (fd_token_ids fixture) generated"
    and "m \<equiv> min (min (fd_num_tokens fixture) (length generated)) (length (fd_token_ids fixture))"
    and "v \<equiv> snd (fd_logits_shape fixture)"
  obtains st where "compare_steps (l2_atol policy) v reference generated_logits 0
        (zip (take m (fd_token_ids fixture)) (take m generated)) \<lparr>scan_exceeding = 0, scan_max = F32_Finite 0\<rparr>
      = Ok (min (Suc c) m, if c < m then Some c else None, st)"
    "scan_exceeding st = 0 \<longleftrightarrow> (\<forall>k < min (Suc c) m. row_close (l2_atol policy) v reference generated_logits k)"
proof -
  let ?es = "fd_token_ids fixture" and ?st0 = "\<lparr>scan_exceeding = 0, scan_max = F32_Finite 0\<rparr>"
  have g: "length ?es = fd_num_tokens fixture" "checked_mul (fd_num_tokens fixture) v = Some (length reference)"
    "checked_mul (length generated) v = Some (length generated_logits)"
    using assms(1) by (simp_all add: l2_geometry_def Let_def v_def)
  have m: "m = min (length ?es) (length generated)" using g(1) by (simp add: m_def)
  have len: "length reference = length ?es * v" "length generated_logits = length generated * v"
    using checked_mul_Some [OF g(2)] checked_mul_Some [OF g(3)] g(1) by simp_all
  define E T where "E = take m ?es" and "T = take m generated"
  have ET: "length E = m" "length T = m" by (simp_all add: E_def T_def m)
  have sp: "shared_prefix E T = c" unfolding E_def T_def m c_def by (rule shared_prefix_take)
  have "m * v \<le> length ?es * v" "m * v \<le> length generated * v" by (simp_all add: m mult_le_mono1)
  then have "(0 + length E) * v \<le> length reference" "(0 + length E) * v \<le> length generated_logits" "length E = length T"
    by (simp_all add: ET len)
  note compare_steps_Ok [OF this, of "l2_atol policy" ?st0, unfolded sp ET(1)]
  then obtain st where st: "compare_steps (l2_atol policy) v reference generated_logits 0 (zip E T) ?st0
      = Ok (0 + min (Suc c) m, if c < m then Some (0 + c) else None, st)
      \<and> (scan_exceeding st = 0 \<longleftrightarrow> scan_exceeding ?st0 = 0 \<and> (\<forall>k < min (Suc c) m.
        row_close (l2_atol policy) v reference generated_logits (0 + k)))" ..
  show thesis
    by (rule that [of st]) (use conjunct1 [OF st] conjunct2 [OF st] in \<open>simp_all add: E_def T_def\<close>)
qed

text \<open>The comparison answers exactly on this geometry, and says whether every compared row is close.\<close>

definition l2_report :: "fixture_data \<Rightarrow> token list \<Rightarrow> l2_scan \<Rightarrow> l2_result" where
  "l2_report fixture generated st =
     (let c = shared_prefix (fd_token_ids fixture) generated; m = min (length (fd_token_ids fixture)) (length generated) in
      \<lparr>l2_prompt_id = fd_prompt_id fixture, l2_passed = (scan_exceeding st = 0), compared_steps = min (Suc c) m,
       l2_first_divergence = (if c < m then Some c else None), excluded_steps = m - min (Suc c) m,
       total_elements = min (Suc c) m * snd (fd_logits_shape fixture), max_abs_diff = scan_max st,
       elements_exceeding_tol = scan_exceeding st\<rparr>)"

lemma compare_l2_cases:
  obtains (none) "fd_logits fixture = None" "compare_l2 fixture generated_logits generated policy = Error NoFixtureLogits"
  | (bad) reference where "fd_logits fixture = Some reference"
      "\<not> l2_geometry fixture generated_logits generated policy reference"
      "compare_l2 fixture generated_logits generated policy = Error LogitGeometry"
  | (run) reference st where "fd_logits fixture = Some reference"
      "l2_geometry fixture generated_logits generated policy reference"
      "compare_l2 fixture generated_logits generated policy = Ok (l2_report fixture generated st)"
      "scan_exceeding st = 0 \<longleftrightarrow> (\<forall>k < min (Suc (shared_prefix (fd_token_ids fixture) generated))
           (min (length (fd_token_ids fixture)) (length generated)).
         row_close (l2_atol policy) (snd (fd_logits_shape fixture)) reference generated_logits k)"
proof (cases "fd_logits fixture")
  case None
  then show thesis by (intro none) (simp_all add: compare_l2_def ok_or_def)
next
  case (Some reference)
  let ?m = "min (min (fd_num_tokens fixture) (length generated)) (length (fd_token_ids fixture))"
  show thesis
  proof (cases "l2_geometry fixture generated_logits generated policy reference")
    case False
    then show thesis using Some by (intro bad) (auto simp: compare_l2_def ok_or_def l2_geometry_def Let_def)
  next
    case True
    note steps = compare_l2_steps [OF True]
    from steps obtain st where st: "compare_steps (l2_atol policy) (snd (fd_logits_shape fixture)) reference generated_logits 0
        (zip (take ?m (fd_token_ids fixture)) (take ?m generated)) \<lparr>scan_exceeding = 0, scan_max = F32_Finite 0\<rparr>
      = Ok (min (Suc (shared_prefix (fd_token_ids fixture) generated)) ?m,
            if shared_prefix (fd_token_ids fixture) generated < ?m then Some (shared_prefix (fd_token_ids fixture) generated) else None, st)"
      "scan_exceeding st = 0 \<longleftrightarrow> (\<forall>k < min (Suc (shared_prefix (fd_token_ids fixture) generated)) ?m.
         row_close (l2_atol policy) (snd (fd_logits_shape fixture)) reference generated_logits k)"
      by blast
    have m: "?m = min (length (fd_token_ids fixture)) (length generated)"
      using True by (simp add: l2_geometry_def Let_def)
    have "compare_l2 fixture generated_logits generated policy = Ok (l2_report fixture generated st)"
      using True Some st(1) by (simp add: compare_l2_def ok_or_def l2_geometry_def Let_def l2_report_def)
    then show thesis using Some True st(2) unfolding m by (intro run)
  qed
qed

section \<open>Verdicts\<close>

definition sample_policy :: tolerance_policy where
  "sample_policy = \<lparr>policy_version = ''p1'', policy_dtype = ''bf16'', policy_kernel = [],
     l1_near_tie_max_abs_logit_gap = F32_Finite (1 / 4), l2_atol = F32_Finite (1 / 2), policy_rationale = [], policy_evidence = []\<rparr>"

definition sample_fixture :: fixture_data where
  "sample_fixture = \<lparr>fd_prompt_id = ''p'', fd_category = CanonicalPrompt, fd_oracle = Transformers, fd_num_tokens = 2,
     fd_token_ids = [1, 0], fd_n_prompt_tokens = 3,
     fd_logits = Some [F32_Finite 0, F32_Finite 4, F32_Finite 4, F32_Finite (15 / 4)], fd_logits_shape = (2, 2),
     fd_top5_indices = None, fd_top5_logits = None\<rparr>"


definition sample_l1 :: "(compare_error, l1_result) outcome" where
  "sample_l1 = compare_l1 sample_fixture [1, 1] (Some ([F32_Finite 0, F32_Finite 4, F32_Finite 4, F32_Finite (31 / 8)], 2)) sample_policy"


text \<open>C25: The logit comparison answers on exactly the inputs whose geometry it checks, never panics, and
  its verdict is the elementwise one: it passes if and only if in every row up to and including the row of
  the first divergent token (the rows that share a causal prefix) all pairs of values are finite and
  differ by at most the policy's tolerance; the numbers of compared and excluded rows add up to the
  shorter of the two generations.\<close>

theorem logit_comparison_verdict:
  "case compare_l2 fixture generated_logits generated policy of
     Inl e \<Rightarrow> e \<noteq> Panic \<and> \<not> (\<exists>reference. fd_logits fixture = Some reference
       \<and> l2_geometry fixture generated_logits generated policy reference)
   | Inr r \<Rightarrow> \<exists>reference. fd_logits fixture = Some reference
       \<and> l2_geometry fixture generated_logits generated policy reference
       \<and> (l2_passed r \<longleftrightarrow> (\<forall>k < compared_steps r. row_close (l2_atol policy) (snd (fd_logits_shape fixture)) reference generated_logits k))
       \<and> compared_steps r = min (Suc (shared_prefix (fd_token_ids fixture) generated))
           (min (length (fd_token_ids fixture)) (length generated))
       \<and> compared_steps r + excluded_steps r = min (length (fd_token_ids fixture)) (length generated)"
proof (cases rule: compare_l2_cases [of fixture generated_logits generated policy])
  case (run reference st)
  show ?thesis unfolding run(3) sum.case
    by (rule exI [of _ reference]) (use run in \<open>auto simp: l2_report_def Let_def\<close>)
qed auto

theorem logit_comparison_verdict_witness:
  "\<exists>r. compare_l2 sample_fixture [F32_Finite 0, F32_Finite 4, F32_Finite 4, F32_Finite 4] [1, 1] sample_policy = Ok r
     \<and> compared_steps r = 2"
proof -
  let ?logits = "[F32_Finite 0, F32_Finite 4, F32_Finite 4, F32_Finite 4]"
  have "\<exists>reference. fd_logits sample_fixture = Some reference \<and> l2_geometry sample_fixture ?logits [1, 1] sample_policy reference"
    by (simp add: sample_fixture_def sample_policy_def l2_geometry_def checked_mul_def usize_bound_def Let_def)
  then obtain r where r: "compare_l2 sample_fixture ?logits [1, 1] sample_policy = Ok r"
    by (cases rule: compare_l2_cases [of sample_fixture ?logits "[1, 1]" sample_policy]) auto
  have "compared_steps r = min (Suc (shared_prefix (fd_token_ids sample_fixture) [1, 1]))
      (min (length (fd_token_ids sample_fixture)) (length [1 :: token, 1]))"
    using logit_comparison_verdict [of sample_fixture ?logits "[1, 1]" sample_policy]
    by (simp only: r sum.case) blast
  then have "compared_steps r = 2" by (simp add: sample_fixture_def)
  with r show ?thesis by blast
qed

end
