(* ===== verification/Golden_Fixture.thy ===== *)
theory Golden_Fixture
  imports Golden_Compare
begin

text \<open>
  \<^verbatim>\<open>load_fixture\<close> of \<^verbatim>\<open>manifest.rs\<close> in the crate \<^verbatim>\<open>vllm-oxide-test\<close>: a safetensors file becomes the
  fixture the comparisons read. The parser of the file format is a parameter; what is relied on of it
  is that the payload of a tensor has the size its shape and type announce.
\<close>

datatype tensor_dtype = StI64 | StF32 | StOther string

record tensor_view =
  tv_dtype :: tensor_dtype
  tv_shape :: "nat list"
  tv_data :: "8 word list"

text \<open>A parsed file: its tensors by name.\<close>

type_synonym tensors = "(string \<times> tensor_view) list"

datatype fixture_error =
    FixtureRead string
  | FixtureParse string
  | EmptyFixture string
  | TensorMissing string
  | TensorShape string
  | CanonicalTensorSet string
  | CanonicalLogitsShape string
  | RegressionFixtureShape string
  | TensorDtype string
  | EmptyScalar string

definition find_tensor :: "tensors \<Rightarrow> string \<Rightarrow> (fixture_error, tensor_view) outcome" where
  "find_tensor ts name = ok_or (TensorMissing name) (map_of ts name)"

definition tensor_names :: "tensors \<Rightarrow> string set" where
  "tensor_names ts = set (map fst ts)"

definition validate_tensor_shape :: "tensors \<Rightarrow> string \<Rightarrow> tensor_dtype \<Rightarrow> nat list \<Rightarrow> (fixture_error, unit) outcome" where
  "validate_tensor_shape ts name dt shape =
     rbind (find_tensor ts name) (\<lambda>view.
     if tv_dtype view \<noteq> dt \<or> tv_shape view \<noteq> shape then Error (TensorShape name) else Ok ())"

definition read_named_tensor_as_i64 :: "tensors \<Rightarrow> string \<Rightarrow> (fixture_error, int list) outcome" where
  "read_named_tensor_as_i64 ts name =
     rbind (find_tensor ts name) (\<lambda>view.
     case tv_dtype view of
       StI64 \<Rightarrow> Ok (map i64_from_le_bytes (as_chunks 8 (tv_data view)))
     | _ \<Rightarrow> Error (TensorDtype name))"

definition read_named_scalar_as_i64 :: "tensors \<Rightarrow> string \<Rightarrow> (fixture_error, int) outcome" where
  "read_named_scalar_as_i64 ts name =
     rbind (read_named_tensor_as_i64 ts name) (\<lambda>data. ok_or (EmptyScalar name) (get_at data 0))"

definition read_named_tensor_as_f32 :: "tensors \<Rightarrow> string \<Rightarrow> (fixture_error, f32 list) outcome" where
  "read_named_tensor_as_f32 ts name =
     rbind (find_tensor ts name) (\<lambda>view.
     case tv_dtype view of
       StF32 \<Rightarrow> Ok (map f32_from_le_bytes (as_chunks 4 (tv_data view)))
     | _ \<Rightarrow> Error (TensorDtype name))"

definition validate_fixture_tensors :: "tensors \<Rightarrow> fixture_metadata \<Rightarrow> (fixture_error, unit) outcome" where
  "validate_fixture_tensors ts meta =
     (let n = fm_num_tokens meta in
      if n = 0 then Error (EmptyFixture (fm_filename meta))
      else rbind (validate_tensor_shape ts ''token_ids'' StI64 [n]) (\<lambda>_.
      rbind (validate_tensor_shape ts ''n_prompt_tokens'' StI64 []) (\<lambda>_.
      case fm_category meta of
        CanonicalPrompt \<Rightarrow>
          if tensor_names ts \<noteq> {''token_ids'', ''n_prompt_tokens'', ''logits''} then Error (CanonicalTensorSet (fm_filename meta))
          else if fst (fm_logits_shape meta) \<noteq> n \<or> snd (fm_logits_shape meta) = 0 then Error (CanonicalLogitsShape (fm_filename meta))
          else validate_tensor_shape ts ''logits'' StF32 [fst (fm_logits_shape meta), snd (fm_logits_shape meta)]
      | RegressionPrompt \<Rightarrow>
          if tensor_names ts \<noteq> {''token_ids'', ''n_prompt_tokens'', ''top5_indices'', ''top5_logits''}
             \<or> fm_logits_shape meta \<noteq> (0, 0) then Error (RegressionFixtureShape (fm_filename meta))
          else rbind (validate_tensor_shape ts ''top5_indices'' StI64 [n, 5]) (\<lambda>_.
               validate_tensor_shape ts ''top5_logits'' StF32 [n, 5]))))"

definition load_fixture ::
    "('b \<Rightarrow> (string, tensors) outcome) \<Rightarrow> (string, 'b) outcome \<Rightarrow> fixture_metadata \<Rightarrow> (fixture_error, fixture_data) outcome" where
  "load_fixture deserialize file meta =
     rbind (map_err FixtureRead file) (\<lambda>bytes.
     rbind (map_err FixtureParse (deserialize bytes)) (\<lambda>ts.
     rbind (validate_fixture_tensors ts meta) (\<lambda>_.
     rbind (read_named_tensor_as_i64 ts ''token_ids'') (\<lambda>token_ids.
     rbind (read_named_scalar_as_i64 ts ''n_prompt_tokens'') (\<lambda>n_prompt_tokens.
     rbind (case fm_category meta of
              CanonicalPrompt \<Rightarrow>
                rbind (read_named_tensor_as_f32 ts ''logits'') (\<lambda>logits. Ok (Some logits, None, None))
            | RegressionPrompt \<Rightarrow>
                rbind (read_named_tensor_as_i64 ts ''top5_indices'') (\<lambda>indices.
                rbind (read_named_tensor_as_f32 ts ''top5_logits'') (\<lambda>logits_top5.
                Ok (None, Some indices, Some logits_top5)))) (\<lambda>(logits, top5_indices, top5_logits).
     Ok \<lparr>fd_prompt_id = fm_prompt_id meta, fd_category = fm_category meta, fd_oracle = fm_oracle meta,
         fd_num_tokens = fm_num_tokens meta, fd_token_ids = token_ids, fd_n_prompt_tokens = n_prompt_tokens,
         fd_logits = logits, fd_logits_shape = fm_logits_shape meta, fd_top5_indices = top5_indices,
         fd_top5_logits = top5_logits\<rparr>))))))"

section \<open>Values and bytes\<close>

lemma horner_digits:
  fixes n b :: int
  assumes "0 < b"
  shows "horner_sum (\<lambda>i. (n div b ^ i) mod b) b [0..<k] = n mod b ^ k"
proof (induction k)
  case (Suc k)
  have "horner_sum (\<lambda>i. (n div b ^ i) mod b) b [0..<Suc k] = b ^ k * (n div b ^ k mod b) + n mod b ^ k"
    using Suc.IH by (simp add: horner_sum_append)
  also have "\<dots> = n mod (b ^ k * b)" using assms by (simp add: zmod_zmult2_eq)
  finally show ?case by (simp add: mult.commute)
qed simp

lemma uint_byte: "uint (ucast (drop_bit (8 * i) w) :: 8 word) = (uint w div 256 ^ i) mod 256"
proof -
  have p: "(2 :: int) ^ (8 * i) = 256 ^ i" by (simp add: power_mult)
  have "uint (drop_bit (8 * i) w) = drop_bit (8 * i) (uint w)" by (rule bit_eqI) (auto simp: bit_simps dest: bit_imp_le_length)
  then have "uint (drop_bit (8 * i) w) = uint w div 256 ^ i" by (simp only: drop_bit_eq_div p)
  then show ?thesis by (simp only: unsigned_ucast_eq take_bit_eq_mod) simp
qed

lemma word_rcat_bytes:
  "word_rcat (rev (map (\<lambda>i. ucast (drop_bit (8 * i) w) :: 8 word) [0..<k])) = word_of_int (uint w mod 256 ^ k)"
proof -
  have "horner_sum uint (256 :: int) (map (\<lambda>i. ucast (drop_bit (8 * i) w) :: 8 word) [0..<k])
      = horner_sum (\<lambda>i. (uint w div 256 ^ i) mod 256) 256 [0..<k]"
    by (simp add: horner_sum_foldr foldr_map o_def uint_byte)
  then show ?thesis by (simp add: word_rcat_def horner_digits)
qed

lemma i64_from_le_bytes64: "i64_from_le_bytes (le_bytes64 w) = sint w"
proof -
  have "uint w mod 256 ^ 8 = uint w" using uint_range_size [of w] by (simp add: word_size)
  then show ?thesis by (simp only: i64_from_le_bytes_def le_bytes64_def word_rcat_bytes) simp
qed

lemma f32_from_le_bytes32: "f32_from_le_bytes (le_bytes32 w) = f32_from_bits w"
proof -
  have "uint w mod 256 ^ 4 = uint w" using uint_range_size [of w] by (simp add: word_size)
  then show ?thesis by (simp only: f32_from_le_bytes_def le_bytes32_def word_rcat_bytes) simp
qed

lemma as_chunks_concat:
  "0 < n \<Longrightarrow> (\<And>x. length (f x) = n) \<Longrightarrow> as_chunks n (concat (map f xs)) = map f xs"
  by (induction xs) (simp_all add: as_chunks_append)

lemma length_le_bytes [simp]: "length (le_bytes64 w) = 8" "length (le_bytes32 v) = 4"
  by (simp_all add: le_bytes64_def le_bytes32_def)

lemma decode_i64: "map i64_from_le_bytes (as_chunks 8 (concat (map le_bytes64 ws))) = map sint ws"
  by (simp add: as_chunks_concat i64_from_le_bytes64)

lemma decode_f32: "map f32_from_le_bytes (as_chunks 4 (concat (map le_bytes32 ws))) = map f32_from_bits ws"
  by (simp add: as_chunks_concat f32_from_le_bytes32)

section \<open>What a loaded fixture holds\<close>

text \<open>What is relied on of the parser: names are distinct, and a payload, which is a slice of memory, has
  the size its shape and type announce.\<close>

definition dtype_width :: "tensor_dtype \<Rightarrow> nat option" where
  "dtype_width dt = (case dt of StI64 \<Rightarrow> Some 8 | StF32 \<Rightarrow> Some 4 | StOther _ \<Rightarrow> None)"

definition payloads_sized :: "tensors \<Rightarrow> bool" where
  "payloads_sized ts \<longleftrightarrow> distinct (map fst ts) \<and> (\<forall>(name, view) \<in> set ts. length (tv_data view) < usize_bound
     \<and> (\<forall>w. dtype_width (tv_dtype view) = Some w \<longrightarrow> length (tv_data view) = prod_list (tv_shape view) * w))"

lemma payloads_sizedD:
  "payloads_sized ts \<Longrightarrow> map_of ts name = Some view \<Longrightarrow> length (tv_data view) < usize_bound
     \<and> (\<forall>w. dtype_width (tv_dtype view) = Some w \<longrightarrow> length (tv_data view) = prod_list (tv_shape view) * w)"
  unfolding payloads_sized_def using map_of_SomeD [of ts name view] by fastforce

lemma validate_tensor_shape_Ok:
  assumes "validate_tensor_shape ts name dt shape = Ok ()"
  obtains view where "map_of ts name = Some view" "tv_dtype view = dt" "tv_shape view = shape"
  using assms by (auto simp: validate_tensor_shape_def find_tensor_def ok_or_def rbind_Ok_iff split: option.splits if_splits)

lemma read_i64_Ok_iff:
  "read_named_tensor_as_i64 ts name = Ok xs \<longleftrightarrow> (\<exists>view. map_of ts name = Some view \<and> tv_dtype view = StI64
     \<and> xs = map i64_from_le_bytes (as_chunks 8 (tv_data view)))"
  by (auto simp: read_named_tensor_as_i64_def find_tensor_def ok_or_def rbind_Ok_iff split: option.splits tensor_dtype.splits)

lemma read_f32_Ok_iff:
  "read_named_tensor_as_f32 ts name = Ok xs \<longleftrightarrow> (\<exists>view. map_of ts name = Some view \<and> tv_dtype view = StF32
     \<and> xs = map f32_from_le_bytes (as_chunks 4 (tv_data view)))"
  by (auto simp: read_named_tensor_as_f32_def find_tensor_def ok_or_def rbind_Ok_iff split: option.splits tensor_dtype.splits)

lemma load_fixture_stages:
  assumes "load_fixture deserialize file meta = Ok fx"
  shows "\<exists>bytes ts. file = Ok bytes \<and> deserialize bytes = Ok ts \<and> validate_fixture_tensors ts meta = Ok ()
    \<and> read_named_tensor_as_i64 ts ''token_ids'' = Ok (fd_token_ids fx)
    \<and> fd_prompt_id fx = fm_prompt_id meta \<and> fd_num_tokens fx = fm_num_tokens meta \<and> fd_logits_shape fx = fm_logits_shape meta
    \<and> fd_category fx = fm_category meta
    \<and> (case fm_category meta of
         CanonicalPrompt \<Rightarrow> \<exists>ls. fd_logits fx = Some ls \<and> read_named_tensor_as_f32 ts ''logits'' = Ok ls
       | RegressionPrompt \<Rightarrow> fd_logits fx = None)"
proof (cases "fm_category meta")
  case CanonicalPrompt
  then show ?thesis using assms by (auto simp: load_fixture_def rbind_Ok_iff)
next
  case RegressionPrompt
  then show ?thesis using assms by (auto simp: load_fixture_def rbind_Ok_iff)
qed

text \<open>The geometry of a loaded fixture.\<close>

definition fixture_sized :: "fixture_data \<Rightarrow> bool" where
  "fixture_sized fx \<longleftrightarrow> fd_num_tokens fx \<noteq> 0 \<and> length (fd_token_ids fx) = fd_num_tokens fx
     \<and> (case fd_category fx of
          CanonicalPrompt \<Rightarrow> \<exists>reference. fd_logits fx = Some reference \<and> fst (fd_logits_shape fx) = fd_num_tokens fx
            \<and> snd (fd_logits_shape fx) \<noteq> 0 \<and> length reference = fd_num_tokens fx * snd (fd_logits_shape fx)
            \<and> length reference < usize_bound
        | RegressionPrompt \<Rightarrow> fd_logits fx = None \<and> fd_logits_shape fx = (0, 0))"

lemma load_fixture_sized:
  assumes load: "load_fixture deserialize file meta = Ok fx" and sized: "\<And>bytes ts. deserialize bytes = Ok ts \<Longrightarrow> payloads_sized ts"
  shows "fixture_sized fx"
proof -
  from load_fixture_stages [OF load] obtain bytes ts where st: "file = Ok bytes \<and> deserialize bytes = Ok ts
    \<and> validate_fixture_tensors ts meta = Ok () \<and> read_named_tensor_as_i64 ts ''token_ids'' = Ok (fd_token_ids fx)
    \<and> fd_prompt_id fx = fm_prompt_id meta \<and> fd_num_tokens fx = fm_num_tokens meta \<and> fd_logits_shape fx = fm_logits_shape meta
    \<and> fd_category fx = fm_category meta
    \<and> (case fm_category meta of
         CanonicalPrompt \<Rightarrow> \<exists>ls. fd_logits fx = Some ls \<and> read_named_tensor_as_f32 ts ''logits'' = Ok ls
       | RegressionPrompt \<Rightarrow> fd_logits fx = None)" by (elim exE)
  then have ts: "deserialize bytes = Ok ts" and val: "validate_fixture_tensors ts meta = Ok ()"
    and tok: "read_named_tensor_as_i64 ts ''token_ids'' = Ok (fd_token_ids fx)"
    and fx: "fd_num_tokens fx = fm_num_tokens meta" "fd_logits_shape fx = fm_logits_shape meta" "fd_category fx = fm_category meta"
    by simp_all
  note p = payloads_sizedD [OF sized [OF ts]]
  have n: "fm_num_tokens meta \<noteq> 0" and shape: "validate_tensor_shape ts ''token_ids'' StI64 [fm_num_tokens meta] = Ok ()"
    using val by (auto simp: validate_fixture_tensors_def Let_def rbind_Ok_iff split: if_splits)
  obtain view where view: "map_of ts ''token_ids'' = Some view" "tv_dtype view = StI64" "tv_shape view = [fm_num_tokens meta]"
    by (rule validate_tensor_shape_Ok [OF shape])
  have "length (tv_data view) = fm_num_tokens meta * 8" using p [OF view(1)] view(2,3) by (simp add: dtype_width_def)
  then have tokens: "length (fd_token_ids fx) = fd_num_tokens fx" using tok view(1) by (auto simp: read_i64_Ok_iff fx(1))
  show ?thesis
  proof (cases "fm_category meta")
    case CanonicalPrompt
    then have g: "fst (fm_logits_shape meta) = fm_num_tokens meta" "snd (fm_logits_shape meta) \<noteq> 0"
      "validate_tensor_shape ts ''logits'' StF32 [fst (fm_logits_shape meta), snd (fm_logits_shape meta)] = Ok ()"
      using val n by (auto simp: validate_fixture_tensors_def Let_def rbind_Ok_iff split: if_splits)
    obtain lv where lv: "map_of ts ''logits'' = Some lv" "tv_dtype lv = StF32"
      "tv_shape lv = [fst (fm_logits_shape meta), snd (fm_logits_shape meta)]"
      by (rule validate_tensor_shape_Ok [OF g(3)])
    obtain ls where ls: "fd_logits fx = Some ls" "read_named_tensor_as_f32 ts ''logits'' = Ok ls" using st CanonicalPrompt by auto
    have len: "length (tv_data lv) = fm_num_tokens meta * snd (fm_logits_shape meta) * 4" "length (tv_data lv) < usize_bound"
      using p [OF lv(1)] lv(2,3) g(1) by (simp_all add: dtype_width_def)
    then have "length ls = fm_num_tokens meta * snd (fm_logits_shape meta)" using ls(2) lv(1) by (auto simp: read_f32_Ok_iff)
    then show ?thesis using len n tokens g(1,2) ls(1) CanonicalPrompt by (simp add: fixture_sized_def fx)
  next
    case RegressionPrompt
    then have "fm_logits_shape meta = (0, 0)"
      using val n by (auto simp: validate_fixture_tensors_def Let_def rbind_Ok_iff split: if_splits)
    then show ?thesis using n tokens st RegressionPrompt by (simp add: fixture_sized_def fx)
  qed
qed

text \<open>The files the generator writes.\<close>

definition i64_tensor :: "nat list \<Rightarrow> 64 word list \<Rightarrow> tensor_view" where
  "i64_tensor shape ws = \<lparr>tv_dtype = StI64, tv_shape = shape, tv_data = concat (map le_bytes64 ws)\<rparr>"

definition f32_tensor :: "nat list \<Rightarrow> 32 word list \<Rightarrow> tensor_view" where
  "f32_tensor shape ws = \<lparr>tv_dtype = StF32, tv_shape = shape, tv_data = concat (map le_bytes32 ws)\<rparr>"

definition canonical_tensors :: "64 word list \<Rightarrow> 64 word \<Rightarrow> nat \<Rightarrow> 32 word list \<Rightarrow> tensors" where
  "canonical_tensors ids prompt_len vocab logits =
     [(''token_ids'', i64_tensor [length ids] ids), (''n_prompt_tokens'', i64_tensor [] [prompt_len]),
      (''logits'', f32_tensor [length ids, vocab] logits)]"

definition regression_tensors :: "64 word list \<Rightarrow> 64 word \<Rightarrow> 64 word list \<Rightarrow> 32 word list \<Rightarrow> tensors" where
  "regression_tensors ids prompt_len indices logits =
     [(''token_ids'', i64_tensor [length ids] ids), (''n_prompt_tokens'', i64_tensor [] [prompt_len]),
      (''top5_indices'', i64_tensor [length ids, 5] indices), (''top5_logits'', f32_tensor [length ids, 5] logits)]"

lemma read_own_i64:
  assumes "map_of ts name = Some (i64_tensor shape ws)"
  shows "read_named_tensor_as_i64 ts name = Ok (map sint ws)" "validate_tensor_shape ts name StI64 shape = Ok ()"
  using assms by (simp_all add: read_i64_Ok_iff decode_i64 i64_tensor_def validate_tensor_shape_def find_tensor_def ok_or_def)

lemma read_own_f32:
  assumes "map_of ts name = Some (f32_tensor shape vs)"
  shows "read_named_tensor_as_f32 ts name = Ok (map f32_from_bits vs)" "validate_tensor_shape ts name StF32 shape = Ok ()"
  using assms by (simp_all add: read_f32_Ok_iff decode_f32 f32_tensor_def validate_tensor_shape_def find_tensor_def ok_or_def)

lemma load_canonical_file:
  assumes "deserialize bytes = Ok (canonical_tensors ids prompt_len vocab logits)" "ids \<noteq> []" "vocab \<noteq> 0"
    "fm_category meta = CanonicalPrompt" "fm_num_tokens meta = length ids" "fm_logits_shape meta = (length ids, vocab)"
  shows "load_fixture deserialize (Ok bytes) meta = Ok \<lparr>fd_prompt_id = fm_prompt_id meta, fd_category = CanonicalPrompt,
        fd_oracle = fm_oracle meta, fd_num_tokens = length ids, fd_token_ids = map sint ids, fd_n_prompt_tokens = sint prompt_len,
        fd_logits = Some (map f32_from_bits logits), fd_logits_shape = (length ids, vocab), fd_top5_indices = None,
        fd_top5_logits = None\<rparr>"
proof -
  let ?c = "canonical_tensors ids prompt_len vocab logits"
  have c: "map_of ?c ''token_ids'' = Some (i64_tensor [length ids] ids)" "map_of ?c ''n_prompt_tokens'' = Some (i64_tensor [] [prompt_len])"
    "map_of ?c ''logits'' = Some (f32_tensor [length ids, vocab] logits)" by (simp_all add: canonical_tensors_def)
  have cn: "tensor_names ?c = {''token_ids'', ''n_prompt_tokens'', ''logits''}" by (simp add: tensor_names_def canonical_tensors_def)
  show ?thesis
    using assms(2,3) by (simp add: load_fixture_def assms(1,4-6) validate_fixture_tensors_def read_named_scalar_as_i64_def get_at_def
        ok_or_def cn read_own_i64 [OF c(1)] read_own_i64 [OF c(2)] read_own_f32 [OF c(3)])
qed

lemma load_regression_file:
  assumes "deserialize bytes = Ok (regression_tensors ids prompt_len indices top5)" "ids \<noteq> []"
    "fm_category meta = RegressionPrompt" "fm_num_tokens meta = length ids" "fm_logits_shape meta = (0, 0)"
  shows "load_fixture deserialize (Ok bytes) meta = Ok \<lparr>fd_prompt_id = fm_prompt_id meta, fd_category = RegressionPrompt,
        fd_oracle = fm_oracle meta, fd_num_tokens = length ids, fd_token_ids = map sint ids, fd_n_prompt_tokens = sint prompt_len,
        fd_logits = None, fd_logits_shape = (0, 0), fd_top5_indices = Some (map sint indices),
        fd_top5_logits = Some (map f32_from_bits top5)\<rparr>"
proof -
  let ?r = "regression_tensors ids prompt_len indices top5"
  have r: "map_of ?r ''token_ids'' = Some (i64_tensor [length ids] ids)" "map_of ?r ''n_prompt_tokens'' = Some (i64_tensor [] [prompt_len])"
    "map_of ?r ''top5_indices'' = Some (i64_tensor [length ids, 5] indices)" "map_of ?r ''top5_logits'' = Some (f32_tensor [length ids, 5] top5)"
    by (simp_all add: regression_tensors_def)
  have rn: "tensor_names ?r = {''token_ids'', ''n_prompt_tokens'', ''top5_indices'', ''top5_logits''}"
    by (simp add: tensor_names_def regression_tensors_def)
  show ?thesis
    using assms(2) by (simp add: load_fixture_def assms(1,3-5) validate_fixture_tensors_def read_named_scalar_as_i64_def get_at_def
        ok_or_def rn read_own_i64 [OF r(1)] read_own_i64 [OF r(2)] read_own_i64 [OF r(3)] read_own_f32 [OF r(4)])
qed

text \<open>C27: Round trip of fixtures. A file with the tensors of a canonical fixture (little-endian token ids,
  prompt length and logits) loads, for metadata of that shape, to exactly these values: the signed token
  ids and prompt length, and the binary32 values of the logit bit patterns. The same for the tensors of a
  regression fixture.\<close>

theorem fixture_roundtrip:
  assumes "deserialize canonical = Ok (canonical_tensors ids prompt_len vocab logits)"
    and "deserialize regression = Ok (regression_tensors ids prompt_len indices top5)"
    and "ids \<noteq> []" "vocab \<noteq> 0"
    and "fm_category cm = CanonicalPrompt" "fm_num_tokens cm = length ids" "fm_logits_shape cm = (length ids, vocab)"
    and "fm_category rm = RegressionPrompt" "fm_num_tokens rm = length ids" "fm_logits_shape rm = (0, 0)"
  shows "load_fixture deserialize (Ok canonical) cm = Ok \<lparr>fd_prompt_id = fm_prompt_id cm, fd_category = CanonicalPrompt,
        fd_oracle = fm_oracle cm, fd_num_tokens = length ids, fd_token_ids = map sint ids, fd_n_prompt_tokens = sint prompt_len,
        fd_logits = Some (map f32_from_bits logits), fd_logits_shape = (length ids, vocab), fd_top5_indices = None,
        fd_top5_logits = None\<rparr>
    \<and> load_fixture deserialize (Ok regression) rm = Ok \<lparr>fd_prompt_id = fm_prompt_id rm, fd_category = RegressionPrompt,
        fd_oracle = fm_oracle rm, fd_num_tokens = length ids, fd_token_ids = map sint ids, fd_n_prompt_tokens = sint prompt_len,
        fd_logits = None, fd_logits_shape = (0, 0), fd_top5_indices = Some (map sint indices),
        fd_top5_logits = Some (map f32_from_bits top5)\<rparr>"
  using load_canonical_file [of deserialize canonical, OF assms(1,3-7)] load_regression_file [of deserialize regression, OF assms(2,3,8-10)]
  by (intro conjI)

text \<open>A file of each kind.\<close>

definition sample_file :: "bool \<Rightarrow> (string, tensors) outcome" where
  "sample_file canonical = Ok (if canonical then canonical_tensors [5] 3 2 [0, 1065353216]
     else regression_tensors [5] 3 [5, 6, 7, 8, 9] [0, 0, 0, 0, 0])"

definition file_metadata :: "prompt_category \<Rightarrow> nat \<times> nat \<Rightarrow> fixture_metadata" where
  "file_metadata category shape = \<lparr>fm_prompt_id = ''p'', fm_category = category, fm_oracle = Transformers, fm_num_tokens = 1,
     fm_logits_dtype = Float32, fm_logits_shape = shape, fm_sha256 = [], fm_filename = ''p.safetensors''\<rparr>"

theorem fixture_roundtrip_witness:
  "\<exists>fx. load_fixture sample_file (Ok True) (file_metadata CanonicalPrompt (1, 2)) = Ok fx \<and> fd_token_ids fx = [5]"
  using fixture_roundtrip [of sample_file True "[5]" 3 2 "[0, 1065353216]" False "[5, 6, 7, 8, 9]" "[0, 0, 0, 0, 0]"
      "file_metadata CanonicalPrompt (1, 2)" "file_metadata RegressionPrompt (0, 0)"]
  by (simp add: sample_file_def file_metadata_def)

end
