(* ===== verification/Golden_Manifest.thy ===== *)
theory Golden_Manifest
  imports Golden_Types
begin

text \<open>
  \<^verbatim>\<open>manifest.rs\<close> of the crate \<^verbatim>\<open>vllm-oxide-test\<close>: the contract of a release manifest, and the
  loading of a fixture. The JSON and safetensors parsers and the file reads are parameters.
\<close>

datatype manifest_purpose = Observation | Authoritative

datatype manifest_error =
    ManifestRead string
  | ManifestParse string
  | UnsupportedSchema nat
  | UnsupportedProduct string
  | UnsupportedGolden string
  | UnsupportedArchive string
  | BadArchiveSha
  | NotReferenceOracle
  | BadModelIdentity
  | NotReleaseEvidence
  | BadRuntime
  | BadOracleVersions
  | BadHostIdentity
  | BadWheel
  | IncompleteWheels
  | BadKernelPaths
  | UnsupportedPolicy string
  | BadThresholds
  | BadPolicyScope
  | NotPending
  | NoEvidence
  | BadCalibration
  | NoExpectedFixtures
  | IncompleteModel
  | BadFixtureId string
  | DuplicateExpected string
  | NonCanonicalFixture string
  | CaseCollision string
  | RevisionMismatch string
  | BadRoleContract string
  | MissingRoles string
  | MixedFamilies string
  | DuplicateGenerated
  | DuplicateCalibrated string
  | UnmatchedCalibrated string
  | BadCalibrationEvidence string
  | BadFixtureSha string
  | UnmatchedGenerated string
  | FamilyMismatch string

definition bail_if :: "bool \<Rightarrow> 'e \<Rightarrow> ('e, unit) outcome" where
  "bail_if b e = (if b then Error e else Ok ())"

lemma bail_if_iff [simp]: "bail_if b e = Ok () \<longleftrightarrow> \<not> b" "bail_if b e \<noteq> Panicked"
  by (simp_all add: bail_if_def)

section \<open>Runtime identity\<close>

fun collect_wheels :: "wheel_identity list \<Rightarrow> (string \<rightharpoonup> wheel_identity) \<Rightarrow> (manifest_error, string \<rightharpoonup> wheel_identity) outcome" where
  "collect_wheels [] found = Ok found"
| "collect_wheels (w # ws) found =
     (let normalized = map (\<lambda>c. if c = CHR ''_'' then CHR ''-'' else c) (to_ascii_lowercase (wheel_name w)) in
      if found normalized \<noteq> None \<or> \<not> ends_with (wheel_filename w) ''.whl''
         \<or> CHR ''/'' \<in> set (wheel_filename w) \<or> CHR 0x5C \<in> set (wheel_filename w)
         \<or> \<not> is_lowercase_sha256 (wheel_sha256 w)
      then Error BadWheel
      else collect_wheels ws (found(normalized \<mapsto> w)))"

definition locked_wheels :: "(string \<times> string) list" where
  "locked_wheels = [(''torch'', ''2.10.0''), (''transformers'', ''4.57.6''), (''vllm'', ''0.18.1''),
     (''xgrammar'', ''0.2.3''), (''triton'', ''3.6.0'')]"

definition forbidden_live_value :: "string \<Rightarrow> bool" where
  "forbidden_live_value value = (let v = to_ascii_lowercase value in
     v = [] \<or> list_ex (contains_text v) [''unknown'', ''fallback'', ''auto'', ''dry-run''])"

definition validate_runtime_and_kernels :: "golden_manifest \<Rightarrow> (manifest_error, unit) outcome" where
  "validate_runtime_and_kernels m =
     (let r = manifest_runtime m; k = manifest_kernel_paths m in
      rbind (bail_if (evidence_mode r \<noteq> ''release'') NotReleaseEvidence) (\<lambda>_.
      rbind (bail_if (registry_install_mode r \<noteq> ''locked-wheels-only'' \<or> pythonhashseed r \<noteq> ''0''
               \<or> cublas_workspace_config r \<noteq> '':4096:8'' \<or> torch_version r \<noteq> ''2.10.0''
               \<or> torch_cuda_version r \<noteq> ''12.8'' \<or> transformers_version r \<noteq> ''4.57.6''
               \<or> vllm_version r \<noteq> ''0.18.1'' \<or> xgrammar_version r \<noteq> ''0.2.3'' \<or> triton_version r \<noteq> ''3.6.0''
               \<or> cuda_toolkit_version r \<noteq> ''13.2.51'' \<or> compute_capability r \<noteq> ''8.9''
               \<or> \<not> starts_with (python_version r) ''3.12.'') BadRuntime) (\<lambda>_.
      rbind (bail_if (transformers_oracle (manifest_oracle_versions m) \<noteq> transformers_version r
               \<or> vllm_oracle (manifest_oracle_versions m) \<noteq> vllm_version r) BadOracleVersions) (\<lambda>_.
      rbind (bail_if (list_ex forbidden_live_value [rustc_version r, nvidia_driver_version r, gpu_name r, os_kernel r]
               \<or> \<not> is_lowercase_hex (generator_commit r) 40 \<or> \<not> is_lowercase_sha256 (uv_lock_sha256 r)) BadHostIdentity) (\<lambda>_.
      rbind (collect_wheels (wheels r) Map.empty) (\<lambda>found.
      rbind (bail_if (list_ex (\<lambda>(name, version). map_option wheel_version (found name) \<noteq> Some version) locked_wheels)
               IncompleteWheels) (\<lambda>_.
      bail_if (reference_kernel k \<noteq> REFERENCE_KERNEL_PATH \<or> baseline_kernel k \<noteq> BASELINE_KERNEL_PATH
               \<or> candidate_kernel k \<noteq> CANDIDATE_KERNEL_PATH) BadKernelPaths)))))))"

section \<open>Identity and policy\<close>

definition validate_identity :: "golden_manifest \<Rightarrow> (manifest_error, unit) outcome" where
  "validate_identity m =
     (let mo = manifest_model m in
      rbind (bail_if (schema_version m \<noteq> MANIFEST_SCHEMA_VERSION) (UnsupportedSchema (schema_version m))) (\<lambda>_.
      rbind (bail_if (product_version m \<noteq> PRODUCT_VERSION) (UnsupportedProduct (product_version m))) (\<lambda>_.
      rbind (bail_if (golden_version m \<noteq> GOLDEN_VERSION) (UnsupportedGolden (golden_version m))) (\<lambda>_.
      rbind (bail_if (archive_filename (manifest_archive m) \<noteq> ARCHIVE_FILENAME)
               (UnsupportedArchive (archive_filename (manifest_archive m)))) (\<lambda>_.
      rbind (bail_if (\<not> is_lowercase_sha256 (archive_sha256 (manifest_archive m))) BadArchiveSha) (\<lambda>_.
      rbind (bail_if (model_dtype mo \<noteq> ''bfloat16'' \<or> attn_implementation (manifest_generation m) \<noteq> ''sdpa'')
               NotReferenceOracle) (\<lambda>_.
      bail_if (model_id mo \<noteq> MODEL_ID \<or> model_revision mo \<noteq> MODEL_REVISION \<or> tokenizer_revision mo \<noteq> MODEL_REVISION
               \<or> config_sha256 mo \<noteq> MODEL_CONFIG_SHA256 \<or> tokenizer_sha256 mo \<noteq> TOKENIZER_SHA256
               \<or> weights_sha256 mo \<noteq> MODEL_WEIGHTS_SHA256 \<or> model_arch mo \<noteq> ''Qwen3ForCausalLM''
               \<or> model_vocab_size mo \<noteq> 151936) BadModelIdentity)))))))"

definition f64_negative :: "f64 \<Rightarrow> bool" where
  "f64_negative x = f32_less x (F32_Finite 0)"

definition validate_policy :: "manifest_purpose \<Rightarrow> golden_manifest \<Rightarrow> (manifest_error, unit) outcome" where
  "validate_policy purpose m =
     (let p = manifest_policy m; gap = l1_near_tie_max_abs_logit_gap p; atol = l2_atol p in
      rbind (bail_if (policy_version p \<noteq> ''same-prefix-v1'') (UnsupportedPolicy (policy_version p))) (\<lambda>_.
      rbind (bail_if (\<not> f32_is_finite gap \<or> f64_negative gap \<or> \<not> f32_is_finite atol \<or> f64_negative atol) BadThresholds) (\<lambda>_.
      rbind (bail_if (policy_dtype p \<noteq> model_dtype (manifest_model m)
               \<or> policy_kernel p \<noteq> comparison_scope (manifest_kernel_paths m)) BadPolicyScope) (\<lambda>_.
      case purpose of
        Observation \<Rightarrow> bail_if (gap \<noteq> F32_Finite 0 \<or> atol \<noteq> F32_Finite 0 \<or> policy_evidence p \<noteq> []
          \<or> \<not> contains_text (to_ascii_lowercase (policy_rationale p)) ''pending'') NotPending
      | Authoritative \<Rightarrow> bail_if (trim (policy_rationale p) = [] \<or> policy_evidence p = []
          \<or> list_ex (\<lambda>item. trim item = []) (policy_evidence p)) NoEvidence))))"

definition validate_calibration :: "baseline_calibration \<Rightarrow> (manifest_error, unit) outcome" where
  "validate_calibration c = bail_if
     (\<not> f32_is_finite (candidate_atol c) \<or> f64_negative (candidate_atol c)
      \<or> \<not> f32_is_finite (observed_max_abs_diff c) \<or> f64_negative (observed_max_abs_diff c)
      \<or> \<not> f32_is_finite (calibration_factor c) \<or> f32_le (calibration_factor c) (F32_Finite 0)
      \<or> trim (calibration_method c) = []) BadCalibration"

section \<open>The expected fixtures\<close>

definition oracle_label :: "oracle_name \<Rightarrow> string" where
  "oracle_label oracle = (case oracle of Transformers \<Rightarrow> ''transformers'' | Vllm \<Rightarrow> ''vllm'' | Fake \<Rightarrow> ''fake'')"

definition canonical_id :: "string \<Rightarrow> oracle_name \<Rightarrow> string" where
  "canonical_id prompt oracle = prompt @ ''.'' @ oracle_label oracle"

record expected_scan =
  es_ids :: "string set"
  es_filenames :: "string set"
  es_roles :: "string \<Rightarrow> oracle_role set"
  es_families :: "string \<Rightarrow> fixture_family set"

definition valid_reference :: "expected_fixture \<Rightarrow> bool" where
  "valid_reference e \<longleftrightarrow> ef_oracle e = Transformers \<and> ef_oracle_role e = Reference
     \<and> ef_required_comparison e = (case ef_family e of Regression \<Rightarrow> CompareL1 | _ \<Rightarrow> CompareL1L2)"

definition valid_baseline :: "expected_fixture \<Rightarrow> bool" where
  "valid_baseline e \<longleftrightarrow> ef_oracle e = Vllm \<and> ef_oracle_role e = Baseline \<and> ef_required_comparison e = Calibration"

definition check_expected_fixture :: "model_info \<Rightarrow> expected_fixture \<Rightarrow> expected_scan \<Rightarrow> (manifest_error, expected_scan) outcome" where
  "check_expected_fixture mo e st =
     (let cid = canonical_id (ef_prompt_id e) (ef_oracle e); portable = to_ascii_lowercase (ef_filename e) in
      rbind (bail_if (ef_prompt_id e = [] \<or> \<not> list_all is_id_char (ef_prompt_id e)) (BadFixtureId (ef_prompt_id e))) (\<lambda>_.
      rbind (bail_if (ef_fixture_id e \<in> es_ids st) (DuplicateExpected (ef_fixture_id e))) (\<lambda>_.
      rbind (bail_if (ef_fixture_id e \<noteq> cid \<or> ef_filename e \<noteq> cid @ ''.safetensors'') (NonCanonicalFixture (ef_fixture_id e))) (\<lambda>_.
      rbind (bail_if (portable \<in> es_filenames st) (CaseCollision (ef_filename e))) (\<lambda>_.
      rbind (bail_if (ef_model_revision e \<noteq> model_revision mo \<or> ef_dtype e \<noteq> model_dtype mo
               \<or> ef_model_revision e = [] \<or> ef_dtype e = []) (RevisionMismatch (ef_fixture_id e))) (\<lambda>_.
      rbind (bail_if (\<not> valid_reference e \<and> \<not> valid_baseline e) (BadRoleContract (ef_fixture_id e))) (\<lambda>_.
      Ok (st\<lparr>es_ids := insert (ef_fixture_id e) (es_ids st), es_filenames := insert portable (es_filenames st),
        es_roles := (es_roles st)(ef_prompt_id e := insert (ef_oracle_role e) (es_roles st (ef_prompt_id e))),
        es_families := (es_families st)(ef_prompt_id e := insert (ef_family e) (es_families st (ef_prompt_id e)))\<rparr>))))))))"

fun check_expected :: "model_info \<Rightarrow> expected_fixture list \<Rightarrow> expected_scan \<Rightarrow> (manifest_error, expected_scan) outcome" where
  "check_expected mo [] st = Ok st"
| "check_expected mo (e # es) st = rbind (check_expected_fixture mo e st) (check_expected mo es)"

text \<open>The check of the roles visits a hash map; here in the order in which the prompts first appear,
  which can only change the error that is reported.\<close>

fun check_roles :: "expected_scan \<Rightarrow> string list \<Rightarrow> (manifest_error, unit) outcome" where
  "check_roles st [] = Ok ()"
| "check_roles st (p # ps) =
     rbind (bail_if (es_roles st p \<noteq> {Reference, Baseline}) (MissingRoles p)) (\<lambda>_.
     rbind (bail_if (card (es_families st p) \<noteq> 1) (MixedFamilies p)) (\<lambda>_. check_roles st ps))"

text \<open>\<^verbatim>\<open>collect::<HashMap<_, _>>\<close>: the last entry of a key stays.\<close>

definition expected_by_id :: "expected_fixture list \<Rightarrow> string \<rightharpoonup> expected_fixture" where
  "expected_by_id es = map_of (rev (map (\<lambda>e. (ef_fixture_id e, e)) es))"

fun check_calibrated :: "golden_manifest \<Rightarrow> string set \<Rightarrow> string list \<Rightarrow> (manifest_error, unit) outcome" where
  "check_calibrated m seen [] = Ok ()"
| "check_calibrated m seen (c # cs) =
     rbind (bail_if (c \<in> seen) (DuplicateCalibrated c)) (\<lambda>_.
     case expected_by_id (expected_fixtures m) c of
       None \<Rightarrow> Error (UnmatchedCalibrated c)
     | Some e \<Rightarrow>
         rbind (bail_if (ef_oracle_role e \<noteq> Baseline
             \<or> \<not> list_ex (\<lambda>f. fm_prompt_id f = ef_prompt_id e \<and> fm_oracle f = ef_oracle e) (fixtures m))
           (BadCalibrationEvidence c)) (\<lambda>_. check_calibrated m (insert c seen) cs))"

definition category_of :: "fixture_family \<Rightarrow> prompt_category" where
  "category_of family = (case family of Regression \<Rightarrow> RegressionPrompt | _ \<Rightarrow> CanonicalPrompt)"

fun check_generated :: "golden_manifest \<Rightarrow> fixture_metadata list \<Rightarrow> (manifest_error, unit) outcome" where
  "check_generated m [] = Ok ()"
| "check_generated m (f # fs) =
     rbind (bail_if (\<not> is_lowercase_sha256 (fm_sha256 f)) (BadFixtureSha (fm_filename f))) (\<lambda>_.
     rbind (bail_if (\<not> list_ex (\<lambda>e. ef_prompt_id e = fm_prompt_id f \<and> ef_oracle e = fm_oracle f
              \<and> ef_filename e = fm_filename f) (expected_fixtures m)) (UnmatchedGenerated (fm_filename f))) (\<lambda>_.
     case expected_by_id (expected_fixtures m) (canonical_id (fm_prompt_id f) (fm_oracle f)) of
       None \<Rightarrow> Panicked
     | Some e \<Rightarrow>
         rbind (bail_if (fm_category f \<noteq> category_of (ef_family e)) (FamilyMismatch (fm_prompt_id f))) (\<lambda>_.
         check_generated m fs)))"

definition empty_expected_scan :: expected_scan where
  "empty_expected_scan = \<lparr>es_ids = {}, es_filenames = {}, es_roles = (\<lambda>_. {}), es_families = (\<lambda>_. {})\<rparr>"

definition validate_manifest_contract :: "golden_manifest \<Rightarrow> manifest_purpose \<Rightarrow> (manifest_error, unit) outcome" where
  "validate_manifest_contract m purpose =
     (let mo = manifest_model m; es = expected_fixtures m in
      rbind (validate_identity m) (\<lambda>_.
      rbind (validate_runtime_and_kernels m) (\<lambda>_.
      rbind (validate_policy purpose m) (\<lambda>_.
      rbind (validate_calibration (manifest_calibration m)) (\<lambda>_.
      rbind (bail_if (es = []) NoExpectedFixtures) (\<lambda>_.
      rbind (bail_if (model_revision mo = [] \<or> model_dtype mo = [] \<or> model_vocab_size mo = 0) IncompleteModel) (\<lambda>_.
      rbind (check_expected mo es empty_expected_scan) (\<lambda>st.
      rbind (check_roles st (remdups (map ef_prompt_id es))) (\<lambda>_.
      rbind (bail_if (\<not> distinct (map (\<lambda>f. (fm_prompt_id f, fm_oracle f)) (fixtures m))) DuplicateGenerated) (\<lambda>_.
      rbind (check_calibrated m {} (calibrated_fixtures m)) (\<lambda>_.
      check_generated m (fixtures m))))))))))))"

definition parse_manifest_bytes_for ::
    "('b \<Rightarrow> (string, golden_manifest) outcome) \<Rightarrow> 'b \<Rightarrow> manifest_purpose \<Rightarrow> (manifest_error, golden_manifest) outcome" where
  "parse_manifest_bytes_for json content purpose =
     rbind (map_err ManifestParse (json content)) (\<lambda>m.
     rbind (validate_manifest_contract m purpose) (\<lambda>_. Ok m))"

definition parse_manifest ::
    "('b \<Rightarrow> (string, golden_manifest) outcome) \<Rightarrow> (string, 'b) outcome \<Rightarrow> (manifest_error, golden_manifest) outcome" where
  "parse_manifest json content = rbind (map_err ManifestRead content) (\<lambda>c. parse_manifest_bytes_for json c Authoritative)"

definition parse_observation_manifest ::
    "('b \<Rightarrow> (string, golden_manifest) outcome) \<Rightarrow> (string, 'b) outcome \<Rightarrow> (manifest_error, golden_manifest) outcome" where
  "parse_observation_manifest json content = rbind (map_err ManifestRead content) (\<lambda>c. parse_manifest_bytes_for json c Observation)"

section \<open>What an accepted manifest satisfies\<close>

text \<open>One expected fixture on its own.\<close>

definition expected_ok :: "model_info \<Rightarrow> expected_fixture \<Rightarrow> bool" where
  "expected_ok mo e \<longleftrightarrow> ef_prompt_id e \<noteq> [] \<and> list_all is_id_char (ef_prompt_id e)
     \<and> ef_fixture_id e = canonical_id (ef_prompt_id e) (ef_oracle e) \<and> ef_filename e = ef_fixture_id e @ ''.safetensors''
     \<and> ef_model_revision e = model_revision mo \<and> ef_dtype e = model_dtype mo \<and> ef_model_revision e \<noteq> [] \<and> ef_dtype e \<noteq> []
     \<and> (valid_reference e \<or> valid_baseline e)"

lemma check_expected_fixture_Ok_iff:
  "check_expected_fixture mo e st = Ok st' \<longleftrightarrow> expected_ok mo e \<and> ef_fixture_id e \<notin> es_ids st
     \<and> to_ascii_lowercase (ef_filename e) \<notin> es_filenames st
     \<and> st' = st\<lparr>es_ids := insert (ef_fixture_id e) (es_ids st),
         es_filenames := insert (to_ascii_lowercase (ef_filename e)) (es_filenames st),
         es_roles := (es_roles st)(ef_prompt_id e := insert (ef_oracle_role e) (es_roles st (ef_prompt_id e))),
         es_families := (es_families st)(ef_prompt_id e := insert (ef_family e) (es_families st (ef_prompt_id e)))\<rparr>"
  by (auto simp: check_expected_fixture_def expected_ok_def Let_def bail_if_def split: if_splits)

lemma check_expected_Ok:
  "check_expected mo es st = Ok st' \<Longrightarrow> list_all (expected_ok mo) es
     \<and> distinct (map ef_fixture_id es) \<and> distinct (map (\<lambda>e. to_ascii_lowercase (ef_filename e)) es)
     \<and> es_ids st \<inter> ef_fixture_id ` set es = {}
     \<and> es_filenames st \<inter> (\<lambda>e. to_ascii_lowercase (ef_filename e)) ` set es = {}
     \<and> (\<forall>p. es_roles st' p = es_roles st p \<union> {ef_oracle_role e |e. e \<in> set es \<and> ef_prompt_id e = p}
          \<and> es_families st' p = es_families st p \<union> {ef_family e |e. e \<in> set es \<and> ef_prompt_id e = p})"
proof (induction es arbitrary: st)
  case (Cons e es)
  then obtain st1 where st1: "check_expected_fixture mo e st = Ok st1" "check_expected mo es st1 = Ok st'"
    by (auto simp: rbind_Ok_iff)
  note h = iffD1 [OF check_expected_fixture_Ok_iff st1(1)]
  show ?case using h Cons.IH [OF st1(2)] by auto
qed simp

lemma check_roles_Ok_iff:
  "check_roles st ps = Ok () \<longleftrightarrow> (\<forall>p \<in> set ps. es_roles st p = {Reference, Baseline} \<and> card (es_families st p) = 1)"
  by (induction ps) (auto simp: rbind_Ok_iff bail_if_def)

lemma expected_by_id_Some: "expected_by_id es c = Some e \<Longrightarrow> e \<in> set es \<and> ef_fixture_id e = c"
  unfolding expected_by_id_def by (drule map_of_SomeD) auto

lemma expected_by_id_None: "expected_by_id es c = None \<longleftrightarrow> c \<notin> ef_fixture_id ` set es"
  by (simp add: expected_by_id_def map_of_eq_None_iff image_image)

lemma check_calibrated_Ok:
  "check_calibrated m seen cs = Ok () \<Longrightarrow> distinct cs \<and> seen \<inter> set cs = {}
     \<and> (\<forall>c \<in> set cs. \<exists>e \<in> set (expected_fixtures m). ef_fixture_id e = c \<and> ef_oracle_role e = Baseline
          \<and> (\<exists>f \<in> set (fixtures m). fm_prompt_id f = ef_prompt_id e \<and> fm_oracle f = ef_oracle e))"
proof (induction cs arbitrary: seen)
  case (Cons c cs)
  from Cons.prems obtain e where e: "expected_by_id (expected_fixtures m) c = Some e" "c \<notin> seen" "ef_oracle_role e = Baseline"
    "\<exists>f \<in> set (fixtures m). fm_prompt_id f = ef_prompt_id e \<and> fm_oracle f = ef_oracle e"
    "check_calibrated m (insert c seen) cs = Ok ()"
    by (auto simp: rbind_Ok_iff list_ex_iff split: option.splits)
  from Cons.IH [OF e(5)] expected_by_id_Some [OF e(1)] e(2-4) show ?case by auto
qed simp

lemma check_generated_Ok:
  "check_generated m fs = Ok () \<Longrightarrow> f \<in> set fs \<Longrightarrow> is_lowercase_sha256 (fm_sha256 f)
     \<and> (\<exists>e \<in> set (expected_fixtures m). ef_prompt_id e = fm_prompt_id f \<and> ef_oracle e = fm_oracle f \<and> ef_filename e = fm_filename f)
     \<and> (\<exists>e \<in> set (expected_fixtures m). ef_fixture_id e = canonical_id (fm_prompt_id f) (fm_oracle f)
          \<and> fm_category f = category_of (ef_family e))"
proof (induction fs)
  case (Cons g fs)
  from Cons.prems(1) obtain e where e: "expected_by_id (expected_fixtures m) (canonical_id (fm_prompt_id g) (fm_oracle g)) = Some e"
    "is_lowercase_sha256 (fm_sha256 g)" "fm_category g = category_of (ef_family e)" "check_generated m fs = Ok ()"
    "\<exists>e \<in> set (expected_fixtures m). ef_prompt_id e = fm_prompt_id g \<and> ef_oracle e = fm_oracle g \<and> ef_filename e = fm_filename g"
    by (auto simp: rbind_Ok_iff list_ex_iff split: option.splits)
  from Cons.IH [OF e(4)] Cons.prems(2) expected_by_id_Some [OF e(1)] e(2,3,5) show ?case by auto
qed simp

definition fixture_of :: "expected_fixture \<Rightarrow> fixture_metadata \<Rightarrow> bool" where
  "fixture_of e f \<longleftrightarrow> ef_prompt_id e = fm_prompt_id f \<and> ef_oracle e = fm_oracle f \<and> ef_filename e = fm_filename f"

lemma accepted_stages:
  assumes "validate_manifest_contract m purpose = Ok ()"
  obtains st where "check_expected (manifest_model m) (expected_fixtures m) empty_expected_scan = Ok st"
    "check_roles st (remdups (map ef_prompt_id (expected_fixtures m))) = Ok ()" "expected_fixtures m \<noteq> []"
    "distinct (map (\<lambda>f. (fm_prompt_id f, fm_oracle f)) (fixtures m))" "check_calibrated m {} (calibrated_fixtures m) = Ok ()"
    "check_generated m (fixtures m) = Ok ()" "validate_identity m = Ok ()" "validate_policy purpose m = Ok ()"
  using assms by (auto simp: validate_manifest_contract_def Let_def rbind_Ok_iff)

lemma accepted_expected:
  assumes "validate_manifest_contract m purpose = Ok ()"
  shows "distinct (map ef_fixture_id (expected_fixtures m))"
    "distinct (map (\<lambda>e. to_ascii_lowercase (ef_filename e)) (expected_fixtures m))"
    "e \<in> set (expected_fixtures m) \<Longrightarrow> expected_ok (manifest_model m) e"
proof -
  obtain st where st: "check_expected (manifest_model m) (expected_fixtures m) empty_expected_scan = Ok st"
    using accepted_stages [OF assms] by blast
  show "distinct (map ef_fixture_id (expected_fixtures m))"
    "distinct (map (\<lambda>e. to_ascii_lowercase (ef_filename e)) (expected_fixtures m))"
    "e \<in> set (expected_fixtures m) \<Longrightarrow> expected_ok (manifest_model m) e"
    using check_expected_Ok [OF st] by (simp_all add: list_all_iff)
qed

lemma accepted_same_id:
  assumes "validate_manifest_contract m purpose = Ok ()" "e \<in> set (expected_fixtures m)" "e' \<in> set (expected_fixtures m)"
    "ef_prompt_id e = ef_prompt_id e'" "ef_oracle e = ef_oracle e'"
  shows "e = e'"
proof -
  have "ef_fixture_id e = ef_fixture_id e'"
    using accepted_expected(3) [OF assms(1)] assms(2-5) by (simp add: expected_ok_def)
  then show ?thesis using accepted_expected(1) [OF assms(1)] assms(2,3) by (simp add: distinct_map inj_on_def)
qed

lemma accepted_one:
  assumes "validate_manifest_contract m purpose = Ok ()" "r \<in> set (expected_fixtures m)" "ef_prompt_id r = p" "P r"
    and P: "\<And>x. P x \<Longrightarrow> ef_oracle x = oracle"
  shows "\<exists>!r. r \<in> set (expected_fixtures m) \<and> ef_prompt_id r = p \<and> P r"
proof (rule ex1I [of _ r])
  show "r \<in> set (expected_fixtures m) \<and> ef_prompt_id r = p \<and> P r" using assms(2-4) by simp
  show "y = r" if "y \<in> set (expected_fixtures m) \<and> ef_prompt_id y = p \<and> P y" for y
    by (rule accepted_same_id [OF assms(1) _ assms(2)]) (use that assms(3,4) P in simp_all)
qed

lemma accepted_prompt:
  assumes ok: "validate_manifest_contract m purpose = Ok ()" and e: "e \<in> set (expected_fixtures m)"
  shows "\<exists>!r. r \<in> set (expected_fixtures m) \<and> ef_prompt_id r = ef_prompt_id e \<and> valid_reference r"
    "\<exists>!b. b \<in> set (expected_fixtures m) \<and> ef_prompt_id b = ef_prompt_id e \<and> valid_baseline b"
    "e' \<in> set (expected_fixtures m) \<Longrightarrow> ef_prompt_id e' = ef_prompt_id e \<Longrightarrow> ef_family e' = ef_family e"
proof -
  obtain st where st: "check_expected (manifest_model m) (expected_fixtures m) empty_expected_scan = Ok st"
    "check_roles st (remdups (map ef_prompt_id (expected_fixtures m))) = Ok ()"
    using accepted_stages [OF ok] by blast
  let ?at = "\<lambda>f. {f e' |e'. e' \<in> set (expected_fixtures m) \<and> ef_prompt_id e' = ef_prompt_id e}"
  have sc: "es_roles st (ef_prompt_id e) = ?at ef_oracle_role" "es_families st (ef_prompt_id e) = ?at ef_family"
    using check_expected_Ok [OF st(1)] by (simp_all add: empty_expected_scan_def)
  have "ef_prompt_id e \<in> set (remdups (map ef_prompt_id (expected_fixtures m)))" using e by simp
  note here = bspec [OF iffD1 [OF check_roles_Ok_iff st(2)] this, unfolded sc]
  note roles = conjunct1 [OF here] and fam = conjunct2 [OF here]
  have val: "valid_reference r \<or> valid_baseline r" if "r \<in> set (expected_fixtures m)" for r
    using accepted_expected(3) [OF ok that] by (simp add: expected_ok_def)
  have "Reference \<in> ?at ef_oracle_role" "Baseline \<in> ?at ef_oracle_role" unfolding roles by simp_all
  then obtain r b where r: "r \<in> set (expected_fixtures m)" "ef_prompt_id r = ef_prompt_id e" "ef_oracle_role r = Reference"
    and b: "b \<in> set (expected_fixtures m)" "ef_prompt_id b = ef_prompt_id e" "ef_oracle_role b = Baseline"
    by auto
  have rb: "valid_reference r" "valid_baseline b" using val [OF r(1)] val [OF b(1)] r(3) b(3) by (auto simp: valid_reference_def valid_baseline_def)
  show "\<exists>!r. r \<in> set (expected_fixtures m) \<and> ef_prompt_id r = ef_prompt_id e \<and> valid_reference r"
    by (rule accepted_one [where P = valid_reference, OF ok r(1,2) rb(1)]) (simp add: valid_reference_def)
  show "\<exists>!b. b \<in> set (expected_fixtures m) \<and> ef_prompt_id b = ef_prompt_id e \<and> valid_baseline b"
    by (rule accepted_one [where P = valid_baseline, OF ok b(1,2) rb(2)]) (simp add: valid_baseline_def)
  obtain f where f: "?at ef_family = {f}" using fam by (auto simp: card_1_singleton_iff)
  show "ef_family e' = ef_family e" if "e' \<in> set (expected_fixtures m)" "ef_prompt_id e' = ef_prompt_id e"
  proof -
    have "ef_family e' \<in> ?at ef_family" "ef_family e \<in> ?at ef_family" using that e by auto
    then show ?thesis unfolding f by simp
  qed
qed

lemma accepted_generated:
  assumes ok: "validate_manifest_contract m purpose = Ok ()" and f: "f \<in> set (fixtures m)"
  shows "is_lowercase_sha256 (fm_sha256 f)"
    "\<exists>!e. e \<in> set (expected_fixtures m) \<and> fixture_of e f \<and> fm_category f = category_of (ef_family e)"
proof -
  have gen: "check_generated m (fixtures m) = Ok ()" using accepted_stages [OF ok] by blast
  note g = check_generated_Ok [OF gen f]
  show "is_lowercase_sha256 (fm_sha256 f)" using g by simp
  obtain e where e: "e \<in> set (expected_fixtures m)" "fixture_of e f" using g by (auto simp: fixture_of_def)
  obtain e' where e': "e' \<in> set (expected_fixtures m)" "ef_fixture_id e' = canonical_id (fm_prompt_id f) (fm_oracle f)"
    "fm_category f = category_of (ef_family e')" using g by blast
  have "ef_fixture_id e = ef_fixture_id e'"
    using accepted_expected(3) [OF ok e(1)] e(2) e'(2) by (simp add: expected_ok_def fixture_of_def)
  then have same: "e = e'" using accepted_expected(1) [OF ok] e(1) e'(1) by (simp add: distinct_map inj_on_def)
  show "\<exists>!e. e \<in> set (expected_fixtures m) \<and> fixture_of e f \<and> fm_category f = category_of (ef_family e)"
  proof (rule ex1I [of _ e])
    show "e \<in> set (expected_fixtures m) \<and> fixture_of e f \<and> fm_category f = category_of (ef_family e)"
      using e e'(3) same by simp
    show "y = e" if "y \<in> set (expected_fixtures m) \<and> fixture_of y f \<and> fm_category f = category_of (ef_family y)" for y
      by (rule accepted_same_id [OF ok _ e(1)]) (use that e(2) in \<open>simp_all add: fixture_of_def\<close>)
  qed
qed

lemma accepted_calibrated:
  assumes ok: "validate_manifest_contract m purpose = Ok ()" and c: "c \<in> set (calibrated_fixtures m)"
  shows "\<exists>e \<in> set (expected_fixtures m). ef_fixture_id e = c \<and> valid_baseline e \<and> (\<exists>f \<in> set (fixtures m). fixture_of e f)"
proof -
  have cal: "check_calibrated m {} (calibrated_fixtures m) = Ok ()" using accepted_stages [OF ok] by blast
  obtain e f where e: "e \<in> set (expected_fixtures m)" "ef_fixture_id e = c" "ef_oracle_role e = Baseline"
    and f: "f \<in> set (fixtures m)" "fm_prompt_id f = ef_prompt_id e" "fm_oracle f = ef_oracle e"
    using check_calibrated_Ok [OF cal] c by blast
  have "valid_baseline e" using accepted_expected(3) [OF ok e(1)] e(3) by (auto simp: expected_ok_def valid_reference_def)
  moreover obtain e' where e': "e' \<in> set (expected_fixtures m)" "fixture_of e' f" using accepted_generated(2) [OF ok f(1)] by blast
  then have "e' = e" using accepted_same_id [OF ok e'(1) e(1)] f by (simp add: fixture_of_def)
  ultimately show ?thesis using e f(1) e'(2) by blast
qed

lemma check_generated_no_panic:
  "(\<And>e. e \<in> set (expected_fixtures m) \<Longrightarrow> ef_fixture_id e = canonical_id (ef_prompt_id e) (ef_oracle e)) \<Longrightarrow>
     check_generated m fs \<noteq> Panicked"
proof (induction fs)
  case (Cons f fs)
  have "expected_by_id (expected_fixtures m) (canonical_id (fm_prompt_id f) (fm_oracle f)) \<noteq> None"
    if "e \<in> set (expected_fixtures m)" "ef_prompt_id e = fm_prompt_id f" "ef_oracle e = fm_oracle f" for e
    using Cons.prems [OF that(1)] that unfolding expected_by_id_None by (simp add: image_iff) metis
  then show ?case using Cons by (auto simp: bail_if_def list_ex_iff split: option.splits)
qed simp

lemma check_expected_no_panic: "check_expected mo es st \<noteq> Panicked"
  by (induction es arbitrary: st) (auto simp: rbind_Inl_iff check_expected_fixture_def Let_def bail_if_def split: if_splits)

lemma check_roles_no_panic: "check_roles st ps \<noteq> Panicked"
  by (induction ps) (auto simp: rbind_Inl_iff)

lemma check_calibrated_no_panic: "check_calibrated m seen cs \<noteq> Panicked"
  by (induction cs arbitrary: seen) (auto simp: rbind_Inl_iff split: option.splits)

lemma collect_wheels_no_panic: "collect_wheels ws found \<noteq> Panicked"
  by (induction ws arbitrary: found) (auto simp: Let_def)

lemma validate_runtime_no_panic: "validate_runtime_and_kernels m \<noteq> Panicked"
  using collect_wheels_no_panic by (auto simp: validate_runtime_and_kernels_def Let_def rbind_Inl_iff)

lemma validate_head_no_panic: "validate_identity m \<noteq> Panicked" "validate_policy purpose m \<noteq> Panicked"
  "validate_calibration c \<noteq> Panicked"
  by (auto simp: validate_identity_def validate_policy_def validate_calibration_def Let_def rbind_Inl_iff split: manifest_purpose.splits)

section \<open>A manifest\<close>

definition sample_runtime :: runtime_info where
  "sample_runtime = \<lparr>evidence_mode = ''release'', registry_install_mode = ''locked-wheels-only'', pythonhashseed = ''0'',
     cublas_workspace_config = '':4096:8'', python_version = ''3.12.13'', torch_version = ''2.10.0'', torch_cuda_version = ''12.8'',
     transformers_version = ''4.57.6'', vllm_version = ''0.18.1'', xgrammar_version = ''0.2.3'', triton_version = ''3.6.0'',
     cuda_toolkit_version = ''13.2.51'', rustc_version = ''rustc 1.89.0'', nvidia_driver_version = ''595.71'', gpu_name = ''GPU'',
     compute_capability = ''8.9'', os_kernel = ''Linux'', generator_commit = replicate 40 CHR ''1'',
     uv_lock_sha256 = replicate 64 CHR ''2'',
     wheels = map (\<lambda>(name, version). \<lparr>wheel_name = name, wheel_version = version, wheel_filename = name @ ''.whl'',
       wheel_sha256 = replicate 64 CHR ''3''\<rparr>) locked_wheels\<rparr>"

definition sample_kernels :: kernel_paths where
  "sample_kernels = \<lparr>reference_kernel = REFERENCE_KERNEL_PATH, baseline_kernel = BASELINE_KERNEL_PATH,
     candidate_kernel = CANDIDATE_KERNEL_PATH\<rparr>"

definition sample_expected :: "oracle_name \<Rightarrow> oracle_role \<Rightarrow> required_comparison \<Rightarrow> expected_fixture" where
  "sample_expected oracle r c = \<lparr>ef_fixture_id = canonical_id ''r_01'' oracle, ef_prompt_id = ''r_01'', ef_family = Regression,
     ef_model_revision = MODEL_REVISION, ef_dtype = ''bfloat16'', ef_oracle = oracle, ef_oracle_role = r,
     ef_required_comparison = c, ef_filename = canonical_id ''r_01'' oracle @ ''.safetensors''\<rparr>"

definition sample_metadata :: "oracle_name \<Rightarrow> fixture_metadata" where
  "sample_metadata oracle = \<lparr>fm_prompt_id = ''r_01'', fm_category = RegressionPrompt, fm_oracle = oracle, fm_num_tokens = 1,
     fm_logits_dtype = Float32, fm_logits_shape = (0, 0), fm_sha256 = replicate 64 CHR ''4'',
     fm_filename = canonical_id ''r_01'' oracle @ ''.safetensors''\<rparr>"

definition sample_manifest :: golden_manifest where
  "sample_manifest = \<lparr>schema_version = 4, product_version = PRODUCT_VERSION, golden_version = GOLDEN_VERSION,
     manifest_archive = \<lparr>archive_filename = ARCHIVE_FILENAME, archive_sha256 = replicate 64 CHR ''a''\<rparr>,
     generated_at = ''2026-09-04T00:00:00Z'',
     manifest_model = \<lparr>model_id = MODEL_ID, model_revision = MODEL_REVISION, tokenizer_revision = MODEL_REVISION,
       config_sha256 = MODEL_CONFIG_SHA256, tokenizer_sha256 = TOKENIZER_SHA256, weights_sha256 = MODEL_WEIGHTS_SHA256,
       model_arch = ''Qwen3ForCausalLM'', model_dtype = ''bfloat16'', model_vocab_size = 151936\<rparr>,
     manifest_oracle_versions = \<lparr>transformers_oracle = ''4.57.6'', vllm_oracle = ''0.18.1''\<rparr>,
     manifest_runtime = sample_runtime, manifest_kernel_paths = sample_kernels,
     manifest_generation = \<lparr>canonical_max_tokens = 64, regression_max_tokens = 32, generation_temperature = F32_Finite 0,
       attn_implementation = ''sdpa''\<rparr>,
     manifest_policy = \<lparr>policy_version = ''same-prefix-v1'', policy_dtype = ''bfloat16'', policy_kernel = comparison_scope sample_kernels,
       l1_near_tie_max_abs_logit_gap = F32_Finite (1 / 50), l2_atol = F32_Finite (1 / 100), policy_rationale = ''Reviewed'',
       policy_evidence = [''observation'']\<rparr>,
     manifest_calibration = \<lparr>candidate_atol = F32_Finite (1 / 100), observed_max_abs_diff = F32_Finite (1 / 200),
       calibration_factor = F32_Finite 2, calibration_method = ''max''\<rparr>,
     expected_fixtures = [sample_expected Transformers Reference CompareL1, sample_expected Vllm Baseline Calibration],
     fixtures = [sample_metadata Transformers, sample_metadata Vllm],
     calibrated_fixtures = [canonical_id ''r_01'' Vllm]\<rparr>"

lemma sample_identity: "validate_identity sample_manifest = Ok ()"
  by (simp add: validate_identity_def sample_manifest_def MANIFEST_SCHEMA_VERSION_def is_lowercase_sha256_def is_lowercase_hex_def Let_def
      list_all_iff bail_if_def)

lemma sample_wheels: "\<exists>found. collect_wheels (wheels sample_runtime) Map.empty = Ok found
    \<and> list_all (\<lambda>(name, version). map_option wheel_version (found name) = Some version) locked_wheels"
  by (simp add: sample_runtime_def locked_wheels_def to_ascii_lowercase_def ends_with_def is_lowercase_sha256_def
      is_lowercase_hex_def list_all_iff Let_def)

lemma sample_live: "\<not> list_ex forbidden_live_value [''rustc 1.89.0'', ''595.71'', ''GPU'', ''Linux'']"
  by (simp add: forbidden_live_value_def to_ascii_lowercase_def starts_with_def Let_def)

lemma sample_runtime_ok: "validate_runtime_and_kernels sample_manifest = Ok ()"
proof -
  obtain found where f: "collect_wheels (wheels sample_runtime) Map.empty = Ok found"
    "list_all (\<lambda>(name, version). map_option wheel_version (found name) = Some version) locked_wheels"
    using sample_wheels by blast
  have "\<not> list_ex (\<lambda>(name, version). map_option wheel_version (found name) \<noteq> Some version) locked_wheels"
    using f(2) by (simp add: list_all_iff list_ex_iff split_beta)
  then show ?thesis
    using f(1) sample_live
    by (simp add: validate_runtime_and_kernels_def sample_manifest_def Let_def bail_if_def sample_kernels_def)
      (simp add: sample_runtime_def starts_with_def is_lowercase_sha256_def is_lowercase_hex_def list_all_iff)
qed

lemma sample_policy_ok: "validate_policy Authoritative sample_manifest = Ok ()"
  by (simp add: validate_policy_def sample_manifest_def f64_negative_def bail_if_def trim_def is_space_def Let_def)

lemma sample_calibration_ok: "validate_calibration (manifest_calibration sample_manifest) = Ok ()"
  by (simp add: validate_calibration_def sample_manifest_def f64_negative_def bail_if_def trim_def is_space_def f32_le_def f32_eq_def)

lemma sample_ids: "list_all is_id_char ''r_01''" "canonical_id ''r_01'' Transformers \<noteq> canonical_id ''r_01'' Vllm"
  "to_ascii_lowercase (canonical_id ''r_01'' Transformers @ x) = canonical_id ''r_01'' Transformers @ to_ascii_lowercase x"
  "to_ascii_lowercase (canonical_id ''r_01'' Vllm @ x) = canonical_id ''r_01'' Vllm @ to_ascii_lowercase x"
  by (simp_all add: is_id_char_def canonical_id_def oracle_label_def to_ascii_lowercase_def Let_def)

lemma sample_expected_ok: "\<exists>st. check_expected (manifest_model sample_manifest) (expected_fixtures sample_manifest) empty_expected_scan = Ok st
    \<and> es_roles st ''r_01'' = {Reference, Baseline} \<and> es_families st ''r_01'' = {Regression}"
  using sample_ids
  by (simp add: sample_manifest_def check_expected_fixture_def sample_expected_def Let_def bail_if_def valid_reference_def
      valid_baseline_def empty_expected_scan_def MODEL_REVISION_def insert_commute)

lemma sample_manifest_accepted: "validate_manifest_contract sample_manifest Authoritative = Ok ()"
proof -
  obtain st where st: "check_expected (manifest_model sample_manifest) (expected_fixtures sample_manifest) empty_expected_scan = Ok st"
    "es_roles st ''r_01'' = {Reference, Baseline}" "es_families st ''r_01'' = {Regression}"
    using sample_expected_ok by blast
  have roles: "check_roles st (remdups (map ef_prompt_id (expected_fixtures sample_manifest))) = Ok ()"
    by (simp add: sample_manifest_def sample_expected_def st(2,3) bail_if_def)
  have cal: "check_calibrated sample_manifest {} (calibrated_fixtures sample_manifest) = Ok ()"
    using sample_ids(2) by (simp add: sample_manifest_def sample_expected_def sample_metadata_def expected_by_id_def bail_if_def)
  have gen: "check_generated sample_manifest (fixtures sample_manifest) = Ok ()"
    using sample_ids(2) by (simp add: sample_manifest_def sample_expected_def sample_metadata_def expected_by_id_def bail_if_def
        category_of_def is_lowercase_sha256_def is_lowercase_hex_def list_all_iff)
  show ?thesis
    using roles cal gen
    by (simp add: validate_manifest_contract_def sample_identity sample_runtime_ok sample_policy_ok sample_calibration_ok st(1) Let_def)
      (simp add: sample_manifest_def bail_if_def MODEL_REVISION_def sample_metadata_def)
qed

section \<open>The contract\<close>


text \<open>C19: An accepted manifest has canonical, paired fixtures. Expected identifiers are distinct, and file
  names are distinct even when letter case is ignored; every prompt has exactly one reference fixture (by
  Transformers, with the comparison its family requires) and exactly one baseline fixture (by vLLM, for
  calibration), of one family; every generated fixture belongs to exactly one expected fixture, whose
  family fits its category; and the calibrated fixtures are distinct identifiers of baseline fixtures
  that were generated.\<close>

theorem accepted_manifest_paired:
  assumes "validate_manifest_contract m purpose = Ok ()"
  shows "distinct (map ef_fixture_id (expected_fixtures m))
    \<and> distinct (map (\<lambda>e. to_ascii_lowercase (ef_filename e)) (expected_fixtures m))
    \<and> (\<forall>e \<in> set (expected_fixtures m). expected_ok (manifest_model m) e
         \<and> (\<exists>!r. r \<in> set (expected_fixtures m) \<and> ef_prompt_id r = ef_prompt_id e \<and> valid_reference r)
         \<and> (\<exists>!b. b \<in> set (expected_fixtures m) \<and> ef_prompt_id b = ef_prompt_id e \<and> valid_baseline b)
         \<and> (\<forall>e' \<in> set (expected_fixtures m). ef_prompt_id e' = ef_prompt_id e \<longrightarrow> ef_family e' = ef_family e))
    \<and> distinct (map (\<lambda>f. (fm_prompt_id f, fm_oracle f)) (fixtures m))
    \<and> (\<forall>f \<in> set (fixtures m). is_lowercase_sha256 (fm_sha256 f)
         \<and> (\<exists>!e. e \<in> set (expected_fixtures m) \<and> fixture_of e f \<and> fm_category f = category_of (ef_family e)))
    \<and> distinct (calibrated_fixtures m)
    \<and> (\<forall>c \<in> set (calibrated_fixtures m). \<exists>e \<in> set (expected_fixtures m).
         ef_fixture_id e = c \<and> valid_baseline e \<and> (\<exists>f \<in> set (fixtures m). fixture_of e f))"
proof -
  have "check_calibrated m {} (calibrated_fixtures m) = Ok ()" and d: "distinct (map (\<lambda>f. (fm_prompt_id f, fm_oracle f)) (fixtures m))"
    using accepted_stages [OF assms] by blast+
  then have c: "distinct (calibrated_fixtures m)" using check_calibrated_Ok by blast
  show ?thesis
    by (intro conjI ballI impI; (rule accepted_expected [OF assms] accepted_prompt [OF assms] accepted_generated [OF assms]
      accepted_calibrated [OF assms] c d; assumption)?)
qed

theorem accepted_manifest_paired_witness:
  "\<exists>!b. b \<in> set (expected_fixtures sample_manifest) \<and> ef_prompt_id b = ''r_01'' \<and> valid_baseline b"
proof -
  have "sample_expected Transformers Reference CompareL1 \<in> set (expected_fixtures sample_manifest)"
    by (simp add: sample_manifest_def)
  with accepted_manifest_paired [OF sample_manifest_accepted]
  have "\<exists>!b. b \<in> set (expected_fixtures sample_manifest)
      \<and> ef_prompt_id b = ef_prompt_id (sample_expected Transformers Reference CompareL1) \<and> valid_baseline b"
    by blast
  then show ?thesis by (simp add: sample_expected_def)
qed

end
