(* ===== verification/Golden_Prompts.thy ===== *)
theory Golden_Prompts
  imports Golden_Types
begin

text \<open>
  \<^verbatim>\<open>prompts.rs\<close> of the crate \<^verbatim>\<open>vllm-oxide-test\<close>: the prompt corpora, flattened into one entry per
  fixture identifier. The JSON parser and the file reads are parameters; a hash map is an association
  list with distinct keys, whose order is not observable.
\<close>

record prompt_entry =
  pe_id :: string
  pe_family :: fixture_family
  pe_prompt :: string

record corpus_prompt =
  cp_id :: string
  cp_category :: prompt_category
  cp_prompt :: string
  cp_sub_prompts :: "string list option"

datatype prompts_error =
    CorpusMissing string
  | CorpusRead string
  | CorpusParse string
  | BatchShape string
  | BatchTooLong string
  | DuplicatePrompt string
  | MissingFamily fixture_family

type_synonym prompt_map = "(string \<times> prompt_entry) list"

text \<open>\<^verbatim>\<open>str::lines\<close>: a final line terminator does not start another line.\<close>

definition text_lines :: "string \<Rightarrow> string list" where
  "text_lines s = (let parts = split_on (CHR 0x0A) s in
     map (\<lambda>l. if l \<noteq> [] \<and> last l = CHR 0x0D then butlast l else l)
       (if last parts = [] then butlast parts else parts))"

fun parse_lines :: "(string \<Rightarrow> (string, corpus_prompt) outcome) \<Rightarrow> string list \<Rightarrow> (prompts_error, corpus_prompt list) outcome" where
  "parse_lines parse [] = Ok []"
| "parse_lines parse (l # ls) =
     (let line = trim l in
      if line = [] then parse_lines parse ls
      else rbind (map_err CorpusParse (parse line)) (\<lambda>entry.
           rbind (parse_lines parse ls) (\<lambda>entries. Ok (entry # entries))))"

definition load_jsonl ::
    "(string \<Rightarrow> (string, corpus_prompt) outcome) \<Rightarrow> (string, string) outcome \<Rightarrow> (prompts_error, corpus_prompt list) outcome" where
  "load_jsonl parse content = rbind (map_err CorpusRead content) (\<lambda>c. parse_lines parse (text_lines c))"

definition insert_prompt :: "prompt_map \<Rightarrow> prompt_entry \<Rightarrow> (prompts_error, prompt_map) outcome" where
  "insert_prompt m p =
     (if map_of m (pe_id p) \<noteq> None then Error (DuplicatePrompt (pe_id p)) else Ok (m @ [(pe_id p, p)]))"

fun insert_batch :: "string \<Rightarrow> nat \<Rightarrow> string list \<Rightarrow> prompt_map \<Rightarrow> (prompts_error, prompt_map) outcome" where
  "insert_batch rid i [] m = Ok m"
| "insert_batch rid i (prompt # rest) m =
     (if 26 \<le> i then Error (BatchTooLong rid)
      else rbind (insert_prompt m \<lparr>pe_id = rid @ [char_of (97 + i)], pe_family = Batch, pe_prompt = prompt\<rparr>)
             (insert_batch rid (Suc i) rest))"

definition insert_corpus_prompt :: "corpus_prompt \<Rightarrow> prompt_map \<Rightarrow> (prompts_error, prompt_map) outcome" where
  "insert_corpus_prompt raw m =
     (case cp_sub_prompts raw of
        Some sub_prompts \<Rightarrow>
          if cp_category raw \<noteq> CanonicalPrompt \<or> length sub_prompts < 2 then Error (BatchShape (cp_id raw))
          else insert_batch (cp_id raw) 0 sub_prompts m
      | None \<Rightarrow> insert_prompt m \<lparr>pe_id = cp_id raw,
          pe_family = (case cp_category raw of CanonicalPrompt \<Rightarrow> Canonical | RegressionPrompt \<Rightarrow> Regression),
          pe_prompt = cp_prompt raw\<rparr>)"

fun insert_corpus :: "corpus_prompt list \<Rightarrow> prompt_map \<Rightarrow> (prompts_error, prompt_map) outcome" where
  "insert_corpus [] m = Ok m"
| "insert_corpus (raw # rest) m = rbind (insert_corpus_prompt raw m) (insert_corpus rest)"

fun require_families :: "fixture_family list \<Rightarrow> prompt_map \<Rightarrow> (prompts_error, unit) outcome" where
  "require_families [] m = Ok ()"
| "require_families (f # fs) m =
     (if f \<notin> set (map (\<lambda>(_, p). pe_family p) m) then Error (MissingFamily f) else require_families fs m)"

text \<open>Whether each corpus file exists, and what reading it returns.\<close>

record corpus_io =
  co_exists :: "string \<Rightarrow> bool"
  co_read :: "string \<Rightarrow> (string, string) outcome"
  co_parse :: "string \<Rightarrow> (string, corpus_prompt) outcome"

definition load_all_prompts :: "corpus_io \<Rightarrow> string \<Rightarrow> (prompts_error, prompt_map) outcome" where
  "load_all_prompts io dir =
     (let canonical = path_join dir ''canonical.jsonl''; regression = path_join dir ''regression.jsonl'' in
      if \<not> co_exists io canonical then Error (CorpusMissing canonical)
      else if \<not> co_exists io regression then Error (CorpusMissing regression)
      else rbind (load_jsonl (co_parse io) (co_read io canonical)) (\<lambda>cs.
           rbind (load_jsonl (co_parse io) (co_read io regression)) (\<lambda>rs.
           rbind (insert_corpus (cs @ rs) []) (\<lambda>m.
           rbind (require_families [Canonical, Batch, Regression] m) (\<lambda>_. Ok m)))))"

definition load_canonical_prompts :: "corpus_io \<Rightarrow> string \<Rightarrow> (prompts_error, prompt_map) outcome" where
  "load_canonical_prompts io dir =
     rbind (load_all_prompts io dir) (\<lambda>m. Ok (filter (\<lambda>(_, p). pe_family p \<noteq> Regression) m))"

section \<open>The flattened corpus\<close>

definition prompts_wf :: "prompt_map \<Rightarrow> bool" where
  "prompts_wf m \<longleftrightarrow> distinct (map fst m) \<and> (\<forall>(k, p) \<in> set m. k = pe_id p)"

text \<open>The entries of a corpus line, in order.\<close>

definition flatten_prompt :: "corpus_prompt \<Rightarrow> prompt_entry list" where
  "flatten_prompt raw = (case cp_sub_prompts raw of
     Some sub_prompts \<Rightarrow> map (\<lambda>(i, prompt). \<lparr>pe_id = cp_id raw @ [char_of (97 + i)], pe_family = Batch, pe_prompt = prompt\<rparr>)
       (enumerate 0 sub_prompts)
   | None \<Rightarrow> [\<lparr>pe_id = cp_id raw, pe_family = (case cp_category raw of CanonicalPrompt \<Rightarrow> Canonical | RegressionPrompt \<Rightarrow> Regression),
       pe_prompt = cp_prompt raw\<rparr>])"

definition keyed :: "prompt_entry list \<Rightarrow> prompt_map" where
  "keyed ps = map (\<lambda>p. (pe_id p, p)) ps"

lemma insert_prompt_Ok_iff:
  "insert_prompt m p = Ok m' \<longleftrightarrow> pe_id p \<notin> fst ` set m \<and> m' = m @ keyed [p]"
  by (auto simp: insert_prompt_def keyed_def map_of_eq_None_iff)

lemma keyed_simps [simp]: "keyed [] = []" "keyed (p # ps) = (pe_id p, p) # keyed ps" "keyed (ps @ qs) = keyed ps @ keyed qs"
  "map fst (keyed ps) = map pe_id ps" "fst ` set (keyed ps) = pe_id ` set ps"
  by (auto simp: keyed_def image_iff)

lemma insert_batch_Ok:
  "insert_batch rid i ps m = Ok m' \<Longrightarrow> distinct (map fst m) \<Longrightarrow>
     m' = m @ keyed (map (\<lambda>(i, prompt). \<lparr>pe_id = rid @ [char_of (97 + i)], pe_family = Batch, pe_prompt = prompt\<rparr>) (enumerate i ps))
     \<and> distinct (map fst m')"
proof (induction ps arbitrary: i m)
  case (Cons p ps)
  from Cons.prems(1) obtain m1 where
    m1: "insert_prompt m \<lparr>pe_id = rid @ [char_of (97 + i)], pe_family = Batch, pe_prompt = p\<rparr> = Ok m1"
    "insert_batch rid (Suc i) ps m1 = Ok m'"
    by (auto simp: rbind_Ok_iff split: if_splits)
  then have "distinct (map fst m1)" using Cons.prems(2) by (auto simp: insert_prompt_Ok_iff)
  note ih = Cons.IH [OF m1(2) this]
  show ?case
    by (intro conjI conjunct2 [OF ih]) (use conjunct1 [OF ih] m1(1) in \<open>simp add: insert_prompt_Ok_iff\<close>)
qed simp

lemma insert_corpus_prompt_Ok:
  "insert_corpus_prompt raw m = Ok m' \<Longrightarrow> distinct (map fst m) \<Longrightarrow>
     m' = m @ keyed (flatten_prompt raw) \<and> distinct (map fst m')
     \<and> (\<forall>subs. cp_sub_prompts raw = Some subs \<longrightarrow> cp_category raw = CanonicalPrompt \<and> 2 \<le> length subs)"
  using insert_batch_Ok [of "cp_id raw" 0 _ m m']
  by (auto simp: insert_corpus_prompt_def flatten_prompt_def insert_prompt_Ok_iff split: option.splits if_splits)

lemma insert_corpus_Ok:
  "insert_corpus raws m = Ok m' \<Longrightarrow> distinct (map fst m) \<Longrightarrow>
     m' = m @ keyed (concat (map flatten_prompt raws)) \<and> distinct (map fst m')"
proof (induction raws arbitrary: m)
  case (Cons raw raws)
  then obtain m1 where m1: "insert_corpus_prompt raw m = Ok m1" "insert_corpus raws m1 = Ok m'" by (auto simp: rbind_Ok_iff)
  have one: "m1 = m @ keyed (flatten_prompt raw)" "distinct (map fst m1)"
    using insert_corpus_prompt_Ok [OF m1(1) Cons.prems(2)] by blast+
  note ih = Cons.IH [OF m1(2) one(2)]
  show ?case by (intro conjI conjunct2 [OF ih]) (use conjunct1 [OF ih] in \<open>simp add: one(1)\<close>)
qed simp

lemma require_families_Ok_iff:
  "require_families fs m = Ok () \<longleftrightarrow> (\<forall>f \<in> set fs. \<exists>(k, p) \<in> set m. pe_family p = f)"
  by (induction fs) (auto simp: image_iff)

lemma load_all_prompts_Ok:
  assumes "load_all_prompts io dir = Ok m"
  shows "prompts_wf m" "\<exists>(k, p) \<in> set m. pe_family p = f"
    "\<exists>cs rs. load_jsonl (co_parse io) (co_read io (path_join dir ''canonical.jsonl'')) = Ok cs
       \<and> load_jsonl (co_parse io) (co_read io (path_join dir ''regression.jsonl'')) = Ok rs
       \<and> m = keyed (concat (map flatten_prompt (cs @ rs)))"
proof -
  obtain cs rs where c: "load_jsonl (co_parse io) (co_read io (path_join dir ''canonical.jsonl'')) = Ok cs"
    "load_jsonl (co_parse io) (co_read io (path_join dir ''regression.jsonl'')) = Ok rs"
    "insert_corpus (cs @ rs) [] = Ok m" "require_families [Canonical, Batch, Regression] m = Ok ()"
    using assms by (auto simp: load_all_prompts_def Let_def rbind_Ok_iff split: if_splits)
  have r: "m = [] @ keyed (concat (map flatten_prompt (cs @ rs))) \<and> distinct (map fst m)"
    by (rule insert_corpus_Ok [OF c(3)]) simp
  then have m: "m = keyed (concat (map flatten_prompt (cs @ rs)))" "distinct (map fst m)" unfolding append_Nil by blast+
  have "k = pe_id p" if "(k, p) \<in> set m" for k p using that unfolding m(1) keyed_def by auto
  then show "prompts_wf m" using m(2) by (auto simp: prompts_wf_def)
  show "\<exists>(k, p) \<in> set m. pe_family p = f" using c(4) unfolding require_families_Ok_iff by (cases f) auto
  show "\<exists>cs rs. load_jsonl (co_parse io) (co_read io (path_join dir ''canonical.jsonl'')) = Ok cs
       \<and> load_jsonl (co_parse io) (co_read io (path_join dir ''regression.jsonl'')) = Ok rs
       \<and> m = keyed (concat (map flatten_prompt (cs @ rs)))"
    using c(1,2) m(1) by blast
qed

end
