(* ===== verification/Capture_Protocol.thy ===== *)
theory Capture_Protocol
  imports Golden_Types Scheduler
begin

text \<open>
  The wire format between \<^verbatim>\<open>golden_capture.rs\<close>, which writes the logits of a diagnostic call, and
  \<^verbatim>\<open>capture.rs\<close> of the crate \<^verbatim>\<open>vllm-oxide-test\<close>, which reads them back. Here is the consumer, with
  the exact set of artifacts it accepts. A line is a value of an arbitrary type; the JSON parser is a
  parameter.
\<close>

datatype capture_error =
    ReadFailed string
  | ParseFailed string
  | NotRegularFile
  | NotCallerPrivate
  | EmptyArtifact
  | StaleHeader
  | MissingHeader
  | RequestCountMismatch
  | BadBindings
  | RowAfterTrailer
  | RowIndexMismatch nat
  | RowOrder
  | AdditionalPosition nat
  | StaleRequest nat
  | CompletionGap nat
  | AdditionalRow
  | TokenDisagrees
  | InvalidRow
  | WidthChanged
  | DuplicateTrailer
  | AdditionalHeader
  | MissingTrailer
  | InvalidTrailer
  | MissingRows nat

section \<open>The artifact\<close>

record request_binding =
  rb_input_position :: nat
  rb_request_id :: nat

record artifact_row =
  ar_row_index :: nat
  ar_input_position :: nat
  ar_request_id :: nat
  ar_selected_token :: token
  ar_completion_step :: nat
  ar_dtype :: string
  ar_row_shape :: nat
  ar_logits :: "f32 list"

record artifact_trailer =
  at_complete :: bool
  at_row_count :: nat
  at_dtype :: string
  at_tensor_shape :: "nat \<times> nat"

datatype artifact_line =
    Header string nat string "request_binding list"
  | Row artifact_row
  | Trailer artifact_trailer

definition FORMAT_NAME :: string where "FORMAT_NAME = ''vllm-oxide-internal-golden-jsonl-v1''"
definition CAPTURE_SCHEMA_VERSION :: nat where "CAPTURE_SCHEMA_VERSION = 1"
definition LOGITS_DTYPE :: string where "LOGITS_DTYPE = ''F32''"

record captured_generation =
  cap_logits :: "f32 list"
  cap_tensor_shape :: "nat \<times> nat"
  cap_tokens_by_input :: "token list list"

section \<open>The consumer\<close>

definition ok_or_err :: "'e \<Rightarrow> 'a option \<Rightarrow> ('e, 'a) outcome" where
  "ok_or_err e x = (case x of None \<Rightarrow> Error e | Some v \<Rightarrow> Ok v)"

fun check_bindings :: "nat \<Rightarrow> nat set \<Rightarrow> (request_binding \<times> request_output) list \<Rightarrow> (capture_error, unit) outcome" where
  "check_bindings i seen [] = Ok ()"
| "check_bindings i seen ((b, out) # rest) =
     (if rb_input_position b \<noteq> i \<or> rb_request_id b \<noteq> out_request_id out \<or> \<not> out_finished out
         \<or> rb_request_id b \<in> seen
      then Error BadBindings
      else check_bindings (Suc i) (insert (rb_request_id b) seen) rest)"

definition validate_bindings :: "request_binding list \<Rightarrow> request_output list \<Rightarrow> (capture_error, unit) outcome" where
  "validate_bindings bindings outputs =
     (if length bindings \<noteq> length outputs then Error RequestCountMismatch
      else check_bindings 0 {} (zip bindings outputs))"

record consumer_state =
  cn_steps :: "nat list"
  cn_tokens :: "token list list"
  cn_logits :: "f32 list"
  cn_row_count :: nat
  cn_vocab :: "nat option"
  cn_last :: "nat option"
  cn_trailer :: "artifact_trailer option"

definition consumer_start :: "nat \<Rightarrow> consumer_state" where
  "consumer_start n = \<lparr>cn_steps = replicate n 0, cn_tokens = replicate n [], cn_logits = [], cn_row_count = 0,
     cn_vocab = None, cn_last = None, cn_trailer = None\<rparr>"

definition consume_row ::
    "request_binding list \<Rightarrow> request_output list \<Rightarrow> artifact_row \<Rightarrow> consumer_state \<Rightarrow> (capture_error, consumer_state) outcome" where
  "consume_row bindings outputs r st =
     (let p = ar_input_position r in
      if cn_trailer st \<noteq> None then Error RowAfterTrailer
      else if ar_row_index r \<noteq> cn_row_count st then Error (RowIndexMismatch (ar_row_index r))
      else if (case cn_last st of Some previous \<Rightarrow> p < previous | None \<Rightarrow> False) then Error RowOrder
      else if length bindings \<le> p then Error (AdditionalPosition p)
      else if ar_request_id r \<noteq> rb_request_id (bindings ! p) then Error (StaleRequest (ar_request_id r))
      else rbind (index (cn_steps st) p) (\<lambda>expected_step.
        if ar_completion_step r \<noteq> expected_step then Error (CompletionGap (ar_completion_step r))
        else rbind (index outputs p) (\<lambda>out.
          if length (out_token_ids out) \<le> ar_completion_step r then Error AdditionalRow
          else if ar_selected_token r \<noteq> out_token_ids out ! ar_completion_step r then Error TokenDisagrees
          else if ar_dtype r \<noteq> LOGITS_DTYPE \<or> ar_row_shape r = 0 \<or> ar_row_shape r \<noteq> length (ar_logits r)
                  \<or> list_ex (\<lambda>v. \<not> f32_is_finite v) (ar_logits r) then Error InvalidRow
          else if (case cn_vocab st of Some width \<Rightarrow> width \<noteq> ar_row_shape r | None \<Rightarrow> False) then Error WidthChanged
          else Ok (st\<lparr>cn_last := Some p, cn_vocab := Some (ar_row_shape r),
                     cn_logits := cn_logits st @ ar_logits r,
                     cn_tokens := (cn_tokens st)[p := cn_tokens st ! p @ [ar_selected_token r]],
                     cn_steps := (cn_steps st)[p := expected_step + 1],
                     cn_row_count := cn_row_count st + 1\<rparr>))))"

definition consume_parsed ::
    "request_binding list \<Rightarrow> request_output list \<Rightarrow> artifact_line \<Rightarrow> consumer_state \<Rightarrow> (capture_error, consumer_state) outcome" where
  "consume_parsed bindings outputs line st =
     (case line of
        Row r \<Rightarrow> consume_row bindings outputs r st
      | Trailer t \<Rightarrow> if cn_trailer st \<noteq> None then Error DuplicateTrailer else Ok (st\<lparr>cn_trailer := Some t\<rparr>)
      | Header _ _ _ _ \<Rightarrow> Error AdditionalHeader)"

text \<open>\<^verbatim>\<open>reader.lines()\<close> yields a line or an I/O error; each line is parsed when it is reached.\<close>

definition read_line ::
    "('l \<Rightarrow> (string, artifact_line) outcome) \<Rightarrow> (string, 'l) outcome \<Rightarrow> (capture_error, artifact_line) outcome" where
  "read_line parse l = rbind (map_err ReadFailed l) (\<lambda>text. map_err ParseFailed (parse text))"

fun consume_lines ::
    "('l \<Rightarrow> (string, artifact_line) outcome) \<Rightarrow> request_binding list \<Rightarrow> request_output list
       \<Rightarrow> (string, 'l) outcome list \<Rightarrow> consumer_state \<Rightarrow> (capture_error, consumer_state) outcome" where
  "consume_lines parse bindings outputs [] st = Ok st"
| "consume_lines parse bindings outputs (l # ls) st =
     rbind (read_line parse l) (\<lambda>line.
     rbind (consume_parsed bindings outputs line st) (consume_lines parse bindings outputs ls))"

text \<open>The last loop: every output's tokens were captured.\<close>

fun check_complete :: "token list list \<Rightarrow> nat \<Rightarrow> request_output list \<Rightarrow> (capture_error, unit) outcome" where
  "check_complete tokens i [] = Ok ()"
| "check_complete tokens i (out # outs) =
     rbind (index tokens i) (\<lambda>ts. if ts \<noteq> out_token_ids out then Error (MissingRows i)
       else check_complete tokens (Suc i) outs)"

text \<open>What the file system says of the destination: a regular file that is not a symbolic link, and
  its permission bits.\<close>

record file_meta =
  meta_regular :: bool
  meta_mode :: nat

definition read_and_validate_capture ::
    "('l \<Rightarrow> (string, artifact_line) outcome) \<Rightarrow> (string, file_meta) outcome \<Rightarrow> (string, 'l) outcome list
       \<Rightarrow> string \<Rightarrow> request_output list \<Rightarrow> (capture_error, captured_generation) outcome" where
  "read_and_validate_capture parse meta lines call_id outputs =
     rbind (map_err ReadFailed meta) (\<lambda>m.
     if \<not> meta_regular m then Error NotRegularFile
     else if meta_mode m mod 64 \<noteq> 0 then Error NotCallerPrivate
     else case lines of [] \<Rightarrow> Error EmptyArtifact | l # ls \<Rightarrow>
     rbind (read_line parse l) (\<lambda>first.
     rbind (case first of
              Header format version cid requests \<Rightarrow>
                if format \<noteq> FORMAT_NAME \<or> version \<noteq> CAPTURE_SCHEMA_VERSION \<or> cid \<noteq> call_id
                then Error StaleHeader else Ok requests
            | _ \<Rightarrow> Error MissingHeader) (\<lambda>bindings.
     rbind (validate_bindings bindings outputs) (\<lambda>_.
     rbind (consume_lines parse bindings outputs ls (consumer_start (length bindings))) (\<lambda>st.
     rbind (ok_or_err MissingTrailer (cn_trailer st)) (\<lambda>t.
     let vocab = (case cn_vocab st of None \<Rightarrow> 0 | Some v \<Rightarrow> v) in
     if \<not> at_complete t \<or> at_row_count t \<noteq> cn_row_count st \<or> at_dtype t \<noteq> LOGITS_DTYPE
        \<or> at_tensor_shape t \<noteq> (cn_row_count st, vocab)
        \<or> length (cn_logits st) \<noteq> saturating_mul (cn_row_count st) vocab
     then Error InvalidTrailer
     else rbind (check_complete (cn_tokens st) 0 outputs) (\<lambda>_.
     Ok \<lparr>cap_logits = cn_logits st, cap_tensor_shape = (cn_row_count st, vocab),
         cap_tokens_by_input = cn_tokens st\<rparr>)))))))"

section \<open>The artifacts of the protocol\<close>

text \<open>A capture as a value: for each input position the selected tokens with their rows of logits, in
  completion order.\<close>

type_synonym capture_rows = "nat \<Rightarrow> (token \<times> f32 list) list"

definition flat_rows :: "capture_rows \<Rightarrow> nat \<Rightarrow> (nat \<times> nat \<times> token \<times> f32 list) list" where
  "flat_rows L n = concat (map (\<lambda>p. map (Pair p) (enumerate 0 (L p))) [0..<n])"

definition row_line :: "(nat \<Rightarrow> nat) \<Rightarrow> nat \<times> nat \<times> nat \<times> token \<times> f32 list \<Rightarrow> artifact_line" where
  "row_line rid = (\<lambda>(i, p, k, t, ls). Row \<lparr>ar_row_index = i, ar_input_position = p, ar_request_id = rid p,
     ar_selected_token = t, ar_completion_step = k, ar_dtype = LOGITS_DTYPE, ar_row_shape = length ls, ar_logits = ls\<rparr>)"

definition row_lines :: "(nat \<Rightarrow> nat) \<Rightarrow> capture_rows \<Rightarrow> nat \<Rightarrow> artifact_line list" where
  "row_lines rid L n = map (row_line rid) (enumerate 0 (flat_rows L n))"

definition bindings_of :: "nat list \<Rightarrow> request_binding list" where
  "bindings_of ids = map (\<lambda>(i, rid). \<lparr>rb_input_position = i, rb_request_id = rid\<rparr>) (enumerate 0 ids)"

definition capture_artifact :: "string \<Rightarrow> nat list \<Rightarrow> capture_rows \<Rightarrow> nat \<Rightarrow> artifact_line list" where
  "capture_artifact call_id ids L vocab =
     Header FORMAT_NAME CAPTURE_SCHEMA_VERSION call_id (bindings_of ids)
     # row_lines ((!) ids) L (length ids)
     @ [Trailer \<lparr>at_complete = True, at_row_count = length (flat_rows L (length ids)), at_dtype = LOGITS_DTYPE,
          at_tensor_shape = (length (flat_rows L (length ids)), vocab)\<rparr>]"

definition rows_wf :: "capture_rows \<Rightarrow> nat \<Rightarrow> nat \<Rightarrow> bool" where
  "rows_wf L n vocab \<longleftrightarrow> (\<forall>p < n. \<forall>(t, ls) \<in> set (L p). length ls = vocab \<and> 0 < vocab \<and> list_all f32_is_finite ls)
     \<and> (flat_rows L n = [] \<longrightarrow> vocab = 0)"

definition captured_of :: "capture_rows \<Rightarrow> nat \<Rightarrow> nat \<Rightarrow> captured_generation" where
  "captured_of L n vocab = \<lparr>cap_logits = concat (map (\<lambda>(p, k, t, ls). ls) (flat_rows L n)),
     cap_tensor_shape = (length (flat_rows L n), vocab), cap_tokens_by_input = map (\<lambda>p. map fst (L p)) [0..<n]\<rparr>"

lemma enumerate_Nil_iff [simp]: "enumerate k xs = [] \<longleftrightarrow> xs = []"
  by (cases xs) simp_all

lemma flat_rows_snoc:
  assumes "p < n" "\<And>q. p < q \<Longrightarrow> q < n \<Longrightarrow> L q = []"
  shows "flat_rows (L(p := L p @ [x])) n = flat_rows L n @ [(p, length (L p), x)]"
proof -
  let ?f = "\<lambda>M p. map (Pair p) (enumerate 0 (M p :: (token \<times> f32 list) list))"
  let ?L = "L(p := L p @ [x])"
  have split: "[0..<n] = [0..<p] @ p # [Suc p..<n]"
    by (metis assms(1) upt_add_eq_append upt_conv_Cons le_add1 less_imp_add_positive add_0 zero_le)
  have "concat (map (?f ?L) [0..<p]) = concat (map (?f L) [0..<p])"
    by (rule arg_cong [of _ _ concat], rule map_cong) auto
  moreover have "concat (map (?f L) [Suc p..<n]) = []" "concat (map (?f ?L) [Suc p..<n]) = []"
    using assms(2) by auto
  moreover have "?f ?L p = ?f L p @ [(p, length (L p), x)]" by (simp add: enumerate_append_eq)
  ultimately show ?thesis by (simp only: flat_rows_def split map_append concat_append list.map concat.simps append_assoc append_Nil2)
qed

lemma flat_rows_empty [simp]: "flat_rows (\<lambda>_. []) n = []"
  by (simp add: flat_rows_def)

lemma flat_rows_Nil_iff: "flat_rows L n = [] \<longleftrightarrow> (\<forall>p < n. L p = [])"
  by (auto simp: flat_rows_def)

lemma in_flat_rows: "(p, k, x) \<in> set (flat_rows L n) \<longleftrightarrow> p < n \<and> k < length (L p) \<and> L p ! k = x"
  by (auto simp: flat_rows_def in_set_enumerate_eq image_iff)

lemma row_lines_snoc:
  assumes "p < n" "\<And>q. p < q \<Longrightarrow> q < n \<Longrightarrow> L q = []"
  shows "row_lines rid (L(p := L p @ [x])) n
    = row_lines rid L n @ [row_line rid (length (flat_rows L n), p, length (L p), x)]"
  using flat_rows_snoc [of p n L x] assms by (simp add: row_lines_def enumerate_append_eq del: fun_upd_apply)

section \<open>What the consumer accepts\<close>

text \<open>The state of the consumer after the rows \<open>L\<close>.\<close>

definition reads :: "request_output list \<Rightarrow> capture_rows \<Rightarrow> consumer_state \<Rightarrow> bool" where
  "reads outputs L st \<longleftrightarrow> (let n = length outputs in
     cn_steps st = map (\<lambda>p. length (L p)) [0..<n] \<and> cn_tokens st = map (\<lambda>p. map fst (L p)) [0..<n]
     \<and> cn_logits st = concat (map (\<lambda>(p, k, t, ls). ls) (flat_rows L n)) \<and> cn_row_count st = length (flat_rows L n)
     \<and> (\<forall>p < n. \<forall>(t, ls) \<in> set (L p). cn_vocab st = Some (length ls) \<and> ls \<noteq> [] \<and> list_all f32_is_finite ls)
     \<and> (cn_vocab st = None \<longleftrightarrow> flat_rows L n = []) \<and> (\<forall>q < n. \<forall>last. cn_last st = Some last \<longrightarrow> last < q \<longrightarrow> L q = [])
     \<and> (cn_last st = None \<longrightarrow> flat_rows L n = [])
     \<and> (\<forall>p < n. \<exists>m. map fst (L p) = take m (out_token_ids (outputs ! p))))"

lemma reads_start: "reads outputs (\<lambda>_. []) (consumer_start (length outputs))"
  by (simp add: reads_def consumer_start_def map_replicate_const)

lemma reads_trailer [simp]: "reads outputs L (st\<lparr>cn_trailer := t\<rparr>) = reads outputs L st"
  by (simp add: reads_def)

lemma map_upd_upt: "p < n \<Longrightarrow> map (\<lambda>q. f ((L(p := v)) q)) [0..<n] = (map (\<lambda>q. f (L q)) [0..<n])[p := f v]"
  by (rule nth_equalityI) (auto simp: nth_list_update)

lemma consume_row_guards:
  assumes ok: "consume_row bindings outputs r st = Ok st'"
  defines "p \<equiv> ar_input_position r"
  shows "cn_trailer st = None" "ar_row_index r = cn_row_count st" "p < length bindings" "p < length outputs"
    "p < length (cn_steps st)" "\<And>l. cn_last st = Some l \<Longrightarrow> l \<le> p" "ar_request_id r = rb_request_id (bindings ! p)"
    "ar_completion_step r = cn_steps st ! p" "ar_completion_step r < length (out_token_ids (outputs ! p))"
    "ar_selected_token r = out_token_ids (outputs ! p) ! ar_completion_step r" "ar_dtype r = LOGITS_DTYPE"
    "ar_row_shape r = length (ar_logits r)" "ar_logits r \<noteq> []" "list_all f32_is_finite (ar_logits r)"
    "\<And>w. cn_vocab st = Some w \<Longrightarrow> w = length (ar_logits r)"
    "st' = st\<lparr>cn_last := Some p, cn_vocab := Some (length (ar_logits r)), cn_logits := cn_logits st @ ar_logits r,
       cn_tokens := (cn_tokens st)[p := cn_tokens st ! p @ [ar_selected_token r]],
       cn_steps := (cn_steps st)[p := cn_steps st ! p + 1], cn_row_count := cn_row_count st + 1\<rparr>"
  using ok unfolding consume_row_def p_def
  by (auto simp: Let_def rbind_Ok_iff index_Ok_iff list_ex_iff list_all_iff not_less split: if_splits option.splits)

lemma consume_row_Ok:
  assumes st: "reads outputs L st" and len: "length bindings = length outputs"
    and ok: "consume_row bindings outputs r st = Ok st'"
  defines "p \<equiv> ar_input_position r"
  shows "p < length outputs" "\<And>q. p < q \<Longrightarrow> q < length outputs \<Longrightarrow> L q = []"
    "Row r = row_line (\<lambda>p. rb_request_id (bindings ! p))
        (length (flat_rows L (length outputs)), p, length (L p), ar_selected_token r, ar_logits r)"
    "cn_trailer st = None \<and> cn_trailer st' = None"
    "reads outputs (L(p := L p @ [(ar_selected_token r, ar_logits r)])) st'"
proof -
  let ?n = "length outputs" and ?x = "(ar_selected_token r, ar_logits r)"
  let ?L = "L(p := L p @ [?x])"
  note g = consume_row_guards [OF ok, folded p_def]
  note r = st [unfolded reads_def Let_def]
  show pn: "p < ?n" by (rule g(4))
  show tail: "L q = []" if "p < q" "q < ?n" for q
  proof (cases "cn_last st")
    case None
    then show ?thesis using r that by (auto simp: flat_rows_Nil_iff)
  next
    case (Some l)
    then show ?thesis using r that g(6) by (meson le_less_trans)
  qed
  have step: "cn_steps st ! p = length (L p)" using r pn by simp
  show "Row r = row_line (\<lambda>p. rb_request_id (bindings ! p)) (length (flat_rows L ?n), p, length (L p), ?x)"
    using g(2,7,8,11,12) r step by (cases r) (simp add: row_line_def p_def)
  show "cn_trailer st = None \<and> cn_trailer st' = None" using g(1) by (simp add: g(16))
  have snoc: "flat_rows ?L ?n = flat_rows L ?n @ [(p, length (L p), ?x)]" by (rule flat_rows_snoc [OF pn]) (rule tail)
  show "reads outputs ?L st'"
    unfolding reads_def Let_def
  proof (intro conjI)
    show "cn_steps st' = map (\<lambda>q. length (?L q)) [0..<?n]" using r step by (simp add: g(16) map_upd_upt [OF pn] del: fun_upd_apply)
    show "cn_tokens st' = map (\<lambda>q. map fst (?L q)) [0..<?n]" using r pn by (simp add: g(16) map_upd_upt [OF pn] del: fun_upd_apply)
    show "cn_logits st' = concat (map (\<lambda>(p, k, t, ls). ls) (flat_rows ?L ?n))" using r by (simp add: g(16) snoc)
    show "cn_row_count st' = length (flat_rows ?L ?n)" using r by (simp add: g(16) snoc)
    have old: "length ls = length (ar_logits r) \<and> ls \<noteq> [] \<and> list_all f32_is_finite ls"
      if "q < ?n" "(t, ls) \<in> set (L q)" for q t ls
      using r that g(15) by fastforce
    show "\<forall>q < ?n. \<forall>(t, ls) \<in> set (?L q). cn_vocab st' = Some (length ls) \<and> ls \<noteq> [] \<and> list_all f32_is_finite ls"
      using old g(13,14) by (auto simp: g(16))
    show "cn_vocab st' = None \<longleftrightarrow> flat_rows ?L ?n = []" by (simp add: g(16) snoc)
    show "\<forall>q < ?n. \<forall>l. cn_last st' = Some l \<longrightarrow> l < q \<longrightarrow> ?L q = []" using tail by (simp add: g(16))
    show "cn_last st' = None \<longrightarrow> flat_rows ?L ?n = []" by (simp add: g(16))
    have "map fst (L p @ [?x]) = take (Suc (length (L p))) (out_token_ids (outputs ! p))"
    proof -
      obtain m where m: "map fst (L p) = take m (out_token_ids (outputs ! p))" using r pn by blast
      have lt: "length (L p) < length (out_token_ids (outputs ! p))" using g(8,9) step by simp
      have "length (L p) = min (length (out_token_ids (outputs ! p))) m" using arg_cong [OF m, of length] by simp
      then have "map fst (L p) = take (length (L p)) (out_token_ids (outputs ! p))" using m lt by simp
      then show ?thesis using g(8,10) step lt by (simp add: take_Suc_conv_app_nth)
    qed
    then show "\<forall>q < ?n. \<exists>m. map fst (?L q) = take m (out_token_ids (outputs ! q))" using r by auto
  qed
qed

lemma consume_row_runs:
  assumes st: "reads outputs L st" and len: "length bindings = length outputs" and t: "cn_trailer st = None"
    and p: "p < length outputs" and tail: "\<And>q. p < q \<Longrightarrow> q < length outputs \<Longrightarrow> L q = []"
    and last: "\<And>l. cn_last st = Some l \<Longrightarrow> l \<le> p"
    and x: "length (L p) < length (out_token_ids (outputs ! p))" "t0 = out_token_ids (outputs ! p) ! length (L p)"
      "ls \<noteq> []" "list_all f32_is_finite ls" "\<And>w. cn_vocab st = Some w \<Longrightarrow> w = length ls"
  shows "\<exists>st'. consume_parsed bindings outputs (row_line (\<lambda>p. rb_request_id (bindings ! p))
        (length (flat_rows L (length outputs)), p, length (L p), t0, ls)) st = Ok st'
    \<and> reads outputs (L(p := L p @ [(t0, ls)])) st' \<and> cn_trailer st' = None \<and> cn_last st' = Some p"
proof -
  let ?r = "\<lparr>ar_row_index = length (flat_rows L (length outputs)), ar_input_position = p,
    ar_request_id = rb_request_id (bindings ! p), ar_selected_token = t0, ar_completion_step = length (L p),
    ar_dtype = LOGITS_DTYPE, ar_row_shape = length ls, ar_logits = ls\<rparr>"
  have "\<exists>st'. consume_row bindings outputs ?r st = Ok st'"
    using st len t p x last
    by (auto simp: consume_row_def reads_def Let_def list_ex_iff list_all_iff not_less split: option.splits)
  then obtain st' where st': "consume_row bindings outputs ?r st = Ok st'" ..
  have "cn_last st' = Some p" using consume_row_guards(16) [OF st'] by simp
  then show ?thesis
    using consume_row_Ok [OF st len st'] st' by (auto simp: consume_parsed_def row_line_def)
qed

lemma consume_lines_parsed:
  "rcollect (read_line parse) ls = Ok ps \<Longrightarrow>
     consume_lines parse bindings outputs ls st = consume_lines Ok bindings outputs (map Ok ps) st"
proof (induction ls arbitrary: ps st)
  case (Cons l ls)
  then obtain q qs where ps: "ps = q # qs" "read_line parse l = Ok q" "rcollect (read_line parse) ls = Ok qs"
    by (auto simp: rbind_Ok_iff)
  have "read_line Ok (Ok q) = Ok q" by (simp add: read_line_def)
  then show ?case
    by (cases "consume_parsed bindings outputs q st") (simp_all add: ps Cons.IH [OF ps(3)])
qed simp

lemma consume_lines_append:
  "consume_lines parse bindings outputs (ls @ ms) st
    = rbind (consume_lines parse bindings outputs ls st) (consume_lines parse bindings outputs ms)"
proof (induction ls arbitrary: st)
  case (Cons l ls)
  then show ?case by (cases "read_line parse l") (auto simp: rbind_def split: sum.splits)
qed simp

text \<open>After the trailer the consumer reads nothing more.\<close>

lemma consume_lines_after_trailer:
  "cn_trailer st \<noteq> None \<Longrightarrow> consume_lines parse bindings outputs ls st = Ok st' \<Longrightarrow> ls = [] \<and> st' = st"
proof (cases ls)
  case (Cons l ls')
  assume t: "cn_trailer st \<noteq> None" and "consume_lines parse bindings outputs ls st = Ok st'"
  then obtain line st1 where "consume_parsed bindings outputs line st = Ok st1" using Cons by (auto simp: rbind_Ok_iff)
  then show ?thesis using t by (cases line) (auto simp: consume_parsed_def consume_row_def Let_def)
qed simp

lemma consume_lines_Ok:
  assumes "length bindings = length outputs" "reads outputs L st" "cn_trailer st = None"
    "consume_lines parse bindings outputs ls st = Ok st'"
  shows "\<exists>M ps. rcollect (read_line parse) ls = Ok ps
    \<and> row_lines (\<lambda>p. rb_request_id (bindings ! p)) L (length outputs) @ ps
      = row_lines (\<lambda>p. rb_request_id (bindings ! p)) M (length outputs) @ (case cn_trailer st' of None \<Rightarrow> [] | Some t \<Rightarrow> [Trailer t])
    \<and> reads outputs M (st'\<lparr>cn_trailer := None\<rparr>)"
  using assms
proof (induction ls arbitrary: L st)
  case Nil
  then show ?case by (intro exI [of _ L] exI [of _ "[]"]) simp
next
  case (Cons l ls)
  obtain line st1 where l: "read_line parse l = Ok line" "consume_parsed bindings outputs line st = Ok st1"
    "consume_lines parse bindings outputs ls st1 = Ok st'"
    using Cons.prems(4) by (auto simp: rbind_Ok_iff)
  show ?case
  proof (cases line)
    case (Row r)
    let ?L = "L(ar_input_position r := L (ar_input_position r) @ [(ar_selected_token r, ar_logits r)])"
    have row: "consume_row bindings outputs r st = Ok st1" using l(2) Row by (simp add: consume_parsed_def)
    note c = consume_row_Ok [OF Cons.prems(2,1) row]
    have "row_lines (\<lambda>p. rb_request_id (bindings ! p)) ?L (length outputs)
        = row_lines (\<lambda>p. rb_request_id (bindings ! p)) L (length outputs) @ [line]"
      unfolding Row c(3) by (rule row_lines_snoc [OF c(1)]) (rule c(2))
    moreover obtain M ps where "rcollect (read_line parse) ls = Ok ps"
      "row_lines (\<lambda>p. rb_request_id (bindings ! p)) ?L (length outputs) @ ps
      = row_lines (\<lambda>p. rb_request_id (bindings ! p)) M (length outputs) @ (case cn_trailer st' of None \<Rightarrow> [] | Some t \<Rightarrow> [Trailer t])"
      "reads outputs M (st'\<lparr>cn_trailer := None\<rparr>)"
      using Cons.IH [OF Cons.prems(1) c(5) conjunct2 [OF c(4)] l(3)] by blast
    ultimately show ?thesis using l(1) by (intro exI [of _ M] exI [of _ "line # ps"]) (simp del: fun_upd_apply)
  next
    case (Trailer t)
    then have st1: "st1 = st\<lparr>cn_trailer := Some t\<rparr>" using l(2) Cons.prems(3) by (simp add: consume_parsed_def)
    then have "ls = []" "st' = st1" using consume_lines_after_trailer [OF _ l(3)] by simp_all
    then show ?thesis using l(1) st1 Trailer Cons.prems(2,3)
      by (intro exI [of _ L] exI [of _ "[line]"]) simp
  qed (use l(2) in \<open>simp add: consume_parsed_def\<close>)
qed

text \<open>Conversely the rows of a capture are consumed one after the other.\<close>

definition upto_row :: "capture_rows \<Rightarrow> nat \<Rightarrow> nat \<Rightarrow> capture_rows" where
  "upto_row L p j = (\<lambda>q. if q < p then L q else if q = p then take j (L p) else [])"

lemma upto_row_simps:
  "upto_row L 0 0 = (\<lambda>_. [])" "upto_row L (Suc p) 0 = upto_row L p (length (L p))"
  "j < length (L p) \<Longrightarrow> upto_row L p (Suc j) = (upto_row L p j)(p := upto_row L p j p @ [L p ! j])"
  "j \<le> length (L p) \<Longrightarrow> length (upto_row L p j p) = j"
  by (auto simp: upto_row_def fun_eq_iff take_Suc_conv_app_nth)

lemma row_lines_cong: "(\<And>p. p < n \<Longrightarrow> rid p = rid' p) \<Longrightarrow> (\<And>p. p < n \<Longrightarrow> L p = M p) \<Longrightarrow> row_lines rid L n = row_lines rid' M n"
proof -
  assume rid: "\<And>p. p < n \<Longrightarrow> rid p = rid' p" and L: "\<And>p. p < n \<Longrightarrow> L p = M p"
  then have flat: "flat_rows L n = flat_rows M n"
    unfolding flat_rows_def by (intro arg_cong [of _ _ concat] map_cong) auto
  have "row_line rid x = row_line rid' x" if "x \<in> set (enumerate 0 (flat_rows M n))" for x
  proof -
    obtain i p k t ls where "x = (i, p, k, t, ls)" by (cases x)
    moreover have "snd x \<in> set (flat_rows M n)" using that by (metis image_eqI list.set_map map_snd_enumerate)
    ultimately show ?thesis using rid by (simp add: in_flat_rows row_line_def)
  qed
  then show ?thesis unfolding row_lines_def flat by (intro map_cong) auto
qed

definition captures :: "request_output list \<Rightarrow> capture_rows \<Rightarrow> nat \<Rightarrow> bool" where
  "captures outputs L vocab \<longleftrightarrow> rows_wf L (length outputs) vocab
     \<and> (\<forall>p < length outputs. map fst (L p) = out_token_ids (outputs ! p))"

definition runs_to :: "request_binding list \<Rightarrow> request_output list \<Rightarrow> capture_rows \<Rightarrow> nat \<Rightarrow> capture_rows \<Rightarrow> bool" where
  "runs_to bindings outputs L p M \<longleftrightarrow> (\<exists>st.
     consume_lines Ok bindings outputs (map Ok (row_lines (\<lambda>p. rb_request_id (bindings ! p)) M (length outputs)))
       (consumer_start (length outputs)) = Ok st
     \<and> reads outputs M st \<and> cn_trailer st = None \<and> (\<forall>l. cn_last st = Some l \<longrightarrow> l \<le> p))"

lemma runs_to_mono: "runs_to bindings outputs L p M \<Longrightarrow> runs_to bindings outputs L (Suc p) M"
  unfolding runs_to_def by (elim exE conjE, intro exI conjI) auto

lemma runs_to_row:
  assumes cap: "captures outputs L v" and len: "length bindings = length outputs"
    and p: "p < length outputs" and j: "j < length (L p)" and run: "runs_to bindings outputs L p (upto_row L p j)"
  shows "runs_to bindings outputs L p (upto_row L p (Suc j))"
proof -
  let ?M = "upto_row L p j" and ?rid = "\<lambda>p. rb_request_id (bindings ! p)" and ?n = "length outputs"
  obtain st where st: "consume_lines Ok bindings outputs (map Ok (row_lines ?rid ?M ?n)) (consumer_start ?n) = Ok st"
    "reads outputs ?M st" "cn_trailer st = None" "\<And>l. cn_last st = Some l \<Longrightarrow> l \<le> p"
    using run by (auto simp: runs_to_def)
  obtain t ls where x: "L p ! j = (t, ls)" by (cases "L p ! j")
  have "L p ! j \<in> set (L p)" using j by (rule nth_mem)
  then have ls: "length ls = v" "0 < v" "list_all f32_is_finite ls"
    using cap p x by (auto simp: captures_def rows_wf_def)
  have M: "length (?M p) = j" "\<And>q. p < q \<Longrightarrow> ?M q = []" using j by (simp_all add: upto_row_def)
  have tok: "map fst (L p) = out_token_ids (outputs ! p)" using cap p by (simp add: captures_def)
  have lt: "length (?M p) < length (out_token_ids (outputs ! p))" using j tok M(1) by (metis length_map)
  have tk: "t = out_token_ids (outputs ! p) ! length (?M p)" using j tok M(1) x by (metis fst_conv nth_map)
  have voc: "w = length ls" if "cn_vocab st = Some w" for w
  proof -
    have "flat_rows ?M ?n \<noteq> []" using st(2) that by (auto simp: reads_def Let_def)
    then obtain q where q: "q < ?n" "?M q \<noteq> []" by (auto simp: flat_rows_Nil_iff)
    then obtain t' ls' where y: "(t', ls') \<in> set (?M q)" by (cases "?M q") auto
    then have "w = length ls'" using st(2) that q(1) by (fastforce simp: reads_def Let_def)
    moreover have "(t', ls') \<in> set (L q)" using y by (auto simp: upto_row_def split: if_splits dest: in_set_takeD)
    then have "length ls' = v" using cap q(1) by (auto simp: captures_def rows_wf_def)
    ultimately show ?thesis using ls(1) by simp
  qed
  have ne: "ls \<noteq> []" using ls by auto
  obtain st' where st': "consume_parsed bindings outputs (row_line ?rid (length (flat_rows ?M ?n), p, length (?M p), t, ls)) st = Ok st'
    \<and> reads outputs (?M(p := ?M p @ [(t, ls)])) st' \<and> cn_trailer st' = None \<and> cn_last st' = Some p"
    using consume_row_runs [OF st(2) len st(3) p M(2) st(4) lt tk ne ls(3) voc] by blast
  have up: "upto_row L p (Suc j) = ?M(p := ?M p @ [(t, ls)])" using upto_row_simps(3) [of j L p, OF j] x by simp
  have lines: "row_lines ?rid (upto_row L p (Suc j)) ?n
      = row_lines ?rid ?M ?n @ [row_line ?rid (length (flat_rows ?M ?n), p, length (?M p), t, ls)]"
    unfolding up by (rule row_lines_snoc [OF p]) (rule M(2))
  show ?thesis
    unfolding runs_to_def lines map_append consume_lines_append st(1)
    using st' by (simp add: up read_line_def del: fun_upd_apply)
qed

lemma runs_to_block:
  assumes "captures outputs L v" "length bindings = length outputs" "p < length outputs"
    and "runs_to bindings outputs L p (upto_row L p 0)"
  shows "j \<le> length (L p) \<Longrightarrow> runs_to bindings outputs L p (upto_row L p j)"
  by (induction j) (use assms runs_to_row in auto)

lemma runs_to_all:
  assumes "captures outputs L v" "length bindings = length outputs"
  shows "p \<le> length outputs \<Longrightarrow> runs_to bindings outputs L p (upto_row L p 0)"
proof (induction p)
  case 0
  show ?case using reads_start [of outputs]
    by (auto simp: runs_to_def upto_row_simps(1) row_lines_def consumer_start_def)
next
  case (Suc p)
  then have "runs_to bindings outputs L p (upto_row L p (length (L p)))"
    using runs_to_block [OF assms, of p "length (L p)"] by simp
  then show ?case unfolding upto_row_simps(2) by (rule runs_to_mono)
qed

lemma consume_capture:
  assumes cap: "captures outputs L v" and len: "length bindings = length outputs"
  shows "\<exists>st. consume_lines Ok bindings outputs (map Ok (row_lines (\<lambda>p. rb_request_id (bindings ! p)) L (length outputs)))
       (consumer_start (length outputs)) = Ok st \<and> reads outputs L st \<and> cn_trailer st = None"
proof -
  let ?M = "upto_row L (length outputs) 0"
  have eq: "?M p = L p" if "p < length outputs" for p using that by (simp add: upto_row_def)
  have lines: "row_lines r ?M (length outputs) = row_lines r L (length outputs)" for r
    by (rule row_lines_cong) (simp_all add: eq)
  have flat: "flat_rows ?M (length outputs) = flat_rows L (length outputs)"
    unfolding flat_rows_def by (intro arg_cong [of _ _ concat] map_cong) (auto simp: eq)
  have "reads outputs ?M st = reads outputs L st" for st
    unfolding reads_def Let_def flat by (auto simp: eq cong: map_cong)
  then show ?thesis using runs_to_all [OF assms, of "length outputs"] by (auto simp: runs_to_def lines)
qed

section \<open>Acceptance\<close>

lemma length_bindings_of [simp]: "length (bindings_of ids) = length ids"
  by (simp add: bindings_of_def)

lemma nth_bindings_of [simp]:
  "i < length ids \<Longrightarrow> bindings_of ids ! i = \<lparr>rb_input_position = i, rb_request_id = ids ! i\<rparr>"
  by (simp add: bindings_of_def nth_enumerate_eq)

lemma check_bindings_Ok_iff:
  "length bs = length outs \<Longrightarrow> check_bindings i seen (zip bs outs) = Ok () \<longleftrightarrow>
     bs = map (\<lambda>(j, rid). \<lparr>rb_input_position = j, rb_request_id = rid\<rparr>) (enumerate i (map out_request_id outs))
     \<and> list_all out_finished outs \<and> distinct (map out_request_id outs)
     \<and> seen \<inter> set (map out_request_id outs) = {}"
proof (induction bs outs arbitrary: i seen rule: list_induct2')
  case (4 b bs out outs)
  have "b = \<lparr>rb_input_position = j, rb_request_id = r\<rparr> \<longleftrightarrow> rb_input_position b = j \<and> rb_request_id b = r" for j r
    by (cases b) auto
  then show ?case using 4 by auto
qed simp_all

lemma validate_bindings_Ok_iff:
  "validate_bindings bs outs = Ok () \<longleftrightarrow> bs = bindings_of (map out_request_id outs)
     \<and> list_all out_finished outs \<and> distinct (map out_request_id outs)"
proof (cases "length bs = length outs")
  case True
  then show ?thesis by (simp add: validate_bindings_def check_bindings_Ok_iff bindings_of_def)
next
  case False
  then have "bs \<noteq> bindings_of (map out_request_id outs)" by (metis length_bindings_of length_map)
  then show ?thesis using False by (simp add: validate_bindings_def)
qed

lemma check_complete_Ok_iff:
  "i + length outs \<le> length tokens \<Longrightarrow>
     check_complete tokens i outs = Ok () \<longleftrightarrow> (\<forall>j < length outs. tokens ! (i + j) = out_token_ids (outs ! j))"
proof (induction outs arbitrary: i)
  case (Cons out outs)
  have "(\<forall>j < length (out # outs). tokens ! (i + j) = out_token_ids ((out # outs) ! j))
    \<longleftrightarrow> tokens ! i = out_token_ids out \<and> (\<forall>j < length outs. tokens ! (Suc i + j) = out_token_ids (outs ! j))"
    by (auto simp: less_Suc_eq_0_disj)
  then show ?case using Cons.IH [of "Suc i"] Cons.prems by simp
qed simp

lemma reads_captures:
  assumes "reads outputs L st" "\<forall>p < length outputs. map fst (L p) = out_token_ids (outputs ! p)"
  shows "captures outputs L (case cn_vocab st of None \<Rightarrow> 0 | Some v \<Rightarrow> v)"
  using assms unfolding captures_def rows_wf_def reads_def Let_def by (fastforce split: option.splits)

lemma captures_vocab:
  assumes "reads outputs L st" "captures outputs L v"
  shows "(case cn_vocab st of None \<Rightarrow> 0 | Some v \<Rightarrow> v) = v"
proof (cases "cn_vocab st")
  case None
  then show ?thesis using assms by (auto simp: reads_def captures_def rows_wf_def Let_def)
next
  case (Some w)
  then have "flat_rows L (length outputs) \<noteq> []" using assms(1) by (auto simp: reads_def Let_def)
  then obtain p where p: "p < length outputs" "L p \<noteq> []" by (auto simp: flat_rows_Nil_iff)
  then obtain t ls where "(t, ls) \<in> set (L p)" by (cases "L p") auto
  then have "w = length ls" "length ls = v" using assms p(1) Some by (fastforce simp: reads_def captures_def rows_wf_def Let_def)+
  then show ?thesis using Some by simp
qed

lemma length_capture_logits:
  assumes "captures outputs L v"
  shows "length (concat (map (\<lambda>(p, k, t, ls). ls) (flat_rows L (length outputs)))) = length (flat_rows L (length outputs)) * v"
proof -
  have "length ls = v" if "(p, k, t, ls) \<in> set (flat_rows L (length outputs))" for p k t ls
  proof -
    have "p < length outputs" "(t, ls) \<in> set (L p)" using that by (auto simp: in_flat_rows) (metis nth_mem)
    then show ?thesis using assms by (fastforce simp: captures_def rows_wf_def)
  qed
  then have "map (length \<circ> (\<lambda>(p, k, t, ls). ls)) (flat_rows L (length outputs)) = map (\<lambda>_. v) (flat_rows L (length outputs))"
    by (intro map_cong) auto
  then show ?thesis by (simp only: length_concat map_map sum_list_triv of_nat_id mult.commute)
qed

lemma bindings_of_rid:
  "n = length ids \<Longrightarrow> row_lines (\<lambda>p. rb_request_id (bindings_of ids ! p)) L n = row_lines ((!) ids) L n"
  by (rule row_lines_cong) simp_all

lemma capture_sound:
  assumes "read_and_validate_capture parse meta lines call_id outputs = Ok cap"
  obtains m L v where "meta = Ok m" "meta_regular m" "meta_mode m mod 64 = 0" "list_all out_finished outputs"
    "distinct (map out_request_id outputs)"
    "rcollect (read_line parse) lines = Ok (capture_artifact call_id (map out_request_id outputs) L v)"
    "captures outputs L v" "length (flat_rows L (length outputs)) * v < usize_bound"
    "cap = captured_of L (length outputs) v"
proof -
  let ?ids = "map out_request_id outputs" and ?n = "length outputs"
  obtain m where m: "meta = Ok m" "meta_regular m" "meta_mode m mod 64 = 0"
    using assms by (cases meta rule: sum.exhaust) (auto simp: read_and_validate_capture_def rbind_Ok_iff split: if_splits)
  obtain l ls where lines: "lines = l # ls"
    using assms m by (cases lines) (simp_all add: read_and_validate_capture_def)
  note call = assms [unfolded read_and_validate_capture_def lines list.case m(1) map_err_simps rbind_simps]
  obtain first bindings st t where f: "read_line parse l = Ok first"
    "(case first of Header format version cid requests \<Rightarrow>
        if format \<noteq> FORMAT_NAME \<or> version \<noteq> CAPTURE_SCHEMA_VERSION \<or> cid \<noteq> call_id then Error StaleHeader else Ok requests
      | _ \<Rightarrow> Error MissingHeader) = Ok bindings"
    and b: "validate_bindings bindings outputs = Ok ()"
    and c: "consume_lines parse bindings outputs ls (consumer_start (length bindings)) = Ok st"
    and t: "cn_trailer st = Some t"
    and d: "at_complete t" "at_row_count t = cn_row_count st" "at_dtype t = LOGITS_DTYPE"
      "at_tensor_shape t = (cn_row_count st, case cn_vocab st of None \<Rightarrow> 0 | Some v \<Rightarrow> v)"
      "length (cn_logits st) = saturating_mul (cn_row_count st) (case cn_vocab st of None \<Rightarrow> 0 | Some v \<Rightarrow> v)"
      "check_complete (cn_tokens st) 0 outputs = Ok ()"
    and cap: "cap = \<lparr>cap_logits = cn_logits st,
      cap_tensor_shape = (cn_row_count st, case cn_vocab st of None \<Rightarrow> 0 | Some v \<Rightarrow> v), cap_tokens_by_input = cn_tokens st\<rparr>"
    using call m(2,3) by (auto simp: rbind_Ok_iff Let_def ok_or_err_def split: if_splits option.splits)
  have first: "first = Header FORMAT_NAME CAPTURE_SCHEMA_VERSION call_id bindings"
    using f(2) by (cases first) (auto split: if_splits)
  have bs: "bindings = bindings_of ?ids" "list_all out_finished outputs" "distinct ?ids"
    using b by (simp_all add: validate_bindings_Ok_iff)
  have len: "length bindings = ?n" by (simp add: bs(1))
  obtain M ps where ps: "rcollect (read_line parse) ls = Ok ps"
    "row_lines (\<lambda>p. rb_request_id (bindings ! p)) (\<lambda>_. []) ?n @ ps
      = row_lines (\<lambda>p. rb_request_id (bindings ! p)) M ?n @ (case cn_trailer st of None \<Rightarrow> [] | Some t \<Rightarrow> [Trailer t])"
    and rd: "reads outputs M (st\<lparr>cn_trailer := None\<rparr>)"
    using consume_lines_Ok [OF len reads_start _ c [unfolded len]] by (auto simp: consumer_start_def)
  have rd: "reads outputs M st" using rd by simp
  note r = rd [unfolded reads_def Let_def]
  have tok: "\<forall>p < ?n. map fst (M p) = out_token_ids (outputs ! p)"
    using d(6) r by (simp add: check_complete_Ok_iff)
  let ?v = "case cn_vocab st of None \<Rightarrow> 0 | Some v \<Rightarrow> v"
  have cs: "captures outputs M ?v" by (rule reads_captures [OF rd tok])
  have cnt: "cn_row_count st = length (flat_rows M ?n)" using r by simp
  have "ps = row_lines ((!) ?ids) M ?n @ [Trailer t]"
    using ps(2) by (simp add: t bs(1) bindings_of_rid) (simp add: row_lines_def)
  moreover have "t = \<lparr>at_complete = True, at_row_count = length (flat_rows M ?n), at_dtype = LOGITS_DTYPE,
      at_tensor_shape = (length (flat_rows M ?n), ?v)\<rparr>"
    using d by (cases t) (simp add: cnt)
  ultimately have art: "rcollect (read_line parse) lines = Ok (capture_artifact call_id ?ids M ?v)"
    using f(1) ps(1) by (simp add: lines capture_artifact_def first bs(1))
  have "length (flat_rows M ?n) * ?v = saturating_mul (length (flat_rows M ?n)) ?v"
    using d(5) length_capture_logits [OF cs] r by simp
  then have bound: "length (flat_rows M ?n) * ?v < usize_bound" by (simp add: saturating_mul_def usize_bound_def)
  have "cap = captured_of M ?n ?v" using r by (simp add: cap captured_of_def)
  then show thesis using that [OF m bs(2,3) art cs bound] by blast
qed

lemma capture_complete:
  assumes m: "meta = Ok m" "meta_regular m" "meta_mode m mod 64 = 0" "list_all out_finished outputs"
    "distinct (map out_request_id outputs)"
    and art: "rcollect (read_line parse) lines = Ok (capture_artifact call_id (map out_request_id outputs) L v)"
    and cs: "captures outputs L v" and bound: "length (flat_rows L (length outputs)) * v < usize_bound"
  shows "read_and_validate_capture parse meta lines call_id outputs = Ok (captured_of L (length outputs) v)"
proof -
  let ?ids = "map out_request_id outputs" and ?n = "length outputs" and ?bs = "bindings_of (map out_request_id outputs)"
  let ?t = "\<lparr>at_complete = True, at_row_count = length (flat_rows L ?n), at_dtype = LOGITS_DTYPE,
      at_tensor_shape = (length (flat_rows L ?n), v)\<rparr>"
  obtain l ls where lines: "lines = l # ls" using art by (cases lines) (simp_all add: capture_artifact_def)
  have l: "read_line parse l = Ok (Header FORMAT_NAME CAPTURE_SCHEMA_VERSION call_id ?bs)"
    "rcollect (read_line parse) ls = Ok (row_lines ((!) ?ids) L ?n @ [Trailer ?t])"
    using art by (auto simp: lines capture_artifact_def rbind_Ok_iff)
  obtain st where st: "consume_lines Ok ?bs outputs (map Ok (row_lines ((!) ?ids) L ?n)) (consumer_start ?n) = Ok st"
    "reads outputs L st" "cn_trailer st = None"
    using consume_capture [OF cs, of ?bs] by (auto simp: bindings_of_rid)
  have c: "consume_lines parse ?bs outputs ls (consumer_start ?n) = Ok (st\<lparr>cn_trailer := Some ?t\<rparr>)"
    unfolding consume_lines_parsed [OF l(2)] map_append consume_lines_append st(1)
    using st(3) by (simp add: read_line_def consume_parsed_def)
  note r = st(2) [unfolded reads_def Let_def]
  have v: "(case cn_vocab st of None \<Rightarrow> 0 | Some v \<Rightarrow> v) = v" by (rule captures_vocab [OF st(2) cs])
  have cnt: "cn_row_count st = length (flat_rows L ?n)" "cn_logits st = concat (map (\<lambda>(p, k, t, ls). ls) (flat_rows L ?n))"
    "cn_tokens st = map (\<lambda>p. map fst (L p)) [0..<?n]" using r by simp_all
  have lg: "length (cn_logits st) = length (flat_rows L ?n) * v" using length_capture_logits [OF cs] by (simp add: cnt)
  have sat: "saturating_mul (length (flat_rows L ?n)) v = length (flat_rows L ?n) * v"
    using bound by (simp add: saturating_mul_def)
  have done': "check_complete (cn_tokens st) 0 outputs = Ok ()"
    using cs by (simp add: cnt check_complete_Ok_iff captures_def)
  have val: "validate_bindings ?bs outputs = Ok ()" using m by (simp add: validate_bindings_Ok_iff)
  show ?thesis
    using m(2,3) by (simp add: read_and_validate_capture_def lines m(1) l(1) val c ok_or_err_def Let_def v cnt(1) lg sat done'
      captured_of_def cnt(2,3) [symmetric])
qed

text \<open>C18: The consumer accepts exactly the artifacts of the protocol. A file is accepted if and only if
  it is a private regular file whose lines are the header with the call's identity and its requests, one
  row for every token of every output in request order and completion order with finite logits of one
  width, and the completion trailer; what is returned are the outputs' tokens and these logits in this
  order.\<close>

theorem capture_accepted_iff:
  "read_and_validate_capture parse meta lines call_id outputs = Ok cap \<longleftrightarrow>
     (\<exists>m. meta = Ok m \<and> meta_regular m \<and> meta_mode m mod 64 = 0)
     \<and> list_all out_finished outputs \<and> distinct (map out_request_id outputs)
     \<and> (\<exists>L v. rcollect (read_line parse) lines = Ok (capture_artifact call_id (map out_request_id outputs) L v)
          \<and> captures outputs L v \<and> length (flat_rows L (length outputs)) * v < usize_bound
          \<and> cap = captured_of L (length outputs) v)"
  using capture_sound [of parse meta lines call_id outputs cap] capture_complete [of meta _ outputs parse lines call_id]
  by metis

end
