(* ===== verification/Golden_Lifecycle.thy ===== *)
theory Golden_Lifecycle
  imports Golden_Fixture Golden_Manifest Golden_Prompts Capture_Protocol
begin

text \<open>
  \<^verbatim>\<open>lifecycle.rs\<close>, \<^verbatim>\<open>driver.rs\<close>, \<^verbatim>\<open>l3.rs\<close> and the verdict of \<^verbatim>\<open>report.rs\<close> of the crate
  \<^verbatim>\<open>vllm-oxide-test\<close>: every expected fixture is tracked from its prompt over its file to its comparison,
  and the release gate passes only when nothing is missing. The directory listing, the file reads and
  the captured generation of a case are parameters. A fixture file is read twice, once for its checksum
  and once by \<open>load_fixture\<close>; the two reads are separate parameters.
\<close>

section \<open>The tracker\<close>

record lifecycle_tracker =
  tk_expected :: "string set"
  tk_discovered :: "string set"
  tk_generated :: "string set"
  tk_compared :: "string set"
  tk_skipped :: "string set"
  tk_failed :: "string set"
  tk_unexpected :: "string set"

definition tracker_new :: "string list \<Rightarrow> lifecycle_tracker" where
  "tracker_new ids = \<lparr>tk_expected = set ids, tk_discovered = {}, tk_generated = {}, tk_compared = {}, tk_skipped = {},
     tk_failed = {}, tk_unexpected = {}\<rparr>"

definition record_discovered :: "string \<Rightarrow> lifecycle_tracker \<Rightarrow> lifecycle_tracker" where
  "record_discovered i t = (if i \<in> tk_expected t then t\<lparr>tk_discovered := insert i (tk_discovered t)\<rparr>
     else t\<lparr>tk_unexpected := insert i (tk_unexpected t)\<rparr>)"

definition record_generated :: "string \<Rightarrow> lifecycle_tracker \<Rightarrow> lifecycle_tracker" where
  "record_generated i t = (if i \<in> tk_expected t then t\<lparr>tk_generated := insert i (tk_generated t)\<rparr>
     else t\<lparr>tk_unexpected := insert i (tk_unexpected t)\<rparr>)"

definition record_compared :: "string \<Rightarrow> lifecycle_tracker \<Rightarrow> lifecycle_tracker" where
  "record_compared i t = (if i \<in> tk_expected t then t\<lparr>tk_compared := insert i (tk_compared t)\<rparr>
     else t\<lparr>tk_unexpected := insert i (tk_unexpected t)\<rparr>)"

definition record_skipped :: "string \<Rightarrow> lifecycle_tracker \<Rightarrow> lifecycle_tracker" where
  "record_skipped i t = (if i \<in> tk_expected t then t\<lparr>tk_skipped := insert i (tk_skipped t)\<rparr>
     else t\<lparr>tk_unexpected := insert i (tk_unexpected t)\<rparr>)"

definition record_failed :: "string \<Rightarrow> lifecycle_tracker \<Rightarrow> lifecycle_tracker" where
  "record_failed i t = (if i \<in> tk_expected t then t\<lparr>tk_failed := insert i (tk_failed t)\<rparr>
     else t\<lparr>tk_unexpected := insert i (tk_unexpected t)\<rparr>)"

definition record_all_failed :: "lifecycle_tracker \<Rightarrow> lifecycle_tracker" where
  "record_all_failed t = t\<lparr>tk_failed := tk_failed t \<union> tk_expected t\<rparr>"

record lifecycle_totals =
  tot_expected :: nat
  tot_discovered :: nat
  tot_generated :: nat
  tot_compared :: nat
  tot_missing :: nat
  tot_unexpected :: nat
  tot_skipped :: nat
  tot_failed :: nat

definition totals :: "lifecycle_tracker \<Rightarrow> lifecycle_totals" where
  "totals t = \<lparr>tot_expected = card (tk_expected t), tot_discovered = card (tk_discovered t),
     tot_generated = card (tk_generated t), tot_compared = card (tk_compared t),
     tot_missing = card (Set.filter (\<lambda>i. i \<notin> tk_discovered t \<or> i \<notin> tk_generated t) (tk_expected t)),
     tot_unexpected = card (tk_unexpected t), tot_skipped = card (tk_skipped t), tot_failed = card (tk_failed t)\<rparr>"

definition release_passed :: "lifecycle_totals \<Rightarrow> bool" where
  "release_passed n \<longleftrightarrow> 0 < tot_expected n \<and> tot_discovered n = tot_expected n \<and> tot_generated n = tot_expected n
     \<and> tot_compared n = tot_expected n \<and> tot_missing n = 0 \<and> tot_unexpected n = 0 \<and> tot_skipped n = 0 \<and> tot_failed n = 0"

section \<open>Preflight\<close>

datatype case_error =
    GenerationFailed string
  | LogitsRank
  | EmptyLogits
  | LogitsWidth nat nat
  | LogitsCount
  | NoRequestRows
  | CompareFailed compare_error
  | L3Unavailable

datatype lifecycle_error =
    FamilyDisagrees string
  | EntryFailed string
  | NameNotUtf8 string
  | DirectoryFailed string
  | FixtureUnreadable string
  | ChecksumMismatch string
  | FixtureUnusable string fixture_error
  | FixtureValues string string
  | FamilyShape string
  | CalibrationEvidence string
  | ComparisonFailed string case_error

record dir_entry =
  de_name :: string
  de_utf8 :: bool

record 'b preflight_io =
  pf_dir :: "(string, (string, dir_entry) outcome list) outcome"
  pf_read :: "string \<Rightarrow> (string, 'b) outcome"
  pf_reread :: "string \<Rightarrow> (string, 'b) outcome"
  pf_sha256 :: "'b \<Rightarrow> string"
  pf_deserialize :: "'b \<Rightarrow> (string, tensors) outcome"

record reference_case =
  rc_expected :: expected_fixture
  rc_metadata :: fixture_metadata
  rc_fixture :: fixture_data
  rc_prompt :: prompt_entry

record preflight_state =
  ps_tracker :: lifecycle_tracker
  ps_cases :: "reference_case list"
  ps_errors :: "lifecycle_error list"

definition note_failed :: "string \<Rightarrow> lifecycle_error \<Rightarrow> preflight_state \<Rightarrow> preflight_state" where
  "note_failed i e s = s\<lparr>ps_tracker := record_failed i (ps_tracker s), ps_errors := ps_errors s @ [e]\<rparr>"

definition token_is_in_vocab :: "int \<Rightarrow> nat \<Rightarrow> bool" where
  "token_is_in_vocab t vocab \<longleftrightarrow> 0 \<le> t \<and> nat t < vocab"

definition validate_fixture_values :: "fixture_data \<Rightarrow> nat \<Rightarrow> (string, unit) outcome" where
  "validate_fixture_values fx vocab =
     (if fd_n_prompt_tokens fx \<le> 0 then Error ''n_prompt_tokens must be positive''
      else if list_ex (\<lambda>t. \<not> token_is_in_vocab t vocab) (fd_token_ids fx) then Error ''token id outside model vocabulary''
      else if (case fd_top5_indices fx of Some is \<Rightarrow> list_ex (\<lambda>t. \<not> token_is_in_vocab t vocab) is | None \<Rightarrow> False)
      then Error ''top-5 token id outside model vocabulary''
      else Ok ())"

fun discover_expected :: "prompt_map \<Rightarrow> expected_fixture list \<Rightarrow> preflight_state \<Rightarrow> preflight_state" where
  "discover_expected prompts [] s = s"
| "discover_expected prompts (e # es) s = discover_expected prompts es
     (case map_of prompts (ef_prompt_id e) of
        None \<Rightarrow> s
      | Some p \<Rightarrow>
          let s1 = s\<lparr>ps_tracker := record_discovered (ef_fixture_id e) (ps_tracker s)\<rparr> in
          if pe_family p \<noteq> ef_family e
          then note_failed (ef_fixture_id e) (FamilyDisagrees (ef_fixture_id e)) s1 else s1)"

definition discover_prompt :: "string set \<Rightarrow> prompt_entry \<Rightarrow> lifecycle_tracker \<Rightarrow> lifecycle_tracker" where
  "discover_prompt expected_ids p t = fold (\<lambda>oracle t.
     let i = pe_id p @ ''.'' @ oracle in if i \<in> expected_ids then t else record_discovered i t)
     [''transformers'', ''vllm''] t"

definition scan_entry :: "string set \<Rightarrow> (string, dir_entry) outcome \<Rightarrow> preflight_state \<Rightarrow> preflight_state" where
  "scan_entry expected_filenames entry s =
     (case entry of
        Inl f \<Rightarrow> s\<lparr>ps_tracker := record_all_failed (ps_tracker s),
                   ps_errors := ps_errors s @ [EntryFailed (case f of Err e \<Rightarrow> e | Panic \<Rightarrow> [])]\<rparr>
      | Inr d \<Rightarrow>
          if \<not> has_safetensors_extension (de_name d) then s
          else if \<not> de_utf8 d then s\<lparr>ps_tracker := record_all_failed (ps_tracker s),
            ps_errors := ps_errors s @ [NameNotUtf8 (de_name d)]\<rparr>
          else if de_name d \<in> expected_filenames then s
          else s\<lparr>ps_tracker := record_generated (de_name d) (ps_tracker s)\<rparr>)"

definition scan_directory :: "golden_manifest \<Rightarrow> 'b preflight_io \<Rightarrow> preflight_state \<Rightarrow> preflight_state" where
  "scan_directory m io s =
     (case pf_dir io of
        Inr entries \<Rightarrow> fold (scan_entry (set (map ef_filename (expected_fixtures m)))) entries s
      | Inl f \<Rightarrow>
          let s1 = s\<lparr>ps_tracker := fold record_failed (map ef_fixture_id (expected_fixtures m)) (ps_tracker s)\<rparr>
          in s1\<lparr>ps_errors := ps_errors s1 @ [DirectoryFailed (case f of Err e \<Rightarrow> e | Panic \<Rightarrow> [])]\<rparr>)"

definition matching_expected :: "golden_manifest \<Rightarrow> fixture_metadata \<Rightarrow> expected_fixture option" where
  "matching_expected m f = find (\<lambda>e. ef_prompt_id e = fm_prompt_id f \<and> ef_oracle e = fm_oracle f
     \<and> ef_filename e = fm_filename f) (expected_fixtures m)"

definition family_shape_ok :: "golden_manifest \<Rightarrow> expected_fixture \<Rightarrow> fixture_metadata \<Rightarrow> bool" where
  "family_shape_ok m e f = (case ef_family e of
     Regression \<Rightarrow> fm_category f = RegressionPrompt \<and> fm_logits_shape f = (0, 0)
   | _ \<Rightarrow> fm_category f = CanonicalPrompt \<and> snd (fm_logits_shape f) = model_vocab_size (manifest_model m))"

definition preflight_fixture ::
    "golden_manifest \<Rightarrow> 'b preflight_io \<Rightarrow> prompt_map \<Rightarrow> fixture_metadata \<Rightarrow> preflight_state \<Rightarrow> preflight_state" where
  "preflight_fixture m io prompts f s =
     (case matching_expected m f of
        None \<Rightarrow> s
      | Some e \<Rightarrow>
        let i = ef_fixture_id e in
        (case pf_read io (fm_filename f) of
           Inl _ \<Rightarrow> s\<lparr>ps_errors := ps_errors s @ [FixtureUnreadable (fm_filename f)]\<rparr>
         | Inr bytes \<Rightarrow>
           let s1 = s\<lparr>ps_tracker := record_generated i (ps_tracker s)\<rparr> in
           if pf_sha256 io bytes \<noteq> fm_sha256 f then note_failed i (ChecksumMismatch i) s1
           else (case load_fixture (pf_deserialize io) (pf_reread io (fm_filename f)) f of
             Inl err \<Rightarrow> note_failed i (FixtureUnusable i (case err of Err e \<Rightarrow> e | Panic \<Rightarrow> FixtureParse [])) s1
           | Inr fx \<Rightarrow>
             (case validate_fixture_values fx (model_vocab_size (manifest_model m)) of
                Inl err \<Rightarrow> note_failed i (FixtureValues i (case err of Err e \<Rightarrow> e | Panic \<Rightarrow> [])) s1
              | Inr _ \<Rightarrow>
                if \<not> family_shape_ok m e f then note_failed i (FamilyShape i) s1
                else if ef_oracle_role e = Reference then
                  (case map_of prompts (ef_prompt_id e) of
                     None \<Rightarrow> s1
                   | Some p \<Rightarrow> if pe_family p = ef_family e
                       then s1\<lparr>ps_cases := ps_cases s1 @ [\<lparr>rc_expected = e, rc_metadata = f, rc_fixture = fx, rc_prompt = p\<rparr>]\<rparr>
                       else s1)
                else s1))))"

definition preflight_calibrated :: "golden_manifest \<Rightarrow> string \<Rightarrow> preflight_state \<Rightarrow> preflight_state" where
  "preflight_calibrated m c s =
     (case find (\<lambda>e. ef_fixture_id e = c) (expected_fixtures m) of
        None \<Rightarrow> s\<lparr>ps_tracker := record_compared c (ps_tracker s)\<rparr>
      | Some e \<Rightarrow>
          if ef_oracle_role e \<noteq> Baseline \<or> c \<notin> tk_generated (ps_tracker s) \<or> c \<in> tk_failed (ps_tracker s)
          then note_failed c (CalibrationEvidence c) s
          else s\<lparr>ps_tracker := record_compared c (ps_tracker s)\<rparr>)"

definition preflight :: "golden_manifest \<Rightarrow> 'b preflight_io \<Rightarrow> prompt_map \<Rightarrow> preflight_state" where
  "preflight m io prompts =
     (let ids = map ef_fixture_id (expected_fixtures m);
          s0 = \<lparr>ps_tracker = tracker_new ids, ps_cases = [], ps_errors = []\<rparr>;
          s1 = discover_expected prompts (expected_fixtures m) s0;
          s2 = s1\<lparr>ps_tracker := fold (\<lambda>(_, p). discover_prompt (set ids) p) prompts (ps_tracker s1)\<rparr>;
          s3 = scan_directory m io s2;
          s4 = fold (preflight_fixture m io prompts) (fixtures m) s3
      in fold (preflight_calibrated m) (calibrated_fixtures m) s4)"

section \<open>The driver\<close>

record driver_options =
  l1_only :: bool
  l2_only :: bool
  debug_layers :: bool

record l3_result =
  l3_prompt_id :: string
  l3_passed :: bool
  l3_message :: string

record case_comparison =
  cc_l1 :: "l1_result option"
  cc_l2 :: "l2_result option"
  cc_l3 :: "l3_result option"

record comparison_report =
  rep_l1 :: "l1_result list"
  rep_l2 :: "l2_result list"
  rep_l3 :: "l3_result list"
  rep_lifecycle :: lifecycle_totals
  rep_failures :: "lifecycle_error list"

definition l1_results_passed :: "comparison_report \<Rightarrow> bool" where
  "l1_results_passed r = list_all l1_passed (rep_l1 r)"

definition l2_results_passed :: "comparison_report \<Rightarrow> bool" where
  "l2_results_passed r = list_all l2_passed (rep_l2 r)"

definition reference_passed :: "comparison_report \<Rightarrow> bool" where
  "reference_passed r \<longleftrightarrow> (rep_l1 r \<noteq> [] \<or> rep_l2 r \<noteq> []) \<and> l1_results_passed r \<and> l2_results_passed r"

definition overall_passed :: "comparison_report \<Rightarrow> bool" where
  "overall_passed r \<longleftrightarrow> reference_passed r \<and> release_passed (rep_lifecycle r)"

definition required_layers_enabled :: "required_comparison \<Rightarrow> driver_options \<Rightarrow> bool" where
  "required_layers_enabled required opts = (case required of
     CompareL1 \<Rightarrow> \<not> l2_only opts | CompareL1L2 \<Rightarrow> \<not> l1_only opts \<and> \<not> l2_only opts | Calibration \<Rightarrow> False)"

definition compare_l3 :: "golden_manifest \<Rightarrow> string \<Rightarrow> (case_error, l3_result) outcome" where
  "compare_l3 m prompt_id = Error L3Unavailable"

definition generated_logits_geometry :: "nat list \<Rightarrow> nat \<Rightarrow> nat \<Rightarrow> (case_error, nat \<times> nat) outcome" where
  "generated_logits_geometry dims value_count expected_vocab =
     (case dims of
        [n_steps, vocab] \<Rightarrow>
          if n_steps = 0 \<or> vocab = 0 then Error EmptyLogits
          else if vocab \<noteq> expected_vocab then Error (LogitsWidth vocab expected_vocab)
          else if checked_mul n_steps vocab \<noteq> Some value_count then Error LogitsCount
          else Ok (n_steps, vocab)
      | _ \<Rightarrow> Error LogitsRank)"

definition compare_reference_case ::
    "golden_manifest \<Rightarrow> driver_options \<Rightarrow> (string, captured_generation) outcome \<Rightarrow> reference_case
       \<Rightarrow> (case_error, case_comparison) outcome" where
  "compare_reference_case m opts generated c =
     (let policy = manifest_policy m; fx = rc_fixture c in
      rbind (map_err GenerationFailed generated) (\<lambda>cap.
      rbind (generated_logits_geometry [fst (cap_tensor_shape cap), snd (cap_tensor_shape cap)] (length (cap_logits cap))
               (model_vocab_size (manifest_model m))) (\<lambda>(_, vocab).
      rbind (ok_or NoRequestRows (get_at (cap_tokens_by_input cap) 0)) (\<lambda>tokens.
      rbind (case fm_category (rc_metadata c) of
               CanonicalPrompt \<Rightarrow>
                 rbind (map_err CompareFailed (compare_l1 fx tokens (Some (cap_logits cap, vocab)) policy)) (\<lambda>r1.
                 rbind (map_err CompareFailed (compare_l2 fx (cap_logits cap) tokens policy)) (\<lambda>r2. Ok (Some r1, Some r2)))
             | RegressionPrompt \<Rightarrow>
                 rbind (map_err CompareFailed (compare_l1_tokens_only fx tokens policy)) (\<lambda>r1. Ok (Some r1, None))) (\<lambda>(l1, l2).
      rbind (if debug_layers opts then rbind (compare_l3 m (fm_prompt_id (rc_metadata c))) (\<lambda>r. Ok (Some r)) else Ok None) (\<lambda>l3.
      Ok \<lparr>cc_l1 = l1, cc_l2 = l2, cc_l3 = l3\<rparr>))))))"

definition case_passed :: "case_comparison \<Rightarrow> bool" where
  "case_passed cmp \<longleftrightarrow> (case cc_l1 cmp of None \<Rightarrow> True | Some r \<Rightarrow> l1_passed r)
     \<and> (case cc_l2 cmp of None \<Rightarrow> True | Some r \<Rightarrow> l2_passed r)"

definition option_list :: "'a option \<Rightarrow> 'a list" where
  "option_list x = (case x of None \<Rightarrow> [] | Some v \<Rightarrow> [v])"

definition record_comparison :: "case_comparison \<Rightarrow> comparison_report \<Rightarrow> comparison_report" where
  "record_comparison cmp r = r\<lparr>rep_l1 := rep_l1 r @ option_list (cc_l1 cmp), rep_l2 := rep_l2 r @ option_list (cc_l2 cmp),
     rep_l3 := rep_l3 r @ option_list (cc_l3 cmp)\<rparr>"

text \<open>The loop over the prepared cases; \<open>compare n\<close> is the \<open>n\<close>-th call of the closure.\<close>

fun run_cases ::
    "driver_options \<Rightarrow> (nat \<Rightarrow> reference_case \<Rightarrow> (case_error, case_comparison) outcome) \<Rightarrow> nat \<Rightarrow> reference_case list
       \<Rightarrow> lifecycle_tracker \<Rightarrow> comparison_report \<Rightarrow> (case_error, lifecycle_tracker \<times> comparison_report) outcome" where
  "run_cases opts compare n [] t r = Ok (t, r)"
| "run_cases opts compare n (c # cs) t r =
     (let i = ef_fixture_id (rc_expected c) in
      if i \<in> tk_skipped t \<or> \<not> required_layers_enabled (ef_required_comparison (rc_expected c)) opts
      then run_cases opts compare n cs (record_skipped i t) r
      else case compare n c of
        Inr cmp \<Rightarrow>
          let t1 = record_compared i t in
          run_cases opts compare (Suc n) cs (if case_passed cmp then t1 else record_failed i t1) (record_comparison cmp r)
      | Inl Panic \<Rightarrow> Panicked
      | Inl (Err e) \<Rightarrow> run_cases opts compare (Suc n) cs (record_failed i t)
          (r\<lparr>rep_failures := rep_failures r @ [ComparisonFailed i e]\<rparr>))"

definition run_prepared_comparisons ::
    "preflight_state \<Rightarrow> driver_options \<Rightarrow> (nat \<Rightarrow> reference_case \<Rightarrow> (case_error, case_comparison) outcome)
       \<Rightarrow> (case_error, comparison_report) outcome" where
  "run_prepared_comparisons prepared opts compare =
     rbind (run_cases opts compare 0 (ps_cases prepared) (ps_tracker prepared)
        \<lparr>rep_l1 = [], rep_l2 = [], rep_l3 = [], rep_lifecycle = totals (tracker_new []), rep_failures = ps_errors prepared\<rparr>)
     (\<lambda>(t, r). Ok (r\<lparr>rep_lifecycle := totals t\<rparr>))"

definition run_comparison ::
    "golden_manifest \<Rightarrow> 'b preflight_io \<Rightarrow> prompt_map \<Rightarrow> driver_options
       \<Rightarrow> (nat \<Rightarrow> reference_case \<Rightarrow> (string, captured_generation) outcome) \<Rightarrow> (case_error, comparison_report) outcome" where
  "run_comparison m io prompts opts generate =
     run_prepared_comparisons (preflight m io prompts) opts (\<lambda>n c. compare_reference_case m opts (generate n c) c)"

section \<open>What each phase records\<close>

lemmas record_defs = record_discovered_def record_generated_def record_compared_def record_skipped_def record_failed_def

lemma tracker_update_id [simp]:
  "t\<lparr>tk_discovered := tk_discovered t, tk_failed := tk_failed t\<rparr> = t" "t\<lparr>tk_unexpected := tk_unexpected t\<rparr> = t"
  "t\<lparr>tk_failed := tk_failed t, tk_unexpected := tk_unexpected t\<rparr> = t" "t\<lparr>tk_generated := tk_generated t, tk_failed := tk_failed t\<rparr> = t"
  by simp_all

text \<open>Discovery of the expected fixtures.\<close>

definition known_ids :: "prompt_map \<Rightarrow> expected_fixture list \<Rightarrow> string set" where
  "known_ids prompts es = {ef_fixture_id e |e. e \<in> set es \<and> map_of prompts (ef_prompt_id e) \<noteq> None}"

definition misfiled_ids :: "prompt_map \<Rightarrow> expected_fixture list \<Rightarrow> string set" where
  "misfiled_ids prompts es = {ef_fixture_id e |e. e \<in> set es
     \<and> (\<exists>p. map_of prompts (ef_prompt_id e) = Some p \<and> pe_family p \<noteq> ef_family e)}"

lemma known_ids_Cons: "known_ids prompts (e # es)
    = (if map_of prompts (ef_prompt_id e) \<noteq> None then {ef_fixture_id e} else {}) \<union> known_ids prompts es"
  by (auto simp: known_ids_def)

lemma misfiled_ids_Cons: "misfiled_ids prompts (e # es)
    = (case map_of prompts (ef_prompt_id e) of None \<Rightarrow> {} | Some p \<Rightarrow> if pe_family p \<noteq> ef_family e then {ef_fixture_id e} else {})
      \<union> misfiled_ids prompts es"
  by (auto simp: misfiled_ids_def split: option.splits)

lemma discover_expected_tracker:
  "ef_fixture_id ` set es \<subseteq> tk_expected (ps_tracker s) \<Longrightarrow>
     ps_tracker (discover_expected prompts es s) = (ps_tracker s)
       \<lparr>tk_discovered := tk_discovered (ps_tracker s) \<union> known_ids prompts es,
        tk_failed := tk_failed (ps_tracker s) \<union> misfiled_ids prompts es\<rparr>
     \<and> ps_cases (discover_expected prompts es s) = ps_cases s"
proof (induction es arbitrary: s)
  case Nil
  then show ?case by (simp add: known_ids_def misfiled_ids_def)
next
  case (Cons e es)
  let ?s = "case map_of prompts (ef_prompt_id e) of None \<Rightarrow> s
      | Some p \<Rightarrow>
          let s1 = s\<lparr>ps_tracker := record_discovered (ef_fixture_id e) (ps_tracker s)\<rparr> in
          if pe_family p \<noteq> ef_family e
          then note_failed (ef_fixture_id e) (FamilyDisagrees (ef_fixture_id e)) s1 else s1"
  have step: "ps_tracker ?s = (ps_tracker s)
       \<lparr>tk_discovered := tk_discovered (ps_tracker s) \<union> (if map_of prompts (ef_prompt_id e) \<noteq> None then {ef_fixture_id e} else {}),
        tk_failed := tk_failed (ps_tracker s) \<union> (case map_of prompts (ef_prompt_id e) of None \<Rightarrow> {}
          | Some p \<Rightarrow> if pe_family p \<noteq> ef_family e then {ef_fixture_id e} else {})\<rparr> \<and> ps_cases ?s = ps_cases s"
    using Cons.prems by (auto simp: record_defs note_failed_def Let_def split: option.splits)
  have "ef_fixture_id ` set es \<subseteq> tk_expected (ps_tracker ?s)" using Cons.prems step by simp
  from Cons.IH [OF this] show ?case
    unfolding discover_expected.simps known_ids_Cons misfiled_ids_Cons
    by (simp add: conjunct1 [OF step] conjunct2 [OF step] Un_assoc)
qed

lemma discover_prompt_tracker:
  "\<exists>U. discover_prompt (tk_expected t) p t = t\<lparr>tk_unexpected := tk_unexpected t \<union> U\<rparr>"
proof -
  have one: "\<exists>U. (let i = pe_id p @ ''.'' @ label in if i \<in> tk_expected t then t else record_discovered i t)
      = t\<lparr>tk_unexpected := tk_unexpected t \<union> U\<rparr>" for t label
  proof (cases "pe_id p @ ''.'' @ label \<in> tk_expected t")
    case True
    then show ?thesis by (intro exI [of _ "{}"]) (simp add: Let_def)
  next
    case False
    then show ?thesis by (intro exI [of _ "{pe_id p @ ''.'' @ label}"]) (simp add: Let_def record_defs)
  qed
  obtain U where U: "(let i = pe_id p @ ''.'' @ ''transformers'' in if i \<in> tk_expected t then t else record_discovered i t)
      = t\<lparr>tk_unexpected := tk_unexpected t \<union> U\<rparr>" using one by blast
  obtain V where V: "(let i = pe_id p @ ''.'' @ ''vllm'' in if i \<in> tk_expected (t\<lparr>tk_unexpected := tk_unexpected t \<union> U\<rparr>)
        then t\<lparr>tk_unexpected := tk_unexpected t \<union> U\<rparr> else record_discovered i (t\<lparr>tk_unexpected := tk_unexpected t \<union> U\<rparr>))
      = t\<lparr>tk_unexpected := tk_unexpected t \<union> U, tk_unexpected := tk_unexpected (t\<lparr>tk_unexpected := tk_unexpected t \<union> U\<rparr>) \<union> V\<rparr>"
    using one by blast
  have "discover_prompt (tk_expected t) p t = t\<lparr>tk_unexpected := tk_unexpected t \<union> (U \<union> V)\<rparr>"
    using V by (simp only: discover_prompt_def fold.simps o_apply id_apply U) (simp add: Un_assoc)
  then show ?thesis by blast
qed

lemma discover_prompts_tracker:
  "tk_expected t = ids \<Longrightarrow> \<exists>U. fold (\<lambda>(_, p). discover_prompt ids p) prompts t = t\<lparr>tk_unexpected := tk_unexpected t \<union> U\<rparr>"
proof (induction prompts arbitrary: t)
  case Nil
  then show ?case by (intro exI [of _ "{}"]) simp
next
  case (Cons x prompts)
  obtain k p where x: "x = (k, p)" by (cases x)
  obtain U where U: "discover_prompt ids p t = t\<lparr>tk_unexpected := tk_unexpected t \<union> U\<rparr>"
    using discover_prompt_tracker [of t p] Cons.prems by auto
  obtain V where "fold (\<lambda>(_, p). discover_prompt ids p) prompts (t\<lparr>tk_unexpected := tk_unexpected t \<union> U\<rparr>)
      = t\<lparr>tk_unexpected := tk_unexpected t \<union> U, tk_unexpected := tk_unexpected (t\<lparr>tk_unexpected := tk_unexpected t \<union> U\<rparr>) \<union> V\<rparr>"
    using Cons.IH [of "t\<lparr>tk_unexpected := tk_unexpected t \<union> U\<rparr>"] Cons.prems by auto
  then show ?case by (intro exI [of _ "U \<union> V"]) (simp add: x U Un_assoc)
qed

text \<open>The directory.\<close>

definition entry_admitted :: "string set \<Rightarrow> (string, dir_entry) outcome \<Rightarrow> bool" where
  "entry_admitted filenames entry = (case entry of Inl _ \<Rightarrow> False
     | Inr d \<Rightarrow> has_safetensors_extension (de_name d) \<longrightarrow> de_utf8 d \<and> de_name d \<in> filenames)"

lemma scan_entry_tracker:
  assumes "\<And>i. i \<in> tk_expected (ps_tracker s) \<Longrightarrow> \<not> has_safetensors_extension i"
  shows "\<exists>F U. ps_tracker (scan_entry names entry s) = (ps_tracker s)\<lparr>tk_failed := tk_failed (ps_tracker s) \<union> F,
       tk_unexpected := tk_unexpected (ps_tracker s) \<union> U\<rparr>
     \<and> ps_cases (scan_entry names entry s) = ps_cases s
     \<and> (\<not> entry_admitted names entry \<longrightarrow> F = tk_expected (ps_tracker s) \<or> U \<noteq> {})"
proof (cases "entry_admitted names entry")
  case True
  then have "scan_entry names entry s = s" by (auto simp: scan_entry_def entry_admitted_def split: sum.splits)
  then show ?thesis using True by (intro exI [of _ "{}"]) simp
next
  case False
  show ?thesis
  proof (cases entry)
    case (Inl f)
    then show ?thesis
      by (intro exI [of _ "tk_expected (ps_tracker s)"] exI [of _ "{}"]) (simp add: scan_entry_def record_all_failed_def)
  next
    case (Inr d)
    then have ext: "has_safetensors_extension (de_name d)" using False by (simp add: entry_admitted_def)
    show ?thesis
    proof (cases "de_utf8 d")
      case True
      then have "de_name d \<notin> names" "de_name d \<notin> tk_expected (ps_tracker s)"
        using False Inr ext assms by (auto simp: entry_admitted_def)
      then show ?thesis using Inr ext True
        by (intro exI [of _ "{}"] exI [of _ "{de_name d}"]) (simp add: scan_entry_def record_defs)
    next
      case False
      then show ?thesis using Inr ext
        by (intro exI [of _ "tk_expected (ps_tracker s)"] exI [of _ "{}"]) (simp add: scan_entry_def record_all_failed_def)
    qed
  qed
qed

lemma scan_entries_tracker:
  assumes "\<And>i. i \<in> tk_expected (ps_tracker s) \<Longrightarrow> \<not> has_safetensors_extension i"
  shows "\<exists>F U. ps_tracker (fold (scan_entry names) entries s) = (ps_tracker s)\<lparr>tk_failed := tk_failed (ps_tracker s) \<union> F,
       tk_unexpected := tk_unexpected (ps_tracker s) \<union> U\<rparr>
     \<and> ps_cases (fold (scan_entry names) entries s) = ps_cases s
     \<and> (\<not> list_all (entry_admitted names) entries \<longrightarrow> tk_expected (ps_tracker s) \<subseteq> F \<or> U \<noteq> {})"
  using assms
proof (induction entries arbitrary: s)
  case Nil
  then show ?case by (intro exI [of _ "{}"]) simp
next
  case (Cons entry entries)
  let ?t = "ps_tracker s" and ?s = "scan_entry names entry s"
  obtain F U where one: "ps_tracker ?s = ?t\<lparr>tk_failed := tk_failed ?t \<union> F, tk_unexpected := tk_unexpected ?t \<union> U\<rparr>"
    "ps_cases ?s = ps_cases s" "\<not> entry_admitted names entry \<longrightarrow> F = tk_expected ?t \<or> U \<noteq> {}"
    using scan_entry_tracker [OF Cons.prems, where names = names and entry = entry] by blast
  have "tk_expected (ps_tracker ?s) = tk_expected ?t" by (simp add: one(1))
  then have "\<And>i. i \<in> tk_expected (ps_tracker ?s) \<Longrightarrow> \<not> has_safetensors_extension i" using Cons.prems by blast
  note ih = Cons.IH [of ?s, OF this]
  obtain G V where rest: "ps_tracker (fold (scan_entry names) entries ?s) = (ps_tracker ?s)
       \<lparr>tk_failed := tk_failed (ps_tracker ?s) \<union> G, tk_unexpected := tk_unexpected (ps_tracker ?s) \<union> V\<rparr>"
    "ps_cases (fold (scan_entry names) entries ?s) = ps_cases ?s"
    "\<not> list_all (entry_admitted names) entries \<longrightarrow> tk_expected (ps_tracker ?s) \<subseteq> G \<or> V \<noteq> {}"
    using ih by blast
  show ?case
  proof (rule exI [of _ "F \<union> G"], rule exI [of _ "U \<union> V"], intro conjI)
    show "ps_tracker (fold (scan_entry names) (entry # entries) s) = ?t\<lparr>tk_failed := tk_failed ?t \<union> (F \<union> G),
        tk_unexpected := tk_unexpected ?t \<union> (U \<union> V)\<rparr>"
      using rest(1) by (simp add: one(1) Un_assoc)
    show "ps_cases (fold (scan_entry names) (entry # entries) s) = ps_cases s" using rest(2) by (simp add: one(2))
    show "\<not> list_all (entry_admitted names) (entry # entries) \<longrightarrow> tk_expected ?t \<subseteq> F \<union> G \<or> U \<union> V \<noteq> {}"
      using one(1,3) rest(3) by auto
  qed
qed

lemma record_failed_all: "set ids \<subseteq> tk_expected t \<Longrightarrow> fold record_failed ids t = t\<lparr>tk_failed := tk_failed t \<union> set ids\<rparr>"
  by (induction ids arbitrary: t) (auto simp: record_defs Un_assoc)

text \<open>The fixture files.\<close>

definition generated_id :: "golden_manifest \<Rightarrow> 'b preflight_io \<Rightarrow> fixture_metadata \<Rightarrow> string set" where
  "generated_id m io f = (case matching_expected m f of None \<Rightarrow> {}
     | Some e \<Rightarrow> (case pf_read io (fm_filename f) of Inl _ \<Rightarrow> {} | Inr _ \<Rightarrow> {ef_fixture_id e}))"

definition fixture_accepted :: "golden_manifest \<Rightarrow> 'b preflight_io \<Rightarrow> expected_fixture \<Rightarrow> fixture_metadata \<Rightarrow> fixture_data \<Rightarrow> bool" where
  "fixture_accepted m io e f fx \<longleftrightarrow> (\<exists>bytes. pf_read io (fm_filename f) = Ok bytes \<and> pf_sha256 io bytes = fm_sha256 f)
     \<and> load_fixture (pf_deserialize io) (pf_reread io (fm_filename f)) f = Ok fx
     \<and> validate_fixture_values fx (model_vocab_size (manifest_model m)) = Ok () \<and> family_shape_ok m e f"

text \<open>One fixture: generated when its file reads, failed unless it is accepted, and a case when it is an
  accepted reference whose prompt is known.\<close>

lemma preflight_fixture_tracker:
  assumes "ef_fixture_id ` set (expected_fixtures m) \<subseteq> tk_expected (ps_tracker s)"
  shows "\<exists>F C. ps_tracker (preflight_fixture m io prompts f s) = (ps_tracker s)
       \<lparr>tk_generated := tk_generated (ps_tracker s) \<union> generated_id m io f, tk_failed := tk_failed (ps_tracker s) \<union> F\<rparr>
     \<and> ps_cases (preflight_fixture m io prompts f s) = ps_cases s @ C
     \<and> (\<forall>e. matching_expected m f = Some e \<longrightarrow> ef_fixture_id e \<in> generated_id m io f \<longrightarrow> ef_fixture_id e \<notin> F \<longrightarrow>
          (\<exists>fx. fixture_accepted m io e f fx))
     \<and> (\<forall>c \<in> set C. matching_expected m f = Some (rc_expected c) \<and> ef_oracle_role (rc_expected c) = Reference
          \<and> rc_metadata c = f \<and> fixture_accepted m io (rc_expected c) f (rc_fixture c)
          \<and> map_of prompts (ef_prompt_id (rc_expected c)) = Some (rc_prompt c) \<and> pe_family (rc_prompt c) = ef_family (rc_expected c))"
proof (cases "matching_expected m f")
  case None
  then show ?thesis by (intro exI [of _ "{}"] exI [of _ "[]"]) (simp add: preflight_fixture_def generated_id_def)
next
  case (Some e)
  then have "e \<in> set (expected_fixtures m)" by (auto simp: matching_expected_def find_Some_iff)
  then have i: "ef_fixture_id e \<in> tk_expected (ps_tracker s)" using assms by auto
  show ?thesis
  proof (cases "pf_read io (fm_filename f)")
    case (Inl err)
    then show ?thesis using Some
      by (intro exI [of _ "{}"] exI [of _ "[]"]) (simp add: preflight_fixture_def generated_id_def Let_def)
  next
    case (Inr bytes)
    then have g: "generated_id m io f = {ef_fixture_id e}" using Some by (simp add: generated_id_def)
    show ?thesis
    proof (cases "\<exists>fx. fixture_accepted m io e f fx")
      case False
      then show ?thesis using Some Inr i
        by (intro exI [of _ "{ef_fixture_id e}"] exI [of _ "[]"])
          (auto simp: preflight_fixture_def g note_failed_def record_defs Let_def fixture_accepted_def split: sum.splits)
    next
      case True
      then obtain fx where fx: "fixture_accepted m io e f fx" ..
      define C where "C = (case map_of prompts (ef_prompt_id e) of None \<Rightarrow> []
        | Some p \<Rightarrow> if ef_oracle_role e = Reference \<and> pe_family p = ef_family e
            then [\<lparr>rc_expected = e, rc_metadata = f, rc_fixture = fx, rc_prompt = p\<rparr>] else [])"
      have "preflight_fixture m io prompts f s = s\<lparr>ps_tracker := record_generated (ef_fixture_id e) (ps_tracker s), ps_cases := ps_cases s @ C\<rparr>"
        using fx Some Inr by (auto simp: preflight_fixture_def fixture_accepted_def Let_def C_def split: option.splits)
      then show ?thesis using fx i Some
        by (intro exI [of _ "{}"] exI [of _ C]) (auto simp: g record_defs C_def split: option.splits if_splits)
    qed
  qed
qed

text \<open>A case as the preflight prepares it from the metadata \<open>f\<close>.\<close>

definition case_prepared :: "golden_manifest \<Rightarrow> 'b preflight_io \<Rightarrow> prompt_map \<Rightarrow> fixture_metadata \<Rightarrow> reference_case \<Rightarrow> bool" where
  "case_prepared m io prompts f c \<longleftrightarrow> matching_expected m f = Some (rc_expected c) \<and> ef_oracle_role (rc_expected c) = Reference
     \<and> rc_metadata c = f \<and> fixture_accepted m io (rc_expected c) f (rc_fixture c)
     \<and> map_of prompts (ef_prompt_id (rc_expected c)) = Some (rc_prompt c) \<and> pe_family (rc_prompt c) = ef_family (rc_expected c)"

lemma preflight_fixtures_tracker:
  assumes "ef_fixture_id ` set (expected_fixtures m) \<subseteq> tk_expected (ps_tracker s)"
  shows "\<exists>F C. ps_tracker (fold (preflight_fixture m io prompts) fs s) = (ps_tracker s)
       \<lparr>tk_generated := tk_generated (ps_tracker s) \<union> (\<Union>f \<in> set fs. generated_id m io f), tk_failed := tk_failed (ps_tracker s) \<union> F\<rparr>
     \<and> ps_cases (fold (preflight_fixture m io prompts) fs s) = ps_cases s @ C
     \<and> (\<forall>f \<in> set fs. \<forall>e. matching_expected m f = Some e \<longrightarrow> ef_fixture_id e \<in> generated_id m io f \<longrightarrow> ef_fixture_id e \<notin> F \<longrightarrow>
          (\<exists>fx. fixture_accepted m io e f fx))
     \<and> (\<forall>c \<in> set C. \<exists>f \<in> set fs. case_prepared m io prompts f c)"
  using assms
proof (induction fs arbitrary: s)
  case Nil
  then show ?case by (intro exI [of _ "{}"] exI [of _ "[]"]) simp
next
  case (Cons f fs)
  let ?t = "ps_tracker s" and ?s = "preflight_fixture m io prompts f s"
  obtain F C where one: "ps_tracker ?s = ?t\<lparr>tk_generated := tk_generated ?t \<union> generated_id m io f, tk_failed := tk_failed ?t \<union> F\<rparr>"
    "ps_cases ?s = ps_cases s @ C"
    "\<forall>e. matching_expected m f = Some e \<longrightarrow> ef_fixture_id e \<in> generated_id m io f \<longrightarrow> ef_fixture_id e \<notin> F \<longrightarrow>
          (\<exists>fx. fixture_accepted m io e f fx)"
    "\<forall>c \<in> set C. case_prepared m io prompts f c"
    using preflight_fixture_tracker [OF Cons.prems, where io = io and prompts = prompts and f = f, folded case_prepared_def] by blast
  have "ef_fixture_id ` set (expected_fixtures m) \<subseteq> tk_expected (ps_tracker ?s)" using Cons.prems by (simp add: one(1))
  note ih = Cons.IH [OF this]
  obtain G D where rest: "ps_tracker (fold (preflight_fixture m io prompts) fs ?s) = (ps_tracker ?s)
       \<lparr>tk_generated := tk_generated (ps_tracker ?s) \<union> (\<Union>f \<in> set fs. generated_id m io f), tk_failed := tk_failed (ps_tracker ?s) \<union> G\<rparr>"
    "ps_cases (fold (preflight_fixture m io prompts) fs ?s) = ps_cases ?s @ D"
    "\<forall>f \<in> set fs. \<forall>e. matching_expected m f = Some e \<longrightarrow> ef_fixture_id e \<in> generated_id m io f \<longrightarrow> ef_fixture_id e \<notin> G \<longrightarrow>
          (\<exists>fx. fixture_accepted m io e f fx)"
    "\<forall>c \<in> set D. \<exists>f \<in> set fs. case_prepared m io prompts f c"
    using ih by blast
  show ?case
  proof (rule exI [of _ "F \<union> G"], rule exI [of _ "C @ D"], intro conjI)
    show "ps_tracker (fold (preflight_fixture m io prompts) (f # fs) s) = ?t\<lparr>tk_generated := tk_generated ?t
        \<union> (\<Union>f \<in> set (f # fs). generated_id m io f), tk_failed := tk_failed ?t \<union> (F \<union> G)\<rparr>"
      using rest(1) by (simp add: one(1) Un_assoc)
    show "ps_cases (fold (preflight_fixture m io prompts) (f # fs) s) = ps_cases s @ C @ D" using rest(2) by (simp add: one(2))
    show "\<forall>g \<in> set (f # fs). \<forall>e. matching_expected m g = Some e \<longrightarrow> ef_fixture_id e \<in> generated_id m io g \<longrightarrow>
        ef_fixture_id e \<notin> F \<union> G \<longrightarrow> (\<exists>fx. fixture_accepted m io e g fx)"
      using one(3) rest(3) by (metis Un_iff set_ConsD)
    show "\<forall>c \<in> set (C @ D). \<exists>g \<in> set (f # fs). case_prepared m io prompts g c" using one(4) rest(4) by auto
  qed
qed

text \<open>The calibrated fixtures.\<close>

lemma preflight_calibrated_tracker:
  assumes "tk_expected (ps_tracker s) = ef_fixture_id ` set (expected_fixtures m)"
  shows "\<exists>D F U. ps_tracker (fold (preflight_calibrated m) cs s) = (ps_tracker s)\<lparr>tk_compared := tk_compared (ps_tracker s) \<union> D,
       tk_failed := tk_failed (ps_tracker s) \<union> F, tk_unexpected := tk_unexpected (ps_tracker s) \<union> U\<rparr>
     \<and> ps_cases (fold (preflight_calibrated m) cs s) = ps_cases s
     \<and> (\<forall>i \<in> D. i \<in> set cs \<and> (\<exists>e \<in> set (expected_fixtures m). ef_fixture_id e = i \<and> ef_oracle_role e = Baseline))"
  using assms
proof (induction cs arbitrary: s)
  case Nil
  then show ?case by (intro exI [of _ "{}"]) simp
next
  case (Cons c cs)
  let ?t = "ps_tracker s" and ?s = "preflight_calibrated m c s"
  have "\<exists>D F U. ps_tracker ?s = ?t\<lparr>tk_compared := tk_compared ?t \<union> D, tk_failed := tk_failed ?t \<union> F, tk_unexpected := tk_unexpected ?t \<union> U\<rparr>
     \<and> ps_cases ?s = ps_cases s \<and> (\<forall>i \<in> D. i = c \<and> (\<exists>e \<in> set (expected_fixtures m). ef_fixture_id e = i \<and> ef_oracle_role e = Baseline))"
  proof (cases "find (\<lambda>e. ef_fixture_id e = c) (expected_fixtures m)")
    case None
    then have "c \<notin> tk_expected ?t" using Cons.prems by (auto simp: find_None_iff)
    then show ?thesis using None
      by (rule_tac exI [of _ "{}"], rule_tac exI [of _ "{}"], rule_tac exI [of _ "{c}"]) (simp add: preflight_calibrated_def record_defs)
  next
    case (Some e)
    then have e: "e \<in> set (expected_fixtures m)" "ef_fixture_id e = c" by (auto simp: find_Some_iff)
    then have c: "c \<in> tk_expected ?t" using Cons.prems by auto
    show ?thesis
    proof (cases "ef_oracle_role e \<noteq> Baseline \<or> c \<notin> tk_generated ?t \<or> c \<in> tk_failed ?t")
      case True
      then show ?thesis using Some c
        by (rule_tac exI [of _ "{}"], rule_tac exI [of _ "{c}"], rule_tac exI [of _ "{}"])
          (simp add: preflight_calibrated_def record_defs note_failed_def)
    next
      case False
      then show ?thesis using Some c e
        by (rule_tac exI [of _ "{c}"], rule_tac exI [of _ "{}"], rule_tac exI [of _ "{}"])
          (auto simp: preflight_calibrated_def record_defs)
    qed
  qed
  then obtain D F U where one: "ps_tracker ?s = ?t\<lparr>tk_compared := tk_compared ?t \<union> D, tk_failed := tk_failed ?t \<union> F,
      tk_unexpected := tk_unexpected ?t \<union> U\<rparr>" "ps_cases ?s = ps_cases s"
    "\<forall>i \<in> D. i = c \<and> (\<exists>e \<in> set (expected_fixtures m). ef_fixture_id e = i \<and> ef_oracle_role e = Baseline)"
    by blast
  have "tk_expected (ps_tracker ?s) = ef_fixture_id ` set (expected_fixtures m)" using Cons.prems by (simp add: one(1))
  note ih = Cons.IH [OF this]
  obtain D' F' U' where rest: "ps_tracker (fold (preflight_calibrated m) cs ?s) = (ps_tracker ?s)\<lparr>tk_compared := tk_compared (ps_tracker ?s) \<union> D',
       tk_failed := tk_failed (ps_tracker ?s) \<union> F', tk_unexpected := tk_unexpected (ps_tracker ?s) \<union> U'\<rparr>"
    "ps_cases (fold (preflight_calibrated m) cs ?s) = ps_cases ?s"
    "\<forall>i \<in> D'. i \<in> set cs \<and> (\<exists>e \<in> set (expected_fixtures m). ef_fixture_id e = i \<and> ef_oracle_role e = Baseline)"
    using ih by blast
  show ?case
    by (rule exI [of _ "D \<union> D'"], rule exI [of _ "F \<union> F'"], rule exI [of _ "U \<union> U'"], intro conjI)
      (use rest one(2,3) in \<open>auto simp: one(1) Un_assoc\<close>)
qed

text \<open>The comparisons.\<close>

lemma run_cases_tracker:
  assumes "run_cases opts compare n cs t r = Ok (t', r')" "(\<lambda>c. ef_fixture_id (rc_expected c)) ` set cs \<subseteq> tk_expected t"
  shows "\<exists>D S F. t' = t\<lparr>tk_compared := tk_compared t \<union> D, tk_skipped := tk_skipped t \<union> S, tk_failed := tk_failed t \<union> F\<rparr>
     \<and> (\<forall>i \<in> D. \<exists>c \<in> set cs. ef_fixture_id (rc_expected c) = i)
     \<and> (S = {} \<longrightarrow> F = {} \<longrightarrow> (\<forall>c \<in> set cs. \<exists>k cmp. compare k c = Ok cmp \<and> case_passed cmp))"
  using assms
proof (induction cs arbitrary: n t r)
  case Nil
  then show ?case by (intro exI [of _ "{}"]) simp
next
  case (Cons c cs)
  let ?i = "ef_fixture_id (rc_expected c)"
  have i: "?i \<in> tk_expected t" using Cons.prems(2) by simp
  have step: "\<exists>D S F n1 r1. run_cases opts compare n1 cs
        (t\<lparr>tk_compared := tk_compared t \<union> D, tk_skipped := tk_skipped t \<union> S, tk_failed := tk_failed t \<union> F\<rparr>) r1 = Ok (t', r')
      \<and> D \<subseteq> {?i} \<and> (S = {} \<longrightarrow> F = {} \<longrightarrow> (\<exists>k cmp. compare k c = Ok cmp \<and> case_passed cmp))"
  proof (cases "?i \<in> tk_skipped t \<or> \<not> required_layers_enabled (ef_required_comparison (rc_expected c)) opts")
    case True
    then show ?thesis using Cons.prems(1) i
      by (rule_tac exI [of _ "{}"], rule_tac exI [of _ "{?i}"], rule_tac exI [of _ "{}"], rule_tac exI [of _ n],
          rule_tac exI [of _ r]) (simp add: Let_def record_defs)
  next
    case False
    show ?thesis
    proof (cases "compare n c")
      case (Inl f)
      then obtain e where f: "f = Err e" using Cons.prems(1) False by (cases f) (auto simp: Let_def)
      then show ?thesis using Cons.prems(1) False Inl i
        by (rule_tac exI [of _ "{}"], rule_tac exI [of _ "{}"], rule_tac exI [of _ "{?i}"], rule_tac exI [of _ "Suc n"],
            rule_tac exI [of _ "r\<lparr>rep_failures := rep_failures r @ [ComparisonFailed ?i e]\<rparr>"]) (simp add: Let_def record_defs)
    next
      case (Inr cmp)
      then show ?thesis using Cons.prems(1) False i
        by (rule_tac exI [of _ "{?i}"], rule_tac exI [of _ "{}"], rule_tac exI [of _ "if case_passed cmp then {} else {?i}"],
            rule_tac exI [of _ "Suc n"], rule_tac exI [of _ "record_comparison cmp r"])
          (auto simp: Let_def record_defs split: if_splits)
    qed
  qed
  then obtain D S F n1 r1 where one: "run_cases opts compare n1 cs
        (t\<lparr>tk_compared := tk_compared t \<union> D, tk_skipped := tk_skipped t \<union> S, tk_failed := tk_failed t \<union> F\<rparr>) r1 = Ok (t', r')"
      "D \<subseteq> {?i}" "S = {} \<longrightarrow> F = {} \<longrightarrow> (\<exists>k cmp. compare k c = Ok cmp \<and> case_passed cmp)"
    by blast
  have "(\<lambda>c. ef_fixture_id (rc_expected c)) ` set cs
      \<subseteq> tk_expected (t\<lparr>tk_compared := tk_compared t \<union> D, tk_skipped := tk_skipped t \<union> S, tk_failed := tk_failed t \<union> F\<rparr>)"
    using Cons.prems(2) by simp
  note ih = Cons.IH [OF one(1) this]
  then obtain D' S' F' where rest: "t' = t\<lparr>tk_compared := tk_compared t \<union> D, tk_skipped := tk_skipped t \<union> S, tk_failed := tk_failed t \<union> F,
        tk_compared := tk_compared t \<union> D \<union> D', tk_skipped := tk_skipped t \<union> S \<union> S', tk_failed := tk_failed t \<union> F \<union> F'\<rparr>"
      "\<forall>i \<in> D'. \<exists>c \<in> set cs. ef_fixture_id (rc_expected c) = i"
      "S' = {} \<longrightarrow> F' = {} \<longrightarrow> (\<forall>c \<in> set cs. \<exists>k cmp. compare k c = Ok cmp \<and> case_passed cmp)"
    by auto
  show ?case
    by (rule exI [of _ "D \<union> D'"], rule exI [of _ "S \<union> S'"], rule exI [of _ "F \<union> F'"], intro conjI)
      (use rest one(2,3) in \<open>auto simp: Un_assoc\<close>)
qed

end
