(* ===== verification/Golden_Gate.thy ===== *)
theory Golden_Gate
  imports Golden_Lifecycle
begin

text \<open>
  The release gate of the crate \<^verbatim>\<open>vllm-oxide-test\<close>: what a passing report implies for every expected
  fixture of an accepted manifest, a run that passes, and the cases whose comparison cannot fail.
\<close>

section \<open>The gate\<close>

definition tracker_finite :: "lifecycle_tracker \<Rightarrow> bool" where
  "tracker_finite t \<longleftrightarrow> finite (tk_expected t) \<and> finite (tk_discovered t) \<and> finite (tk_generated t) \<and> finite (tk_compared t)
     \<and> finite (tk_skipped t) \<and> finite (tk_failed t) \<and> finite (tk_unexpected t)"

lemma tracker_finite_record [simp]:
  assumes "tracker_finite t"
  shows "tracker_finite (record_discovered i t)" "tracker_finite (record_generated i t)" "tracker_finite (record_compared i t)"
    "tracker_finite (record_skipped i t)" "tracker_finite (record_failed i t)" "tracker_finite (record_all_failed t)"
  using assms by (simp_all add: tracker_finite_def record_defs record_all_failed_def)

lemma tracker_finite_fold: "(\<And>x t. tracker_finite t \<Longrightarrow> tracker_finite (g x t)) \<Longrightarrow> tracker_finite t \<Longrightarrow> tracker_finite (fold g xs t)"
  by (induction xs arbitrary: t) auto

lemma tracker_finite_fold_state:
  "(\<And>x s. tracker_finite (ps_tracker s) \<Longrightarrow> tracker_finite (ps_tracker (g x s))) \<Longrightarrow>
     tracker_finite (ps_tracker s) \<Longrightarrow> tracker_finite (ps_tracker (fold g xs s))"
  by (induction xs arbitrary: s) auto

lemma tracker_finite_discover:
  "tracker_finite (ps_tracker s) \<Longrightarrow> tracker_finite (ps_tracker (discover_expected prompts es s))"
  by (induction es arbitrary: s) (simp_all add: note_failed_def Let_def split: option.split)

lemma tracker_finite_prompt: "tracker_finite t \<Longrightarrow> tracker_finite (discover_prompt ids p t)"
  by (simp add: discover_prompt_def Let_def)

lemma tracker_finite_entry: "tracker_finite (ps_tracker s) \<Longrightarrow> tracker_finite (ps_tracker (scan_entry names entry s))"
  by (simp add: scan_entry_def split: sum.split)

lemma tracker_finite_directory: "tracker_finite (ps_tracker s) \<Longrightarrow> tracker_finite (ps_tracker (scan_directory m io s))"
  by (auto simp: scan_directory_def Let_def intro: tracker_finite_fold tracker_finite_fold_state tracker_finite_entry split: sum.split)

lemma tracker_finite_fixture: "tracker_finite (ps_tracker s) \<Longrightarrow> tracker_finite (ps_tracker (preflight_fixture m io prompts f s))"
  by (simp add: preflight_fixture_def note_failed_def Let_def split: option.split sum.split)

lemma tracker_finite_calibrated: "tracker_finite (ps_tracker s) \<Longrightarrow> tracker_finite (ps_tracker (preflight_calibrated m c s))"
  by (simp add: preflight_calibrated_def note_failed_def split: option.split)

lemma tracker_finite_preflight: "tracker_finite (ps_tracker (preflight m io prompts))"
proof -
  have "tracker_finite (fold (\<lambda>(_, p). discover_prompt ids p) prompts t)" if "tracker_finite t" for ids t
    using that by (rule tracker_finite_fold [rotated]) (auto intro: tracker_finite_prompt)
  moreover have "tracker_finite (tracker_new ids)" for ids by (simp add: tracker_finite_def tracker_new_def)
  ultimately show ?thesis
    unfolding preflight_def Let_def
    by (intro tracker_finite_fold_state tracker_finite_calibrated tracker_finite_fixture tracker_finite_directory)
      (simp_all add: tracker_finite_discover)
qed

lemma tracker_finite_run:
  "run_cases opts compare n cs t r = Ok (t', r') \<Longrightarrow> tracker_finite t \<Longrightarrow> tracker_finite t'"
proof (induction opts compare n cs t r rule: run_cases.induct)
  case (2 opts compare n c cs t r)
  show ?case
  proof (cases "ef_fixture_id (rc_expected c) \<in> tk_skipped t \<or> \<not> required_layers_enabled (ef_required_comparison (rc_expected c)) opts")
    case True
    then show ?thesis using 2 by (simp add: Let_def)
  next
    case False
    then show ?thesis using 2 by (cases "compare n c") (auto simp: Let_def split: failure.splits if_splits)
  qed
qed simp

lemma release_passed_sets:
  assumes "release_passed (totals t)" "tracker_finite t"
  shows "tk_expected t \<noteq> {}" "tk_expected t \<subseteq> tk_discovered t" "tk_expected t \<subseteq> tk_generated t"
    "tk_unexpected t = {}" "tk_skipped t = {}" "tk_failed t = {}" "card (tk_compared t) = card (tk_expected t)"
  using assms by (auto simp: release_passed_def totals_def tracker_finite_def)

text \<open>Identifiers of fixtures are not names of safetensors files.\<close>

lemma file_name_plain:
  "CHR ''/'' \<notin> set s \<Longrightarrow> s \<noteq> [] \<Longrightarrow> s \<noteq> ''.'' \<Longrightarrow> s \<noteq> ''..'' \<Longrightarrow> file_name s = Some s"
  by (auto simp: file_name_def path_components_def split_on_absent part_components_def is_absolute_def split: list.splits)

lemma fixture_id_no_extension:
  assumes "list_all is_id_char p"
  shows "\<not> has_safetensors_extension (canonical_id p label)"
proof -
  let ?i = "canonical_id p label"
  have "CHR ''/'' \<notin> set p" using assms by (auto simp: list_all_iff is_id_char_def Let_def)
  then have "CHR ''/'' \<notin> set ?i" by (auto simp: canonical_id_def oracle_label_def split: oracle_name.splits)
  moreover have "5 \<le> length ?i" by (simp add: canonical_id_def oracle_label_def split: oracle_name.splits)
  ultimately have name: "file_name ?i = Some ?i" by (intro file_name_plain) auto
  have "drop (length ?i - 12) ?i \<noteq> ''.safetensors''" if "12 < length ?i"
  proof (cases label)
    case Transformers
    then show ?thesis by (simp add: canonical_id_def oracle_label_def)
  next
    case Vllm
    have "last (drop (length ?i - 12) ?i) = last ?i" using that by (simp add: last_drop)
    then show ?thesis using Vllm by (auto simp: canonical_id_def oracle_label_def)
  next
    case Fake
    have "last (drop (length ?i - 12) ?i) = last ?i" using that by (simp add: last_drop)
    then show ?thesis using Fake by (auto simp: canonical_id_def oracle_label_def)
  qed
  then show ?thesis by (simp add: has_safetensors_extension_def name)
qed

lemma expected_no_extension:
  assumes "validate_manifest_contract m purpose = Ok ()" "i \<in> ef_fixture_id ` set (expected_fixtures m)"
  shows "\<not> has_safetensors_extension i"
proof -
  obtain e where "e \<in> set (expected_fixtures m)" "i = ef_fixture_id e" using assms(2) by blast
  then show ?thesis using accepted_expected(3) [OF assms(1)] fixture_id_no_extension by (auto simp: expected_ok_def)
qed

text \<open>The whole preflight of an accepted manifest.\<close>

lemma preflight_tracker:
  fixes io :: "'b preflight_io" and prompts :: prompt_map
  assumes ok: "validate_manifest_contract m purpose = Ok ()"
  defines "ids \<equiv> ef_fixture_id ` set (expected_fixtures m)" and "t \<equiv> ps_tracker (preflight m io prompts)"
  shows "tk_expected t = ids \<and> tk_discovered t = known_ids prompts (expected_fixtures m)
    \<and> misfiled_ids prompts (expected_fixtures m) \<subseteq> tk_failed t
    \<and> tk_generated t = (\<Union>f \<in> set (fixtures m). generated_id m io f) \<and> tk_skipped t = {}
    \<and> (\<forall>i \<in> tk_compared t. i \<in> set (calibrated_fixtures m)
         \<and> (\<exists>e \<in> set (expected_fixtures m). ef_fixture_id e = i \<and> ef_oracle_role e = Baseline))
    \<and> (\<forall>c \<in> set (ps_cases (preflight m io prompts)). \<exists>f \<in> set (fixtures m). case_prepared m io prompts f c)
    \<and> (\<forall>f \<in> set (fixtures m). \<forall>e. matching_expected m f = Some e \<longrightarrow> ef_fixture_id e \<in> generated_id m io f \<longrightarrow>
         ef_fixture_id e \<notin> tk_failed t \<longrightarrow> (\<exists>fx. fixture_accepted m io e f fx))
    \<and> (tk_failed t = {} \<longrightarrow> tk_unexpected t = {} \<longrightarrow> (\<exists>entries. pf_dir io = Ok entries
         \<and> list_all (entry_admitted (set (map ef_filename (expected_fixtures m)))) entries))"
proof -
  define s0 :: preflight_state where "s0 = \<lparr>ps_tracker = tracker_new (map ef_fixture_id (expected_fixtures m)), ps_cases = [], ps_errors = []\<rparr>"
  define s1 where "s1 = discover_expected prompts (expected_fixtures m) s0"
  define s2 where "s2 = s1\<lparr>ps_tracker := fold (\<lambda>(_, p). discover_prompt (set (map ef_fixture_id (expected_fixtures m))) p) prompts (ps_tracker s1)\<rparr>"
  define s3 where "s3 = scan_directory m io s2"
  define s4 where "s4 = fold (preflight_fixture m io prompts) (fixtures m) s3"
  define s5 where "s5 = fold (preflight_calibrated m) (calibrated_fixtures m) s4"
  have s5: "preflight m io prompts = s5"
    by (simp only: preflight_def Let_def s5_def s4_def s3_def s2_def s1_def s0_def)
  have idset: "set (map ef_fixture_id (expected_fixtures m)) = ids" by (simp add: ids_def)
  have e0: "ef_fixture_id ` set (expected_fixtures m) \<subseteq> tk_expected (ps_tracker s0)" by (simp add: s0_def tracker_new_def)
  note d1 = discover_expected_tracker [OF e0, where prompts = prompts, folded s1_def]
  have t1: "tk_expected (ps_tracker s1) = ids" "tk_discovered (ps_tracker s1) = known_ids prompts (expected_fixtures m)"
    "tk_failed (ps_tracker s1) = misfiled_ids prompts (expected_fixtures m)" "tk_generated (ps_tracker s1) = {}"
    "tk_compared (ps_tracker s1) = {}" "tk_skipped (ps_tracker s1) = {}" "ps_cases s1 = []"
    unfolding conjunct1 [OF d1] conjunct2 [OF d1] by (simp_all add: s0_def tracker_new_def ids_def)
  obtain U where U: "ps_tracker s2 = (ps_tracker s1)\<lparr>tk_unexpected := tk_unexpected (ps_tracker s1) \<union> U\<rparr>"
    using discover_prompts_tracker [OF t1(1), where prompts = prompts] unfolding s2_def idset by auto
  have c2: "ps_cases s2 = []" by (simp add: s2_def t1(7))
  obtain F V where s3: "ps_tracker s3 = (ps_tracker s2)\<lparr>tk_failed := tk_failed (ps_tracker s2) \<union> F, tk_unexpected := tk_unexpected (ps_tracker s2) \<union> V\<rparr>"
    and c3: "ps_cases s3 = []" and dir: "F = {} \<longrightarrow> V = {} \<longrightarrow> (\<exists>entries. pf_dir io = Ok entries
         \<and> list_all (entry_admitted (set (map ef_filename (expected_fixtures m)))) entries)"
  proof (cases "pf_dir io")
    case (Inl f)
    have "fold record_failed (map ef_fixture_id (expected_fixtures m)) (ps_tracker s2)
        = (ps_tracker s2)\<lparr>tk_failed := tk_failed (ps_tracker s2) \<union> ids\<rparr>"
      using record_failed_all [of "map ef_fixture_id (expected_fixtures m)" "ps_tracker s2"] U t1(1) by (simp add: ids_def)
    moreover have "ids \<noteq> {}" using accepted_stages [OF ok] by (auto simp: ids_def)
    ultimately show thesis using Inl c2 by (intro that [where F = ids and V = "{}"]) (simp_all add: s3_def scan_directory_def Let_def)
  next
    case (Inr entries)
    let ?names = "set (map ef_filename (expected_fixtures m))"
    have "tk_expected (ps_tracker s2) = ids" using t1(1) by (simp add: U)
    then have "\<And>i. i \<in> tk_expected (ps_tracker s2) \<Longrightarrow> \<not> has_safetensors_extension i"
      using expected_no_extension [OF ok] by (simp add: ids_def)
    note sc = scan_entries_tracker [OF this, where names = ?names and entries = entries]
    have "ids \<noteq> {}" using accepted_stages [OF ok] by (auto simp: ids_def)
    then have ne: "tk_expected (ps_tracker s2) \<noteq> {}" using t1(1) by (simp add: U)
    have s3: "s3 = fold (scan_entry ?names) entries s2" by (simp add: s3_def scan_directory_def Inr)
    from sc obtain F V where "ps_tracker s3 = (ps_tracker s2)\<lparr>tk_failed := tk_failed (ps_tracker s2) \<union> F, tk_unexpected := tk_unexpected (ps_tracker s2) \<union> V\<rparr>
      \<and> ps_cases s3 = ps_cases s2 \<and> (\<not> list_all (entry_admitted ?names) entries \<longrightarrow> tk_expected (ps_tracker s2) \<subseteq> F \<or> V \<noteq> {})"
      unfolding s3 by blast
    then show thesis using c2 ne Inr by (intro that [where F = F and V = V]) auto
  qed
  have e3: "tk_expected (ps_tracker s3) = ids" by (simp add: s3 U t1(1))
  then have "ef_fixture_id ` set (expected_fixtures m) \<subseteq> tk_expected (ps_tracker s3)" by (simp add: ids_def)
  from preflight_fixtures_tracker [OF this, where io = io and prompts = prompts and fs = "fixtures m", folded s4_def]
  obtain G C where s4: "ps_tracker s4 = (ps_tracker s3)\<lparr>tk_generated := tk_generated (ps_tracker s3) \<union> (\<Union>f \<in> set (fixtures m). generated_id m io f),
        tk_failed := tk_failed (ps_tracker s3) \<union> G\<rparr>" "ps_cases s4 = ps_cases s3 @ C"
    "\<forall>f \<in> set (fixtures m). \<forall>e. matching_expected m f = Some e \<longrightarrow> ef_fixture_id e \<in> generated_id m io f \<longrightarrow> ef_fixture_id e \<notin> G \<longrightarrow>
          (\<exists>fx. fixture_accepted m io e f fx)"
    "\<forall>c \<in> set C. \<exists>f \<in> set (fixtures m). case_prepared m io prompts f c" by blast
  have "tk_expected (ps_tracker s4) = ef_fixture_id ` set (expected_fixtures m)" using e3 by (simp add: s4(1) ids_def)
  from preflight_calibrated_tracker [OF this, where cs = "calibrated_fixtures m", folded s5_def]
  obtain D H W where s5': "ps_tracker s5 = (ps_tracker s4)\<lparr>tk_compared := tk_compared (ps_tracker s4) \<union> D,
       tk_failed := tk_failed (ps_tracker s4) \<union> H, tk_unexpected := tk_unexpected (ps_tracker s4) \<union> W\<rparr>" "ps_cases s5 = ps_cases s4"
    "\<forall>i \<in> D. i \<in> set (calibrated_fixtures m) \<and> (\<exists>e \<in> set (expected_fixtures m). ef_fixture_id e = i \<and> ef_oracle_role e = Baseline)"
    by blast
  show ?thesis
    unfolding t_def s5
    using s4(3,4) s5'(3) dir by (intro conjI) (auto simp: s5'(1,2) s4(1,2) s3 c3 U t1)
qed

text \<open>The reference and the generation of a case agree: for a canonical fixture the tokens are equal or part
  at a near tie, and the logits of all rows up to that point are close; for a regression fixture the
  tokens are equal.\<close>

definition reference_agrees :: "golden_manifest \<Rightarrow> reference_case \<Rightarrow> captured_generation \<Rightarrow> bool" where
  "reference_agrees m c cap \<longleftrightarrow> (\<exists>tokens rest. cap_tokens_by_input cap = tokens # rest \<and>
     (let fx = rc_fixture c; policy = manifest_policy m; vocab = model_vocab_size (manifest_model m);
          k = shared_prefix (fd_token_ids fx) tokens in
      case fm_category (rc_metadata c) of
        RegressionPrompt \<Rightarrow> fd_token_ids fx = map (\<lambda>t. int (unat t)) tokens
      | CanonicalPrompt \<Rightarrow>
          (fd_token_ids fx = map (\<lambda>t. int (unat t)) tokens
             \<or> k < length (fd_token_ids fx) \<and> k < length tokens
               \<and> near_tie_at (Some (cap_logits cap, vocab)) policy k (fd_token_ids fx ! k) (int (unat (tokens ! k))))
          \<and> (\<exists>reference. fd_logits fx = Some reference
               \<and> (\<forall>j < min (Suc k) (min (length (fd_token_ids fx)) (length tokens)).
                    row_close (l2_atol policy) (snd (fd_logits_shape fx)) reference (cap_logits cap) j))))"

lemma geometry_Ok: "generated_logits_geometry [a, b] n v = Ok (x, w) \<Longrightarrow> w = v"
  by (auto simp: generated_logits_geometry_def split: if_splits)

lemma passed_case_agrees:
  assumes ok: "compare_reference_case m opts generated c = Ok cmp" and passed: "case_passed cmp"
  obtains cap where "generated = Ok cap" "reference_agrees m c cap"
proof -
  let ?fx = "rc_fixture c" and ?p = "manifest_policy m" and ?v = "model_vocab_size (manifest_model m)"
  obtain cap n w tokens l1 l2 where g: "generated = Ok cap"
    "generated_logits_geometry [fst (cap_tensor_shape cap), snd (cap_tensor_shape cap)] (length (cap_logits cap)) ?v = Ok (n, w)"
    and t: "get_at (cap_tokens_by_input cap) 0 = Some tokens"
    and r: "(case fm_category (rc_metadata c) of
               CanonicalPrompt \<Rightarrow>
                 rbind (map_err CompareFailed (compare_l1 ?fx tokens (Some (cap_logits cap, w)) ?p)) (\<lambda>r1.
                 rbind (map_err CompareFailed (compare_l2 ?fx (cap_logits cap) tokens ?p)) (\<lambda>r2. Ok (Some r1, Some r2)))
             | RegressionPrompt \<Rightarrow>
                 rbind (map_err CompareFailed (compare_l1_tokens_only ?fx tokens ?p)) (\<lambda>r1. Ok (Some r1, None))) = Ok (l1, l2)"
    and cmp: "cc_l1 cmp = l1" "cc_l2 cmp = l2"
    using ok by (auto simp: compare_reference_case_def Let_def rbind_Ok_iff ok_or_def split: option.splits)
  have w: "w = ?v" by (rule geometry_Ok [OF g(2)])
  obtain rest where tokens: "cap_tokens_by_input cap = tokens # rest"
    using t by (cases "cap_tokens_by_input cap") (auto simp: get_at_def)
  have "reference_agrees m c cap"
  proof (cases "fm_category (rc_metadata c)")
    case RegressionPrompt
    then obtain r1 where "compare_l1_tokens_only ?fx tokens ?p = Ok r1" "l1 = Some r1" using r by (auto simp: rbind_Ok_iff)
    then have "fd_token_ids ?fx = map (\<lambda>t. int (unat t)) tokens"
      using compare_l1_tokens_only_verdict [of ?fx tokens ?p r1] passed cmp by (simp add: case_passed_def)
    then show ?thesis using RegressionPrompt tokens by (auto simp: reference_agrees_def Let_def)
  next
    case CanonicalPrompt
    then obtain r1 r2 where r1: "compare_l1 ?fx tokens (Some (cap_logits cap, ?v)) ?p = Ok r1" "l1 = Some r1"
      and r2: "compare_l2 ?fx (cap_logits cap) tokens ?p = Ok r2" "l2 = Some r2" using r w by (auto simp: rbind_Ok_iff)
    have p: "l1_passed r1" "l2_passed r2" using passed cmp r1(2) r2(2) by (simp_all add: case_passed_def)
    note tok = iffD1 [OF compare_l1_verdict(1) [OF r1(1)] p(1)]
    have "\<exists>reference. fd_logits ?fx = Some reference
        \<and> (\<forall>j < min (Suc (shared_prefix (fd_token_ids ?fx) tokens)) (min (length (fd_token_ids ?fx)) (length tokens)).
             row_close (l2_atol ?p) (snd (fd_logits_shape ?fx)) reference (cap_logits cap) j)"
    proof (cases rule: compare_l2_cases [of ?fx "cap_logits cap" tokens ?p])
      case (run reference st)
      have "scan_exceeding st = 0" using run(3) r2(1) p(2) by (auto simp: l2_report_def Let_def)
      then show ?thesis using run(1,4) by blast
    qed (use r2(1) in simp_all)
    then show ?thesis using tok CanonicalPrompt tokens by (simp add: reference_agrees_def Let_def)
  qed
  then show thesis by (rule that [OF g(1)])
qed

text \<open>A run over the manifest \<open>sample_manifest\<close>.\<close>

definition sample_pf :: "unit preflight_io" where
  "sample_pf = \<lparr>pf_dir = Ok [], pf_read = (\<lambda>_. Ok ()), pf_reread = (\<lambda>_. Ok ()), pf_sha256 = (\<lambda>_. replicate 64 CHR ''4''),
     pf_deserialize = (\<lambda>_. Ok (regression_tensors [5] 3 [5, 6, 7, 8, 9] [0, 0, 0, 0, 0]))\<rparr>"

definition sample_prompts :: prompt_map where
  "sample_prompts = [(''r_01'', \<lparr>pe_id = ''r_01'', pe_family = Regression, pe_prompt = ''hello''\<rparr>)]"

definition sample_options :: driver_options where
  "sample_options = \<lparr>l1_only = False, l2_only = False, debug_layers = False\<rparr>"

definition sample_capture :: captured_generation where
  "sample_capture = \<lparr>cap_logits = replicate 151936 (F32_Finite 0), cap_tensor_shape = (1, 151936), cap_tokens_by_input = [[5]]\<rparr>"

definition sample_data :: "oracle_name \<Rightarrow> fixture_data" where
  "sample_data label = \<lparr>fd_prompt_id = ''r_01'', fd_category = RegressionPrompt, fd_oracle = label, fd_num_tokens = 1,
     fd_token_ids = [5], fd_n_prompt_tokens = 3, fd_logits = None, fd_logits_shape = (0, 0),
     fd_top5_indices = Some [5, 6, 7, 8, 9], fd_top5_logits = Some (map f32_from_bits [0, 0, 0, 0, 0])\<rparr>"

definition sample_case :: reference_case where
  "sample_case = \<lparr>rc_expected = sample_expected Transformers Reference CompareL1, rc_metadata = sample_metadata Transformers,
     rc_fixture = sample_data Transformers, rc_prompt = \<lparr>pe_id = ''r_01'', pe_family = Regression, pe_prompt = ''hello''\<rparr>\<rparr>"

lemma sample_load: "load_fixture (pf_deserialize sample_pf) (Ok ()) (sample_metadata label) = Ok (sample_data label)"
proof -
  have d: "pf_deserialize sample_pf () = Ok (regression_tensors [5] 3 [5, 6, 7, 8, 9] [0, 0, 0, 0, 0])" by (simp add: sample_pf_def)
  have m: "fm_category (sample_metadata label) = RegressionPrompt" "fm_num_tokens (sample_metadata label) = length [5 :: 64 word]"
    "fm_logits_shape (sample_metadata label) = (0, 0)" "fm_prompt_id (sample_metadata label) = ''r_01''"
    "fm_oracle (sample_metadata label) = label"
    by (simp_all add: sample_metadata_def)
  have n: "map sint [5 :: 64 word] = [5]" "sint (3 :: 64 word) = 3" "map sint [5 :: 64 word, 6, 7, 8, 9] = [5, 6, 7, 8, 9]"
    "length [5 :: 64 word] = 1" by simp_all
  show ?thesis
    unfolding sample_data_def using load_regression_file [where deserialize = "pf_deserialize sample_pf" and bytes = "()", OF d _ m(1-3), unfolded m(4,5) n] by simp
qed

lemma sample_names: "canonical_id ''r_01'' Transformers = ''r_01.transformers''" "canonical_id ''r_01'' Vllm = ''r_01.vllm''"
  by (simp_all add: canonical_id_def oracle_label_def)

lemma sample_lists: "expected_fixtures sample_manifest = [sample_expected Transformers Reference CompareL1, sample_expected Vllm Baseline Calibration]"
  "fixtures sample_manifest = [sample_metadata Transformers, sample_metadata Vllm]"
  "calibrated_fixtures sample_manifest = [''r_01.vllm'']"
  "ef_fixture_id (sample_expected l r c) = canonical_id ''r_01'' l" "ef_prompt_id (sample_expected l r c) = ''r_01''"
  "ef_family (sample_expected l r c) = Regression" "ef_oracle_role (sample_expected l r c) = r"
  "ef_required_comparison (sample_expected l r c) = c"
  by (simp_all add: sample_manifest_def sample_names sample_expected_def)

lemma sample_meta: "fm_prompt_id (sample_metadata l) = ''r_01''" "fm_oracle (sample_metadata l) = l"
  "fm_filename (sample_metadata l) = canonical_id ''r_01'' l @ ''.safetensors''"
  "ef_filename (sample_expected l r c) = canonical_id ''r_01'' l @ ''.safetensors''" "ef_oracle (sample_expected l r c) = l"
  "fm_category (sample_metadata l) = RegressionPrompt" "fm_logits_shape (sample_metadata l) = (0, 0)"
  "fm_sha256 (sample_metadata l) = replicate 64 CHR ''4''"
  by (simp_all add: sample_metadata_def sample_expected_def)

lemma sample_matching:
  "matching_expected sample_manifest (sample_metadata Transformers) = Some (sample_expected Transformers Reference CompareL1)"
  "matching_expected sample_manifest (sample_metadata Vllm) = Some (sample_expected Vllm Baseline Calibration)"
  by (simp_all add: matching_expected_def sample_lists sample_meta)

lemma sample_fixture_step:
  assumes "label = Transformers \<or> label = Vllm"
  shows "preflight_fixture sample_manifest sample_pf sample_prompts (sample_metadata label) s
    = s\<lparr>ps_tracker := record_generated (canonical_id ''r_01'' label) (ps_tracker s),
        ps_cases := ps_cases s @ (if label = Transformers then [sample_case] else [])\<rparr>"
proof -
  have reads: "pf_read sample_pf x = Ok ()" "pf_reread sample_pf x = Ok ()" "pf_sha256 sample_pf u = replicate 64 CHR ''4''" for x u
    by (simp_all add: sample_pf_def)
  have vals: "validate_fixture_values (sample_data l) (model_vocab_size (manifest_model sample_manifest)) = Ok ()" for l
    by (simp add: validate_fixture_values_def sample_data_def token_is_in_vocab_def sample_manifest_def)
  have shape: "family_shape_ok sample_manifest (sample_expected l r c) (sample_metadata l)" for l r c
    by (simp add: family_shape_ok_def sample_lists sample_meta)
  have prompt: "map_of sample_prompts ''r_01'' = Some (rc_prompt sample_case)" "pe_family (rc_prompt sample_case) = Regression"
    "\<lparr>rc_expected = sample_expected Transformers Reference CompareL1, rc_metadata = sample_metadata Transformers,
       rc_fixture = sample_data Transformers, rc_prompt = rc_prompt sample_case\<rparr> = sample_case"
    by (simp_all add: sample_prompts_def sample_case_def)
  show ?thesis
    using assms
    by (elim disjE) (simp_all add: preflight_fixture_def sample_matching reads sample_meta sample_load vals shape Let_def
      sample_lists prompt)
qed

definition sample_tracker :: lifecycle_tracker where
  "sample_tracker = \<lparr>tk_expected = {''r_01.transformers'', ''r_01.vllm''}, tk_discovered = {''r_01.transformers'', ''r_01.vllm''},
     tk_generated = {''r_01.transformers'', ''r_01.vllm''}, tk_compared = {''r_01.vllm''}, tk_skipped = {}, tk_failed = {},
     tk_unexpected = {}\<rparr>"

lemma sample_preflight: "ps_tracker (preflight sample_manifest sample_pf sample_prompts) = sample_tracker
    \<and> ps_cases (preflight sample_manifest sample_pf sample_prompts) = [sample_case]"
proof -
  define s0 :: preflight_state where "s0 = \<lparr>ps_tracker = tracker_new [''r_01.transformers'', ''r_01.vllm''], ps_cases = [], ps_errors = []\<rparr>"
  let ?es = "expected_fixtures sample_manifest"
  define s1 where "s1 = s0\<lparr>ps_tracker := (ps_tracker s0)\<lparr>tk_discovered := {''r_01.transformers'', ''r_01.vllm''}\<rparr>\<rparr>"
  have ids: "map ef_fixture_id ?es = [''r_01.transformers'', ''r_01.vllm'']" by (simp add: sample_lists sample_names)
  have d: "discover_expected sample_prompts ?es s0 = s1"
    by (simp add: sample_lists sample_names sample_prompts_def s0_def s1_def tracker_new_def record_defs Let_def insert_commute)
  have f: "fold (\<lambda>(_, p). discover_prompt (set [''r_01.transformers'', ''r_01.vllm'']) p) sample_prompts t = t" for t
    by (simp add: sample_prompts_def discover_prompt_def Let_def)
  have s: "scan_directory sample_manifest sample_pf s = s" for s by (simp add: scan_directory_def sample_pf_def)
  define s4 where "s4 = s1\<lparr>ps_tracker := (ps_tracker s1)\<lparr>tk_generated := {''r_01.transformers'', ''r_01.vllm''}\<rparr>, ps_cases := [sample_case]\<rparr>"
  have g: "fold (preflight_fixture sample_manifest sample_pf sample_prompts) (fixtures sample_manifest) s1 = s4"
    by (simp add: sample_lists(2) sample_fixture_step sample_names record_defs s4_def s1_def s0_def tracker_new_def insert_commute)
  have c: "preflight_calibrated sample_manifest ''r_01.vllm'' s4 = s4\<lparr>ps_tracker := sample_tracker\<rparr>"
    by (simp add: preflight_calibrated_def sample_lists sample_names s4_def s1_def s0_def tracker_new_def record_defs sample_tracker_def)
  have u: "s1\<lparr>ps_tracker := ps_tracker s1\<rparr> = s1" by simp
  have "preflight sample_manifest sample_pf sample_prompts = s4\<lparr>ps_tracker := sample_tracker\<rparr>"
    unfolding preflight_def Let_def ids s0_def [symmetric] d f s u g sample_lists(3) by (simp add: c)
  then show ?thesis by (simp add: s4_def)
qed

lemma sample_compared: "\<exists>r1. compare_reference_case sample_manifest sample_options (Ok sample_capture) sample_case
    = Ok \<lparr>cc_l1 = Some r1, cc_l2 = None, cc_l3 = None\<rparr> \<and> l1_passed r1"
proof -
  have "fm_category (rc_metadata sample_case) = RegressionPrompt" by (simp add: sample_case_def sample_metadata_def)
  moreover have "generated_logits_geometry [1, 151936] 151936 (model_vocab_size (manifest_model sample_manifest)) = Ok (1, 151936)"
    by (simp add: generated_logits_geometry_def sample_manifest_def checked_mul_def usize_bound_def)
  moreover obtain r1 where r1: "compare_l1_tokens_only (rc_fixture sample_case) [5] (manifest_policy sample_manifest) = Ok r1"
    by (auto simp: compare_l1_tokens_only_def compare_tokens_loop_def classify_exact_def sample_case_def sample_data_def Let_def)
  moreover have "l1_passed r1"
    using compare_l1_tokens_only_verdict [OF r1] by (simp add: sample_case_def sample_data_def)
  ultimately show ?thesis
    by (simp add: compare_reference_case_def sample_capture_def ok_or_def get_at_def sample_options_def Let_def)
qed

lemma sample_run: "\<exists>report. run_comparison sample_manifest sample_pf sample_prompts sample_options (\<lambda>_ _. Ok sample_capture) = Ok report
    \<and> overall_passed report"
proof -
  obtain r1 where r1: "compare_reference_case sample_manifest sample_options (Ok sample_capture) sample_case
      = Ok \<lparr>cc_l1 = Some r1, cc_l2 = None, cc_l3 = None\<rparr>" "l1_passed r1" using sample_compared by blast
  have e: "rc_expected sample_case = sample_expected Transformers Reference CompareL1" by (simp add: sample_case_def)
  have rel: "release_passed (totals (record_compared ''r_01.transformers'' sample_tracker))"
    by (auto simp: record_defs sample_tracker_def totals_def release_passed_def)
  have en: "required_layers_enabled CompareL1 sample_options" "i \<notin> tk_skipped sample_tracker" for i
    by (simp_all add: required_layers_enabled_def sample_options_def sample_tracker_def)
  show ?thesis
    using rel r1(2)
    by (simp add: run_comparison_def run_prepared_comparisons_def sample_preflight e sample_lists sample_names r1(1) Let_def
        en case_passed_def overall_passed_def reference_passed_def
        l1_results_passed_def l2_results_passed_def record_comparison_def option_list_def)
qed

text \<open>C16: The release gate is closed unless everything was checked. When the manifest was accepted and the
  report of a comparison run passes, then for every expected fixture its prompt was found with the
  family the manifest declares; there is a generated file that belongs to it, was read with the declared
  checksum, parsed, and has admissible values and shape; a reference fixture was compared with a
  generation that agrees with it, and a baseline fixture is in the calibration evidence. Moreover the
  fixture directory could be listed completely and holds no safetensors file that is not expected.\<close>

theorem release_gate_closed:
  assumes "validate_manifest_contract m purpose = Ok ()"
    and "run_comparison m io prompts opts generate = Ok report" and "overall_passed report"
  shows "(\<forall>e \<in> set (expected_fixtures m). \<exists>p f fx. map_of prompts (ef_prompt_id e) = Some p \<and> pe_family p = ef_family e
      \<and> f \<in> set (fixtures m) \<and> matching_expected m f = Some e \<and> fixture_accepted m io e f fx
      \<and> (case ef_oracle_role e of
           Baseline \<Rightarrow> ef_fixture_id e \<in> set (calibrated_fixtures m)
         | Reference \<Rightarrow> (let c = \<lparr>rc_expected = e, rc_metadata = f, rc_fixture = fx, rc_prompt = p\<rparr> in
             \<exists>n cap. generate n c = Ok cap \<and> reference_agrees m c cap)))
    \<and> (\<exists>entries. pf_dir io = Ok entries \<and> list_all (entry_admitted (set (map ef_filename (expected_fixtures m)))) entries)"
proof -
  let ?ids = "ef_fixture_id ` set (expected_fixtures m)" and ?s = "preflight m io prompts" and ?es = "expected_fixtures m"
  let ?compare = "\<lambda>n c. compare_reference_case m opts (generate n c) c"
  obtain t r r0 where run: "run_cases opts ?compare 0 (ps_cases ?s) (ps_tracker ?s) r0 = Ok (t, r)"
    and rep: "report = r\<lparr>rep_lifecycle := totals t\<rparr>"
    using assms(2) by (auto simp: run_comparison_def run_prepared_comparisons_def rbind_Ok_iff)
  note pre = preflight_tracker [OF assms(1), where io = io and prompts = prompts]
  have rel: "release_passed (totals t)" using assms(3) by (simp add: overall_passed_def rep)
  note sets = release_passed_sets [OF rel tracker_finite_run [OF run tracker_finite_preflight]]
  note p = conjunct1 [OF pre] conjunct1 [OF conjunct2 [OF pre]] conjunct1 [OF conjunct2 [OF conjunct2 [OF pre]]]
    conjunct1 [OF conjunct2 [OF conjunct2 [OF conjunct2 [OF pre]]]]
  note later = conjunct2 [OF conjunct2 [OF conjunct2 [OF conjunct2 [OF conjunct2 [OF pre]]]]]
  note calibrated = bspec [OF conjunct1 [OF later]] and prepared = bspec [OF conjunct1 [OF conjunct2 [OF later]]]
    and accepted = bspec [OF conjunct1 [OF conjunct2 [OF conjunct2 [OF later]]], THEN spec, THEN mp, THEN mp, THEN mp]
    and listed = mp [OF mp [OF conjunct2 [OF conjunct2 [OF conjunct2 [OF later]]]]]
  have cases_in: "(\<lambda>c. ef_fixture_id (rc_expected c)) ` set (ps_cases ?s) \<subseteq> tk_expected (ps_tracker ?s)"
    using prepared unfolding p(1) by (fastforce simp: case_prepared_def matching_expected_def find_Some_iff)
  obtain D S F where t: "t = (ps_tracker ?s)\<lparr>tk_compared := tk_compared (ps_tracker ?s) \<union> D, tk_skipped := tk_skipped (ps_tracker ?s) \<union> S,
        tk_failed := tk_failed (ps_tracker ?s) \<union> F\<rparr>" "\<forall>i \<in> D. \<exists>c \<in> set (ps_cases ?s). ef_fixture_id (rc_expected c) = i"
      "S = {} \<longrightarrow> F = {} \<longrightarrow> (\<forall>c \<in> set (ps_cases ?s). \<exists>k cmp. ?compare k c = Ok cmp \<and> case_passed cmp)"
    using run_cases_tracker [OF run cases_in] by blast
  have none: "tk_failed (ps_tracker ?s) = {}" "tk_unexpected (ps_tracker ?s) = {}" "S = {}" "F = {}"
    using sets(4-6) by (simp_all add: t(1))
  have ex: "tk_expected t = ?ids" "tk_discovered t = known_ids prompts ?es"
    "tk_generated t = (\<Union>f \<in> set (fixtures m). generated_id m io f)" by (simp_all add: t(1) p)
  have how: "(i \<in> set (calibrated_fixtures m) \<and> (\<exists>e \<in> set ?es. ef_fixture_id e = i \<and> ef_oracle_role e = Baseline))
      \<or> (\<exists>c \<in> set (ps_cases ?s). ef_fixture_id (rc_expected c) = i)" if "i \<in> tk_compared t" for i
    using that calibrated [of i] t(2) by (auto simp: t(1))
  have sub: "tk_compared t \<subseteq> ?ids"
  proof
    fix i assume "i \<in> tk_compared t"
    from how [OF this] show "i \<in> ?ids" using cases_in unfolding p(1) by blast
  qed
  have "card (tk_compared t) = card ?ids" using sets(7) by (simp only: ex(1))
  with sub have comp: "tk_compared t = ?ids" by (intro card_subset_eq) simp_all
  have dist: "e = e'" if "e \<in> set ?es" "e' \<in> set ?es" "ef_fixture_id e = ef_fixture_id e'" for e e'
    using accepted_expected(1) [OF assms(1)] that by (simp add: distinct_map inj_on_def)
  have match_in: "e \<in> set ?es" if "matching_expected m f = Some e" for e f
    using that by (auto simp: matching_expected_def find_Some_iff)
  have each: "\<exists>q f fx. map_of prompts (ef_prompt_id e) = Some q \<and> pe_family q = ef_family e
      \<and> f \<in> set (fixtures m) \<and> matching_expected m f = Some e \<and> fixture_accepted m io e f fx
      \<and> (case ef_oracle_role e of
           Baseline \<Rightarrow> ef_fixture_id e \<in> set (calibrated_fixtures m)
         | Reference \<Rightarrow> (let c = \<lparr>rc_expected = e, rc_metadata = f, rc_fixture = fx, rc_prompt = q\<rparr> in
             \<exists>n cap. generate n c = Ok cap \<and> reference_agrees m c cap))" if e: "e \<in> set ?es" for e
  proof (cases "ef_oracle_role e")
    case Reference
    have "ef_fixture_id e \<in> tk_compared t" using e comp by simp
    from how [OF this] obtain c where c: "c \<in> set (ps_cases ?s)" "ef_fixture_id (rc_expected c) = ef_fixture_id e"
      using dist [OF _ e] Reference by force
    obtain f where f: "f \<in> set (fixtures m)" "case_prepared m io prompts f c" using prepared [OF c(1)] by blast
    note fc = f(2) [unfolded case_prepared_def]
    have ce: "rc_expected c = e" using dist [OF match_in e] fc c(2) by blast
    obtain n cmp where "compare_reference_case m opts (generate n c) c = Ok cmp" "case_passed cmp"
      using t(3) none(3,4) c(1) by blast
    then obtain cap where cap: "generate n c = Ok cap" "reference_agrees m c cap" by (rule passed_case_agrees)
    have whole: "\<lparr>rc_expected = e, rc_metadata = f, rc_fixture = rc_fixture c, rc_prompt = rc_prompt c\<rparr> = c"
      using fc ce by (cases c) simp
    have "map_of prompts (ef_prompt_id e) = Some (rc_prompt c)" "pe_family (rc_prompt c) = ef_family e"
      "matching_expected m f = Some e" "fixture_accepted m io e f (rc_fixture c)" using fc ce by auto
    moreover have "\<exists>n cap. generate n c = Ok cap \<and> reference_agrees m c cap" using cap by blast
    ultimately show ?thesis using f(1)
      by (intro exI [of _ "rc_prompt c"] exI [of _ f] exI [of _ "rc_fixture c"]) (simp add: Let_def whole Reference)
  next
    case Baseline
    have "ef_fixture_id e \<in> known_ids prompts ?es" using sets(2) ex e by auto
    then obtain e' where e': "e' \<in> set ?es" "ef_fixture_id e' = ef_fixture_id e" "map_of prompts (ef_prompt_id e') \<noteq> None"
      by (auto simp: known_ids_def)
    then obtain q where q: "map_of prompts (ef_prompt_id e) = Some q" using dist [OF e'(1) e e'(2)] by auto
    have fam: "pe_family q = ef_family e"
    proof (rule ccontr)
      assume "pe_family q \<noteq> ef_family e"
      then have "ef_fixture_id e \<in> misfiled_ids prompts ?es" using q e by (auto simp: misfiled_ids_def)
      then show False using p(3) none(1) by auto
    qed
    have "ef_fixture_id e \<in> tk_generated t" using sets(3) ex(1) e by auto
    then obtain f where f: "f \<in> set (fixtures m)" "ef_fixture_id e \<in> generated_id m io f" using ex(3) by auto
    then obtain e1 where e1: "matching_expected m f = Some e1" "ef_fixture_id e1 = ef_fixture_id e"
      by (auto simp: generated_id_def split: option.splits sum.splits)
    then have "e1 = e" using dist [OF match_in e] by blast
    then obtain fx where fx: "matching_expected m f = Some e" "fixture_accepted m io e f fx"
      using accepted [OF f(1)] e1(1) f(2) none(1) by auto
    have "ef_fixture_id e \<in> tk_compared t" using e comp by simp
    then have "ef_fixture_id e \<in> set (calibrated_fixtures m)"
    proof (rule disjE [OF how])
      assume "\<exists>c \<in> set (ps_cases ?s). ef_fixture_id (rc_expected c) = ef_fixture_id e"
      then obtain c where c: "c \<in> set (ps_cases ?s)" "ef_fixture_id (rc_expected c) = ef_fixture_id e" by blast
      obtain g where "case_prepared m io prompts g c" using prepared [OF c(1)] by blast
      then have "rc_expected c = e" "ef_oracle_role (rc_expected c) = Reference"
        using dist [OF match_in e] c(2) by (auto simp: case_prepared_def)
      then show ?thesis using Baseline by simp
    qed simp
    then show ?thesis using q fam f(1) fx Baseline by auto
  qed
  have "\<exists>entries. pf_dir io = Ok entries \<and> list_all (entry_admitted (set (map ef_filename ?es))) entries"
    by (rule listed) (simp_all add: none)
  then show ?thesis using each by blast
qed

theorem release_gate_closed_witness:
  "\<exists>p f fx. map_of sample_prompts ''r_01'' = Some p \<and> fixture_accepted sample_manifest sample_pf
     (sample_expected Transformers Reference CompareL1) f fx"
proof -
  obtain report where r: "run_comparison sample_manifest sample_pf sample_prompts sample_options (\<lambda>_ _. Ok sample_capture) = Ok report"
    "overall_passed report" using sample_run by blast
  have "sample_expected Transformers Reference CompareL1 \<in> set (expected_fixtures sample_manifest)" by (simp add: sample_lists)
  from bspec [OF conjunct1 [OF release_gate_closed [OF sample_manifest_accepted r]] this] show ?thesis
    unfolding sample_lists(5) by blast
qed

section \<open>Cases that always compare\<close>

lemma compare_tokens_from_total:
  "(\<And>j. j < length ps \<Longrightarrow> \<exists>k. classify (i + j) (fst (ps ! j)) (int (unat (snd (ps ! j)))) = Ok k) \<Longrightarrow>
     \<exists>st'. compare_tokens_from classify i ps st = Ok st'"
proof (induction ps arbitrary: i st)
  case (Cons p ps)
  obtain e t where p: "p = (e, t)" by (cases p)
  obtain k where k: "classify i e (int (unat t)) = Ok k" using Cons.prems [of 0] p by auto
  have rest: "\<exists>k. classify (Suc i + j) (fst (ps ! j)) (int (unat (snd (ps ! j)))) = Ok k" if "j < length ps" for j
    using Cons.prems [of "Suc j"] that by simp
  show ?case using Cons.IH [of "Suc i", OF rest] k by (auto simp: p Let_def split: option.split mismatch_kind.split)
qed simp

lemma candidate_logit_gap_total:
  assumes "(i + 1) * vocab \<le> length logits" "length logits < usize_bound" "e < vocab" "a < vocab"
  shows "\<exists>gap. candidate_logit_gap logits vocab i e a = Ok gap"
proof -
  have "i * vocab + vocab \<le> length logits" using assms(1) by (simp add: algebra_simps)
  then show ?thesis using assms(2-4)
    by (simp add: candidate_logit_gap_def ok_or_def checked_mul_def checked_add_def get_range_def get_at_def)
qed

lemma compare_l1_total:
  assumes len: "length logits = length generated * vocab" "length logits < usize_bound" "vocab < usize_bound"
    and e: "list_all (\<lambda>t. token_is_in_vocab t vocab) (fd_token_ids fx)" and g: "list_all (\<lambda>t. unat t < vocab) generated"
  shows "\<exists>r. compare_l1 fx generated (Some (logits, vocab)) policy = Ok r"
proof -
  let ?n = "min (length (fd_token_ids fx)) (length generated)"
  let ?ps = "zip (take ?n (fd_token_ids fx)) (take ?n generated)"
  have "\<exists>k. classify_with_logits (Some (logits, vocab)) policy (0 + j) (fst (?ps ! j)) (int (unat (snd (?ps ! j)))) = Ok k"
    if j: "j < length ?ps" for j
  proof -
    have n: "j < length (fd_token_ids fx)" "j < length generated" using j by simp_all
    have "(j + 1) * vocab \<le> length generated * vocab" using n(2) by (intro mult_le_mono1) simp
    then have rows: "(j + 1) * vocab \<le> length logits" by (simp only: len(1))
    have ex: "0 \<le> fd_token_ids fx ! j" "nat (fd_token_ids fx ! j) < vocab" "unat (generated ! j) < vocab"
      using e g n by (auto simp: list_all_length token_is_in_vocab_def)
    have us: "i64_as_usize (fd_token_ids fx ! j) = nat (fd_token_ids fx ! j)" "i64_as_usize (int (unat (generated ! j))) = unat (generated ! j)"
    proof -
      have "i64_as_usize (int k) = k" if "k < vocab" for k
        using that len(3) by (simp add: i64_as_usize_def usize_bound_def zmod_int [symmetric] nat_mod_distrib)
      from this [OF ex(2)] this [OF ex(3)] ex(1)
      show "i64_as_usize (fd_token_ids fx ! j) = nat (fd_token_ids fx ! j)"
        "i64_as_usize (int (unat (generated ! j))) = unat (generated ! j)" by (simp_all only: int_nat_eq if_True)
    qed
    have at: "?ps ! j = (fd_token_ids fx ! j, generated ! j)" using n by simp
    obtain gap where "candidate_logit_gap logits vocab j (nat (fd_token_ids fx ! j)) (unat (generated ! j)) = Ok gap"
      using candidate_logit_gap_total [OF rows len(2) ex(2,3)] by blast
    then show ?thesis unfolding at by (simp add: classify_with_logits_def us us(2) [simplified])
  qed
  from compare_tokens_from_total [of ?ps "classify_with_logits (Some (logits, vocab)) policy" 0 empty_scan, OF this]
  show ?thesis by (auto simp: compare_l1_def compare_tokens_loop_def Let_def)
qed

lemma compare_l1_tokens_only_total: "\<exists>r. compare_l1_tokens_only fx generated policy = Ok r"
proof -
  let ?n = "min (length (fd_token_ids fx)) (length generated)"
  have "\<exists>st. compare_tokens_from classify_exact 0 (zip (take ?n (fd_token_ids fx)) (take ?n generated)) empty_scan = Ok st"
    by (rule compare_tokens_from_total) (simp add: classify_exact_def)
  then show ?thesis by (auto simp: compare_l1_tokens_only_def compare_tokens_loop_def Let_def)
qed

text \<open>C26: A prepared case always gets a verdict. When a fixture was loaded from a well-formed file, has
  admissible values and the shape its family requires, the policy passed the manifest validation, and
  the captured generation has one row of logits of the model's width for every token, with tokens of the
  vocabulary, then the comparison of the case returns: no geometry, index or overflow error and no panic
  is possible (layer comparison, which is not implemented, being off).\<close>

theorem prepared_case_compares:
  assumes "load_fixture deserialize file (rc_metadata c) = Ok (rc_fixture c)"
    and "\<And>bytes ts. deserialize bytes = Ok ts \<Longrightarrow> payloads_sized ts"
    and "validate_fixture_values (rc_fixture c) (model_vocab_size (manifest_model m)) = Ok ()"
    and "family_shape_ok m (rc_expected c) (rc_metadata c)" and "validate_policy purpose m = Ok ()"
    and "cap_tokens_by_input cap = tokens # rest" "tokens \<noteq> []" "cap_tensor_shape cap = (length tokens, model_vocab_size (manifest_model m))"
    and "length (cap_logits cap) = length tokens * model_vocab_size (manifest_model m)" "length (cap_logits cap) < usize_bound"
    and "0 < model_vocab_size (manifest_model m)" "list_all (\<lambda>t. unat t < model_vocab_size (manifest_model m)) tokens"
    and "\<not> debug_layers opts"
  shows "\<exists>cmp. compare_reference_case m opts (Ok cap) c = Ok cmp"
proof -
  let ?fx = "rc_fixture c" and ?v = "model_vocab_size (manifest_model m)" and ?p = "manifest_policy m"
  have sized: "fixture_sized ?fx" by (rule load_fixture_sized [OF assms(1)]) (rule assms(2))
  have st: "fd_logits_shape ?fx = fm_logits_shape (rc_metadata c)" "fd_category ?fx = fm_category (rc_metadata c)"
    using load_fixture_stages [OF assms(1)] by auto
  have geo: "generated_logits_geometry [length tokens, ?v] (length (cap_logits cap)) ?v = Ok (length tokens, ?v)"
    using assms(7,9-11) by (simp add: generated_logits_geometry_def checked_mul_def)
  have vb: "?v < usize_bound"
  proof -
    have "?v \<le> length tokens * ?v" using assms(7) by (cases tokens) simp_all
    then show ?thesis using assms(9,10) by (simp only:)
  qed
  have atol: "f32_is_finite (l2_atol ?p)" "\<not> f32_less (l2_atol ?p) (F32_Finite 0)"
    using assms(5) by (auto simp: validate_policy_def Let_def rbind_Ok_iff f64_negative_def)
  have vals: "list_all (\<lambda>t. token_is_in_vocab t ?v) (fd_token_ids ?fx)"
    using assms(3) by (auto simp: validate_fixture_values_def list_all_iff list_ex_iff split: if_splits)
  show ?thesis
  proof (cases "fm_category (rc_metadata c)")
    case RegressionPrompt
    then show ?thesis using compare_l1_tokens_only_total [of ?fx tokens ?p] geo assms(6,8,13)
      by (auto simp: compare_reference_case_def Let_def ok_or_def get_at_def)
  next
    case CanonicalPrompt
    then have w: "snd (fm_logits_shape (rc_metadata c)) = ?v"
      using assms(4) by (auto simp: family_shape_ok_def split: fixture_family.splits)
    obtain r1 where r1: "compare_l1 ?fx tokens (Some (cap_logits cap, ?v)) ?p = Ok r1"
      using compare_l1_total [OF assms(9,10) vb vals assms(12)] by blast
    obtain reference where ref: "fd_logits ?fx = Some reference" "fst (fd_logits_shape ?fx) = fd_num_tokens ?fx"
      "length reference = fd_num_tokens ?fx * ?v" "length reference < usize_bound"
      using sized CanonicalPrompt st w by (auto simp: fixture_sized_def)
    have "l2_geometry ?fx (cap_logits cap) tokens ?p reference"
      using ref sized assms(7,9,10,11) atol w by (simp add: l2_geometry_def Let_def st fixture_sized_def checked_mul_def)
    then obtain r2 where r2: "compare_l2 ?fx (cap_logits cap) tokens ?p = Ok r2"
      using ref(1) by (cases rule: compare_l2_cases [of ?fx "cap_logits cap" tokens ?p]) auto
    show ?thesis using CanonicalPrompt r1 r2 geo assms(6,8,13)
      by (auto simp: compare_reference_case_def Let_def ok_or_def get_at_def)
  qed
qed

lemma sample_payloads: "payloads_sized (regression_tensors [5] 3 [5, 6, 7, 8, 9] [0, 0, 0, 0, 0])"
  by (simp add: payloads_sized_def regression_tensors_def i64_tensor_def f32_tensor_def dtype_width_def usize_bound_def)

theorem prepared_case_compares_witness:
  "\<exists>cmp. compare_reference_case sample_manifest sample_options (Ok sample_capture) sample_case = Ok cmp"
proof (rule prepared_case_compares)
  show "load_fixture (pf_deserialize sample_pf) (Ok ()) (rc_metadata sample_case) = Ok (rc_fixture sample_case)"
    using sample_load [of Transformers] by (simp add: sample_case_def)
  show "payloads_sized ts" if "pf_deserialize sample_pf bytes = Ok ts" for bytes ts
    using that sample_payloads by (simp add: sample_pf_def)
  show "family_shape_ok sample_manifest (rc_expected sample_case) (rc_metadata sample_case)"
    by (simp add: sample_case_def family_shape_ok_def sample_lists sample_meta)
  show "validate_policy Authoritative sample_manifest = Ok ()" by (rule sample_policy_ok)
  show "cap_tokens_by_input sample_capture = [5] # []" "[5 :: token] \<noteq> []"
    "cap_tensor_shape sample_capture = (length [5 :: token], model_vocab_size (manifest_model sample_manifest))"
    "length (cap_logits sample_capture) = length [5 :: token] * model_vocab_size (manifest_model sample_manifest)"
    "length (cap_logits sample_capture) < usize_bound" "0 < model_vocab_size (manifest_model sample_manifest)"
    "list_all (\<lambda>t. unat t < model_vocab_size (manifest_model sample_manifest)) [5 :: token]"
    by (simp_all add: sample_capture_def sample_manifest_def usize_bound_def)
  show "validate_fixture_values (rc_fixture sample_case) (model_vocab_size (manifest_model sample_manifest)) = Ok ()"
    by (simp add: validate_fixture_values_def sample_case_def sample_data_def token_is_in_vocab_def sample_manifest_def)
  show "\<not> debug_layers sample_options" by (simp add: sample_options_def)
qed

end
