(* ===== verification/Capture_Session.thy ===== *)
theory Capture_Session
  imports Capture_Protocol
begin

text \<open>
  \<^verbatim>\<open>golden_capture.rs\<close>: the producer of a diagnostic capture. A session binds the request ids of a
  call, spools each step's logit rows per request, and on completion writes the artifact, validates
  what it wrote, and publishes it. The JSON codec and the results of file operations are parameters;
  a spool file is the list of lines written to it.
\<close>

datatype session_error =
    IncompleteConfig
  | CallIdNotUtf8
  | BadCallId
  | BadDestination
  | NotAbsolute
  | HasSymlink
  | NotADirectory
  | NotOwned
  | NotPrivate
  | DestinationExists
  | IoFailed string
  | AlreadyBound
  | DuplicateIds
  | SessionFailed
  | EmptyRow
  | NonFiniteRow nat nat
  | RowWidth nat nat
  | UnknownRequest nat
  | StepMismatch nat nat nat
  | SpoolClosed
  | LogitsWithoutRows
  | BadRank
  | RowCountMismatch
  | NotF32
  | OutputCount
  | StaleOutput nat
  | HeaderMismatch
  | Invalid capture_error

section \<open>Configuration\<close>

definition validate_call_id :: "string \<Rightarrow> (session_error, unit) outcome" where
  "validate_call_id cid =
     (if cid = [] \<or> 128 < length cid \<or> \<not> list_all (\<lambda>c. is_id_char c \<or> c = CHR ''.'') cid
      then Error BadCallId else Ok ())"

definition STAGING_PREFIX :: string where "STAGING_PREFIX = ''.vllm-oxide-''"

definition validate_destination_name :: "string \<Rightarrow> (session_error, unit) outcome" where
  "validate_destination_name d =
     (if d = [] \<or> d = ''.'' \<or> d = ''..'' \<or> CHR ''/'' \<in> set d \<or> char_of (0 :: nat) \<in> set d
         \<or> starts_with d STAGING_PREFIX
      then Error BadDestination else Ok ())"

record dir_meta =
  dm_symlink :: bool
  dm_dir :: bool
  dm_owned :: bool
  dm_mode :: nat

record config_io =
  ci_meta :: "string \<Rightarrow> (string, dir_meta option) outcome"
  ci_canonicalize :: "string \<Rightarrow> (string, string) outcome"

text \<open>\<^verbatim>\<open>symlink_metadata\<close> of a path that must exist; a missing path is an error of the operating
  system like any other.\<close>

definition existing_meta :: "config_io \<Rightarrow> string \<Rightarrow> (session_error, dir_meta) outcome" where
  "existing_meta io p = rbind (map_err IoFailed (ci_meta io p)) (\<lambda>m.
     case m of None \<Rightarrow> Error (IoFailed ''not found'') | Some d \<Rightarrow> Ok d)"

fun check_components :: "config_io \<Rightarrow> component list \<Rightarrow> component list \<Rightarrow> (session_error, unit) outcome" where
  "check_components io done [] = Ok ()"
| "check_components io done (c # cs) =
     rbind (existing_meta io (path_text (done @ [c]))) (\<lambda>d.
     if dm_symlink d then Error HasSymlink else check_components io (done @ [c]) cs)"

definition validate_private_temp_dir :: "config_io \<Rightarrow> string \<Rightarrow> (session_error, string) outcome" where
  "validate_private_temp_dir io path =
     (if \<not> is_absolute path then Error NotAbsolute
      else rbind (check_components io [] (path_components path)) (\<lambda>_.
        rbind (existing_meta io path) (\<lambda>d.
        if \<not> dm_dir d \<or> dm_symlink d then Error NotADirectory
        else if \<not> dm_owned d then Error NotOwned
        else if dm_mode d mod 64 \<noteq> 0 then Error NotPrivate
        else map_err IoFailed (ci_canonicalize io path))))"

record capture_config =
  cc_temp_dir :: string
  cc_destination :: string
  cc_call_id :: string

text \<open>\<^verbatim>\<open>CaptureConfig::from_values\<close>: all three variables or none. The call id arrives as an
  \<^verbatim>\<open>OsString\<close>: \<open>None\<close> inside is a value that is not UTF-8.\<close>

definition config_from_values ::
    "config_io \<Rightarrow> string option \<Rightarrow> string option \<Rightarrow> string option option
       \<Rightarrow> (session_error, capture_config option) outcome" where
  "config_from_values io temp_dir destination call_id =
     (case (temp_dir, destination, call_id) of
        (None, None, None) \<Rightarrow> Ok None
      | (Some dir, Some dest, Some cid) \<Rightarrow>
          (case cid of None \<Rightarrow> Error CallIdNotUtf8 | Some cid \<Rightarrow>
             rbind (validate_call_id cid) (\<lambda>_.
             rbind (validate_destination_name dest) (\<lambda>_.
             rbind (validate_private_temp_dir io dir) (\<lambda>dir.
             rbind (map_err IoFailed (ci_meta io (path_join dir dest))) (\<lambda>m.
             case m of Some _ \<Rightarrow> Error DestinationExists
             | None \<Rightarrow> Ok (Some \<lparr>cc_temp_dir = dir, cc_destination = dest, cc_call_id = cid\<rparr>))))))
      | _ \<Rightarrow> Error IncompleteConfig)"

section \<open>The session\<close>

record spool_row =
  sr_request_id :: nat
  sr_selected_token :: token
  sr_completion_step :: nat
  sr_logits :: "f32 list"

record 'l request_spool =
  rq_binding :: request_binding
  rq_lines :: "'l list"
  rq_open :: bool
  rq_next_step :: nat

record 'l capture_session =
  cs_call_id :: string
  cs_spools :: "'l request_spool list"
  cs_request_to_spool :: "nat \<rightharpoonup> nat"
  cs_vocab_size :: "nat option"
  cs_failed :: bool

record 'l capture_io =
  io_create :: "nat \<Rightarrow> (string, unit) outcome"
  io_render_spool :: "spool_row \<Rightarrow> (string, 'l) outcome"
  io_parse_spool :: "'l \<Rightarrow> (string, spool_row) outcome"
  io_render :: "artifact_line \<Rightarrow> (string, 'l) outcome"
  io_parse :: "'l \<Rightarrow> (string, artifact_line) outcome"
  io_open :: "nat \<Rightarrow> (string, unit) outcome"
  io_sync :: "nat \<Rightarrow> (string, unit) outcome"
  io_remove :: "nat \<Rightarrow> (string, unit) outcome"
  io_publish :: "(string, unit) outcome"

definition session_prepare :: "string \<Rightarrow> 'l capture_session" where
  "session_prepare call_id = \<lparr>cs_call_id = call_id, cs_spools = [], cs_request_to_spool = Map.empty,
     cs_vocab_size = None, cs_failed = False\<rparr>"

fun bind_loop :: "'l capture_io \<Rightarrow> nat \<Rightarrow> nat list \<Rightarrow> 'l capture_session
    \<Rightarrow> (session_error, unit) outcome \<times> 'l capture_session" where
  "bind_loop io i [] s = (Ok (), s)"
| "bind_loop io i (rid # rids) s =
     (case map_err IoFailed (io_create io i) of
        Inl e \<Rightarrow> (Inl e, s)
      | Inr _ \<Rightarrow> bind_loop io (Suc i) rids
          (s\<lparr>cs_request_to_spool := (cs_request_to_spool s)(rid \<mapsto> i),
             cs_spools := cs_spools s @ [\<lparr>rq_binding = \<lparr>rb_input_position = i, rb_request_id = rid\<rparr>,
               rq_lines = [], rq_open = True, rq_next_step = 0\<rparr>]\<rparr>))"

definition bind_requests :: "'l capture_io \<Rightarrow> nat list \<Rightarrow> 'l capture_session
    \<Rightarrow> (session_error, unit) outcome \<times> 'l capture_session" where
  "bind_requests io ids s =
     (if cs_spools s \<noteq> [] \<or> cs_request_to_spool s \<noteq> Map.empty then (Error AlreadyBound, s)
      else if \<not> distinct ids then (Error DuplicateIds, s)
      else bind_loop io 0 ids s)"

definition record_row :: "'l capture_io \<Rightarrow> spool_row \<Rightarrow> 'l capture_session
    \<Rightarrow> (session_error, unit) outcome \<times> 'l capture_session" where
  "record_row io row s =
     (let failed = s\<lparr>cs_failed := True\<rparr>; width = length (sr_logits row) in
      if sr_logits row = [] then (Error EmptyRow, failed)
      else if list_ex (\<lambda>v. \<not> f32_is_finite v) (sr_logits row)
      then (Error (NonFiniteRow (sr_request_id row) (sr_completion_step row)), failed)
      else if (case cs_vocab_size s of Some v \<Rightarrow> v \<noteq> width | None \<Rightarrow> False)
      then (Error (RowWidth (the (cs_vocab_size s)) width), failed)
      else let s1 = s\<lparr>cs_vocab_size := Some width\<rparr> in
        case cs_request_to_spool s1 (sr_request_id row) of
          None \<Rightarrow> (Error (UnknownRequest (sr_request_id row)), s1)
        | Some i \<Rightarrow>
          (case index (cs_spools s1) i of
             Inl e \<Rightarrow> (Inl e, s1)
           | Inr spool \<Rightarrow>
             if sr_completion_step row \<noteq> rq_next_step spool
             then (Error (StepMismatch (sr_request_id row) (rq_next_step spool) (sr_completion_step row)),
                   s1\<lparr>cs_failed := True\<rparr>)
             else if \<not> rq_open spool then (Error SpoolClosed, s1)
             else case map_err IoFailed (io_render_spool io row) of
                 Inl e \<Rightarrow> (Inl e, s1\<lparr>cs_failed := True\<rparr>)
               | Inr line \<Rightarrow> (Ok (), s1\<lparr>cs_spools := (cs_spools s1)[i :=
                   spool\<lparr>rq_lines := rq_lines spool @ [line], rq_next_step := rq_next_step spool + 1\<rparr>]\<rparr>)))"

fun record_rows_loop :: "'l capture_io \<Rightarrow> spool_row list \<Rightarrow> 'l capture_session
    \<Rightarrow> (session_error, unit) outcome \<times> 'l capture_session" where
  "record_rows_loop io [] s = (Ok (), s)"
| "record_rows_loop io (row # rows) s =
     (case record_row io row s of
        (Inl e, s') \<Rightarrow> (Inl e, s')
      | (Inr _, s') \<Rightarrow> record_rows_loop io rows s')"

definition record_host_rows :: "'l capture_io \<Rightarrow> spool_row list \<Rightarrow> 'l capture_session
    \<Rightarrow> (session_error, unit) outcome \<times> 'l capture_session" where
  "record_host_rows io rows s = (if cs_failed s then (Error SessionFailed, s) else record_rows_loop io rows s)"

text \<open>What the engine hands over after a step: the identities of the sampled rows, and the logits with
  their shape, type and host copy.\<close>

record step_capture =
  sc_rows :: "(nat \<times> token \<times> nat) list"
  sc_dims :: "nat list"
  sc_dtype :: dtype
  sc_values :: "(string, f32 list list) outcome"

definition host_rows :: "(nat \<times> token \<times> nat) list \<Rightarrow> f32 list list \<Rightarrow> spool_row list" where
  "host_rows rows logits = map (\<lambda>((rid, t, k), ls).
     \<lparr>sr_request_id = rid, sr_selected_token = t, sr_completion_step = k, sr_logits = ls\<rparr>) (zip rows logits)"

definition record_engine_step :: "'l capture_io \<Rightarrow> step_capture \<Rightarrow> 'l capture_session
    \<Rightarrow> (session_error, unit) outcome \<times> 'l capture_session" where
  "record_engine_step io step s =
     (let failed = s\<lparr>cs_failed := True\<rparr> in
      if sc_rows step = [] then
        (if sc_dims step \<noteq> [0, 0] then (Error LogitsWithoutRows, failed) else (Ok (), s))
      else case sc_dims step of
        [row_count, vocab] \<Rightarrow>
          if row_count \<noteq> length (sc_rows step) \<or> vocab = 0 then (Error RowCountMismatch, failed)
          else if sc_dtype step \<noteq> F32 then (Error NotF32, failed)
          else (case map_err IoFailed (sc_values step) of
                  Inl e \<Rightarrow> (Inl e, s)
                | Inr logits \<Rightarrow> record_host_rows io (host_rows (sc_rows step) logits) s)
      | _ \<Rightarrow> (Error BadRank, failed))"

text \<open>The loop of \<^verbatim>\<open>generate\<close> hands every step to the session and stops at the first failure.\<close>

fun record_steps :: "'l capture_io \<Rightarrow> step_capture list \<Rightarrow> 'l capture_session
    \<Rightarrow> (session_error, unit) outcome \<times> 'l capture_session" where
  "record_steps io [] s = (Ok (), s)"
| "record_steps io (step # steps) s =
     (case record_engine_step io step s of
        (Inl e, s') \<Rightarrow> (Inl e, s')
      | (Inr _, s') \<Rightarrow> record_steps io steps s')"

section \<open>Validation of the staged artifact\<close>

record validator_state =
  va_steps :: "nat list"
  va_tokens :: "token list list"
  va_row_count :: nat
  va_vocab :: "nat option"
  va_last :: "nat option"
  va_trailer :: "artifact_trailer option"

definition validate_row :: "request_binding list \<Rightarrow> artifact_row \<Rightarrow> validator_state \<Rightarrow> (session_error, validator_state) outcome" where
  "validate_row bindings r st =
     (let p = ar_input_position r in
      if va_trailer st \<noteq> None then Error (Invalid RowAfterTrailer)
      else if ar_row_index r \<noteq> va_row_count st then Error (Invalid (RowIndexMismatch (ar_row_index r)))
      else if (case va_last st of Some previous \<Rightarrow> p < previous | None \<Rightarrow> False) then Error (Invalid RowOrder)
      else if length bindings \<le> p then Error (Invalid (AdditionalPosition p))
      else if ar_request_id r \<noteq> rb_request_id (bindings ! p) then Error (Invalid (StaleRequest (ar_request_id r)))
      else rbind (index (va_steps st) p) (\<lambda>expected_step.
        if ar_completion_step r \<noteq> expected_step then Error (Invalid (CompletionGap (ar_completion_step r)))
        else if ar_dtype r \<noteq> LOGITS_DTYPE \<or> ar_row_shape r = 0 \<or> ar_row_shape r \<noteq> length (ar_logits r)
                \<or> list_ex (\<lambda>v. \<not> f32_is_finite v) (ar_logits r) then Error (Invalid InvalidRow)
        else if (case va_vocab st of Some width \<Rightarrow> width \<noteq> ar_row_shape r | None \<Rightarrow> False)
        then Error (Invalid WidthChanged)
        else Ok (st\<lparr>va_last := Some p, va_vocab := Some (ar_row_shape r),
                   va_steps := (va_steps st)[p := expected_step + 1],
                   va_tokens := (va_tokens st)[p := va_tokens st ! p @ [ar_selected_token r]],
                   va_row_count := va_row_count st + 1\<rparr>)))"

definition validate_line :: "request_binding list \<Rightarrow> artifact_line \<Rightarrow> validator_state \<Rightarrow> (session_error, validator_state) outcome" where
  "validate_line bindings line st =
     (case line of
        Row r \<Rightarrow> validate_row bindings r st
      | Trailer t \<Rightarrow> if va_trailer st \<noteq> None then Error (Invalid DuplicateTrailer) else Ok (st\<lparr>va_trailer := Some t\<rparr>)
      | Header _ _ _ _ \<Rightarrow> Error (Invalid AdditionalHeader))"

fun validate_lines :: "'l capture_io \<Rightarrow> request_binding list \<Rightarrow> 'l list \<Rightarrow> validator_state
    \<Rightarrow> (session_error, validator_state) outcome" where
  "validate_lines io bindings [] st = Ok st"
| "validate_lines io bindings (l # ls) st =
     rbind (map_err IoFailed (io_parse io l)) (\<lambda>line.
     rbind (validate_line bindings line st) (validate_lines io bindings ls))"

fun check_outputs :: "(request_binding \<times> request_output) list \<Rightarrow> (session_error, unit) outcome" where
  "check_outputs [] = Ok ()"
| "check_outputs ((b, out) # rest) =
     (if rb_request_id b \<noteq> out_request_id out \<or> \<not> out_finished out then Error (StaleOutput (rb_input_position b))
      else check_outputs rest)"

fun check_selected :: "token list list \<Rightarrow> nat \<Rightarrow> request_output list \<Rightarrow> (session_error, unit) outcome" where
  "check_selected tokens i [] = Ok ()"
| "check_selected tokens i (out # outs) =
     rbind (index tokens i) (\<lambda>ts. if ts \<noteq> out_token_ids out then Error (Invalid (MissingRows i))
       else check_selected tokens (Suc i) outs)"

definition validate_artifact :: "'l capture_io \<Rightarrow> 'l list \<Rightarrow> string \<Rightarrow> request_binding list \<Rightarrow> request_output list
    \<Rightarrow> (session_error, unit) outcome" where
  "validate_artifact io lines call_id bindings outputs =
     (if length outputs \<noteq> length bindings then Error OutputCount
      else rbind (check_outputs (zip bindings outputs)) (\<lambda>_.
      rbind (map_err IoFailed (io_open io (length bindings))) (\<lambda>_.
      case lines of [] \<Rightarrow> Error (Invalid EmptyArtifact) | l # ls \<Rightarrow>
      rbind (map_err IoFailed (io_parse io l)) (\<lambda>first.
      if first \<noteq> Header FORMAT_NAME CAPTURE_SCHEMA_VERSION call_id bindings then Error HeaderMismatch
      else rbind (validate_lines io bindings ls
          \<lparr>va_steps = replicate (length bindings) 0, va_tokens = replicate (length bindings) [], va_row_count = 0,
           va_vocab = None, va_last = None, va_trailer = None\<rparr>) (\<lambda>st.
      case va_trailer st of None \<Rightarrow> Error (Invalid MissingTrailer) | Some t \<Rightarrow>
      if \<not> at_complete t \<or> at_row_count t \<noteq> va_row_count st \<or> at_dtype t \<noteq> LOGITS_DTYPE
         \<or> at_tensor_shape t \<noteq> (va_row_count st, case va_vocab st of None \<Rightarrow> 0 | Some v \<Rightarrow> v)
      then Error (Invalid InvalidTrailer)
      else check_selected (va_tokens st) 0 outputs)))))"

section \<open>Completion\<close>

fun close_spools :: "'l capture_io \<Rightarrow> nat \<Rightarrow> 'l request_spool list \<Rightarrow> (session_error, unit) outcome" where
  "close_spools io i [] = Ok ()"
| "close_spools io i (spool # spools) =
     (if \<not> rq_open spool then Error SpoolClosed
      else rbind (map_err IoFailed (io_sync io i)) (\<lambda>_. close_spools io (Suc i) spools))"

text \<open>The rows of one spool, read back and written with their place in the artifact.\<close>

fun copy_spool :: "'l capture_io \<Rightarrow> request_binding \<Rightarrow> nat \<Rightarrow> 'l list \<Rightarrow> (session_error, 'l list \<times> nat) outcome" where
  "copy_spool io b row_index [] = Ok ([], row_index)"
| "copy_spool io b row_index (l # ls) =
     rbind (map_err IoFailed (io_parse_spool io l)) (\<lambda>row.
     rbind (map_err IoFailed (io_render io (Row
       \<lparr>ar_row_index = row_index, ar_input_position = rb_input_position b, ar_request_id = sr_request_id row,
        ar_selected_token = sr_selected_token row, ar_completion_step = sr_completion_step row,
        ar_dtype = LOGITS_DTYPE, ar_row_shape = length (sr_logits row), ar_logits = sr_logits row\<rparr>))) (\<lambda>line.
     rbind (copy_spool io b (row_index + 1) ls) (\<lambda>(rest, n). Ok (line # rest, n))))"

fun copy_spools :: "'l capture_io \<Rightarrow> nat \<Rightarrow> 'l request_spool list \<Rightarrow> (session_error, 'l list \<times> nat) outcome" where
  "copy_spools io row_index [] = Ok ([], row_index)"
| "copy_spools io row_index (spool # spools) =
     rbind (map_err IoFailed (io_open io (rb_input_position (rq_binding spool)))) (\<lambda>_.
     rbind (copy_spool io (rq_binding spool) row_index (rq_lines spool)) (\<lambda>(lines, n).
     rbind (copy_spools io n spools) (\<lambda>(rest, m). Ok (lines @ rest, m))))"

definition finish :: "'l capture_io \<Rightarrow> request_output list \<Rightarrow> 'l capture_session \<Rightarrow> (session_error, 'l list) outcome" where
  "finish io outputs s =
     (if cs_failed s then Error SessionFailed
      else rbind (close_spools io 0 (cs_spools s)) (\<lambda>_.
      let bindings = map rq_binding (cs_spools s) in
      rbind (map_err IoFailed (io_render io (Header FORMAT_NAME CAPTURE_SCHEMA_VERSION (cs_call_id s) bindings))) (\<lambda>header.
      rbind (copy_spools io 0 (cs_spools s)) (\<lambda>(rows, row_count).
      let vocab = (case cs_vocab_size s of None \<Rightarrow> 0 | Some v \<Rightarrow> v) in
      rbind (map_err IoFailed (io_render io (Trailer \<lparr>at_complete = True, at_row_count = row_count,
               at_dtype = LOGITS_DTYPE, at_tensor_shape = (row_count, vocab)\<rparr>))) (\<lambda>trailer.
      let lines = header # rows @ [trailer] in
      rbind (map_err IoFailed (io_sync io (length (cs_spools s)))) (\<lambda>_.
      rbind (validate_artifact io lines (cs_call_id s) bindings outputs) (\<lambda>_.
      rbind (rcollect (\<lambda>i. map_err IoFailed (io_remove io i)) [0..<length (cs_spools s)]) (\<lambda>_.
      rbind (map_err IoFailed (io_publish io)) (\<lambda>_. Ok lines)))))))))"

section \<open>What a session holds\<close>

definition of_request :: "nat \<Rightarrow> spool_row list \<Rightarrow> spool_row list" where
  "of_request rid rows = filter (\<lambda>r. sr_request_id r = rid) rows"

definition row_ok :: "spool_row \<Rightarrow> bool" where
  "row_ok r \<longleftrightarrow> sr_logits r \<noteq> [] \<and> list_all f32_is_finite (sr_logits r)"

text \<open>A spool of the request at position \<open>p\<close> that holds the rows \<open>rs\<close>.\<close>

definition spool_holds :: "'l capture_io \<Rightarrow> nat \<Rightarrow> nat \<Rightarrow> spool_row list \<Rightarrow> 'l request_spool \<Rightarrow> bool" where
  "spool_holds io p rid rs spool \<longleftrightarrow> rq_binding spool = \<lparr>rb_input_position = p, rb_request_id = rid\<rparr> \<and> rq_open spool
     \<and> rq_next_step spool = length rs \<and> list_all2 (\<lambda>r l. io_render_spool io r = Ok l) rs (rq_lines spool)
     \<and> map sr_completion_step rs = [0..<length rs] \<and> (\<forall>r \<in> set rs. sr_request_id r = rid \<and> row_ok r)"

definition session_inv :: "'l capture_io \<Rightarrow> nat list \<Rightarrow> spool_row list \<Rightarrow> 'l capture_session \<Rightarrow> bool" where
  "session_inv io ids rows s \<longleftrightarrow> distinct ids \<and> \<not> cs_failed s \<and> length (cs_spools s) = length ids
     \<and> (\<forall>p < length ids. spool_holds io p (ids ! p) (of_request (ids ! p) rows) (cs_spools s ! p))
     \<and> (\<forall>rid i. cs_request_to_spool s rid = Some i \<longleftrightarrow> i < length ids \<and> ids ! i = rid)
     \<and> (\<forall>r \<in> set rows. cs_vocab_size s = Some (length (sr_logits r)) \<and> sr_request_id r \<in> set ids)
     \<and> (rows = [] \<longrightarrow> cs_vocab_size s = None)"

lemma bind_loop_inv:
  "bind_loop io i rids s = (Ok (), s') \<Longrightarrow> cs_vocab_size s' = cs_vocab_size s \<and> cs_failed s' = cs_failed s
     \<and> cs_call_id s' = cs_call_id s
     \<and> cs_spools s' = cs_spools s @ map (\<lambda>(j, rid). \<lparr>rq_binding = \<lparr>rb_input_position = j, rb_request_id = rid\<rparr>,
               rq_lines = [], rq_open = True, rq_next_step = 0\<rparr>) (enumerate i rids)
     \<and> cs_request_to_spool s' = cs_request_to_spool s ++ map_of (rev (zip rids [i..<i + length rids]))"
proof (induction rids arbitrary: i s)
  case (Cons rid rids)
  obtain u where "map_err IoFailed (io_create io i) = Inr u" using Cons.prems by (auto split: sum.splits)
  with Cons.prems Cons.IH [of "Suc i"] show ?case
    by (simp add: upt_conv_Cons del: upt_Suc) (simp add: fun_upd_def)
qed simp

lemma map_of_rev_zip:
  assumes "distinct ids"
  shows "map_of (rev (zip ids [0..<length ids])) rid = Some i \<longleftrightarrow> i < length ids \<and> ids ! i = rid"
proof -
  have "distinct (map fst (rev (zip ids [0..<length ids])))" using assms by (simp add: rev_map [symmetric])
  then show ?thesis by (subst map_of_eq_Some_iff) (auto simp: in_set_zip)
qed

lemma bind_requests_inv:
  assumes "bind_requests io ids (session_prepare c) = (Ok (), s)"
  shows "session_inv io ids [] s" "cs_call_id s = c"
proof -
  have d: "distinct ids" and b: "bind_loop io 0 ids (session_prepare c) = (Ok (), s)"
    using assms by (auto simp: bind_requests_def session_prepare_def split: if_splits)
  show "session_inv io ids [] s"
    using bind_loop_inv [OF b] d
    by (auto simp: session_inv_def session_prepare_def spool_holds_def of_request_def nth_enumerate_eq map_of_rev_zip)
  show "cs_call_id s = c" using bind_loop_inv [OF b] by (simp add: session_prepare_def)
qed

lemma record_row_inv:
  assumes inv: "session_inv io ids rows s" and ok: "record_row io row s = (Ok (), s')"
  shows "session_inv io ids (rows @ [row]) s'" "cs_call_id s' = cs_call_id s"
proof -
  let ?s1 = "s\<lparr>cs_vocab_size := Some (length (sr_logits row))\<rparr>"
  obtain i line where i: "cs_request_to_spool s (sr_request_id row) = Some i" "i < length (cs_spools s)"
    and k: "sr_completion_step row = rq_next_step (cs_spools s ! i)"
    and w: "\<And>v. cs_vocab_size s = Some v \<Longrightarrow> v = length (sr_logits row)" and ok': "row_ok row"
    and line: "io_render_spool io row = Ok line"
    and s': "s' = ?s1\<lparr>cs_spools := (cs_spools s)[i := (cs_spools s ! i)\<lparr>rq_lines := rq_lines (cs_spools s ! i) @ [line],
         rq_next_step := rq_next_step (cs_spools s ! i) + 1\<rparr>]\<rparr>"
    using ok by (auto simp: record_row_def Let_def row_ok_def index_def list_ex_iff list_all_iff
        split: if_splits option.splits sum.splits)
  have idx: "i < length ids" "ids ! i = sr_request_id row" and dist: "distinct ids"
    using inv i(1) by (simp_all add: session_inv_def)
  have other: "of_request (ids ! p) (rows @ [row]) = of_request (ids ! p) rows" if "p < length ids" "p \<noteq> i" for p
    using that idx dist by (auto simp: of_request_def nth_eq_iff_index_eq)
  have here: "of_request (ids ! i) (rows @ [row]) = of_request (ids ! i) rows @ [row]" by (simp add: of_request_def idx(2))
  have "spool_holds io p (ids ! p) (of_request (ids ! p) (rows @ [row])) (cs_spools s' ! p)" if p: "p < length ids" for p
  proof (cases "p = i")
    case True
    have "spool_holds io i (ids ! i) (of_request (ids ! i) rows) (cs_spools s ! i)" using inv idx(1) by (simp add: session_inv_def)
    then show ?thesis using True i(2) k ok' line idx(2) [symmetric]
      by (simp add: s' here spool_holds_def list_all2_appendI)
  next
    case False
    then show ?thesis using inv p by (simp add: s' session_inv_def other)
  qed
  moreover have "length (cs_spools s) = length ids" "\<not> cs_failed s" using inv by (simp_all add: session_inv_def)
  moreover have "sr_request_id row \<in> set ids" using idx by (metis nth_mem)
  ultimately show "session_inv io ids (rows @ [row]) s'"
    using inv w unfolding session_inv_def by (auto simp: s')
  show "cs_call_id s' = cs_call_id s" by (simp add: s')
qed

lemma record_rows_loop_inv:
  "session_inv io ids rows s \<Longrightarrow> record_rows_loop io new s = (Ok (), s') \<Longrightarrow>
     session_inv io ids (rows @ new) s' \<and> cs_call_id s' = cs_call_id s"
proof (induction new arbitrary: rows s)
  case (Cons r new)
  then obtain s1 where r: "record_row io r s = (Ok (), s1)" "record_rows_loop io new s1 = (Ok (), s')"
    by (auto split: prod.splits sum.splits)
  from Cons.IH [OF record_row_inv(1) [OF Cons.prems(1) r(1)] r(2)] record_row_inv(2) [OF Cons.prems(1) r(1)]
  show ?case by simp
qed simp

text \<open>The rows that the steps of a call hand over.\<close>

definition step_rows :: "step_capture \<Rightarrow> spool_row list" where
  "step_rows step = (case sc_values step of Inl _ \<Rightarrow> [] | Inr logits \<Rightarrow> host_rows (sc_rows step) logits)"

lemma record_engine_step_inv:
  assumes inv: "session_inv io ids rows s" and ok: "record_engine_step io step s = (Ok (), s')"
  shows "session_inv io ids (rows @ step_rows step) s' \<and> cs_call_id s' = cs_call_id s"
proof (cases "sc_rows step = []")
  case True
  then have "s' = s" "step_rows step = []"
    using ok by (auto simp: record_engine_step_def step_rows_def host_rows_def split: if_splits sum.splits)
  then show ?thesis using inv by simp
next
  case False
  obtain logits where v: "sc_values step = Ok logits" "record_host_rows io (host_rows (sc_rows step) logits) s = (Ok (), s')"
    using ok False by (cases "sc_values step" rule: sum.exhaust)
      (auto simp: record_engine_step_def Let_def map_err_def split: list.splits if_splits failure.splits)
  then show ?thesis using record_rows_loop_inv [OF inv] by (auto simp: record_host_rows_def step_rows_def split: if_splits)
qed

lemma record_steps_inv:
  "session_inv io ids rows s \<Longrightarrow> record_steps io steps s = (Ok (), s') \<Longrightarrow>
     session_inv io ids (rows @ concat (map step_rows steps)) s' \<and> cs_call_id s' = cs_call_id s"
proof (induction steps arbitrary: rows s)
  case (Cons step steps)
  then obtain s1 where r: "record_engine_step io step s = (Ok (), s1)" "record_steps io steps s1 = (Ok (), s')"
    by (auto split: prod.splits sum.splits)
  from record_engine_step_inv [OF Cons.prems(1) r(1)] Cons.IH [OF _ r(2)] show ?case by fastforce
qed simp

section \<open>The artifact of a session\<close>

text \<open>What is relied on of the JSON codec: a line reads back as the value it was written from, when the
  value is finite (JSON has no numbers for the others).\<close>

definition line_finite :: "artifact_line \<Rightarrow> bool" where
  "line_finite l = (case l of Row r \<Rightarrow> list_all f32_is_finite (ar_logits r) | _ \<Rightarrow> True)"

definition codec_faithful :: "'l capture_io \<Rightarrow> bool" where
  "codec_faithful io \<longleftrightarrow>
     (\<forall>r l. list_all f32_is_finite (sr_logits r) \<longrightarrow> io_render_spool io r = Ok l \<longrightarrow> io_parse_spool io l = Ok r)
     \<and> (\<forall>a l. line_finite a \<longrightarrow> io_render io a = Ok l \<longrightarrow> io_parse io l = Ok a)"

lemma codec_faithfulD:
  assumes "codec_faithful io"
  shows "list_all f32_is_finite (sr_logits r) \<Longrightarrow> io_render_spool io r = Ok l \<Longrightarrow> io_parse_spool io l = Ok r"
    and "line_finite a \<Longrightarrow> io_render io a = Ok l' \<Longrightarrow> io_parse io l' = Ok a"
  using assms by (auto simp: codec_faithful_def)

definition recorded :: "nat list \<Rightarrow> spool_row list \<Rightarrow> capture_rows" where
  "recorded ids rows p = map (\<lambda>r. (sr_selected_token r, sr_logits r)) (of_request (ids ! p) rows)"

lemma map_enumerate_Suc: "map f (enumerate (Suc k) xs) = map (\<lambda>(i, x). f (Suc i, x)) (enumerate k xs)"
  by (rule nth_equalityI) (simp_all add: nth_enumerate_eq)

definition spool_line :: "nat \<Rightarrow> nat \<times> spool_row \<Rightarrow> artifact_line" where
  "spool_line p = (\<lambda>(i, r). Row \<lparr>ar_row_index = i, ar_input_position = p, ar_request_id = sr_request_id r,
     ar_selected_token = sr_selected_token r, ar_completion_step = sr_completion_step r, ar_dtype = LOGITS_DTYPE,
     ar_row_shape = length (sr_logits r), ar_logits = sr_logits r\<rparr>)"

lemma copy_spool_Ok:
  assumes "codec_faithful io" "list_all2 (\<lambda>r l. io_render_spool io r = Ok l) rs ls" "\<forall>r \<in> set rs. row_ok r"
    "copy_spool io b i ls = Ok (out, m)"
  shows "m = i + length rs \<and> rcollect (read_line (io_parse io)) (map Ok out) = Ok (map (spool_line (rb_input_position b)) (enumerate i rs))"
  using assms(2-4)
proof (induction rs ls arbitrary: i out rule: list_all2_induct)
  case (Cons r rs l ls)
  have fin: "list_all f32_is_finite (sr_logits r)" using Cons.prems(1) by (simp add: row_ok_def)
  have "io_parse_spool io l = Ok r" by (rule codec_faithfulD(1) [OF assms(1) fin]) (rule Cons.hyps)
  then obtain line rest where r: "io_render io (spool_line (rb_input_position b) (i, r)) = Ok line"
    "copy_spool io b (i + 1) ls = Ok (rest, m)" "out = line # rest"
    using Cons.prems(2) by (auto simp: rbind_Ok_iff spool_line_def)
  have "line_finite (spool_line (rb_input_position b) (i, r))" using fin by (simp add: line_finite_def spool_line_def)
  from codec_faithfulD(2) [OF assms(1) this r(1)] Cons.IH [of "i + 1" rest] r(2) Cons.prems(1)
  show ?case by (simp add: r(3) read_line_def)
qed simp

lemma rcollect_append:
  "rcollect f (xs @ ys) = rbind (rcollect f xs) (\<lambda>us. rbind (rcollect f ys) (\<lambda>vs. Inr (us @ vs)))"
proof (induction xs)
  case Nil
  then show ?case by (cases "rcollect f ys") simp_all
next
  case (Cons x xs)
  then show ?case by (cases "f x"; cases "rcollect f xs"; cases "rcollect f ys") simp_all
qed

lemma spool_lines_rows:
  assumes "spool_holds io p rid rs spool"
  shows "map (spool_line p) (enumerate i rs)
    = map (row_line (\<lambda>_. rid)) (enumerate i (map (Pair p) (enumerate 0 (map (\<lambda>r. (sr_selected_token r, sr_logits r)) rs))))"
proof (rule nth_equalityI)
  fix j assume "j < length (map (spool_line p) (enumerate i rs))"
  then have j: "j < length rs" by simp
  have "sr_completion_step (rs ! j) = j" "sr_request_id (rs ! j) = rid"
    using assms j by (auto simp: spool_holds_def dest: arg_cong [where f = "\<lambda>xs. xs ! j"])
  then show "map (spool_line p) (enumerate i rs) ! j
    = map (row_line (\<lambda>_. rid)) (enumerate i (map (Pair p) (enumerate 0 (map (\<lambda>r. (sr_selected_token r, sr_logits r)) rs)))) ! j"
    using j by (simp add: nth_enumerate_eq spool_line_def row_line_def)
qed simp

text \<open>The rows of the spools from position \<open>p\<close> on.\<close>

definition rows_from :: "capture_rows \<Rightarrow> nat \<Rightarrow> nat \<Rightarrow> (nat \<times> nat \<times> token \<times> f32 list) list" where
  "rows_from L p n = concat (map (\<lambda>p. map (Pair p) (enumerate 0 (L p))) [p..<n])"

lemma copy_spools_Ok:
  assumes cod: "codec_faithful io" and "copy_spools io i spools = Ok (out, m)" "p + length spools = n"
    and "\<And>q. q < length spools \<Longrightarrow> spool_holds io (p + q) (ids ! (p + q)) (of_request (ids ! (p + q)) rows) (spools ! q)"
  shows "m = i + length (rows_from (recorded ids rows) p n)
    \<and> rcollect (read_line (io_parse io)) (map Ok out)
      = Ok (map (row_line ((!) ids)) (enumerate i (rows_from (recorded ids rows) p n)))"
  using assms(2-4)
proof (induction spools arbitrary: i p out)
  case Nil
  then show ?case by (simp add: rows_from_def)
next
  case (Cons spool spools)
  obtain out1 k out2 where c: "copy_spool io (rq_binding spool) i (rq_lines spool) = Ok (out1, k)"
    "copy_spools io k spools = Ok (out2, m)" "out = out1 @ out2"
    using Cons.prems(1) by (auto simp: rbind_Ok_iff)
  let ?rs = "of_request (ids ! p) rows"
  have h: "spool_holds io p (ids ! p) ?rs spool" using Cons.prems(3) [of 0] by simp
  then have b: "rb_input_position (rq_binding spool) = p" by (simp add: spool_holds_def)
  have one: "k = i + length ?rs"
    "rcollect (read_line (io_parse io)) (map Ok out1) = Ok (map (spool_line p) (enumerate i ?rs))"
    using copy_spool_Ok [OF cod _ _ c(1), of ?rs] h by (auto simp: spool_holds_def b)
  have two: "m = k + length (rows_from (recorded ids rows) (Suc p) n)
    \<and> rcollect (read_line (io_parse io)) (map Ok out2)
      = Ok (map (row_line ((!) ids)) (enumerate k (rows_from (recorded ids rows) (Suc p) n)))"
  proof (rule Cons.IH [OF c(2)])
    show "Suc p + length spools = n" using Cons.prems(2) by simp
    show "spool_holds io (Suc p + q) (ids ! (Suc p + q)) (of_request (ids ! (Suc p + q)) rows) (spools ! q)"
      if "q < length spools" for q
      using Cons.prems(3) [of "Suc q"] that by simp
  qed
  have split: "rows_from (recorded ids rows) p n
      = map (Pair p) (enumerate 0 (recorded ids rows p)) @ rows_from (recorded ids rows) (Suc p) n"
    using Cons.prems(2) by (simp add: rows_from_def upt_conv_Cons)
  have lr: "length (recorded ids rows p) = length ?rs" by (simp add: recorded_def)
  have "map (spool_line p) (enumerate i ?rs)
      = map (row_line ((!) ids)) (enumerate i (map (Pair p) (enumerate 0 (recorded ids rows p))))"
    unfolding spool_lines_rows [OF h] recorded_def
    by (intro map_cong refl) (auto simp: row_line_def in_set_enumerate_eq)
  then show ?case
    using one two by (simp add: split c(3) rcollect_append enumerate_append_eq lr)
qed

text \<open>The tokens of the rows at one position.\<close>

definition row_tokens :: "nat \<Rightarrow> artifact_line list \<Rightarrow> token list" where
  "row_tokens p ls = concat (map (\<lambda>l. case l of
     Row r \<Rightarrow> if ar_input_position r = p then [ar_selected_token r] else [] | _ \<Rightarrow> []) ls)"

lemma row_tokens_simps [simp]:
  "row_tokens p [] = []"
  "row_tokens p (Row r # ls) = (if ar_input_position r = p then [ar_selected_token r] else []) @ row_tokens p ls"
  "row_tokens p (Trailer t # ls) = row_tokens p ls"
  "row_tokens p (Header a b c d # ls) = row_tokens p ls"
  "row_tokens p (ls @ ms) = row_tokens p ls @ row_tokens p ms"
  by (simp_all add: row_tokens_def)

lemma row_tokens_rows:
  "row_tokens p (map (row_line rid) (enumerate i xs)) = concat (map (\<lambda>(q, k, t, ls). if q = p then [t] else []) xs)"
  by (induction xs arbitrary: i) (auto simp: row_line_def)

lemma concat_tokens: "concat (map ((\<lambda>(q, k, t, ls). if q = p then [t] else []) \<circ> Pair q) (enumerate k ys))
    = (if q = p then map fst ys else [])"
  by (induction ys arbitrary: k) auto

lemma row_tokens_capture: "p < n \<Longrightarrow> row_tokens p (row_lines rid L n) = map fst (L p)"
proof -
  have "concat (map (\<lambda>(q, k, t, ls). if q = p then [t] else []) (flat_rows L n)) = (if p < n then map fst (L p) else [])"
    by (induction n) (auto simp: flat_rows_def concat_tokens less_Suc_eq)
  then show "p < n \<Longrightarrow> ?thesis" by (simp add: row_lines_def row_tokens_rows)
qed

lemma validate_row_tokens:
  assumes "validate_row bindings r st = Ok st'"
  shows "ar_input_position r < length (va_steps st) \<and> length (va_steps st') = length (va_steps st)
    \<and> va_tokens st' = (va_tokens st)[ar_input_position r := va_tokens st ! ar_input_position r @ [ar_selected_token r]]"
  using assms by (auto simp: validate_row_def Let_def rbind_Ok_iff index_Ok_iff split: if_splits)

lemma read_line_Ok: "read_line parse (Ok l) = map_err ParseFailed (parse l)"
  by (simp add: read_line_def)

lemma validate_lines_tokens:
  assumes "validate_lines io bindings ls st = Ok st'" "length (va_steps st) = length (va_tokens st)"
    "rcollect (read_line (io_parse io)) (map Ok ls) = Ok ps"
  shows "length (va_tokens st') = length (va_tokens st)
    \<and> (\<forall>p < length (va_tokens st). va_tokens st' ! p = va_tokens st ! p @ row_tokens p ps)"
  using assms
proof (induction ls arbitrary: st ps)
  case (Cons l ls)
  obtain line st1 where l: "io_parse io l = Ok line" "validate_line bindings line st = Ok st1"
    "validate_lines io bindings ls st1 = Ok st'"
    using Cons.prems(1) by (auto simp: rbind_Ok_iff)
  obtain qs where ps: "ps = line # qs" "rcollect (read_line (io_parse io)) (map Ok ls) = Ok qs"
    using Cons.prems(3) l(1) by (auto simp: rbind_Ok_iff read_line_Ok)
  show ?case
  proof (cases line)
    case (Row r)
    then have "validate_row bindings r st = Ok st1" using l(2) by (simp add: validate_line_def)
    note v = validate_row_tokens [OF this]
    have "length (va_steps st1) = length (va_tokens st1)" using v Cons.prems(2) by simp
    from Cons.IH [OF l(3) this ps(2)] show ?thesis using v by (auto simp: ps(1) Row nth_list_update)
  next
    case (Trailer t)
    then have "st1 = st\<lparr>va_trailer := Some t\<rparr>" using l(2) by (auto simp: validate_line_def split: if_splits)
    then show ?thesis using Cons.IH [OF l(3) _ ps(2)] Cons.prems(2) by (simp add: ps(1) Trailer)
  qed (use l(2) in \<open>simp add: validate_line_def\<close>)
qed simp

lemma check_selected_Ok_iff:
  "i + length outs \<le> length tokens \<Longrightarrow>
     check_selected tokens i outs = Ok () \<longleftrightarrow> (\<forall>j < length outs. tokens ! (i + j) = out_token_ids (outs ! j))"
proof (induction outs arbitrary: i)
  case (Cons out outs)
  have "(\<forall>j < length (out # outs). tokens ! (i + j) = out_token_ids ((out # outs) ! j))
    \<longleftrightarrow> tokens ! i = out_token_ids out \<and> (\<forall>j < length outs. tokens ! (Suc i + j) = out_token_ids (outs ! j))"
    by (auto simp: less_Suc_eq_0_disj)
  then show ?case using Cons.IH [of "Suc i"] Cons.prems by simp
qed simp

lemma check_outputs_Ok_iff:
  "length bs = length outs \<Longrightarrow> check_outputs (zip bs outs) = Ok ()
     \<longleftrightarrow> map rb_request_id bs = map out_request_id outs \<and> list_all out_finished outs"
  by (induction bs outs rule: list_induct2) auto

text \<open>An artifact whose rows are the capture \<open>L\<close> passes the producer's own validation only when its
  tokens are the outputs' tokens.\<close>

lemma validate_artifact_Ok:
  assumes ok: "validate_artifact io lines c (bindings_of ids) outputs = Ok ()"
    and art: "rcollect (read_line (io_parse io)) (map Ok lines) = Ok (capture_artifact c ids L v)"
  shows "map out_request_id outputs = ids" "list_all out_finished outputs"
    "\<forall>p < length outputs. map fst (L p) = out_token_ids (outputs ! p)"
proof -
  let ?n = "length ids" and ?t = "Trailer \<lparr>at_complete = True, at_row_count = length (flat_rows L (length ids)),
    at_dtype = LOGITS_DTYPE, at_tensor_shape = (length (flat_rows L (length ids)), v)\<rparr>"
  obtain l ls where lines: "lines = l # ls" using art by (cases lines) (simp_all add: capture_artifact_def)
  have ls: "rcollect (read_line (io_parse io)) (map Ok ls) = Ok (row_lines ((!) ids) L ?n @ [?t])"
    using art by (auto simp: lines capture_artifact_def rbind_Ok_iff)
  have len: "length outputs = ?n" and out: "check_outputs (zip (bindings_of ids) outputs) = Ok ()"
    using ok by (auto simp: validate_artifact_def rbind_Ok_iff split: if_splits)
  obtain st where st: "validate_lines io (bindings_of ids) ls
      \<lparr>va_steps = replicate ?n 0, va_tokens = replicate ?n [], va_row_count = 0,
           va_vocab = None, va_last = None, va_trailer = None\<rparr> = Ok st" "check_selected (va_tokens st) 0 outputs = Ok ()"
    using ok by (auto simp: validate_artifact_def lines rbind_Ok_iff split: if_splits option.splits)
  have ids: "map rb_request_id (bindings_of ids) = ids" by (rule nth_equalityI) simp_all
  show "map out_request_id outputs = ids" "list_all out_finished outputs"
    using out len by (simp_all add: check_outputs_Ok_iff ids)
  have "length (va_tokens st) = ?n" "\<forall>p < ?n. va_tokens st ! p = row_tokens p (row_lines ((!) ids) L ?n)"
    using validate_lines_tokens [OF st(1) _ ls] by simp_all
  then show "\<forall>p < length outputs. map fst (L p) = out_token_ids (outputs ! p)"
    using st(2) len by (simp add: check_selected_Ok_iff row_tokens_capture)
qed

lemma rows_from_all: "rows_from L 0 n = flat_rows L n"
  by (simp add: rows_from_def flat_rows_def)

lemma rcollect_snoc_line:
  "rcollect (read_line parse) (map Ok ls) = Ok ps \<Longrightarrow> parse l = Ok q \<Longrightarrow>
     rcollect (read_line parse) (map Ok (ls @ [l])) = Ok (ps @ [q])"
  by (simp add: rcollect_append read_line_Ok)

lemma session_bindings:
  assumes "session_inv io ids rows s"
  shows "map rq_binding (cs_spools s) = bindings_of ids"
  using assms by (intro nth_equalityI) (auto simp: session_inv_def spool_holds_def)

lemma session_width:
  assumes inv: "session_inv io ids rows s"
  shows "rows_wf (recorded ids rows) (length ids) (case cs_vocab_size s of None \<Rightarrow> 0 | Some v \<Rightarrow> v)"
  unfolding rows_wf_def
proof (intro conjI allI impI ballI)
  fix p x assume p: "p < length ids" and "x \<in> set (recorded ids rows p)"
  then obtain r where r: "x = (sr_selected_token r, sr_logits r)" "r \<in> set (of_request (ids ! p) rows)"
    by (auto simp: recorded_def)
  have "row_ok r" using inv p r(2) by (auto simp: session_inv_def spool_holds_def)
  moreover have "cs_vocab_size s = Some (length (sr_logits r))" using inv r(2) by (auto simp: session_inv_def of_request_def)
  ultimately show "case x of (t, ls) \<Rightarrow> length ls = (case cs_vocab_size s of None \<Rightarrow> 0 | Some v \<Rightarrow> v)
      \<and> 0 < (case cs_vocab_size s of None \<Rightarrow> 0 | Some v \<Rightarrow> v) \<and> list_all f32_is_finite ls"
    by (simp add: r(1) row_ok_def)
next
  assume none: "flat_rows (recorded ids rows) (length ids) = []"
  have "rows = []"
  proof (rule ccontr)
    assume "rows \<noteq> []"
    then obtain r where r: "r \<in> set rows" by (cases rows) auto
    then have "sr_request_id r \<in> set ids" using inv by (auto simp: session_inv_def)
    then obtain p where "p < length ids" "ids ! p = sr_request_id r" by (auto simp: in_set_conv_nth)
    then have "recorded ids rows p \<noteq> []" using r by (auto simp: recorded_def of_request_def filter_empty_conv)
    then show False using none \<open>p < length ids\<close> by (simp add: flat_rows_Nil_iff)
  qed
  then show "(case cs_vocab_size s of None \<Rightarrow> 0 | Some v \<Rightarrow> v) = 0" using inv by (simp add: session_inv_def)
qed

text \<open>What a completed session publishes.\<close>

lemma finish_Ok:
  assumes cod: "codec_faithful io" and inv: "session_inv io ids rows s" and fin: "finish io outputs s = Ok lines"
  defines "v \<equiv> (case cs_vocab_size s of None \<Rightarrow> 0 | Some v \<Rightarrow> v)"
  shows "rcollect (read_line (io_parse io)) (map Ok lines) = Ok (capture_artifact (cs_call_id s) ids (recorded ids rows) v)"
    "validate_artifact io lines (cs_call_id s) (bindings_of ids) outputs = Ok ()"
proof -
  let ?L = "recorded ids rows" and ?n = "length ids"
  obtain header body count trailer where
    h: "io_render io (Header FORMAT_NAME CAPTURE_SCHEMA_VERSION (cs_call_id s) (bindings_of ids)) = Ok header"
    and b: "copy_spools io 0 (cs_spools s) = Ok (body, count)"
    and t: "io_render io (Trailer \<lparr>at_complete = True, at_row_count = count, at_dtype = LOGITS_DTYPE, at_tensor_shape = (count, v)\<rparr>)
      = Ok trailer"
    and lines: "lines = header # body @ [trailer]"
    and val: "validate_artifact io lines (cs_call_id s) (bindings_of ids) outputs = Ok ()"
    using fin by (auto simp: finish_def Let_def rbind_Ok_iff session_bindings [OF inv] v_def split: if_splits)
  have len: "0 + length (cs_spools s) = ?n" using inv by (simp add: session_inv_def)
  have holds: "spool_holds io (0 + q) (ids ! (0 + q)) (of_request (ids ! (0 + q)) rows) (cs_spools s ! q)"
    if "q < length (cs_spools s)" for q
    using inv that by (simp add: session_inv_def)
  have rows: "count = length (flat_rows ?L ?n)"
    "rcollect (read_line (io_parse io)) (map Ok body) = Ok (row_lines ((!) ids) ?L ?n)"
    using copy_spools_Ok [OF cod b len holds] by (simp_all add: rows_from_all row_lines_def)
  have "io_parse io header = Ok (Header FORMAT_NAME CAPTURE_SCHEMA_VERSION (cs_call_id s) (bindings_of ids))"
    by (rule codec_faithfulD(2) [OF cod _ h]) (simp add: line_finite_def)
  moreover have "io_parse io trailer
      = Ok (Trailer \<lparr>at_complete = True, at_row_count = count, at_dtype = LOGITS_DTYPE, at_tensor_shape = (count, v)\<rparr>)"
    by (rule codec_faithfulD(2) [OF cod _ t]) (simp add: line_finite_def)
  ultimately show "rcollect (read_line (io_parse io)) (map Ok lines) = Ok (capture_artifact (cs_call_id s) ids ?L v)"
    using rcollect_snoc_line [OF rows(2)] by (simp add: lines read_line_Ok capture_artifact_def rows(1))
  show "validate_artifact io lines (cs_call_id s) (bindings_of ids) outputs = Ok ()" by (rule val)
qed

text \<open>A call of two requests in two steps, with a codec that keeps the values as they are.\<close>

definition plain_io :: "(spool_row + artifact_line) capture_io" where
  "plain_io = \<lparr>io_create = (\<lambda>_. Ok ()), io_render_spool = (\<lambda>r. Ok (Inl r)),
     io_parse_spool = (\<lambda>l. case l of Inl r \<Rightarrow> Ok r | Inr _ \<Rightarrow> Error ''not a spool row''),
     io_render = (\<lambda>a. Ok (Inr a)), io_parse = (\<lambda>l. case l of Inr a \<Rightarrow> Ok a | Inl _ \<Rightarrow> Error ''not a line''),
     io_open = (\<lambda>_. Ok ()), io_sync = (\<lambda>_. Ok ()), io_remove = (\<lambda>_. Ok ()), io_publish = Ok ()\<rparr>"

definition two_steps :: "step_capture list" where
  "two_steps = [\<lparr>sc_rows = [(3, 11, 0), (7, 12, 0)], sc_dims = [2, 1], sc_dtype = F32,
       sc_values = Ok [[F32_Finite 1], [F32_Finite 2]]\<rparr>,
     \<lparr>sc_rows = [], sc_dims = [0, 0], sc_dtype = F32, sc_values = Ok []\<rparr>,
     \<lparr>sc_rows = [(3, 13, 1)], sc_dims = [1, 1], sc_dtype = F32, sc_values = Ok [[F32_Finite (- 4)]]\<rparr>]"

definition two_outputs :: "request_output list" where
  "two_outputs = [\<lparr>out_request_id = 7, out_token_ids = [12], out_text = [], out_finished = True\<rparr>,
     \<lparr>out_request_id = 3, out_token_ids = [11, 13], out_text = [], out_finished = True\<rparr>]"

definition two_session :: "(spool_row + artifact_line) capture_session" where
  "two_session = snd (record_steps plain_io two_steps (snd (bind_requests plain_io [7, 3] (session_prepare ''call''))))"

definition two_lines :: "(spool_row + artifact_line) list" where
  "two_lines = (case finish plain_io two_outputs two_session of Inr ls \<Rightarrow> ls | Inl _ \<Rightarrow> [])"

lemma plain_io_faithful: "codec_faithful plain_io"
  by (simp add: codec_faithful_def plain_io_def)

lemma two_steps_recorded:
  "record_steps plain_io two_steps (snd (bind_requests plain_io [7, 3] (session_prepare ''call''))) = (Ok (), two_session)"
  unfolding two_session_def prod_eq_iff
  by (simp add: two_steps_def bind_requests_def session_prepare_def plain_io_def record_engine_step_def record_host_rows_def
      record_row_def Let_def host_rows_def index_def)

lemma two_bound: "bind_requests plain_io [7, 3] (session_prepare ''call'')
    = (Ok (), snd (bind_requests plain_io [7, 3] (session_prepare ''call'')))"
  by (simp add: prod_eq_iff bind_requests_def session_prepare_def plain_io_def)

lemma two_session_value: "cs_failed two_session = False \<and> cs_call_id two_session = ''call'' \<and> cs_vocab_size two_session = Some 1
    \<and> cs_spools two_session = [
     \<lparr>rq_binding = \<lparr>rb_input_position = 0, rb_request_id = 7\<rparr>,
      rq_lines = [Inl \<lparr>sr_request_id = 7, sr_selected_token = 12, sr_completion_step = 0, sr_logits = [F32_Finite 2]\<rparr>],
      rq_open = True, rq_next_step = 1\<rparr>,
     \<lparr>rq_binding = \<lparr>rb_input_position = 1, rb_request_id = 3\<rparr>,
      rq_lines = [Inl \<lparr>sr_request_id = 3, sr_selected_token = 11, sr_completion_step = 0, sr_logits = [F32_Finite 1]\<rparr>,
        Inl \<lparr>sr_request_id = 3, sr_selected_token = 13, sr_completion_step = 1, sr_logits = [F32_Finite (- 4)]\<rparr>],
      rq_open = True, rq_next_step = 2\<rparr>]"
  by (simp add: two_session_def two_steps_def bind_requests_def session_prepare_def plain_io_def record_engine_step_def record_host_rows_def
      record_row_def Let_def host_rows_def index_def)

lemma two_finished: "finish plain_io two_outputs two_session = Ok two_lines"
  unfolding two_lines_def
  by (simp add: two_session_value finish_def two_outputs_def plain_io_def validate_artifact_def validate_line_def
      validate_row_def Let_def index_def LOGITS_DTYPE_def upt_rec)

lemma two_size: "length (flat_rows (recorded [7, 3] (concat (map step_rows two_steps))) (length [7 :: nat, 3])) * 1 < usize_bound"
  by (simp add: flat_rows_def recorded_def of_request_def two_steps_def step_rows_def host_rows_def usize_bound_def upt_rec)

lemma two_width: "1 = (case cs_vocab_size two_session of None \<Rightarrow> 0 | Some v \<Rightarrow> v)"
  by (simp add: two_session_value)

text \<open>C17: Round trip of a diagnostic capture across the two crates. When a session was bound to the
  requests of a call, every step of the call was recorded without error, and the session completed, the
  published artifact is accepted by the consumer of the release tool for the same call identity and
  outputs (a private regular file, fewer than \<open>2^64\<close> values), and the consumer returns for each output
  exactly the tokens and the logits that the steps handed over for its request, in the order in which
  they were recorded.\<close>

theorem capture_roundtrip:
  assumes "codec_faithful io" and "bind_requests io ids (session_prepare c) = (Ok (), s0)"
    and "record_steps io steps s0 = (Ok (), s1)" and "finish io outputs s1 = Ok lines"
    and "meta_regular m" "meta_mode m mod 64 = 0"
    and "v = (case cs_vocab_size s1 of None \<Rightarrow> 0 | Some v \<Rightarrow> v)"
    and "rows = concat (map step_rows steps)"
    and "length (flat_rows (recorded ids rows) (length ids)) * v < usize_bound"
  shows "read_and_validate_capture (io_parse io) (Ok m) (map Ok lines) c outputs
    = Ok (captured_of (recorded ids rows) (length ids) v)"
proof -
  have start: "session_inv io ids [] s0" "cs_call_id s0 = c" using bind_requests_inv [OF assms(2)] .
  have inv: "session_inv io ids rows s1" and c: "cs_call_id s1 = c"
    using record_steps_inv [OF start(1) assms(3)] start(2) by (simp_all add: assms(8))
  note art = finish_Ok(1) [OF assms(1) inv assms(4), folded assms(7), unfolded c]
  note val = validate_artifact_Ok [OF finish_Ok(2) [OF assms(1) inv assms(4), unfolded c] art]
  have ids: "map out_request_id outputs = ids" and n: "length outputs = length ids" using val(1) by (auto dest: arg_cong [of _ _ length])
  have "captures outputs (recorded ids rows) v"
    using session_width [OF inv] val(3) by (simp add: captures_def n assms(7))
  moreover have "distinct ids" using inv by (simp add: session_inv_def)
  ultimately show ?thesis
    using capture_complete [of "Ok m" m outputs "io_parse io" "map Ok lines" c "recorded ids rows" v] assms(5,6,9) art val(2)
    by (simp add: n ids)
qed

theorem capture_roundtrip_witness:
  "read_and_validate_capture (io_parse plain_io) (Ok \<lparr>meta_regular = True, meta_mode = 384\<rparr>) (map Ok two_lines) ''call'' two_outputs
    = Ok (captured_of (recorded [7, 3] (concat (map step_rows two_steps))) (length [7 :: nat, 3]) 1)"
  by (rule capture_roundtrip [OF plain_io_faithful two_bound two_steps_recorded two_finished _ _ two_width refl two_size]) simp_all

end
