(* ===== verification/Release_Manifest.thy ===== *)
theory Release_Manifest
  imports Snapshot Golden_Types "HOL-Library.Sublist"
begin

text \<open>
  The first part of \<^verbatim>\<open>release_transport.rs\<close> of the crate \<^verbatim>\<open>vllm-oxide-test\<close>: the manifest of a
  transported release, its inventory of artifacts, and the canonical USTAR header of an artifact. The
  JSON parser is a parameter. Text is the byte string of the source's UTF-8, so lengths and
  comparisons of \<^verbatim>\<open>str\<close> are those of the list of characters.
\<close>

datatype release_error =
    TransportIo string
  | SymlinkInPath
  | ManifestTooLarge
  | ReleaseParse string
  | DuplicateCount
  | InvalidIdentity
  | InvalidInventory
  | PathConflict
  | SizeOverflow
  | TotalTooLarge
  | MissingEntrypoint
  | NotRegular
  | NotTwoAssets
  | ArchiveTooLarge
  | ArchiveChecksum
  | SymlinkCacheRoot
  | InvalidInstall
  | CapacityRequired
  | NoStagingDirectory
  | GzipHeader
  | UstarHeader
  | TruncatedPayload
  | ExtractedChecksum
  | NonzeroPadding
  | InvalidEndMarkers
  | TrailingCompressed
  | ManifestDiffers
  | UnexpectedDirectory
  | SpecialEntry
  | InventoryMismatch
  | InstalledMismatch

section \<open>The manifest\<close>

definition MANIFEST_LIMIT :: nat where "MANIFEST_LIMIT = 16 * 1024 * 1024"
definition FILE_LIMIT :: nat where "FILE_LIMIT = 8 * 1024 * 1024 * 1024 - 1"
definition TOTAL_LIMIT :: nat where "TOTAL_LIMIT = 1024 * 1024 * 1024 * 1024"
definition ARCHIVE_LIMIT :: nat where "ARCHIVE_LIMIT = 2 * TOTAL_LIMIT"
definition ARCHIVE :: string where "ARCHIVE = ''goldens-v0.2.tar.gz''"

record release_source =
  src_commit :: string
  src_tree :: string

record release_artifact =
  ra_logical_path :: string
  ra_filename :: string
  ra_sha256 :: string
  ra_size_bytes :: nat

record archive_identity =
  ai_filename :: string
  ai_sha256 :: string

record entrypoints =
  authoritative_manifest :: string
  authoritative_marker :: string
  performance :: string
  cpu_gates :: string

record release_manifest =
  rm_schema_version :: nat
  rm_protocol :: string
  rm_product_version :: string
  rm_golden_version :: string
  rm_source :: release_source
  registry_sha256 :: string
  policy_sha256 :: string
  definition_index_blob :: string
  rm_entrypoints :: entrypoints
  rm_counts :: "(string \<times> nat) list"
  artifacts :: "release_artifact list"
  rm_archive :: archive_identity

text \<open>The visitor of \<^verbatim>\<open>unique_counts\<close> over the entries of the JSON object, in document order; a
  \<^verbatim>\<open>BTreeMap\<close> is kept as the list of its entries.\<close>

fun unique_counts :: "(string \<times> nat) list \<Rightarrow> (string \<times> nat) list \<Rightarrow> (release_error, (string \<times> nat) list) outcome" where
  "unique_counts seen [] = Ok seen"
| "unique_counts seen ((k, v) # es) =
     (if k \<in> fst ` set seen then Error DuplicateCount else unique_counts (insort_key fst (k, v) seen) es)"

section \<open>Safe paths\<close>

definition is_ascii :: "string \<Rightarrow> bool" where
  "is_ascii s = list_all (\<lambda>c. (of_char c :: nat) < 128) s"

definition safe_path :: "string \<Rightarrow> bool" where
  "safe_path v \<longleftrightarrow> v \<noteq> [] \<and> length v \<le> 512 \<and> is_ascii v \<and> CHR 0x5C \<notin> set v \<and> CHR 0x00 \<notin> set v
     \<and> list_all (\<lambda>p. p \<notin> {[], ''.'', ''..'', ''.git''}) (split_on (CHR ''/'') v)"

section \<open>Numerals\<close>

text \<open>\<^verbatim>\<open>format!("{n:0width$}")\<close> in base ten and, with \<^verbatim>\<open>o\<close>, in base eight: at least \<open>width\<close> digits,
  more when the number needs them.\<close>

fun numeral_digits :: "nat \<Rightarrow> nat \<Rightarrow> string" where
  "numeral_digits b n =
     (if n < b \<or> b < 2 then [char_of (48 + n)] else numeral_digits b (n div b) @ [char_of (48 + n mod b)])"

declare numeral_digits.simps [simp del]

definition zero_padded :: "nat \<Rightarrow> string \<Rightarrow> string" where
  "zero_padded width s = replicate (width - length s) (CHR ''0'') @ s"

definition artifact_name :: "nat \<Rightarrow> string" where
  "artifact_name i = ''artifact-'' @ zero_padded 6 (numeral_digits 10 i) @ ''.bin''"

section \<open>Validation\<close>

record inventory_scan =
  is_names :: "string set"
  is_previous :: "string option"
  is_total :: nat

text \<open>The loop over the parts of a path: no proper prefix may be a file already listed.\<close>

fun check_prefixes :: "string set \<Rightarrow> string \<Rightarrow> string list \<Rightarrow> (release_error, unit) outcome" where
  "check_prefixes names pfx [] = Ok ()"
| "check_prefixes names pfx (part # parts) =
     (if pfx \<in> names then Error PathConflict
      else check_prefixes names (if pfx = [] then part else pfx @ CHR ''/'' # part) parts)"

definition check_artifact :: "nat \<Rightarrow> release_artifact \<Rightarrow> inventory_scan \<Rightarrow> (release_error, inventory_scan) outcome" where
  "check_artifact i a st =
     (if \<not> safe_path (ra_logical_path a)
         \<or> (case is_previous st of Some p \<Rightarrow> ra_logical_path a \<le> p | None \<Rightarrow> False)
         \<or> ra_filename a \<noteq> artifact_name i
         \<or> \<not> is_lowercase_hex (ra_sha256 a) 64
         \<or> FILE_LIMIT < ra_size_bytes a
      then Error InvalidInventory
      else rbind (check_prefixes (is_names st) [] (split_on (CHR ''/'') (ra_logical_path a))) (\<lambda>_.
        case checked_add (is_total st) (ra_size_bytes a) of
          None \<Rightarrow> Error SizeOverflow
        | Some n \<Rightarrow> Ok \<lparr>is_names = insert (ra_logical_path a) (is_names st),
            is_previous = Some (ra_logical_path a), is_total = n\<rparr>))"

fun check_artifacts :: "nat \<Rightarrow> release_artifact list \<Rightarrow> inventory_scan \<Rightarrow> (release_error, inventory_scan) outcome" where
  "check_artifacts i [] st = Ok st"
| "check_artifacts i (a # as) st = rbind (check_artifact i a st) (check_artifacts (Suc i) as)"

definition empty_inventory :: inventory_scan where
  "empty_inventory = \<lparr>is_names = {}, is_previous = None, is_total = 0\<rparr>"

definition release_identity_ok :: "release_manifest \<Rightarrow> bool" where
  "release_identity_ok m \<longleftrightarrow> rm_schema_version m = 5 \<and> rm_protocol m = ''layered-accuracy-v1''
     \<and> rm_product_version m = ''v0.2.0'' \<and> rm_golden_version m = ''goldens-v0.2''
     \<and> ai_filename (rm_archive m) = ARCHIVE \<and> is_lowercase_hex (ai_sha256 (rm_archive m)) 64
     \<and> is_lowercase_hex (src_commit (rm_source m)) 40 \<and> is_lowercase_hex (src_tree (rm_source m)) 40
     \<and> is_lowercase_hex (registry_sha256 m) 64 \<and> is_lowercase_hex (policy_sha256 m) 64
     \<and> is_lowercase_hex (definition_index_blob m) 40 \<and> artifacts m \<noteq> [] \<and> length (artifacts m) \<le> 50000"

definition entrypoint_paths :: "release_manifest \<Rightarrow> string list" where
  "entrypoint_paths m = (let e = rm_entrypoints m in
     [authoritative_manifest e, authoritative_marker e, performance e, cpu_gates e])"

definition parse_release ::
    "(8 word list \<Rightarrow> (string, release_manifest) outcome) \<Rightarrow> 8 word list \<Rightarrow> (release_error, release_manifest) outcome" where
  "parse_release parse bytes =
     (if MANIFEST_LIMIT < length bytes then Error ManifestTooLarge
      else rbind (map_err ReleaseParse (parse bytes)) (\<lambda>raw.
      rbind (unique_counts [] (rm_counts raw)) (\<lambda>counts.
      let m = raw\<lparr>rm_counts := counts\<rparr> in
      if \<not> release_identity_ok m then Error InvalidIdentity
      else rbind (check_artifacts 0 (artifacts m) empty_inventory) (\<lambda>st.
      if TOTAL_LIMIT < is_total st then Error TotalTooLarge
      else if \<not> list_all (\<lambda>p. p \<in> is_names st) (entrypoint_paths m) then Error MissingEntrypoint
      else Ok m))))"

section \<open>The USTAR header\<close>

definition bytes_of :: "string \<Rightarrow> 8 word list" where
  "bytes_of = map of_char"

text \<open>\<^verbatim>\<open>bytes[start..start + len].copy_from_slice(data)\<close>: a panic when the range does not lie in the
  array or its length is not that of the data.\<close>

definition copy_slice :: "nat \<Rightarrow> nat \<Rightarrow> 'a list \<Rightarrow> 'a list \<Rightarrow> ('e, 'a list) outcome" where
  "copy_slice start len data xs =
     (if start + len \<le> length xs \<and> length data = len
      then Ok (take start xs @ data @ drop (start + len) xs) else Panicked)"

definition octal_field :: "nat \<Rightarrow> nat \<Rightarrow> 8 word list" where
  "octal_field len n = bytes_of (zero_padded (len - 1) (numeral_digits 8 n)) @ [0]"

definition numeric_fields :: "release_artifact \<Rightarrow> (nat \<times> nat \<times> nat) list" where
  "numeric_fields a = [(100, 8, 420), (108, 8, 0), (116, 8, 0), (124, 12, ra_size_bytes a), (136, 12, 0)]"

fun put_fields :: "(nat \<times> nat \<times> nat) list \<Rightarrow> 8 word list \<Rightarrow> ('e, 8 word list) outcome" where
  "put_fields [] xs = Ok xs"
| "put_fields ((start, len, n) # fs) xs = rbind (copy_slice start len (octal_field len n) xs) (put_fields fs)"

definition byte_sum :: "8 word list \<Rightarrow> nat" where
  "byte_sum xs = sum_list (map unat xs)"

definition ustar_header :: "release_artifact \<Rightarrow> ('e, 8 word list) outcome" where
  "ustar_header a =
     (let name = bytes_of (ra_filename a) in
      rbind (copy_slice 0 (length name) name (replicate 512 0)) (\<lambda>h.
      rbind (put_fields (numeric_fields a) h) (\<lambda>h.
      rbind (copy_slice 148 8 (replicate 8 32) h) (\<lambda>h.
      let h = h[156 := 48] in
      rbind (copy_slice 257 6 (bytes_of ''ustar'' @ [0]) h) (\<lambda>h.
      rbind (copy_slice 263 2 (bytes_of ''00'') h) (\<lambda>h.
      copy_slice 148 8 (bytes_of (zero_padded 6 (numeral_digits 8 (byte_sum h))) @ [0, 32]) h))))))"

section \<open>Parts of a path\<close>

lemma split_on_parts: "p \<in> set (split_on c s) \<Longrightarrow> c \<notin> set p"
proof (induction s arbitrary: p)
  case (Cons x s)
  then show ?case by (cases "split_on c s") (auto split: if_splits)
qed simp

lemma join_split [simp]: "join_names (split_on (CHR ''/'') s) = s"
proof (induction s)
  case (Cons x s)
  show ?case
  proof (cases "x = CHR ''/''")
    case True
    obtain p ps where sp: "split_on (CHR ''/'') s = p # ps" by (cases "split_on (CHR ''/'') s") simp_all
    then show ?thesis using Cons.IH True by simp
  next
    case False
    obtain p ps where sp: "split_on (CHR ''/'') s = p # ps" by (cases "split_on (CHR ''/'') s") simp_all
    then show ?thesis using Cons.IH False by (cases ps) simp_all
  qed
qed simp

text \<open>The path of the first parts, as the loop builds it.\<close>

definition extend_path :: "string \<Rightarrow> string list \<Rightarrow> string" where
  "extend_path = foldl (\<lambda>pfx part. if pfx = [] then part else pfx @ CHR ''/'' # part)"

lemma extend_path_simps [simp]:
  "extend_path pfx [] = pfx"
  "extend_path pfx (p # ps) = extend_path (if pfx = [] then p else pfx @ CHR ''/'' # p) ps"
  by (simp_all add: extend_path_def)

lemma extend_path_join: "pfx \<noteq> [] \<Longrightarrow> ps \<noteq> [] \<Longrightarrow> extend_path pfx ps = pfx @ CHR ''/'' # join_names ps"
proof (induction ps arbitrary: pfx)
  case (Cons p ps)
  then show ?case using Cons.IH [of "pfx @ CHR ''/'' # p"] by (cases ps) simp_all
qed simp

lemma extend_path_Nil: "[] \<notin> set ps \<Longrightarrow> extend_path [] ps = join_names ps"
proof (cases ps)
  case (Cons p qs)
  assume "[] \<notin> set ps"
  then show ?thesis using Cons extend_path_join [of p qs] by (cases qs) auto
qed simp

lemma check_prefixes_Ok_iff:
  "check_prefixes names pfx parts = Ok () \<longleftrightarrow> (\<forall>k < length parts. extend_path pfx (take k parts) \<notin> names)"
proof (induction names pfx parts rule: check_prefixes.induct)
  case (2 names pfx part parts)
  show ?case
  proof (cases "pfx \<in> names")
    case True
    then show ?thesis by (auto intro!: exI [of _ 0])
  next
    case False
    then have "(\<forall>k < length (part # parts). extend_path pfx (take k (part # parts)) \<notin> names)
        \<longleftrightarrow> (\<forall>k < length parts. extend_path pfx (take (Suc k) (part # parts)) \<notin> names)"
      by (metis (no_types, lifting) Suc_less_eq extend_path_simps(1) length_Cons less_Suc_eq_0_disj take_0)
    then show ?thesis using False "2.IH" by simp
  qed
qed simp

lemma safe_parts:
  assumes "safe_path v"
  shows "[] \<notin> set (split_on (CHR ''/'') v)" "''..'' \<notin> set (split_on (CHR ''/'') v)" "v \<noteq> []"
  using assms by (auto simp: safe_path_def list_all_iff)

section \<open>An accepted inventory\<close>

definition artifact_ok :: "nat \<Rightarrow> release_artifact \<Rightarrow> bool" where
  "artifact_ok i a \<longleftrightarrow> safe_path (ra_logical_path a) \<and> ra_filename a = artifact_name i
     \<and> is_lowercase_hex (ra_sha256 a) 64 \<and> ra_size_bytes a \<le> FILE_LIMIT"

definition artifact_parts :: "release_artifact \<Rightarrow> string list" where
  "artifact_parts a = split_on (CHR ''/'') (ra_logical_path a)"

lemma check_artifact_Ok:
  assumes "check_artifact i a st = Ok st'"
  shows "artifact_ok i a" "\<And>p. is_previous st = Some p \<Longrightarrow> p < ra_logical_path a"
    "is_names st' = insert (ra_logical_path a) (is_names st)" "is_previous st' = Some (ra_logical_path a)"
    "is_total st' = is_total st + ra_size_bytes a"
    "\<And>k. k < length (artifact_parts a) \<Longrightarrow> extend_path [] (take k (artifact_parts a)) \<notin> is_names st"
  using assms
  by (auto simp: check_artifact_def artifact_ok_def artifact_parts_def rbind_Ok_iff check_prefixes_Ok_iff not_less
      split: if_splits option.splits dest!: checked_add_Some)

lemma check_artifacts_Ok:
  assumes "check_artifacts i as st = Ok st'"
  shows "(\<forall>j < length as. artifact_ok (i + j) (as ! j))
    \<and> (\<forall>p. is_previous st = Some p \<longrightarrow> (\<forall>a \<in> set as. p < ra_logical_path a))
    \<and> sorted_wrt (<) (map ra_logical_path as)
    \<and> is_names st' = is_names st \<union> ra_logical_path ` set as
    \<and> is_total st' = is_total st + sum_list (map ra_size_bytes as)
    \<and> (\<forall>j < length as. \<forall>k < length (artifact_parts (as ! j)).
         extend_path [] (take k (artifact_parts (as ! j))) \<notin> is_names st \<union> ra_logical_path ` set (take j as))"
  using assms
proof (induction i as st rule: check_artifacts.induct)
  case (2 i a as st)
  from "2.prems" obtain st1 where one: "check_artifact i a st = Ok st1" and rest: "check_artifacts (Suc i) as st1 = Ok st'"
    by (auto simp: rbind_Ok_iff)
  note a = check_artifact_Ok [OF one]
  note r = "2.IH" [OF rest]
  have above: "\<forall>b \<in> set as. ra_logical_path a < ra_logical_path b" using r a(4) by simp
  have ok: "\<forall>j < length (a # as). artifact_ok (i + j) ((a # as) ! j)"
    using a(1) r by (auto simp: less_Suc_eq_0_disj)
  have prev: "\<forall>p. is_previous st = Some p \<longrightarrow> (\<forall>b \<in> set (a # as). p < ra_logical_path b)"
    using a(2) above by (metis less_trans set_ConsD)
  have conflict: "\<forall>j < length (a # as). \<forall>k < length (artifact_parts ((a # as) ! j)).
         extend_path [] (take k (artifact_parts ((a # as) ! j))) \<notin> is_names st \<union> ra_logical_path ` set (take j (a # as))"
    using a(3,6) r by (auto simp: less_Suc_eq_0_disj) (metis imageI)
  show ?case using ok prev conflict above a(3,5) r by (simp add: ac_simps insert_commute)
qed simp

lemma parse_release_Ok:
  assumes "parse_release parse bytes = Ok m"
  obtains st where "check_artifacts 0 (artifacts m) empty_inventory = Ok st" "is_total st \<le> TOTAL_LIMIT"
    "release_identity_ok m" "list_all (\<lambda>p. p \<in> is_names st) (entrypoint_paths m)"
  using assms by (auto simp: parse_release_def rbind_Ok_iff Let_def not_less split: if_splits)

lemma proper_prefix_less: "strict_prefix xs ys \<Longrightarrow> xs < (ys :: string)"
  by (auto simp: list_less_def strict_prefix_def prefix_def intro!: lexord_append_rightI) (metis neq_Nil_conv)

lemma join_take_prefix:
  assumes "0 < k" "k < length ps"
  shows "strict_prefix (join_names (take k ps)) (join_names ps)"
  using assms
proof (induction ps arbitrary: k rule: join_names.induct)
  case (3 s t ss)
  then obtain j where k: "k = Suc j" by (cases k) auto
  show ?case
  proof (cases j)
    case 0
    then show ?thesis using k by (simp add: strict_prefix_def)
  next
    case (Suc i)
    with "3.IH" [of j] "3.prems" k show ?thesis by (simp add: strict_prefix_def prefix_def)
  qed
qed auto

lemma accepted_paths_prefix_free:
  assumes "check_artifacts 0 as empty_inventory = Ok st" "i < length as" "j < length as" "i \<noteq> j"
  shows "\<not> prefix (artifact_parts (as ! i)) (artifact_parts (as ! j))"
proof
  note r = check_artifacts_Ok [OF assms(1)]
  let ?p = "artifact_parts (as ! i)" and ?q = "artifact_parts (as ! j)"
  assume pre: "prefix ?p ?q"
  have sorted: "sorted_wrt (<) (map ra_logical_path as)" using r by simp
  then have ne: "ra_logical_path (as ! i) \<noteq> ra_logical_path (as ! j)"
    using assms(2-) by (metis (no_types, lifting) distinct_map nth_eq_iff_index_eq order_less_imp_not_less
        sorted_wrt_nth_less length_map nth_map less_irrefl linorder_neqE_nat)
  have path: "join_names (artifact_parts a) = ra_logical_path a" for a by (simp add: artifact_parts_def)
  have "?p \<noteq> ?q" using ne path by metis
  then obtain k where k: "?p = take k ?q" "k < length ?q"
    using pre by (metis append_eq_conv_conj le_neq_implies_less prefix_def prefix_length_le take_all_iff nle_le)
  have "0 < k" using k by (cases k) (auto simp: artifact_parts_def)
  have "[] \<notin> set ?q" using r assms(3) safe_parts(1) by (auto simp: artifact_ok_def artifact_parts_def)
  then have "[] \<notin> set (take k ?q)" by (meson in_set_takeD)
  then have named: "extend_path [] (take k ?q) = ra_logical_path (as ! i)"
    using extend_path_Nil path k(1) by metis
  have "ra_logical_path (as ! i) < ra_logical_path (as ! j)"
    using proper_prefix_less [OF join_take_prefix [OF \<open>0 < k\<close> k(2)]] by (simp only: k(1) [symmetric] path)
  then have "i < j"
    using sorted assms(2-) by (metis (no_types, lifting) length_map linorder_neqE_nat not_less_iff_gr_or_eq nth_map sorted_wrt_nth_less)
  then have "as ! i \<in> set (take j as)" using assms(3) by (metis length_take min.absorb4 nth_mem nth_take)
  then have "ra_logical_path (as ! i) \<in> ra_logical_path ` set (take j as)" by (rule imageI)
  moreover have "extend_path [] (take k ?q) \<notin> ra_logical_path ` set (take j as)"
    using r assms(3) k(2) unfolding empty_inventory_def by blast
  ultimately show False using named by simp
qed

section \<open>Numerals read back\<close>

definition digit_value :: "char \<Rightarrow> nat" where
  "digit_value c = of_char c - 48"

definition numeral_value :: "nat \<Rightarrow> string \<Rightarrow> nat" where
  "numeral_value b = foldl (\<lambda>n c. b * n + digit_value c) 0"

lemma digit_value_char [simp]: "d < 10 \<Longrightarrow> digit_value (char_of (48 + d)) = d"
  by (simp add: digit_value_def of_char_mod_256)

lemma numeral_value_digits:
  assumes "2 \<le> b" "b \<le> 10"
  shows "numeral_value b (numeral_digits b n) = n"
proof (induction n rule: less_induct)
  case (less n)
  show ?case
  proof (cases "n < b")
    case True
    then show ?thesis using assms by (subst numeral_digits.simps) (simp add: numeral_value_def)
  next
    case False
    have m: "n mod b < b" using assms(1) by (intro mod_less_divisor) linarith
    have "numeral_value b (numeral_digits b (n div b)) = n div b" using False assms by (intro less) simp
    then show ?thesis using False assms m
      by (subst numeral_digits.simps) (simp add: numeral_value_def less_le_trans [OF m])
  qed
qed

lemma length_numeral_digits:
  assumes "2 \<le> b" "n < b ^ w" "0 < w"
  shows "length (numeral_digits b n) \<le> w"
  using assms(2,3)
proof (induction n arbitrary: w rule: less_induct)
  case (less n)
  show ?case
  proof (cases "n < b")
    case True
    then show ?thesis using less.prems by (subst numeral_digits.simps) simp
  next
    case False
    obtain v where v: "w = Suc v" using less.prems(2) by (cases w) auto
    moreover have "0 < v" using False less.prems(1) v by (cases v) simp_all
    ultimately have w: "w = Suc v" "0 < v" by simp_all
    have "n div b < b ^ v" using less.prems(1) w assms(1) by (simp add: less_mult_imp_div_less mult.commute)
    then have "length (numeral_digits b (n div b)) \<le> v"
      using False assms(1) w(2) by (intro less.IH) simp_all
    then show ?thesis using False assms(1) w(1) by (subst numeral_digits.simps) simp
  qed
qed

lemma length_zero_padded: "length s \<le> w \<Longrightarrow> length (zero_padded w s) = w"
  by (simp add: zero_padded_def)

lemma numeral_value_padded [simp]: "numeral_value b (zero_padded w s) = numeral_value b s"
proof -
  have "foldl (\<lambda>n c. b * n + digit_value c) 0 (replicate k (CHR ''0'')) = 0" for k
    by (induction k) (simp_all add: digit_value_def)
  then show ?thesis by (simp add: numeral_value_def zero_padded_def)
qed

lemma length_bytes_of [simp]: "length (bytes_of s) = length s"
  by (simp add: bytes_of_def)

lemma length_octal_field: "0 < len \<Longrightarrow> n < 8 ^ (len - 1) \<Longrightarrow> 1 < len \<Longrightarrow> length (octal_field len n) = len"
  by (simp add: octal_field_def length_zero_padded length_numeral_digits)

lemma length_artifact_name: "i < 1000000 \<Longrightarrow> length (artifact_name i) = 19"
  by (simp add: artifact_name_def length_zero_padded length_numeral_digits)

text \<open>The name of an artifact tells its position.\<close>

lemma artifact_name_inj: "artifact_name i = artifact_name j \<Longrightarrow> i = j"
proof -
  assume "artifact_name i = artifact_name j"
  then have "zero_padded 6 (numeral_digits 10 i) = zero_padded 6 (numeral_digits 10 j)"
    by (simp add: artifact_name_def)
  then have "numeral_value 10 (numeral_digits 10 i) = numeral_value 10 (numeral_digits 10 j)"
    by (metis numeral_value_padded)
  then show ?thesis by (simp add: numeral_value_digits)
qed

section \<open>The fields of a header\<close>

lemma copy_slice_middle:
  assumes "length xs = start" "length ys = len" "length data = len"
  shows "copy_slice start len data (xs @ ys @ zs) = Ok (xs @ data @ zs)"
  using assms by (simp add: copy_slice_def)

text \<open>A header with its checksum field open.\<close>

definition header_layout :: "release_artifact \<Rightarrow> 8 word list \<Rightarrow> 8 word list" where
  "header_layout a ck = bytes_of (ra_filename a) @ replicate (100 - length (ra_filename a)) 0
     @ octal_field 8 420 @ octal_field 8 0 @ octal_field 8 0 @ octal_field 12 (ra_size_bytes a) @ octal_field 12 0
     @ ck @ [48] @ replicate 100 0 @ bytes_of ''ustar'' @ [0] @ bytes_of ''00'' @ replicate 247 0"

definition header_checksum :: "release_artifact \<Rightarrow> nat" where
  "header_checksum a = byte_sum (header_layout a (replicate 8 32))"

lemma byte_sum_le: "byte_sum xs \<le> 255 * length xs"
proof -
  have b: "unat x \<le> 255" for x :: "8 word" using unsigned_less [where w = x and 'a = nat] by simp
  show ?thesis by (induction xs) (simp_all add: byte_sum_def add_mono b)
qed

lemma header_fields_lengths:
  assumes "length (ra_filename a) \<le> 100" "ra_size_bytes a < 8 ^ 11"
  shows "length (octal_field 8 420) = 8" "length (octal_field 8 0) = 8" "length (octal_field 12 0) = 12"
    "length (octal_field 12 (ra_size_bytes a)) = 12"
  using assms(2) by (simp_all add: length_octal_field)

lemma length_header_layout:
  assumes "length (ra_filename a) \<le> 100" "ra_size_bytes a < 8 ^ 11" "length ck = 8"
  shows "length (header_layout a ck) = 512"
  using assms header_fields_lengths [OF assms(1,2)] by (simp add: header_layout_def)

lemma header_checksum_digits:
  assumes "length (ra_filename a) \<le> 100" "ra_size_bytes a < 8 ^ 11"
  shows "length (zero_padded 6 (numeral_digits 8 (header_checksum a))) = 6"
proof -
  have "header_checksum a \<le> 255 * 512"
    using byte_sum_le [of "header_layout a (replicate 8 32)"] length_header_layout [OF assms, of "replicate 8 32"]
    by (simp add: header_checksum_def)
  then have "header_checksum a < 8 ^ 6" by simp
  then show ?thesis by (simp add: length_zero_padded length_numeral_digits)
qed

text \<open>The writes behind the numeric fields, over any first 148 bytes.\<close>

definition header_tail :: "8 word list \<Rightarrow> 8 word list \<Rightarrow> 8 word list" where
  "header_tail front ck = front @ ck @ [48] @ replicate 100 0 @ bytes_of ''ustar'' @ [0] @ bytes_of ''00'' @ replicate 247 0"

lemma header_layout_tail: "header_layout a ck = header_tail (bytes_of (ra_filename a) @ replicate (100 - length (ra_filename a)) 0
     @ octal_field 8 420 @ octal_field 8 0 @ octal_field 8 0 @ octal_field 12 (ra_size_bytes a) @ octal_field 12 0) ck"
  by (simp add: header_layout_def header_tail_def)

lemma write_tail:
  fixes front :: "8 word list"
  assumes front: "length front = 148" and digits: "length (f (header_tail front (replicate 8 32))) = 6"
  shows "rbind (copy_slice 148 8 (replicate 8 32) (front @ replicate 8 0 @ [0] @ replicate 100 0 @ replicate 6 0 @ replicate 2 0 @ replicate 247 0)) (\<lambda>h.
      let h = h[156 := 48] in
      rbind (copy_slice 257 6 (bytes_of ''ustar'' @ [0]) h) (\<lambda>h.
      rbind (copy_slice 263 2 (bytes_of ''00'') h) (\<lambda>h.
      copy_slice 148 8 (bytes_of (f h) @ [0, 32]) h)))
    = Ok (header_tail front (bytes_of (f (header_tail front (replicate 8 32))) @ [0, 32]))"
proof -
  define sp where "sp = replicate 8 (32 :: 8 word)"
  define z :: "nat \<Rightarrow> 8 word list" where "z n = replicate n 0" for n
  define us where "us = bytes_of ''ustar'' @ [0]"
  define ver where "ver = bytes_of ''00''"
  have lens: "length sp = 8" "\<And>n. length (z n) = n" "length us = 6" "length ver = 2"
    by (simp_all add: sp_def z_def us_def ver_def)
  have one: "copy_slice 148 8 sp (front @ z 8 @ [0] @ z 100 @ z 6 @ z 2 @ z 247) = Ok (front @ sp @ [0] @ z 100 @ z 6 @ z 2 @ z 247)"
    by (rule copy_slice_middle) (simp_all add: front lens)
  have two: "(front @ sp @ [0] @ z 100 @ z 6 @ z 2 @ z 247)[156 := 48] = front @ sp @ [48] @ z 100 @ z 6 @ z 2 @ z 247"
    by (simp add: list_update_append front lens)
  have three: "copy_slice 257 6 us (front @ sp @ [48] @ z 100 @ z 6 @ z 2 @ z 247) = Ok (front @ sp @ [48] @ z 100 @ us @ z 2 @ z 247)"
    using copy_slice_middle [of "front @ sp @ [48] @ z 100" 257 "z 6" 6 us "z 2 @ z 247"] by (simp add: front lens)
  have four: "copy_slice 263 2 ver (front @ sp @ [48] @ z 100 @ us @ z 2 @ z 247) = Ok (front @ sp @ [48] @ z 100 @ us @ ver @ z 247)"
    using copy_slice_middle [of "front @ sp @ [48] @ z 100 @ us" 263 "z 2" 2 ver "z 247"] by (simp add: front lens)
  have tail: "header_tail front ck = front @ ck @ [48] @ z 100 @ us @ ver @ z 247" for ck
    by (simp add: header_tail_def z_def us_def ver_def)
  have five: "copy_slice 148 8 (bytes_of (f (header_tail front sp)) @ [0, 32]) (header_tail front sp)
      = Ok (header_tail front (bytes_of (f (header_tail front sp)) @ [0, 32]))"
    unfolding tail [of "bytes_of (f (header_tail front sp)) @ [0, 32]"]
    by (subst (2) tail) (rule copy_slice_middle, use front digits in \<open>simp_all add: lens sp_def\<close>)
  show ?thesis
    unfolding sp_def [symmetric] z_def [symmetric] us_def [symmetric] ver_def [symmetric] Let_def
    by (simp only: one rbind_simps two three four tail [symmetric] five)
qed

lemma ustar_header_layout:
  assumes "length (ra_filename a) \<le> 100" "ra_size_bytes a < 8 ^ 11"
  shows "ustar_header a = Ok (header_layout a (bytes_of (zero_padded 6 (numeral_digits 8 (header_checksum a))) @ [0, 32]))"
proof -
  note len = header_fields_lengths [OF assms]
  let ?name = "bytes_of (ra_filename a)" and ?pad = "replicate (100 - length (ra_filename a)) (0 :: 8 word)"
  let ?z = "\<lambda>n. replicate n (0 :: 8 word)"
  let ?front = "?name @ ?pad @ octal_field 8 420 @ octal_field 8 0 @ octal_field 8 0 @ octal_field 12 (ra_size_bytes a) @ octal_field 12 0"
  let ?rest = "?z 8 @ [0] @ ?z 100 @ ?z 6 @ ?z 2 @ ?z 247"
  have zeros: "?z 512 = [] @ ?z (length (ra_filename a)) @ ?pad @ ?z 8 @ ?z 8 @ ?z 8 @ ?z 12 @ ?z 12 @ ?rest"
    by (rule replicate_eqI [symmetric]) (use assms(1) in auto)
  have name: "copy_slice 0 (length ?name) ?name (?z 512) = Ok (?name @ ?pad @ ?z 8 @ ?z 8 @ ?z 8 @ ?z 12 @ ?z 12 @ ?rest)"
    unfolding zeros by (subst copy_slice_middle) simp_all
  have fields: "put_fields (numeric_fields a) (?name @ ?pad @ ?z 8 @ ?z 8 @ ?z 8 @ ?z 12 @ ?z 12 @ r) = Ok (?front @ r)" for r
    using assms len by (simp add: numeric_fields_def copy_slice_def)
  have front: "length ?front = 148" using assms(1) len by simp
  have six: "length (zero_padded 6 (numeral_digits 8 (byte_sum (header_tail ?front (replicate 8 32))))) = 6"
    using header_checksum_digits [OF assms] by (simp only: header_checksum_def header_layout_tail)
  show ?thesis
    unfolding ustar_header_def Let_def name rbind_simps fields header_layout_tail header_checksum_def
    using write_tail [of ?front "\<lambda>h. zero_padded 6 (numeral_digits 8 (byte_sum h))", OF front six]
    unfolding Let_def .
qed

section \<open>Properties\<close>

definition field :: "nat \<Rightarrow> nat \<Rightarrow> 'a list \<Rightarrow> 'a list" where
  "field start len xs = take len (drop start xs)"

lemma field_layout:
  assumes "length (ra_filename a) \<le> 100" "ra_size_bytes a < 8 ^ 11" "length ck = 8"
  shows "field 0 (length (ra_filename a)) (header_layout a ck) = bytes_of (ra_filename a)"
    "field 124 12 (header_layout a ck) = octal_field 12 (ra_size_bytes a)"
    "field 148 8 (header_layout a ck) = ck"
    "take 148 (header_layout a ck) @ replicate 8 32 @ drop 156 (header_layout a ck) = header_layout a (replicate 8 32)"
  using assms header_fields_lengths [OF assms(1,2)] by (simp_all add: field_def header_layout_def)

lemma accepted_artifact:
  assumes "parse_release parse bytes = Ok m" "i < length (artifacts m)"
  shows "artifact_ok i (artifacts m ! i)" "length (ra_filename (artifacts m ! i)) = 19"
    "ra_size_bytes (artifacts m ! i) < 8 ^ 11"
proof -
  from parse_release_Ok [OF assms(1)] obtain st
    where st: "check_artifacts 0 (artifacts m) empty_inventory = Ok st" "release_identity_ok m" by metis
  show ok: "artifact_ok i (artifacts m ! i)" using check_artifacts_Ok [OF st(1)] assms(2) by simp
  have "i < 1000000" using assms(2) st(2) by (simp add: release_identity_ok_def)
  then show "length (ra_filename (artifacts m ! i)) = 19" using ok by (simp add: artifact_ok_def length_artifact_name)
  show "ra_size_bytes (artifacts m ! i) < 8 ^ 11" using ok by (simp add: artifact_ok_def FILE_LIMIT_def)
qed

definition two_artifacts :: "release_artifact list" where
  "two_artifacts = [\<lparr>ra_logical_path = ''cpu/gates.json'', ra_filename = artifact_name 0, ra_sha256 = replicate 64 (CHR ''a''), ra_size_bytes = 3\<rparr>,
     \<lparr>ra_logical_path = ''run.json'', ra_filename = artifact_name 1, ra_sha256 = replicate 64 (CHR ''b''), ra_size_bytes = 600\<rparr>]"

definition two_manifest :: release_manifest where
  "two_manifest = \<lparr>rm_schema_version = 5, rm_protocol = ''layered-accuracy-v1'', rm_product_version = ''v0.2.0'',
     rm_golden_version = ''goldens-v0.2'', rm_source = \<lparr>src_commit = replicate 40 (CHR ''1''), src_tree = replicate 40 (CHR ''2'')\<rparr>,
     registry_sha256 = replicate 64 (CHR ''3''), policy_sha256 = replicate 64 (CHR ''4''),
     definition_index_blob = replicate 40 (CHR ''5''),
     rm_entrypoints = \<lparr>authoritative_manifest = ''run.json'', authoritative_marker = ''run.json'', performance = ''run.json'', cpu_gates = ''cpu/gates.json''\<rparr>,
     rm_counts = [], artifacts = two_artifacts, rm_archive = \<lparr>ai_filename = ARCHIVE, ai_sha256 = replicate 64 (CHR ''6'')\<rparr>\<rparr>"

lemma is_lowercase_hex_replicate: "n = k \<Longrightarrow> is_lowercase_hex (replicate n c) k \<longleftrightarrow> n = 0 \<or> is_lowercase_hex [c] 1"
  by (auto simp: is_lowercase_hex_def list_all_iff)

lemma two_identity: "release_identity_ok two_manifest"
  by (simp add: release_identity_ok_def two_manifest_def is_lowercase_hex_replicate two_artifacts_def)
    (simp add: is_lowercase_hex_def)

lemma two_paths: "safe_path ''cpu/gates.json''" "safe_path ''run.json''" "''cpu/gates.json'' < (''run.json'' :: string)"
  by (simp_all add: safe_path_def is_ascii_def less_char_def)

lemma two_inventory: "check_artifacts 0 two_artifacts empty_inventory
    = Ok \<lparr>is_names = {''run.json'', ''cpu/gates.json''}, is_previous = Some ''run.json'', is_total = 603\<rparr>"
  using two_paths
  by (simp add: two_artifacts_def check_artifact_def empty_inventory_def is_lowercase_hex_replicate FILE_LIMIT_def
      checked_add_def usize_bound_def not_le)
    (simp add: is_lowercase_hex_def)

lemma two_accepted: "parse_release (\<lambda>_. Ok two_manifest) [] = Ok two_manifest"
proof -
  have same: "two_manifest\<lparr>rm_counts := []\<rparr> = two_manifest" by (simp add: two_manifest_def)
  have "artifacts two_manifest = two_artifacts" "rm_counts two_manifest = []" by (simp_all add: two_manifest_def)
  moreover have "list_all (\<lambda>p. p \<in> {''run.json'', ''cpu/gates.json''}) (entrypoint_paths two_manifest)"
    by (simp add: entrypoint_paths_def two_manifest_def)
  ultimately show ?thesis
    using two_identity two_inventory by (simp add: parse_release_def MANIFEST_LIMIT_def TOTAL_LIMIT_def Let_def same)
qed

lemma two_files: "artifacts two_manifest = two_artifacts" "length two_artifacts = 2"
  by (simp_all add: two_manifest_def two_artifacts_def)

text \<open>C22: an accepted release has a sound inventory. Its logical paths are relative, free of dot and git
  components, strictly increasing and hence distinct, and no path continues another one, so that no
  file would have to be a directory; files are named by their position; the sizes fit the limits; and
  every entry point is one of the files.\<close>

theorem release_inventory_sound:
  assumes "parse_release parse bytes = Ok m"
  shows "sorted_wrt (<) (map ra_logical_path (artifacts m))
    \<and> (\<forall>i < length (artifacts m). safe_path (ra_logical_path (artifacts m ! i))
         \<and> ra_filename (artifacts m ! i) = artifact_name i \<and> ra_size_bytes (artifacts m ! i) \<le> FILE_LIMIT)
    \<and> (\<forall>i < length (artifacts m). \<forall>j < length (artifacts m). i \<noteq> j \<longrightarrow>
         \<not> prefix (artifact_parts (artifacts m ! i)) (artifact_parts (artifacts m ! j)))
    \<and> sum_list (map ra_size_bytes (artifacts m)) \<le> TOTAL_LIMIT
    \<and> set (entrypoint_paths m) \<subseteq> ra_logical_path ` set (artifacts m)"
proof -
  from parse_release_Ok [OF assms] obtain st where st: "check_artifacts 0 (artifacts m) empty_inventory = Ok st"
    "is_total st \<le> TOTAL_LIMIT" "list_all (\<lambda>p. p \<in> is_names st) (entrypoint_paths m)" by metis
  note r = check_artifacts_Ok [OF st(1)]
  show ?thesis
    using r st(2,3) accepted_paths_prefix_free [OF st(1)]
    by (auto simp: artifact_ok_def empty_inventory_def list_all_iff)
qed

theorem release_inventory_sound_witness:
  "\<not> prefix (artifact_parts (two_artifacts ! 0)) (artifact_parts (two_artifacts ! 1)) \<and> sum_list (map ra_size_bytes two_artifacts) \<le> TOTAL_LIMIT"
  using release_inventory_sound [OF two_accepted] unfolding two_files by simp

text \<open>C23: the canonical header of every artifact of an accepted release exists: no field of the 512 bytes
  overflows and no slice is out of range. Read back, its name field is the artifact's file name, its
  octal size field the artifact's size, and its octal checksum the sum of the header's bytes with the
  checksum field blank.\<close>

theorem ustar_header_fields:
  assumes "parse_release parse bytes = Ok m" "i < length (artifacts m)"
  shows "\<exists>h. ustar_header (artifacts m ! i) = (Ok h :: (release_error, 8 word list) outcome) \<and> length h = 512
    \<and> field 0 19 h = bytes_of (artifact_name i)
    \<and> (\<exists>s. field 124 12 h = bytes_of s @ [0] \<and> numeral_value 8 s = ra_size_bytes (artifacts m ! i))
    \<and> (\<exists>s. field 148 8 h = bytes_of s @ [0, 32] \<and> numeral_value 8 s = byte_sum (take 148 h @ replicate 8 32 @ drop 156 h))"
proof -
  let ?a = "artifacts m ! i"
  note a = accepted_artifact [OF assms]
  have le: "length (ra_filename ?a) \<le> 100" using a(2) by simp
  let ?ck = "bytes_of (zero_padded 6 (numeral_digits 8 (header_checksum ?a))) @ [0, 32]"
  have ck: "length ?ck = 8" using header_checksum_digits [OF le a(3)] by simp
  note f = field_layout [OF le a(3) ck]
  show ?thesis
  proof (intro exI [of _ "header_layout ?a ?ck"] conjI)
    show "\<exists>s. field 124 12 (header_layout ?a ?ck) = bytes_of s @ [0] \<and> numeral_value 8 s = ra_size_bytes ?a"
      unfolding f(2) octal_field_def by (rule exI, rule conjI, rule refl) (simp add: numeral_value_digits)
    show "\<exists>s. field 148 8 (header_layout ?a ?ck) = bytes_of s @ [0, 32]
        \<and> numeral_value 8 s = byte_sum (take 148 (header_layout ?a ?ck) @ replicate 8 32 @ drop 156 (header_layout ?a ?ck))"
      unfolding f(3,4) by (rule exI, rule conjI, rule refl) (simp add: numeral_value_digits header_checksum_def)
    show "field 0 19 (header_layout ?a ?ck) = bytes_of (artifact_name i)"
      using f(1) a(1,2) by (simp add: artifact_ok_def)
  qed (simp_all only: ustar_header_layout [OF le a(3)] length_header_layout [OF le a(3) ck])
qed

theorem ustar_header_fields_witness:
  "\<exists>h. ustar_header (two_artifacts ! 1) = (Ok h :: (release_error, 8 word list) outcome) \<and> length h = 512"
  using ustar_header_fields [OF two_accepted, of 1] unfolding two_files by auto

end
