(* ===== verification/Release_Install.thy ===== *)
theory Release_Install
  imports Release_Manifest
begin

text \<open>
  The second part of \<^verbatim>\<open>release_transport.rs\<close>: extraction of the canonical archive, verification of an
  installed tree, and \<^verbatim>\<open>install_transport\<close>. What the file system shows and which of its operations
  fail, the gzip decoder and SHA-256 are parameters; a directory that this process fills is an
  explicit tree.
\<close>

section \<open>Directory trees\<close>

text \<open>An entry has its name. Entries that are neither files nor directories, and entries whose type or
  content cannot be read, are kept apart.\<close>

datatype entry =
    DirEnt string "entry list"
  | FileEnt string "8 word list"
  | SpecialEnt string
  | BrokenEnt string

fun entry_name :: "entry \<Rightarrow> string" where
  "entry_name (DirEnt n _) = n"
| "entry_name (FileEnt n _) = n"
| "entry_name (SpecialEnt n) = n"
| "entry_name (BrokenEnt n) = n"

definition find_entry :: "string \<Rightarrow> entry list \<Rightarrow> entry option" where
  "find_entry n es = find (\<lambda>e. entry_name e = n) es"

datatype kind = KDir | KFile "8 word list" | KSpecial | KBroken

fun kind_at :: "string list \<Rightarrow> entry list \<Rightarrow> kind option" where
  "kind_at [] es = Some KDir"
| "kind_at (n # p) es =
     (case find_entry n es of
        None \<Rightarrow> None
      | Some (DirEnt _ sub) \<Rightarrow> kind_at p sub
      | Some (FileEnt _ b) \<Rightarrow> (if p = [] then Some (KFile b) else None)
      | Some (SpecialEnt _) \<Rightarrow> (if p = [] then Some KSpecial else None)
      | Some (BrokenEnt _) \<Rightarrow> (if p = [] then Some KBroken else None))"

text \<open>\<^verbatim>\<open>create_dir_all(target.parent())\<close> and \<^verbatim>\<open>create_new\<close> of the file itself.\<close>

fun put_file :: "string list \<Rightarrow> 8 word list \<Rightarrow> entry list \<Rightarrow> entry list option" where
  "put_file [] b es = None"
| "put_file (n # p) b es =
     (if p = [] then (if find_entry n es = None then Some (es @ [FileEnt n b]) else None)
      else case find_entry n es of
        None \<Rightarrow> map_option (\<lambda>sub. es @ [DirEnt n sub]) (put_file p b [])
      | Some (DirEnt _ sub) \<Rightarrow>
          map_option (\<lambda>sub'. map (\<lambda>e. if entry_name e = n then DirEnt n sub' else e) es) (put_file p b sub)
      | Some _ \<Rightarrow> None)"

section \<open>Parameters\<close>

text \<open>\<open>ti_stat\<close> answers before the cache directory is created, \<open>ti_stat_created\<close> after that. What the
  decoder yields: the bytes of the first member, the error it reports when they are used
  up, and the compressed bytes behind the member.\<close>

record gz_stream =
  gz_bytes :: "8 word list"
  gz_error :: "string option"
  gz_rest :: "8 word list"

datatype stat_answer = StatAbsent | StatFailed string | StatSymlink | StatFile nat | StatDirectory | StatSpecial

datatype create_answer = Created | AlreadyExists | CreateFailed string

datatype final_answer = FinalAbsent | FinalNotDirectory | FinalDirectory "entry list"

datatype rename_answer = Renamed | DestinationExists "entry list" | RenameFailed string

record transport_io =
  ti_stat :: "component list \<Rightarrow> stat_answer"
  ti_stat_created :: "component list \<Rightarrow> stat_answer"
  ti_bundle_names :: "(string, (string, string) outcome list) outcome"
  ti_manifest :: "(string, 8 word list) outcome"
  ti_archive :: "(string, 8 word list) outcome"
  ti_archive_reread :: "(string, 8 word list) outcome"
  ti_parse :: "8 word list \<Rightarrow> (string, release_manifest) outcome"
  ti_sha256 :: "8 word list \<Rightarrow> string"
  ti_gunzip :: "8 word list \<Rightarrow> gz_stream"
  ti_create_parent :: "(string, unit) outcome"
  ti_final :: "component list \<Rightarrow> final_answer"
  ti_statvfs :: "(string, nat \<times> nat) outcome"
  ti_create_stage :: "nat \<Rightarrow> create_answer"
  ti_stage_path :: "nat \<Rightarrow> component list"
  ti_create :: "string \<Rightarrow> (string, unit) outcome"
  ti_write :: "string \<Rightarrow> (string, unit) outcome"
  ti_rename :: rename_answer

section \<open>Extraction\<close>

definition read_exact :: "nat \<Rightarrow> gz_stream \<Rightarrow> (release_error, 8 word list \<times> gz_stream) outcome" where
  "read_exact n st =
     (if n \<le> length (gz_bytes st) then Ok (take n (gz_bytes st), st\<lparr>gz_bytes := drop n (gz_bytes st)\<rparr>)
      else Error (TransportIo (case gz_error st of None \<Rightarrow> ''unexpected end of file'' | Some e \<Rightarrow> e)))"

text \<open>The loop that copies a payload: it stops when all bytes were read, and a read of nothing before
  that is a truncated payload.\<close>

definition read_payload :: "nat \<Rightarrow> gz_stream \<Rightarrow> (release_error, 8 word list \<times> gz_stream) outcome" where
  "read_payload n st =
     (if n \<le> length (gz_bytes st) then Ok (take n (gz_bytes st), st\<lparr>gz_bytes := drop n (gz_bytes st)\<rparr>)
      else Error (case gz_error st of None \<Rightarrow> TruncatedPayload | Some e \<Rightarrow> TransportIo e))"

definition evidence_path :: "release_artifact \<Rightarrow> string list" where
  "evidence_path a = ''evidence'' # artifact_parts a"

definition padding_of :: "nat \<Rightarrow> nat" where
  "padding_of n = (512 - n mod 512) mod 512"

definition extract_artifact ::
    "transport_io \<Rightarrow> release_artifact \<Rightarrow> entry list \<times> gz_stream \<Rightarrow> (release_error, entry list \<times> gz_stream) outcome" where
  "extract_artifact io a = (\<lambda>(tree, st).
     rbind (read_exact 512 st) (\<lambda>(block, st).
     rbind (ustar_header a) (\<lambda>h.
     if block \<noteq> h then Error UstarHeader
     else rbind (map_err TransportIo (ti_create io (ra_logical_path a))) (\<lambda>_.
     if put_file (evidence_path a) [] tree = None then Error (TransportIo (ra_logical_path a))
     else rbind (read_payload (ra_size_bytes a) st) (\<lambda>(data, st).
     rbind (map_err TransportIo (ti_write io (ra_logical_path a))) (\<lambda>_.
     if ti_sha256 io data \<noteq> ra_sha256 a then Error ExtractedChecksum
     else rbind (read_exact (padding_of (ra_size_bytes a)) st) (\<lambda>(padding, st).
     if list_ex (\<lambda>b. b \<noteq> 0) padding then Error NonzeroPadding
     else Ok (the (put_file (evidence_path a) data tree), st))))))))"

fun extract_all ::
    "transport_io \<Rightarrow> release_artifact list \<Rightarrow> entry list \<times> gz_stream \<Rightarrow> (release_error, entry list \<times> gz_stream) outcome" where
  "extract_all io [] s = Ok s"
| "extract_all io (a # as) s = rbind (extract_artifact io a s) (extract_all io as)"

definition TAIL_LIMIT :: nat where "TAIL_LIMIT = 1024 * 1024"

definition check_tail :: "gz_stream \<Rightarrow> (release_error, unit) outcome" where
  "check_tail st =
     (let tail = take (TAIL_LIMIT + 1) (gz_bytes st) in
      if length tail < TAIL_LIMIT + 1 \<and> gz_error st \<noteq> None then Error (TransportIo (the (gz_error st)))
      else if length tail < 1024 \<or> TAIL_LIMIT < length tail \<or> length tail mod 512 \<noteq> 0 \<or> list_ex (\<lambda>b. b \<noteq> 0) tail
      then Error InvalidEndMarkers
      else if gz_rest st \<noteq> [] then Error TrailingCompressed
      else Ok ())"

definition gzip_header :: "8 word list" where
  "gzip_header = [31, 139, 8, 0, 0, 0, 0, 0, 2, 255]"

definition extract_archive :: "transport_io \<Rightarrow> release_manifest \<Rightarrow> 8 word list \<Rightarrow> (release_error, entry list) outcome" where
  "extract_archive io m compressed =
     (if length compressed < 10 then Error (TransportIo ''unexpected end of file'')
      else if take 10 compressed \<noteq> gzip_header then Error GzipHeader
      else rbind (extract_all io (artifacts m) ([], ti_gunzip io compressed)) (\<lambda>(tree, st).
        rbind (check_tail st) (\<lambda>_. Ok tree)))"

section \<open>Verification of a tree\<close>

text \<open>\<^verbatim>\<open>path.ancestors()\<close>: the path, its parent, and so on.\<close>

function path_ancestors :: "component list \<Rightarrow> component list list" where
  "path_ancestors cs = (if cs = [] \<or> cs = [RootDir] then [cs] else cs # path_ancestors (butlast cs))"
  by pat_completeness auto
termination by (relation "measure length") auto

declare path_ancestors.simps [simp del]

fun check_ancestors :: "(component list \<Rightarrow> stat_answer) \<Rightarrow> component list list \<Rightarrow> (release_error, unit) outcome" where
  "check_ancestors stat [] = Ok ()"
| "check_ancestors stat (p # ps) =
     (case stat p of
        StatSymlink \<Rightarrow> Error SymlinkInPath
      | StatFailed e \<Rightarrow> Error (TransportIo e)
      | _ \<Rightarrow> check_ancestors stat ps)"

definition no_symlinks :: "(component list \<Rightarrow> stat_answer) \<Rightarrow> component list \<Rightarrow> (release_error, unit) outcome" where
  "no_symlinks stat path = check_ancestors stat (path_ancestors path)"

type_synonym pending_trees = "(string list \<times> entry list) list"

text \<open>The entries of one directory: an expected directory is pushed, a file noted; anything else ends
  the walk.\<close>

fun walk_entries ::
    "string list set \<Rightarrow> string list \<Rightarrow> entry list \<Rightarrow> pending_trees \<Rightarrow> string set \<Rightarrow> (release_error, pending_trees \<times> string set) outcome" where
  "walk_entries allowed dir [] pending actual = Ok (pending, actual)"
| "walk_entries allowed dir (DirEnt n sub # es) pending actual =
     (if dir @ [n] \<notin> allowed then Error UnexpectedDirectory
      else walk_entries allowed dir es ((dir @ [n], sub) # pending) actual)"
| "walk_entries allowed dir (FileEnt n b # es) pending actual =
     walk_entries allowed dir es pending (insert (join_names (dir @ [n])) actual)"
| "walk_entries allowed dir (SpecialEnt n # es) pending actual = Error SpecialEntry"
| "walk_entries allowed dir (BrokenEnt n # es) pending actual = Error (TransportIo n)"

definition trees_size :: "pending_trees \<Rightarrow> nat" where
  "trees_size ts = (\<Sum>(_, es) \<leftarrow> ts. Suc (size_list size es))"

lemma trees_size_simps [simp]: "trees_size [] = 0" "trees_size ((dir, es) # ts) = Suc (size_list size es) + trees_size ts"
  by (simp_all add: trees_size_def)

lemma walk_entries_size:
  "walk_entries allowed dir es pending actual = Ok (pending', actual') \<Longrightarrow> trees_size pending' \<le> trees_size pending + size_list size es"
  by (induction allowed dir es pending actual rule: walk_entries.induct) (fastforce split: if_splits)+

function walk_tree :: "string list set \<Rightarrow> pending_trees \<Rightarrow> string set \<Rightarrow> (release_error, string set) outcome" where
  "walk_tree allowed [] actual = Ok actual"
| "walk_tree allowed ((dir, es) # pending) actual =
     (case walk_entries allowed dir es pending actual of
        Inl e \<Rightarrow> Inl e
      | Inr (pending', actual') \<Rightarrow> walk_tree allowed pending' actual')"
  by pat_completeness auto
termination
proof (relation "measure (\<lambda>(allowed, pending, actual). trees_size pending)", goal_cases)
  case (2 allowed dir es pending actual out pending' actual')
  then show ?case using walk_entries_size [of allowed dir es pending actual pending' actual'] by (cases out) simp
qed simp

definition expected_files :: "release_manifest \<Rightarrow> string set" where
  "expected_files m = insert ''manifest.json'' ((\<lambda>a. ''evidence/'' @ ra_logical_path a) ` set (artifacts m))"

text \<open>\<^verbatim>\<open>path.ancestors().skip(1)\<close> of every artifact, less the empty path.\<close>

definition expected_directories :: "release_manifest \<Rightarrow> string list set" where
  "expected_directories m = (\<Union>a \<in> set (artifacts m). {q. strict_prefix q (evidence_path a) \<and> q \<noteq> []})"

fun check_installed :: "transport_io \<Rightarrow> entry list \<Rightarrow> release_artifact list \<Rightarrow> (release_error, unit) outcome" where
  "check_installed io tree [] = Ok ()"
| "check_installed io tree (a # as) =
     (case kind_at (evidence_path a) tree of
        Some (KFile b) \<Rightarrow>
          if length b \<noteq> ra_size_bytes a \<or> ti_sha256 io b \<noteq> ra_sha256 a then Error InstalledMismatch
          else check_installed io tree as
      | Some KBroken \<Rightarrow> Error (TransportIo (ra_logical_path a))
      | Some _ \<Rightarrow> Error NotRegular
      | None \<Rightarrow> Error (TransportIo (ra_logical_path a)))"

definition verify_tree ::
    "transport_io \<Rightarrow> component list \<Rightarrow> entry list \<Rightarrow> 8 word list \<Rightarrow> release_manifest \<Rightarrow> (release_error, unit) outcome" where
  "verify_tree io base tree bytes m =
     rbind (no_symlinks (ti_stat_created io) base) (\<lambda>_.
     case kind_at [''manifest.json''] tree of
       Some (KFile b) \<Rightarrow>
         if b \<noteq> bytes then Error ManifestDiffers
         else rbind (walk_tree (expected_directories m) [([], tree)] {}) (\<lambda>actual.
           if actual \<noteq> expected_files m then Error InventoryMismatch
           else check_installed io tree (artifacts m))
     | Some KBroken \<Rightarrow> Error (TransportIo ''manifest.json'')
     | Some _ \<Rightarrow> Error NotRegular
     | None \<Rightarrow> Error (TransportIo ''manifest.json''))"

section \<open>Installation\<close>

definition regular :: "transport_io \<Rightarrow> component list \<Rightarrow> (release_error, nat) outcome" where
  "regular io p =
     (case ti_stat io p of
        StatFile n \<Rightarrow> Ok n
      | StatAbsent \<Rightarrow> Error (TransportIo ''not found'')
      | StatFailed e \<Rightarrow> Error (TransportIo e)
      | _ \<Rightarrow> Error NotRegular)"

definition check_archive_size :: "nat \<Rightarrow> (release_error, unit) outcome" where
  "check_archive_size n = (if ARCHIVE_LIMIT < n then Error ArchiveTooLarge else Ok ())"

fun create_stage :: "(nat \<Rightarrow> create_answer) \<Rightarrow> nat \<Rightarrow> nat \<Rightarrow> (release_error, nat) outcome" where
  "create_stage answer i 0 = Error NoStagingDirectory"
| "create_stage answer i (Suc k) =
     (case answer i of
        Created \<Rightarrow> Ok i
      | AlreadyExists \<Rightarrow> create_stage answer (Suc i) k
      | CreateFailed e \<Rightarrow> Error (TransportIo e))"

definition digest :: "transport_io \<Rightarrow> component list \<Rightarrow> (string, 8 word list) outcome \<Rightarrow> (release_error, string) outcome" where
  "digest io p content = rbind (regular io p) (\<lambda>_. rbind (map_err TransportIo content) (\<lambda>b. Ok (ti_sha256 io b)))"

definition reject_symlink :: "stat_answer \<Rightarrow> (release_error, unit) outcome" where
  "reject_symlink a =
     (case a of
        StatSymlink \<Rightarrow> Error SymlinkCacheRoot
      | StatAbsent \<Rightarrow> Error (TransportIo ''not found'')
      | StatFailed e \<Rightarrow> Error (TransportIo e)
      | _ \<Rightarrow> Ok ())"

text \<open>Everything from the free-space check to the rename: the tree that ends up at the final path.\<close>

definition extract_and_publish ::
    "transport_io \<Rightarrow> component list \<Rightarrow> 8 word list \<Rightarrow> release_manifest \<Rightarrow> (release_error, entry list) outcome" where
  "extract_and_publish io final bytes m =
     rbind (map_err TransportIo (ti_statvfs io)) (\<lambda>(bavail, frsize).
     if saturating_mul bavail frsize < sum_list (map ra_size_bytes (artifacts m)) + MANIFEST_LIMIT then Error CapacityRequired
     else rbind (create_stage (ti_create_stage io) 0 1024) (\<lambda>i.
     rbind (map_err TransportIo (ti_archive_reread io)) (\<lambda>compressed.
     rbind (extract_archive io m compressed) (\<lambda>tree.
     rbind (map_err TransportIo (ti_write io ''manifest.json'')) (\<lambda>_.
     let stage = tree @ [FileEnt ''manifest.json'' bytes] in
     rbind (verify_tree io (ti_stage_path io i) stage bytes m) (\<lambda>_.
     case ti_rename io of
       Renamed \<Rightarrow> Ok stage
     | DestinationExists other \<Rightarrow> rbind (verify_tree io final other bytes m) (\<lambda>_. Ok other)
     | RenameFailed e \<Rightarrow> Error (TransportIo e)))))))"

definition install_transport ::
    "transport_io \<Rightarrow> component list \<Rightarrow> component list \<Rightarrow> (release_error, component list \<times> entry list) outcome" where
  "install_transport io bundle cache =
     rbind (no_symlinks (ti_stat io) bundle) (\<lambda>_.
     rbind (no_symlinks (ti_stat io) cache) (\<lambda>_.
     rbind (map_err TransportIo (ti_bundle_names io)) (\<lambda>listed.
     rbind (rcollect (map_err TransportIo) listed) (\<lambda>names.
     if set names \<noteq> {''manifest.json'', ARCHIVE} then Error NotTwoAssets
     else rbind (regular io (bundle @ [Normal ''manifest.json''])) (\<lambda>n.
     if MANIFEST_LIMIT < n then Error ManifestTooLarge
     else rbind (map_err TransportIo (ti_manifest io)) (\<lambda>content.
     let bytes = take (MANIFEST_LIMIT + 1) content in
     rbind (parse_release (ti_parse io) bytes) (\<lambda>m.
     rbind (regular io (bundle @ [Normal ARCHIVE])) (\<lambda>size.
     rbind (check_archive_size size) (\<lambda>_.
     rbind (digest io (bundle @ [Normal ARCHIVE]) (ti_archive io)) (\<lambda>sha.
     if sha \<noteq> ai_sha256 (rm_archive m) then Error ArchiveChecksum
     else
     let parent = cache @ [Normal ''goldens-v0.2'']; final = parent @ [Normal (ai_sha256 (rm_archive m))] in
     rbind (map_err TransportIo (ti_create_parent io)) (\<lambda>_.
     rbind (reject_symlink (ti_stat_created io cache)) (\<lambda>_.
     rbind (reject_symlink (ti_stat_created io parent)) (\<lambda>_.
     case ti_final io final of
       FinalNotDirectory \<Rightarrow> Error InvalidInstall
     | FinalDirectory tree \<Rightarrow> rbind (verify_tree io final tree bytes m) (\<lambda>_. Ok (final, tree))
     | FinalAbsent \<Rightarrow> rbind (extract_and_publish io final bytes m) (\<lambda>tree. Ok (final, tree)))))))))))))))"

section \<open>Files of a tree\<close>

lemma find_entry_Some: "find_entry n es = Some e \<Longrightarrow> e \<in> set es \<and> entry_name e = n"
  by (auto simp: find_entry_def find_Some_iff)

lemma find_entry_None: "find_entry n es = None \<longleftrightarrow> n \<notin> entry_name ` set es"
  by (auto simp: find_entry_def find_None_iff)

lemma find_entry_distinct: "distinct (map entry_name es) \<Longrightarrow> e \<in> set es \<Longrightarrow> find_entry (entry_name e) es = Some e"
  by (induction es) (auto simp: find_entry_def image_iff)

lemma find_entry_simps [simp]:
  "find_entry n [] = None"
  "find_entry n (e # es) = (if entry_name e = n then Some e else find_entry n es)"
  by (simp_all add: find_entry_def)

lemma find_entry_append: "find_entry n (es @ fs) = (case find_entry n es of None \<Rightarrow> find_entry n fs | Some e \<Rightarrow> Some e)"
  by (induction es) simp_all

lemma find_entry_replace:
  "find_entry m (map (\<lambda>e. if entry_name e = n then DirEnt n sub else e) es)
   = (if m = n then map_option (\<lambda>_. DirEnt n sub) (find_entry n es) else find_entry m es)"
  by (induction es) auto

lemma kind_at_empty [simp]: "p \<noteq> [] \<Longrightarrow> kind_at p [] = None"
  by (cases p) simp_all

text \<open>What creating a file changes: the file and the directories above it.\<close>

lemma put_file_kind:
  "put_file p b es = Some es' \<Longrightarrow>
   kind_at q es' = (if q = p then Some (KFile b) else if strict_prefix q p then Some KDir else kind_at q es)"
proof (induction p arbitrary: es es' q)
  case (Cons n p)
  show ?case
  proof (cases q)
    case Nil
    then show ?thesis by simp
  next
    case q: (Cons m r)
    show ?thesis
    proof (cases "p = []")
      case True
      then have "find_entry n es = None" "es' = es @ [FileEnt n b]" using Cons.prems by (simp_all split: if_splits)
      then show ?thesis using True q by (cases r) (auto simp: find_entry_append split: option.splits entry.splits)
    next
      case False
      show ?thesis
      proof (cases "find_entry n es")
        case None
        then obtain sub where sub: "put_file p b [] = Some sub" "es' = es @ [DirEnt n sub]"
          using Cons.prems False by auto
        show ?thesis
        proof (cases "m = n")
          case True
          then show ?thesis using None sub q Cons.IH [OF sub(1), of r] False by (cases "r = []") (auto simp: find_entry_append strict_prefix_def)
        next
          case other: False
          then show ?thesis using sub q by (auto simp: find_entry_append split: option.splits)
        qed
      next
        case (Some e)
        with Cons.prems False obtain k old sub where e: "e = DirEnt k old" and sub: "put_file p b old = Some sub"
            "es' = map (\<lambda>e. if entry_name e = n then DirEnt n sub else e) es"
          by (auto split: entry.splits)
        then show ?thesis using Some q Cons.IH [OF sub(1), of r] by (auto simp: find_entry_replace)
      qed
    qed
  qed
qed simp

lemma put_file_defined:
  assumes "p \<noteq> []" "kind_at p es = None" "\<And>q. strict_prefix q p \<Longrightarrow> kind_at q es = None \<or> kind_at q es = Some KDir"
  shows "\<exists>es'. put_file p b es = Some es'"
  using assms
proof (induction p arbitrary: es)
  case (Cons n p)
  show ?case
  proof (cases "p = []")
    case True
    then show ?thesis using Cons.prems(2) by (auto split: option.splits entry.splits)
  next
    case False
    then have above: "kind_at [n] es = None \<or> kind_at [n] es = Some KDir" using Cons.prems(3) [of "[n]"] by (simp add: strict_prefix_def)
    show ?thesis
    proof (cases "find_entry n es")
      case None
      have "\<exists>sub. put_file p b [] = Some sub"
      proof (rule Cons.IH [OF False])
        show "kind_at p [] = None" using False by simp
        show "kind_at q [] = None \<or> kind_at q [] = Some KDir" for q by (cases q) simp_all
      qed
      then show ?thesis using None False by auto
    next
      case (Some e)
      with above obtain k sub where e: "e = DirEnt k sub" by (cases e) simp_all
      have "\<exists>sub'. put_file p b sub = Some sub'"
      proof (rule Cons.IH [OF False])
        show "kind_at p sub = None" using Cons.prems(2) Some e by simp
        show "kind_at q sub = None \<or> kind_at q sub = Some KDir" if "strict_prefix q p" for q
          using Cons.prems(3) [of "n # q"] that Some e by simp
      qed
      then show ?thesis using Some e False by auto
    qed
  qed
qed simp

lemma put_file_content: "put_file p b es = None \<longleftrightarrow> put_file p c es = None"
  by (induction p arbitrary: es) (auto split: option.splits entry.splits)

section \<open>Well-formed trees\<close>

definition name_ok :: "string \<Rightarrow> bool" where
  "name_ok n \<longleftrightarrow> n \<noteq> [] \<and> CHR ''/'' \<notin> set n"

fun wf_entry :: "entry \<Rightarrow> bool" where
  "wf_entry (DirEnt n es) \<longleftrightarrow> name_ok n \<and> distinct (map entry_name es) \<and> (\<forall>e \<in> set es. wf_entry e)"
| "wf_entry e \<longleftrightarrow> name_ok (entry_name e)"

definition wf_tree :: "entry list \<Rightarrow> bool" where
  "wf_tree es \<longleftrightarrow> distinct (map entry_name es) \<and> (\<forall>e \<in> set es. wf_entry e)"

fun ent_files :: "string list \<Rightarrow> entry \<Rightarrow> string list set" where
  "ent_files dir (DirEnt n es) = (\<Union>e \<in> set es. ent_files (dir @ [n]) e)"
| "ent_files dir (FileEnt n _) = {dir @ [n]}"
| "ent_files dir _ = {}"

fun ent_ok :: "string list set \<Rightarrow> string list \<Rightarrow> entry \<Rightarrow> bool" where
  "ent_ok allowed dir (DirEnt n es) \<longleftrightarrow> dir @ [n] \<in> allowed \<and> (\<forall>e \<in> set es. ent_ok allowed (dir @ [n]) e)"
| "ent_ok allowed dir (FileEnt _ _) \<longleftrightarrow> True"
| "ent_ok allowed dir _ \<longleftrightarrow> False"

lemma kind_at_entry:
  "distinct (map entry_name es) \<Longrightarrow> p \<noteq> [] \<Longrightarrow> kind_at p es = Some k \<longleftrightarrow> (\<exists>e \<in> set es. kind_at p [e] = Some k)"
proof (cases p)
  case (Cons n r)
  assume d: "distinct (map entry_name es)"
  show ?thesis
  proof
    assume "kind_at p es = Some k"
    then obtain e where e: "find_entry n es = Some e" using Cons by (auto split: option.splits)
    then have "kind_at p [e] = kind_at p es" using Cons find_entry_Some [OF e] by simp
    then show "\<exists>e \<in> set es. kind_at p [e] = Some k" using \<open>kind_at p es = Some k\<close> find_entry_Some [OF e] by auto
  next
    assume "\<exists>e \<in> set es. kind_at p [e] = Some k"
    then obtain e where e: "e \<in> set es" "kind_at p [e] = Some k" ..
    then have "entry_name e = n" using Cons by (auto split: if_splits)
    then have "find_entry n es = Some e" using find_entry_distinct [OF d e(1)] by simp
    then show "kind_at p es = Some k" using e(2) Cons \<open>entry_name e = n\<close> by simp
  qed
qed simp

lemma kind_at_single: "kind_at (n # r) [e] = (if entry_name e \<noteq> n then None else case e of
    DirEnt _ sub \<Rightarrow> kind_at r sub | FileEnt _ b \<Rightarrow> if r = [] then Some (KFile b) else None
  | SpecialEnt _ \<Rightarrow> if r = [] then Some KSpecial else None | BrokenEnt _ \<Rightarrow> if r = [] then Some KBroken else None)"
  by simp

lemma ent_files_kind:
  "wf_entry e \<Longrightarrow> q \<in> ent_files dir e \<longleftrightarrow> (\<exists>p b. q = dir @ p \<and> kind_at p [e] = Some (KFile b))"
proof (induction e arbitrary: dir q)
  case (DirEnt n es)
  have d: "distinct (map entry_name es)" using DirEnt.prems by simp
  have "q \<in> ent_files dir (DirEnt n es) \<longleftrightarrow> (\<exists>e \<in> set es. \<exists>p b. q = (dir @ [n]) @ p \<and> kind_at p [e] = Some (KFile b))"
    using DirEnt by auto
  also have "\<dots> \<longleftrightarrow> (\<exists>p b. q = (dir @ [n]) @ p \<and> p \<noteq> [] \<and> kind_at p es = Some (KFile b))"
    using kind_at_entry [OF d] by (metis kind.distinct(1) kind_at.simps(1) option.inject)
  also have "\<dots> \<longleftrightarrow> (\<exists>p b. q = dir @ p \<and> kind_at p [DirEnt n es] = Some (KFile b))" (is "?L = ?R")
  proof
    assume ?L
    then obtain p b where "q = (dir @ [n]) @ p" "kind_at p es = Some (KFile b)" by blast
    then show ?R by (intro exI [of _ "n # p"] exI [of _ b]) simp
  next
    assume ?R
    then obtain p b where pb: "q = dir @ p" "kind_at p [DirEnt n es] = Some (KFile b)" by blast
    then obtain r where "p = n # r" "kind_at r es = Some (KFile b)" by (cases p) (auto split: if_splits)
    then show ?L using pb(1) by (intro exI [of _ r] exI [of _ b]) auto
  qed
  finally show ?case .
next
  case (FileEnt n b)
  show ?case
  proof
    assume "q \<in> ent_files dir (FileEnt n b)"
    then show "\<exists>p c. q = dir @ p \<and> kind_at p [FileEnt n b] = Some (KFile c)" by (intro exI [of _ "[n]"] exI [of _ b]) simp
  next
    assume "\<exists>p c. q = dir @ p \<and> kind_at p [FileEnt n b] = Some (KFile c)"
    then obtain p c where "q = dir @ p" "kind_at p [FileEnt n b] = Some (KFile c)" by blast
    then show "q \<in> ent_files dir (FileEnt n b)" by (cases p) (auto split: if_splits)
  qed
next
  case (SpecialEnt n)
  have "kind_at p [SpecialEnt n] \<noteq> Some (KFile b)" for p b by (cases p) auto
  then show ?case by simp
next
  case (BrokenEnt n)
  have "kind_at p [BrokenEnt n] \<noteq> Some (KFile b)" for p b by (cases p) auto
  then show ?case by simp
qed

lemma ball_imp_swap:
  "(\<forall>e \<in> S. \<forall>p k. P p \<longrightarrow> Q p e k \<longrightarrow> R p k) \<longleftrightarrow> (\<forall>p k. P p \<longrightarrow> (\<exists>e \<in> S. Q p e k) \<longrightarrow> R p k)"
  by blast

lemma ent_ok_kind:
  "wf_entry e \<Longrightarrow> ent_ok allowed dir e \<longleftrightarrow>
     (\<forall>p k. p \<noteq> [] \<longrightarrow> kind_at p [e] = Some k \<longrightarrow> (k = KDir \<and> dir @ p \<in> allowed) \<or> (\<exists>b. k = KFile b))"
proof (induction e arbitrary: dir)
  case (DirEnt n es)
  have d: "distinct (map entry_name es)" using DirEnt.prems by simp
  let ?good = "\<lambda>dir p k. (k = KDir \<and> dir @ p \<in> allowed) \<or> (\<exists>b. k = KFile b)"
  have IH: "ent_ok allowed (dir @ [n]) e = (\<forall>p k. p \<noteq> [] \<longrightarrow> kind_at p [e] = Some k \<longrightarrow> ?good (dir @ [n]) p k)" if "e \<in> set es" for e
    by (rule DirEnt.IH [OF that]) (use DirEnt.prems that in simp)
  have "(\<forall>e \<in> set es. ent_ok allowed (dir @ [n]) e)
      \<longleftrightarrow> (\<forall>e \<in> set es. \<forall>p k. p \<noteq> [] \<longrightarrow> kind_at p [e] = Some k \<longrightarrow> ?good (dir @ [n]) p k)"
    by (rule ball_cong [OF refl IH])
  also have "\<dots> \<longleftrightarrow> (\<forall>p k. p \<noteq> [] \<longrightarrow> (\<exists>e \<in> set es. kind_at p [e] = Some k) \<longrightarrow> ?good (dir @ [n]) p k)"
    by (rule ball_imp_swap)
  finally have "ent_ok allowed dir (DirEnt n es) \<longleftrightarrow> dir @ [n] \<in> allowed
      \<and> (\<forall>p k. p \<noteq> [] \<longrightarrow> (\<exists>e \<in> set es. kind_at p [e] = Some k) \<longrightarrow> ?good (dir @ [n]) p k)"
    by (simp only: ent_ok.simps)
  also have "\<dots> \<longleftrightarrow> dir @ [n] \<in> allowed \<and> (\<forall>p k. p \<noteq> [] \<longrightarrow> kind_at p es = Some k \<longrightarrow> ?good (dir @ [n]) p k)"
    using kind_at_entry [OF d] by blast
  also have "\<dots> \<longleftrightarrow> (\<forall>p k. p \<noteq> [] \<longrightarrow> kind_at p [DirEnt n es] = Some k \<longrightarrow> ?good dir p k)" (is "?L \<longleftrightarrow> ?R")
  proof
    assume L: ?L
    show ?R
    proof (intro allI impI)
      fix p k assume "p \<noteq> []" "kind_at p [DirEnt n es] = Some k"
      then obtain r where r: "p = n # r" "kind_at r es = Some k" by (cases p) (auto split: if_splits)
      then show "?good dir p k" using L by (cases "r = []") auto
    qed
  next
    assume R: ?R
    show ?L
    proof (intro conjI allI impI)
      show "dir @ [n] \<in> allowed" using R [rule_format, of "[n]" KDir] by simp
      fix p k assume "p \<noteq> []" "kind_at p es = Some k"
      then show "?good (dir @ [n]) p k" using R [rule_format, of "n # p" k] by simp
    qed
  qed
  finally show ?case .
next
  case (SpecialEnt n)
  show ?case by (auto intro!: exI [of _ "[n]"])
next
  case (BrokenEnt n)
  show ?case by (auto intro!: exI [of _ "[n]"])
next
  case (FileEnt n b)
  have "\<exists>c. k = KFile c" if "p \<noteq> []" "kind_at p [FileEnt n b] = Some k" for p k
    using that by (cases p) (auto split: if_splits)
  then show ?case by auto
qed

section \<open>The walk\<close>

definition ent_names :: "string list \<Rightarrow> entry \<Rightarrow> string set" where
  "ent_names dir e = join_names ` ent_files dir e"

lemma ent_names_simps [simp]:
  "ent_names dir (DirEnt n es) = (\<Union>e \<in> set es. ent_names (dir @ [n]) e)"
  "ent_names dir (FileEnt n b) = {join_names (dir @ [n])}"
  by (simp_all add: ent_names_def image_UN)

definition pending_names :: "pending_trees \<Rightarrow> string set" where
  "pending_names ts = (\<Union>(dir, es) \<in> set ts. \<Union>e \<in> set es. ent_names dir e)"

definition pending_ok :: "string list set \<Rightarrow> pending_trees \<Rightarrow> bool" where
  "pending_ok allowed ts \<longleftrightarrow> (\<forall>(dir, es) \<in> set ts. \<forall>e \<in> set es. ent_ok allowed dir e)"

lemma pending_trees_simps [simp]:
  "pending_names [] = {}" "pending_names ((dir, es) # ts) = (\<Union>e \<in> set es. ent_names dir e) \<union> pending_names ts"
  "pending_ok allowed []" "pending_ok allowed ((dir, es) # ts) \<longleftrightarrow> (\<forall>e \<in> set es. ent_ok allowed dir e) \<and> pending_ok allowed ts"
  by (simp_all add: pending_names_def pending_ok_def)

lemma walk_entries_fails:
  "walk_entries allowed dir es pending actual = Inl e \<Longrightarrow> \<not> (\<forall>e \<in> set es. ent_ok allowed dir e) \<and> e \<noteq> Panic"
  by (induction allowed dir es pending actual rule: walk_entries.induct) (auto split: if_splits)

lemma walk_entries_found:
  "walk_entries allowed dir es pending actual = Ok (pending', actual') \<Longrightarrow>
     actual' \<union> pending_names pending' = actual \<union> pending_names pending \<union> (\<Union>e \<in> set es. ent_names dir e)"
proof (induction allowed dir es pending actual rule: walk_entries.induct)
  case (2 allowed dir n sub es pending actual)
  then show ?case by (simp split: if_splits) blast
next
  case (3 allowed dir n b es pending actual)
  then show ?case by simp
qed simp_all

lemma walk_entries_pending:
  "walk_entries allowed dir es pending actual = Ok (pending', actual') \<Longrightarrow>
     pending_ok allowed pending' \<longleftrightarrow> pending_ok allowed pending \<and> (\<forall>e \<in> set es. ent_ok allowed dir e)"
proof (induction allowed dir es pending actual rule: walk_entries.induct)
  case (2 allowed dir n sub es pending actual)
  then show ?case by (simp split: if_splits) blast
qed simp_all

lemma walk_tree_spec:
  "(case walk_tree allowed pending actual of
      Inl e \<Rightarrow> \<not> pending_ok allowed pending \<and> e \<noteq> Panic
    | Inr found \<Rightarrow> pending_ok allowed pending \<and> found = actual \<union> pending_names pending)"
proof (induction allowed pending actual rule: walk_tree.induct)
  case (2 allowed dir es pending actual)
  show ?case
  proof (cases "walk_entries allowed dir es pending actual")
    case (Inl e)
    then show ?thesis using walk_entries_fails [OF Inl] by simp
  next
    case (Inr r)
    obtain pending' actual' where r: "r = (pending', actual')" by (cases r)
    note found = walk_entries_found [OF Inr [unfolded r]] and ok = walk_entries_pending [OF Inr [unfolded r]]
    have walk: "walk_tree allowed ((dir, es) # pending) actual = walk_tree allowed pending' actual'" using Inr r by simp
    have names: "actual \<union> pending_names ((dir, es) # pending) = actual' \<union> pending_names pending'"
      unfolding found by auto
    have good: "pending_ok allowed ((dir, es) # pending) = pending_ok allowed pending'" unfolding ok by auto
    show ?thesis using "2.IH" [OF Inr r [symmetric]] unfolding walk names good .
  qed
qed simp

text \<open>The walk over a well-formed tree: it succeeds exactly when the tree has only allowed directories
  and files, and then finds exactly the files.\<close>

definition tree_clean :: "string list set \<Rightarrow> entry list \<Rightarrow> bool" where
  "tree_clean allowed es \<longleftrightarrow>
     (\<forall>p k. p \<noteq> [] \<longrightarrow> kind_at p es = Some k \<longrightarrow> (k = KDir \<and> p \<in> allowed) \<or> (\<exists>b. k = KFile b))"

definition tree_files :: "entry list \<Rightarrow> string list set" where
  "tree_files es = {p. \<exists>b. kind_at p es = Some (KFile b)}"

lemma walk_tree_iff:
  assumes "wf_tree es"
  shows "walk_tree allowed [([], es)] {} = Ok found \<longleftrightarrow> tree_clean allowed es \<and> found = join_names ` tree_files es"
proof -
  have d: "distinct (map entry_name es)" and wf: "\<And>e. e \<in> set es \<Longrightarrow> wf_entry e" using assms by (auto simp: wf_tree_def)
  have "(\<Union>e \<in> set es. ent_files [] e) = {p. \<exists>e \<in> set es. \<exists>b. kind_at p [e] = Some (KFile b)}"
    using ent_files_kind [OF wf] by auto
  also have "\<dots> = tree_files es"
    using kind_at_entry [OF d] unfolding tree_files_def by (metis kind.distinct(1) kind_at.simps(1) option.inject)
  finally have files: "pending_names [([], es)] = join_names ` tree_files es" by (simp add: ent_names_def flip: image_UN)
  have "pending_ok allowed [([], es)] \<longleftrightarrow> (\<forall>e \<in> set es. \<forall>p k. p \<noteq> [] \<longrightarrow> kind_at p [e] = Some k \<longrightarrow> (k = KDir \<and> p \<in> allowed) \<or> (\<exists>b. k = KFile b))"
    using ent_ok_kind [OF wf, of _ allowed "[]"] by simp
  also have "\<dots> \<longleftrightarrow> tree_clean allowed es" unfolding tree_clean_def using kind_at_entry [OF d] by blast
  finally have ok: "pending_ok allowed [([], es)] \<longleftrightarrow> tree_clean allowed es" .
  show ?thesis
    using walk_tree_spec [of allowed "[([], es)]" "{}"] unfolding files ok by (auto split: sum.splits)
qed

end
