(* ===== verification/Release_Exact.thy ===== *)
theory Release_Exact
  imports Release_Install
begin

text \<open>
  What an installation of a transported release guarantees: the verification of a tree accepts exactly
  the tree of the manifest, extraction accepts exactly the canonical archive of payloads that match
  the manifest, and the two compose to \<^verbatim>\<open>install_transport\<close>.
\<close>

section \<open>Trees of known files\<close>

text \<open>A tree with exactly these files and the directories above them.\<close>

definition holds :: "(string list \<rightharpoonup> 8 word list) \<Rightarrow> entry list \<Rightarrow> bool" where
  "holds files t \<longleftrightarrow> (\<forall>p. kind_at p t = (case files p of Some b \<Rightarrow> Some (KFile b)
     | None \<Rightarrow> if p = [] \<or> (\<exists>q \<in> dom files. strict_prefix p q) then Some KDir else None))"

lemma holds_empty: "holds Map.empty []"
  by (simp add: holds_def)

lemma put_file_holds:
  assumes "holds files t" "p \<noteq> []" and free: "\<And>q. q \<in> dom files \<Longrightarrow> \<not> prefix p q \<and> \<not> prefix q p"
  shows "\<exists>t'. put_file p b t = Some t' \<and> holds (files(p \<mapsto> b)) t'"
proof -
  have none: "files p = None" using free [of p] by auto
  have above: "files q = None" if "strict_prefix q p" for q
    using free [of q] that by (auto simp: strict_prefix_def)
  have "kind_at p t = None"
    using assms(1,2) none free unfolding holds_def by (auto simp: strict_prefix_def)
  moreover have "kind_at q t = None \<or> kind_at q t = Some KDir" if "strict_prefix q p" for q
    using assms(1) above [OF that] unfolding holds_def by auto
  ultimately obtain t' where t': "put_file p b t = Some t'" using put_file_defined [OF assms(2)] by blast
  have "kind_at q t' = (case (files(p \<mapsto> b)) q of Some c \<Rightarrow> Some (KFile c)
      | None \<Rightarrow> if q = [] \<or> (\<exists>r \<in> dom (files(p \<mapsto> b)). strict_prefix q r) then Some KDir else None)" for q
    using put_file_kind [OF t', of q] assms(1) above [of q] unfolding holds_def by (auto split: option.splits)
  then have "holds (files(p \<mapsto> b)) t'" unfolding holds_def by blast
  with t' show ?thesis by blast
qed

lemma wf_put_file: "put_file p b es = Some es' \<Longrightarrow> list_all name_ok p \<Longrightarrow> wf_tree es \<Longrightarrow> wf_tree es'"
proof (induction p arbitrary: es es')
  case (Cons n p)
  show ?case
  proof (cases "p = []")
    case True
    then have "n \<notin> entry_name ` set es" "es' = es @ [FileEnt n b]" using Cons.prems(1) by (simp_all add: find_entry_None split: if_splits)
    then show ?thesis using Cons.prems(2,3) by (auto simp: wf_tree_def)
  next
    case False
    show ?thesis
    proof (cases "find_entry n es")
      case None
      then obtain sub where sub: "put_file p b [] = Some sub" "es' = es @ [DirEnt n sub]" using Cons.prems False by auto
      have "wf_tree sub" by (rule Cons.IH [OF sub(1)]) (use Cons.prems(2) in \<open>auto simp: wf_tree_def\<close>)
      then show ?thesis using Cons.prems(2,3) sub(2) None by (auto simp: wf_tree_def find_entry_None)
    next
      case (Some e)
      with Cons.prems False obtain k old sub where e: "e = DirEnt k old" and sub: "put_file p b old = Some sub"
          "es' = map (\<lambda>e. if entry_name e = n then DirEnt n sub else e) es"
        by (auto split: entry.splits)
      have "wf_tree old" using Cons.prems(3) find_entry_Some [OF Some] e by (auto simp: wf_tree_def)
      then have wf: "wf_tree sub" by (intro Cons.IH [OF sub(1)]) (use Cons.prems(2) in auto)
      have "map entry_name es' = map entry_name es" using sub(2) by auto
      then have "distinct (map entry_name es')" using Cons.prems(3) by (simp only: wf_tree_def)
      moreover have "\<forall>e \<in> set es'. wf_entry e" using wf Cons.prems(2,3) sub(2) by (auto simp: wf_tree_def)
      ultimately show ?thesis by (simp only: wf_tree_def)
    qed
  qed
qed simp

lemma wf_names: "kind_at p es = Some k \<Longrightarrow> wf_tree es \<Longrightarrow> list_all name_ok p"
proof (induction p arbitrary: es)
  case (Cons n p)
  then obtain e where e: "find_entry n es = Some e" by (auto split: option.splits)
  have wf: "wf_entry e" "entry_name e = n" using find_entry_Some [OF e] Cons.prems(2) by (auto simp: wf_tree_def)
  show ?case
  proof (cases e)
    case (DirEnt m sub)
    then have "kind_at p sub = Some k" "wf_tree sub" "name_ok n" using Cons.prems e wf by (auto simp: wf_tree_def)
    then show ?thesis using Cons.IH by simp
  qed (use Cons.prems e wf in \<open>auto split: if_splits\<close>)
qed simp

section \<open>Paths as text\<close>

lemma split_join: "ps \<noteq> [] \<Longrightarrow> \<forall>p \<in> set ps. CHR ''/'' \<notin> set p \<Longrightarrow> split_on (CHR ''/'') (join_names ps) = ps"
proof (induction ps rule: join_names.induct)
  case (3 s t ss)
  then show ?case by (simp add: split_on_append split_on_absent)
qed (simp_all add: split_on_absent)

lemma evidence_name: "join_names (evidence_path a) = ''evidence/'' @ ra_logical_path a"
proof -
  obtain p ps where "artifact_parts a = p # ps" unfolding artifact_parts_def by (cases "split_on (CHR ''/'') (ra_logical_path a)") simp_all
  moreover from this have "join_names (p # ps) = ra_logical_path a" by (metis artifact_parts_def join_split)
  ultimately show ?thesis by (simp add: evidence_path_def)
qed

lemma evidence_parts_ok:
  assumes "safe_path (ra_logical_path a)"
  shows "list_all name_ok (evidence_path a)" "evidence_path a \<noteq> []"
proof -
  have "[] \<notin> set (artifact_parts a)" using safe_parts(1) [OF assms] by (simp add: artifact_parts_def)
  moreover have "CHR ''/'' \<notin> set p" if "p \<in> set (artifact_parts a)" for p
    using split_on_parts that by (simp add: artifact_parts_def)
  ultimately show "list_all name_ok (evidence_path a)" by (auto simp: evidence_path_def list_all_iff name_ok_def)
qed (simp add: evidence_path_def)

lemma split_evidence: "safe_path (ra_logical_path a) \<Longrightarrow> split_on (CHR ''/'') (''evidence/'' @ ra_logical_path a) = evidence_path a"
  using split_join [of "evidence_path a"] evidence_parts_ok [of a] by (auto simp: evidence_name list_all_iff name_ok_def)

section \<open>The tree of a release\<close>

definition release_tree :: "(8 word list \<Rightarrow> string) \<Rightarrow> release_manifest \<Rightarrow> 8 word list \<Rightarrow> entry list \<Rightarrow> bool" where
  "release_tree sha m bytes tree \<longleftrightarrow>
     kind_at [''manifest.json''] tree = Some (KFile bytes)
   \<and> (\<forall>a \<in> set (artifacts m). \<exists>data. kind_at (evidence_path a) tree = Some (KFile data)
        \<and> length data = ra_size_bytes a \<and> sha data = ra_sha256 a)
   \<and> (\<forall>p k. p \<noteq> [] \<longrightarrow> kind_at p tree = Some k \<longrightarrow>
        (\<exists>b. k = KFile b) \<and> (p = [''manifest.json''] \<or> p \<in> evidence_path ` set (artifacts m))
        \<or> k = KDir \<and> (\<exists>a \<in> set (artifacts m). strict_prefix p (evidence_path a)))"

lemma check_installed_Ok_iff:
  "check_installed io tree as = Ok () \<longleftrightarrow> (\<forall>a \<in> set as. \<exists>data. kind_at (evidence_path a) tree = Some (KFile data)
     \<and> length data = ra_size_bytes a \<and> ti_sha256 io data = ra_sha256 a)"
  by (induction as) (auto split: option.splits kind.splits)

definition release_files :: "release_manifest \<Rightarrow> string list set" where
  "release_files m = insert [''manifest.json''] (evidence_path ` set (artifacts m))"

lemma clean_files_iff:
  assumes "kind_at [''manifest.json''] tree = Some (KFile bytes)"
    "\<forall>a \<in> set (artifacts m). \<exists>data. kind_at (evidence_path a) tree = Some (KFile data)"
  shows "tree_clean (expected_directories m) tree \<and> tree_files tree = release_files m \<longleftrightarrow>
    (\<forall>p k. p \<noteq> [] \<longrightarrow> kind_at p tree = Some k \<longrightarrow>
        (\<exists>b. k = KFile b) \<and> (p = [''manifest.json''] \<or> p \<in> evidence_path ` set (artifacts m))
        \<or> k = KDir \<and> (\<exists>a \<in> set (artifacts m). strict_prefix p (evidence_path a)))"
    (is "?clean \<and> ?same \<longleftrightarrow> ?only")
proof
  assume l: "?clean \<and> ?same"
  show ?only
  proof (intro allI impI)
    fix p k assume p: "p \<noteq> []" "kind_at p tree = Some k"
    with l consider "k = KDir" "p \<in> expected_directories m" | b where "k = KFile b" unfolding tree_clean_def by blast
    then show "(\<exists>b. k = KFile b) \<and> (p = [''manifest.json''] \<or> p \<in> evidence_path ` set (artifacts m))
        \<or> k = KDir \<and> (\<exists>a \<in> set (artifacts m). strict_prefix p (evidence_path a))"
    proof cases
      case 1
      then show ?thesis by (auto simp: expected_directories_def)
    next
      case (2 b)
      then have "p \<in> release_files m" using l p(2) by (auto simp: tree_files_def)
      then show ?thesis using 2 by (auto simp: release_files_def)
    qed
  qed
next
  assume r: ?only
  have ?clean unfolding tree_clean_def expected_directories_def using r by blast
  moreover have "tree_files tree \<subseteq> release_files m"
  proof
    fix p assume "p \<in> tree_files tree"
    then obtain b where b: "kind_at p tree = Some (KFile b)" by (auto simp: tree_files_def)
    then have "p \<noteq> []" by auto
    with r b show "p \<in> release_files m" unfolding release_files_def by blast
  qed
  moreover have "release_files m \<subseteq> tree_files tree" using assms by (auto simp: release_files_def tree_files_def)
  ultimately show "?clean \<and> ?same" by blast
qed

lemma files_text_iff:
  assumes wf: "wf_tree tree" and safe: "\<And>a. a \<in> set (artifacts m) \<Longrightarrow> safe_path (ra_logical_path a)"
  shows "join_names ` tree_files tree = expected_files m \<longleftrightarrow> tree_files tree = release_files m"
proof -
  have expected: "expected_files m = join_names ` release_files m"
    by (simp add: expected_files_def release_files_def image_image evidence_name)
  have "split_on (CHR ''/'') (join_names p) = p" if "p \<in> tree_files tree \<union> release_files m" for p
  proof -
    have "list_all name_ok p \<and> p \<noteq> []"
      using that wf_names [OF _ wf] evidence_parts_ok safe
      by (auto simp: tree_files_def release_files_def name_ok_def)
    then show ?thesis by (intro split_join) (auto simp: list_all_iff name_ok_def)
  qed
  then have "inj_on join_names (tree_files tree \<union> release_files m)" by (rule inj_on_inverseI)
  then show ?thesis unfolding expected by (rule inj_on_image_eq_iff) simp_all
qed

lemma verify_tree_Ok_iff:
  assumes wf: "wf_tree tree" and safe: "\<And>a. a \<in> set (artifacts m) \<Longrightarrow> safe_path (ra_logical_path a)"
  shows "verify_tree io base tree bytes m = Ok () \<longleftrightarrow>
    no_symlinks (ti_stat_created io) base = Ok () \<and> release_tree (ti_sha256 io) m bytes tree"
proof -
  have "verify_tree io base tree bytes m = Ok () \<longleftrightarrow>
      no_symlinks (ti_stat_created io) base = Ok () \<and> kind_at [''manifest.json''] tree = Some (KFile bytes)
    \<and> (tree_clean (expected_directories m) tree \<and> tree_files tree = release_files m) \<and> check_installed io tree (artifacts m) = Ok ()"
    unfolding verify_tree_def rbind_Ok_iff
    using walk_tree_iff [OF wf, of "expected_directories m"] files_text_iff [OF wf safe]
    by (auto split: option.splits kind.splits if_splits simp: rbind_Ok_iff)
  then show ?thesis
    unfolding check_installed_Ok_iff release_tree_def using clean_files_iff by blast
qed

section \<open>Extraction\<close>

lemma read_exact_Ok_iff: "read_exact n st = Ok (xs, st') \<longleftrightarrow>
    length xs = n \<and> gz_bytes st = xs @ gz_bytes st' \<and> gz_error st' = gz_error st \<and> gz_rest st' = gz_rest st"
  by (cases st; cases st') (auto simp: read_exact_def split: if_splits)

lemma read_payload_Ok_iff: "read_payload n st = Ok (xs, st') \<longleftrightarrow>
    length xs = n \<and> gz_bytes st = xs @ gz_bytes st' \<and> gz_error st' = gz_error st \<and> gz_rest st' = gz_rest st"
  by (cases st; cases st') (auto simp: read_payload_def split: if_splits)

text \<open>The canonical record of an artifact with its payload.\<close>

definition archive_record :: "release_artifact \<Rightarrow> 8 word list \<Rightarrow> 8 word list" where
  "archive_record a data = (case (ustar_header a :: (release_error, 8 word list) outcome) of Inr h \<Rightarrow> h | Inl _ \<Rightarrow> [])
     @ data @ replicate (padding_of (length data)) 0"

definition payload_ok :: "transport_io \<Rightarrow> release_artifact \<Rightarrow> 8 word list \<Rightarrow> bool" where
  "payload_ok io a data \<longleftrightarrow> length data = ra_size_bytes a \<and> ti_sha256 io data = ra_sha256 a"

definition writable :: "transport_io \<Rightarrow> release_artifact \<Rightarrow> bool" where
  "writable io a \<longleftrightarrow> ti_create io (ra_logical_path a) = Ok () \<and> ti_write io (ra_logical_path a) = Ok ()"

lemma zero_list_iff: "\<not> list_ex (\<lambda>b. b \<noteq> 0) xs \<longleftrightarrow> xs = replicate (length xs) 0"
  by (induction xs) auto

lemma extract_artifact_Ok_iff:
  assumes "ustar_header a = (Ok h :: (release_error, 8 word list) outcome)" "length h = 512"
  shows "extract_artifact io a (tree, st) = Ok (tree', st') \<longleftrightarrow>
    (\<exists>data. writable io a \<and> payload_ok io a data \<and> put_file (evidence_path a) data tree = Some tree'
       \<and> gz_bytes st = archive_record a data @ gz_bytes st' \<and> gz_error st' = gz_error st \<and> gz_rest st' = gz_rest st)"
    (is "?L \<longleftrightarrow> ?R")
proof
  assume ?L
  then obtain b st1 data st2 z where steps: "read_exact 512 st = Ok (b, st1)" "b = h"
      "read_payload (ra_size_bytes a) st1 = Ok (data, st2)" "read_exact (padding_of (ra_size_bytes a)) st2 = Ok (z, st')"
    and ok: "writable io a" "ti_sha256 io data = ra_sha256 a" "put_file (evidence_path a) [] tree \<noteq> None"
      "tree' = the (put_file (evidence_path a) data tree)" "\<not> list_ex (\<lambda>b. b \<noteq> 0) z"
    using assms(1) by (auto simp: extract_artifact_def rbind_Ok_iff writable_def split: if_splits)
  obtain t where t: "put_file (evidence_path a) data tree = Some t"
    using ok(3) put_file_content [of "evidence_path a" data tree "[]"] by auto
  have z: "z = replicate (padding_of (ra_size_bytes a)) 0" using ok(5) steps(4) by (simp add: zero_list_iff read_exact_Ok_iff)
  have "length data = ra_size_bytes a" using steps(3) by (simp add: read_payload_Ok_iff)
  moreover from this have "gz_bytes st = archive_record a data @ gz_bytes st'"
    using steps z assms(1) by (simp add: archive_record_def read_exact_Ok_iff read_payload_Ok_iff)
  ultimately show ?R
    using ok t steps by (intro exI [of _ data]) (simp add: payload_ok_def read_exact_Ok_iff read_payload_Ok_iff)
next
  assume ?R
  then obtain data where d: "writable io a" "payload_ok io a data" "put_file (evidence_path a) data tree = Some tree'"
      "gz_bytes st = archive_record a data @ gz_bytes st'" "gz_error st' = gz_error st" "gz_rest st' = gz_rest st" by blast
  let ?z = "replicate (padding_of (ra_size_bytes a)) (0 :: 8 word)"
  let ?st1 = "st\<lparr>gz_bytes := data @ ?z @ gz_bytes st'\<rparr>" and ?st2 = "st\<lparr>gz_bytes := ?z @ gz_bytes st'\<rparr>"
  have "read_exact 512 st = Ok (h, ?st1)"
    using d(2,4) assms by (simp add: read_exact_Ok_iff archive_record_def payload_ok_def)
  moreover have "read_payload (ra_size_bytes a) ?st1 = Ok (data, ?st2)"
    using d(2) by (simp add: read_payload_Ok_iff payload_ok_def)
  moreover have "read_exact (padding_of (ra_size_bytes a)) ?st2 = Ok (?z, st')"
    using d(5,6) by (simp add: read_exact_Ok_iff)
  moreover have "put_file (evidence_path a) [] tree \<noteq> None"
    using d(3) put_file_content [of "evidence_path a" data tree "[]"] by auto
  ultimately show ?L
    using d(1-3) assms(1) zero_list_iff [of ?z] by (simp add: extract_artifact_def writable_def payload_ok_def)
qed

fun put_files :: "(release_artifact \<times> 8 word list) list \<Rightarrow> entry list \<Rightarrow> entry list option" where
  "put_files [] t = Some t"
| "put_files ((a, d) # ps) t = Option.bind (put_file (evidence_path a) d t) (put_files ps)"

lemma extract_all_Ok_iff:
  assumes "\<And>a. a \<in> set as \<Longrightarrow> \<exists>h. ustar_header a = (Ok h :: (release_error, 8 word list) outcome) \<and> length h = 512"
  shows "extract_all io as (tree, st) = Ok (tree', st') \<longleftrightarrow>
    (\<exists>datas. list_all2 (\<lambda>a d. writable io a \<and> payload_ok io a d) as datas \<and> put_files (zip as datas) tree = Some tree'
       \<and> gz_bytes st = concat (map2 archive_record as datas) @ gz_bytes st' \<and> gz_error st' = gz_error st \<and> gz_rest st' = gz_rest st)"
  using assms
proof (induction as arbitrary: tree st)
  case Nil
  show ?case by (cases st; cases st') auto
next
  case (Cons a as)
  obtain h where h: "ustar_header a = (Ok h :: (release_error, 8 word list) outcome)" "length h = 512"
    using Cons.prems [of a] by auto
  note one = extract_artifact_Ok_iff [OF h]
  have rest: "extract_all io as (t1, s1) = Ok (tree', st') \<longleftrightarrow>
      (\<exists>datas. list_all2 (\<lambda>a d. writable io a \<and> payload_ok io a d) as datas \<and> put_files (zip as datas) t1 = Some tree'
       \<and> gz_bytes s1 = concat (map2 archive_record as datas) @ gz_bytes st' \<and> gz_error st' = gz_error s1 \<and> gz_rest st' = gz_rest s1)"
    for t1 s1 by (rule Cons.IH) (rule Cons.prems, simp)
  have "extract_all io (a # as) (tree, st) = Ok (tree', st') \<longleftrightarrow>
      (\<exists>t1 s1. extract_artifact io a (tree, st) = Ok (t1, s1) \<and> extract_all io as (t1, s1) = Ok (tree', st'))"
    by (auto simp: rbind_Ok_iff)
  also have "\<dots> \<longleftrightarrow> (\<exists>d datas t1. writable io a \<and> payload_ok io a d \<and> put_file (evidence_path a) d tree = Some t1
      \<and> list_all2 (\<lambda>a d. writable io a \<and> payload_ok io a d) as datas \<and> put_files (zip as datas) t1 = Some tree'
      \<and> gz_bytes st = archive_record a d @ concat (map2 archive_record as datas) @ gz_bytes st'
      \<and> gz_error st' = gz_error st \<and> gz_rest st' = gz_rest st)" (is "?L \<longleftrightarrow> ?R")
  proof
    assume ?L
    then obtain t1 s1 where "extract_artifact io a (tree, st) = Ok (t1, s1)" "extract_all io as (t1, s1) = Ok (tree', st')" by blast
    then obtain d datas where
        "writable io a \<and> payload_ok io a d \<and> put_file (evidence_path a) d tree = Some t1
         \<and> gz_bytes st = archive_record a d @ gz_bytes s1 \<and> gz_error s1 = gz_error st \<and> gz_rest s1 = gz_rest st"
        "list_all2 (\<lambda>a d. writable io a \<and> payload_ok io a d) as datas \<and> put_files (zip as datas) t1 = Some tree'
         \<and> gz_bytes s1 = concat (map2 archive_record as datas) @ gz_bytes st' \<and> gz_error st' = gz_error s1 \<and> gz_rest st' = gz_rest s1"
      unfolding one rest by blast
    then show ?R by (intro exI [of _ d] exI [of _ datas] exI [of _ t1]) simp
  next
    assume ?R
    then obtain d datas t1 where r: "writable io a" "payload_ok io a d" "put_file (evidence_path a) d tree = Some t1"
      "list_all2 (\<lambda>a d. writable io a \<and> payload_ok io a d) as datas" "put_files (zip as datas) t1 = Some tree'"
      "gz_bytes st = archive_record a d @ concat (map2 archive_record as datas) @ gz_bytes st'"
      "gz_error st' = gz_error st" "gz_rest st' = gz_rest st" by blast
    let ?s1 = "st\<lparr>gz_bytes := concat (map2 archive_record as datas) @ gz_bytes st'\<rparr>"
    have "extract_artifact io a (tree, st) = Ok (t1, ?s1)" unfolding one using r by (intro exI [of _ d]) simp
    moreover have "extract_all io as (t1, ?s1) = Ok (tree', st')"
      unfolding rest using r by (intro exI [of _ datas]) simp
    ultimately show ?L by blast
  qed
  also have "\<dots> \<longleftrightarrow> (\<exists>datas. list_all2 (\<lambda>a d. writable io a \<and> payload_ok io a d) (a # as) datas
      \<and> put_files (zip (a # as) datas) tree = Some tree'
      \<and> gz_bytes st = concat (map2 archive_record (a # as) datas) @ gz_bytes st' \<and> gz_error st' = gz_error st \<and> gz_rest st' = gz_rest st)"
      (is "?L \<longleftrightarrow> ?R")
  proof
    assume ?L
    then obtain d datas t1 where "writable io a" "payload_ok io a d" "put_file (evidence_path a) d tree = Some t1"
      "list_all2 (\<lambda>a d. writable io a \<and> payload_ok io a d) as datas" "put_files (zip as datas) t1 = Some tree'"
      "gz_bytes st = archive_record a d @ concat (map2 archive_record as datas) @ gz_bytes st'"
      "gz_error st' = gz_error st" "gz_rest st' = gz_rest st" by blast
    then show ?R by (intro exI [of _ "d # datas"]) simp
  next
    assume ?R
    then obtain datas where r: "list_all2 (\<lambda>a d. writable io a \<and> payload_ok io a d) (a # as) datas"
      "put_files (zip (a # as) datas) tree = Some tree'"
      "gz_bytes st = concat (map2 archive_record (a # as) datas) @ gz_bytes st'" "gz_error st' = gz_error st" "gz_rest st' = gz_rest st" by blast
    then obtain d ds where d: "datas = d # ds" by (cases datas) auto
    then obtain t1 where "put_file (evidence_path a) d tree = Some t1" "put_files (zip as ds) t1 = Some tree'"
      using r(2) by (auto simp: bind_eq_Some_conv)
    then show ?L using r d by (intro exI [of _ d] exI [of _ ds] exI [of _ t1]) simp
  qed
  finally show ?case .
qed

lemma put_files_holds:
  assumes "holds files t" "\<And>a. a \<in> set as \<Longrightarrow> list_all name_ok (evidence_path a)" "wf_tree t" "length datas = length as"
    and free: "\<And>i j. i < length as \<Longrightarrow> j < length as \<Longrightarrow> i \<noteq> j \<Longrightarrow> \<not> prefix (evidence_path (as ! i)) (evidence_path (as ! j))"
    and apart: "\<And>a q. a \<in> set as \<Longrightarrow> q \<in> dom files \<Longrightarrow> \<not> prefix (evidence_path a) q \<and> \<not> prefix q (evidence_path a)"
  shows "\<exists>t'. put_files (zip as datas) t = Some t' \<and> wf_tree t'
    \<and> holds (files ++ map_of (rev (zip (map evidence_path as) datas))) t'"
  using assms
proof (induction as arbitrary: datas files t)
  case (Cons a as)
  obtain d ds where ds: "datas = d # ds" "length ds = length as" using Cons.prems(4) by (cases datas) auto
  have "evidence_path a \<noteq> []" by (simp add: evidence_path_def)
  then obtain t1 where t1: "put_file (evidence_path a) d t = Some t1" "holds (files(evidence_path a \<mapsto> d)) t1"
    using put_file_holds [OF Cons.prems(1)] Cons.prems(6) [of a] by (metis list.set_intros(1))
  have wf: "wf_tree t1" by (rule wf_put_file [OF t1(1)]) (use Cons.prems(2,3) in simp_all)
  have "\<exists>t'. put_files (zip as ds) t1 = Some t' \<and> wf_tree t'
      \<and> holds (files(evidence_path a \<mapsto> d) ++ map_of (rev (zip (map evidence_path as) ds))) t'"
  proof (rule Cons.IH [OF t1(2) _ wf ds(2)])
    show "list_all name_ok (evidence_path b)" if "b \<in> set as" for b using Cons.prems(2) that by simp
    show "\<not> prefix (evidence_path (as ! i)) (evidence_path (as ! j))" if "i < length as" "j < length as" "i \<noteq> j" for i j
      using Cons.prems(5) [of "Suc i" "Suc j"] that by simp
    show "\<not> prefix (evidence_path b) q \<and> \<not> prefix q (evidence_path b)"
      if b: "b \<in> set as" and q: "q \<in> dom (files(evidence_path a \<mapsto> d))" for b q
    proof (cases "q = evidence_path a")
      case True
      obtain i where "i < length as" "as ! i = b" using b by (auto simp: in_set_conv_nth)
      then show ?thesis using Cons.prems(5) [of "Suc i" 0] Cons.prems(5) [of 0 "Suc i"] True by simp
    next
      case False
      then show ?thesis using Cons.prems(6) [of b q] b q by simp
    qed
  qed
  then show ?case using t1(1) ds by (simp add: map_add_upd_left)
qed simp

section \<open>The canonical archive\<close>

lemma check_tail_Ok_iff: "check_tail st = Ok () \<longleftrightarrow>
    (\<exists>k. 2 \<le> k \<and> k \<le> 2048 \<and> gz_bytes st = replicate (512 * k) 0) \<and> gz_error st = None \<and> gz_rest st = []"
proof
  assume ok: "check_tail st = Ok ()"
  let ?tail = "take (TAIL_LIMIT + 1) (gz_bytes st)"
  have c: "1024 \<le> length ?tail" "length ?tail \<le> TAIL_LIMIT" "length ?tail mod 512 = 0" "\<not> list_ex (\<lambda>b. b \<noteq> 0) ?tail"
    "gz_rest st = []" "length ?tail < TAIL_LIMIT + 1 \<longrightarrow> gz_error st = None"
    using ok by (auto simp: check_tail_def Let_def simp del: length_take split: if_splits)
  have whole: "?tail = gz_bytes st" using c(2) by simp
  define k where "k = length (gz_bytes st) div 512"
  have len: "length (gz_bytes st) = 512 * k" using c(3) mult_div_mod_eq [of 512 "length (gz_bytes st)"] unfolding whole k_def by simp
  have "gz_bytes st = replicate (512 * k) 0" using c(4) unfolding whole zero_list_iff len .
  moreover have "2 \<le> k" "k \<le> 2048" using c(1,2) unfolding whole len by (simp_all add: TAIL_LIMIT_def)
  moreover have "gz_error st = None" using c(2,6) by linarith
  ultimately show "(\<exists>k. 2 \<le> k \<and> k \<le> 2048 \<and> gz_bytes st = replicate (512 * k) 0) \<and> gz_error st = None \<and> gz_rest st = []"
    using c(5) by blast
next
  assume "(\<exists>k. 2 \<le> k \<and> k \<le> 2048 \<and> gz_bytes st = replicate (512 * k) 0) \<and> gz_error st = None \<and> gz_rest st = []"
  then obtain k where k: "2 \<le> k" "k \<le> 2048" "gz_bytes st = replicate (512 * k) 0" "gz_error st = None" "gz_rest st = []" by blast
  have "512 * k < TAIL_LIMIT + 1" using k(2) by (simp add: TAIL_LIMIT_def)
  then have "take (TAIL_LIMIT + 1) (gz_bytes st) = replicate (512 * k) 0" using k(3) by simp
  moreover have "512 * k \<le> TAIL_LIMIT" using k(2) by (simp add: TAIL_LIMIT_def)
  ultimately show "check_tail st = Ok ()" using k(1,4,5) by (simp add: check_tail_def Let_def list_ex_iff)
qed

lemma accepted_release:
  assumes "parse_release parse bytes = Ok m"
  shows "\<And>a. a \<in> set (artifacts m) \<Longrightarrow> safe_path (ra_logical_path a)"
    "\<And>a. a \<in> set (artifacts m) \<Longrightarrow> \<exists>h. ustar_header a = (Ok h :: (release_error, 8 word list) outcome) \<and> length h = 512"
    "\<And>i j. i < length (artifacts m) \<Longrightarrow> j < length (artifacts m) \<Longrightarrow> i \<noteq> j \<Longrightarrow>
       \<not> prefix (evidence_path (artifacts m ! i)) (evidence_path (artifacts m ! j))"
proof -
  fix a assume "a \<in> set (artifacts m)"
  then obtain i where i: "i < length (artifacts m)" "a = artifacts m ! i" by (auto simp: in_set_conv_nth)
  note acc = accepted_artifact [OF assms i(1), folded i(2)]
  show "safe_path (ra_logical_path a)" using acc(1) by (simp add: artifact_ok_def)
  have le: "length (ra_filename a) \<le> 100" using acc(2) by simp
  show "\<exists>h. ustar_header a = (Ok h :: (release_error, 8 word list) outcome) \<and> length h = 512"
    unfolding ustar_header_layout [OF le acc(3)]
    using length_header_layout [OF le acc(3)] header_checksum_digits [OF le acc(3)] by auto
next
  fix i j assume ij: "i < length (artifacts m)" "j < length (artifacts m)" "i \<noteq> j"
  from parse_release_Ok [OF assms] obtain st where "check_artifacts 0 (artifacts m) empty_inventory = Ok st" by metis
  from accepted_paths_prefix_free [OF this ij]
  show "\<not> prefix (evidence_path (artifacts m ! i)) (evidence_path (artifacts m ! j))" by (simp add: evidence_path_def)
qed

text \<open>The payloads of an accepted release can always be put in place, and the tree is that of the
  release.\<close>

lemma kind_at_with_manifest:
  assumes "kind_at [f] tree = None"
  shows "kind_at (n # r) (tree @ [FileEnt f b]) = (if n = f then if r = [] then Some (KFile b) else None else kind_at (n # r) tree)"
proof -
  have "find_entry f tree = None" using assms by (auto split: option.splits entry.splits)
  then show ?thesis by (auto simp: find_entry_append split: option.splits)
qed

lemma payload_files:
  assumes distinct: "distinct (map evidence_path as)" and len: "length datas = length as"
  defines "files \<equiv> Map.empty ++ map_of (rev (zip (map evidence_path as) datas))"
  shows "dom files = evidence_path ` set as" "\<And>i. i < length as \<Longrightarrow> files (evidence_path (as ! i)) = Some (datas ! i)"
proof -
  let ?ps = "rev (zip (map evidence_path as) datas)"
  have d: "distinct (map fst ?ps)" using distinct len by (simp add: rev_map [symmetric])
  have eq: "files = map_of ?ps" by (simp add: files_def)
  have "dom files = set (map fst ?ps)" unfolding eq by (simp add: dom_map_of_conv_image_fst)
  then show "dom files = evidence_path ` set as" using len by (simp only: rev_map [symmetric] set_rev map_fst_zip length_map set_map)
  show "files (evidence_path (as ! i)) = Some (datas ! i)" if "i < length as" for i
    unfolding eq using d that len by (intro map_of_is_SomeI) (auto simp: in_set_zip intro!: exI [of _ i])
qed

lemma release_stage:
  assumes acc: "parse_release parse raw = Ok m" and data: "list_all2 (payload_ok io) (artifacts m) datas"
  shows "\<exists>tree. put_files (zip (artifacts m) datas) [] = Some tree \<and> wf_tree (tree @ [FileEnt ''manifest.json'' bytes])
    \<and> release_tree (ti_sha256 io) m bytes (tree @ [FileEnt ''manifest.json'' bytes])"
proof -
  note r = accepted_release [OF acc]
  let ?as = "artifacts m"
  have len: "length datas = length ?as" using data by (simp add: list_all2_lengthD)
  let ?files = "Map.empty ++ map_of (rev (zip (map evidence_path ?as) datas))"
  have distinct: "distinct (map evidence_path ?as)" using r(3) by (auto simp: distinct_conv_nth) (metis prefix_order.order_refl)
  note f = payload_files [OF distinct len]
  have "\<exists>tree. put_files (zip ?as datas) [] = Some tree \<and> wf_tree tree \<and> holds ?files tree"
    by (rule put_files_holds [OF holds_empty _ _ len r(3)]) (use r(1) evidence_parts_ok(1) in \<open>auto simp: wf_tree_def\<close>)
  then obtain tree where tree: "put_files (zip ?as datas) [] = Some tree" "wf_tree tree" "holds ?files tree" by blast
  have above: "(\<exists>q \<in> dom ?files. strict_prefix p q) \<longleftrightarrow> (\<exists>a \<in> set ?as. strict_prefix p (evidence_path a))" for p
    unfolding f(1) by blast
  have kind: "kind_at p tree = (case ?files p of Some b \<Rightarrow> Some (KFile b)
     | None \<Rightarrow> if p = [] \<or> (\<exists>a \<in> set ?as. strict_prefix p (evidence_path a)) then Some KDir else None)" for p
    using tree(3) unfolding holds_def above by blast
  have "[''manifest.json''] \<notin> dom ?files" unfolding f(1) by (auto simp: evidence_path_def)
  then have root: "?files [''manifest.json''] = None" "\<not> (\<exists>a \<in> set ?as. strict_prefix [''manifest.json''] (evidence_path a))"
    by (auto simp: domIff evidence_path_def strict_prefix_def simp del: map_add_empty)
  have no_manifest: "kind_at [''manifest.json''] tree = None" unfolding kind using root by simp
  note stage = kind_at_with_manifest [OF no_manifest, where b = bytes]
  have at_artifact: "kind_at (evidence_path (?as ! i)) (tree @ [FileEnt ''manifest.json'' bytes]) = Some (KFile (datas ! i))"
    if "i < length ?as" for i
  proof -
    have "kind_at (evidence_path (?as ! i)) tree = Some (KFile (datas ! i))" unfolding kind f(2) [OF that] by simp
    then show ?thesis by (simp only: evidence_path_def stage) simp
  qed
  let ?stage = "tree @ [FileEnt ''manifest.json'' bytes]"
  have "release_tree (ti_sha256 io) m bytes ?stage"
    unfolding release_tree_def
  proof (intro conjI ballI allI impI)
    show "kind_at [''manifest.json''] ?stage = Some (KFile bytes)" by (simp only: stage) simp
    fix a assume "a \<in> set ?as"
    then obtain i where i: "i < length ?as" "a = ?as ! i" by (auto simp: in_set_conv_nth)
    show "\<exists>d. kind_at (evidence_path a) ?stage = Some (KFile d) \<and> length d = ra_size_bytes a \<and> ti_sha256 io d = ra_sha256 a"
      using at_artifact [OF i(1)] list_all2_nthD [OF data i(1)] i(2) by (auto simp: payload_ok_def)
  next
    fix p k assume p: "p \<noteq> []" "kind_at p ?stage = Some k"
    then obtain n q where q: "p = n # q" by (cases p) auto
    show "(\<exists>b. k = KFile b) \<and> (p = [''manifest.json''] \<or> p \<in> evidence_path ` set ?as)
        \<or> k = KDir \<and> (\<exists>a \<in> set ?as. strict_prefix p (evidence_path a))"
    proof (cases "n = ''manifest.json''")
      case True
      then show ?thesis using p(2) unfolding q stage by (auto split: if_splits)
    next
      case False
      then have "kind_at p tree = Some k" using p(2) unfolding q stage by simp
      then show ?thesis unfolding kind using p(1) f(1) by (auto split: option.splits if_splits)
    qed
  qed
  moreover have "wf_tree ?stage"
  proof -
    have "find_entry ''manifest.json'' tree = None" using no_manifest by (auto split: option.splits entry.splits)
    then show ?thesis using tree(2) by (auto simp: wf_tree_def find_entry_None name_ok_def)
  qed
  ultimately show ?thesis using tree(1) by blast
qed

lemma extract_archive_Ok_iff:
  assumes "parse_release parse raw = Ok m"
  shows "extract_archive io m c = Ok tree \<longleftrightarrow> (10 \<le> length c \<and> take 10 c = gzip_header)
    \<and> (\<exists>datas k. list_all2 (\<lambda>a d. writable io a \<and> payload_ok io a d) (artifacts m) datas
        \<and> put_files (zip (artifacts m) datas) [] = Some tree
        \<and> gz_bytes (ti_gunzip io c) = concat (map2 archive_record (artifacts m) datas) @ replicate (512 * k) 0
        \<and> 2 \<le> k \<and> k \<le> 2048 \<and> gz_error (ti_gunzip io c) = None \<and> gz_rest (ti_gunzip io c) = [])"
    (is "_ \<longleftrightarrow> ?head \<and> ?R")
proof -
  have all: "extract_all io (artifacts m) ([], gz) = Ok (tree, st) \<longleftrightarrow>
      (\<exists>datas. list_all2 (\<lambda>a d. writable io a \<and> payload_ok io a d) (artifacts m) datas \<and> put_files (zip (artifacts m) datas) [] = Some tree
       \<and> gz_bytes gz = concat (map2 archive_record (artifacts m) datas) @ gz_bytes st \<and> gz_error st = gz_error gz \<and> gz_rest st = gz_rest gz)"
    for gz st by (rule extract_all_Ok_iff) (rule accepted_release(2) [OF assms])
  have "extract_archive io m c = Ok tree \<longleftrightarrow> ?head
      \<and> (\<exists>st. extract_all io (artifacts m) ([], ti_gunzip io c) = Ok (tree, st) \<and> check_tail st = Ok ())"
    by (cases "length c < 10"; cases "take 10 c = gzip_header") (auto simp: extract_archive_def rbind_Ok_iff)
  also have "(\<exists>st. extract_all io (artifacts m) ([], ti_gunzip io c) = Ok (tree, st) \<and> check_tail st = Ok ()) \<longleftrightarrow> ?R" (is "?L \<longleftrightarrow> _")
  proof
    assume ?L
    then obtain st where st: "extract_all io (artifacts m) ([], ti_gunzip io c) = Ok (tree, st)" "check_tail st = Ok ()" by blast
    from st(2) obtain k where "2 \<le> k" "k \<le> 2048" "gz_bytes st = replicate (512 * k) 0" "gz_error st = None" "gz_rest st = []"
      unfolding check_tail_Ok_iff by blast
    moreover from st(1) obtain datas where "list_all2 (\<lambda>a d. writable io a \<and> payload_ok io a d) (artifacts m) datas"
        "put_files (zip (artifacts m) datas) [] = Some tree"
        "gz_bytes (ti_gunzip io c) = concat (map2 archive_record (artifacts m) datas) @ gz_bytes st"
        "gz_error st = gz_error (ti_gunzip io c)" "gz_rest st = gz_rest (ti_gunzip io c)"
      unfolding all by blast
    ultimately show ?R by (intro exI [of _ datas] exI [of _ k]) simp
  next
    assume ?R
    then obtain datas k where d: "list_all2 (\<lambda>a d. writable io a \<and> payload_ok io a d) (artifacts m) datas"
        "put_files (zip (artifacts m) datas) [] = Some tree"
        "gz_bytes (ti_gunzip io c) = concat (map2 archive_record (artifacts m) datas) @ replicate (512 * k) 0"
        "2 \<le> k" "k \<le> 2048" "gz_error (ti_gunzip io c) = None" "gz_rest (ti_gunzip io c) = []" by blast
    let ?st = "(ti_gunzip io c)\<lparr>gz_bytes := replicate (512 * k) 0\<rparr>"
    have "extract_all io (artifacts m) ([], ti_gunzip io c) = Ok (tree, ?st)"
      unfolding all using d by (intro exI [of _ datas]) simp
    moreover have "check_tail ?st = Ok ()" unfolding check_tail_Ok_iff using d by auto
    ultimately show ?L by blast
  qed
  finally show ?thesis .
qed

section \<open>Installation\<close>

lemma extract_and_publish_exact:
  assumes acc: "parse_release parse bytes = Ok m" and ok: "extract_and_publish io final bytes m = Ok tree"
    and wf: "\<And>t. ti_rename io = DestinationExists t \<Longrightarrow> wf_tree t"
  shows "release_tree (ti_sha256 io) m bytes tree"
proof -
  from ok obtain c t where c: "extract_archive io m c = Ok t"
    and out: "(case ti_rename io of Renamed \<Rightarrow> Ok (t @ [FileEnt ''manifest.json'' bytes])
       | DestinationExists other \<Rightarrow> rbind (verify_tree io final other bytes m) (\<lambda>_. Ok other)
       | RenameFailed e \<Rightarrow> Error (TransportIo e)) = Ok tree"
    by (auto simp: extract_and_publish_def rbind_Ok_iff Let_def split: if_splits)
  from c obtain datas where d: "list_all2 (\<lambda>a d. writable io a \<and> payload_ok io a d) (artifacts m) datas"
      "put_files (zip (artifacts m) datas) [] = Some t"
    unfolding extract_archive_Ok_iff [OF acc] by blast
  have "list_all2 (payload_ok io) (artifacts m) datas" by (rule list_all2_mono [OF d(1)]) simp
  from release_stage [OF acc this, of bytes] d(2)
  have stage: "release_tree (ti_sha256 io) m bytes (t @ [FileEnt ''manifest.json'' bytes])" by simp
  show ?thesis
  proof (cases "ti_rename io")
    case (DestinationExists other)
    then have "verify_tree io final other bytes m = Ok ()" "tree = other" using out by (auto simp: rbind_Ok_iff)
    then show ?thesis using verify_tree_Ok_iff [OF wf [OF DestinationExists] accepted_release(1) [OF acc]] by simp
  qed (use out stage in auto)
qed

lemma install_transport_Ok:
  assumes "install_transport io bundle cache = Ok (path, tree)"
  obtains content m archive where "ti_manifest io = Ok content"
    "parse_release (ti_parse io) (take (MANIFEST_LIMIT + 1) content) = Ok m"
    "ti_archive io = Ok archive" "ti_sha256 io archive = ai_sha256 (rm_archive m)"
    "path = cache @ [Normal ''goldens-v0.2'', Normal (ai_sha256 (rm_archive m))]"
    "ti_final io path = FinalDirectory tree \<and> verify_tree io path tree (take (MANIFEST_LIMIT + 1) content) m = Ok ()
     \<or> ti_final io path = FinalAbsent \<and> extract_and_publish io path (take (MANIFEST_LIMIT + 1) content) m = Ok tree"
proof -
  from assms obtain content m archive where
      ok: "ti_manifest io = Ok content" "parse_release (ti_parse io) (take (MANIFEST_LIMIT + 1) content) = Ok m"
      "ti_archive io = Ok archive" "ti_sha256 io archive = ai_sha256 (rm_archive m)"
    and out: "(let parent = cache @ [Normal ''goldens-v0.2'']; final = parent @ [Normal (ai_sha256 (rm_archive m))]; bytes = take (MANIFEST_LIMIT + 1) content in
       case ti_final io final of
         FinalNotDirectory \<Rightarrow> Error InvalidInstall
       | FinalDirectory tree \<Rightarrow> rbind (verify_tree io final tree bytes m) (\<lambda>_. Ok (final, tree))
       | FinalAbsent \<Rightarrow> rbind (extract_and_publish io final bytes m) (\<lambda>tree. Ok (final, tree))) = Ok (path, tree)"
    by (auto simp: install_transport_def digest_def rbind_Ok_iff Let_def split: if_splits)
  let ?final = "cache @ [Normal ''goldens-v0.2'', Normal (ai_sha256 (rm_archive m))]"
  show thesis
  proof (rule that [OF ok])
    show "path = ?final" using out by (cases "ti_final io ?final") (auto simp: Let_def rbind_Ok_iff)
    show "ti_final io path = FinalDirectory tree \<and> verify_tree io path tree (take (MANIFEST_LIMIT + 1) content) m = Ok ()
     \<or> ti_final io path = FinalAbsent \<and> extract_and_publish io path (take (MANIFEST_LIMIT + 1) content) m = Ok tree"
      using out by (cases "ti_final io ?final") (auto simp: Let_def rbind_Ok_iff)
  qed
qed

section \<open>A bundle that installs\<close>

definition two_data :: "8 word list list" where
  "two_data = [replicate 3 1, replicate 600 2]"

definition two_sha :: "8 word list \<Rightarrow> string" where
  "two_sha b = replicate 64 (if length b = 3 then CHR ''a'' else if length b = 600 then CHR ''b'' else CHR ''6'')"

definition two_io :: transport_io where
  "two_io = \<lparr>ti_stat = \<lambda>p. if p \<noteq> [] \<and> last p \<in> {Normal ''manifest.json'', Normal ARCHIVE} then StatFile 10 else StatDirectory,
     ti_stat_created = \<lambda>_. StatDirectory, ti_bundle_names = Ok [Ok ''manifest.json'', Ok ARCHIVE],
     ti_manifest = Ok [], ti_archive = Ok gzip_header, ti_archive_reread = Ok gzip_header,
     ti_parse = \<lambda>_. Ok two_manifest, ti_sha256 = two_sha,
     ti_gunzip = \<lambda>_. \<lparr>gz_bytes = concat (map2 archive_record two_artifacts two_data) @ replicate (512 * 2) 0,
       gz_error = None, gz_rest = []\<rparr>,
     ti_create_parent = Ok (), ti_final = \<lambda>_. FinalAbsent, ti_statvfs = Ok (TOTAL_LIMIT, 1),
     ti_create_stage = \<lambda>_. Created, ti_stage_path = \<lambda>_. [RootDir], ti_create = \<lambda>_. Ok (), ti_write = \<lambda>_. Ok (),
     ti_rename = Renamed\<rparr>"

lemma no_symlinks_plain: "(\<And>p. stat p \<noteq> StatSymlink) \<Longrightarrow> (\<And>p e. stat p \<noteq> StatFailed e) \<Longrightarrow> no_symlinks stat path = Ok ()"
proof -
  assume a: "\<And>p. stat p \<noteq> StatSymlink" "\<And>p e. stat p \<noteq> StatFailed e"
  have "check_ancestors stat ps = Ok ()" for ps by (induction ps) (use a in \<open>auto split: stat_answer.splits\<close>)
  then show ?thesis by (simp add: no_symlinks_def)
qed

lemma two_payloads: "list_all2 (payload_ok two_io) two_artifacts two_data"
  by (simp add: two_artifacts_def two_data_def payload_ok_def two_io_def two_sha_def)

lemma two_extracts:
  "\<exists>tree. extract_archive two_io two_manifest gzip_header = Ok tree
    \<and> verify_tree two_io [RootDir] (tree @ [FileEnt ''manifest.json'' []]) [] two_manifest = Ok ()"
proof -
  have data: "list_all2 (payload_ok two_io) (artifacts two_manifest) two_data" unfolding two_files by (rule two_payloads)
  obtain tree where t: "put_files (zip (artifacts two_manifest) two_data) [] = Some tree"
      "wf_tree (tree @ [FileEnt ''manifest.json'' []])"
      "release_tree (ti_sha256 two_io) two_manifest [] (tree @ [FileEnt ''manifest.json'' []])"
    using release_stage [OF two_accepted data, of "[]"] by blast
  have "list_all2 (\<lambda>a d. writable two_io a \<and> payload_ok two_io a d) (artifacts two_manifest) two_data"
    by (rule list_all2_mono [OF data]) (simp add: writable_def two_io_def)
  then have "extract_archive two_io two_manifest gzip_header = Ok tree"
    unfolding extract_archive_Ok_iff [OF two_accepted] using t(1)
    by (intro conjI exI [of _ two_data] exI [of _ 2]) (simp_all add: gzip_header_def two_io_def two_files)
  moreover have "no_symlinks (ti_stat_created two_io) [RootDir] = Ok ()" by (rule no_symlinks_plain) (simp_all add: two_io_def)
  then have "verify_tree two_io [RootDir] (tree @ [FileEnt ''manifest.json'' []]) [] two_manifest = Ok ()"
    using verify_tree_Ok_iff [OF t(2) accepted_release(1) [OF two_accepted]] t(3) by simp
  ultimately show ?thesis by blast
qed

lemma two_installs:
  "\<exists>tree. install_transport two_io [RootDir, Normal ''bundle''] [RootDir, Normal ''cache'']
     = Ok ([RootDir, Normal ''cache'', Normal ''goldens-v0.2'', Normal (ai_sha256 (rm_archive two_manifest))], tree)"
proof -
  obtain tree where t: "extract_archive two_io two_manifest gzip_header = Ok tree"
    "verify_tree two_io [RootDir] (tree @ [FileEnt ''manifest.json'' []]) [] two_manifest = Ok ()" using two_extracts by blast
  have sum: "sum_list (map ra_size_bytes (artifacts two_manifest)) = 603" by (simp add: two_files two_artifacts_def)
  have "create_stage (\<lambda>_. Created) 0 1024 = Ok 0" using create_stage.simps(2) [of "\<lambda>_. Created" 0 1023] by simp
  then have publish: "extract_and_publish two_io final [] two_manifest = Ok (tree @ [FileEnt ''manifest.json'' []])" for final
    using t sum by (simp add: extract_and_publish_def two_io_def saturating_mul_def TOTAL_LIMIT_def MANIFEST_LIMIT_def usize_bound_def)
  have sym: "no_symlinks (ti_stat two_io) path = Ok ()" for path by (rule no_symlinks_plain) (simp_all add: two_io_def)
  have sha: "two_sha gzip_header = ai_sha256 (rm_archive two_manifest)" by (simp add: two_sha_def gzip_header_def two_manifest_def)
  have "parse_release (ti_parse two_io) [] = Ok two_manifest" using two_accepted by (simp add: two_io_def)
  moreover have "regular two_io ([RootDir, Normal ''bundle''] @ [Normal f]) = Ok 10" if "f \<in> {''manifest.json'', ARCHIVE}" for f
    using that by (auto simp: regular_def two_io_def)
  moreover have "ti_bundle_names two_io = Ok [Ok ''manifest.json'', Ok ARCHIVE]" "ti_manifest two_io = Ok []"
    "ti_archive two_io = Ok gzip_header" "ti_sha256 two_io = two_sha" "ti_create_parent two_io = Ok ()" "ti_final two_io = (\<lambda>_. FinalAbsent)"
    "ti_stat_created two_io = (\<lambda>_. StatDirectory)" by (simp_all add: two_io_def)
  ultimately show ?thesis
    using sym publish sha
    by (simp add: install_transport_def digest_def check_archive_size_def ARCHIVE_LIMIT_def TOTAL_LIMIT_def MANIFEST_LIMIT_def
        reject_symlink_def Let_def)
qed

section \<open>Properties\<close>

text \<open>C20: an installation is exact. When \<^verbatim>\<open>install_transport\<close> returns a path, whether it extracted the bundle,
  found the release installed, or lost the race against another process, then the manifest of the
  bundle was accepted, the archive has the manifest's checksum, the path is the content address, and the
  tree there consists of the manifest's bytes, every artifact at its logical path with its declared size
  and checksum, and the directories above these, and nothing else.\<close>

theorem transport_installs_exactly:
  assumes "install_transport io bundle cache = Ok (path, tree)"
    and "\<And>t. ti_final io path = FinalDirectory t \<Longrightarrow> wf_tree t"
    and "\<And>t. ti_rename io = DestinationExists t \<Longrightarrow> wf_tree t"
  shows "\<exists>content m archive. ti_manifest io = Ok content
    \<and> parse_release (ti_parse io) (take (MANIFEST_LIMIT + 1) content) = Ok m
    \<and> ti_archive io = Ok archive \<and> ti_sha256 io archive = ai_sha256 (rm_archive m)
    \<and> path = cache @ [Normal ''goldens-v0.2'', Normal (ai_sha256 (rm_archive m))]
    \<and> release_tree (ti_sha256 io) m (take (MANIFEST_LIMIT + 1) content) tree"
  using assms(1)
proof (rule install_transport_Ok)
  fix content m archive
  assume man: "ti_manifest io = Ok content" and acc: "parse_release (ti_parse io) (take (MANIFEST_LIMIT + 1) content) = Ok m"
    and arc: "ti_archive io = Ok archive" "ti_sha256 io archive = ai_sha256 (rm_archive m)"
    and path: "path = cache @ [Normal ''goldens-v0.2'', Normal (ai_sha256 (rm_archive m))]"
    and how: "ti_final io path = FinalDirectory tree \<and> verify_tree io path tree (take (MANIFEST_LIMIT + 1) content) m = Ok ()
     \<or> ti_final io path = FinalAbsent \<and> extract_and_publish io path (take (MANIFEST_LIMIT + 1) content) m = Ok tree"
  have "release_tree (ti_sha256 io) m (take (MANIFEST_LIMIT + 1) content) tree"
    using how
  proof
    assume f: "ti_final io path = FinalDirectory tree \<and> verify_tree io path tree (take (MANIFEST_LIMIT + 1) content) m = Ok ()"
    have "wf_tree tree" by (rule assms(2)) (rule conjunct1 [OF f])
    with f show ?thesis using verify_tree_Ok_iff [OF _ accepted_release(1) [OF acc]] by simp
  next
    assume f: "ti_final io path = FinalAbsent \<and> extract_and_publish io path (take (MANIFEST_LIMIT + 1) content) m = Ok tree"
    show ?thesis
    proof (rule extract_and_publish_exact [OF acc conjunct2 [OF f]])
      show "wf_tree t" if "ti_rename io = DestinationExists t" for t using that by (rule assms(3))
    qed
  qed
  with man acc arc path show ?thesis by blast
qed

theorem transport_installs_exactly_witness:
  "\<exists>tree. install_transport two_io [RootDir, Normal ''bundle''] [RootDir, Normal ''cache'']
     = Ok ([RootDir, Normal ''cache'', Normal ''goldens-v0.2'', Normal (ai_sha256 (rm_archive two_manifest))], tree)
   \<and> release_tree two_sha two_manifest [] tree"
proof -
  let ?path = "[RootDir, Normal ''cache'', Normal ''goldens-v0.2'', Normal (ai_sha256 (rm_archive two_manifest))]"
  obtain tree where t: "install_transport two_io [RootDir, Normal ''bundle''] [RootDir, Normal ''cache''] = Ok (?path, tree)"
    using two_installs ..
  obtain content m where "ti_manifest two_io = Ok content" "parse_release (ti_parse two_io) (take (MANIFEST_LIMIT + 1) content) = Ok m"
      "release_tree (ti_sha256 two_io) m (take (MANIFEST_LIMIT + 1) content) tree"
    using transport_installs_exactly [OF t] by (auto simp: two_io_def)
  then have "release_tree two_sha two_manifest [] tree" using two_accepted by (simp add: two_io_def)
  with t show ?thesis by blast
qed

text \<open>C21: extraction accepts exactly the canonical archives. For an accepted release and a file system that
  does not fail, a compressed file is extracted if and only if it starts with the fixed gzip header, its
  one member decodes without an error to the canonical headers and zero-padded payloads of all
  artifacts in order, each with its declared size and checksum, followed by between 2 and 2048 zero
  blocks, and nothing follows the member.\<close>

theorem canonical_archive_iff:
  assumes "parse_release parse bytes = Ok m" "\<And>a. a \<in> set (artifacts m) \<Longrightarrow> writable io a"
  shows "(\<exists>tree. extract_archive io m c = Ok tree) \<longleftrightarrow> (10 \<le> length c \<and> take 10 c = gzip_header)
    \<and> (\<exists>datas k. list_all2 (payload_ok io) (artifacts m) datas
        \<and> gz_bytes (ti_gunzip io c) = concat (map2 archive_record (artifacts m) datas) @ replicate (512 * k) 0
        \<and> 2 \<le> k \<and> k \<le> 2048 \<and> gz_error (ti_gunzip io c) = None \<and> gz_rest (ti_gunzip io c) = [])"
    (is "?L \<longleftrightarrow> _ \<and> ?R")
proof -
  have both: "list_all2 (\<lambda>a d. writable io a \<and> payload_ok io a d) (artifacts m) datas \<longleftrightarrow> list_all2 (payload_ok io) (artifacts m) datas" for datas
    using assms(2) by (auto simp: list_all2_conv_all_nth)
  have placed: "\<exists>tree. put_files (zip (artifacts m) datas) [] = Some tree" if "list_all2 (payload_ok io) (artifacts m) datas" for datas
    using release_stage [OF assms(1) that, of "[]"] by blast
  show ?thesis unfolding extract_archive_Ok_iff [OF assms(1)] both using placed by blast
qed

theorem canonical_archive_iff_witness: "\<exists>tree. extract_archive two_io two_manifest gzip_header = Ok tree"
proof (subst canonical_archive_iff [OF two_accepted], goal_cases)
  case (1 a)
  show ?case by (simp add: writable_def two_io_def)
next
  case 2
  have "list_all2 (payload_ok two_io) (artifacts two_manifest) two_data" unfolding two_files by (rule two_payloads)
  then show ?case by (intro conjI exI [of _ two_data] exI [of _ 2]) (simp_all add: gzip_header_def two_io_def two_files)
qed

end
