(* ===== verification/Spec2Isabelle.thy ===== *)
theory Spec2Isabelle
  imports Composition Prefix_Reuse Sampler_Safety Golden_Gate Capture_Session Release_Exact
begin

text \<open>
  Verification of vllm-oxide, an inference engine for large language models in Rust with continuous
  batching, a paged key/value cache with automatic prefix caching, and preemption by recomputation.
  Every definition is a translation of code under \<^verbatim>\<open>src/crates/vllm-oxide/src\<close>, to which paths below
  are relative, or of the release test tool under \<^verbatim>\<open>src/crates/vllm-oxide-test/src\<close>, whose theories
  are the last group.

  \<^bold>\<open>The program.\<close> \<^verbatim>\<open>LLM::new\<close> resolves a model source to one immutable identity, builds the model on
  its device, measures the free memory, allocates the paged cache and runs a warmup. \<^verbatim>\<open>LLM::generate\<close>
  tokenizes a call's prompts, admits them to the engine, and drives engine steps until all outputs
  are there. A step asks the scheduler for a plan, prepares the attention metadata of the plan in the
  shared attention context, runs the model and the sampler, and hands the sampled tokens back to the
  scheduler. The scheduler keeps two queues; it runs, admits, preempts and finishes sequences within
  a token budget, and reaches physical cache blocks only through the cache manager. The block pool
  hands out blocks, counts references, and indexes full blocks by the chained hash of their tokens,
  so that a new request reuses the blocks of a prefix that is already computed.

  A release is gated by \<^verbatim>\<open>vllm-oxide-test\<close>. It validates a manifest of golden fixtures (reference and
  baseline generations of other engines), loads the fixture files, generates the same prompts with a
  fresh engine, and compares tokens and logits. The logits leave the engine through a diagnostic
  session that spools every step's rows and publishes one artifact, which the tool validates again.

  \<^bold>\<open>Theories and code.\<close>
  \<^item> \<open>Prelude\<close>: outcomes of fallible code (\<open>Ok\<close>, \<open>Err\<close>, and \<open>Panic\<close> for panics), the checked and
    saturating arithmetic of \<^verbatim>\<open>usize\<close> (values of type \<open>nat\<close> with every bound \<open>2 ^ 64\<close> written out),
    list and multiset lemmas, and the collections the component proofs simplify with.
  \<^item> \<open>Sequences\<close>, \<open>Block_Pool\<close>, \<open>KV_Cache_Manager\<close>: \<^verbatim>\<open>engine/sequence.rs\<close>, \<^verbatim>\<open>engine/block_pool.rs\<close>,
    \<^verbatim>\<open>engine/kv_cache_manager.rs\<close>. \<open>Ownership\<close> proves that free list, used set, reference counts and
    the block tables of the sequences always account for each other; \<open>Prefix_Cache\<close> that a cache hit
    has exactly the tokens asked for, whatever the hash function does; \<open>Prefix_Index\<close> the converse,
    that what was published is found; \<open>Prefix_Reuse\<close> states both over every state the manager can
    reach (an inductive step relation over all its operations).
  \<^item> \<open>Attn_Metadata\<close>, \<open>Attention_Context\<close>: \<^verbatim>\<open>attention/metadata.rs\<close>, \<^verbatim>\<open>attention/math_layout.rs\<close>,
    \<^verbatim>\<open>attention/mod.rs\<close>: builders and validation of step metadata, the workspace planner, padding and its
    inverse, and the guard state machine that decides who may read which metadata.
  \<^item> \<open>Step_Plan\<close>, \<open>Scheduler\<close>: \<^verbatim>\<open>engine/step.rs\<close>, \<^verbatim>\<open>engine/scheduler.rs\<close>.
    \<open>Scheduler_Invariant\<close>, \<open>Admission\<close>, \<open>Selection\<close>, \<open>Planning\<close>, \<open>Plan_Safety\<close> follow
    \<^verbatim>\<open>plan_step\<close> from work selection to the finished plan; \<open>Applying\<close> and \<open>Apply_Safety\<close> treat
    \<^verbatim>\<open>apply_step_result\<close> and \<^verbatim>\<open>abort_all_requests\<close>; \<open>Progress\<close> gives the measure that decreases in
    every step.
  \<^item> \<open>Engine\<close>, \<open>Engine_Safety\<close>: \<^verbatim>\<open>engine/mod.rs\<close>, one step with its attention scope, its failure path
    and its unwinding. \<open>Serving\<close> bounds the number of steps of a call.
  \<^item> \<open>Loader\<close>, \<open>Snapshot\<close>, \<open>Model_Identity\<close>, \<open>Qwen3_Config\<close>: \<^verbatim>\<open>config.rs\<close>, \<^verbatim>\<open>loader.rs\<close>,
    \<^verbatim>\<open>loader/model_identity.rs\<close>, the configuration part of \<^verbatim>\<open>models/qwen3.rs\<close>, \<^verbatim>\<open>models/registry.rs\<close>.
  \<^item> \<open>Device_Float\<close>, \<open>Initialization\<close>: \<^verbatim>\<open>llm/initialization.rs\<close>, the memory budget in \<^verbatim>\<open>f64\<close> and the
    warmup. \<open>Step_Loop\<close>, \<open>Generate\<close>, \<open>Composition\<close>: \<^verbatim>\<open>llm.rs\<close>, generation and construction.
  \<^item> \<open>Sampling\<close>, \<open>Float_Ops\<close>, \<open>Sampler\<close>, \<open>Sampler_Safety\<close>: \<^verbatim>\<open>sampler.rs\<close>, the parameter contract,
    IEEE rounding of \<^verbatim>\<open>f32\<close> and \<^verbatim>\<open>f64\<close>, the host pipeline, the wide path and the device path.
  \<^item> \<open>Capture_Session\<close>: \<^verbatim>\<open>golden_capture.rs\<close>, the session that records the logits of a call (binding,
    spooling, validation, completion). \<open>Capture_Protocol\<close>: \<^verbatim>\<open>capture.rs\<close> of the test tool, the reader
    of the artifact; the session's theory proves that the reader returns what was recorded.
  \<^item> \<open>Golden_Types\<close>, \<open>Golden_Manifest\<close>, \<open>Golden_Fixture\<close>, \<open>Golden_Prompts\<close>: the test tool's
    \<^verbatim>\<open>types.rs\<close>, \<^verbatim>\<open>manifest.rs\<close> and \<^verbatim>\<open>prompts.rs\<close>. \<open>Golden_Compare\<close>: \<^verbatim>\<open>l1.rs\<close> and \<^verbatim>\<open>l2.rs\<close>.
    \<open>Golden_Lifecycle\<close>: \<^verbatim>\<open>lifecycle.rs\<close>, \<^verbatim>\<open>driver.rs\<close>, \<^verbatim>\<open>l3.rs\<close> and the verdict of \<^verbatim>\<open>report.rs\<close>.
    \<open>Golden_Gate\<close> composes them: what a passing report implies, and that a prepared case is always
    compared.
  \<^item> \<open>Release_Manifest\<close>, \<open>Release_Install\<close>: \<^verbatim>\<open>release_transport.rs\<close> of the test tool, the inventory of a
    transported release, its canonical USTAR headers, and its extraction, verification and installation. \<open>Release_Exact\<close> proves
    that an installed tree is exactly that of the manifest.

  \<^bold>\<open>State and operations.\<close> A struct is a record with the code's fields, an operation on \<^verbatim>\<open>&mut self\<close>
  is a function from the record to the updated record and an outcome. Where an operation also changes
  borrowed sequences (allocation writes the block table of a sequence) these are returned too. Errors
  carry a constructor per message of the code. Panics are a value of their own, never merged with
  errors, so absence of panics is a theorem and not an assumption.

  \<^bold>\<open>Interfaces.\<close> The locale \<open>kv_seam\<close> is the contract between scheduler and cache manager: which
  operations may change what, and that they keep the ownership invariant; it is interpreted on the
  model of \<^verbatim>\<open>KVCacheManager\<close>. The locale \<open>step_loop\<close> is the contract of a loop that drives a stepping
  machine until it is idle; it is interpreted on the engine, which gives total correctness of the loop
  of \<^verbatim>\<open>generate\<close>.

  \<^bold>\<open>What the lemmas show.\<close> The scheduler invariant (queues, ownership, bounds of every sequence,
  the plan in flight) is preserved by every operation. From it: planning never panics and only
  reports documented refusals; the plan is the abstract entry of each selected sequence; the slots
  it writes are distinct and unshared; its metadata passes the attention layer's checks; a result is
  applied exactly once or rejected without effect; an abort frees everything; requests are neither
  lost nor duplicated and outputs stop for a documented reason. At the engine: a step either
  advances or leaves a drained engine, also when the model panics. At the top: \<^verbatim>\<open>generate\<close> returns, and
  what \<^verbatim>\<open>LLM::new\<close> builds satisfies what \<^verbatim>\<open>generate\<close> requires. At the release gate: captures and
  fixtures round-trip, an accepted manifest pairs its fixtures, the comparisons decide what they
  document, and a report passes only if every expected fixture was read, checked and compared.

  \<^bold>\<open>Bounds and termination.\<close> The block size is the code's 256. Counts of tokens and blocks are kept
  below \<open>2 ^ 64\<close> by checks the code makes, or by hypotheses that a property names (a request's
  tokens are representable). The loop of \<^verbatim>\<open>generate\<close> is a \<open>partial_function\<close> without fuel; that it
  returns is the first property. It needs a token budget of at least two per step: with a budget of
  one, the code accepts the options but can preempt and readmit the same two sequences for ever.
  All other loops are total functions over their data.

  \<^bold>\<open>Parameters.\<close> The hash XXH64, the tensors and the model's layers, the tokenizer, file system, Hub
  client and JSON parsers, the CUDA driver's answers, the random generator, \<^verbatim>\<open>exp\<close> and the Gumbel
  draw, and the device kernels are arguments of the definitions that use them. So are, for the
  release gate, the JSON codec and the safetensors parser, SHA-256, directory listings and file reads
  (the preflight reads a fixture twice, once for its checksum and once to load it, so these are two
  arguments), and the generation of a case. Theorems hold for all of them unless a hypothesis names
  what is relied on.

  \<^bold>\<open>Not modelled.\<close> CUDA kernels and their launch code (\<^verbatim>\<open>sampler/cuda.rs\<close>, \<^verbatim>\<open>attention/kernels.rs\<close>);
  the tensor programs of attention and the layers (\<^verbatim>\<open>attention/math.rs\<close>, \<^verbatim>\<open>attention/math_ops.rs\<close>,
  \<^verbatim>\<open>layers\<close>), whose content is arithmetic of a tensor library; the tracers of \<^verbatim>\<open>golden_capture/\<close> and
  the telemetry, which copy tensors and counters of a step to files; of the test tool the download,
  approval, observation, measurement and benchmark commands and its printing, and the
  command line; \<^verbatim>\<open>llm/precision.rs\<close>, one switch of cuBLAS; logging, timing and \<^verbatim>\<open>Display\<close>.
\<close>

end
